(* ===== verification/Prelude.thy ===== *)
theory Prelude
  imports Complex_Main "HOL-Library.Word" "HOL-Library.Log_Nat" "HOL-Library.Signed_Division"
begin

text \<open>
  Shared material of the development: names for the C integer types, the
  collections of simplification rules the component theories extend, generic
  lemmas on lists and words, and the locale in which the invariants of all
  state machines of the development are lifted to runs.
\<close>

unbundle bit_operations_syntax

section \<open>C integer types\<close>

type_synonym u8 = "8 word"
type_synonym u16 = "16 word"
type_synonym u32 = "32 word"
type_synonym u64 = "64 word"

section \<open>Faults of the C abstract machine\<close>

text \<open>
  An execution that leaves the defined behaviour of C, or that the hardware
  stops with a signal, ends in a fault instead of a value.
\<close>

datatype fault =
    OutOfBounds    \<comment> \<open>array access outside its object\<close>
  | NullDeref      \<comment> \<open>access through a null pointer\<close>
  | DivByZero      \<comment> \<open>integer division or remainder by zero\<close>
  | BadConversion  \<comment> \<open>double to integer, value not representable\<close>
  | SignedOverflow \<comment> \<open>overflow of a signed integer\<close>
  | Blocked        \<comment> \<open>a spin lock that is already held\<close>
  | BadPointer     \<comment> \<open>access through an invalid pointer other than null\<close>
  | BadShift       \<comment> \<open>shift by a negative amount or by the width or more\<close>
  | AssertFailed   \<comment> \<open>an assertion that stops the program\<close>
  | Diverges       \<comment> \<open>a loop that never ends\<close>

fun bindE :: "fault + 'a \<Rightarrow> ('a \<Rightarrow> fault + 'b) \<Rightarrow> fault + 'b" where
  "bindE (Inl e) f = Inl e"
| "bindE (Inr x) f = f x"

fun orFault :: "fault \<Rightarrow> 'a option \<Rightarrow> fault + 'a" where
  "orFault e None = Inl e"
| "orFault e (Some x) = Inr x"

lemma bindE_Inr: "bindE m f = Inr y \<longleftrightarrow> (\<exists>x. m = Inr x \<and> f x = Inr y)"
  by (cases m) auto

lemma orFault_Inr [simp]: "orFault e x = Inr y \<longleftrightarrow> x = Some y"
  by (cases x) auto

lemma map_sum_Inr: "map_sum id f z = Inr w \<longleftrightarrow> (\<exists>v. z = Inr v \<and> f v = w)"
  by (cases z) auto

text \<open>A counting loop whose body may fault: the state after the indices in the list.\<close>

fun foldE :: "('a \<Rightarrow> 's \<Rightarrow> fault + 's) \<Rightarrow> 'a list \<Rightarrow> 's \<Rightarrow> fault + 's" where
  "foldE f [] s = Inr s"
| "foldE f (x # xs) s = bindE (f x s) (foldE f xs)"

lemma foldE_append: "foldE f (xs @ ys) s = bindE (foldE f xs s) (foldE f ys)"
proof (induction xs arbitrary: s)
  case (Cons x xs)
  then show ?case by (cases "f x s") auto
qed simp

lemma foldE_fold:
  assumes "\<And>x t. x \<in> set xs \<Longrightarrow> P t \<Longrightarrow> f x t = Inr (g x t) \<and> P (g x t)" "P s"
  shows "foldE f xs s = Inr (fold g xs s)"
  using assms by (induction xs arbitrary: s) auto

section \<open>Collections\<close>

named_theorems dbl_simps "evaluation and exactness rules of the double model"
named_theorems tb_simps "rules of the token bucket component"
named_theorems cache_simps "rules of the QP cache component"
named_theorems table_simps "rules of the resource table component"
named_theorems heap_simps "rules of the pointer heaps"
named_theorems bitmap_simps "rules of the bitmaps"

section \<open>Generic lemmas\<close>

text \<open>Words are read as natural numbers throughout; the library would turn the readings back.\<close>

declare of_nat_unat [simp del]

lemma nth_list_update_if: "i < length xs \<Longrightarrow> xs[i := v] ! j = (if i = j then v else xs ! j)"
  by simp

lemma sint_of_small:
  fixes w :: u32
  assumes "unat w < 2 ^ 31"
  shows "sint w = int (unat w)"
proof -
  have "w = word_of_nat (unat w)" by (simp add: of_nat_unat)
  then have "sint w = signed_take_bit 31 (int (unat w))"
    using sint_sbintrunc'[of "int (unat w)", where ?'a = 32] by simp
  also have "\<dots> = int (unat w)"
    using assms by (intro signed_take_bit_int_eq_self) simp_all
  finally show ?thesis .
qed

lemma unat_eqD: "unat v = unat w \<Longrightarrow> v = w"
  by (rule unsigned_word_eqI)

lemma unat_add_less: "unat a + unat b < 2 ^ LENGTH('a) \<Longrightarrow> unat (a + b) = unat a + unat b"
  for a b :: "'a::len word"
  by (simp add: unat_word_ariths)

lemma unat_sub_ge: "b \<le> a \<Longrightarrow> unat (a - b) = unat a - unat b"
  for a b :: "'a::len word"
  by (simp add: unat_sub)

section \<open>Invariants of transition systems\<close>

text \<open>
  Every state machine of the development is a start predicate and a step
  relation. An invariant that holds at the start and is kept by each step
  holds after any number of steps.
\<close>

locale transition_inv =
  fixes start :: "'s \<Rightarrow> bool"
    and step :: "'s \<Rightarrow> 's \<Rightarrow> bool"
    and inv :: "'s \<Rightarrow> bool"
  assumes start_inv: "start s \<Longrightarrow> inv s"
    and step_inv: "inv s \<Longrightarrow> step s t \<Longrightarrow> inv t"
begin

lemma steps_inv: "step\<^sup>*\<^sup>* s t \<Longrightarrow> inv s \<Longrightarrow> inv t"
  by (induction rule: rtranclp_induct) (auto intro: step_inv)

lemma reach_inv: "start s \<Longrightarrow> step\<^sup>*\<^sup>* s t \<Longrightarrow> inv t"
  by (blast intro: start_inv steps_inv)

end

end
