(* ===== verification/CDouble.thy ===== *)
theory CDouble
  imports Prelude
begin

text \<open>
  The C type \<open>double\<close> (IEEE 754 binary64, round to nearest, ties to even) as far
  as the token buckets and the monitor use it: conversion from unsigned
  integers, subtraction, multiplication, division, comparison, \<open>ceil\<close> and the
  conversion back to \<open>uint64_t\<close>. A finite double is a rational number; every
  operation computes the exact rational result and rounds it to 53 significant
  bits. The exponent is not bounded: the operands are converted 64-bit integers
  and quotients and products of a few of them, which stay inside the normal
  range of binary64. The sign of zero is not kept: no modelled division has a
  divisor that can be a negative zero. The conversion to \<open>uint64_t\<close> is undefined
  in C when the truncated value does not fit, and is \<open>None\<close> here.
\<close>

section \<open>Rounding to 53 significant bits\<close>

definition floor_log2 :: "rat \<Rightarrow> int" where
  "floor_log2 x =
     (let (p, q) = quotient_of x; k = bitlen p - bitlen q
      in if 2 powi k \<le> x then k else k - 1)"

definition rnd_even :: "rat \<Rightarrow> int" where
  "rnd_even x =
     (let f = \<lfloor>x\<rfloor>; d = x - of_int f
      in if d < 1 / 2 then f else if 1 / 2 < d then f + 1
         else if even f then f else f + 1)"

definition rnd53 :: "rat \<Rightarrow> rat" where
  "rnd53 x =
     (if x = 0 then 0
      else let e = floor_log2 \<bar>x\<bar> - 52 in of_int (rnd_even (x / 2 powi e)) * 2 powi e)"

section \<open>Doubles and their operations\<close>

datatype dbl = DFin rat | DInf bool | DNaN \<comment> \<open>\<open>DInf True\<close> is minus infinity\<close>

definition dbl_of_u64 :: "u64 \<Rightarrow> dbl" where
  "dbl_of_u64 w = DFin (rnd53 (of_nat (unat w)))"

definition dbl_of_int :: "int \<Rightarrow> dbl" where
  "dbl_of_int i = DFin (rnd53 (of_int i))"

definition dbl_lit :: "rat \<Rightarrow> dbl" where
  "dbl_lit x = DFin (rnd53 x)"

fun dsub :: "dbl \<Rightarrow> dbl \<Rightarrow> dbl" where
  "dsub (DFin a) (DFin b) = DFin (rnd53 (a - b))"
| "dsub (DFin a) (DInf s) = DInf (\<not> s)"
| "dsub (DInf s) (DFin b) = DInf s"
| "dsub (DInf s) (DInf t) = (if s = t then DNaN else DInf s)"
| "dsub DNaN _ = DNaN"
| "dsub _ DNaN = DNaN"

fun dmul :: "dbl \<Rightarrow> dbl \<Rightarrow> dbl" where
  "dmul (DFin a) (DFin b) = DFin (rnd53 (a * b))"
| "dmul (DFin a) (DInf s) = (if a = 0 then DNaN else DInf (s \<noteq> (a < 0)))"
| "dmul (DInf s) (DFin b) = (if b = 0 then DNaN else DInf (s \<noteq> (b < 0)))"
| "dmul (DInf s) (DInf t) = DInf (s \<noteq> t)"
| "dmul DNaN _ = DNaN"
| "dmul _ DNaN = DNaN"

fun ddiv :: "dbl \<Rightarrow> dbl \<Rightarrow> dbl" where
  "ddiv (DFin a) (DFin b) =
     (if b = 0 then (if a = 0 then DNaN else DInf (a < 0)) else DFin (rnd53 (a / b)))"
| "ddiv (DFin a) (DInf s) = DFin 0"
| "ddiv (DInf s) (DFin b) = DInf (s \<noteq> (b < 0))"
| "ddiv (DInf s) (DInf t) = DNaN"
| "ddiv DNaN _ = DNaN"
| "ddiv _ DNaN = DNaN"

fun dlt :: "dbl \<Rightarrow> dbl \<Rightarrow> bool" where
  "dlt (DFin a) (DFin b) = (a < b)"
| "dlt (DFin a) (DInf s) = (\<not> s)"
| "dlt (DInf s) (DFin b) = s"
| "dlt (DInf s) (DInf t) = (s \<and> \<not> t)"
| "dlt DNaN _ = False"
| "dlt _ DNaN = False"

fun dceil :: "dbl \<Rightarrow> dbl" where
  "dceil (DFin a) = DFin (of_int \<lceil>a\<rceil>)"
| "dceil d = d"

fun u64_of_dbl :: "dbl \<Rightarrow> u64 option" where
  "u64_of_dbl (DFin a) =
     (if -1 < a \<and> a < 2 ^ 64 then Some (word_of_int (if a < 0 then 0 else \<lfloor>a\<rfloor>)) else None)"
| "u64_of_dbl (DInf s) = None"
| "u64_of_dbl DNaN = None"

section \<open>Binary logarithm\<close>

lemma floor_log2_bounds:
  assumes "0 < x"
  shows "2 powi (floor_log2 x) \<le> x" and "x < 2 powi (floor_log2 x + 1)"
proof -
  obtain p q where pq: "quotient_of x = (p, q)" by fastforce
  have q0: "0 < q" using quotient_of_denom_pos[OF pq] .
  have x: "x = of_int p / of_int q" using quotient_of_div[OF pq] .
  have p0: "0 < p" using assms q0 unfolding x by (simp add: zero_less_divide_iff)
  define k where "k = bitlen p - bitlen q"
  have bp: "2 ^ nat (bitlen p - 1) \<le> p" "p < 2 ^ nat (bitlen p)"
    and bq: "2 ^ nat (bitlen q - 1) \<le> q" "q < 2 ^ nat (bitlen q)"
    using bitlen_bounds[OF p0] bitlen_bounds[OF q0] by auto
  have pos: "0 < bitlen p" "0 < bitlen q"
    using p0 q0 bitlen_nonneg[of p] bitlen_nonneg[of q] by (simp_all add: order_less_le bitlen_eq_zero_iff)
  have powi: "(2::rat) powi (bitlen y) = of_int (2 ^ nat (bitlen y))"
    "(2::rat) powi (bitlen y - 1) = of_int (2 ^ nat (bitlen y - 1))" if "0 < bitlen y" for y
    using that by (simp_all add: power_int_def)
  have up: "x < 2 powi (k + 1)"
  proof -
    have "x * 2 powi (bitlen q - 1) \<le> of_int p"
      unfolding x powi(2)[OF pos(2)] using bq(1) q0 p0
      by (simp add: divide_le_eq mult.commute mult_left_mono field_simps)
    also have "of_int p < (2::rat) powi bitlen p"
      unfolding powi(1)[OF pos(1)] using bp(2) by (simp only: of_int_less_iff)
    also have "\<dots> = 2 powi (k + 1) * 2 powi (bitlen q - 1)"
      by (simp add: k_def flip: power_int_add)
    finally show ?thesis by simp
  qed
  have lo: "2 powi (k - 1) \<le> x"
  proof -
    have "2 powi (k - 1) * of_int q \<le> 2 powi (k - 1) * (2::rat) powi bitlen q"
      unfolding powi(1)[OF pos(2)] using bq(2)
      by (intro mult_left_mono) (simp_all only: of_int_le_iff less_imp_le, simp)
    also have "\<dots> = 2 powi (bitlen p - 1)" by (simp add: k_def flip: power_int_add)
    also have "\<dots> \<le> of_int p" unfolding powi(2)[OF pos(1)] using bp(1) by (simp only: of_int_le_iff)
    finally show ?thesis using q0 by (simp add: x le_divide_eq)
  qed
  have fl: "floor_log2 x = (if 2 powi k \<le> x then k else k - 1)"
    by (simp add: floor_log2_def pq k_def)
  show "2 powi (floor_log2 x) \<le> x" using fl lo by (simp split: if_splits)
  show "x < 2 powi (floor_log2 x + 1)" using fl up by (simp split: if_splits)
qed

lemma floor_log2_unique:
  assumes "2 powi k \<le> x" "x < 2 powi (k + 1)"
  shows "floor_log2 x = k"
proof -
  have x: "0 < x" using assms(1) by (meson less_le_trans zero_less_power_int zero_less_numeral)
  note b = floor_log2_bounds[OF x]
  have "(2::rat) powi (floor_log2 x) < 2 powi (k + 1)" "(2::rat) powi k < 2 powi (floor_log2 x + 1)"
    using b assms by linarith+
  then have "floor_log2 x < k + 1" "k < floor_log2 x + 1"
    using power_int_increasing[of "k + 1" "floor_log2 x" "2::rat"]
      power_int_increasing[of "floor_log2 x + 1" k "2::rat"] by (force simp: not_less[symmetric])+
  then show ?thesis by simp
qed

lemma floor_log2_mono:
  assumes "0 < x" "x \<le> y"
  shows "floor_log2 x \<le> floor_log2 y"
proof (rule ccontr)
  assume "\<not> ?thesis"
  then have "(2::rat) powi (floor_log2 y + 1) \<le> 2 powi (floor_log2 x)"
    by (intro power_int_increasing) auto
  then show False
    using floor_log2_bounds(1)[of x] floor_log2_bounds(2)[of y] assms by linarith
qed

section \<open>Rounding to an integer\<close>

lemma rnd_even_of_int [simp]: "rnd_even (of_int n) = n"
  by (simp add: rnd_even_def)

lemma rnd_even_near: "\<bar>of_int (rnd_even x) - x\<bar> \<le> 1 / 2"
proof -
  have "of_int \<lfloor>x\<rfloor> \<le> x" "x < of_int \<lfloor>x\<rfloor> + 1" by linarith+
  then show ?thesis unfolding rnd_even_def Let_def by auto
qed

lemma rnd_even_floor: "\<lfloor>x\<rfloor> \<le> rnd_even x" and rnd_even_floor1: "rnd_even x \<le> \<lfloor>x\<rfloor> + 1"
  by (simp_all add: rnd_even_def Let_def)

lemma rnd_even_mono:
  assumes "x \<le> y" shows "rnd_even x \<le> rnd_even y"
proof (cases "\<lfloor>x\<rfloor> = \<lfloor>y\<rfloor>")
  case True
  with assms show ?thesis by (simp add: rnd_even_def Let_def)
next
  case False
  with assms floor_mono[OF assms] have "\<lfloor>x\<rfloor> + 1 \<le> \<lfloor>y\<rfloor>" by linarith
  with rnd_even_floor1[of x] rnd_even_floor[of y] show ?thesis by linarith
qed

section \<open>Rounding to 53 bits: exactness, monotonicity and relative error\<close>

definition ulp_exp :: "rat \<Rightarrow> int" where
  "ulp_exp x = floor_log2 \<bar>x\<bar> - 52"

lemma rnd53_alt: "x \<noteq> 0 \<Longrightarrow> rnd53 x = of_int (rnd_even (x / 2 powi ulp_exp x)) * 2 powi ulp_exp x"
  by (simp add: rnd53_def ulp_exp_def Let_def)

lemma rnd53_0 [simp]: "rnd53 0 = 0"
  by (simp add: rnd53_def)

lemma scaled_bounds:
  assumes "0 < x"
  shows "of_int (2 ^ 52) \<le> x / 2 powi ulp_exp x" and "x / 2 powi ulp_exp x < of_int (2 ^ 53)"
proof -
  have p: "(2::rat) powi floor_log2 x = 2 ^ 52 * 2 powi ulp_exp x"
    "(2::rat) powi (floor_log2 x + 1) = 2 ^ 53 * 2 powi ulp_exp x"
    using assms by (simp_all add: ulp_exp_def power_int_diff power_int_add)
  show "of_int (2 ^ 52) \<le> x / 2 powi ulp_exp x"
    using floor_log2_bounds(1)[OF assms] unfolding p by (simp add: le_divide_eq)
  show "x / 2 powi ulp_exp x < of_int (2 ^ 53)"
    using floor_log2_bounds(2)[OF assms] unfolding p by (simp add: divide_less_eq)
qed

lemma rnd53_range:
  assumes "0 < x"
  shows "2 powi floor_log2 x \<le> rnd53 x" and "rnd53 x \<le> 2 powi (floor_log2 x + 1)"
proof -
  have p: "(2::rat) powi floor_log2 x = of_int (2 ^ 52) * 2 powi ulp_exp x"
    "(2::rat) powi (floor_log2 x + 1) = of_int (2 ^ 53) * 2 powi ulp_exp x"
    using assms by (simp_all add: ulp_exp_def power_int_diff power_int_add)
  have "2 ^ 52 \<le> rnd_even (x / 2 powi ulp_exp x)" "rnd_even (x / 2 powi ulp_exp x) \<le> 2 ^ 53"
    using rnd_even_mono[OF scaled_bounds(1)[OF assms]]
      rnd_even_mono[OF less_imp_le[OF scaled_bounds(2)[OF assms]]]
    by (simp_all only: rnd_even_of_int)
  then have "of_int (2 ^ 52) \<le> (of_int (rnd_even (x / 2 powi ulp_exp x)) :: rat)"
    "(of_int (rnd_even (x / 2 powi ulp_exp x)) :: rat) \<le> of_int (2 ^ 53)"
    by (simp_all only: of_int_le_iff)
  then show "2 powi floor_log2 x \<le> rnd53 x" "rnd53 x \<le> 2 powi (floor_log2 x + 1)"
    using assms unfolding p by (simp_all add: rnd53_alt mult_right_mono)
qed

lemma rnd53_nonneg: "0 \<le> x \<Longrightarrow> 0 \<le> rnd53 x"
  using rnd53_range(1)[of x] by (cases "x = 0") (auto intro: order_trans[rotated])

lemma rnd53_nonpos:
  assumes "x \<le> 0" shows "rnd53 x \<le> 0"
proof (cases "x = 0")
  case False
  have "x / 2 powi ulp_exp x \<le> of_int 0" using assms by (simp add: divide_le_0_iff)
  then have "rnd_even (x / 2 powi ulp_exp x) \<le> 0" using rnd_even_mono rnd_even_of_int by metis
  then show ?thesis using False by (simp add: rnd53_alt mult_le_0_iff)
qed simp

lemma rnd53_pos: "0 < x \<Longrightarrow> 0 < rnd53 x"
  using rnd53_range(1)[of x] by (meson less_le_trans zero_less_power_int zero_less_numeral)

lemma rnd53_mono:
  assumes "0 \<le> x" "x \<le> y"
  shows "rnd53 x \<le> rnd53 y"
proof (cases "x = 0")
  case True
  with assms show ?thesis by (simp add: rnd53_nonneg)
next
  case False
  with assms have x: "0 < x" and y: "0 < y" by linarith+
  show ?thesis
  proof (cases "floor_log2 x = floor_log2 y")
    case True
    then have "ulp_exp x = ulp_exp y" using x y by (simp add: ulp_exp_def)
    moreover have "x / 2 powi ulp_exp y \<le> y / 2 powi ulp_exp y"
      using assms(2) by (simp add: divide_right_mono)
    ultimately show ?thesis
      using x y by (simp add: rnd53_alt rnd_even_mono)
  next
    case False
    with floor_log2_mono[OF x assms(2)] have "floor_log2 x + 1 \<le> floor_log2 y" by simp
    then have "(2::rat) powi (floor_log2 x + 1) \<le> 2 powi floor_log2 y"
      by (rule power_int_increasing) simp
    with rnd53_range(2)[OF x] rnd53_range(1)[OF y] show ?thesis by linarith
  qed
qed

lemma rnd53_rel_error: "\<bar>rnd53 x - x\<bar> \<le> \<bar>x\<bar> / 2 ^ 53"
proof (cases "x = 0")
  case False
  let ?e = "ulp_exp x"
  have "\<bar>rnd53 x - x\<bar> = \<bar>of_int (rnd_even (x / 2 powi ?e)) - x / 2 powi ?e\<bar> * 2 powi ?e"
    using False abs_mult_pos[of "2 powi ?e" "of_int (rnd_even (x / 2 powi ?e)) - x / 2 powi ?e"]
    by (simp add: rnd53_alt left_diff_distrib)
  also have "\<dots> \<le> 1 / 2 * 2 powi ?e"
    by (intro mult_right_mono rnd_even_near) simp
  also have "\<dots> = 2 powi floor_log2 \<bar>x\<bar> / 2 ^ 53"
    by (simp add: ulp_exp_def power_int_diff)
  also have "\<dots> \<le> \<bar>x\<bar> / 2 ^ 53"
    using floor_log2_bounds(1)[of "\<bar>x\<bar>"] False by (simp add: divide_right_mono)
  finally show ?thesis .
qed simp

lemma rnd53_scaled_int:
  assumes "x \<noteq> 0" "x / 2 powi ulp_exp x = of_int n"
  shows "rnd53 x = x"
proof -
  have "rnd53 x = of_int n * 2 powi ulp_exp x"
    unfolding rnd53_alt[OF assms(1)] assms(2) by simp
  also have "\<dots> = x" unfolding assms(2)[symmetric] by simp
  finally show ?thesis .
qed

lemma rnd53_exact:
  assumes "\<bar>m\<bar> \<le> 2 ^ 53"
  shows "rnd53 (of_int m * 2 powi e) = of_int m * 2 powi e" (is "rnd53 ?x = ?x")
proof (cases "m = 0")
  case False
  have abs_x: "\<bar>?x\<bar> = of_int \<bar>m\<bar> * 2 powi e" by (simp add: abs_mult)
  have x0: "0 < \<bar>?x\<bar>" using False by simp
  show ?thesis
  proof (cases "\<bar>m\<bar> = 2 ^ 53")
    case True
    then have "\<bar>?x\<bar> = 2 powi (53 + e)" unfolding abs_x by (simp add: power_int_add)
    then have u: "ulp_exp ?x = e + 1"
      by (auto simp: ulp_exp_def power_int_add intro!: floor_log2_unique[of "53 + e"])
    have "(of_int m :: rat) = of_int (sgn m * 2 ^ 53)"
      using True by (simp add: sgn_if abs_if split: if_splits)
    then have "(of_int m :: rat) / 2 = of_int (sgn m * 2 ^ 52)" by simp
    moreover have "?x / 2 powi ulp_exp ?x = of_int m / 2" unfolding u by (simp add: power_int_add)
    ultimately show ?thesis using False by (intro rnd53_scaled_int[where n = "sgn m * 2 ^ 52"]) simp_all
  next
    case lt: False
    with assms have "of_int \<bar>m\<bar> < (of_int (2 ^ 53) :: rat)" by (simp only: of_int_less_iff)
    then have "\<bar>?x\<bar> < 2 powi (53 + e)" unfolding abs_x by (simp add: power_int_add)
    with floor_log2_bounds(1)[OF x0] have "(2::rat) powi floor_log2 \<bar>?x\<bar> < 2 powi (53 + e)"
      by linarith
    then have "floor_log2 \<bar>?x\<bar> < 53 + e"
      using power_int_increasing[of "53 + e" "floor_log2 \<bar>?x\<bar>" "2::rat"] by (force simp: not_less[symmetric])
    then have u: "e - ulp_exp ?x \<ge> 0" by (simp add: ulp_exp_def)
    have "?x / 2 powi ulp_exp ?x = of_int m * 2 powi (e - ulp_exp ?x)"
      by (simp add: power_int_diff)
    also have "\<dots> = of_int (m * 2 ^ nat (e - ulp_exp ?x))" using u by (simp add: power_int_def)
    finally show ?thesis using False by (intro rnd53_scaled_int[where n = "m * 2 ^ nat (e - ulp_exp ?x)"]) simp_all
  qed
qed simp

lemma rnd53_int [dbl_simps]: "\<bar>m\<bar> \<le> 2 ^ 53 \<Longrightarrow> rnd53 (of_int m) = of_int m"
  using rnd53_exact[of m 0] by simp

lemma rnd53_nat [dbl_simps]: "n \<le> 2 ^ 53 \<Longrightarrow> rnd53 (of_nat n) = of_nat n"
  using rnd53_int[of "int n"] by simp

lemma rnd53_numeral [dbl_simps]:
  "(numeral k :: int) \<le> 9007199254740992 \<Longrightarrow> rnd53 (numeral k) = numeral k"
  using rnd53_int[of "numeral k"] by simp

lemma rnd53_1 [dbl_simps]: "rnd53 1 = 1"
  using rnd53_int[of 1] by simp

lemma rnd53_nat_16 [dbl_simps]: "n \<le> 2 ^ 53 \<Longrightarrow> rnd53 (of_nat n / 16) = of_nat n / 16"
  using rnd53_exact[of "int n" "-4"] by (simp add: power_int_minus field_simps)

lemma rnd53_le_nat: "0 \<le> x \<Longrightarrow> x \<le> of_nat n \<Longrightarrow> n \<le> 2 ^ 53 \<Longrightarrow> rnd53 x \<le> of_nat n"
  using rnd53_mono[of x "of_nat n"] by (simp add: rnd53_nat)

lemma rnd53_ge_nat: "of_nat n \<le> x \<Longrightarrow> n \<le> 2 ^ 53 \<Longrightarrow> of_nat n \<le> rnd53 x"
  using rnd53_mono[of "of_nat n" x] by (simp add: rnd53_nat)

text \<open>Rounding cannot carry a value past an integer, so truncation after rounding is tight.\<close>

lemma floor_rnd53:
  assumes "0 \<le> x" "\<lceil>x\<rceil> \<le> 2 ^ 53"
  shows "\<lfloor>x\<rfloor> \<le> \<lfloor>rnd53 x\<rfloor>" and "\<lfloor>rnd53 x\<rfloor> \<le> \<lceil>x\<rceil>"
proof -
  have "\<lfloor>x\<rfloor> \<le> \<lceil>x\<rceil>" by (rule floor_le_ceiling)
  then have "nat \<lfloor>x\<rfloor> \<le> 2 ^ 53" "nat \<lceil>x\<rceil> \<le> 2 ^ 53" using assms(2) by (simp_all add: nat_le_iff)
  moreover have "of_nat (nat \<lfloor>x\<rfloor>) \<le> x" "x \<le> of_nat (nat \<lceil>x\<rceil>)" using assms(1) by auto
  ultimately have "of_nat (nat \<lfloor>x\<rfloor>) \<le> rnd53 x" "rnd53 x \<le> of_nat (nat \<lceil>x\<rceil>)"
    using assms(1) by (blast intro: rnd53_le_nat rnd53_ge_nat)+
  then show "\<lfloor>x\<rfloor> \<le> \<lfloor>rnd53 x\<rfloor>" "\<lfloor>rnd53 x\<rfloor> \<le> \<lceil>x\<rceil>"
    using assms(1) by (simp_all add: le_floor_iff floor_le_iff)
qed

section \<open>Conversion to \<open>uint64_t\<close>\<close>

lemma u64_of_dbl_nat:
  assumes "0 \<le> a" "a < 2 ^ 64"
  shows "u64_of_dbl (DFin a) = Some (word_of_int \<lfloor>a\<rfloor>)"
    and "unat (word_of_int \<lfloor>a\<rfloor> :: u64) = nat \<lfloor>a\<rfloor>"
proof -
  show "u64_of_dbl (DFin a) = Some (word_of_int \<lfloor>a\<rfloor>)" using assms by simp
  have "\<lfloor>a\<rfloor> < 2 ^ 64" using assms(2) by (simp add: floor_less_iff)
  then show "unat (word_of_int \<lfloor>a\<rfloor> :: u64) = nat \<lfloor>a\<rfloor>"
    using assms(1) by (simp add: unat_eq_nat_uint uint_word_of_int)
qed

lemma u64_of_dbl_SomeD:
  assumes "u64_of_dbl d = Some w"
  obtains a where "d = DFin a" "-1 < a" "a < 2 ^ 64" "unat w = nat \<lfloor>a\<rfloor>"
proof (cases d)
  case (DFin a)
  then have a: "-1 < a" "a < 2 ^ 64" and w: "w = word_of_int (if a < 0 then 0 else \<lfloor>a\<rfloor>)"
    using assms by (simp_all split: if_split_asm)
  have "unat w = nat \<lfloor>a\<rfloor>"
  proof (cases "a < 0")
    case True
    then show ?thesis using w by simp
  next
    case False
    then show ?thesis using w u64_of_dbl_nat(2)[of a] a(2) by simp
  qed
  with DFin a that show thesis by blast
qed (use assms in simp_all)

section \<open>Non-negative doubles\<close>

fun dnonneg :: "dbl \<Rightarrow> bool" where
  "dnonneg (DFin a) = (0 \<le> a)"
| "dnonneg (DInf s) = (\<not> s)"
| "dnonneg DNaN = True"

lemma dnonneg_mul: "dnonneg a \<Longrightarrow> dnonneg b \<Longrightarrow> dnonneg (dmul a b)"
  by (cases a; cases b) (auto simp: rnd53_nonneg)

lemma dnonneg_div: "dnonneg a \<Longrightarrow> dnonneg b \<Longrightarrow> dnonneg (ddiv a b)"
  by (cases a; cases b) (auto simp: rnd53_nonneg)

lemma dnonneg_u64: "dnonneg (dbl_of_u64 w)"
  by (simp add: dbl_of_u64_def rnd53_nonneg)

lemma dnonneg_int: "0 \<le> i \<Longrightarrow> dnonneg (dbl_of_int i)"
  by (simp add: dbl_of_int_def rnd53_nonneg)

lemmas dnonneg_intros = dnonneg_mul dnonneg_div dnonneg_u64 dnonneg_int

end
