(* ===== verification/Token_Bucket.thy ===== *)
theory Token_Bucket
  imports CDouble
begin

text \<open>
  The token buckets that limit best-effort tenants:
  \<open>libibverbs/tokenbucket.c\<close> and \<open>libibverbs/tokenbucket.h\<close>. A token bucket is
  striped over \<open>NR_BUCKET\<close> cells, each holding the virtual time up to which its
  share of the rate has been handed out. \<open>consume\<close> advances one cell by the time
  the requested tokens are worth, by compare-and-swap; the wait functions retry
  over the cells until a request is granted.

  The sequential model runs one caller; each call of \<open>get_now\<close> is an argument.
  The interleaved model (\<open>cas_step\<close>) runs any number of callers on one cell.
\<close>

section \<open>Data\<close>

definition NR_BUCKET :: nat where
  "NR_BUCKET = 16"

record bucket =
  bucket_time :: u64

record token_bucket =
  buckets :: "bucket list"
  tb_rate :: u64
  burst_size :: u64
  time_per_token :: dbl
  time_per_burst :: dbl
  next_bucket :: int

record timespec =
  tv_sec :: u64
  tv_nsec :: u64

section \<open>Operations of tokenbucket.h\<close>

definition get_now :: "timespec \<Rightarrow> u64" where
  "get_now ts = tv_sec ts * 1000000000 + tv_nsec ts"

definition per_bucket_rate :: "u64 \<Rightarrow> dbl" where
  "per_bucket_rate rate = ddiv (dbl_of_u64 rate) (dbl_of_int (int NR_BUCKET))"

definition set_rate :: "token_bucket \<Rightarrow> u64 \<Rightarrow> token_bucket" where
  "set_rate tb rate =
     (let tpt = ddiv (dbl_of_int 1000000000) (per_bucket_rate rate)
      in tb\<lparr>tb_rate := rate, time_per_token := tpt,
            time_per_burst :=
              dmul (ddiv (dbl_of_u64 (burst_size tb)) (dbl_of_int (int NR_BUCKET))) tpt\<rparr>)"

definition up_rate :: "token_bucket \<Rightarrow> u64 \<Rightarrow> token_bucket" where
  "up_rate tb rate =
     (let r = tb_rate tb + rate; tpt = ddiv (dbl_of_int 1000000000) (per_bucket_rate r)
      in tb\<lparr>tb_rate := r, time_per_token := tpt,
            time_per_burst :=
              dmul (ddiv (dbl_of_u64 (burst_size tb)) (dbl_of_int (int NR_BUCKET))) tpt\<rparr>)"

definition down_rate :: "token_bucket \<Rightarrow> u64 \<Rightarrow> token_bucket" where
  "down_rate tb rate =
     (let r = tb_rate tb - rate; tpt = ddiv (dbl_of_int 1000000000) (per_bucket_rate r)
      in tb\<lparr>tb_rate := r, time_per_token := tpt,
            time_per_burst :=
              dmul (ddiv (dbl_of_u64 (burst_size tb)) (dbl_of_int (int NR_BUCKET))) tpt\<rparr>)"

definition get_base_bucket :: "token_bucket \<Rightarrow> int \<times> token_bucket" where
  "get_base_bucket tb =
     (let n = (next_bucket tb + 1) smod int NR_BUCKET in (n, tb\<lparr>next_bucket := n\<rparr>))"

section \<open>Operations of tokenbucket.c\<close>

definition init_token_bucket :: "token_bucket \<Rightarrow> u64 \<Rightarrow> u64 \<Rightarrow> token_bucket" where
  "init_token_bucket tb rate burst =
     (let tpt = ddiv (dbl_of_int 1000000000)
                  (ddiv (dbl_of_u64 rate) (dbl_of_int (int NR_BUCKET)))
      in tb\<lparr>tb_rate := rate, time_per_token := tpt,
            time_per_burst := dmul (ddiv (dbl_of_u64 burst) (dbl_of_int (int NR_BUCKET))) tpt,
            burst_size := burst, next_bucket := -1,
            buckets := replicate NR_BUCKET \<lparr>bucket_time = 0\<rparr>\<rparr>)"

text \<open>
  The retry loop of \<open>consume\<close> on the cell's value \<open>mem\<close>: \<open>old\<close> is the value last
  read, \<open>new\<close> the candidate. The result is the return value and the new content.
\<close>

function consume_loop :: "u64 \<Rightarrow> u64 \<Rightarrow> u64 \<Rightarrow> u64 \<Rightarrow> u64 \<Rightarrow> bool \<times> u64" where
  "consume_loop now needed mem old new =
     (let new' = new + needed
      in if new' > now then (False, mem)
         else if mem = old then (True, new')
         else consume_loop now needed mem mem mem)"
  by pat_completeness auto
termination
  by (relation "measure (\<lambda>(now, needed, mem, old, new). if mem = old then 0 else 1)") auto

declare consume_loop.simps [simp del]

definition time_needed_of :: "token_bucket \<Rightarrow> u64 \<Rightarrow> fault + u64" where
  "time_needed_of tb tokens =
     orFault BadConversion (u64_of_dbl (dmul (dbl_of_u64 tokens) (time_per_token tb)))"

definition min_time_of :: "token_bucket \<Rightarrow> u64 \<Rightarrow> fault + u64" where
  "min_time_of tb now =
     orFault BadConversion (u64_of_dbl (dsub (dbl_of_u64 now) (time_per_burst tb)))"

definition consume :: "u64 \<Rightarrow> token_bucket \<Rightarrow> u64 \<Rightarrow> int \<Rightarrow> fault + bool \<times> token_bucket" where
  "consume now tb tokens b =
     bindE (time_needed_of tb tokens) (\<lambda>time_needed.
     bindE (min_time_of tb now) (\<lambda>min_time.
     if \<not> (0 \<le> b \<and> nat b < length (buckets tb)) then Inl OutOfBounds
     else
       let old_time = bucket_time (buckets tb ! nat b);
           new_time = (if min_time > old_time then min_time else old_time);
           (ok, t) = consume_loop now time_needed old_time old_time new_time
       in Inr (ok, tb\<lparr>buckets := (buckets tb)[nat b := \<lparr>bucket_time = t\<rparr>]\<rparr>)))"

text \<open>
  \<open>while (!consume(tb, tokens, start)) start = (start + 1) % NR_BUCKET\<close>. The clock
  is the sequence of values \<open>get_now\<close> returns; \<open>k\<close> counts the readings. \<open>None\<close> is a
  loop that never ends.
\<close>

partial_function (option) consume_wait ::
  "(nat \<Rightarrow> u64) \<Rightarrow> u64 \<Rightarrow> nat \<Rightarrow> token_bucket \<Rightarrow> int \<Rightarrow> (fault + nat \<times> token_bucket \<times> int) option"
where
  "consume_wait clk tokens k tb start =
     (case consume (clk k) tb tokens start of
        Inl e \<Rightarrow> Some (Inl e)
      | Inr (ok, tb') \<Rightarrow>
          if ok then Some (Inr (Suc k, tb', start))
          else consume_wait clk tokens (Suc k) tb' ((start + 1) smod int NR_BUCKET))"

definition split_tokens :: "token_bucket \<Rightarrow> u64 \<Rightarrow> fault + u64 \<times> u64 \<times> int" where
  "split_tokens tb tokens =
     bindE (orFault BadConversion
              (u64_of_dbl (ddiv (dbl_of_u64 (burst_size tb)) (dbl_of_int (int NR_BUCKET)))))
       (\<lambda>small_burst_size.
        if tokens \<le> small_burst_size then Inr (tokens, 0, 1)
        else if small_burst_size = 0 then Inl DivByZero
        else Inr (small_burst_size, tokens mod small_burst_size,
                  sint (ucast (tokens div small_burst_size) :: u32)))"

fun wait_repeat ::
  "nat \<Rightarrow> (nat \<Rightarrow> u64) \<Rightarrow> u64 \<Rightarrow> nat \<Rightarrow> token_bucket \<Rightarrow> int \<Rightarrow> (fault + nat \<times> token_bucket \<times> int) option"
where
  "wait_repeat 0 clk tokens k tb start = Some (Inr (k, tb, start))"
| "wait_repeat (Suc n) clk tokens k tb start =
     (case consume_wait clk tokens k tb start of
        None \<Rightarrow> None
      | Some (Inl e) \<Rightarrow> Some (Inl e)
      | Some (Inr (k', tb', start')) \<Rightarrow> wait_repeat n clk tokens k' tb' start')"

definition wait_for_token ::
  "(nat \<Rightarrow> u64) \<Rightarrow> u64 \<Rightarrow> nat \<Rightarrow> token_bucket \<Rightarrow> int \<Rightarrow> (fault + nat \<times> token_bucket) option"
where
  "wait_for_token clk tokens k tb start =
     (case split_tokens tb tokens of
        Inl e \<Rightarrow> Some (Inl e)
      | Inr (small_token, rem, iteration) \<Rightarrow>
          (case wait_repeat (nat iteration) clk small_token k tb start of
             None \<Rightarrow> None
           | Some (Inl e) \<Rightarrow> Some (Inl e)
           | Some (Inr (k', tb', start')) \<Rightarrow>
               if rem = 0 then Some (Inr (k', tb'))
               else map_option (map_sum id (\<lambda>(k'', tb'', _). (k'', tb'')))
                      (consume_wait clk rem k' tb' start')))"

definition wait_for_request_token ::
  "(nat \<Rightarrow> u64) \<Rightarrow> nat \<Rightarrow> token_bucket \<Rightarrow> int \<Rightarrow> (fault + nat \<times> token_bucket) option"
where
  "wait_for_request_token clk k tb start =
     map_option (map_sum id (\<lambda>(k', tb', _). (k', tb'))) (consume_wait clk 1 k tb start)"

section \<open>Specification vocabulary\<close>

fun fin :: "dbl \<Rightarrow> rat" where
  "fin (DFin a) = a"
| "fin _ = 0"

definition tb_consistent :: "token_bucket \<Rightarrow> bool" where
  "tb_consistent tb \<longleftrightarrow>
     length (buckets tb) = NR_BUCKET \<and>
     time_per_token tb = ddiv (dbl_of_int 1000000000) (per_bucket_rate (tb_rate tb)) \<and>
     time_per_burst tb =
       dmul (ddiv (dbl_of_u64 (burst_size tb)) (dbl_of_int (int NR_BUCKET))) (time_per_token tb)"

definition tb_valid :: "token_bucket \<Rightarrow> bool" where
  "tb_valid tb \<longleftrightarrow>
     length (buckets tb) = NR_BUCKET \<and>
     (\<exists>a. time_per_token tb = DFin a \<and> 0 < a) \<and>
     (\<exists>b. time_per_burst tb = DFin b \<and> 0 \<le> b \<and> b \<le> 2 ^ 53)"

definition cells_le :: "token_bucket \<Rightarrow> u64 \<Rightarrow> bool" where
  "cells_le tb t \<longleftrightarrow> (\<forall>c \<in> set (buckets tb). bucket_time c \<le> t)"

text \<open>A sequence of \<open>consume\<close> calls; the result lists the granted requests.\<close>

type_synonym request = "u64 \<times> u64 \<times> int" \<comment> \<open>clock reading, tokens, cell\<close>

fun consume_all :: "token_bucket \<Rightarrow> request list \<Rightarrow> fault + request list \<times> token_bucket" where
  "consume_all tb [] = Inr ([], tb)"
| "consume_all tb ((now, tokens, b) # rs) =
     bindE (consume now tb tokens b) (\<lambda>(ok, tb').
     bindE (consume_all tb' rs) (\<lambda>(gs, tb'').
     Inr (if ok then (now, tokens, b) # gs else gs, tb'')))"

definition tokens_of :: "request list \<Rightarrow> nat" where
  "tokens_of gs = (\<Sum>(now, tokens, b)\<leftarrow>gs. unat tokens)"

section \<open>One call of consume\<close>

lemma bucket_eta [simp]: "\<lparr>bucket_time = bucket_time c\<rparr> = c"
  by (cases c) simp

lemma consume_loop_same:
  "consume_loop now needed m m new = (if new + needed > now then (False, m) else (True, new + needed))"
  by (subst consume_loop.simps) (simp add: Let_def)

lemma consume_Inr:
  assumes "consume now tb tokens b = Inr (ok, tb')"
  obtains needed mn where
    "time_needed_of tb tokens = Inr needed" "min_time_of tb now = Inr mn"
    "0 \<le> b" "nat b < length (buckets tb)"
    "ok \<longleftrightarrow> max mn (bucket_time (buckets tb ! nat b)) + needed \<le> now"
    "tb' = (if ok then tb\<lparr>buckets := (buckets tb)[nat b :=
              \<lparr>bucket_time = max mn (bucket_time (buckets tb ! nat b)) + needed\<rparr>]\<rparr> else tb)"
proof -
  from assms obtain needed mn where n: "time_needed_of tb tokens = Inr needed" "min_time_of tb now = Inr mn"
    by (auto simp: consume_def bindE_Inr)
  have b: "0 \<le> b" "nat b < length (buckets tb)"
    using assms n by (auto simp: consume_def split: if_splits)
  let ?old = "bucket_time (buckets tb ! nat b)"
  have mx: "(if mn > ?old then mn else ?old) = max mn ?old" by (auto simp: max_def)
  have same: "tb\<lparr>buckets := (buckets tb)[nat b := \<lparr>bucket_time = ?old\<rparr>]\<rparr> = tb"
    by simp
  have "consume now tb tokens b = Inr (if max mn ?old + needed > now then (False, tb)
      else (True, tb\<lparr>buckets := (buckets tb)[nat b := \<lparr>bucket_time = max mn ?old + needed\<rparr>]\<rparr>))"
    using b unfolding consume_def n bindE.simps mx Let_def by (simp add: consume_loop_same same)
  then show thesis using that[OF n b] assms by (simp add: not_less split: if_splits)
qed

lemma consume_config [tb_simps]:
  assumes "consume now tb tokens b = Inr (ok, tb')"
  shows "length (buckets tb') = length (buckets tb)" "time_per_token tb' = time_per_token tb"
    "time_per_burst tb' = time_per_burst tb" "tb_rate tb' = tb_rate tb"
    "burst_size tb' = burst_size tb" "next_bucket tb' = next_bucket tb"
  by (rule consume_Inr[OF assms], simp)+

lemma consume_False: "consume now tb tokens b = Inr (False, tb') \<Longrightarrow> tb' = tb"
  by (erule consume_Inr) simp

lemma tb_valid_consume: "consume now tb tokens b = Inr (ok, tb') \<Longrightarrow> tb_valid tb \<Longrightarrow> tb_valid tb'"
  by (simp add: tb_valid_def consume_config)

lemma tb_consistent_consume:
  "consume now tb tokens b = Inr (ok, tb') \<Longrightarrow> tb_consistent tb \<Longrightarrow> tb_consistent tb'"
  by (simp add: tb_consistent_def consume_config)

lemma cells_le_consume:
  assumes "consume now tb tokens b = Inr (ok, tb')" "cells_le tb t" "now \<le> t"
  shows "cells_le tb' t"
  using assms(1)
proof (rule consume_Inr)
  fix needed mn
  let ?c = "max mn (bucket_time (buckets tb ! nat b)) + needed"
  assume ok: "ok \<longleftrightarrow> ?c \<le> now"
    and tb': "tb' = (if ok then tb\<lparr>buckets := (buckets tb)[nat b := \<lparr>bucket_time = ?c\<rparr>]\<rparr> else tb)"
  show "cells_le tb' t"
  proof (cases ok)
    case True
    then have "set (buckets tb') \<subseteq> insert \<lparr>bucket_time = ?c\<rparr> (set (buckets tb))"
      using tb' set_update_subset_insert by fastforce
    moreover have "?c \<le> t" using True ok assms(3) by (meson order_trans)
    ultimately show ?thesis using assms(2) unfolding cells_le_def by fastforce
  qed (use tb' assms(2) in simp)
qed

section \<open>The times a request is worth\<close>

lemma unat_le_2_53: "unat w \<le> 2 ^ 53 \<Longrightarrow> dbl_of_u64 w = DFin (of_nat (unat w))"
  by (simp add: dbl_of_u64_def rnd53_nat)

lemma min_time_value:
  assumes "time_per_burst tb = DFin b" "unat now < 2 ^ 53" "min_time_of tb now = Inr mn"
  shows "unat mn = nat \<lfloor>rnd53 (of_nat (unat now) - b)\<rfloor>"
proof -
  have "u64_of_dbl (DFin (rnd53 (of_nat (unat now) - b))) = Some mn"
    using assms by (simp add: min_time_of_def unat_le_2_53)
  then show ?thesis by (rule u64_of_dbl_SomeD) simp
qed

lemma min_time_le_now:
  assumes "time_per_burst tb = DFin b" "0 \<le> b" "unat now < 2 ^ 53" "min_time_of tb now = Inr mn"
  shows "mn \<le> now"
proof -
  let ?d = "of_nat (unat now) - b"
  have "rnd53 ?d \<le> of_nat (unat now)"
  proof (cases "0 \<le> ?d")
    case True
    then show ?thesis using assms(2,3) by (intro rnd53_le_nat) auto
  next
    case False
    then have "rnd53 ?d \<le> 0" by (intro rnd53_nonpos) simp
    then show ?thesis by (rule order_trans) simp
  qed
  then have "unat mn \<le> unat now"
    using min_time_value[OF assms(1,3,4)] by (simp add: nat_le_iff floor_le_iff)
  then show ?thesis by (simp add: word_le_nat_alt)
qed

lemma min_time_bounds:
  assumes "tb_valid tb" "unat now < 2 ^ 53" "min_time_of tb now = Inr mn"
  shows "mn \<le> now" and "int (unat now) - \<lceil>fin (time_per_burst tb)\<rceil> \<le> int (unat mn)"
proof -
  obtain b where b: "time_per_burst tb = DFin b" "0 \<le> b" "b \<le> 2 ^ 53"
    using assms(1) by (auto simp: tb_valid_def)
  show "mn \<le> now" by (rule min_time_le_now[OF b(1,2) assms(2,3)])
  let ?d = "of_nat (unat now) - b"
  note mn = min_time_value[OF b(1) assms(2,3)]
  have f: "\<lfloor>?d\<rfloor> = int (unat now) - \<lceil>b\<rceil>"
    using floor_add_int[of "-b" "int (unat now)"] by (simp add: ceiling_def add.commute)
  show "int (unat now) - \<lceil>fin (time_per_burst tb)\<rceil> \<le> int (unat mn)"
  proof (cases "0 \<le> ?d")
    case True
    have "\<lceil>?d\<rceil> \<le> 2 ^ 53" using assms(2) b(2) by (simp add: ceiling_le_iff)
    then have "int (unat now) - \<lceil>b\<rceil> \<le> \<lfloor>rnd53 ?d\<rfloor>" using floor_rnd53(1)[OF True] f by simp
    then show ?thesis unfolding mn b(1) fin.simps by linarith
  next
    case False
    then show ?thesis using f b(1) by (simp add: floor_less_iff) linarith
  qed
qed

lemma needed_bounds:
  assumes "tb_valid tb" "unat tokens \<le> 2 ^ 53"
    and "time_needed_of tb tokens = Inr needed"
  defines "x \<equiv> of_nat (unat tokens) * fin (time_per_token tb)"
  shows "x * (1 - 1 / 2 ^ 53) < of_nat (unat needed) + 1"
    and "x \<le> 2 ^ 62 \<Longrightarrow> unat needed \<le> 2 ^ 62"
    and "x = of_int n \<Longrightarrow> n \<le> 2 ^ 53 \<Longrightarrow> int (unat needed) = n"
proof -
  obtain a where a: "time_per_token tb = DFin a" "0 < a" using assms(1) by (auto simp: tb_valid_def)
  have x: "x = of_nat (unat tokens) * a" "0 \<le> x" using a by (simp_all add: x_def)
  have "u64_of_dbl (DFin (rnd53 x)) = Some needed"
    using assms(2,3) a(1) x(1) by (simp add: time_needed_of_def unat_le_2_53)
  then have nd: "unat needed = nat \<lfloor>rnd53 x\<rfloor>" by (rule u64_of_dbl_SomeD) simp
  have r0: "0 \<le> rnd53 x" using x(2) by (rule rnd53_nonneg)
  have nd': "of_nat (unat needed) = (of_int \<lfloor>rnd53 x\<rfloor> :: rat)" using nd r0 by simp
  have "x - x / 2 ^ 53 \<le> rnd53 x" using rnd53_rel_error[of x] x(2) by linarith
  also have "rnd53 x < of_int \<lfloor>rnd53 x\<rfloor> + 1" by linarith
  finally show "x * (1 - 1 / 2 ^ 53) < of_nat (unat needed) + 1"
    unfolding nd' by (simp add: right_diff_distrib)
  show "unat needed \<le> 2 ^ 62" if "x \<le> 2 ^ 62"
  proof -
    have "rnd53 x \<le> 2 ^ 62"
      using rnd53_mono[OF x(2) that] rnd53_exact[of 1 62] by simp
    then show ?thesis unfolding nd by (simp add: nat_le_iff floor_le_iff)
  qed
  show "int (unat needed) = n" if "x = of_int n" "n \<le> 2 ^ 53"
  proof -
    have "0 \<le> n" using x(2) that(1) by simp
    then have "rnd53 x = of_int n" using that rnd53_int[of n] by simp
    then show ?thesis using nd \<open>0 \<le> n\<close> by simp
  qed
qed

section \<open>The rate limit\<close>

text \<open>
  The potential of a token bucket: the sum of its cells, each counted from the
  instant one burst before \<open>t0\<close>. A grant raises it by at least its worth.
\<close>

definition cell_level :: "int \<Rightarrow> bucket \<Rightarrow> int" where
  "cell_level l c = max (int (unat (bucket_time c))) l"

definition tb_level :: "int \<Rightarrow> token_bucket \<Rightarrow> int" where
  "tb_level l tb = (\<Sum>c\<leftarrow>buckets tb. cell_level l c)"

lemma sum_list_map_update:
  "i < length xs \<Longrightarrow> sum_list (map f (xs[i := y])) = sum_list (map f xs) - f (xs ! i) + (f y :: int)"
  by (induction xs arbitrary: i) (auto split: nat.split)

lemma consume_level:
  assumes "consume now tb tokens b = Inr (ok, tb')" "tb_valid tb" "cells_le tb t1"
    and "t0 \<le> now" "now \<le> t1" "unat t1 < 2 ^ 53"
    and "unat tokens \<le> 2 ^ 53" "of_nat (unat tokens) * fin (time_per_token tb) \<le> 2 ^ 62"
  defines "l \<equiv> int (unat t0) - \<lceil>fin (time_per_burst tb)\<rceil>"
  shows "\<exists>needed. time_needed_of tb tokens = Inr needed \<and>
           tb_level l tb + (if ok then int (unat needed) else 0) \<le> tb_level l tb'"
  using assms(1)
proof (rule consume_Inr)
  fix needed mn
  let ?old = "bucket_time (buckets tb ! nat b)"
  let ?c = "max mn ?old + needed"
  assume nd: "time_needed_of tb tokens = Inr needed" and mn: "min_time_of tb now = Inr mn"
    and b: "0 \<le> b" "nat b < length (buckets tb)" and ok: "ok \<longleftrightarrow> ?c \<le> now"
    and tb': "tb' = (if ok then tb\<lparr>buckets := (buckets tb)[nat b := \<lparr>bucket_time = ?c\<rparr>]\<rparr> else tb)"
  have now53: "unat now < 2 ^ 53" using assms(5,6) by (simp add: word_le_nat_alt)
  note mnb = min_time_bounds[OF assms(2) now53 mn]
  have "l \<le> int (unat mn)" using mnb(2) assms(4) unfolding l_def word_le_nat_alt by linarith
  moreover have "?old \<le> t1" using b(2) assms(3) by (auto simp: cells_le_def)
  then have "unat (max mn ?old) < 2 ^ 53"
    using mnb(1) assms(5,6) now53 by (simp add: max_def word_le_nat_alt)
  moreover have "unat needed \<le> 2 ^ 62" using needed_bounds(2)[OF assms(2,7) nd assms(8)] .
  ultimately have "unat ?c = unat (max mn ?old) + unat needed" by (intro unat_add_less) simp
  then have "max (int (unat ?old)) l + int (unat needed) \<le> int (unat ?c)"
    using \<open>l \<le> int (unat mn)\<close> by (auto simp: max_def word_le_nat_alt)
  then have "cell_level l (buckets tb ! nat b) + int (unat needed) \<le> cell_level l \<lparr>bucket_time = ?c\<rparr>"
    by (simp add: cell_level_def)
  then show ?thesis using nd b(2) tb' by (auto simp: tb_level_def sum_list_map_update)
qed

lemma tb_level_upper:
  assumes "cells_le tb t1" "l \<le> int (unat t1)"
  shows "tb_level l tb \<le> int (length (buckets tb)) * int (unat t1)"
proof -
  have "(\<Sum>c\<leftarrow>buckets tb. cell_level l c) \<le> (\<Sum>c\<leftarrow>buckets tb. int (unat t1))"
    using assms by (intro sum_list_mono) (auto simp: cell_level_def cells_le_def word_le_nat_alt)
  then show ?thesis by (simp add: tb_level_def sum_list_triv)
qed

lemma tb_level_lower: "int (length (buckets tb)) * l \<le> tb_level l tb"
proof -
  have "(\<Sum>c\<leftarrow>buckets tb. l) \<le> (\<Sum>c\<leftarrow>buckets tb. cell_level l c)"
    by (intro sum_list_mono) (auto simp: cell_level_def)
  then show ?thesis by (simp add: tb_level_def sum_list_triv)
qed

text \<open>The granted requests of a run raise the potential by their total worth.\<close>

definition window :: "token_bucket \<Rightarrow> u64 \<Rightarrow> u64 \<Rightarrow> request list \<Rightarrow> bool" where
  "window tb t0 t1 rs \<longleftrightarrow>
     unat t1 < 2 ^ 53 \<and>
     (\<forall>(now, tokens, b) \<in> set rs. t0 \<le> now \<and> now \<le> t1 \<and> unat tokens \<le> 2 ^ 53 \<and>
        of_nat (unat tokens) * fin (time_per_token tb) \<le> 2 ^ 62)"

definition worth :: "token_bucket \<Rightarrow> request \<Rightarrow> int" where
  "worth tb r = (case r of (now, tokens, b) \<Rightarrow>
     (case time_needed_of tb tokens of Inr n \<Rightarrow> int (unat n) | Inl e \<Rightarrow> 0))"

lemma window_config: "time_per_token tb' = time_per_token tb \<Longrightarrow> window tb' t0 t1 rs = window tb t0 t1 rs"
  by (simp add: window_def)

lemma worth_config: "time_per_token tb' = time_per_token tb \<Longrightarrow> worth tb' = worth tb"
  by (auto simp: worth_def time_needed_of_def fun_eq_iff split: prod.split)

lemma consume_all_level:
  assumes "consume_all tb rs = Inr (gs, tb')" "tb_valid tb" "cells_le tb t1" "window tb t0 t1 rs"
  defines "l \<equiv> int (unat t0) - \<lceil>fin (time_per_burst tb)\<rceil>"
  shows "tb_level l tb + sum_list (map (worth tb) gs) \<le> tb_level l tb' \<and> cells_le tb' t1 \<and>
         length (buckets tb') = length (buckets tb) \<and> set gs \<subseteq> set rs"
  using assms(1-4) unfolding l_def
proof (induction rs arbitrary: tb gs)
  case (Cons r rs)
  obtain now tokens b where r: "r = (now, tokens, b)" by (cases r)
  from Cons.prems(1) obtain ok tb1 gs1 where c: "consume now tb tokens b = Inr (ok, tb1)"
    and rest: "consume_all tb1 rs = Inr (gs1, tb')" and gs: "gs = (if ok then r # gs1 else gs1)"
    by (auto simp: r bindE_Inr split: prod.splits)
  have w: "t0 \<le> now" "now \<le> t1" "unat t1 < 2 ^ 53" "unat tokens \<le> 2 ^ 53"
    "of_nat (unat tokens) * fin (time_per_token tb) \<le> 2 ^ 62" "window tb t0 t1 rs"
    using Cons.prems(4) by (auto simp: window_def r)
  note cfg = consume_config[OF c]
  define l where "l = int (unat t0) - \<lceil>fin (time_per_burst tb)\<rceil>"
  obtain needed where nd: "time_needed_of tb tokens = Inr needed"
    and lv: "tb_level l tb + (if ok then int (unat needed) else 0) \<le> tb_level l tb1"
    using consume_level[OF c Cons.prems(2,3) w(1,2,3,4,5)] unfolding l_def by blast
  have ih: "tb_level l tb1 + sum_list (map (worth tb) gs1) \<le> tb_level l tb' \<and> cells_le tb' t1 \<and>
        length (buckets tb') = length (buckets tb) \<and> set gs1 \<subseteq> set rs"
    using Cons.IH[OF rest tb_valid_consume[OF c Cons.prems(2)] cells_le_consume[OF c Cons.prems(3) w(2)]] w(6)
    unfolding l_def window_config[OF cfg(2)] worth_config[OF cfg(2)] cfg(1,3) by blast
  have "worth tb r = int (unat needed)" by (simp add: worth_def r nd)
  with lv have "tb_level l tb + sum_list (map (worth tb) gs) \<le> tb_level l tb1 + sum_list (map (worth tb) gs1)"
    by (simp add: gs split: if_splits)
  moreover have "set gs \<subseteq> set (r # rs)" using ih by (auto simp: gs)
  ultimately show ?case using ih unfolding l_def by linarith
qed simp

lemma granted_time_bound:
  assumes "consume_all tb rs = Inr (gs, tb')" "tb_valid tb" "cells_le tb t1" "window tb t0 t1 rs"
    and "t0 \<le> t1"
  shows "sum_list (map (worth tb) gs)
           \<le> 16 * (int (unat t1) - int (unat t0) + \<lceil>fin (time_per_burst tb)\<rceil>)"
proof -
  let ?B = "\<lceil>fin (time_per_burst tb)\<rceil>"
  let ?l = "int (unat t0) - ?B"
  have len: "length (buckets tb) = 16" and B: "0 \<le> ?B"
    using assms(2) by (auto simp: tb_valid_def NR_BUCKET_def)
  have "?l \<le> int (unat t1)" using assms(5) B unfolding word_le_nat_alt by linarith
  then show ?thesis
    using consume_all_level[OF assms(1-4)] tb_level_upper[of tb' t1 ?l] tb_level_lower[of tb ?l] len
    by auto
qed

lemma worth_tokens:
  assumes "tb_valid tb" "window tb t0 t1 [(now, tokens, b)]" "time_needed_of tb tokens = Inr n"
  shows "of_nat (unat tokens) * (fin (time_per_token tb) * (1 - 1 / 2 ^ 53)) \<le> of_int (worth tb (now, tokens, b)) + 1"
  using needed_bounds(1)[OF assms(1) _ assms(3)] assms(2,3)
  by (simp add: worth_def window_def mult.assoc)

lemma consume_all_defined:
  assumes "consume_all tb rs = Inr (gs, tb')" "(now, tokens, b) \<in> set gs"
  shows "\<exists>n. time_needed_of tb tokens = Inr n"
  using assms
proof (induction rs arbitrary: tb gs)
  case (Cons r rs)
  obtain now' tokens' b' where r: "r = (now', tokens', b')" by (cases r)
  from Cons.prems(1) obtain ok tb1 gs1 where c: "consume now' tb tokens' b' = Inr (ok, tb1)"
    and rest: "consume_all tb1 rs = Inr (gs1, tb')" and gs: "gs = (if ok then r # gs1 else gs1)"
    by (auto simp: r bindE_Inr split: prod.splits)
  have "time_needed_of tb1 tokens = time_needed_of tb tokens"
    using consume_config(2)[OF c] by (simp add: time_needed_of_def)
  moreover have "\<exists>n. time_needed_of tb tokens' = Inr n" using c by (rule consume_Inr) blast
  ultimately show ?case using Cons.IH[OF rest] Cons.prems(2) by (auto simp: gs r split: if_splits)
qed simp

lemma sum_tokens_worth:
  assumes "\<And>now tokens b. (now, tokens, b) \<in> set gs \<Longrightarrow>
             of_nat (unat tokens) * a \<le> of_int (w (now, tokens, b)) + (e :: rat)"
  shows "of_nat (tokens_of gs) * a \<le> of_int (sum_list (map w gs)) + of_nat (length gs) * e"
  using assms
proof (induction gs)
  case (Cons g gs)
  obtain now tokens b where g: "g = (now, tokens, b)" by (cases g)
  have "of_nat (unat tokens) * a \<le> of_int (w g) + e" using Cons.prems[of now tokens b] by (simp add: g)
  with Cons.IH[OF Cons.prems] show ?case by (simp add: tokens_of_def g algebra_simps)
qed (simp add: tokens_of_def)

lemma exact_config:
  assumes "tb_consistent tb" "unat (tb_rate tb) * c = 16000000000"
    and "unat (burst_size tb) = 16 * s" "s * c \<le> 2 ^ 53"
  shows "time_per_token tb = DFin (of_nat c)" "time_per_burst tb = DFin (of_nat (s * c))" "tb_valid tb"
proof -
  let ?r = "unat (tb_rate tb)"
  have c0: "0 < c" and r0: "0 < ?r" using assms(2) by (auto intro: gr0I)
  have "c \<le> ?r * c" "?r \<le> ?r * c" 
    using mult_le_mono1[of 1 ?r c] mult_le_mono2[of 1 c ?r] c0 r0 by simp_all
  then have le: "c \<le> 16000000000" "?r \<le> 16000000000" using assms(2) by simp_all
  have "s \<le> s * c" using mult_le_mono2[of 1 c s] c0 by simp
  with assms(4) have s53: "s \<le> 2 ^ 53" by linarith
  have i16: "dbl_of_int (int NR_BUCKET) = DFin 16" "dbl_of_int 1000000000 = DFin 1000000000"
    by (simp_all add: dbl_of_int_def NR_BUCKET_def dbl_simps)
  have pbr: "per_bucket_rate (tb_rate tb) = DFin (of_nat ?r / 16)"
    using le by (simp add: per_bucket_rate_def i16 unat_le_2_53 rnd53_nat_16)
  have "(1000000000 :: rat) / (of_nat ?r / 16) = of_nat c"
  proof -
    have "(of_nat ?r * of_nat c :: rat) = 16000000000"
      using assms(2) by (metis of_nat_mult of_nat_numeral)
    then show ?thesis using r0 by (simp add: field_simps)
  qed
  then show tpt: "time_per_token tb = DFin (of_nat c)"
    using assms(1) r0 le by (simp add: tb_consistent_def pbr i16 rnd53_nat)
  have "rnd53 (rnd53 (of_nat (16 * s)) / 16) = of_nat s"
  proof -
    have "rnd53 (of_nat (16 * s)) = (of_nat (16 * s) :: rat)"
      using rnd53_exact[of "int s" 4] s53 assms(4) by (auto simp: field_simps)
    then show ?thesis using s53 by (auto simp: rnd53_nat)
  qed
  then show tpb: "time_per_burst tb = DFin (of_nat (s * c))"
    using assms(1,3,4) tpt by (simp add: tb_consistent_def i16 dbl_of_u64_def rnd53_nat flip: of_nat_mult)
  have "(of_nat (s * c) :: rat) \<le> of_nat (2 ^ 53)" using assms(4) by (simp only: of_nat_le_iff)
  moreover have "length (buckets tb) = NR_BUCKET" using assms(1) by (simp add: tb_consistent_def)
  ultimately show "tb_valid tb" using c0 unfolding tb_valid_def tpt tpb by simp
qed


definition sample_tb :: token_bucket where
  "sample_tb = init_token_bucket
     \<lparr>buckets = [], tb_rate = 0, burst_size = 0, time_per_token = DNaN, time_per_burst = DNaN,
      next_bucket = 0\<rparr> 1000000000 8388608"

lemma sample_tb_eq: "sample_tb = \<lparr>buckets = replicate 16 \<lparr>bucket_time = 0\<rparr>, tb_rate = 1000000000,
    burst_size = 8388608, time_per_token = DFin 16, time_per_burst = DFin 8388608, next_bucket = -1\<rparr>"
  by (simp add: sample_tb_def init_token_bucket_def dbl_of_int_def dbl_of_u64_def NR_BUCKET_def dbl_simps)

lemma sample_tb_consistent: "tb_consistent sample_tb"
  by (simp add: tb_consistent_def per_bucket_rate_def sample_tb_eq dbl_of_int_def dbl_of_u64_def
      NR_BUCKET_def dbl_simps)

lemma replicate_16: "replicate 16 x = x # replicate 15 x"
  by (simp add: numeral_eq_Suc)

lemma sample_run:
  "consume_all sample_tb [(1000000000, 1000, 0), (1000000500, 524288, 0)]
     = Inr ([(1000000000, 1000, 0)],
            sample_tb\<lparr>buckets := \<lparr>bucket_time = 991627392\<rparr> # replicate 15 \<lparr>bucket_time = 0\<rparr>\<rparr>)"
  by (simp add: consume_def sample_tb_eq time_needed_of_def min_time_of_def dbl_of_u64_def dbl_simps
      consume_loop_same replicate_16)


text \<open>
  Property C15: the rate limit for every rate. Without the divisibility of the exact bound each
  grant may be rounded down by one nanosecond and the two double operations cost
  a relative error of 2^-53: in a window of \<open>t1 - t0\<close> nanoseconds the granted
  tokens, at the stored time per token, are worth at most the sixteen cells'
  window and burst time plus one nanosecond per grant.
\<close>

theorem rate_limit_general:
  assumes "tb_valid tb" "cells_le tb t1" "t0 \<le> t1" "window tb t0 t1 rs"
    and "consume_all tb rs = Inr (gs, tb')"
  shows "of_nat (tokens_of gs) * (fin (time_per_token tb) * (1 - 1 / 2 ^ 53))
           \<le> of_int (16 * (int (unat t1) - int (unat t0) + \<lceil>fin (time_per_burst tb)\<rceil>)) + of_nat (length gs)"
proof -
  note lv = consume_all_level[OF assms(5,1,2,4)]
  have "of_nat (unat tokens) * (fin (time_per_token tb) * (1 - 1 / 2 ^ 53)) \<le> of_int (worth tb (now, tokens, b)) + 1"
    if g: "(now, tokens, b) \<in> set gs" for now tokens b
  proof -
    obtain n where n: "time_needed_of tb tokens = Inr n" using consume_all_defined[OF assms(5) g] ..
    have "window tb t0 t1 [(now, tokens, b)]" using g lv assms(4) by (auto simp: window_def)
    then show ?thesis using n by (rule worth_tokens[OF assms(1)])
  qed
  then have "of_nat (tokens_of gs) * (fin (time_per_token tb) * (1 - 1 / 2 ^ 53))
      \<le> of_int (sum_list (map (worth tb) gs)) + of_nat (length gs) * 1"
    by (rule sum_tokens_worth)
  moreover have "of_int (sum_list (map (worth tb) gs))
      \<le> (of_int (16 * (int (unat t1) - int (unat t0) + \<lceil>fin (time_per_burst tb)\<rceil>)) :: rat)"
    using granted_time_bound[OF assms(5,1,2,4,3)] by (simp only: of_int_le_iff)
  ultimately show ?thesis by simp
qed

lemma sample_tb_valid: "tb_valid sample_tb"
  by (simp add: sample_tb_eq tb_valid_def NR_BUCKET_def)

theorem rate_limit_general_witness:
  "of_nat (tokens_of [(1000000000, 1000, 0)]) * (fin (time_per_token sample_tb) * (1 - 1 / 2 ^ 53))
     \<le> (of_int (16 * (int (unat (1000000500 :: u64)) - int (unat (1000000000 :: u64))
           + \<lceil>fin (time_per_burst sample_tb)\<rceil>)) + of_nat (length [(1000000000, 1000, 0) :: request]) :: rat)"
  by (rule rate_limit_general[OF sample_tb_valid _ _ _ sample_run])
     (simp_all add: sample_tb_eq cells_le_def window_def)

section \<open>Reconfiguration\<close>

lemma tb_consistent_init: "tb_consistent (init_token_bucket tb rate burst)"
  by (simp add: tb_consistent_def init_token_bucket_def per_bucket_rate_def Let_def)

lemma tb_consistent_set_rate: "tb_consistent tb \<Longrightarrow> tb_consistent (set_rate tb rate)"
  by (simp add: tb_consistent_def set_rate_def Let_def)

lemma up_rate_set: "up_rate tb rate = set_rate tb (tb_rate tb + rate)"
  and down_rate_set: "down_rate tb rate = set_rate tb (tb_rate tb - rate)"
  by (simp_all add: up_rate_def down_rate_def set_rate_def Let_def)

lemma tb_rate_set_rate [simp]: "tb_rate (set_rate tb r) = r"
  by (simp add: set_rate_def Let_def)

lemma set_rate_id: "tb_consistent tb \<Longrightarrow> set_rate tb (tb_rate tb) = tb"
  by (cases tb) (simp add: tb_consistent_def set_rate_def Let_def)

lemma set_rate_set_rate: "set_rate (set_rate tb r) r' = set_rate tb r'"
  by (simp add: set_rate_def Let_def)

text \<open>
  Raising and lowering the rate by the same amount restores the
  token bucket exactly, including the derived time per token and per burst and
  also when the rate wraps around in between; either step keeps the derived
  fields consistent with the rate.
\<close>

theorem rate_up_down:
  assumes "tb_consistent tb"
  shows "down_rate (up_rate tb r) r = tb \<and> up_rate (down_rate tb r) r = tb \<and>
         tb_consistent (up_rate tb r) \<and> tb_consistent (down_rate tb r)"
  using assms
  by (simp add: up_rate_set down_rate_set set_rate_set_rate tb_consistent_set_rate set_rate_id)

theorem rate_up_down_witness: "down_rate (up_rate sample_tb 500) 500 = sample_tb"
  using rate_up_down[OF sample_tb_consistent, of 500] by simp

text \<open>
  Property C37: a rate of zero makes the time per token infinite, and every
  request for a token then converts an infinite double to \<open>uint64_t\<close>, which C
  leaves undefined; no cell is ever advanced.
\<close>

theorem zero_rate_undefined:
  assumes "tokens \<noteq> 0"
  shows "consume now (set_rate tb 0) tokens b = Inl BadConversion"
proof -
  have "time_per_token (set_rate tb 0) = DInf False"
    by (simp add: set_rate_def per_bucket_rate_def dbl_of_u64_def dbl_of_int_def NR_BUCKET_def dbl_simps)
  moreover have "0 < rnd53 (of_nat (unat tokens))"
    using assms by (intro rnd53_pos) (simp add: unat_gt_0)
  ultimately show ?thesis by (simp add: consume_def time_needed_of_def dbl_of_u64_def)
qed

theorem zero_rate_undefined_witness: "consume 5 (set_rate sample_tb 0) 1 0 = Inl BadConversion"
  using zero_rate_undefined[of 1 5 sample_tb 0] by simp

end
