(* ===== verification/Token_CAS.thy ===== *)
theory Token_CAS
  imports Token_Bucket
begin

text \<open>
  Concurrent callers of \<open>consume\<close> (\<open>tokenbucket.c\<close>), each on its way through the
  compare-and-swap loop, while the clock advances and the monitor changes the
  rate. Every access to shared memory is one step: reading the clock, reading
  the derived fields and the cell, the compare-and-swap, and the reload after a
  failed one. Ghost fields record the cells' values at the start and the time
  handed out per cell.
\<close>

section \<open>The interleaved machine\<close>

datatype cpc =
    Idle
  | Clocked u64 u64 int              \<comment> \<open>now, tokens, cell: \<open>get_now\<close> has returned\<close>
  | Looping u64 u64 u64 u64 int      \<comment> \<open>now, time needed, old, new, cell: at the loop head\<close>
  | Failed u64 u64 int               \<comment> \<open>now, time needed, cell: the swap failed\<close>

record cas_state =
  cs_tb :: token_bucket
  cs_clock :: u64
  cs_pc :: "nat \<Rightarrow> cpc"
  cs_granted :: "nat \<Rightarrow> nat"
  cs_base :: "nat \<Rightarrow> nat"

definition cell_time :: "token_bucket \<Rightarrow> int \<Rightarrow> u64" where
  "cell_time tb b = bucket_time (buckets tb ! nat b)"

definition write_cell :: "token_bucket \<Rightarrow> int \<Rightarrow> u64 \<Rightarrow> token_bucket" where
  "write_cell tb b t = tb\<lparr>buckets := (buckets tb)[nat b := \<lparr>bucket_time = t\<rparr>]\<rparr>"

text \<open>
  The environment: the clock stays below 2^53 ns and requests below 2^28 tokens
  (256 MiB; \<open>wait_for_token\<close> asks for one cell's share of the burst at most).
\<close>

inductive cas_step :: "cas_state \<Rightarrow> cas_state \<Rightarrow> bool" where
  tick: "cs_clock s \<le> t \<Longrightarrow> unat t < 2 ^ 53 \<Longrightarrow> cas_step s (s\<lparr>cs_clock := t\<rparr>)"
| rate: "cas_step s (s\<lparr>cs_tb := set_rate (cs_tb s) r\<rparr>)"
| enter: "cs_pc s i = Idle \<Longrightarrow> 0 \<le> b \<Longrightarrow> b < int NR_BUCKET \<Longrightarrow> unat tokens \<le> 2 ^ 28 \<Longrightarrow>
     cas_step s (s\<lparr>cs_pc := (cs_pc s)(i := Clocked (cs_clock s) tokens b)\<rparr>)"
| load: "cs_pc s i = Clocked now tokens b \<Longrightarrow> time_needed_of (cs_tb s) tokens = Inr needed \<Longrightarrow>
     min_time_of (cs_tb s) now = Inr mn \<Longrightarrow> old = cell_time (cs_tb s) b \<Longrightarrow>
     cas_step s (s\<lparr>cs_pc := (cs_pc s)(i := Looping now needed old (if mn > old then mn else old) b)\<rparr>)"
| reject: "cs_pc s i = Looping now needed old new b \<Longrightarrow> new + needed > now \<Longrightarrow>
     cas_step s (s\<lparr>cs_pc := (cs_pc s)(i := Idle)\<rparr>)"
| grant: "cs_pc s i = Looping now needed old new b \<Longrightarrow> \<not> new + needed > now \<Longrightarrow>
     cell_time (cs_tb s) b = old \<Longrightarrow>
     cas_step s (s\<lparr>cs_tb := write_cell (cs_tb s) b (new + needed), cs_pc := (cs_pc s)(i := Idle),
       cs_granted := (cs_granted s)(nat b := cs_granted s (nat b) + unat needed)\<rparr>)"
| swap_fails: "cs_pc s i = Looping now needed old new b \<Longrightarrow> \<not> new + needed > now \<Longrightarrow>
     cell_time (cs_tb s) b \<noteq> old \<Longrightarrow>
     cas_step s (s\<lparr>cs_pc := (cs_pc s)(i := Failed now needed b)\<rparr>)"
| reload: "cs_pc s i = Failed now needed b \<Longrightarrow> old = cell_time (cs_tb s) b \<Longrightarrow>
     cas_step s (s\<lparr>cs_pc := (cs_pc s)(i := Looping now needed old old b)\<rparr>)"

definition cas_start :: "cas_state \<Rightarrow> bool" where
  "cas_start s \<longleftrightarrow> tb_consistent (cs_tb s) \<and> cells_le (cs_tb s) (cs_clock s) \<and>
     unat (cs_clock s) < 2 ^ 53 \<and> cs_pc s = (\<lambda>_. Idle) \<and> cs_granted s = (\<lambda>_. 0) \<and>
     (\<forall>c < NR_BUCKET. cs_base s c = unat (cell_time (cs_tb s) (int c)))"

section \<open>The invariant\<close>

fun pc_ok :: "u64 \<Rightarrow> cpc \<Rightarrow> bool" where
  "pc_ok t Idle = True"
| "pc_ok t (Clocked now tokens b) =
     (now \<le> t \<and> 0 \<le> b \<and> b < int NR_BUCKET \<and> unat tokens \<le> 2 ^ 28)"
| "pc_ok t (Looping now needed old new b) =
     (now \<le> t \<and> 0 \<le> b \<and> b < int NR_BUCKET \<and> unat needed \<le> 2 ^ 62 \<and> old \<le> new \<and> new \<le> t)"
| "pc_ok t (Failed now needed b) =
     (now \<le> t \<and> 0 \<le> b \<and> b < int NR_BUCKET \<and> unat needed \<le> 2 ^ 62)"

definition cas_inv :: "cas_state \<Rightarrow> bool" where
  "cas_inv s \<longleftrightarrow> tb_consistent (cs_tb s) \<and> unat (cs_clock s) < 2 ^ 53 \<and>
     (\<forall>i. pc_ok (cs_clock s) (cs_pc s i)) \<and>
     (\<forall>c < NR_BUCKET. cs_base s c + cs_granted s c \<le> unat (cell_time (cs_tb s) (int c)) \<and>
        cell_time (cs_tb s) (int c) \<le> cs_clock s)"

lemma cas_start_inv: "cas_start s \<Longrightarrow> cas_inv s"
  by (auto simp: cas_start_def cas_inv_def cells_le_def cell_time_def tb_consistent_def)

lemma pc_ok_mono: "pc_ok t p \<Longrightarrow> t \<le> t' \<Longrightarrow> pc_ok t' p"
  by (cases p) (auto intro: order_trans)

lemma consistent_nonneg:
  assumes "tb_consistent tb"
  shows "dnonneg (time_per_token tb)" "dnonneg (time_per_burst tb)"
  using assms by (auto simp: tb_consistent_def per_bucket_rate_def intro!: dnonneg_intros)

lemma min_time_le:
  assumes "tb_consistent tb" "unat now < 2 ^ 53" "min_time_of tb now = Inr mn"
  shows "mn \<le> now"
proof (cases "time_per_burst tb")
  case (DFin b)
  then show ?thesis using consistent_nonneg(2)[OF assms(1)] min_time_le_now assms(2,3) by simp
qed (use assms consistent_nonneg(2)[OF assms(1)] in \<open>auto simp: min_time_of_def dbl_of_u64_def\<close>)

lemma consistent_token_time:
  assumes "tb_consistent tb" "time_per_token tb = DFin a"
  shows "a \<le> 16000000000"
proof -
  let ?r = "rnd53 (of_nat (unat (tb_rate tb)))"
  have eq: "ddiv (DFin 1000000000) (DFin (rnd53 (?r / 16))) = DFin a"
    using assms by (simp add: tb_consistent_def per_bucket_rate_def dbl_of_u64_def dbl_of_int_def
        NR_BUCKET_def dbl_simps)
  have "unat (tb_rate tb) \<noteq> 0"
  proof
    assume "unat (tb_rate tb) = 0"
    then show False using eq by simp
  qed
  then have "of_nat 1 \<le> ?r" by (intro rnd53_ge_nat) simp_all
  then have "rnd53 (of_nat 1 / 16) \<le> rnd53 (?r / 16)" by (intro rnd53_mono) simp_all
  then have p: "1 / 16 \<le> rnd53 (?r / 16)" using rnd53_nat_16[of 1] by simp
  then have a: "a = rnd53 (1000000000 / rnd53 (?r / 16))" using eq by (simp split: if_splits)
  have "1000000000 / rnd53 (?r / 16) \<le> of_nat 16000000000" using p by (simp add: divide_le_eq)
  then have "a \<le> of_nat 16000000000" unfolding a using p by (intro rnd53_le_nat) simp_all
  then show ?thesis by simp
qed

lemma needed_le:
  assumes "tb_consistent tb" "unat tokens \<le> 2 ^ 28" "time_needed_of tb tokens = Inr needed"
  shows "unat needed \<le> 2 ^ 62"
proof (cases "time_per_token tb")
  case (DFin a)
  have a: "0 \<le> a" "a \<le> 16000000000"
    using consistent_nonneg(1)[OF assms(1)] consistent_token_time[OF assms(1) DFin] DFin by simp_all
  have "of_nat (unat tokens) \<le> (of_nat (2 ^ 28) :: rat)" using assms(2) by (simp only: of_nat_le_iff)
  then have "of_nat (unat tokens) * a \<le> 2 ^ 28 * 16000000000" using a by (intro mult_mono) simp_all
  then have "rnd53 (of_nat (unat tokens) * a) \<le> 2 ^ 62"
    using rnd53_mono[of "of_nat (unat tokens) * a" "2 ^ 62"] rnd53_exact[of 1 62] a by simp
  moreover have "u64_of_dbl (DFin (rnd53 (of_nat (unat tokens) * a))) = Some needed"
    using assms(2,3) DFin by (simp add: time_needed_of_def unat_le_2_53)
  then have "unat needed = nat \<lfloor>rnd53 (of_nat (unat tokens) * a)\<rfloor>" by (rule u64_of_dbl_SomeD) simp
  ultimately show ?thesis by (simp add: nat_le_iff floor_le_iff)
qed (use assms in \<open>auto simp: time_needed_of_def dbl_of_u64_def split: if_splits\<close>)

lemma cell_time_write:
  assumes "0 \<le> b" "nat b < length (buckets tb)"
  shows "cell_time (write_cell tb b t) (int c) = (if c = nat b then t else cell_time tb (int c))"
  using assms by (simp add: cell_time_def write_cell_def)

lemma cas_inv_pc:
  assumes "cas_inv s" "pc_ok (cs_clock s) p"
  shows "cas_inv (s\<lparr>cs_pc := (cs_pc s)(i := p)\<rparr>)"
  using assms by (simp add: cas_inv_def)

lemma cas_inv_cell:
  assumes "cas_inv s" "0 \<le> b" "b < int NR_BUCKET"
  shows "cell_time (cs_tb s) b \<le> cs_clock s"
  using assms zless_nat_eq_int_zless[of "nat b" "int NR_BUCKET"] unfolding cas_inv_def
  by (metis int_nat_eq nat_less_iff of_nat_less_iff)

lemma cas_inv_grant:
  assumes inv: "cas_inv s" and pc: "cs_pc s i = Looping now needed old new b"
    and le: "\<not> new + needed > now" and cell: "cell_time (cs_tb s) b = old"
  shows "cas_inv (s\<lparr>cs_tb := write_cell (cs_tb s) b (new + needed), cs_pc := (cs_pc s)(i := Idle),
           cs_granted := (cs_granted s)(nat b := cs_granted s (nat b) + unat needed)\<rparr>)"
proof -
  have ok: "now \<le> cs_clock s" "0 \<le> b" "b < int NR_BUCKET" "unat needed \<le> 2 ^ 62" "old \<le> new" "new \<le> cs_clock s"
    using inv pc unfolding cas_inv_def by (metis pc_ok.simps(3))+
  have clk: "unat (cs_clock s) < 2 ^ 53" and len: "length (buckets (cs_tb s)) = NR_BUCKET"
    using inv by (simp_all add: cas_inv_def tb_consistent_def)
  have sum: "unat (new + needed) = unat new + unat needed"
    using ok(4,6) clk by (intro unat_add_less) (simp add: word_le_nat_alt)
  have nb: "nat b < NR_BUCKET" using ok(2,3) by simp
  then have base: "cs_base s (nat b) + cs_granted s (nat b) \<le> unat old"
    using inv cell ok(2) by (auto simp: cas_inv_def)
  have "cs_base s (nat b) + (cs_granted s (nat b) + unat needed) \<le> unat (new + needed)"
    using base sum ok(5) by (simp add: word_le_nat_alt)
  moreover have "new + needed \<le> cs_clock s" using le ok(1) by simp
  moreover have "tb_consistent (write_cell (cs_tb s) b (new + needed))"
    using inv by (simp add: cas_inv_def tb_consistent_def write_cell_def)
  ultimately show ?thesis
    using inv len ok(2) nb by (simp add: cas_inv_def cell_time_write)
qed

lemma cas_step_inv:
  assumes "cas_inv s" "cas_step s t"
  shows "cas_inv t"
  using assms(2,1)
proof (induction rule: cas_step.induct)
  case (tick s t)
  then show ?case by (auto simp: cas_inv_def intro: pc_ok_mono order_trans)
next
  case (rate s r)
  have "cell_time (set_rate tb r) b = cell_time tb b" for tb b
    by (simp add: cell_time_def set_rate_def Let_def)
  then show ?case using rate by (simp add: cas_inv_def tb_consistent_set_rate)
next
  case (enter s i b tokens)
  then show ?case by (intro cas_inv_pc) simp_all
next
  case (load s i now tokens b needed mn old)
  have ok: "now \<le> cs_clock s" "0 \<le> b" "b < int NR_BUCKET" "unat tokens \<le> 2 ^ 28"
    using load(1,5) unfolding cas_inv_def by (metis pc_ok.simps(2))+
  have inv: "tb_consistent (cs_tb s)" "unat now < 2 ^ 53"
    using load(5) ok(1) by (auto simp: cas_inv_def word_le_nat_alt)
  have "mn \<le> now" by (rule min_time_le[OF inv load(3)])
  then show ?case
    using load(4) ok needed_le[OF inv(1) ok(4) load(2)] cas_inv_cell[OF load(5) ok(2,3)]
    by (intro cas_inv_pc[OF load(5)]) auto
next
  case (grant s i now needed old new b)
  then show ?case by (intro cas_inv_grant)
next
  case (swap_fails s i now needed old new b)
  then have "pc_ok (cs_clock s) (Looping now needed old new b)" unfolding cas_inv_def by metis
  then show ?case by (intro cas_inv_pc[OF swap_fails(4)]) simp
next
  case (reload s i now needed b old)
  have ok: "now \<le> cs_clock s" "0 \<le> b" "b < int NR_BUCKET" "unat needed \<le> 2 ^ 62"
    using reload(1,3) unfolding cas_inv_def by (metis pc_ok.simps(4))+
  then show ?case using reload(2) cas_inv_cell[OF reload(3) ok(2,3)] by (intro cas_inv_pc[OF reload(3)]) simp
next
  case (reject s i now needed old new b)
  then show ?case by (intro cas_inv_pc) simp_all
qed

interpretation cas: transition_inv cas_start cas_step cas_inv
  by unfold_locales (auto intro: cas_start_inv cas_step_inv)

text \<open>
  Property C2: no grant is lost or duplicated under concurrency. In every state
  that any number of interleaved callers can reach, with rate changes in between,
  the time handed out from each cell plus the cell's initial value is at most the
  cell's current value, which is never ahead of the clock: what all callers
  together were granted from a cell is covered by elapsed time.
\<close>

theorem cas_no_overgrant:
  assumes "cas_start s" "cas_step\<^sup>*\<^sup>* s t" "c < NR_BUCKET"
  shows "cs_base t c + cs_granted t c \<le> unat (cell_time (cs_tb t) (int c)) \<and>
         cell_time (cs_tb t) (int c) \<le> cs_clock t"
  using cas.reach_inv[OF assms(1,2)] assms(3) by (simp add: cas_inv_def)

definition sample_cas :: cas_state where
  "sample_cas = \<lparr>cs_tb = sample_tb, cs_clock = 1000000000, cs_pc = (\<lambda>_. Idle), cs_granted = (\<lambda>_. 0),
     cs_base = (\<lambda>_. 0)\<rparr>"

lemma sample_cas_start: "cas_start sample_cas"
  using sample_tb_consistent
  by (simp add: cas_start_def sample_cas_def cells_le_def sample_tb_eq cell_time_def NR_BUCKET_def)

lemma sample_cas_run:
  "cas_step\<^sup>*\<^sup>* sample_cas (sample_cas\<lparr>cs_tb := write_cell sample_tb 2 991612416,
     cs_granted := (\<lambda>_. 0)(2 := 1024)\<rparr>)"
proof -
  let ?s1 = "sample_cas\<lparr>cs_pc := (cs_pc sample_cas)(0 := Clocked (cs_clock sample_cas) 64 2)\<rparr>"
  have cell: "cell_time sample_tb 2 = 0" by (simp add: cell_time_def sample_tb_eq)
  have nd: "time_needed_of sample_tb 64 = Inr 1024" "min_time_of sample_tb 1000000000 = Inr 991611392"
    by (simp_all add: time_needed_of_def min_time_of_def sample_tb_eq dbl_of_u64_def dbl_simps)
  have "cas_step sample_cas ?s1" by (rule enter) (simp_all add: sample_cas_def NR_BUCKET_def)
  moreover have "cas_step ?s1 (?s1\<lparr>cs_pc := (cs_pc ?s1)(0 := Looping 1000000000 1024 0 991611392 2)\<rparr>)" (is "cas_step _ ?s2")
    using load[of ?s1 0 1000000000 64 2 1024 991611392 0] nd cell by (simp add: sample_cas_def)
  moreover have "cas_step ?s2 (?s2\<lparr>cs_tb := write_cell (cs_tb ?s2) 2 991612416, cs_pc := (cs_pc ?s2)(0 := Idle),
      cs_granted := (cs_granted ?s2)(2 := cs_granted ?s2 2 + unat (1024 :: u64))\<rparr>)" (is "cas_step _ ?s3")
    using grant[of ?s2 0 1000000000 1024 0 991611392 2] cell by (simp add: sample_cas_def)
  moreover have "?s3 = sample_cas\<lparr>cs_tb := write_cell sample_tb 2 991612416, cs_granted := (\<lambda>_. 0)(2 := 1024)\<rparr>"
    by (auto simp: sample_cas_def)
  ultimately show ?thesis by (metis (no_types, lifting) converse_rtranclp_into_rtranclp rtranclp.rtrancl_refl)
qed

theorem cas_no_overgrant_witness:
  "\<exists>t. cas_step\<^sup>*\<^sup>* sample_cas t \<and> cs_granted t 2 = 1024 \<and>
     cs_base t 2 + cs_granted t 2 \<le> unat (cell_time (cs_tb t) (int 2)) \<and> cell_time (cs_tb t) (int 2) \<le> cs_clock t"
  using cas_no_overgrant[OF sample_cas_start sample_cas_run, of 2] sample_cas_run
  by (intro exI conjI) (auto simp: NR_BUCKET_def sample_cas_def)



end
