(* ===== verification/Token_Wait.thy ===== *)
theory Token_Wait
  imports Token_Bucket
begin

text \<open>
  The waiting loops of \<open>tokenbucket.c\<close> end. A request for at most one cell's
  share of the burst is granted as soon as the clock has moved by its worth past
  the latest cell, so with a clock that advances between readings each request
  needs at most one reading per nanosecond of the burst time. The loops are also
  shown to be nothing but a sequence of \<open>consume\<close> calls whose grants add up to
  the requested number of tokens, which connects them to the rate limit.
\<close>

section \<open>A call of consume is defined and makes progress\<close>

definition burst_floor :: "token_bucket \<Rightarrow> int" where
  "burst_floor tb = \<lfloor>fin (time_per_burst tb)\<rfloor>"

lemma min_time_defined:
  assumes "tb_valid tb" "fin (time_per_burst tb) \<le> of_nat (unat now)" "unat now < 2 ^ 53"
  shows "\<exists>mn. min_time_of tb now = Inr mn \<and> int (unat mn) \<le> int (unat now) - burst_floor tb"
proof -
  obtain b where b: "time_per_burst tb = DFin b" "0 \<le> b"
    using assms(1) by (auto simp: tb_valid_def)
  let ?d = "of_nat (unat now) - b"
  have d: "0 \<le> ?d" "?d \<le> of_nat (unat now)" using assms(2) b by simp_all
  have r: "0 \<le> rnd53 ?d" "rnd53 ?d \<le> of_nat (unat now)"
    using d assms(3) by (simp_all add: rnd53_nonneg rnd53_le_nat)
  have "of_nat (unat now) < (of_nat (2 ^ 53) :: rat)" using assms(3) by (simp only: of_nat_less_iff)
  then have lt: "rnd53 ?d < 2 ^ 64" using r(2) by simp
  have "\<lceil>?d\<rceil> = int (unat now) - \<lfloor>b\<rfloor>"
    using ceiling_add_of_int[of "-b" "int (unat now)"] by (simp add: ceiling_minus add.commute)
  moreover have "\<lceil>?d\<rceil> \<le> 2 ^ 53"
    using d(2) assms(3) by (simp add: ceiling_le_iff)
  ultimately have "\<lfloor>rnd53 ?d\<rfloor> \<le> int (unat now) - \<lfloor>b\<rfloor>" using floor_rnd53(2)[OF d(1)] by simp
  moreover have "0 \<le> \<lfloor>rnd53 ?d\<rfloor>" using r(1) by simp
  ultimately show ?thesis
    using u64_of_dbl_nat[OF r(1) lt] assms(3) b(1)
    by (simp add: min_time_of_def unat_le_2_53 burst_floor_def)
qed

lemma consume_progress:
  assumes "tb_valid tb" "fin (time_per_burst tb) \<le> of_nat (unat now)" "unat now < 2 ^ 53"
    and "0 \<le> b" "b < 16" "cells_le tb now"
    and "time_needed_of tb tokens = Inr needed" "int (unat needed) \<le> burst_floor tb"
  shows "\<exists>ok tb'. consume now tb tokens b = Inr (ok, tb') \<and>
           (cells_le tb t \<longrightarrow> unat t + unat needed \<le> unat now \<longrightarrow> ok)"
proof -
  obtain mn where mn: "min_time_of tb now = Inr mn" "int (unat mn) \<le> int (unat now) - burst_floor tb"
    using min_time_defined[OF assms(1-3)] by blast
  have len: "nat b < length (buckets tb)" using assms(1,4,5) by (simp add: tb_valid_def NR_BUCKET_def)
  let ?old = "bucket_time (buckets tb ! nat b)"
  have "\<exists>r. consume now tb tokens b = Inr r"
    using len assms(4) unfolding consume_def assms(7) mn(1) bindE.simps Let_def
    by (simp split: prod.split)
  then obtain ok tb' where c: "consume now tb tokens b = Inr (ok, tb')" by fastforce
  have "ok" if "cells_le tb t" "unat t + unat needed \<le> unat now"
    using c
  proof (rule consume_Inr)
    fix needed' mn'
    assume "time_needed_of tb tokens = Inr needed'" "min_time_of tb now = Inr mn'"
      and ok: "ok \<longleftrightarrow> max mn' ?old + needed' \<le> now"
    then have eq: "needed' = needed" "mn' = mn" using assms(7) mn(1) by simp_all
    have "?old \<le> t" using that(1) len by (auto simp: cells_le_def)
    then have le: "unat (max mn ?old) + unat needed \<le> unat now"
      using that(2) mn(2) assms(8) by (auto simp: max_def word_le_nat_alt)
    then have "unat (max mn ?old + needed) = unat (max mn ?old) + unat needed"
      using assms(3) by (intro unat_add_less) simp
    then show ok using ok le by (simp add: eq word_le_nat_alt)
  qed
  then show ?thesis using c by blast
qed

section \<open>The clock\<close>

text \<open>Readings \<open>k\<close> to \<open>K\<close> of the clock increase strictly and stay below 2^53 ns.\<close>

definition ticking :: "(nat \<Rightarrow> u64) \<Rightarrow> nat \<Rightarrow> nat \<Rightarrow> bool" where
  "ticking clk k K \<longleftrightarrow> (\<forall>i. k \<le> i \<longrightarrow> i < K \<longrightarrow> clk i < clk (Suc i)) \<and> unat (clk K) < 2 ^ 53"

lemma ticking_advance:
  assumes "ticking clk k K" "k \<le> i" "i \<le> j" "j \<le> K"
  shows "unat (clk i) + (j - i) \<le> unat (clk j)"
  using assms(3,4)
proof (induction j rule: dec_induct)
  case (step n)
  then have "clk n < clk (Suc n)" using assms(1,2) by (simp add: ticking_def)
  with step show ?case by (simp add: word_less_nat_alt)
qed simp

lemma ticking_small: "ticking clk k K \<Longrightarrow> k \<le> i \<Longrightarrow> i \<le> K \<Longrightarrow> unat (clk i) < 2 ^ 53"
  using ticking_advance[of clk k K i K] by (auto simp: ticking_def intro: le_less_trans)

lemma ticking_mono: "ticking clk k K \<Longrightarrow> k \<le> i \<Longrightarrow> i \<le> j \<Longrightarrow> j \<le> K \<Longrightarrow> clk i \<le> clk j"
  using ticking_advance[of clk k K i j] by (simp add: word_le_nat_alt)

lemma cells_le_trans: "cells_le tb t \<Longrightarrow> t \<le> t' \<Longrightarrow> cells_le tb t'"
  by (auto simp: cells_le_def)

section \<open>One waiting loop\<close>

lemma next_cell: "0 \<le> b \<Longrightarrow> b < 16 \<Longrightarrow> 0 \<le> (b + 1) smod int NR_BUCKET \<and> (b + 1) smod int NR_BUCKET < 16"
  by (simp add: NR_BUCKET_def smod_int_alt_def)

lemma consume_all_append:
  "consume_all tb rs = Inr (gs, tb1) \<Longrightarrow> consume_all tb1 rs' = Inr (gs', tb2) \<Longrightarrow>
     consume_all tb (rs @ rs') = Inr (gs @ gs', tb2)"
  by (induction tb rs arbitrary: gs rule: consume_all.induct)
     (auto simp: bindE_Inr split: prod.splits)

text \<open>The requests of a loop: all for the same number of tokens, at readings \<open>k\<close> to \<open>j\<close>.\<close>

definition polls :: "(nat \<Rightarrow> u64) \<Rightarrow> nat \<Rightarrow> nat \<Rightarrow> u64 set \<Rightarrow> request list \<Rightarrow> bool" where
  "polls clk k j T rs \<longleftrightarrow> (\<forall>(now, tokens, b) \<in> set rs. tokens \<in> T \<and> (\<exists>i. k \<le> i \<and> i < j \<and> now = clk i))"

lemma polls_mono:
  assumes "polls clk k j T rs" "k' \<le> k" "j \<le> j'" "T \<subseteq> T'"
  shows "polls clk k' j' T' rs"
  unfolding polls_def
proof clarify
  fix now tokens b assume "(now, tokens, b) \<in> set rs"
  then obtain i where "tokens \<in> T" "k \<le> i" "i < j" "now = clk i" using assms(1) by (auto simp: polls_def)
  then show "tokens \<in> T' \<and> (\<exists>i. k' \<le> i \<and> i < j' \<and> now = clk i)"
    using assms(2-4) by (intro conjI exI[of _ i]) auto
qed

lemma polls_append [simp]: "polls clk k j T (rs @ rs') \<longleftrightarrow> polls clk k j T rs \<and> polls clk k j T rs'"
  by (simp add: polls_def ball_Un)

text \<open>The loop ends at reading \<open>j\<close> with one grant, after polls from reading \<open>k\<close> on.\<close>

definition served ::
  "(nat \<Rightarrow> u64) \<Rightarrow> u64 \<Rightarrow> nat \<Rightarrow> token_bucket \<Rightarrow> int \<Rightarrow> nat \<Rightarrow> token_bucket \<Rightarrow> int \<Rightarrow> request list \<Rightarrow> bool"
where
  "served clk tokens k tb b j tb' b' rs \<longleftrightarrow>
     k \<le> j \<and> 0 \<le> b' \<and> b' < 16 \<and>
     consume_wait clk tokens k tb b = Some (Inr (Suc j, tb', b')) \<and>
     consume_all tb rs = Inr ([(clk j, tokens, b')], tb') \<and> polls clk k (Suc j) {tokens} rs \<and>
     tb_valid tb' \<and> cells_le tb' (clk j)"

lemma served_now:
  assumes "consume (clk k) tb tokens b = Inr (True, tb')" "tb_valid tb" "cells_le tb (clk k)" "0 \<le> b" "b < 16"
  shows "served clk tokens k tb b k tb' b [(clk k, tokens, b)]"
  unfolding served_def using assms tb_valid_consume[OF assms(1,2)] cells_le_consume[OF assms(1,3) order_refl]
  by (auto simp: consume_wait.simps polls_def)

lemma served_later:
  assumes "consume (clk k) tb tokens b = Inr (False, tb1)"
    and "served clk tokens (Suc k) tb ((b + 1) smod int NR_BUCKET) j tb' b' rs"
  shows "served clk tokens k tb b j tb' b' ((clk k, tokens, b) # rs)"
proof -
  have tb1: "tb1 = tb" by (rule consume_False[OF assms(1)])
  have "consume_wait clk tokens k tb b = Some (Inr (Suc j, tb', b'))"
    using assms tb1 by (subst consume_wait.simps) (simp add: served_def)
  moreover have "polls clk k (Suc j) {tokens} rs"
    using assms(2) polls_mono[of clk "Suc k" "Suc j" "{tokens}" rs k "Suc j" "{tokens}"] by (simp add: served_def)
  then have "polls clk k (Suc j) {tokens} ((clk k, tokens, b) # rs)"
    using assms(2) by (auto simp: polls_def served_def)
  ultimately show ?thesis using assms tb1 unfolding served_def by simp
qed

lemma consume_wait_returns:
  assumes "tb_valid tb" "ticking clk k K" "cells_le tb t" "t \<le> clk k"
    and "fin (time_per_burst tb) \<le> of_nat (unat (clk k))" "0 \<le> b" "b < 16"
    and "time_needed_of tb tokens = Inr needed" "int (unat needed) \<le> burst_floor tb"
    and "k \<le> e" "e \<le> K" "unat t + unat needed \<le> unat (clk e)"
  shows "\<exists>j tb' b' rs. j \<le> e \<and> served clk tokens k tb b j tb' b' rs"
  using assms(2,4-7,10)
proof (induction "e - k" arbitrary: k b)
  case 0
  then have e: "e = k" by simp
  have small: "unat (clk k) < 2 ^ 53" using ticking_small[OF "0.prems"(1)] assms(11) e by simp
  have cle: "cells_le tb (clk k)" by (rule cells_le_trans[OF assms(3) "0.prems"(2)])
  obtain tb' where "consume (clk k) tb tokens b = Inr (True, tb')"
    using consume_progress[OF assms(1) "0.prems"(3) small "0.prems"(4,5) cle assms(8,9), of t] assms(3,12) e
    by auto
  then show ?case using served_now[of clk k] assms(1) cle "0.prems"(4,5) e by blast
next
  case (Suc n)
  then have ke: "Suc k \<le> e" and n: "n = e - Suc k" by simp_all
  then have K: "k < K" "Suc k \<le> K" using assms(11) by simp_all
  have small: "unat (clk k) < 2 ^ 53" using ticking_small[OF Suc.prems(1)] K by simp
  have cle: "cells_le tb (clk k)" by (rule cells_le_trans[OF assms(3) Suc.prems(2)])
  obtain ok tb1 where c: "consume (clk k) tb tokens b = Inr (ok, tb1)"
    using consume_progress[OF assms(1) Suc.prems(3) small Suc.prems(4,5) cle assms(8,9)] by blast
  show ?case
  proof (cases ok)
    case True
    then have "consume (clk k) tb tokens b = Inr (True, tb1)" using c by simp
    then show ?thesis using served_now[of clk k] assms(1) cle Suc.prems(4-6) by blast
  next
    case False
    have up: "clk k \<le> clk (Suc k)" using ticking_mono[OF Suc.prems(1)] K by simp
    then have "of_nat (unat (clk k)) \<le> (of_nat (unat (clk (Suc k))) :: rat)" by (simp add: word_le_nat_alt)
    then have f: "fin (time_per_burst tb) \<le> of_nat (unat (clk (Suc k)))" using Suc.prems(3) by simp
    have tk: "ticking clk (Suc k) K" using Suc.prems(1) by (simp add: ticking_def)
    have nc: "0 \<le> (b + 1) smod int NR_BUCKET" "(b + 1) smod int NR_BUCKET < 16"
      using next_cell[OF Suc.prems(4,5)] by auto
    obtain j tb' b' rs where "j \<le> e" "served clk tokens (Suc k) tb ((b + 1) smod int NR_BUCKET) j tb' b' rs"
      using Suc.hyps(1)[OF n tk order_trans[OF Suc.prems(2) up] f nc ke] by blast
    moreover have "consume (clk k) tb tokens b = Inr (False, tb1)" using c False by simp
    ultimately show ?thesis using served_later by blast
  qed
qed

section \<open>Sequences of waiting loops\<close>

definition same_config :: "token_bucket \<Rightarrow> token_bucket \<Rightarrow> bool" where
  "same_config tb tb' \<longleftrightarrow> time_per_token tb' = time_per_token tb \<and>
     time_per_burst tb' = time_per_burst tb \<and> burst_size tb' = burst_size tb"

lemma consume_all_config: "consume_all tb rs = Inr (gs, tb') \<Longrightarrow> same_config tb tb'"
proof (induction tb rs arbitrary: gs rule: consume_all.induct)
  case (2 tb now tokens b rs)
  from "2.prems" obtain ok tb1 gs1 where c: "consume now tb tokens b = Inr (ok, tb1)"
    and rest: "consume_all tb1 rs = Inr (gs1, tb')"
    by (auto simp: bindE_Inr split: prod.splits)
  have "same_config tb1 tb'" by (rule "2.IH"[OF rest])
  then show ?case using consume_config[OF c] by (simp add: same_config_def)
qed (simp add: same_config_def)

text \<open>
  Between readings \<open>k\<close> and \<open>k'\<close> the caller polled with requests from \<open>T\<close>, was
  granted \<open>amount\<close> tokens and left the bucket in a state no cell of which is ahead
  of the clock.
\<close>

definition waited ::
  "(nat \<Rightarrow> u64) \<Rightarrow> nat \<Rightarrow> token_bucket \<Rightarrow> nat \<Rightarrow> u64 set \<Rightarrow> nat \<Rightarrow> token_bucket \<Rightarrow> bool"
where
  "waited clk k tb amount T k' tb' \<longleftrightarrow>
     k \<le> k' \<and> tb_valid tb' \<and> cells_le tb' (clk k') \<and> same_config tb tb' \<and>
     (\<exists>rs gs. consume_all tb rs = Inr (gs, tb') \<and> tokens_of gs = amount \<and> polls clk k k' T rs)"

lemma waited_refl: "tb_valid tb \<Longrightarrow> cells_le tb (clk k) \<Longrightarrow> waited clk k tb 0 T k tb"
  unfolding waited_def by (intro conjI exI[of _ "[]"]) (auto simp: same_config_def tokens_of_def polls_def)

lemma waited_trans:
  assumes "waited clk k tb n T k1 tb1" "waited clk k1 tb1 m T' k2 tb2"
  shows "waited clk k tb (n + m) (T \<union> T') k2 tb2"
proof -
  obtain rs gs where 1: "consume_all tb rs = Inr (gs, tb1)" "tokens_of gs = n" "polls clk k k1 T rs"
    using assms(1) by (auto simp: waited_def)
  obtain rs' gs' where 2: "consume_all tb1 rs' = Inr (gs', tb2)" "tokens_of gs' = m" "polls clk k1 k2 T' rs'"
    using assms(2) by (auto simp: waited_def)
  have k: "k \<le> k1" "k1 \<le> k2" using assms by (simp_all add: waited_def)
  have "polls clk k k2 (T \<union> T') (rs @ rs')"
    using polls_mono[OF 1(3), of k k2 "T \<union> T'"] polls_mono[OF 2(3), of k k2 "T \<union> T'"] k by simp
  moreover have "tokens_of (gs @ gs') = n + m" using 1(2) 2(2) by (simp add: tokens_of_def)
  ultimately have "\<exists>rs gs. consume_all tb rs = Inr (gs, tb2) \<and> tokens_of gs = n + m \<and> polls clk k k2 (T \<union> T') rs"
    using consume_all_append[OF 1(1) 2(1)] by blast
  moreover have "same_config tb tb2" using assms by (simp add: waited_def same_config_def)
  ultimately show ?thesis using assms(2) k by (simp add: waited_def)
qed

lemma consume_wait_waited:
  assumes "tb_valid tb" "ticking clk k K" "cells_le tb (clk k)"
    and "fin (time_per_burst tb) \<le> of_nat (unat (clk k))" "0 \<le> b" "b < 16"
    and "time_needed_of tb tokens = Inr needed" "int (unat needed) \<le> burst_floor tb"
    and "k + nat (burst_floor tb) + 1 \<le> K"
  shows "\<exists>k' tb' b'. consume_wait clk tokens k tb b = Some (Inr (k', tb', b')) \<and> 0 \<le> b' \<and> b' < 16 \<and>
           k' \<le> k + nat (burst_floor tb) + 1 \<and> waited clk k tb (unat tokens) {tokens} k' tb'"
proof -
  have e: "k + unat needed \<le> K" "unat (clk k) + unat needed \<le> unat (clk (k + unat needed))"
    using ticking_advance[OF assms(2), of k "k + unat needed"] assms(8,9) by linarith+
  obtain j tb' b' rs where j: "j \<le> k + unat needed" and s: "served clk tokens k tb b j tb' b' rs"
    using consume_wait_returns[OF assms(1-3) order_refl assms(4-8) _ e] by auto
  have jK: "Suc j \<le> K" and jb: "Suc j \<le> k + nat (burst_floor tb) + 1" using j assms(8,9) by linarith+
  have "cells_le tb' (clk (Suc j))"
    using s ticking_mono[OF assms(2), of j "Suc j"] jK by (auto simp: served_def intro: cells_le_trans)
  then have "waited clk k tb (unat tokens) {tokens} (Suc j) tb'"
    using s consume_all_config[of tb rs] unfolding served_def waited_def
    by (intro conjI exI[of _ rs] exI[of _ "[(clk j, tokens, b')]"]) (auto simp: tokens_of_def)
  then show ?thesis using s jb unfolding served_def by blast
qed

lemma time_needed_config: "same_config tb tb' \<Longrightarrow> time_needed_of tb' tokens = time_needed_of tb tokens"
  and burst_floor_config: "same_config tb tb' \<Longrightarrow> burst_floor tb' = burst_floor tb"
  by (simp_all add: same_config_def time_needed_of_def burst_floor_def)

lemma ticking_later: "ticking clk k K \<Longrightarrow> k \<le> k' \<Longrightarrow> ticking clk k' K"
  by (simp add: ticking_def)

lemma burst_passed_later:
  assumes "ticking clk k K" "waited clk k tb n T k' tb'" "k' \<le> K"
    and "fin (time_per_burst tb) \<le> of_nat (unat (clk k))"
  shows "fin (time_per_burst tb') \<le> of_nat (unat (clk k'))"
proof -
  have "clk k \<le> clk k'" using assms(2,3) ticking_mono[OF assms(1)] by (simp add: waited_def)
  then have "of_nat (unat (clk k)) \<le> (of_nat (unat (clk k')) :: rat)" by (simp add: word_le_nat_alt)
  then show ?thesis using assms(2,4) by (simp add: waited_def same_config_def)
qed

lemma wait_repeat_waited:
  assumes "tb_valid tb" "ticking clk k K" "cells_le tb (clk k)"
    and "fin (time_per_burst tb) \<le> of_nat (unat (clk k))" "0 \<le> b" "b < 16"
    and "time_needed_of tb tokens = Inr needed" "int (unat needed) \<le> burst_floor tb"
    and "k + n * (nat (burst_floor tb) + 1) \<le> K"
  shows "\<exists>k' tb' b'. wait_repeat n clk tokens k tb b = Some (Inr (k', tb', b')) \<and> 0 \<le> b' \<and> b' < 16 \<and>
           k' \<le> k + n * (nat (burst_floor tb) + 1) \<and> waited clk k tb (n * unat tokens) {tokens} k' tb'"
  using assms
proof (induction n arbitrary: k tb b)
  case 0
  then show ?case using waited_refl by auto
next
  case (Suc n)
  let ?P = "nat (burst_floor tb) + 1"
  have "k + nat (burst_floor tb) + 1 \<le> K" using Suc.prems(9) by simp
  then obtain k1 tb1 b1 where 1: "consume_wait clk tokens k tb b = Some (Inr (k1, tb1, b1))" "0 \<le> b1" "b1 < 16"
    "k1 \<le> k + ?P" "waited clk k tb (unat tokens) {tokens} k1 tb1"
    using consume_wait_waited[OF Suc.prems(1-8)] by auto
  have sc: "same_config tb tb1" and v: "tb_valid tb1" "cells_le tb1 (clk k1)" "k \<le> k1"
    using 1(5) by (simp_all add: waited_def)
  have k1K: "k1 + n * ?P \<le> K" using 1(4) Suc.prems(9) by simp
  then have "k1 \<le> K" by simp
  note f = burst_passed_later[OF Suc.prems(2) 1(5) this Suc.prems(4)]
  obtain k' tb' b' where 2: "wait_repeat n clk tokens k1 tb1 b1 = Some (Inr (k', tb', b'))" "0 \<le> b'" "b' < 16"
    "k' \<le> k1 + n * ?P" "waited clk k1 tb1 (n * unat tokens) {tokens} k' tb'"
    using Suc.IH[OF v(1) ticking_later[OF Suc.prems(2) v(3)] v(2) f 1(2,3)] Suc.prems(7,8) k1K
    by (auto simp: time_needed_config[OF sc] burst_floor_config[OF sc])
  have "waited clk k tb (Suc n * unat tokens) {tokens} k' tb'" using waited_trans[OF 1(5) 2(5)] by simp
  moreover have "k' \<le> k + Suc n * ?P" using 1(4) 2(4) by simp
  ultimately show ?case using 1(1) 2(1-3) by simp
qed

section \<open>Splitting a request\<close>

lemma small_burst_size:
  assumes "unat (burst_size tb) \<le> 2 ^ 53"
  shows "u64_of_dbl (ddiv (dbl_of_u64 (burst_size tb)) (dbl_of_int (int NR_BUCKET)))
           = Some (word_of_nat (unat (burst_size tb) div 16))" (is "_ = Some ?w")
    and "unat (word_of_nat (unat (burst_size tb) div 16) :: u64) = unat (burst_size tb) div 16"
proof -
  let ?n = "unat (burst_size tb)"
  have d: "ddiv (dbl_of_u64 (burst_size tb)) (dbl_of_int (int NR_BUCKET)) = DFin (of_nat ?n / 16)"
    using assms by (simp add: unat_le_2_53 dbl_of_int_def NR_BUCKET_def dbl_simps)
  have "(of_nat ?n :: rat) \<le> of_nat (2 ^ 53)" using assms by (simp only: of_nat_le_iff)
  then have lt: "of_nat ?n / 16 < (2 ^ 64 :: rat)" by simp
  have fl: "\<lfloor>of_nat ?n / (16 :: rat)\<rfloor> = int (?n div 16)"
    using floor_divide_of_nat_eq[of ?n 16, where ?'a = rat] by simp
  show u: "unat (word_of_nat (?n div 16) :: u64) = ?n div 16"
    using assms by (simp add: unat_of_nat)
  show "u64_of_dbl (ddiv (dbl_of_u64 (burst_size tb)) (dbl_of_int (int NR_BUCKET))) = Some ?w"
    unfolding d using u64_of_dbl_nat(1)[OF _ lt] fl by simp
qed

lemma needed_small:
  assumes "tb_valid tb" "tb_consistent tb" "unat (burst_size tb) \<le> 2 ^ 53"
    and "unat tokens \<le> unat (burst_size tb) div 16"
  shows "\<exists>needed. time_needed_of tb tokens = Inr needed \<and> int (unat needed) \<le> burst_floor tb"
proof -
  let ?n = "unat (burst_size tb)"
  obtain a b where a: "time_per_token tb = DFin a" "0 < a" and b: "time_per_burst tb = DFin b" "b \<le> 2 ^ 53"
    using assms(1) by (auto simp: tb_valid_def)
  have "b = rnd53 (of_nat ?n / 16 * a)"
    using assms(2,3) a(1) b(1)
    by (simp add: tb_consistent_def unat_le_2_53 dbl_of_int_def NR_BUCKET_def dbl_simps)
  moreover have "of_nat (unat tokens) \<le> (of_nat ?n / 16 :: rat)"
    using of_nat_mono[OF assms(4), where ?'a = rat] of_nat_div_le_of_nat[of ?n 16] by simp
  then have "of_nat (unat tokens) * a \<le> of_nat ?n / 16 * a" using a(2) by (simp add: mult_right_mono)
  ultimately have le: "rnd53 (of_nat (unat tokens) * a) \<le> b" using a(2) by (simp add: rnd53_mono)
  have nn: "0 \<le> rnd53 (of_nat (unat tokens) * a)" using a(2) by (simp add: rnd53_nonneg)
  have "unat tokens \<le> 2 ^ 53" using assms(3,4) by linarith
  then show ?thesis
    using u64_of_dbl_nat[OF nn] le b floor_mono[OF le] nn a(1)
    by (simp add: time_needed_of_def unat_le_2_53 burst_floor_def)
qed

lemma sint_small:
  fixes q :: u64
  assumes "unat q < 2 ^ 31"
  shows "sint (ucast q :: u32) = int (unat q)"
proof -
  have "ucast q = (word_of_nat (unat q) :: u32)" by (simp add: of_nat_unat)
  moreover have "sint (word_of_nat (unat q) :: u32) = signed_take_bit 31 (int (unat q))"
    using sint_sbintrunc'[of "int (unat q)", where ?'a = 32] by simp
  moreover have "signed_take_bit 31 (int (unat q)) = int (unat q)"
    using assms by (intro signed_take_bit_int_eq_self) simp_all
  ultimately show ?thesis by simp
qed

lemma split_tokens_parts:
  assumes "unat (burst_size tb) \<le> 2 ^ 53" "16 \<le> unat (burst_size tb)"
  defines "s \<equiv> unat (burst_size tb) div 16"
  assumes "unat tokens div s < 2 ^ 31"
  shows "\<exists>small rem it. split_tokens tb tokens = Inr (small, rem, it) \<and> 0 \<le> it \<and>
           nat it * unat small + unat rem = unat tokens \<and> unat small \<le> s \<and> unat rem < s \<and>
           nat it \<le> unat tokens div s + 1"
proof -
  let ?w = "word_of_nat s :: u64"
  have w: "unat ?w = s" using small_burst_size(2)[OF assms(1)] by (simp add: s_def)
  have s0: "0 < s" using assms(2) by (simp add: s_def)
  have sb: "u64_of_dbl (ddiv (dbl_of_u64 (burst_size tb)) (dbl_of_int (int NR_BUCKET))) = Some ?w"
    using small_burst_size(1)[OF assms(1)] by (simp add: s_def)
  show ?thesis
  proof (cases "tokens \<le> ?w")
    case True
    then have "split_tokens tb tokens = Inr (tokens, 0, 1)" by (simp add: split_tokens_def sb)
    moreover have "unat tokens \<le> s" using True w by (simp add: word_le_nat_alt)
    ultimately show ?thesis using s0 by auto
  next
    case False
    have "?w \<noteq> 0" using w s0 by auto
    then have "split_tokens tb tokens = Inr (?w, tokens mod ?w, sint (ucast (tokens div ?w) :: u32))"
      using False by (simp add: split_tokens_def sb)
    moreover have q: "unat (tokens div ?w) = unat tokens div s" "unat (tokens mod ?w) = unat tokens mod s"
      using w by (simp_all add: unat_div unat_mod)
    moreover have "sint (ucast (tokens div ?w) :: u32) = int (unat tokens div s)"
      using sint_small[of "tokens div ?w"] q(1) assms(4) by simp
    ultimately show ?thesis using s0 w by (auto simp: div_mult_mod_eq)
  qed
qed

text \<open>
  How \<open>wait_for_token\<close> cuts a request. When the burst gives every cell
  at least one token, the request is cut into \<open>it\<close> equal parts and a remainder
  that add up to exactly the requested tokens, none larger than one cell's share
  of the burst. (Smaller bursts make the code divide by zero, and a quotient of
  2^31 or more is truncated by the conversion to \<open>int\<close>.)
\<close>

theorem split_tokens_exact:
  assumes "unat (burst_size tb) \<le> 2 ^ 53" "16 \<le> unat (burst_size tb)"
    and "unat tokens div (unat (burst_size tb) div 16) < 2 ^ 31"
  shows "\<exists>small rem it. split_tokens tb tokens = Inr (small, rem, it) \<and> 0 \<le> it \<and>
           nat it * unat small + unat rem = unat tokens \<and>
           unat small \<le> unat (burst_size tb) div 16 \<and> unat rem < unat (burst_size tb) div 16"
  using split_tokens_parts[OF assms] by blast

theorem split_tokens_exact_witness:
  "\<exists>small rem it. split_tokens sample_tb 2000000 = Inr (small, rem, it) \<and> 0 \<le> it \<and>
     nat it * unat small + unat rem = unat (2000000 :: u64) \<and>
     unat small \<le> unat (burst_size sample_tb) div 16 \<and> unat rem < unat (burst_size sample_tb) div 16"
  by (rule split_tokens_exact) (simp_all add: sample_tb_eq)

lemma wait_for_token_waited:
  assumes "tb_valid tb" "tb_consistent tb"
    and "unat (burst_size tb) \<le> 2 ^ 53" "16 \<le> unat (burst_size tb)"
    and "unat tokens div (unat (burst_size tb) div 16) < 2 ^ 31"
    and "ticking clk k K" "cells_le tb (clk k)" "fin (time_per_burst tb) \<le> of_nat (unat (clk k))"
    and "0 \<le> b" "b < 16"
    and "k + (unat tokens div (unat (burst_size tb) div 16) + 2) * (nat (burst_floor tb) + 1) \<le> K"
  shows "\<exists>k' tb' T. wait_for_token clk tokens k tb b = Some (Inr (k', tb')) \<and> k' \<le> K \<and>
           waited clk k tb (unat tokens) T k' tb' \<and> (\<forall>t \<in> T. unat t \<le> unat (burst_size tb) div 16)"
proof -
  let ?s = "unat (burst_size tb) div 16" and ?P = "nat (burst_floor tb) + 1"
  obtain small rem it where sp: "split_tokens tb tokens = Inr (small, rem, it)" "0 \<le> it"
    "nat it * unat small + unat rem = unat tokens" "unat small \<le> ?s" "unat rem < ?s"
    "nat it \<le> unat tokens div ?s + 1"
    using split_tokens_parts[OF assms(3,4,5)] by blast
  have le: "nat it * ?P + ?P \<le> (unat tokens div ?s + 2) * ?P"
    using mult_le_mono1[OF sp(6), of ?P] by (simp add: algebra_simps)
  have kK: "k + nat it * ?P \<le> K" "k + nat it * ?P + ?P \<le> K" using le assms(11) by linarith+
  obtain n1 where n1: "time_needed_of tb small = Inr n1" "int (unat n1) \<le> burst_floor tb"
    using needed_small[OF assms(1-3) sp(4)] by blast
  obtain k1 tb1 b1 where 1: "wait_repeat (nat it) clk small k tb b = Some (Inr (k1, tb1, b1))"
    "0 \<le> b1" "b1 < 16" "k1 \<le> k + nat it * ?P" "waited clk k tb (nat it * unat small) {small} k1 tb1"
    using wait_repeat_waited[OF assms(1,6-10) n1 kK(1)] by blast
  show ?thesis
  proof (cases "rem = 0")
    case True
    then have "wait_for_token clk tokens k tb b = Some (Inr (k1, tb1))"
      using sp(1) 1(1) by (simp add: wait_for_token_def)
    moreover have "waited clk k tb (unat tokens) {small} k1 tb1" using 1(5) sp(3) True by simp
    ultimately show ?thesis using 1(4) kK(1) sp(4) by (intro exI[of _ k1] exI[of _ tb1] exI[of _ "{small}"]) auto
  next
    case False
    have sc: "same_config tb tb1" and v: "tb_valid tb1" "cells_le tb1 (clk k1)" "k \<le> k1"
      using 1(5) by (simp_all add: waited_def)
    have k1: "k1 \<le> K" "k1 + nat (burst_floor tb1) + 1 \<le> K"
      using 1(4) kK burst_floor_config[OF sc] by simp_all
    obtain n2 where n2: "time_needed_of tb rem = Inr n2" "int (unat n2) \<le> burst_floor tb"
      using needed_small[OF assms(1-3) less_imp_le[OF sp(5)]] by blast
    obtain k2 tb2 b2 where 2: "consume_wait clk rem k1 tb1 b1 = Some (Inr (k2, tb2, b2))"
      "k2 \<le> k1 + nat (burst_floor tb1) + 1" "waited clk k1 tb1 (unat rem) {rem} k2 tb2"
      using consume_wait_waited[OF v(1) ticking_later[OF assms(6) v(3)] v(2)
          burst_passed_later[OF assms(6) 1(5) k1(1) assms(8)] 1(2,3), of rem n2] n2 k1(2)
      by (auto simp: time_needed_config[OF sc] burst_floor_config[OF sc])
    have "wait_for_token clk tokens k tb b = Some (Inr (k2, tb2))"
      using sp(1) 1(1) 2(1) False by (simp add: wait_for_token_def)
    moreover have "waited clk k tb (unat tokens) ({small} \<union> {rem}) k2 tb2"
      using waited_trans[OF 1(5) 2(3)] sp(3) by simp
    ultimately show ?thesis
      using 2(2) k1(2) sp(4,5) by (intro exI[of _ k2] exI[of _ tb2] exI[of _ "{small} \<union> {rem}"]) auto
  qed
qed

text \<open>
  Property C3: \<open>wait_for_token\<close> returns. With a clock that advances between
  readings, a consistently configured bucket with no cell ahead of the clock and
  at least one token per cell, the call ends after at most one reading per
  nanosecond of burst time for each part of the request, without a fault; it is
  a sequence of \<open>consume\<close> calls at those readings, each for at most one cell's
  share of the burst, whose grants add up to exactly the requested tokens.
\<close>

theorem wait_for_token_returns:
  assumes "tb_valid tb" "tb_consistent tb"
    and "unat (burst_size tb) \<le> 2 ^ 53" "16 \<le> unat (burst_size tb)"
    and "unat tokens div (unat (burst_size tb) div 16) < 2 ^ 31"
    and "ticking clk k K" "cells_le tb (clk k)" "fin (time_per_burst tb) \<le> of_nat (unat (clk k))"
    and "0 \<le> b" "b < 16"
    and "k + (unat tokens div (unat (burst_size tb) div 16) + 2) * (nat (burst_floor tb) + 1) \<le> K"
  shows "\<exists>k' tb' rs gs. wait_for_token clk tokens k tb b = Some (Inr (k', tb')) \<and> k' \<le> K \<and>
           consume_all tb rs = Inr (gs, tb') \<and> tokens_of gs = unat tokens \<and>
           (\<forall>(now, t, c) \<in> set rs. unat t \<le> unat (burst_size tb) div 16 \<and>
              (\<exists>i. k \<le> i \<and> i < k' \<and> now = clk i))"
proof -
  obtain k' tb' T where w: "wait_for_token clk tokens k tb b = Some (Inr (k', tb'))" "k' \<le> K"
    "waited clk k tb (unat tokens) T k' tb'" "\<forall>t \<in> T. unat t \<le> unat (burst_size tb) div 16"
    using wait_for_token_waited[OF assms] by blast
  then obtain rs gs where rs: "consume_all tb rs = Inr (gs, tb')" "tokens_of gs = unat tokens"
    "polls clk k k' T rs" by (auto simp: waited_def)
  have "\<forall>(now, t, c) \<in> set rs. unat t \<le> unat (burst_size tb) div 16 \<and> (\<exists>i. k \<le> i \<and> i < k' \<and> now = clk i)"
    using rs(3) w(4) unfolding polls_def by blast
  then show ?thesis using w(1,2) rs(1,2) by blast
qed

definition sample_clk :: "nat \<Rightarrow> u64" where
  "sample_clk i = word_of_nat (1000000000 + i)"

lemma unat_sample_clk: "i < 2 ^ 32 \<Longrightarrow> unat (sample_clk i) = 1000000000 + i"
  unfolding sample_clk_def by (simp only: unat_of_nat) simp

lemma sample_ticking: "K < 2 ^ 31 \<Longrightarrow> ticking sample_clk 0 K"
  by (simp add: ticking_def word_less_nat_alt unat_sample_clk)

theorem wait_for_token_returns_witness:
  "\<exists>k' tb' rs gs. wait_for_token sample_clk 2000000 0 sample_tb 3 = Some (Inr (k', tb')) \<and> k' \<le> 41943045 \<and>
     consume_all sample_tb rs = Inr (gs, tb') \<and> tokens_of gs = unat (2000000 :: u64) \<and>
     (\<forall>(now, t, c) \<in> set rs. unat t \<le> unat (burst_size sample_tb) div 16 \<and>
        (\<exists>i. 0 \<le> i \<and> i < k' \<and> now = sample_clk i))"
  by (rule wait_for_token_returns[OF sample_tb_valid sample_tb_consistent _ _ _ sample_ticking])
     (simp_all add: sample_tb_eq cells_le_def burst_floor_def unat_sample_clk)

section \<open>The request bucket\<close>

lemma wait_for_request_token_waited:
  assumes "tb_valid tb" "ticking clk k K" "cells_le tb (clk k)"
    and "fin (time_per_burst tb) \<le> of_nat (unat (clk k))" "0 \<le> b" "b < 16"
    and "time_needed_of tb 1 = Inr needed" "int (unat needed) \<le> burst_floor tb"
    and "k + nat (burst_floor tb) + 1 \<le> K"
  shows "\<exists>k' tb'. wait_for_request_token clk k tb b = Some (Inr (k', tb')) \<and>
           k' \<le> k + nat (burst_floor tb) + 1 \<and> waited clk k tb 1 {1} k' tb'"
  using consume_wait_waited[OF assms] by (auto simp: wait_for_request_token_def)

end
