(* ===== verification/Qp_Cache.thy ===== *)
theory Qp_Cache
  imports Prelude
begin

text \<open>
  The per-task record of the queue pairs a task has used:
  \<open>libibverbs/qp_cache.c\<close> and \<open>libibverbs/qp_cache.h\<close>. The entries are indexed by
  the queue pair handle, which the code does not compare with \<open>CACHE_SIZE\<close>; a
  handle outside the array is a fault here. Taking a lock that is held is the
  fault \<open>Blocked\<close>.
\<close>

section \<open>Data and operations\<close>

definition CACHE_SIZE :: nat where
  "CACHE_SIZE = 500"

record qp_cache =
  entry :: "int list"
  entry_size :: int
  usage :: int
  cache_lock :: bool

definition spin_lock :: "qp_cache \<Rightarrow> fault + qp_cache" where
  "spin_lock c = (if cache_lock c then Inl Blocked else Inr (c\<lparr>cache_lock := True\<rparr>))"

definition spin_unlock :: "qp_cache \<Rightarrow> qp_cache" where
  "spin_unlock c = c\<lparr>cache_lock := False\<rparr>"

definition set_entry :: "qp_cache \<Rightarrow> u32 \<Rightarrow> int \<Rightarrow> fault + qp_cache" where
  "set_entry c value x =
     (if unat value < length (entry c) then Inr (c\<lparr>entry := (entry c)[unat value := x]\<rparr>)
      else Inl OutOfBounds)"

definition init_qp_cache :: "qp_cache \<Rightarrow> qp_cache" where
  "init_qp_cache c = c\<lparr>usage := 0, entry_size := int CACHE_SIZE, entry := replicate CACHE_SIZE 0,
     cache_lock := False\<rparr>"

definition cache_find :: "qp_cache \<Rightarrow> u32 \<Rightarrow> fault + int" where
  "cache_find c value =
     (if unat value < length (entry c) then Inr (entry c ! unat value) else Inl OutOfBounds)"

text \<open>The statement \<open>cache->usage;\<close> of \<open>cache_insert\<close> reads the counter and has no effect.\<close>

definition cache_insert :: "qp_cache \<Rightarrow> u32 \<Rightarrow> fault + qp_cache" where
  "cache_insert c value =
     bindE (spin_lock c) (\<lambda>c.
     bindE (cache_find c value) (\<lambda>found.
     if found \<noteq> 0 then Inr (spin_unlock c)
     else bindE (set_entry c value 1) (\<lambda>c. Inr (spin_unlock c))))"

definition cache_delete :: "qp_cache \<Rightarrow> u32 \<Rightarrow> fault + qp_cache" where
  "cache_delete c value =
     bindE (spin_lock c) (\<lambda>c.
     bindE (set_entry c value 0) (\<lambda>c.
     if usage c = - (2 ^ 31) then Inl SignedOverflow
     else Inr (spin_unlock (c\<lparr>usage := usage c - 1\<rparr>))))"

definition cache_flush :: "qp_cache \<Rightarrow> qp_cache" where
  "cache_flush c = c\<lparr>entry := replicate CACHE_SIZE 0, usage := 0\<rparr>"

definition cache_find_or_insert :: "qp_cache \<Rightarrow> u32 \<Rightarrow> fault + qp_cache" where
  "cache_find_or_insert c value =
     bindE (cache_find c value) (\<lambda>found. if found \<noteq> 0 then Inr c else cache_insert c value)"

section \<open>Well-formed caches and runs of operations\<close>

definition cache_wf :: "qp_cache \<Rightarrow> bool" where
  "cache_wf c \<longleftrightarrow> length (entry c) = CACHE_SIZE \<and> set (entry c) \<subseteq> {0, 1} \<and>
     entry_size c = int CACHE_SIZE \<and> \<not> cache_lock c"

definition cached :: "qp_cache \<Rightarrow> u32 set" where
  "cached c = {v. unat v < CACHE_SIZE \<and> entry c ! unat v \<noteq> 0}"

datatype cache_op = FindOrInsert u32 | Delete u32 | Flush

fun cache_exec :: "cache_op \<Rightarrow> qp_cache \<Rightarrow> fault + qp_cache" where
  "cache_exec (FindOrInsert v) c = cache_find_or_insert c v"
| "cache_exec (Delete v) c = cache_delete c v"
| "cache_exec Flush c = Inr (cache_flush c)"

fun cache_run :: "cache_op list \<Rightarrow> qp_cache \<Rightarrow> fault + qp_cache" where
  "cache_run [] c = Inr c"
| "cache_run (x # xs) c = bindE (cache_exec x c) (cache_run xs)"

text \<open>The set of handles a run should leave behind, and the deletions since the last flush.\<close>

fun handles :: "cache_op list \<Rightarrow> u32 set \<Rightarrow> u32 set" where
  "handles [] S = S"
| "handles (FindOrInsert v # xs) S = handles xs (insert v S)"
| "handles (Delete v # xs) S = handles xs (S - {v})"
| "handles (Flush # xs) S = handles xs {}"

fun deletions :: "cache_op list \<Rightarrow> nat \<Rightarrow> nat" where
  "deletions [] n = n"
| "deletions (FindOrInsert v # xs) n = deletions xs n"
| "deletions (Delete v # xs) n = deletions xs (Suc n)"
| "deletions (Flush # xs) n = deletions xs 0"

section \<open>One operation\<close>

lemma cache_wf_init: "cache_wf (init_qp_cache c)"
  by (auto simp: cache_wf_def init_qp_cache_def)

lemma cached_init: "cached (init_qp_cache c) = {}"
  by (simp add: cached_def init_qp_cache_def)

lemma usage_init: "usage (init_qp_cache c) = 0"
  by (simp add: init_qp_cache_def)

lemma find_or_insert_new:
  assumes "cache_wf c" "unat v < CACHE_SIZE" "entry c ! unat v = 0"
  shows "cache_find_or_insert c v = Inr (c\<lparr>entry := (entry c)[unat v := 1]\<rparr>)"
  using assms
  by (simp add: cache_find_or_insert_def cache_find_def cache_insert_def spin_lock_def
      spin_unlock_def set_entry_def cache_wf_def)

lemma find_or_insert_old:
  assumes wf: "cache_wf c" and v: "unat v < CACHE_SIZE" "entry c ! unat v \<noteq> 0"
  shows "cache_find_or_insert c v = Inr (c\<lparr>entry := (entry c)[unat v := 1]\<rparr>)"
proof -
  have l: "unat v < length (entry c)" using wf v(1) by (simp add: cache_wf_def)
  have "entry c ! unat v \<in> {0, 1}" using wf nth_mem[OF l] unfolding cache_wf_def by blast
  then have "(entry c)[unat v := 1] = entry c"
    using v(2) list_update_id[of "entry c" "unat v"] by simp
  then have "c\<lparr>entry := (entry c)[unat v := 1]\<rparr> = c" by simp
  moreover have "cache_find_or_insert c v = Inr c"
    using l v(2) by (simp add: cache_find_or_insert_def cache_find_def)
  ultimately show ?thesis by (simp only:)
qed

lemma cache_find_or_insert_ok [cache_simps]:
  assumes "cache_wf c"
  shows "cache_find_or_insert c v =
    (if unat v < CACHE_SIZE then Inr (c\<lparr>entry := (entry c)[unat v := 1]\<rparr>) else Inl OutOfBounds)"
proof (cases "unat v < CACHE_SIZE")
  case True
  then show ?thesis
    using find_or_insert_new[OF assms True] find_or_insert_old[OF assms True] by argo
next
  case False
  then show ?thesis using assms by (simp add: cache_find_or_insert_def cache_find_def cache_wf_def)
qed

lemma cache_delete_ok [cache_simps]:
  assumes "cache_wf c"
  shows "cache_delete c v =
    (if unat v < CACHE_SIZE
     then if usage c = - (2 ^ 31) then Inl SignedOverflow
          else Inr (c\<lparr>entry := (entry c)[unat v := 0], usage := usage c - 1\<rparr>)
     else Inl OutOfBounds)"
  using assms
  by (auto simp: cache_delete_def spin_lock_def spin_unlock_def set_entry_def cache_wf_def)

lemma cache_wf_update:
  assumes "cache_wf c" "x \<in> {0, 1}"
  shows "cache_wf (c\<lparr>entry := (entry c)[i := x]\<rparr>)"
    and "cache_wf (c\<lparr>entry := (entry c)[i := x], usage := u\<rparr>)"
proof -
  have "set ((entry c)[i := x]) \<subseteq> {0, 1}"
    using set_update_subset_insert[of "entry c" i x] assms unfolding cache_wf_def by blast
  then show "cache_wf (c\<lparr>entry := (entry c)[i := x]\<rparr>)"
    and "cache_wf (c\<lparr>entry := (entry c)[i := x], usage := u\<rparr>)"
    using assms by (simp_all add: cache_wf_def)
qed

lemma cache_exec_wf:
  assumes "cache_wf c" "cache_exec x c = Inr c'"
  shows "cache_wf c'"
proof (cases x)
  case Flush
  then show ?thesis using assms by (auto simp: cache_flush_def cache_wf_def)
qed (use assms in \<open>auto simp: cache_simps cache_wf_update split: if_splits\<close>)

lemma cached_update:
  assumes "cache_wf c" "unat v < CACHE_SIZE"
  shows "cached (c\<lparr>entry := (entry c)[unat v := 1]\<rparr>) = insert v (cached c)"
    and "cached (c\<lparr>entry := (entry c)[unat v := 0], usage := u\<rparr>) = cached c - {v}"
  using assms by (auto simp: cached_def cache_wf_def nth_list_update dest: unat_eqD)

lemma cache_exec_cached:
  assumes "cache_wf c" "cache_exec x c = Inr c'"
  shows "cached c' = handles [x] (cached c)"
proof (cases x)
  case Flush
  then show ?thesis using assms by (auto simp: cache_flush_def cached_def)
qed (use assms in \<open>auto simp: cache_simps cached_update split: if_splits\<close>)

lemma cache_exec_usage:
  assumes "cache_wf c" "cache_exec x c = Inr c'" "usage c = - int n"
  shows "usage c' = - int (deletions [x] n)"
  using assms by (cases x) (auto simp: cache_simps cache_flush_def split: if_splits)

section \<open>Runs\<close>

lemma cache_run_all:
  assumes "cache_wf c" "cache_run xs c = Inr c'" "usage c = - int n"
  shows "cache_wf c' \<and> cached c' = handles xs (cached c) \<and> usage c' = - int (deletions xs n)"
  using assms
proof (induction xs arbitrary: c n)
  case (Cons x xs)
  from Cons.prems(2) obtain c1 where x: "cache_exec x c = Inr c1" and xs: "cache_run xs c1 = Inr c'"
    by (auto simp: bindE_Inr)
  have "handles (x # xs) S = handles xs (handles [x] S)" "deletions (x # xs) m = deletions xs (deletions [x] m)" for S m
    by (cases x; simp)+
  then show ?case
    using Cons.IH[OF cache_exec_wf[OF Cons.prems(1) x] xs cache_exec_usage[OF Cons.prems(1) x Cons.prems(3)]]
      cache_exec_cached[OF Cons.prems(1) x] by simp
qed simp

text \<open>A run whose handles are inside the array, with fewer than \<open>2 ^ 31\<close> deletions, has no fault.\<close>

fun op_in_range :: "cache_op \<Rightarrow> bool" where
  "op_in_range (FindOrInsert v) = (unat v < CACHE_SIZE)"
| "op_in_range (Delete v) = (unat v < CACHE_SIZE)"
| "op_in_range Flush = True"

lemma cache_run_no_fault:
  assumes "cache_wf c" "usage c = - int n" "list_all op_in_range xs" "n + length xs \<le> 2 ^ 31"
  shows "\<exists>c'. cache_run xs c = Inr c'"
  using assms
proof (induction xs arbitrary: c n)
  case (Cons x xs)
  have "usage c \<noteq> - (2 ^ 31)" using Cons.prems(2,4) by simp
  then obtain c1 where x: "cache_exec x c = Inr c1"
    using Cons.prems(1,3) by (cases x) (auto simp: cache_simps)
  have "deletions [x] n + length xs \<le> 2 ^ 31" using Cons.prems(4) by (cases x) auto
  then show ?case
    using Cons.IH[OF cache_exec_wf[OF Cons.prems(1) x] cache_exec_usage[OF Cons.prems(1) x Cons.prems(2)]]
      Cons.prems(3) x by simp
qed simp

text \<open>
  Property C17: the cache is a set of queue pair handles. After any run of
  find-or-insert, delete and flush operations that stays inside the array, the
  entries that are set are exactly the handles inserted and not deleted or
  flushed since, and the lock is free again.
\<close>

theorem cache_is_handle_set:
  assumes "cache_run xs (init_qp_cache c) = Inr c'"
  shows "cached c' = handles xs {} \<and> cache_wf c'"
  using cache_run_all[OF cache_wf_init assms, of 0] by (simp add: cached_init usage_init)

theorem cache_is_handle_set_witness:
  "\<exists>c'. cache_run [FindOrInsert 3, FindOrInsert 7, Delete 3]
           (init_qp_cache \<lparr>entry = [], entry_size = 0, usage = 9, cache_lock = True\<rparr>) = Inr c' \<and>
        cached c' = {7} \<and> cache_wf c'"
proof -
  let ?c = "init_qp_cache \<lparr>entry = [], entry_size = 0, usage = 9, cache_lock = True\<rparr>"
  let ?xs = "[FindOrInsert 3, FindOrInsert 7, Delete 3]"
  have "\<exists>c'. cache_run ?xs ?c = Inr c'"
    by (rule cache_run_no_fault[OF cache_wf_init, of _ 0]) (simp_all add: usage_init CACHE_SIZE_def)
  then obtain c' where r: "cache_run ?xs ?c = Inr c'" ..
  have "handles ?xs {} = {7}" by auto
  with cache_is_handle_set[OF r] have "cached c' = {7} \<and> cache_wf c'" by (simp only:)
  with r show ?thesis by blast
qed

text \<open>
  Property C18: the usage counter never counts a use. In every run it is minus
  the number of deletions since the last flush, so it is never positive, however
  many queue pairs are cached.
\<close>

theorem usage_counts_deletions:
  assumes "cache_run xs (init_qp_cache c) = Inr c'"
  shows "usage c' = - int (deletions xs 0) \<and> usage c' \<le> 0"
  using cache_run_all[OF cache_wf_init assms, of 0] by (simp add: usage_init)

theorem usage_counts_deletions_witness:
  "\<exists>c'. cache_run [FindOrInsert 1, FindOrInsert 2, Delete 1]
           (init_qp_cache \<lparr>entry = [], entry_size = 0, usage = 0, cache_lock = False\<rparr>) = Inr c' \<and>
        usage c' = - 1"
proof -
  let ?c = "init_qp_cache \<lparr>entry = [], entry_size = 0, usage = 0, cache_lock = False\<rparr>"
  let ?xs = "[FindOrInsert 1, FindOrInsert 2, Delete 1]"
  have "\<exists>c'. cache_run ?xs ?c = Inr c'"
    by (rule cache_run_no_fault[OF cache_wf_init, of _ 0]) (simp_all add: usage_init CACHE_SIZE_def)
  then obtain c' where r: "cache_run ?xs ?c = Inr c'" ..
  have "deletions ?xs 0 = 1" by simp
  with usage_counts_deletions[OF r] have "usage c' = - 1" by linarith
  with r show ?thesis by blast
qed

end
