(* ===== verification/Resource_Table.thy ===== *)
theory Resource_Table
  imports Token_Bucket Qp_Cache
begin

text \<open>
  The table the monitor shares with the tenants: \<open>libibverbs/resource_table.h\<close>
  and \<open>libibverbs/resource_table.c\<close>. A row is the record \<open>resource\<close>. The global
  pointer \<open>my_res\<close> of a tenant is an optional index of the table; a null pointer
  is the index \<open>None\<close>.
\<close>

section \<open>Data\<close>

definition TABLE_SIZE :: nat where
  "TABLE_SIZE = 100"

definition HISTORY_LENGTH :: nat where
  "HISTORY_LENGTH = 100"

datatype task_type = LATENCY | SECONDARY | NONE

record task_stat =
  qos :: u32
  cur_median :: u32
  cur_tail :: u32
  bandwidth :: u64
  time_stamp :: u64

record history_table =
  access_history :: "u32 list"
  capacity :: u32
  head :: u32
  tail :: u32

record resource =
  on :: bool
  cache_limit :: bool
  allocated_bandwidth :: u64
  allocated_qps :: u64
  cache :: qp_cache
  tb :: token_bucket
  request_tb :: token_bucket
  ht :: history_table
  stat :: task_stat
  type :: task_type
  task_name :: string

type_synonym table = "resource list"

text \<open>Access to a row, with the bounds of the mapped array.\<close>

definition row :: "table \<Rightarrow> int \<Rightarrow> fault + resource" where
  "row t i = (if 0 \<le> i \<and> i < int (length t) then Inr (t ! nat i) else Inl OutOfBounds)"

definition upd_row :: "table \<Rightarrow> int \<Rightarrow> (resource \<Rightarrow> resource) \<Rightarrow> fault + table" where
  "upd_row t i f = bindE (row t i) (\<lambda>r. Inr (t[nat i := f r]))"

section \<open>The access history\<close>

definition init_history_table :: "history_table \<Rightarrow> history_table" where
  "init_history_table h = h\<lparr>head := 0, tail := 0, capacity := of_nat HISTORY_LENGTH,
     access_history := replicate HISTORY_LENGTH (- 1)\<rparr>"

text \<open>
  The counter \<open>i\<close> is a signed \<open>int\<close>, converted back to unsigned by the remainder
  with the unsigned capacity, so the slot is the unsigned remainder of the tail.
\<close>

definition add_history :: "history_table \<Rightarrow> u32 \<Rightarrow> fault + history_table" where
  "add_history h handle =
     (let i = tail h; h = h\<lparr>tail := tail h + 1\<rparr>
      in if capacity h = 0 then Inl DivByZero
         else let i = sint (i mod capacity h)
              in if 0 \<le> i \<and> i < int (length (access_history h))
                 then Inr (h\<lparr>access_history := (access_history h)[nat i := handle]\<rparr>)
                 else Inl OutOfBounds)"

section \<open>Statistics\<close>

definition get_time_stamp :: "resource \<Rightarrow> u64" where
  "get_time_stamp res = time_stamp (stat res)"

definition get_tail_lat :: "resource \<Rightarrow> u32" where
  "get_tail_lat res = cur_tail (stat res)"

text \<open>The 64-bit bandwidth is returned through a \<open>uint32_t\<close>.\<close>

definition get_bw :: "resource \<Rightarrow> u32" where
  "get_bw res = ucast (bandwidth (stat res))"

definition my_row :: "table \<Rightarrow> int option \<Rightarrow> (resource \<Rightarrow> resource) \<Rightarrow> fault + table" where
  "my_row t my_res f = (case my_res of None \<Rightarrow> Inl NullDeref | Some i \<Rightarrow> upd_row t i f)"

definition report_latency :: "table \<Rightarrow> int option \<Rightarrow> u32 \<Rightarrow> u32 \<Rightarrow> u64 \<Rightarrow> fault + table" where
  "report_latency t my_res median tail_lat ts =
     my_row t my_res (\<lambda>r. r\<lparr>stat := (stat r)\<lparr>cur_median := median, cur_tail := tail_lat, time_stamp := ts\<rparr>\<rparr>)"

definition report_bw :: "table \<Rightarrow> int option \<Rightarrow> u64 \<Rightarrow> u64 \<Rightarrow> fault + table" where
  "report_bw t my_res bw ts = my_row t my_res (\<lambda>r. r\<lparr>stat := (stat r)\<lparr>bandwidth := bw\<rparr>\<rparr>)"

definition my_task_type :: "table \<Rightarrow> int option \<Rightarrow> fault + task_type" where
  "my_task_type t my_res =
     (case my_res of None \<Rightarrow> Inl NullDeref | Some i \<Rightarrow> bindE (row t i) (\<lambda>r. Inr (type r)))"

section \<open>Rows\<close>

lemma row_Inr [table_simps]: "row t i = Inr r \<longleftrightarrow> 0 \<le> i \<and> i < int (length t) \<and> r = t ! nat i"
  by (auto simp: row_def)

lemma row_of_nat [table_simps]: "k < length t \<Longrightarrow> row t (int k) = Inr (t ! k)"
  by (simp add: row_def)

lemma upd_row_of_nat [table_simps]: "k < length t \<Longrightarrow> upd_row t (int k) f = Inr (t[k := f (t ! k)])"
  by (simp add: upd_row_def row_of_nat)

lemma upd_row_outside [table_simps]: "int (length t) \<le> i \<Longrightarrow> upd_row t i f = Inl OutOfBounds"
  by (simp add: upd_row_def row_def)

lemma upd_row_Inr [table_simps]:
  "upd_row t i f = Inr t' \<longleftrightarrow> 0 \<le> i \<and> i < int (length t) \<and> t' = t[nat i := f (t ! nat i)]"
  by (auto simp: upd_row_def bindE_Inr row_Inr)

section \<open>The history keeps the latest handles\<close>

fun add_all :: "u32 list \<Rightarrow> history_table \<Rightarrow> fault + history_table" where
  "add_all [] h = Inr h"
| "add_all (x # xs) h = bindE (add_history h x) (add_all xs)"

text \<open>
  The ring after the handles \<open>hs\<close>: the tail has counted them, and each of the last
  \<open>HISTORY_LENGTH\<close> of them is in its slot.
\<close>

definition ring :: "u32 list \<Rightarrow> history_table \<Rightarrow> bool" where
  "ring hs h \<longleftrightarrow> capacity h = of_nat HISTORY_LENGTH \<and> length (access_history h) = HISTORY_LENGTH \<and>
     unat (tail h) = length hs \<and>
     (\<forall>k. k < length hs \<longrightarrow> length hs \<le> k + HISTORY_LENGTH \<longrightarrow>
          access_history h ! (k mod HISTORY_LENGTH) = hs ! k)"

lemma ring_init: "ring [] (init_history_table h)"
  by (simp add: ring_def init_history_table_def)

lemma tail_slot:
  "sint ((w :: u32) mod of_nat HISTORY_LENGTH) = int (unat w mod HISTORY_LENGTH)"
proof -
  have u: "unat (w mod of_nat HISTORY_LENGTH) = unat w mod HISTORY_LENGTH"
    by (simp add: unat_mod HISTORY_LENGTH_def)
  then have "unat (w mod of_nat HISTORY_LENGTH) < 2 ^ 31" by (simp add: HISTORY_LENGTH_def)
  then show ?thesis using u sint_of_small by simp
qed

lemma same_slot:
  assumes "k < n" "n < k + HISTORY_LENGTH"
  shows "n mod HISTORY_LENGTH \<noteq> k mod HISTORY_LENGTH"
proof
  assume "n mod HISTORY_LENGTH = k mod HISTORY_LENGTH"
  then have "HISTORY_LENGTH dvd n - k" using assms(1) mod_eq_dvd_iff_nat[of k n] by simp
  then show False using assms dvd_imp_le[of HISTORY_LENGTH "n - k"] by simp
qed

lemma ring_add:
  assumes "ring hs h" "Suc (length hs) < 2 ^ 32"
  shows "\<exists>h'. add_history h x = Inr h' \<and> ring (hs @ [x]) h'"
proof -
  let ?n = "length hs"
  have c: "capacity h \<noteq> 0" using assms by (simp add: ring_def HISTORY_LENGTH_def)
  have n: "unat (tail h) = ?n" and l: "length (access_history h) = HISTORY_LENGTH"
    using assms by (simp_all add: ring_def)
  have i: "sint (tail h mod capacity h) = int (?n mod HISTORY_LENGTH)"
    using assms tail_slot[of "tail h"] by (simp add: ring_def)
  have b: "?n mod HISTORY_LENGTH < HISTORY_LENGTH" by (simp add: HISTORY_LENGTH_def)
  let ?h = "h\<lparr>tail := tail h + 1, access_history := (access_history h)[?n mod HISTORY_LENGTH := x]\<rparr>"
  have "add_history h x = Inr ?h"
    using c i b l by (simp add: add_history_def Let_def)
  moreover have "unat (tail h + 1) = Suc ?n"
    using n assms(2) unat_add_less[of "tail h" 1] by simp
  moreover have "(access_history h)[?n mod HISTORY_LENGTH := x] ! (k mod HISTORY_LENGTH) = (hs @ [x]) ! k"
    if "k < Suc ?n" "Suc ?n \<le> k + HISTORY_LENGTH" for k
  proof (cases "k = ?n")
    case False
    then show ?thesis using that same_slot[of k ?n] assms(1) by (simp add: ring_def nth_append)
  qed (use b l in simp)
  ultimately show ?thesis using assms(1) by (auto simp: ring_def)
qed

lemma ring_add_all:
  assumes "ring gs h" "length gs + length hs < 2 ^ 32"
  shows "\<exists>h'. add_all hs h = Inr h' \<and> ring (gs @ hs) h'"
  using assms
proof (induction hs arbitrary: gs h)
  case (Cons x hs)
  then obtain h1 where "add_history h x = Inr h1" "ring (gs @ [x]) h1"
    using ring_add[of gs h x] by auto
  with Cons.IH[of "gs @ [x]" h1] Cons.prems(2) show ?case by simp
qed simp

text \<open>
  The access history is a ring buffer. After fewer than \<open>2 ^ 32\<close>
  handles have been added to an initialised history, without a fault, the
  last hundred of them are all present, the k-th in slot \<open>k mod HISTORY_LENGTH\<close>.
\<close>

theorem history_keeps_latest:
  assumes "length hs < 2 ^ 32"
  shows "\<exists>h'. add_all hs (init_history_table h) = Inr h' \<and>
           (\<forall>k. k < length hs \<longrightarrow> length hs \<le> k + HISTORY_LENGTH \<longrightarrow>
              access_history h' ! (k mod HISTORY_LENGTH) = hs ! k)"
  using ring_add_all[OF ring_init, of hs h] assms by (auto simp: ring_def)

theorem history_keeps_latest_witness:
  "\<exists>h'. add_all [5, 6, 7]
          (init_history_table \<lparr>access_history = [], capacity = 0, head = 0, tail = 4\<rparr>) = Inr h' \<and>
        access_history h' ! 2 = 7"
proof -
  have "length [5, 6, 7 :: u32] < 2 ^ 32" by simp
  from history_keeps_latest[OF this, of "\<lparr>access_history = [], capacity = 0, head = 0, tail = 4\<rparr>"]
  obtain h' where "add_all [5, 6, 7]
        (init_history_table \<lparr>access_history = [], capacity = 0, head = 0, tail = 4\<rparr>) = Inr h'"
    and a: "\<And>k. k < 3 \<Longrightarrow> access_history h' ! (k mod HISTORY_LENGTH) = [5, 6, 7] ! k"
    by (auto simp: HISTORY_LENGTH_def)
  moreover have "access_history h' ! 2 = 7" using a[of 2] by (simp add: HISTORY_LENGTH_def)
  ultimately show ?thesis by blast
qed

end
