(* ===== verification/C_Lib.thy ===== *)
theory C_Lib
  imports Prelude
begin

text \<open>
  The functions of the C library the monitor reads its configuration with:
  \<open>fgets\<close>, \<open>strtok\<close>, \<open>atoi\<close>, \<open>strtoull\<close> and \<open>getopt\<close>, as the GNU C library
  defines them. A C string is a list of characters without the terminating zero.
\<close>

section \<open>Numbers\<close>

definition NUL :: char where
  "NUL = CHR 0x00"

definition isspace :: "char \<Rightarrow> bool" where
  "isspace c \<longleftrightarrow> c = CHR '' '' \<or> (9 \<le> (of_char c :: nat) \<and> (of_char c :: nat) \<le> 13)"

definition isdigit :: "char \<Rightarrow> bool" where
  "isdigit c \<longleftrightarrow> 48 \<le> (of_char c :: nat) \<and> (of_char c :: nat) \<le> 57"

fun read_digits :: "nat \<Rightarrow> string \<Rightarrow> nat" where
  "read_digits acc [] = acc"
| "read_digits acc (c # cs) =
     (if isdigit c then read_digits (10 * acc + (of_char c - 48)) cs else acc)"

text \<open>The sign and the magnitude \<open>strtol\<close> reads, before it is limited to the range of the type.\<close>

definition read_number :: "string \<Rightarrow> bool \<times> nat" where
  "read_number s =
     (case dropWhile isspace s of
        [] \<Rightarrow> (False, 0)
      | c # cs \<Rightarrow>
          if c = CHR ''-'' then (True, read_digits 0 cs)
          else if c = CHR ''+'' then (False, read_digits 0 cs)
          else (False, read_digits 0 (c # cs)))"

definition strtol :: "string \<Rightarrow> int" where
  "strtol s =
     (let (neg, n) = read_number s
      in if neg then max (- (2 ^ 63)) (- int n) else min (2 ^ 63 - 1) (int n))"

definition atoi :: "string \<Rightarrow> int" where
  "atoi s = signed_take_bit 31 (strtol s)"

definition strtoull :: "string \<Rightarrow> u64" where
  "strtoull s =
     (let (neg, n) = read_number s
      in if 2 ^ 64 \<le> n then - 1 else if neg then - of_nat n else of_nat n)"

section \<open>Lines and tokens\<close>

text \<open>\<open>fgets n s\<close> is the line read into a buffer of \<open>n + 1\<close> bytes and the rest of the file.\<close>

fun fgets :: "nat \<Rightarrow> string \<Rightarrow> string \<times> string" where
  "fgets n [] = ([], [])"
| "fgets 0 s = ([], s)"
| "fgets (Suc n) (c # cs) =
     (if c = CHR 0x0A then ([c], cs) else let (l, r) = fgets n cs in (c # l, r))"

definition c_str :: "string \<Rightarrow> string" where
  "c_str s = takeWhile (\<lambda>c. c \<noteq> NUL) s"

text \<open>\<open>strtok\<close> with the delimiter \<open>" "\<close>: the token and the saved rest of the string.\<close>

definition strtok :: "string \<Rightarrow> string option \<times> string" where
  "strtok s =
     (let t = dropWhile (\<lambda>c. c = CHR '' '') s
      in if t = [] then (None, [])
         else (Some (takeWhile (\<lambda>c. c \<noteq> CHR '' '') t), tl (dropWhile (\<lambda>c. c \<noteq> CHR '' '') t)))"

section \<open>Options\<close>

text \<open>
  The sequence of results of \<open>getopt\<close> on an argument vector without the program
  name, for a string of options that all take an argument. \<open>Unrec\<close> is the result
  \<open>'?'\<close> with the character left in \<open>optopt\<close>.
\<close>

datatype getopt_result = Opt char string | Unrec char

fun getopt_cluster :: "char list \<Rightarrow> string \<Rightarrow> string list \<Rightarrow> getopt_result list \<times> string list" where
  "getopt_cluster opts [] args = ([], args)"
| "getopt_cluster opts (c # cs) args =
     (if c \<in> set opts then
        if cs \<noteq> [] then ([Opt c cs], args)
        else (case args of [] \<Rightarrow> ([Unrec c], []) | a # as \<Rightarrow> ([Opt c a], as))
      else let (os, r) = getopt_cluster opts cs args in (Unrec c # os, r))"

lemma getopt_cluster_shorter: "length (snd (getopt_cluster opts s args)) \<le> length args"
  by (induction opts s args rule: getopt_cluster.induct) (auto split: list.splits prod.splits)

function getopt :: "char list \<Rightarrow> string list \<Rightarrow> getopt_result list" where
  "getopt opts [] = []"
| "getopt opts (a # as) =
     (if a = ''--'' then []
      else if 1 < length a \<and> hd a = CHR ''-'' then
        fst (getopt_cluster opts (tl a) as) @ getopt opts (snd (getopt_cluster opts (tl a) as))
      else getopt opts as)"
  by pat_completeness auto
termination
  by (relation "measure (\<lambda>(opts, as). length as)") (auto simp: getopt_cluster_shorter le_imp_less_Suc)

section \<open>Lemmas\<close>

lemma fgets_append: "fst (fgets n s) @ snd (fgets n s) = s"
  by (induction n s rule: fgets.induct) (auto split: prod.splits)

lemma fgets_progress: "s \<noteq> [] \<Longrightarrow> length (snd (fgets (Suc n) s)) < length s"
  using fgets_append[of "Suc n" s] by (cases s) (auto split: prod.splits simp: less_Suc_eq_le
      dest: arg_cong[of _ _ length])

lemma fgets_line:
  assumes "CHR 0x0A \<notin> set l" "length l < n"
  shows "fgets n (l @ CHR 0x0A # r) = (l @ [CHR 0x0A], r)"
  using assms
proof (induction l arbitrary: n)
  case Nil
  then show ?case by (cases n) auto
next
  case (Cons c l)
  then show ?case by (cases n) auto
qed

lemma strtok_word:
  assumes "w \<noteq> []" "CHR '' '' \<notin> set w"
  shows "strtok (w @ CHR '' '' # r) = (Some w, r)" and "strtok w = (Some w, [])"
proof -
  have d: "dropWhile (\<lambda>c. c = CHR '' '') (w @ r') = w @ r'" for r'
    using assms by (cases w) auto
  have t: "takeWhile (\<lambda>c. c \<noteq> CHR '' '') w = w" "dropWhile (\<lambda>c. c \<noteq> CHR '' '') w = []"
    using assms(2) by (auto simp: takeWhile_eq_all_conv)
  have t2: "tl (dropWhile (\<lambda>c. c \<noteq> CHR '' '') w) = []" by (simp only: t list.sel)
  have a: "c \<noteq> CHR '' ''" if "c \<in> set w" for c using assms(2) that by auto
  show "strtok (w @ CHR '' '' # r) = (Some w, r)"
    using a assms(1) by (simp add: strtok_def Let_def d takeWhile_append2 dropWhile_append2)
  show "strtok w = (Some w, [])"
    using t(1) t2 d[of "[]"] assms(1) by (simp add: strtok_def Let_def)
qed

text \<open>Decimal numerals, to state what the readers invert.\<close>

function decimal :: "nat \<Rightarrow> string" where
  "decimal n = (if n < 10 then [char_of (48 + n)] else decimal (n div 10) @ [char_of (48 + n mod 10)])"
  by pat_completeness auto
termination by (relation "measure id") auto

declare decimal.simps [simp del]

lemma of_char_digit: "d < 10 \<Longrightarrow> of_char (char_of (48 + d :: nat)) = (48 + d :: nat)"
  by (simp add: of_char_of)

lemma read_digits_append:
  "\<forall>c \<in> set xs. isdigit c \<Longrightarrow> read_digits a (xs @ ys) = read_digits (read_digits a xs) ys"
  by (induction xs arbitrary: a) auto

lemma decimal_digits: "\<forall>c \<in> set (decimal n). isdigit c"
  by (induction n rule: decimal.induct) (subst decimal.simps, auto simp: isdigit_def of_char_digit)

lemma decimal_Cons: "\<exists>c cs. decimal n = c # cs \<and> isdigit c"
  using decimal_digits[of n] by (cases "decimal n") (auto simp: decimal.simps[of n] split: if_splits)

lemma read_decimal: "read_digits 0 (decimal n) = n"
proof (induction n rule: decimal.induct)
  case (1 n)
  show ?case
  proof (cases "n < 10")
    case True
    then show ?thesis by (simp add: decimal.simps[of n] isdigit_def of_char_digit)
  next
    case False
    have m: "n mod 10 < 10" by simp
    show ?thesis using False 1 decimal_digits[of "n div 10"] of_char_digit[OF m]
      by (simp add: decimal.simps[of n] read_digits_append isdigit_def)
  qed
qed

lemma read_number_decimal: "read_number (decimal n) = (False, n)"
proof -
  obtain c cs where d: "decimal n = c # cs" "isdigit c" using decimal_Cons by blast
  then have "\<not> isspace c" "c \<noteq> CHR ''-''" "c \<noteq> CHR ''+''" by (auto simp: isdigit_def isspace_def)
  then show ?thesis using d read_decimal[of n] by (simp add: read_number_def)
qed

lemma atoi_decimal: "n < 2 ^ 31 \<Longrightarrow> atoi (decimal n) = int n"
  by (simp add: atoi_def strtol_def read_number_decimal signed_take_bit_int_eq_self)

lemma strtoull_decimal: "n < 2 ^ 64 \<Longrightarrow> strtoull (decimal n) = of_nat n"
  by (simp add: strtoull_def read_number_decimal)

lemma decimal_plain:
  "CHR '' '' \<notin> set (decimal n)" "CHR 0x0A \<notin> set (decimal n)" "NUL \<notin> set (decimal n)" "decimal n \<noteq> []"
  using decimal_digits[of n] decimal_Cons[of n] by (auto simp: isdigit_def NUL_def)

end
