(* ===== verification/Verbs_Iso.thy ===== *)
theory Verbs_Iso
  imports Token_Wait Resource_Table C_Lib
begin

text \<open>
  The tenant side of the isolation, inside libibverbs: attaching to the shared table
  (\<open>init_resource_table\<close> and \<open>ibverbs_init\<close> of \<open>init.c\<close>), the assignment of token
  bucket cells to queue pairs (\<open>ibv_create_qp\<close> of \<open>verbs.c\<close>) and the gate in front of
  the device's \<open>post_send\<close> (\<open>ibv_post_send\<close> of \<open>verbs.h\<close>). The operations
  of the device driver are parameters.
\<close>

section \<open>Attaching to the table\<close>

text \<open>
  The globals of a tenant. The pointers \<open>my_res\<close>, \<open>global_tb\<close> and \<open>request_tb\<close> point into the
  shared table: \<open>my_res\<close> is the index of a row, and \<open>mapped\<close> says whether the other two
  have been set, to the buckets of row 0.
\<close>

record tenant =
  my_res :: "int option"
  mapped :: bool
  verbs_allow_disassociate_destroy :: bool
  fork_inits :: nat

type_synonym environ = "string \<Rightarrow> string option"

text \<open>
  \<open>shm_fd\<close> is the result of \<open>shm_open\<close> and \<open>mmap_ok\<close> tells whether \<open>mmap\<close> succeeds;
  when it fails the result is \<open>MAP_FAILED\<close>, which is not null.
\<close>

definition init_resource_table ::
  "environ \<Rightarrow> int \<Rightarrow> bool \<Rightarrow> table \<Rightarrow> tenant \<Rightarrow> fault + int \<times> table \<times> tenant" where
  "init_resource_table env shm_fd mmap_ok t p =
     (case env ''TASK_ID'' of
        None \<Rightarrow> Inr (- 1, t, p)
      | Some str \<Rightarrow>
          let id = atoi str in
          if shm_fd < 0 then Inr (shm_fd, t, p)
          else if \<not> mmap_ok then Inl BadPointer
          else bindE (upd_row t id (\<lambda>r. r\<lparr>cache := init_qp_cache (cache r)\<rparr>)) (\<lambda>t.
               Inr (0, t, p\<lparr>my_res := Some id, mapped := True\<rparr>)))"

text \<open>The result of \<open>ibv_get_sysfs_path\<close> and \<open>errno\<close> are parameters.\<close>

definition ibverbs_init ::
  "environ \<Rightarrow> int \<Rightarrow> bool \<Rightarrow> bool \<Rightarrow> int \<Rightarrow> table \<Rightarrow> tenant \<Rightarrow> fault + int \<times> table \<times> tenant" where
  "ibverbs_init env shm_fd mmap_ok sysfs errno t p =
     bindE (init_resource_table env shm_fd mmap_ok t p) (\<lambda>(ret, t, p).
     bindE (my_row t (my_res p) (\<lambda>r. r\<lparr>on := True\<rparr>)) (\<lambda>t.
     let p = (if env ''RDMAV_FORK_SAFE'' \<noteq> None \<or> env ''IBV_FORK_SAFE'' \<noteq> None
              then p\<lparr>fork_inits := Suc (fork_inits p)\<rparr> else p);
         p = (case env ''MLX4_DEVICE_FATAL_CLEANUP'' of
                None \<Rightarrow> p
              | Some v \<Rightarrow> p\<lparr>verbs_allow_disassociate_destroy := v \<noteq> ''0''\<rparr>);
         p = (if env ''RDMAV_ALLOW_DISASSOC_DESTROY'' \<noteq> None
              then p\<lparr>verbs_allow_disassociate_destroy := True\<rparr> else p)
     in Inr (if sysfs then 0 else - errno, t, p)))"

section \<open>Queue pairs\<close>

datatype ibv_qp_state = IBV_QPS_RESET | IBV_QPS_INIT | IBV_QPS_RTR | IBV_QPS_RTS | IBV_QPS_SQD
  | IBV_QPS_SQE | IBV_QPS_ERR | IBV_QPS_UNKNOWN

record ibv_pd =
  pd_context :: nat
  pd_handle :: nat

record ibv_qp_init_attr =
  attr_qp_context :: nat
  attr_send_cq :: nat
  attr_recv_cq :: nat
  attr_srq :: nat
  attr_qp_type :: nat

record ibv_qp =
  qp_ctx :: nat
  qp_context :: nat
  qp_pd :: ibv_pd
  send_cq :: nat
  recv_cq :: nat
  srq :: nat
  qp_handle :: u32
  qp_num :: u32
  qp_type :: nat
  qp_state :: ibv_qp_state
  events_completed :: u32
  bucket_index :: int
  local_bucket_index :: int

text \<open>\<open>get_base_bucket\<close> on the two buckets of row 0.\<close>

definition take_base_buckets :: "table \<Rightarrow> tenant \<Rightarrow> fault + int \<times> int \<times> table" where
  "take_base_buckets t p =
     (if \<not> mapped p then Inl NullDeref
      else bindE (row t 0) (\<lambda>r.
        let (g, tb') = get_base_bucket (tb r); (l, rtb') = get_base_bucket (request_tb r)
        in Inr (g, l, t[0 := r\<lparr>tb := tb', request_tb := rtb'\<rparr>])))"

definition ibv_create_qp ::
  "(ibv_pd \<Rightarrow> ibv_qp_init_attr \<Rightarrow> ibv_qp option) \<Rightarrow> table \<Rightarrow> tenant \<Rightarrow> ibv_pd \<Rightarrow> ibv_qp_init_attr \<Rightarrow>
     fault + ibv_qp option \<times> table" where
  "ibv_create_qp create_qp t p pd attr =
     (case create_qp pd attr of
        None \<Rightarrow> Inr (None, t)
      | Some qp \<Rightarrow>
          bindE (take_base_buckets t p) (\<lambda>(g, l, t).
          Inr (Some (qp\<lparr>qp_ctx := pd_context pd, qp_context := attr_qp_context attr, qp_pd := pd,
                 send_cq := attr_send_cq attr, recv_cq := attr_recv_cq attr, srq := attr_srq attr,
                 qp_type := attr_qp_type attr, qp_state := IBV_QPS_RESET, events_completed := 0,
                 bucket_index := g, local_bucket_index := l\<rparr>), t)))"

section \<open>Posting to the send queue\<close>

record ibv_sge =
  sge_addr :: u64
  sge_length :: u32
  sge_lkey :: u32

text \<open>The links \<open>next\<close> of the requests are the list they form; the gate reads no other field.\<close>

record ibv_send_wr =
  wr_id :: u64
  sg_list :: "ibv_sge list"
  num_sge :: int

definition wr_size :: "ibv_send_wr \<Rightarrow> u64 \<Rightarrow> fault + u64" where
  "wr_size wr acc =
     foldE (\<lambda>i s. if i < length (sg_list wr) then Inr (s + ucast (sge_length (sg_list wr ! i))) else Inl OutOfBounds)
       [0..<nat (num_sge wr)] acc"

definition total_size :: "ibv_send_wr list \<Rightarrow> fault + u64" where
  "total_size wrs = foldE wr_size wrs 0"

text \<open>
  The gate and then the driver's \<open>post_send\<close>, on the requests of the list and the
  clock readings from \<open>k\<close> on. \<open>None\<close> is a call that waits for ever. The result holds the next
  reading, the table and the driver's result.
\<close>

definition ibv_post_send ::
  "(ibv_qp \<Rightarrow> ibv_send_wr list \<Rightarrow> int) \<Rightarrow> (nat \<Rightarrow> u64) \<Rightarrow> nat \<Rightarrow> table \<Rightarrow> tenant \<Rightarrow> ibv_qp \<Rightarrow>
     ibv_send_wr list \<Rightarrow> (fault + nat \<times> table \<times> int) option" where
  "ibv_post_send post_send clk k t p qp wrs =
     (case my_task_type t (my_res p) of
        Inl e \<Rightarrow> Some (Inl e)
      | Inr ty \<Rightarrow>
          if ty \<noteq> SECONDARY then Some (Inr (k, t, post_send qp wrs))
          else
            (case bindE (total_size wrs) (\<lambda>sz.
                  if mapped p then bindE (row t 0) (\<lambda>r. Inr (sz, r)) else Inl NullDeref) of
               Inl e \<Rightarrow> Some (Inl e)
             | Inr (sz, r) \<Rightarrow>
                 (case wait_for_request_token clk k (request_tb r) (local_bucket_index qp) of
                    None \<Rightarrow> None
                  | Some (Inl e) \<Rightarrow> Some (Inl e)
                  | Some (Inr (k, rtb)) \<Rightarrow>
                      (case wait_for_token clk sz k (tb r) (bucket_index qp) of
                         None \<Rightarrow> None
                       | Some (Inl e) \<Rightarrow> Some (Inl e)
                       | Some (Inr (k, gtb)) \<Rightarrow>
                           Some (Inr (k, t[0 := r\<lparr>tb := gtb, request_tb := rtb\<rparr>], post_send qp wrs))))))"

section \<open>Attaching\<close>

lemma ibverbs_init_row:
  assumes "env ''TASK_ID'' = Some (decimal i)" "i < length t" "i < 2 ^ 31" "0 \<le> shm_fd"
  shows "\<exists>p'. ibverbs_init env shm_fd True sysfs errno t p =
      Inr (if sysfs then 0 else - errno,
           t[i := (t ! i)\<lparr>cache := init_qp_cache (cache (t ! i)), on := True\<rparr>], p') \<and>
    my_res p' = Some (int i) \<and> mapped p'"
proof -
  let ?t = "t[i := (t ! i)\<lparr>cache := init_qp_cache (cache (t ! i))\<rparr>]"
  have "init_resource_table env shm_fd True t p = Inr (0, ?t, p\<lparr>my_res := Some (int i), mapped := True\<rparr>)"
    using assms by (simp add: init_resource_table_def atoi_decimal upd_row_of_nat)
  moreover have "my_row ?t (Some (int i)) (\<lambda>r. r\<lparr>on := True\<rparr>) =
      Inr (t[i := (t ! i)\<lparr>cache := init_qp_cache (cache (t ! i)), on := True\<rparr>])"
    using assms(2) upd_row_of_nat[of i ?t "\<lambda>r. r\<lparr>on := True\<rparr>"] by (simp add: my_row_def)
  ultimately show ?thesis
    by (simp add: ibverbs_init_def Let_def split: option.splits)
qed

text \<open>
  Property C16: attaching a tenant. With the number of a row in \<open>TASK_ID\<close> and a mapped table,
  initialisation succeeds: the row is switched on with an empty cache, no other row changes,
  and \<open>my_res\<close> is that row.
\<close>

theorem ibverbs_init_attaches:
  assumes "env ''TASK_ID'' = Some (decimal i)" "i < length t" "i < 2 ^ 31" "0 \<le> shm_fd"
  shows "\<exists>p'. ibverbs_init env shm_fd True sysfs errno t p =
      Inr (if sysfs then 0 else - errno,
           t[i := (t ! i)\<lparr>cache := init_qp_cache (cache (t ! i)), on := True\<rparr>], p') \<and>
    my_res p' = Some (int i) \<and> mapped p'"
  by (rule ibverbs_init_row[where env = env, OF assms])

text \<open>
  A tenant that is started without \<open>TASK_ID\<close>, or before the monitor has
  created the table, is not an isolated tenant with an error: initialisation ignores the
  failure and writes through the null pointer \<open>my_res\<close>.
\<close>

theorem ibverbs_init_null:
  assumes "my_res p = None" "env ''TASK_ID'' = None \<or> shm_fd < 0"
  shows "ibverbs_init env shm_fd mmap_ok sysfs errno t p = Inl NullDeref"
  using assms by (auto simp: ibverbs_init_def init_resource_table_def my_row_def split: option.splits)

definition fresh_tenant :: tenant where
  "fresh_tenant = \<lparr>my_res = None, mapped = False, verbs_allow_disassociate_destroy = False, fork_inits = 0\<rparr>"

theorem ibverbs_init_null_witness:
  "ibverbs_init (\<lambda>v. None) 3 True True 0 [] fresh_tenant = Inl NullDeref"
  by (rule ibverbs_init_null) (simp_all add: fresh_tenant_def)

text \<open>A row 0 with the two buckets as the monitor sets them up.\<close>

definition sample_row :: resource where
  "sample_row = \<lparr>on = False, cache_limit = False, allocated_bandwidth = 0, allocated_qps = 0,
     cache = \<lparr>entry = [], entry_size = 0, usage = 0, cache_lock = False\<rparr>,
     tb = init_token_bucket sample_tb 1000000000 8388608,
     request_tb = init_token_bucket sample_tb 4000000 64,
     ht = \<lparr>access_history = [], capacity = 0, head = 0, tail = 0\<rparr>,
     stat = \<lparr>qos = 0, cur_median = 0, cur_tail = 0, bandwidth = 0, time_stamp = 0\<rparr>,
     type = SECONDARY, task_name = []\<rparr>"

theorem ibverbs_init_attaches_witness:
  "\<exists>p'. ibverbs_init (\<lambda>v. Some (decimal 1)) 3 True True 0 [sample_row, sample_row] fresh_tenant =
     Inr (0, [sample_row, sample_row\<lparr>cache := init_qp_cache (cache sample_row), on := True\<rparr>], p') \<and>
     my_res p' = Some 1"
  using ibverbs_init_attaches[of "\<lambda>v. Some (decimal 1)" 1 "[sample_row, sample_row]" 3 True 0 fresh_tenant] by auto

section \<open>Cells of the queue pairs\<close>

fun create_qps ::
  "(ibv_pd \<Rightarrow> ibv_qp_init_attr \<Rightarrow> ibv_qp option) \<Rightarrow> tenant \<Rightarrow> (ibv_pd \<times> ibv_qp_init_attr) list \<Rightarrow> table \<Rightarrow>
     fault + ibv_qp option list \<times> table" where
  "create_qps create_qp p [] t = Inr ([], t)"
| "create_qps create_qp p ((pd, attr) # xs) t =
     bindE (ibv_create_qp create_qp t p pd attr) (\<lambda>(qp, t).
     bindE (create_qps create_qp p xs t) (\<lambda>(qps, t). Inr (qp # qps, t)))"

definition rotation :: "table \<Rightarrow> int \<Rightarrow> int \<Rightarrow> bool" where
  "rotation t b c \<longleftrightarrow> t \<noteq> [] \<and> next_bucket (tb (t ! 0)) = b \<and> next_bucket (request_tb (t ! 0)) = c \<and>
     - 1 \<le> b \<and> b < 16 \<and> - 1 \<le> c \<and> c < 16"

lemma get_base_bucket_next:
  assumes "- 1 \<le> next_bucket x"
  shows "get_base_bucket x = ((next_bucket x + 1) mod 16, x\<lparr>next_bucket := (next_bucket x + 1) mod 16\<rparr>)"
proof -
  have "(next_bucket x + 1) smod 16 = (next_bucket x + 1) mod 16"
    using assms by (cases "next_bucket x = - 1") (simp_all add: smod_int_alt_def sgn_if)
  then show ?thesis by (simp add: get_base_bucket_def Let_def NR_BUCKET_def)
qed

lemma create_qp_cells:
  assumes "rotation t b c" "mapped p" "create_qp pd attr = Some qp0"
  shows "\<exists>qp t'. ibv_create_qp create_qp t p pd attr = Inr (Some qp, t') \<and> qp_state qp = IBV_QPS_RESET \<and>
    bucket_index qp = (b + 1) mod 16 \<and> local_bucket_index qp = (c + 1) mod 16 \<and>
    rotation t' ((b + 1) mod 16) ((c + 1) mod 16)"
proof -
  have "0 < length t" using assms(1) by (simp add: rotation_def)
  then show ?thesis
    using assms row_of_nat[of 0 t]
    by (simp add: ibv_create_qp_def take_base_buckets_def rotation_def get_base_bucket_next pos_mod_bound
        order_trans[OF _ pos_mod_sign])
qed

lemma create_qps_cells:
  assumes "rotation t b c" "mapped p" "\<And>pd attr. create_qp pd attr \<noteq> None"
  shows "\<exists>qps t'. create_qps create_qp p xs t = Inr (qps, t') \<and> length qps = length xs \<and>
    (\<forall>k < length xs. \<exists>qp. qps ! k = Some qp \<and> bucket_index qp = (b + 1 + int k) mod 16 \<and>
       local_bucket_index qp = (c + 1 + int k) mod 16)"
  using assms(1)
proof (induction xs arbitrary: t b c)
  case (Cons x xs)
  obtain pd attr where x: "x = (pd, attr)" by (cases x)
  obtain qp0 where "create_qp pd attr = Some qp0" using assms(3) by blast
  from create_qp_cells[where create_qp = create_qp and pd = pd and attr = attr, OF Cons.prems assms(2) this] obtain qp t1 where
    qp: "ibv_create_qp create_qp t p pd attr = Inr (Some qp, t1)"
      "bucket_index qp = (b + 1) mod 16" "local_bucket_index qp = (c + 1) mod 16"
    and t1: "rotation t1 ((b + 1) mod 16) ((c + 1) mod 16)" by blast
  from Cons.IH[OF t1] obtain qps t' where
    r: "create_qps create_qp p xs t1 = Inr (qps, t')" "length qps = length xs"
      "\<forall>k < length xs. \<exists>qp. qps ! k = Some qp \<and> bucket_index qp = ((b + 1) mod 16 + 1 + int k) mod 16 \<and>
       local_bucket_index qp = ((c + 1) mod 16 + 1 + int k) mod 16" by blast
  have m: "((d + 1) mod 16 + 1 + int k) mod 16 = (d + 1 + int (Suc k)) mod 16" for d k
    using mod_add_left_eq[of "d + 1" 16 "1 + int k"] by (simp only: add.assoc of_nat_Suc)
  have "\<exists>qp'. (Some qp # qps) ! k = Some qp' \<and> bucket_index qp' = (b + 1 + int k) mod 16 \<and>
       local_bucket_index qp' = (c + 1 + int k) mod 16" if "k < Suc (length xs)" for k
    using that qp(2,3) r(3) m by (cases k) auto
  then show ?case using x qp(1) r(1,2) by auto
qed simp

text \<open>
  Queue pairs are spread evenly over the cells. Successive queue pairs
  get successive cells, in a cycle of sixteen, of the byte bucket and of the request bucket.
\<close>

theorem queue_pairs_round_robin:
  assumes "rotation t b c" "mapped p" "\<forall>pd attr. create_qp pd attr \<noteq> None"
  shows "\<exists>qps t'. create_qps create_qp p xs t = Inr (qps, t') \<and> length qps = length xs \<and>
    (\<forall>k < length xs. \<exists>qp. qps ! k = Some qp \<and> bucket_index qp = (b + 1 + int k) mod 16 \<and>
       local_bucket_index qp = (c + 1 + int k) mod 16)"
  using create_qps_cells[OF assms(1,2)] assms(3) by blast

definition sample_create_qp :: "ibv_pd \<Rightarrow> ibv_qp_init_attr \<Rightarrow> ibv_qp option" where
  "sample_create_qp pd attr = Some \<lparr>qp_ctx = 0, qp_context = 0, qp_pd = pd, send_cq = 0, recv_cq = 0,
     srq = 0, qp_handle = 0, qp_num = 0, qp_type = 0, qp_state = IBV_QPS_UNKNOWN, events_completed = 7, bucket_index = 0,
     local_bucket_index = 0\<rparr>"

definition sample_attr :: "ibv_pd \<times> ibv_qp_init_attr" where
  "sample_attr = (\<lparr>pd_context = 1, pd_handle = 2\<rparr>, \<lparr>attr_qp_context = 0, attr_send_cq = 0,
     attr_recv_cq = 0, attr_srq = 0, attr_qp_type = 2\<rparr>)"

theorem queue_pairs_round_robin_witness:
  "\<exists>qps t' qp. create_qps sample_create_qp (fresh_tenant\<lparr>mapped := True\<rparr>)
      [sample_attr, sample_attr, sample_attr] [sample_row] = Inr (qps, t') \<and>
    qps ! 2 = Some qp \<and> bucket_index qp = 2"
proof -
  have "rotation [sample_row] (- 1) (- 1)" "mapped (fresh_tenant\<lparr>mapped := True\<rparr>)"
    "\<forall>pd attr. sample_create_qp pd attr \<noteq> None"
    by (simp_all add: rotation_def sample_row_def init_token_bucket_def Let_def sample_create_qp_def)
  from queue_pairs_round_robin[OF this, of "[sample_attr, sample_attr, sample_attr]"]
  obtain qps t' where r: "create_qps sample_create_qp (fresh_tenant\<lparr>mapped := True\<rparr>)
      [sample_attr, sample_attr, sample_attr] [sample_row] = Inr (qps, t')"
    and q: "\<forall>k < length [sample_attr, sample_attr, sample_attr]. \<exists>qp. qps ! k = Some qp \<and>
      bucket_index qp = (- 1 + 1 + int k) mod 16 \<and> local_bucket_index qp = (- 1 + 1 + int k) mod 16"
    by blast
  have "2 < length [sample_attr, sample_attr, sample_attr]" by simp
  with q obtain qp where "qps ! 2 = Some qp" "bucket_index qp = (- 1 + 1 + int 2) mod 16" by blast
  then have "qps ! 2 = Some qp" "bucket_index qp = 2" by simp_all
  with r show ?thesis by blast
qed

section \<open>The gate\<close>

text \<open>The number of bytes in a list of requests, with every scatter-gather array present.\<close>

definition wr_ok :: "ibv_send_wr \<Rightarrow> bool" where
  "wr_ok wr \<longleftrightarrow> num_sge wr \<le> int (length (sg_list wr))"

definition wr_bytes :: "ibv_send_wr \<Rightarrow> nat" where
  "wr_bytes wr = (\<Sum>g\<leftarrow>take (nat (num_sge wr)) (sg_list wr). unat (sge_length g))"

definition bytes_of :: "ibv_send_wr list \<Rightarrow> nat" where
  "bytes_of wrs = (\<Sum>wr\<leftarrow>wrs. wr_bytes wr)"

lemma wr_size_value:
  assumes "wr_ok wr"
  shows "wr_size wr acc = Inr (acc + of_nat (wr_bytes wr))"
proof -
  have "foldE (\<lambda>i s. if i < length (sg_list wr) then Inr (s + ucast (sge_length (sg_list wr ! i))) else Inl OutOfBounds)
      [0..<n] acc = Inr (acc + of_nat (\<Sum>g\<leftarrow>take n (sg_list wr). unat (sge_length g)))"
    if "n \<le> length (sg_list wr)" for n
    using that
  proof (induction n)
    case (Suc n)
    have "(ucast (sge_length (sg_list wr ! n)) :: u64) = of_nat (unat (sge_length (sg_list wr ! n)))"
      by (simp add: of_nat_unat)
    then show ?case using Suc by (simp add: foldE_append take_Suc_conv_app_nth)
  qed simp
  then show ?thesis using assms by (simp add: wr_size_def wr_bytes_def wr_ok_def)
qed

lemma total_size_value:
  assumes "list_all wr_ok wrs"
  shows "total_size wrs = Inr (of_nat (bytes_of wrs))"
proof -
  have "foldE wr_size wrs acc = Inr (acc + of_nat (bytes_of wrs))" for acc
    using assms by (induction wrs arbitrary: acc) (simp_all add: wr_size_value bytes_of_def)
  then show ?thesis by (simp add: total_size_def)
qed

text \<open>
  A latency-critical tenant is never held back. Its posts reach the
  device at once, without reading the clock and without taking a token.
\<close>

theorem primary_not_gated:
  assumes "0 \<le> i" "i < int (length t)" "my_res p = Some i" "type (t ! nat i) = LATENCY"
  shows "ibv_post_send post_send clk k t p qp wrs = Some (Inr (k, t, post_send qp wrs))"
  using assms by (simp add: ibv_post_send_def my_task_type_def row_def)

text \<open>What the gate needs of the two buckets of row 0 and of the clock.\<close>

definition gate_ready :: "(nat \<Rightarrow> u64) \<Rightarrow> nat \<Rightarrow> nat \<Rightarrow> nat \<Rightarrow> resource \<Rightarrow> bool" where
  "gate_ready clk k K bytes r \<longleftrightarrow>
     tb_valid (tb r) \<and> tb_consistent (tb r) \<and> unat (burst_size (tb r)) \<le> 2 ^ 53 \<and>
     16 \<le> unat (burst_size (tb r)) \<and> bytes div (unat (burst_size (tb r)) div 16) < 2 ^ 31 \<and>
     tb_valid (request_tb r) \<and> tb_consistent (request_tb r) \<and> unat (burst_size (request_tb r)) \<le> 2 ^ 53 \<and>
     16 \<le> unat (burst_size (request_tb r)) \<and>
     ticking clk k K \<and> cells_le (tb r) (clk k) \<and> cells_le (request_tb r) (clk k) \<and>
     fin (time_per_burst (tb r)) \<le> of_nat (unat (clk k)) \<and>
     fin (time_per_burst (request_tb r)) \<le> of_nat (unat (clk k)) \<and>
     k + nat (burst_floor (request_tb r)) + 1 +
       (bytes div (unat (burst_size (tb r)) div 16) + 2) * (nat (burst_floor (tb r)) + 1) \<le> K"

lemma request_token_waited:
  assumes "gate_ready clk k K bytes r" "0 \<le> b" "b < 16"
  shows "\<exists>k' rtb. wait_for_request_token clk k (request_tb r) b = Some (Inr (k', rtb)) \<and>
    k' \<le> k + nat (burst_floor (request_tb r)) + 1 \<and> waited clk k (request_tb r) 1 {1} k' rtb"
proof -
  note g = assms(1)[unfolded gate_ready_def]
  have "unat (1 :: u64) \<le> unat (burst_size (request_tb r)) div 16"
    using g by (simp add: Suc_le_eq div_greater_zero_iff)
  then obtain needed where "time_needed_of (request_tb r) 1 = Inr needed"
    "int (unat needed) \<le> burst_floor (request_tb r)"
    using needed_small[of "request_tb r" 1] g by blast
  then show ?thesis using wait_for_request_token_waited[of "request_tb r" clk k K b needed] g assms(2,3) by simp
qed

lemma bytes_waited:
  assumes "gate_ready clk k K (unat sz) r" "0 \<le> b" "b < 16"
    and "k \<le> k'" "k' \<le> k + nat (burst_floor (request_tb r)) + 1"
  shows "\<exists>k'' gtb T. wait_for_token clk sz k' (tb r) b = Some (Inr (k'', gtb)) \<and> k'' \<le> K \<and>
    waited clk k' (tb r) (unat sz) T k'' gtb"
proof -
  note g = assms(1)[unfolded gate_ready_def]
  have K: "k' + (unat sz div (unat (burst_size (tb r)) div 16) + 2) * (nat (burst_floor (tb r)) + 1) \<le> K"
    using g assms(5) by linarith
  have le: "clk k \<le> clk k'" using g assms(4) K by (intro ticking_mono[of clk k K]) auto
  then have "of_nat (unat (clk k)) \<le> (of_nat (unat (clk k')) :: rat)" by (simp add: word_le_nat_alt)
  then have "fin (time_per_burst (tb r)) \<le> of_nat (unat (clk k'))" using g by linarith
  moreover have "cells_le (tb r) (clk k')" using g le cells_le_trans by blast
  moreover have "ticking clk k' K" using g assms(4) ticking_later by blast
  ultimately show ?thesis
    using wait_for_token_waited[of "tb r" sz clk k' K b] g K assms(2,3) by blast
qed

text \<open>
  Property C4: a best-effort tenant pays before it posts. A post of a best-effort tenant
  returns, and by then exactly one request token and exactly as many byte
  tokens as the requests carry have been granted to it by \<open>consume\<close>.
\<close>

theorem best_effort_pays:
  assumes "0 \<le> i" "i < int (length t)" "my_res p = Some i" "type (t ! nat i) = SECONDARY" "mapped p"
    and "list_all wr_ok wrs" "bytes_of wrs < 2 ^ 64" "gate_ready clk k K (bytes_of wrs) (t ! 0)"
    and "0 \<le> bucket_index qp" "bucket_index qp < 16" "0 \<le> local_bucket_index qp" "local_bucket_index qp < 16"
  shows "\<exists>k' gtb rtb rs gs qs hs. ibv_post_send post_send clk k t p qp wrs =
      Some (Inr (k', t[0 := (t ! 0)\<lparr>tb := gtb, request_tb := rtb\<rparr>], post_send qp wrs)) \<and> k' \<le> K \<and>
    consume_all (tb (t ! 0)) rs = Inr (gs, gtb) \<and> tokens_of gs = bytes_of wrs \<and>
    consume_all (request_tb (t ! 0)) qs = Inr (hs, rtb) \<and> tokens_of hs = 1"
proof -
  let ?r = "t ! 0" and ?sz = "of_nat (bytes_of wrs) :: u64"
  have sz: "unat ?sz = bytes_of wrs" using assms(7) by (simp add: unat_of_nat)
  have "0 < length t" using assms(1,2) by linarith
  then have r0: "row t 0 = Inr ?r" using row_of_nat[of 0 t] by simp
  obtain k1 rtb where w1: "wait_for_request_token clk k (request_tb ?r) (local_bucket_index qp) = Some (Inr (k1, rtb))"
    "k1 \<le> k + nat (burst_floor (request_tb ?r)) + 1" "waited clk k (request_tb ?r) 1 {1} k1 rtb"
    using request_token_waited[OF assms(8,11,12)] by blast
  have "k \<le> k1" using w1(3) by (simp add: waited_def)
  then obtain k2 gtb T where w2: "wait_for_token clk ?sz k1 (tb ?r) (bucket_index qp) = Some (Inr (k2, gtb))"
    "k2 \<le> K" "waited clk k1 (tb ?r) (unat ?sz) T k2 gtb"
    using bytes_waited[of clk k K ?sz ?r "bucket_index qp" k1] assms(8-10) sz w1(2) by auto
  have "ibv_post_send post_send clk k t p qp wrs =
      Some (Inr (k2, t[0 := ?r\<lparr>tb := gtb, request_tb := rtb\<rparr>], post_send qp wrs))"
    using assms(1-5) w1(1) w2(1) r0
    by (simp add: ibv_post_send_def my_task_type_def row_def total_size_value[OF assms(6)])
  moreover obtain qs hs where "consume_all (request_tb ?r) qs = Inr (hs, rtb)" "tokens_of hs = 1"
    using w1(3) unfolding waited_def by blast
  moreover obtain rs gs where "consume_all (tb ?r) rs = Inr (gs, gtb)" "tokens_of gs = bytes_of wrs"
    using w2(3) sz unfolding waited_def by metis
  ultimately show ?thesis using w2(2) by blast
qed

section \<open>A sample post\<close>

lemma sample_bucket:
  "tb sample_row = \<lparr>buckets = replicate NR_BUCKET \<lparr>bucket_time = 0\<rparr>, tb_rate = 1000000000, burst_size = 8388608,
     time_per_token = DFin 16, time_per_burst = DFin 8388608, next_bucket = - 1\<rparr>"
  "request_tb sample_row = \<lparr>buckets = replicate NR_BUCKET \<lparr>bucket_time = 0\<rparr>, tb_rate = 4000000, burst_size = 64,
     time_per_token = DFin 4000, time_per_burst = DFin 16000, next_bucket = - 1\<rparr>"
  by (simp_all add: sample_row_def init_token_bucket_def Let_def sample_tb_eq dbl_of_int_def dbl_of_u64_def
      NR_BUCKET_def dbl_simps)

lemma sample_row_ready: "gate_ready sample_clk 0 41943045 1024 sample_row"
  unfolding gate_ready_def
  by (intro conjI sample_ticking)
    (simp_all add: sample_bucket tb_valid_def tb_consistent_def per_bucket_rate_def dbl_of_int_def dbl_of_u64_def
      NR_BUCKET_def dbl_simps cells_le_def burst_floor_def unat_sample_clk)

definition sample_qp :: ibv_qp where
  "sample_qp = \<lparr>qp_ctx = 0, qp_context = 0, qp_pd = \<lparr>pd_context = 1, pd_handle = 2\<rparr>, send_cq = 0, recv_cq = 0,
     srq = 0, qp_handle = 0, qp_num = 0, qp_type = 0, qp_state = IBV_QPS_RESET, events_completed = 0, bucket_index = 3,
     local_bucket_index = 5\<rparr>"

theorem best_effort_pays_witness:
  "\<exists>k' gtb rtb rs gs. ibv_post_send (\<lambda>qp wrs. 0) sample_clk 0 [sample_row]
      (fresh_tenant\<lparr>my_res := Some 0, mapped := True\<rparr>) sample_qp
      [\<lparr>wr_id = 7, sg_list = [\<lparr>sge_addr = 0, sge_length = 1000, sge_lkey = 1\<rparr>,
        \<lparr>sge_addr = 4096, sge_length = 24, sge_lkey = 1\<rparr>], num_sge = 2\<rparr>] =
      Some (Inr (k', [sample_row\<lparr>tb := gtb, request_tb := rtb\<rparr>], 0)) \<and>
    consume_all (tb sample_row) rs = Inr (gs, gtb) \<and> tokens_of gs = 1024"
proof -
  let ?p = "fresh_tenant\<lparr>my_res := Some 0, mapped := True\<rparr>"
  let ?wrs = "[\<lparr>wr_id = 7, sg_list = [\<lparr>sge_addr = 0, sge_length = 1000, sge_lkey = 1\<rparr>,
        \<lparr>sge_addr = 4096, sge_length = 24, sge_lkey = 1\<rparr>], num_sge = 2\<rparr>]"
  have b: "bytes_of ?wrs = 1024" by (simp add: bytes_of_def wr_bytes_def)
  have h: "(0 :: int) \<le> 0" "0 < int (length [sample_row])" "my_res ?p = Some 0"
    "type ([sample_row] ! nat 0) = SECONDARY" "mapped ?p" "list_all wr_ok ?wrs" "bytes_of ?wrs < 2 ^ 64"
    "gate_ready sample_clk 0 41943045 (bytes_of ?wrs) ([sample_row] ! 0)"
    "0 \<le> bucket_index sample_qp" "bucket_index sample_qp < 16"
    "0 \<le> local_bucket_index sample_qp" "local_bucket_index sample_qp < 16"
    using sample_row_ready b by (simp_all add: sample_qp_def wr_ok_def sample_row_def)
  from best_effort_pays[OF h, of "\<lambda>qp wrs. 0"] show ?thesis unfolding b by auto
qed

theorem primary_not_gated_witness:
  "ibv_post_send (\<lambda>qp wrs. 0) sample_clk 4 [sample_row\<lparr>type := LATENCY\<rparr>]
     (fresh_tenant\<lparr>my_res := Some 0\<rparr>) sample_qp [] = Some (Inr (4, [sample_row\<lparr>type := LATENCY\<rparr>], 0))"
  by (rule primary_not_gated[of 0]) simp_all

end
