(* ===== verification/Monitor.thy ===== *)
theory Monitor
  imports Resource_Table C_Lib
begin

text \<open>
  The monitor process, \<open>src/monitor.c\<close> and \<open>src/monitor.h\<close>: options and
  configuration file, initialisation of the shared table, the slack of the
  latency-critical tasks, the choice of tasks to take resources from or give them
  to, and the loop that sets the rate of the best-effort tenants. The state
  \<open>mon\<close> holds the global variables; the shared table is its component \<open>r_table\<close>.
\<close>

section \<open>Data\<close>

datatype resource_direction = BOTH | ALLOC | RET

record task_info =
  nr_task :: int
  total_bandwidth :: u64
  total_qps :: u64

record config =
  opt_bandwidth :: u64
  opt_qps :: u64
  config_path :: "string option"
  node_config_path :: "string option"

record mon =
  r_table :: table
  t_info :: task_info
  slack :: "dbl list"
  r_dir :: "resource_direction list"

definition TOTAL_BW :: int where "TOTAL_BW = 7000000000"
definition INIT_BANDWIDTH :: u64 where "INIT_BANDWIDTH = 1000000000"
definition BURST_SIZE :: u64 where "BURST_SIZE = 8 * 1048576"
definition INIT_REQUEST_RATE :: u64 where "INIT_REQUEST_RATE = 4000000"

text \<open>The indices of a loop \<open>for (i = 0; i < n; i++)\<close>.\<close>

definition indices :: "int \<Rightarrow> int list" where
  "indices n = map int [0..<nat n]"

section \<open>Options\<close>

fun set_option :: "getopt_result \<Rightarrow> config \<Rightarrow> config" where
  "set_option (Opt c optarg) opt =
     (if c = CHR ''b'' then opt\<lparr>opt_bandwidth := strtoull optarg\<rparr>
      else if c = CHR ''q'' then opt\<lparr>opt_qps := word_of_int (atoi optarg)\<rparr>
      else if c = CHR ''p'' then opt\<lparr>config_path := Some optarg\<rparr>
      else if c = CHR ''n'' then opt\<lparr>node_config_path := Some optarg\<rparr>
      else opt)"
| "set_option (Unrec c) opt = opt"

definition parse_options :: "string list \<Rightarrow> config" where
  "parse_options args =
     fold set_option (getopt ''bqpn'' args)
       \<lparr>opt_bandwidth = 7000000000, opt_qps = 100, config_path = None, node_config_path = None\<rparr>"

section \<open>Start-up\<close>

definition init_task_info :: "u64 \<Rightarrow> u64 \<Rightarrow> task_info" where
  "init_task_info bw qps = \<lparr>nr_task = 0, total_bandwidth = bw, total_qps = qps\<rparr>"

text \<open>A row of the table after \<open>memset(r_table, 0, ...)\<close>.\<close>

definition zero_bucket :: token_bucket where
  "zero_bucket = \<lparr>buckets = replicate NR_BUCKET \<lparr>bucket_time = 0\<rparr>, tb_rate = 0, burst_size = 0,
     time_per_token = DFin 0, time_per_burst = DFin 0, next_bucket = 0\<rparr>"

definition zero_resource :: resource where
  "zero_resource = \<lparr>on = False, cache_limit = False, allocated_bandwidth = 0, allocated_qps = 0,
     cache = \<lparr>entry = replicate CACHE_SIZE 0, entry_size = 0, usage = 0, cache_lock = False\<rparr>,
     tb = zero_bucket, request_tb = zero_bucket,
     ht = \<lparr>access_history = replicate HISTORY_LENGTH 0, capacity = 0, head = 0, tail = 0\<rparr>,
     stat = \<lparr>qos = 0, cur_median = 0, cur_tail = 0, bandwidth = 0, time_stamp = 0\<rparr>,
     type = LATENCY, task_name = []\<rparr>"

text \<open>One line of the configuration file, as \<open>fgets\<close> left it in the buffer.\<close>

definition config_line :: "string \<Rightarrow> mon \<Rightarrow> fault + mon" where
  "config_line buf m =
     (let str = c_str buf in
      if str = [] then Inl OutOfBounds else
      let (tok1, r1) = strtok (butlast str); (tok2, r2) = strtok r1; (tok3, r3) = strtok r2;
          (tok4, r4) = strtok r3 in
      bindE (orFault NullDeref tok1) (\<lambda>tok1. let i = atoi tok1 in
      bindE (orFault NullDeref tok2) (\<lambda>name.
      bindE (upd_row (r_table m) i (\<lambda>r. r\<lparr>task_name := take 39 name\<rparr>)) (\<lambda>t.
      bindE (orFault NullDeref tok3) (\<lambda>kind.
      let ty = (if i \<noteq> 0 then SECONDARY else if kind = ''latency'' then LATENCY else SECONDARY) in
      bindE (upd_row t i (\<lambda>r. r\<lparr>type := ty\<rparr>)) (\<lambda>t.
      bindE (if ty = LATENCY
             then bindE (orFault NullDeref tok4) (\<lambda>q.
                    upd_row t i (\<lambda>r. r\<lparr>stat := (stat r)\<lparr>qos := ucast (strtoull q)\<rparr>\<rparr>))
             else Inr t) (\<lambda>t.
      bindE (upd_row t i (\<lambda>r. r\<lparr>cache_limit := False\<rparr>)) (\<lambda>t.
      if nr_task (t_info m) = 2 ^ 31 - 1 then Inl SignedOverflow
      else Inr (m\<lparr>r_table := t, t_info := (t_info m)\<lparr>nr_task := nr_task (t_info m) + 1\<rparr>\<rparr>)))))))))"

function config_loop :: "string \<Rightarrow> mon \<Rightarrow> fault + mon" where
  "config_loop file m =
     (if file = [] then Inr m
      else bindE (config_line (fst (fgets 199 file)) m) (config_loop (snd (fgets 199 file))))"
  by pat_completeness auto
termination
  by (relation "measure (\<lambda>(file, m). length file)")
     (use fgets_progress[of _ 198] in \<open>simp_all add: eval_nat_numeral\<close>)

declare config_loop.simps [simp del]

definition init_resource :: "mon \<Rightarrow> fault + mon" where
  "init_resource m =
     bindE (foldE (\<lambda>i t. upd_row t i (\<lambda>r. r\<lparr>allocated_bandwidth := INIT_BANDWIDTH,
                                            allocated_qps := 50, on := False\<rparr>))
              (indices (nr_task (t_info m))) (r_table m))
       (\<lambda>t. Inr (m\<lparr>r_table := t\<rparr>))"

datatype main_result = ErrSys | Unlink | Running mon

text \<open>
  \<open>main\<close> up to the call of \<open>monitor\<close>. The parameters are the files that can be
  opened, and whether the mapping and the two allocations succeed. A mapping
  that fails is \<open>MAP_FAILED\<close>, which the code's test for null lets through.
\<close>

definition monitor_main ::
  "(string \<Rightarrow> string option) \<Rightarrow> bool \<Rightarrow> bool \<Rightarrow> bool \<Rightarrow> string list \<Rightarrow> fault + main_result" where
  "monitor_main fopen mapped malloc1 malloc2 args =
     (let opt = parse_options args in
      bindE (orFault NullDeref (config_path opt)) (\<lambda>path.
      case fopen path of
        None \<Rightarrow> Inr ErrSys
      | Some file \<Rightarrow>
          if \<not> mapped then Inl BadPointer
          else
            let m = \<lparr>r_table = replicate TABLE_SIZE zero_resource,
                     t_info = init_task_info (opt_bandwidth opt) (opt_qps opt), slack = [], r_dir = []\<rparr> in
            bindE (config_loop file m) (\<lambda>m.
            bindE (upd_row (r_table m) 0
                     (\<lambda>r. r\<lparr>tb := init_token_bucket (tb r) INIT_BANDWIDTH BURST_SIZE,
                            request_tb := init_token_bucket (request_tb r) INIT_REQUEST_RATE 64\<rparr>)) (\<lambda>t.
            if \<not> malloc1 \<or> \<not> malloc2 then Inr Unlink
            else
              bindE (init_resource (m\<lparr>r_table := t,
                       slack := replicate (nat (nr_task (t_info m))) (DFin 0),
                       r_dir := replicate (nat (nr_task (t_info m))) BOTH\<rparr>)) (\<lambda>m.
              Inr (Running m))))))"

section \<open>Slack of the latency-critical tasks\<close>

definition compute_elapsed_us :: "timespec \<Rightarrow> timespec \<Rightarrow> u64" where
  "compute_elapsed_us prev cur =
     ((tv_sec cur - tv_sec prev) * 1000000000 + (tv_nsec cur - tv_nsec prev)) div 1000"

definition is_primary_task :: "resource \<Rightarrow> bool" where
  "is_primary_task res \<longleftrightarrow> type res = LATENCY \<and> on res"

definition is_secondary_task :: "resource \<Rightarrow> bool" where
  "is_secondary_task res \<longleftrightarrow> type res = SECONDARY \<and> on res"

text \<open>The loads of the time stamp are a sequence; \<open>k\<close> counts them.\<close>

partial_function (option) wait_for_new_time_stamp :: "u64 \<Rightarrow> (nat \<Rightarrow> u64) \<Rightarrow> nat \<Rightarrow> u64 option" where
  "wait_for_new_time_stamp prev loads k =
     (if prev = loads k then wait_for_new_time_stamp prev loads (Suc k) else Some (loads (Suc k)))"

definition cal_slack_body :: "int \<Rightarrow> mon \<Rightarrow> fault + mon" where
  "cal_slack_body i m =
     bindE (row (r_table m) i) (\<lambda>r.
     if is_primary_task r then
       let lat = sint (get_tail_lat r);
           diff = sint (qos (stat r) - word_of_int lat);
           diff = (if diff < 0 then 0 else diff)
       in if nat i < length (slack m)
          then Inr (m\<lparr>slack := (slack m)[nat i :=
                 ddiv (dbl_of_int diff) (dbl_of_u64 (ucast (qos (stat r))))]\<rparr>)
          else Inl OutOfBounds
     else Inr m)"

definition cal_slack :: "mon \<Rightarrow> fault + mon" where
  "cal_slack m = foldE cal_slack_body (indices (nr_task (t_info m))) m"

definition slack_at :: "mon \<Rightarrow> int \<Rightarrow> fault + dbl" where
  "slack_at m i = (if nat i < length (slack m) then Inr (slack m ! nat i) else Inl OutOfBounds)"

definition dir_at :: "mon \<Rightarrow> int \<Rightarrow> fault + resource_direction" where
  "dir_at m i = (if nat i < length (r_dir m) then Inr (r_dir m ! nat i) else Inl OutOfBounds)"

section \<open>Choice of tasks\<close>

definition find_min_slack :: "mon \<Rightarrow> fault + int" where
  "find_min_slack m =
     bindE (foldE (\<lambda>i (min_i, min).
              bindE (row (r_table m) i) (\<lambda>r.
              if \<not> on r \<or> type r = SECONDARY then Inr (min_i, min)
              else bindE (slack_at m i) (\<lambda>s.
                if dlt s min then Inr (i, s) else Inr (min_i, min))))
            (indices (nr_task (t_info m))) (- 1, dbl_of_int 100))
       (\<lambda>(min_i, min). Inr min_i)"

definition find_max_slack :: "mon \<Rightarrow> fault + int" where
  "find_max_slack m =
     bindE (foldE (\<lambda>i (max_i, max).
              bindE (row (r_table m) i) (\<lambda>r.
              if \<not> on r \<or> type r = SECONDARY then Inr (max_i, max)
              else bindE (slack_at m i) (\<lambda>s.
                if dlt max s then Inr (i, s) else Inr (max_i, max))))
            (indices (nr_task (t_info m))) (- 1, dbl_of_int (- 100)))
       (\<lambda>(max_i, max). Inr max_i)"

definition find_victim :: "mon \<Rightarrow> fault + int" where
  "find_victim m =
     bindE (foldE (\<lambda>i (max_i, us).
              bindE (row (r_table m) i) (\<lambda>r.
              if \<not> on r then Inr (max_i, us)
              else bindE (dir_at m i) (\<lambda>d.
                if d = ALLOC then Inr (max_i, us)
                else if type r = LATENCY then Inr (max_i, us)
                else if usage (cache r) > us then Inr (i, usage (cache r))
                else Inr (max_i, us))))
            (indices (nr_task (t_info m))) (- 1, 0))
       (\<lambda>(max_i, us). Inr max_i)"

definition find_reciever :: "mon \<Rightarrow> fault + int" where
  "find_reciever m =
     bindE (foldE (\<lambda>i (max_i, max_usage).
              bindE (row (r_table m) i) (\<lambda>r.
              if \<not> on r then Inr (max_i, max_usage)
              else bindE (dir_at m i) (\<lambda>d.
                if d = RET then Inr (max_i, max_usage)
                else if type r = LATENCY then Inr (max_i, max_usage)
                else
                  let us = dbl_of_int (usage (cache r))
                  in if dlt us (dbl_lit (7 / 10)) then Inr (max_i, max_usage)
                     else if dlt max_usage us then Inr (i, us)
                     else Inr (max_i, max_usage))))
            (indices (nr_task (t_info m))) (- 1, dbl_of_int 0))
       (\<lambda>(max_i, max_usage). Inr max_i)"

section \<open>Rates\<close>

definition ratio_of_rate :: "resource \<Rightarrow> dbl \<Rightarrow> fault + u64" where
  "ratio_of_rate res ratio =
     orFault BadConversion (u64_of_dbl (dceil (dmul (dbl_of_u64 (tb_rate (tb res))) ratio)))"

definition retrieve_resource :: "dbl \<Rightarrow> mon \<Rightarrow> fault + mon" where
  "retrieve_resource ratio m =
     bindE (row (r_table m) 0) (\<lambda>res.
     bindE (ratio_of_rate res ratio) (\<lambda>rate.
     bindE (upd_row (r_table m) 0 (\<lambda>r. r\<lparr>tb := down_rate (tb r) rate\<rparr>)) (\<lambda>t.
     Inr (m\<lparr>r_table := t\<rparr>))))"

definition alloc_resource :: "dbl \<Rightarrow> mon \<Rightarrow> fault + mon" where
  "alloc_resource ratio m =
     bindE (row (r_table m) 0) (\<lambda>res.
     bindE (ratio_of_rate res ratio) (\<lambda>rate.
     bindE (upd_row (r_table m) 0 (\<lambda>r. r\<lparr>tb := up_rate (tb r) rate\<rparr>)) (\<lambda>t.
     Inr (m\<lparr>r_table := t\<rparr>))))"

definition be_bw :: "u64 \<Rightarrow> fault + u64" where
  "be_bw bw_usage =
     (let used = bw_usage * 1000000;
          x = dmul (dbl_of_int TOTAL_BW) (dbl_lit (1 / 4));
          y = dmul (dbl_of_u64 used) (dbl_lit (1 / 10))
      in orFault BadConversion
           (u64_of_dbl (dsub (dbl_of_u64 (word_of_int TOTAL_BW - used)) (if dlt y x then x else y))))"

text \<open>One iteration of the loop of \<open>network_monitor\<close>.\<close>

definition network_monitor_step :: "mon \<Rightarrow> fault + mon" where
  "network_monitor_step m =
     bindE (row (r_table m) 0) (\<lambda>r.
     bindE (be_bw (ucast (get_bw r))) (\<lambda>bw.
     bindE (upd_row (r_table m) 0 (\<lambda>r. r\<lparr>tb := set_rate (tb r) bw\<rparr>)) (\<lambda>t.
     Inr (m\<lparr>r_table := t\<rparr>))))"

text \<open>One iteration of the loop of \<open>monitor\<close>; both branches on the slack are empty in the code.\<close>

definition monitor_step :: "mon \<Rightarrow> fault + mon" where
  "monitor_step m =
     bindE (row (r_table m) 0) (\<lambda>r.
     if \<not> on r then Inr m
     else bindE (cal_slack m) (\<lambda>m. bindE (slack_at m 0) (\<lambda>s. Inr m)))"

end
