(* ===== verification/Monitor_Rates.thy ===== *)
theory Monitor_Rates
  imports Monitor
begin

text \<open>
  What the monitor computes: the slack of each latency-critical task, the rate it
  leaves to the best-effort tenants, and the changes by a ratio of the rate.
\<close>

section \<open>The best-effort rate\<close>

lemma quarter: "rnd53 (1 / 4) = 1 / 4"
  using rnd53_exact[of 1 "-2"] by (simp add: power_int_minus)

lemma tenth_le: "0 \<le> rnd53 (1 / 10)" "rnd53 (1 / 10) \<le> 1 / 10 + 1 / 2 ^ 53"
  using rnd53_rel_error[of "1 / 10"] rnd53_nonneg[of "1 / 10"] by (auto simp: abs_if split: if_splits)

lemma unat_used: "unat bw < 2 ^ 32 \<Longrightarrow> unat (bw * 1000000 :: u64) = unat bw * 1000000"
  by (simp add: unat_word_ariths)

text \<open>Up to 17499 MB/s the reserve is a quarter of the link.\<close>

lemma reserve:
  assumes "unat bw < 17500"
  shows "dlt (dmul (dbl_of_u64 (bw * 1000000)) (dbl_lit (1 / 10))) (dmul (dbl_of_int TOTAL_BW) (dbl_lit (1 / 4)))"
    and "dmul (dbl_of_int TOTAL_BW) (dbl_lit (1 / 4)) = DFin 1750000000"
proof -
  have u: "unat (bw * 1000000 :: u64) = unat bw * 1000000" using assms unat_used[of bw] by simp
  have d: "dbl_of_u64 (bw * 1000000) = DFin (of_nat (unat bw * 1000000))"
    using assms u unat_le_2_53[of "bw * 1000000"] by simp
  let ?y = "of_nat (unat bw * 1000000) * rnd53 (1 / 10)"
  have l: "of_nat (unat bw * 1000000) \<le> (17499000000 :: rat)"
    using assms of_nat_mono[of "unat bw * 1000000" 17499000000] by simp
  have "?y \<le> 17499000000 * (1 / 10 + 1 / 2 ^ 53)"
    using mult_mono[OF l tenth_le(2)] tenth_le(1) by simp
  also have "\<dots> \<le> of_nat 1749900001" by simp
  finally have "rnd53 ?y \<le> of_nat 1749900001"
    using tenth_le(1) by (intro rnd53_le_nat) simp_all
  then show "dlt (dmul (dbl_of_u64 (bw * 1000000)) (dbl_lit (1 / 10))) (dmul (dbl_of_int TOTAL_BW) (dbl_lit (1 / 4)))"
    and "dmul (dbl_of_int TOTAL_BW) (dbl_lit (1 / 4)) = DFin 1750000000"
    using d by (simp_all add: dbl_lit_def quarter TOTAL_BW_def dbl_of_int_def dbl_simps)
qed

lemma be_bw_reserve:
  assumes "unat bw < 17500"
  shows "be_bw bw = orFault BadConversion
    (u64_of_dbl (dsub (dbl_of_u64 (7000000000 - bw * 1000000)) (DFin 1750000000)))"
  using reserve[OF assms] by (simp add: be_bw_def Let_def TOTAL_BW_def)

lemma be_bw_sub:
  assumes "unat bw \<le> 7000"
  shows "be_bw bw = orFault BadConversion
    (u64_of_dbl (DFin (of_int (5250000000 - int (unat bw) * 1000000))))"
proof -
  have u: "unat (bw * 1000000 :: u64) = unat bw * 1000000" using assms unat_used[of bw] by simp
  have "bw * 1000000 \<le> 7000000000" using assms by (simp add: word_le_nat_alt u)
  then have s: "unat (7000000000 - bw * 1000000 :: u64) = 7000000000 - unat bw * 1000000"
    by (simp add: unat_sub_ge u)
  have "rnd53 (of_nat (7000000000 - unat bw * 1000000) - 1750000000) =
      of_int (5250000000 - int (unat bw) * 1000000)"
    using assms rnd53_int[of "5250000000 - int (unat bw) * 1000000"] by (simp add: of_nat_diff)
  then show ?thesis
    using assms s unat_le_2_53[of "7000000000 - bw * 1000000"] by (simp add: be_bw_reserve)
qed

lemma be_bw_total:
  assumes "unat bw \<le> 5250"
  shows "\<exists>rate. be_bw bw = Inr rate \<and> unat rate + unat bw * 1000000 + 1750000000 = 7000000000"
proof -
  define v where "v = 5250000000 - int (unat bw) * 1000000"
  have v: "0 \<le> v" "v < 2 ^ 64" using assms by (simp_all add: v_def)
  then have "0 \<le> (of_int v :: rat)" "(of_int v :: rat) < of_int (2 ^ 64)"
    by (simp_all only: of_int_0_le_iff of_int_less_iff)
  then have r: "0 \<le> (of_int v :: rat)" "(of_int v :: rat) < 2 ^ 64"
    by (simp_all only: of_int_power of_int_numeral)
  have "be_bw bw = orFault BadConversion (u64_of_dbl (DFin (of_int v)))"
    using be_bw_sub[of bw] assms by (simp only: v_def)
  then have "be_bw bw = Inr (word_of_int v)" using u64_of_dbl_nat(1)[OF r] by simp
  moreover have "unat (word_of_int v :: u64) = nat v" using u64_of_dbl_nat(2)[OF r] by simp
  moreover have "nat v + unat bw * 1000000 + 1750000000 = 7000000000" using v(1) unfolding v_def by linarith
  ultimately show ?thesis by metis
qed

text \<open>
  The rate left to the best-effort tenants. When the primary tenant
  uses at most 5250 MB/s, the rate is exactly the 7 GB/s of the link minus the
  bandwidth in use minus a reserve of a quarter of the link, so the three always
  add up to the link and nothing is rounded away.
\<close>

theorem best_effort_rate:
  assumes "unat bw \<le> 5250"
  shows "\<exists>rate. be_bw bw = Inr rate \<and> unat rate + unat bw * 1000000 + 1750000000 = 7000000000"
  by (rule be_bw_total[OF assms])

theorem best_effort_rate_witness:
  "\<exists>rate. be_bw 1000 = Inr rate \<and> unat rate = 4250000000"
proof -
  have "unat (1000 :: u64) \<le> 5250" by simp
  from best_effort_rate[OF this] show ?thesis by auto
qed

text \<open>
  A primary tenant that uses more than 5250 MB/s, and no more than the
  link carries, leaves a negative remainder, and the conversion of the negative
  double to the unsigned rate is undefined behaviour.
\<close>

theorem overload_undefined:
  assumes "5250 < unat bw" "unat bw \<le> 7000"
  shows "be_bw bw = Inl BadConversion"
proof -
  have "5250000000 - int (unat bw) * 1000000 \<le> - 1" using assms by simp
  then have "(of_int (5250000000 - int (unat bw) * 1000000) :: rat) \<le> of_int (- 1)"
    by (simp only: of_int_le_iff)
  then show ?thesis using be_bw_sub[of bw] assms(2) by simp
qed

theorem overload_undefined_witness: "be_bw 6000 = Inl BadConversion"
  by (rule overload_undefined) simp_all

text \<open>A report above the capacity of the link wraps around below it.\<close>

lemma wrapped:
  assumes "7000 < unat bw" "unat bw < 17500"
  shows "unat (7000000000 - bw * 1000000 :: u64) = 2 ^ 64 - (unat bw - 7000) * 1000000"
proof -
  have u: "unat (bw * 1000000 :: u64) = unat bw * 1000000" using assms unat_used[of bw] by simp
  have "unat (7000000000 - bw * 1000000 :: u64) = 7000000000 + 2 ^ 64 - unat bw * 1000000"
    using assms u unat_sub_if'[of 7000000000 "bw * 1000000"] by simp
  then show ?thesis using assms by simp
qed

text \<open>
  Property C36: a report above the link's capacity frees the best-effort tenants.
  Between 7001 and 17499 MB/s the subtraction wraps around and the rate becomes more
  than \<open>2 ^ 63\<close> bytes per second, a thousand million times the link.
\<close>

theorem overload_unlimited:
  assumes "7000 < unat bw" "unat bw < 17500"
  shows "\<exists>rate. be_bw bw = Inr rate \<and> 2 ^ 63 < unat rate"
proof -
  let ?n = "2 ^ 64 - (unat bw - 7000) * 1000000 :: nat"
  have n: "of_nat (2 ^ 64 - 10499000000) \<le> (of_nat ?n :: rat)" "(of_nat ?n :: rat) \<le> of_nat (2 ^ 64 - 1000000)"
    using assms by (simp_all only: of_nat_le_iff)
  let ?x = "rnd53 (of_nat ?n)"
  have x: "\<bar>?x - of_nat ?n\<bar> \<le> 2048"
    using rnd53_rel_error[of "of_nat ?n"] n(2) by (simp add: field_simps)
  have y: "2 ^ 64 - 20000000000 \<le> ?x - 1750000000" "?x - 1750000000 \<le> 2 ^ 64 - 1700000000"
    using x n by (simp_all add: abs_le_iff) linarith+
  let ?y = "rnd53 (?x - 1750000000)"
  have z: "\<bar>?y - (?x - 1750000000)\<bar> \<le> 2048"
    using rnd53_rel_error[of "?x - 1750000000"] y by (simp add: field_simps)
  have r: "0 \<le> ?y" "?y < 2 ^ 64" "2 ^ 63 + 1 \<le> ?y" using y z by (simp_all add: abs_le_iff)
  have "be_bw bw = Inr (word_of_int \<lfloor>?y\<rfloor>)"
    using u64_of_dbl_nat(1)[OF r(1,2)] assms
    by (simp add: be_bw_reserve dbl_of_u64_def wrapped del: u64_of_dbl.simps)
  moreover have "2 ^ 63 + 1 \<le> \<lfloor>?y\<rfloor>" using r(3) by (simp add: le_floor_iff)
  then have "2 ^ 63 < nat \<lfloor>?y\<rfloor>"
    by (simp only: zless_nat_eq_int_zless of_nat_power of_nat_numeral zle_add1_eq_le flip: add1_zle_eq)
  ultimately show ?thesis
    using u64_of_dbl_nat(2)[OF r(1,2)] by (intro exI[of _ "word_of_int \<lfloor>?y\<rfloor>"]) (simp only: simp_thms)
qed

theorem overload_unlimited_witness: "\<exists>rate. be_bw 7200 = Inr rate \<and> 2 ^ 63 < unat rate"
  by (rule overload_unlimited) simp_all

text \<open>
  Property C8: one round of the network monitor on a link that is not overloaded
  changes nothing but the best-effort bucket, which becomes consistent with the
  new rate: \<open>rate + used + reserve\<close> is the link, and the cells, the burst and the
  rotation index of the bucket are as before.
\<close>

theorem network_monitor_round:
  assumes "r_table m \<noteq> []" "length (buckets (tb (r_table m ! 0))) = NR_BUCKET"
    and "unat (bandwidth (stat (r_table m ! 0))) \<le> 5250"
  shows "\<exists>b. network_monitor_step m =
           Inr (m\<lparr>r_table := (r_table m)[0 := (r_table m ! 0)\<lparr>tb := b\<rparr>]\<rparr>) \<and>
           tb_consistent b \<and>
           unat (tb_rate b) + unat (bandwidth (stat (r_table m ! 0))) * 1000000 + 1750000000 = 7000000000 \<and>
           buckets b = buckets (tb (r_table m ! 0)) \<and> burst_size b = burst_size (tb (r_table m ! 0)) \<and>
           next_bucket b = next_bucket (tb (r_table m ! 0))"
proof -
  let ?r = "r_table m ! 0"
  let ?bw = "ucast (get_bw ?r) :: u64"
  have "unat (get_bw ?r) = unat (bandwidth (stat ?r)) mod 2 ^ 32"
    by (simp add: get_bw_def unsigned_ucast_eq take_bit_eq_mod)
  then have bw: "unat ?bw = unat (bandwidth (stat ?r))"
    using assms(3) by (simp add: unsigned_ucast_eq take_bit_eq_mod)
  obtain rate where rate: "be_bw ?bw = Inr rate"
    and sum: "unat rate + unat ?bw * 1000000 + 1750000000 = 7000000000"
    using be_bw_total[of ?bw] assms(3) bw by auto
  have "0 < length (r_table m)" using assms(1) by simp
  then have "network_monitor_step m = Inr (m\<lparr>r_table := (r_table m)[0 := ?r\<lparr>tb := set_rate (tb ?r) rate\<rparr>]\<rparr>)"
    using rate row_of_nat[of 0 "r_table m"] upd_row_of_nat[of 0 "r_table m"] by (simp add: network_monitor_step_def)
  then show ?thesis
    using sum bw assms(2) by (intro exI[of _ "set_rate (tb ?r) rate"]) (simp add: set_rate_def Let_def tb_consistent_def)
qed

theorem network_monitor_round_witness:
  "\<exists>b. network_monitor_step \<lparr>r_table = [zero_resource\<lparr>stat := \<lparr>qos = 0, cur_median = 0, cur_tail = 0,
            bandwidth = 1250, time_stamp = 0\<rparr>\<rparr>],
          t_info = init_task_info 0 0, slack = [], r_dir = []\<rparr> =
        Inr \<lparr>r_table = [zero_resource\<lparr>tb := b, stat := \<lparr>qos = 0, cur_median = 0, cur_tail = 0,
            bandwidth = 1250, time_stamp = 0\<rparr>\<rparr>],
          t_info = init_task_info 0 0, slack = [], r_dir = []\<rparr> \<and>
        unat (tb_rate b) = 4000000000"
proof -
  let ?m = "\<lparr>r_table = [zero_resource\<lparr>stat := \<lparr>qos = 0, cur_median = 0, cur_tail = 0,
            bandwidth = 1250, time_stamp = 0\<rparr>\<rparr>],
          t_info = init_task_info 0 0, slack = [], r_dir = []\<rparr>"
  have h: "r_table ?m \<noteq> []" "length (buckets (tb (r_table ?m ! 0))) = NR_BUCKET"
    "unat (bandwidth (stat (r_table ?m ! 0))) \<le> 5250"
    by (simp_all add: zero_resource_def zero_bucket_def)
  from network_monitor_round[OF h] obtain b where
    "network_monitor_step ?m = Inr (?m\<lparr>r_table := (r_table ?m)[0 := (r_table ?m ! 0)\<lparr>tb := b\<rparr>]\<rparr>)"
    "unat (tb_rate b) + unat (bandwidth (stat (r_table ?m ! 0))) * 1000000 + 1750000000 = 7000000000"
    by blast
  then show ?thesis by (intro exI[of _ b]) simp
qed

section \<open>Slack\<close>

definition slack_of :: "resource \<Rightarrow> rat" where
  "slack_of r = of_nat (unat (qos (stat r)) - unat (cur_tail (stat r))) / of_nat (unat (qos (stat r)))"

lemma latency_diff:
  fixes q l :: u32
  assumes "unat q < 2 ^ 31" "unat l < 2 ^ 31"
  shows "sint (q - l) = int (unat q) - int (unat l)"
proof -
  have "q - l = word_of_int (int (unat q) - int (unat l))"
    by (simp add: of_nat_unat)
  then have "sint (q - l) = signed_take_bit 31 (int (unat q) - int (unat l))"
    using sint_sbintrunc'[of "int (unat q) - int (unat l)", where ?'a = 32] by simp
  also have "\<dots> = int (unat q) - int (unat l)"
    using assms by (intro signed_take_bit_int_eq_self) simp_all
  finally show ?thesis .
qed

lemma cal_slack_body_eq:
  assumes "k < length (r_table m)" "k < length (slack m)" "length (r_table m) \<le> TABLE_SIZE"
    and "\<And>r. r \<in> set (r_table m) \<Longrightarrow> is_primary_task r \<Longrightarrow>
           0 < qos (stat r) \<and> unat (qos (stat r)) < 2 ^ 31 \<and> unat (cur_tail (stat r)) < 2 ^ 31"
  shows "cal_slack_body (int k) m =
    Inr (m\<lparr>slack := (slack m)[k := if is_primary_task (r_table m ! k)
            then DFin (rnd53 (slack_of (r_table m ! k))) else slack m ! k]\<rparr>)"
proof (cases "is_primary_task (r_table m ! k)")
  case False
  then show ?thesis using assms(1) by (simp add: cal_slack_body_def row_of_nat)
next
  case True
  let ?r = "r_table m ! k" and ?q = "unat (qos (stat (r_table m ! k)))" and ?l = "unat (cur_tail (stat (r_table m ! k)))"
  have r: "0 < ?q" "?q < 2 ^ 31" "?l < 2 ^ 31"
    using assms(4)[OF nth_mem[OF assms(1)] True] by (auto simp: word_less_nat_alt)
  have "sint (qos (stat ?r) - word_of_int (sint (get_tail_lat ?r))) = int ?q - int ?l"
    using latency_diff[OF r(2,3)] by (simp add: get_tail_lat_def)
  then have n: "(if sint (qos (stat ?r) - word_of_int (sint (get_tail_lat ?r))) < 0 then 0
      else sint (qos (stat ?r) - word_of_int (sint (get_tail_lat ?r)))) = int (?q - ?l)" by (simp only:) auto
  have i: "dbl_of_int (int (?q - ?l)) = DFin (of_nat (?q - ?l))"
    using r by (simp add: dbl_of_int_def rnd53_nat)
  have q: "dbl_of_u64 (ucast (qos (stat ?r))) = DFin (of_nat ?q)"
    using r by (simp add: dbl_of_u64_def unsigned_ucast_eq take_bit_eq_mod rnd53_nat)
  show ?thesis
    using True assms(1,2) r(1) unfolding cal_slack_body_def Let_def row_of_nat[OF assms(1)] bindE.simps n i q
    by (simp add: slack_of_def)
qed

definition slack_ready :: "mon \<Rightarrow> bool" where
  "slack_ready m \<longleftrightarrow> nr_task (t_info m) = int (length (slack m)) \<and>
     length (slack m) \<le> length (r_table m) \<and> length (r_table m) \<le> TABLE_SIZE \<and>
     (\<forall>r \<in> set (r_table m). is_primary_task r \<longrightarrow>
        0 < qos (stat r) \<and> unat (qos (stat r)) < 2 ^ 31 \<and> unat (cur_tail (stat r)) < 2 ^ 31)"

definition put_slack :: "table \<Rightarrow> nat \<Rightarrow> dbl list \<Rightarrow> dbl list" where
  "put_slack t k ss =
     ss[k := if is_primary_task (t ! k) then DFin (rnd53 (slack_of (t ! k))) else ss ! k]"

lemma length_put_slacks [simp]: "length (fold (put_slack t) ks ss) = length ss"
  by (induction ks arbitrary: ss) (simp_all add: put_slack_def)

lemma nth_put_slacks:
  assumes "n \<le> length ss" "i < length ss"
  shows "fold (put_slack t) [0..<n] ss ! i =
    (if i < n \<and> is_primary_task (t ! i) then DFin (rnd53 (slack_of (t ! i))) else ss ! i)"
  using assms by (induction n) (auto simp: put_slack_def nth_list_update less_Suc_eq)

lemma cal_slack_fold:
  assumes "slack_ready m"
  shows "cal_slack m = Inr (m\<lparr>slack := fold (put_slack (r_table m)) [0..<length (slack m)] (slack m)\<rparr>)"
proof -
  let ?P = "\<lambda>x. \<exists>ss. x = m\<lparr>slack := ss\<rparr> \<and> length ss = length (slack m)"
  let ?g = "\<lambda>k x. x\<lparr>slack := put_slack (r_table m) k (slack x)\<rparr>"
  have b: "foldE cal_slack_body (map int ks) (m\<lparr>slack := ss\<rparr>) = Inr (m\<lparr>slack := fold (put_slack (r_table m)) ks ss\<rparr>)"
    if "set ks \<subseteq> {..<length (slack m)}" "length ss = length (slack m)" for ks ss
    using that
  proof (induction ks arbitrary: ss)
    case (Cons k ks)
    have "cal_slack_body (int k) (m\<lparr>slack := ss\<rparr>) = Inr (m\<lparr>slack := put_slack (r_table m) k ss\<rparr>)"
      using cal_slack_body_eq[of k "m\<lparr>slack := ss\<rparr>"] assms Cons.prems
      by (auto simp: slack_ready_def put_slack_def)
    then show ?case using Cons by (simp add: put_slack_def)
  qed simp
  show ?thesis
    using b[of "[0..<length (slack m)]" "slack m"] assms
    by (simp add: cal_slack_def indices_def slack_ready_def atLeast0LessThan)
qed

lemma slack_of_unit: "0 \<le> slack_of r" "slack_of r \<le> 1"
  unfolding slack_of_def by (auto simp: divide_le_eq_1)

text \<open>
  Property C12: the slack of every active latency-critical task is the share of its
  latency target that its tail latency leaves, rounded to a double and always between 0 and 1:
  0 when the target is missed. The slack of every other task and the rest of
  the state stay as they were. The targets must be set and below \<open>2 ^ 31\<close>.
\<close>

theorem cal_slack_correct:
  assumes "slack_ready m"
  shows "\<exists>m'. cal_slack m = Inr m' \<and> m' = m\<lparr>slack := slack m'\<rparr> \<and> length (slack m') = length (slack m) \<and>
    (\<forall>i < length (slack m). if is_primary_task (r_table m ! i)
       then slack m' ! i = DFin (rnd53 (slack_of (r_table m ! i))) \<and>
            0 \<le> rnd53 (slack_of (r_table m ! i)) \<and> rnd53 (slack_of (r_table m ! i)) \<le> 1
       else slack m' ! i = slack m ! i)"
  using cal_slack_fold[OF assms] slack_of_unit rnd53_nonneg rnd53_le_nat[of _ 1]
  by (auto simp: nth_put_slacks)

definition sample_mon :: mon where
  "sample_mon = \<lparr>r_table = [zero_resource\<lparr>on := True, stat := \<lparr>qos = 100, cur_median = 0, cur_tail = 75,
      bandwidth = 0, time_stamp = 0\<rparr>\<rparr>],
    t_info = \<lparr>nr_task = 1, total_bandwidth = 0, total_qps = 0\<rparr>, slack = [DFin 0], r_dir = [BOTH]\<rparr>"

theorem cal_slack_correct_witness:
  "\<exists>m'. cal_slack sample_mon = Inr m' \<and> slack m' ! 0 = DFin (1 / 4)"
proof -
  have r: "slack_ready sample_mon"
    by (simp add: slack_ready_def sample_mon_def TABLE_SIZE_def)
  have p: "is_primary_task (r_table sample_mon ! 0)" "length (slack sample_mon) = 1"
    "slack_of (r_table sample_mon ! 0) = 1 / 4"
    by (simp_all add: is_primary_task_def sample_mon_def slack_of_def zero_resource_def)
  show ?thesis using cal_slack_correct[OF r] p quarter by auto
qed

section \<open>Changes by a ratio\<close>

lemma ratio_of_rate_value:
  assumes "0 \<le> a" "a \<le> 1" "unat (tb_rate (tb r)) \<le> 2 ^ 53"
  shows "\<exists>x. ratio_of_rate r (DFin a) = Inr x \<and>
    unat x = nat \<lceil>rnd53 (of_nat (unat (tb_rate (tb r))) * a)\<rceil> \<and> x \<le> tb_rate (tb r)"
proof -
  let ?n = "unat (tb_rate (tb r))"
  let ?p = "rnd53 (of_nat ?n * a)"
  have p: "0 \<le> ?p" using assms(1) by (intro rnd53_nonneg) simp
  have le: "?p \<le> of_nat ?n" using assms by (intro rnd53_le_nat) (auto simp: mult_left_le)
  then have c: "0 \<le> \<lceil>?p\<rceil>" "\<lceil>?p\<rceil> \<le> int ?n" using p by (simp_all add: ceiling_le_iff)
  have "int ?n < 2 ^ 64" using assms(3) by simp
  then have "\<lceil>?p\<rceil> < 2 ^ 64" using c(2) by linarith
  then have "(of_int \<lceil>?p\<rceil> :: rat) < of_int (2 ^ 64)" by (simp only: of_int_less_iff)
  then have b: "0 \<le> (of_int \<lceil>?p\<rceil> :: rat)" "(of_int \<lceil>?p\<rceil> :: rat) < 2 ^ 64"
    using c(1) by (simp_all only: of_int_0_le_iff of_int_power of_int_numeral)
  have "ratio_of_rate r (DFin a) = Inr (word_of_int \<lceil>?p\<rceil>)"
    using u64_of_dbl_nat(1)[OF b] by (simp add: ratio_of_rate_def unat_le_2_53[OF assms(3)] del: u64_of_dbl.simps)
  moreover have u: "unat (word_of_int \<lceil>?p\<rceil> :: u64) = nat \<lceil>?p\<rceil>" using u64_of_dbl_nat(2)[OF b] by simp
  moreover have "(word_of_int \<lceil>?p\<rceil> :: u64) \<le> tb_rate (tb r)"
    unfolding word_le_nat_alt u using c by (simp add: nat_le_iff)
  ultimately show ?thesis by blast
qed

text \<open>
  Taking a ratio of the rate away never underflows. For a ratio between
  0 and 1 and a rate up to \<open>2 ^ 53\<close>, the new rate is the old one minus the rounded-up
  share, the bucket is consistent with it, and no other row changes.
\<close>

theorem retrieve_resource_correct:
  assumes "r_table m \<noteq> []" "length (buckets (tb (r_table m ! 0))) = NR_BUCKET"
    and "0 \<le> a" "a \<le> 1" "unat (tb_rate (tb (r_table m ! 0))) \<le> 2 ^ 53"
  shows "\<exists>b. retrieve_resource (DFin a) m =
      Inr (m\<lparr>r_table := (r_table m)[0 := (r_table m ! 0)\<lparr>tb := b\<rparr>]\<rparr>) \<and> tb_consistent b \<and>
    int (unat (tb_rate b)) = int (unat (tb_rate (tb (r_table m ! 0)))) -
      \<lceil>rnd53 (of_nat (unat (tb_rate (tb (r_table m ! 0)))) * a)\<rceil>"
proof -
  let ?r = "r_table m ! 0"
  obtain x where x: "ratio_of_rate ?r (DFin a) = Inr x" "x \<le> tb_rate (tb ?r)"
    and ux: "unat x = nat \<lceil>rnd53 (of_nat (unat (tb_rate (tb ?r))) * a)\<rceil>"
    using ratio_of_rate_value[OF assms(3-5)] by blast
  have "0 \<le> rnd53 (of_nat (unat (tb_rate (tb ?r))) * a)" using assms(3) by (intro rnd53_nonneg) simp
  then have ix: "int (unat x) = \<lceil>rnd53 (of_nat (unat (tb_rate (tb ?r))) * a)\<rceil>" using ux by simp
  have "0 < length (r_table m)" using assms(1) by simp
  then have "retrieve_resource (DFin a) m =
      Inr (m\<lparr>r_table := (r_table m)[0 := ?r\<lparr>tb := down_rate (tb ?r) x\<rparr>]\<rparr>)"
    using x(1) row_of_nat[of 0 "r_table m"] upd_row_of_nat[of 0 "r_table m"] by (simp add: retrieve_resource_def)
  moreover have "tb_consistent (down_rate (tb ?r) x)"
    using assms(2) by (simp add: down_rate_def Let_def tb_consistent_def)
  moreover have "int (unat (tb_rate (down_rate (tb ?r) x))) = int (unat (tb_rate (tb ?r))) - int (unat x)"
    using x(2) unat_sub_ge[OF x(2)] by (simp add: down_rate_def Let_def of_nat_diff word_le_nat_alt)
  ultimately show ?thesis using ix by auto
qed

theorem retrieve_resource_correct_witness:
  "\<exists>m'. retrieve_resource (DFin (1 / 2)) (sample_mon\<lparr>r_table := [zero_resource\<lparr>tb :=
        zero_bucket\<lparr>tb_rate := 1000000000\<rparr>\<rparr>]\<rparr>) = Inr m' \<and>
     int (unat (tb_rate (tb (r_table m' ! 0)))) = 500000000"
proof -
  let ?m = "sample_mon\<lparr>r_table := [zero_resource\<lparr>tb := zero_bucket\<lparr>tb_rate := 1000000000\<rparr>\<rparr>]\<rparr>"
  have "r_table ?m \<noteq> []" "length (buckets (tb (r_table ?m ! 0))) = NR_BUCKET"
    "0 \<le> (1 / 2 :: rat)" "1 / 2 \<le> (1 :: rat)" "unat (tb_rate (tb (r_table ?m ! 0))) \<le> 2 ^ 53"
    by (simp_all add: zero_bucket_def)
  from retrieve_resource_correct[OF this] obtain b where
    r: "retrieve_resource (DFin (1 / 2)) ?m =
          Inr (?m\<lparr>r_table := (r_table ?m)[0 := (r_table ?m ! 0)\<lparr>tb := b\<rparr>]\<rparr>)"
    and "int (unat (tb_rate b)) = int (unat (tb_rate (tb (r_table ?m ! 0)))) -
      \<lceil>rnd53 (of_nat (unat (tb_rate (tb (r_table ?m ! 0)))) * (1 / 2))\<rceil>"
    by blast
  then have "int (unat (tb_rate b)) = 500000000" by (simp add: dbl_simps)
  then show ?thesis using r by (intro exI conjI) (assumption, simp)
qed

end
