(* ===== verification/Monitor_Choice.thy ===== *)
theory Monitor_Choice
  imports Monitor_Rates
begin

text \<open>
  The four searches of the monitor are one scan: run through the rows in order,
  skip some, and keep the first row that is strictly better than all before it.
  The locale \<open>scan\<close> states the contract of a comparison and proves the search
  correct once; it is interpreted for the comparisons of the four functions.
\<close>

section \<open>The scan\<close>

fun scan_step :: "('v \<Rightarrow> 'v \<Rightarrow> bool) \<Rightarrow> (nat \<Rightarrow> 'v option) \<Rightarrow> nat \<Rightarrow> int \<times> 'v \<Rightarrow> int \<times> 'v" where
  "scan_step better cand i (bi, bv) =
     (case cand i of None \<Rightarrow> (bi, bv) | Some v \<Rightarrow> if better v bv then (int i, v) else (bi, bv))"

text \<open>
  The contract of a search over \<open>n\<close> rows: either no candidate is better than the
  start value and the result is \<open>- 1\<close>, or the result is a candidate better than the start
  value that no candidate beats, and the first one with its value.
\<close>

definition scan_result :: "('v \<Rightarrow> 'v \<Rightarrow> bool) \<Rightarrow> (nat \<Rightarrow> 'v option) \<Rightarrow> 'v \<Rightarrow> nat \<Rightarrow> int \<Rightarrow> bool" where
  "scan_result better cand v0 n k \<longleftrightarrow>
     (k = - 1 \<and> (\<forall>j < n. \<forall>v. cand j = Some v \<longrightarrow> \<not> better v v0)) \<or>
     (\<exists>i v. k = int i \<and> i < n \<and> cand i = Some v \<and> better v v0 \<and>
        (\<forall>j < n. \<forall>w. cand j = Some w \<longrightarrow> \<not> better w v) \<and>
        (\<forall>j < i. cand j \<noteq> Some v))"

locale scan =
  fixes better :: "'v \<Rightarrow> 'v \<Rightarrow> bool"
  assumes irrefl: "\<not> better v v"
    and trans: "better u v \<Longrightarrow> better v w \<Longrightarrow> better u w"
begin

definition best :: "(nat \<Rightarrow> 'v option) \<Rightarrow> 'v \<Rightarrow> nat \<Rightarrow> int \<times> 'v \<Rightarrow> bool" where
  "best cand v0 n r \<longleftrightarrow> (case r of (k, v) \<Rightarrow>
     (\<forall>j < n. \<forall>w. cand j = Some w \<longrightarrow> \<not> better w v) \<and>
     (k = - 1 \<and> v = v0 \<or>
      (\<exists>i. k = int i \<and> i < n \<and> cand i = Some v \<and> better v v0 \<and> (\<forall>j < i. cand j \<noteq> Some v))))"

lemma best_step:
  assumes "best cand v0 n (k, v)"
  shows "best cand v0 (Suc n) (scan_step better cand n (k, v))"
proof (cases "cand n")
  case None
  then show ?thesis using assms by (auto simp: best_def less_Suc_eq)
next
  case (Some w)
  show ?thesis
  proof (cases "better w v")
    case False
    then show ?thesis using assms Some by (auto simp: best_def less_Suc_eq)
  next
    case True
    have b: "\<not> better u v" if "j < n" "cand j = Some u" for j u using assms that by (auto simp: best_def)
    have "\<not> better u w" if "j < Suc n" "cand j = Some u" for j u
      using b[of j u] that trans[OF _ True, of u] irrefl[of w] Some by (auto simp: less_Suc_eq)
    moreover have "better w v0" using assms True trans[OF True] by (auto simp: best_def)
    moreover have "cand j \<noteq> Some w" if "j < n" for j using b[OF that] True by blast
    ultimately show ?thesis using Some True by (auto simp: best_def)
  qed
qed

lemma best_scan: "best cand v0 n (fold (scan_step better cand) [0..<n] (- 1, v0))"
proof (induction n)
  case (Suc n)
  then show ?case
    by (cases "fold (scan_step better cand) [0..<n] (- 1, v0)") (simp add: best_step del: scan_step.simps)
qed (simp add: best_def)

lemma scan_correct: "scan_result better cand v0 n (fst (fold (scan_step better cand) [0..<n] (- 1, v0)))"
  using best_scan[of cand v0 n]
  by (cases "fold (scan_step better cand) [0..<n] (- 1, v0)") (fastforce simp: best_def scan_result_def)

end

section \<open>The comparisons of the monitor\<close>

lemma dlt_irrefl: "\<not> dlt a a"
  by (cases a) auto

lemma dlt_trans: "dlt a b \<Longrightarrow> dlt b c \<Longrightarrow> dlt a c"
  by (cases a; cases b; cases c) auto

interpretation lowest: scan dlt
  by unfold_locales (auto simp: dlt_irrefl intro: dlt_trans)

interpretation highest: scan "\<lambda>a b. dlt b a"
  by unfold_locales (auto simp: dlt_irrefl intro: dlt_trans)

interpretation most_used: scan "\<lambda>a b :: int. a > b"
  by unfold_locales auto

section \<open>The searches\<close>

text \<open>The candidates of each search, and the states in which its accesses are in range.\<close>

definition slack_cand :: "mon \<Rightarrow> nat \<Rightarrow> dbl option" where
  "slack_cand m i =
     (let r = r_table m ! i in if on r \<and> type r \<noteq> SECONDARY then Some (slack m ! i) else None)"

definition usage_cand :: "resource_direction \<Rightarrow> mon \<Rightarrow> nat \<Rightarrow> int option" where
  "usage_cand d m i =
     (let r = r_table m ! i
      in if on r \<and> r_dir m ! i \<noteq> d \<and> type r \<noteq> LATENCY then Some (usage (cache r)) else None)"

definition tasks_in_range :: "mon \<Rightarrow> nat \<Rightarrow> bool" where
  "tasks_in_range m n \<longleftrightarrow> nr_task (t_info m) = int n \<and> n \<le> length (r_table m) \<and>
     n = length (slack m) \<and> n = length (r_dir m)"

lemma foldE_scan:
  assumes "\<And>i s. i < n \<Longrightarrow> f (int i) s = Inr (scan_step better cand i s)"
  shows "foldE f (indices (int n)) s = Inr (fold (scan_step better cand) [0..<n] s)"
proof -
  have "foldE f (map int ks) s = Inr (fold (scan_step better cand) ks s)" if "set ks \<subseteq> {..<n}" for ks
    using that assms by (induction ks arbitrary: s) auto
  then show ?thesis by (simp add: indices_def atLeast0LessThan)
qed

lemma find_min_slack_scan:
  assumes "tasks_in_range m n"
  shows "find_min_slack m = Inr (fst (fold (scan_step dlt (slack_cand m)) [0..<n] (- 1, dbl_of_int 100)))"
proof -
  let ?f = "\<lambda>i (min_i, min). bindE (row (r_table m) i) (\<lambda>r.
      if \<not> on r \<or> type r = SECONDARY then Inr (min_i, min)
      else bindE (slack_at m i) (\<lambda>s. if dlt s min then Inr (i, s) else Inr (min_i, min)))"
  have "?f (int i) s = Inr (scan_step dlt (slack_cand m) i s)" if "i < n" for i s
    using assms that
    by (cases s) (auto simp: tasks_in_range_def row_of_nat slack_at_def slack_cand_def Let_def)
  from foldE_scan[of n ?f, OF this]
  show ?thesis using assms unfolding find_min_slack_def by (simp add: tasks_in_range_def split_beta)
qed

lemma find_max_slack_scan:
  assumes "tasks_in_range m n"
  shows "find_max_slack m =
    Inr (fst (fold (scan_step (\<lambda>a b. dlt b a) (slack_cand m)) [0..<n] (- 1, dbl_of_int (- 100))))"
proof -
  let ?f = "\<lambda>i (max_i, max). bindE (row (r_table m) i) (\<lambda>r.
      if \<not> on r \<or> type r = SECONDARY then Inr (max_i, max)
      else bindE (slack_at m i) (\<lambda>s. if dlt max s then Inr (i, s) else Inr (max_i, max)))"
  have "?f (int i) s = Inr (scan_step (\<lambda>a b. dlt b a) (slack_cand m) i s)" if "i < n" for i s
    using assms that
    by (cases s) (auto simp: tasks_in_range_def row_of_nat slack_at_def slack_cand_def Let_def)
  from foldE_scan[of n ?f, OF this]
  show ?thesis using assms unfolding find_max_slack_def by (simp add: tasks_in_range_def split_beta)
qed

lemma find_victim_scan:
  assumes "tasks_in_range m n"
  shows "find_victim m = Inr (fst (fold (scan_step (\<lambda>a b. a > b) (usage_cand ALLOC m)) [0..<n] (- 1, 0)))"
proof -
  let ?f = "\<lambda>i (max_i, us). bindE (row (r_table m) i) (\<lambda>r.
      if \<not> on r then Inr (max_i, us)
      else bindE (dir_at m i) (\<lambda>d.
        if d = ALLOC then Inr (max_i, us)
        else if type r = LATENCY then Inr (max_i, us)
        else if usage (cache r) > us then Inr (i, usage (cache r))
        else Inr (max_i, us)))"
  have "?f (int i) s = Inr (scan_step (\<lambda>a b. a > b) (usage_cand ALLOC m) i s)" if "i < n" for i s
    using assms that
    by (cases s) (auto simp: tasks_in_range_def row_of_nat dir_at_def usage_cand_def Let_def)
  from foldE_scan[of n ?f, OF this]
  show ?thesis using assms unfolding find_victim_def by (simp add: tasks_in_range_def split_beta)
qed

definition receiver_cand :: "mon \<Rightarrow> nat \<Rightarrow> dbl option" where
  "receiver_cand m i =
     (case usage_cand RET m i of
        None \<Rightarrow> None
      | Some u \<Rightarrow> if dlt (dbl_of_int u) (dbl_lit (7 / 10)) then None else Some (dbl_of_int u))"

lemma find_reciever_scan:
  assumes "tasks_in_range m n"
  shows "find_reciever m =
    Inr (fst (fold (scan_step (\<lambda>a b. dlt b a) (receiver_cand m)) [0..<n] (- 1, dbl_of_int 0)))"
proof -
  let ?f = "\<lambda>i (max_i, max_usage). bindE (row (r_table m) i) (\<lambda>r.
      if \<not> on r then Inr (max_i, max_usage)
      else bindE (dir_at m i) (\<lambda>d.
        if d = RET then Inr (max_i, max_usage)
        else if type r = LATENCY then Inr (max_i, max_usage)
        else
          let us = dbl_of_int (usage (cache r))
          in if dlt us (dbl_lit (7 / 10)) then Inr (max_i, max_usage)
             else if dlt max_usage us then Inr (i, us)
             else Inr (max_i, max_usage)))"
  have "?f (int i) s = Inr (scan_step (\<lambda>a b. dlt b a) (receiver_cand m) i s)" if "i < n" for i s
    using assms that
    by (cases s) (auto simp: tasks_in_range_def row_of_nat dir_at_def usage_cand_def receiver_cand_def Let_def)
  from foldE_scan[of n ?f, OF this]
  show ?thesis using assms unfolding find_reciever_def by (simp add: tasks_in_range_def split_beta)
qed

text \<open>
  Property C13: the slack searches return the first active latency-critical task with the
  least slack below 100, and the first one with the greatest slack above -100, or -1
  when there is none. No access is out of range, and a slack that is not a number
  is never chosen.
\<close>

theorem slack_searches_correct:
  assumes "tasks_in_range m n"
  shows "\<exists>i j. find_min_slack m = Inr i \<and> scan_result dlt (slack_cand m) (dbl_of_int 100) n i \<and>
    find_max_slack m = Inr j \<and> scan_result (\<lambda>a b. dlt b a) (slack_cand m) (dbl_of_int (- 100)) n j"
  using find_min_slack_scan[OF assms] find_max_slack_scan[OF assms]
    lowest.scan_correct[of "slack_cand m" "dbl_of_int 100" n]
    highest.scan_correct[of "slack_cand m" "dbl_of_int (- 100)" n] by blast

theorem slack_searches_correct_witness:
  "\<exists>i j. find_min_slack sample_mon = Inr i \<and> scan_result dlt (slack_cand sample_mon) (dbl_of_int 100) 1 i \<and>
    find_max_slack sample_mon = Inr j"
proof -
  have "tasks_in_range sample_mon 1" by (simp add: tasks_in_range_def sample_mon_def)
  from slack_searches_correct[OF this] show ?thesis by blast
qed



section \<open>Searches without a candidate\<close>

lemma scan_no_candidate:
  assumes "\<And>i v. i < n \<Longrightarrow> cand i = Some v \<Longrightarrow> \<not> better v v0"
  shows "fold (scan_step better cand) [0..<n] (- 1, v0) = (- 1, v0)"
  using assms
proof (induction n)
  case (Suc n)
  have "fold (scan_step better cand) [0..<n] (- 1, v0) = (- 1, v0)"
    using Suc.IH Suc.prems by (meson less_SucI)
  then show ?case using Suc.prems[of n] by (auto split: option.splits)
qed simp

lemma unused_not_chosen:
  assumes "tasks_in_range m n" "\<And>i. i < n \<Longrightarrow> usage (cache (r_table m ! i)) \<le> 0"
  shows "find_victim m = Inr (- 1)" and "find_reciever m = Inr (- 1)"
proof -
  have "fold (scan_step (\<lambda>a b. a > b) (usage_cand ALLOC m)) [0..<n] (- 1, 0) = (- 1, 0)"
    using assms(2) by (intro scan_no_candidate) (force simp: usage_cand_def Let_def split: if_splits)
  then show "find_victim m = Inr (- 1)" using find_victim_scan[OF assms(1)] by simp
  have p: "0 < rnd53 (7 / 10)" by (rule rnd53_pos) simp
  have z: "receiver_cand m i = None" if "i < n" for i
  proof -
    have "rnd53 (of_int (usage (cache (r_table m ! i)))) \<le> 0"
      using assms(2)[OF that] by (intro rnd53_nonpos) simp
    then show ?thesis using p
      by (auto simp: receiver_cand_def usage_cand_def Let_def dbl_of_int_def dbl_lit_def)
  qed
  have "fold (scan_step (\<lambda>a b. dlt b a) (receiver_cand m)) [0..<n] (- 1, dbl_of_int 0) = (- 1, dbl_of_int 0)"
    by (intro scan_no_candidate) (simp add: z)
  then show "find_reciever m = Inr (- 1)" using find_reciever_scan[OF assms(1)] by simp
qed

end
