(* ===== verification/Monitor_Config.thy ===== *)
theory Monitor_Config
  imports Monitor
begin

text \<open>
  The configuration file: what a well-formed file makes of the table, and what
  the start-up code makes of it.
\<close>

section \<open>Well-formed files\<close>

record task_entry =
  ent_id :: nat
  ent_name :: string
  ent_kind :: string
  ent_qos :: nat

definition plain_word :: "string \<Rightarrow> bool" where
  "plain_word w \<longleftrightarrow> w \<noteq> [] \<and> CHR '' '' \<notin> set w \<and> CHR 0x0A \<notin> set w \<and> NUL \<notin> set w"

definition is_latency :: "task_entry \<Rightarrow> bool" where
  "is_latency e \<longleftrightarrow> ent_id e = 0 \<and> ent_kind e = ''latency''"

text \<open>The text of a line without its newline.\<close>

definition entry_text :: "task_entry \<Rightarrow> string" where
  "entry_text e = decimal (ent_id e) @ CHR '' '' # ent_name e @ CHR '' '' # ent_kind e @
     (if is_latency e then CHR '' '' # decimal (ent_qos e) else [])"

definition entry_ok :: "task_entry \<Rightarrow> bool" where
  "entry_ok e \<longleftrightarrow> ent_id e < TABLE_SIZE \<and> plain_word (ent_name e) \<and> plain_word (ent_kind e) \<and>
     ent_qos e < 2 ^ 32 \<and> length (entry_text e) < 199"

definition file_text :: "task_entry list \<Rightarrow> string" where
  "file_text es = concat (map (\<lambda>e. entry_text e @ [CHR 0x0A]) es)"

definition apply_entry :: "task_entry \<Rightarrow> table \<Rightarrow> table" where
  "apply_entry e t = t[ent_id e := (t ! ent_id e)\<lparr>
     task_name := take 39 (ent_name e),
     type := if is_latency e then LATENCY else SECONDARY,
     stat := if is_latency e then (stat (t ! ent_id e))\<lparr>qos := of_nat (ent_qos e)\<rparr> else stat (t ! ent_id e),
     cache_limit := False\<rparr>]"

section \<open>One line\<close>

lemma plain_decimal: "plain_word (decimal n)"
  by (simp add: plain_word_def decimal_plain)

lemma entry_text_plain:
  assumes "entry_ok e"
  shows "CHR 0x0A \<notin> set (entry_text e)" "NUL \<notin> set (entry_text e)"
  using assms plain_decimal[of "ent_id e"] plain_decimal[of "ent_qos e"]
  by (auto simp: entry_text_def entry_ok_def plain_word_def NUL_def)

lemma entry_tokens:
  assumes "entry_ok e"
  shows "\<exists>r1 r2 r3. strtok (entry_text e) = (Some (decimal (ent_id e)), r1) \<and>
    strtok r1 = (Some (ent_name e), r2) \<and> strtok r2 = (Some (ent_kind e), r3) \<and>
    (is_latency e \<longrightarrow> fst (strtok r3) = Some (decimal (ent_qos e)))"
proof -
  have w: "ent_name e \<noteq> []" "CHR '' '' \<notin> set (ent_name e)" "ent_kind e \<noteq> []" "CHR '' '' \<notin> set (ent_kind e)"
    using assms by (simp_all add: entry_ok_def plain_word_def)
  note d = decimal_plain(4,1)
  show ?thesis
    by (cases "is_latency e")
      (simp_all add: entry_text_def strtok_word[OF d] strtok_word[OF w(1,2)] strtok_word[OF w(3,4)])
qed

lemma config_line_entry:
  assumes "entry_ok e" "length (r_table m) = TABLE_SIZE" "nr_task (t_info m) < 2 ^ 31 - 1"
  shows "config_line (entry_text e @ [CHR 0x0A]) m =
    Inr (m\<lparr>r_table := apply_entry e (r_table m), t_info := (t_info m)\<lparr>nr_task := nr_task (t_info m) + 1\<rparr>\<rparr>)"
proof -
  let ?s = "entry_text e @ [CHR 0x0A]" and ?i = "ent_id e"
  have s: "c_str ?s = ?s" "butlast ?s = entry_text e"
    using entry_text_plain(2)[OF assms(1)] by (auto simp: c_str_def takeWhile_eq_all_conv NUL_def)
  obtain r1 r2 r3 where t: "strtok (entry_text e) = (Some (decimal ?i), r1)"
    "strtok r1 = (Some (ent_name e), r2)" "strtok r2 = (Some (ent_kind e), r3)"
    "is_latency e \<longrightarrow> fst (strtok r3) = Some (decimal (ent_qos e))"
    using entry_tokens[OF assms(1)] by blast
  have i: "?i < length (r_table m)" "atoi (decimal ?i) = int ?i"
    using assms(1,2) by (simp_all add: entry_ok_def TABLE_SIZE_def atoi_decimal)
  have q: "ucast (strtoull (decimal (ent_qos e))) = (of_nat (ent_qos e) :: u32)"
    using assms(1)
    by (intro unat_eqD)
      (simp add: entry_ok_def strtoull_decimal unsigned_ucast_eq take_bit_eq_mod unat_of_nat)
  have ty: "(if int ?i \<noteq> 0 then SECONDARY else if ent_kind e = ''latency'' then LATENCY else SECONDARY) =
      (if is_latency e then LATENCY else SECONDARY)" by (simp add: is_latency_def)
  obtain tok4 r4 where t4: "strtok r3 = (tok4, r4)" by (cases "strtok r3")
  show ?thesis
    unfolding config_line_def Let_def s t(1-3) t4 split_conv orFault.simps bindE.simps i(2) ty
    using assms(3) i(1) t(4) t4
    by (auto simp: upd_row_of_nat q apply_entry_def)
qed

section \<open>The whole file\<close>

lemma length_apply_entry [simp]: "length (apply_entry e t) = length t"
  by (simp add: apply_entry_def)

lemma config_loop_file:
  assumes "list_all entry_ok es" "length (r_table m) = TABLE_SIZE"
    and "nr_task (t_info m) + int (length es) < 2 ^ 31"
  shows "config_loop (file_text es) m = Inr (m\<lparr>r_table := fold apply_entry es (r_table m),
    t_info := (t_info m)\<lparr>nr_task := nr_task (t_info m) + int (length es)\<rparr>\<rparr>)"
  using assms
proof (induction es arbitrary: m)
  case Nil
  then show ?case by (simp add: file_text_def config_loop.simps)
next
  case (Cons e es)
  have e: "entry_ok e" using Cons.prems by simp
  have f: "file_text (e # es) = entry_text e @ CHR 0x0A # file_text es" by (simp add: file_text_def)
  have g: "fgets 199 (file_text (e # es)) = (entry_text e @ [CHR 0x0A], file_text es)"
    unfolding f using e entry_text_plain(1)[OF e] by (intro fgets_line) (simp_all add: entry_ok_def)
  have n: "file_text (e # es) \<noteq> []" by (simp add: f)
  have l: "nr_task (t_info m) < 2 ^ 31 - 1" using Cons.prems(3) by simp
  show ?case
    unfolding config_loop.simps[of "file_text (e # es)"] g fst_conv snd_conv
      config_line_entry[OF e Cons.prems(2) l] bindE.simps
    using n Cons.IH[of "m\<lparr>r_table := apply_entry e (r_table m),
        t_info := (t_info m)\<lparr>nr_task := nr_task (t_info m) + 1\<rparr>\<rparr>"] Cons.prems
    by (simp add: algebra_simps)
qed

text \<open>
  Property C9: reading a configuration file. Every file of lines \<open>id name kind\<close>,
  with a latency target after the kind \<open>latency\<close> of task 0, is read without a fault, and the
  table is the one the entries describe: names cut to 39 characters, only task 0
  latency-critical, targets as written, one task counted per line.
\<close>

theorem config_file_read:
  assumes "list_all entry_ok es" "length (r_table m) = TABLE_SIZE"
    and "nr_task (t_info m) + int (length es) < 2 ^ 31"
  shows "config_loop (file_text es) m = Inr (m\<lparr>r_table := fold apply_entry es (r_table m),
    t_info := (t_info m)\<lparr>nr_task := nr_task (t_info m) + int (length es)\<rparr>\<rparr>)"
  by (rule config_loop_file[OF assms])

definition sample_entries :: "task_entry list" where
  "sample_entries = [\<lparr>ent_id = 0, ent_name = ''db'', ent_kind = ''latency'', ent_qos = 120\<rparr>,
                     \<lparr>ent_id = 1, ent_name = ''batch'', ent_kind = ''be'', ent_qos = 0\<rparr>]"

definition blank_mon :: mon where
  "blank_mon = \<lparr>r_table = replicate TABLE_SIZE zero_resource, t_info = init_task_info 0 0,
     slack = [], r_dir = []\<rparr>"

lemma sample_entries_ok: "list_all entry_ok sample_entries"
  by (simp add: sample_entries_def entry_ok_def entry_text_def is_latency_def plain_word_def
      TABLE_SIZE_def NUL_def decimal.simps)

theorem config_file_read_witness:
  "config_loop (file_text sample_entries) blank_mon = Inr (blank_mon\<lparr>
     r_table := fold apply_entry sample_entries (r_table blank_mon),
     t_info := (t_info blank_mon)\<lparr>nr_task := 2\<rparr>\<rparr>)"
proof -
  have "length (r_table blank_mon) = TABLE_SIZE"
    "nr_task (t_info blank_mon) + int (length sample_entries) < 2 ^ 31"
    by (simp_all add: blank_mon_def sample_entries_def init_task_info_def)
  from config_file_read[OF sample_entries_ok this] show ?thesis
    by (simp add: blank_mon_def sample_entries_def init_task_info_def)
qed

section \<open>A last line without a newline\<close>

lemma fgets_last:
  assumes "CHR 0x0A \<notin> set l" "length l \<le> n"
  shows "fgets n l = (l, [])"
  using assms
proof (induction l arbitrary: n)
  case (Cons c l)
  then show ?case by (cases n) auto
qed simp

lemma config_line_newline:
  assumes "s \<noteq> []" "NUL \<notin> set s"
  shows "config_line s m = config_line (butlast s @ [CHR 0x0A]) m"
proof -
  have "c_str s = s" "c_str (butlast s @ [CHR 0x0A]) = butlast s @ [CHR 0x0A]"
    using assms by (auto simp: c_str_def takeWhile_eq_all_conv NUL_def dest: in_set_butlastD)
  then show ?thesis using assms(1) by (simp add: config_line_def)
qed

text \<open>
  The code overwrites the last character of every line, newline or not. A
  configuration file that ends without a newline is read as if the last
  character of its last line were missing: a target of 120 becomes 12.
\<close>

theorem unterminated_line_cut:
  assumes "s \<noteq> []" "CHR 0x0A \<notin> set s" "NUL \<notin> set s" "length s \<le> 199"
  shows "config_loop s m = config_loop (butlast s @ [CHR 0x0A]) m"
proof -
  have a: "fgets 199 s = (s, [])" using assms by (intro fgets_last) simp_all
  have b: "fgets 199 (butlast s @ CHR 0x0A # []) = (butlast s @ [CHR 0x0A], [])"
    using assms by (intro fgets_line) (auto dest: in_set_butlastD simp: length_butlast)
  show ?thesis
    unfolding config_loop.simps[of s] config_loop.simps[of "butlast s @ [CHR 0x0A]"]
    using a b assms config_line_newline[of s m] by simp
qed

theorem unterminated_line_cut_witness:
  "config_loop ''0 db latency 120'' blank_mon = config_loop (''0 db latency 12'' @ [CHR 0x0A]) blank_mon"
  using unterminated_line_cut[of "''0 db latency 120''" blank_mon] by (simp add: NUL_def)

section \<open>Start-up\<close>

lemma table_pos: "0 < TABLE_SIZE"
  by (simp add: TABLE_SIZE_def)

lemma length_apply_entries [simp]: "length (fold apply_entry es t) = length t"
  by (induction es arbitrary: t) simp_all

lemma buckets_apply_entries:
  "i < length t \<Longrightarrow> tb (fold apply_entry es t ! i) = tb (t ! i) \<and>
     request_tb (fold apply_entry es t ! i) = request_tb (t ! i)"
proof (induction es arbitrary: t)
  case (Cons e es)
  then show ?case by (cases "i = ent_id e") (simp_all add: apply_entry_def)
qed simp

lemma cache_apply_entries:
  "i < length t \<Longrightarrow> cache (fold apply_entry es t ! i) = cache (t ! i)"
proof (induction es arbitrary: t)
  case (Cons e es)
  then show ?case by (cases "i = ent_id e") (simp_all add: apply_entry_def)
qed simp

definition init_row :: "resource \<Rightarrow> resource" where
  "init_row r = r\<lparr>allocated_bandwidth := INIT_BANDWIDTH, allocated_qps := 50, on := False\<rparr>"

lemma foldE_upd_rows:
  assumes "n \<le> length t"
  shows "foldE (\<lambda>i t. upd_row t i f) (map int [0..<n]) t = Inr (map f (take n t) @ drop n t)"
  using assms
proof (induction n)
  case (Suc n)
  have "(map f (take n t) @ drop n t)[n := f ((map f (take n t) @ drop n t) ! n)] =
      map f (take (Suc n) t) @ drop (Suc n) t"
    using Suc.prems by (simp add: nth_append list_update_append take_Suc_conv_app_nth flip: Cons_nth_drop_Suc)
  then show ?case using Suc by (simp add: foldE_append upd_row_of_nat)
qed simp

lemma init_resource_rows:
  assumes "nr_task (t_info m) = int n" "n \<le> length (r_table m)"
  shows "init_resource m = Inr (m\<lparr>r_table := map init_row (take n (r_table m)) @ drop n (r_table m)\<rparr>)"
proof -
  have "(\<lambda>r. r\<lparr>allocated_bandwidth := INIT_BANDWIDTH, allocated_qps := 50, on := False\<rparr>) = init_row"
    by (simp add: init_row_def fun_eq_iff)
  then show ?thesis
    using assms foldE_upd_rows[OF assms(2), of init_row] by (simp add: init_resource_def indices_def)
qed

lemma monitor_running:
  assumes "config_path (parse_options args) = Some path" "fopen path = Some (file_text es)"
    and "list_all entry_ok es" "es \<noteq> []" "length es \<le> TABLE_SIZE"
  shows "\<exists>m. monitor_main fopen True True True args = Inr (Running m) \<and>
    nr_task (t_info m) = int (length es) \<and> length (r_table m) = TABLE_SIZE \<and>
    slack m = replicate (length es) (DFin 0) \<and> r_dir m = replicate (length es) BOTH \<and>
    (\<forall>i < length es. \<not> on (r_table m ! i) \<and> allocated_qps (r_table m ! i) = 50) \<and>
    tb (r_table m ! 0) = init_token_bucket zero_bucket INIT_BANDWIDTH BURST_SIZE \<and>
    request_tb (r_table m ! 0) = init_token_bucket zero_bucket INIT_REQUEST_RATE 64 \<and>
    (\<forall>i < TABLE_SIZE. usage (cache (r_table m ! i)) = 0)"
proof -
  let ?opt = "parse_options args"
  let ?t = "fold apply_entry es (replicate TABLE_SIZE zero_resource)"
  let ?m = "\<lparr>r_table = replicate TABLE_SIZE zero_resource,
    t_info = init_task_info (opt_bandwidth ?opt) (opt_qps ?opt), slack = [], r_dir = []\<rparr>"
  let ?m1 = "?m\<lparr>r_table := ?t, t_info := (t_info ?m)\<lparr>nr_task := int (length es)\<rparr>\<rparr>"
  have l: "length ?t = TABLE_SIZE" by simp
  have c: "config_loop (file_text es) ?m = Inr ?m1"
    using config_loop_file[OF assms(3), of ?m] assms(5) by (simp add: init_task_info_def TABLE_SIZE_def)
  have b: "tb (?t ! 0) = zero_bucket \<and> request_tb (?t ! 0) = zero_bucket"
    using buckets_apply_entries[where es = es and t = "replicate TABLE_SIZE zero_resource" and i = 0]
    by (simp add: TABLE_SIZE_def zero_resource_def)
  have z: "\<forall>i < TABLE_SIZE. usage (cache (?t ! i)) = 0"
    using cache_apply_entries[where es = es and t = "replicate TABLE_SIZE zero_resource"]
    by (simp add: zero_resource_def)
  let ?f = "\<lambda>r. r\<lparr>tb := init_token_bucket (tb r) INIT_BANDWIDTH BURST_SIZE,
                 request_tb := init_token_bucket (request_tb r) INIT_REQUEST_RATE 64\<rparr>"
  let ?t2 = "?t[0 := ?f (?t ! 0)]"
  have u: "upd_row ?t 0 ?f = Inr ?t2" using upd_row_of_nat[of 0 ?t ?f] l by (simp add: TABLE_SIZE_def)
  let ?m2 = "?m1\<lparr>r_table := ?t2, slack := replicate (length es) (DFin 0), r_dir := replicate (length es) BOTH\<rparr>"
  have i: "init_resource ?m2 =
      Inr (?m2\<lparr>r_table := map init_row (take (length es) ?t2) @ drop (length es) ?t2\<rparr>)"
    using init_resource_rows[of ?m2 "length es"] assms(5) l by simp
  have "monitor_main fopen True True True args =
      Inr (Running (?m2\<lparr>r_table := map init_row (take (length es) ?t2) @ drop (length es) ?t2\<rparr>))"
    using c u i by (simp add: monitor_main_def assms(1,2) Let_def)
  then show ?thesis
    using assms(4,5) l b z by (auto simp: nth_append init_row_def table_pos nth_list_update)
qed



text \<open>
  The number of lines is not compared with the size of the table. A
  well-formed configuration with more than \<open>TABLE_SIZE\<close> lines, even for few tasks,
  makes start-up write past the end of the shared table.
\<close>

theorem too_many_lines:
  assumes "config_path (parse_options args) = Some path" "fopen path = Some (file_text es)"
    and "list_all entry_ok es" "TABLE_SIZE < length es" "length es < 2 ^ 31"
  shows "monitor_main fopen True True True args = Inl OutOfBounds"
proof -
  let ?opt = "parse_options args"
  let ?t = "fold apply_entry es (replicate TABLE_SIZE zero_resource)"
  let ?m = "\<lparr>r_table = replicate TABLE_SIZE zero_resource,
    t_info = init_task_info (opt_bandwidth ?opt) (opt_qps ?opt), slack = [], r_dir = []\<rparr>"
  let ?m1 = "?m\<lparr>r_table := ?t, t_info := (t_info ?m)\<lparr>nr_task := int (length es)\<rparr>\<rparr>"
  have l: "length ?t = TABLE_SIZE" by simp
  have c: "config_loop (file_text es) ?m = Inr ?m1"
    using config_loop_file[OF assms(3), of ?m] assms(5) by (simp add: init_task_info_def)
  have u: "\<exists>t2. upd_row ?t 0 f = Inr t2 \<and> length t2 = TABLE_SIZE" for f
    using upd_row_of_nat[of 0 ?t f] l by (simp add: TABLE_SIZE_def)
  have i: "init_resource m = Inl OutOfBounds"
    if "length (r_table m) = TABLE_SIZE" "nr_task (t_info m) = int (length es)" for m
  proof -
    have s: "indices (int (length es)) = map int [0..<TABLE_SIZE] @ map int [TABLE_SIZE..<length es]"
      using assms(4) upt_add_eq_append[of 0 TABLE_SIZE "length es - TABLE_SIZE"]
      by (simp add: indices_def flip: map_append)
    have r: "[TABLE_SIZE..<length es] = TABLE_SIZE # [Suc TABLE_SIZE..<length es]"
      using assms(4) by (simp add: upt_conv_Cons)
    show ?thesis
      unfolding init_resource_def that(2) s foldE_append
      by (simp add: foldE_upd_rows that(1) r upd_row_outside)
  qed
  obtain t2 where "upd_row ?t 0 (\<lambda>r. r\<lparr>tb := init_token_bucket (tb r) INIT_BANDWIDTH BURST_SIZE,
                 request_tb := init_token_bucket (request_tb r) INIT_REQUEST_RATE 64\<rparr>) = Inr t2"
    "length t2 = TABLE_SIZE" using u by blast
  then show ?thesis using c i by (simp add: monitor_main_def assms(1,2) Let_def)
qed

theorem too_many_lines_witness:
  "monitor_main (\<lambda>path. Some (file_text (replicate 101 \<lparr>ent_id = 1, ent_name = ''batch'', ent_kind = ''be'',
     ent_qos = 0\<rparr>))) True True True [''-p'', ''tasks''] = Inl OutOfBounds"
proof -
  let ?e = "\<lparr>ent_id = 1, ent_name = ''batch'', ent_kind = ''be'', ent_qos = 0\<rparr>"
  have "entry_ok ?e" using sample_entries_ok by (simp add: sample_entries_def)
  then have "list_all entry_ok (replicate 101 ?e)" by (simp add: list_all_length)
  moreover have "config_path (parse_options [''-p'', ''tasks'']) = Some ''tasks''"
    by (simp add: parse_options_def)
  ultimately show ?thesis
    using too_many_lines[of "[''-p'', ''tasks'']" "''tasks''" "\<lambda>path. Some (file_text (replicate 101 ?e))"
        "replicate 101 ?e"] by (simp only: length_replicate TABLE_SIZE_def) simp
qed

end
