(* ===== verification/Isolation.thy ===== *)
theory Isolation
  imports Verbs_Iso Monitor_Choice Monitor_Config
begin

text \<open>
  The whole system: the monitor process and any number of tenants on one shared
  table, as a transition system whose steps are the operations of the two programs.
  A step that faults is not a step: the invariants below hold in every state that a
  run without a fault can reach.
\<close>

section \<open>Steps\<close>

record sys =
  sys_mon :: mon
  tenants :: "nat \<Rightarrow> tenant"

abbreviation table_of :: "sys \<Rightarrow> table" where
  "table_of s \<equiv> r_table (sys_mon s)"

definition with_table :: "sys \<Rightarrow> table \<Rightarrow> sys" where
  "with_table s t = s\<lparr>sys_mon := (sys_mon s)\<lparr>r_table := t\<rparr>\<rparr>"

definition my_cache :: "cache_op \<Rightarrow> table \<Rightarrow> int option \<Rightarrow> fault + table" where
  "my_cache x t res = (case res of None \<Rightarrow> Inl NullDeref
     | Some i \<Rightarrow> bindE (row t i) (\<lambda>r. bindE (cache_exec x (cache r)) (\<lambda>c. upd_row t i (\<lambda>r. r\<lparr>cache := c\<rparr>))))"

inductive sys_step :: "sys \<Rightarrow> sys \<Rightarrow> bool" where
  attach: "ibverbs_init env fd True sysfs err (table_of s) (tenants s j) = Inr (ret, t, p) \<Longrightarrow>
    sys_step s ((with_table s t)\<lparr>tenants := (tenants s)(j := p)\<rparr>)"
| report_lat: "report_latency (table_of s) (my_res (tenants s j)) med tl_lat ts = Inr t \<Longrightarrow>
    sys_step s (with_table s t)"
| report_band: "report_bw (table_of s) (my_res (tenants s j)) bw ts = Inr t \<Longrightarrow> sys_step s (with_table s t)"
| create: "ibv_create_qp create_qp (table_of s) (tenants s j) pd attr = Inr (qp, t) \<Longrightarrow>
    sys_step s (with_table s t)"
| post: "ibv_post_send post_send clk k (table_of s) (tenants s j) qp wrs = Some (Inr (k', t, ret)) \<Longrightarrow>
    sys_step s (with_table s t)"
| use_cache: "my_cache x (table_of s) (my_res (tenants s j)) = Inr t \<Longrightarrow> sys_step s (with_table s t)"
| network: "network_monitor_step (sys_mon s) = Inr m \<Longrightarrow> sys_step s (s\<lparr>sys_mon := m\<rparr>)"
| slacks: "monitor_step (sys_mon s) = Inr m \<Longrightarrow> sys_step s (s\<lparr>sys_mon := m\<rparr>)"
| retrieve: "retrieve_resource ratio (sys_mon s) = Inr m \<Longrightarrow> sys_step s (s\<lparr>sys_mon := m\<rparr>)"
| alloc: "alloc_resource ratio (sys_mon s) = Inr m \<Longrightarrow> sys_step s (s\<lparr>sys_mon := m\<rparr>)"

definition sys_start :: "sys \<Rightarrow> bool" where
  "sys_start s \<longleftrightarrow> (\<exists>fopen args path es. config_path (parse_options args) = Some path \<and>
     fopen path = Some (file_text es) \<and> list_all entry_ok es \<and> es \<noteq> [] \<and> length es \<le> TABLE_SIZE \<and>
     monitor_main fopen True True True args = Inr (Running (sys_mon s))) \<and>
   (\<forall>j. tenants s j = fresh_tenant)"

section \<open>The invariant\<close>

text \<open>The buckets of row 0: consistent with their rates, the request bucket at its fixed rate.\<close>

definition buckets_ok :: "resource \<Rightarrow> bool" where
  "buckets_ok r \<longleftrightarrow> tb_consistent (tb r) \<and> burst_size (tb r) = BURST_SIZE \<and>
     tb_consistent (request_tb r) \<and> tb_rate (request_tb r) = INIT_REQUEST_RATE \<and>
     burst_size (request_tb r) = 64 \<and>
     - 1 \<le> next_bucket (tb r) \<and> next_bucket (tb r) < 16 \<and>
     - 1 \<le> next_bucket (request_tb r) \<and> next_bucket (request_tb r) < 16"

definition table_ok :: "table \<Rightarrow> bool" where
  "table_ok t \<longleftrightarrow> length t = TABLE_SIZE \<and> buckets_ok (t ! 0) \<and> (\<forall>r \<in> set t. usage (cache r) \<le> 0)"

definition sys_inv :: "sys \<Rightarrow> bool" where
  "sys_inv s \<longleftrightarrow> table_ok (table_of s) \<and> (\<exists>n. tasks_in_range (sys_mon s) n \<and> 0 < n)"

section \<open>Rows\<close>

lemma table_ok_upd:
  assumes "table_ok t" "i < length t" "usage (cache r) \<le> 0" "i = 0 \<longrightarrow> buckets_ok r"
  shows "table_ok (t[i := r])"
proof -
  have "usage (cache x) \<le> 0" if "x \<in> set (t[i := r])" for x
    using that set_update_subset_insert[of t i r] assms(1,3) unfolding table_ok_def by blast
  moreover have "buckets_ok (t[i := r] ! 0)" using assms by (cases "i = 0") (simp_all add: table_ok_def)
  ultimately show ?thesis using assms(1) by (simp add: table_ok_def)
qed

lemma table_ok_row: "table_ok t \<Longrightarrow> i < length t \<Longrightarrow> usage (cache (t ! i)) \<le> 0"
  by (simp add: table_ok_def)

lemma table_ok_upd_row:
  assumes "table_ok t" "upd_row t i f = Inr t'"
    and "\<And>r. buckets_ok r \<Longrightarrow> buckets_ok (f r)" "\<And>r. usage (cache r) \<le> 0 \<Longrightarrow> usage (cache (f r)) \<le> 0"
  shows "table_ok t'"
proof -
  have i: "nat i < length t" and t': "t' = t[nat i := f (t ! nat i)]" using assms(2) by (auto simp: upd_row_Inr)
  show ?thesis unfolding t'
    using assms(1,3,4) i table_ok_row[OF assms(1) i] by (intro table_ok_upd) (auto simp: table_ok_def)
qed

lemma table_ok_my_row:
  assumes "table_ok t" "my_row t res f = Inr t'"
    and "\<And>r. buckets_ok r \<Longrightarrow> buckets_ok (f r)" "\<And>r. usage (cache r) \<le> 0 \<Longrightarrow> usage (cache (f r)) \<le> 0"
  shows "table_ok t'"
  using assms by (auto simp: my_row_def intro: table_ok_upd_row split: option.splits)

section \<open>Waiting keeps the configuration of a bucket\<close>

definition keeps :: "token_bucket \<Rightarrow> token_bucket \<Rightarrow> bool" where
  "keeps x y \<longleftrightarrow> tb_rate y = tb_rate x \<and> burst_size y = burst_size x \<and> time_per_token y = time_per_token x \<and>
     time_per_burst y = time_per_burst x \<and> next_bucket y = next_bucket x \<and>
     length (buckets y) = length (buckets x)"

lemma keeps_refl: "keeps x x"
  by (simp add: keeps_def)

lemma keeps_trans: "keeps x y \<Longrightarrow> keeps y z \<Longrightarrow> keeps x z"
  by (simp add: keeps_def)

lemma keeps_consume: "consume now x tokens b = Inr (ok, y) \<Longrightarrow> keeps x y"
  by (simp add: keeps_def consume_config)

definition result_keeps :: "token_bucket \<Rightarrow> fault + nat \<times> token_bucket \<times> int \<Rightarrow> bool" where
  "result_keeps x res \<longleftrightarrow> (\<forall>k y b. res = Inr (k, y, b) \<longrightarrow> keeps x y)"

lemma result_keeps_consume_wait:
  assumes "consume_wait clk tokens k x b = Some res" shows "result_keeps x res"
proof (rule consume_wait.raw_induct[where P = "\<lambda>clk tokens k x b res. result_keeps x res", OF _ assms])
  fix cw :: "(nat \<Rightarrow> u64) \<Rightarrow> u64 \<Rightarrow> nat \<Rightarrow> token_bucket \<Rightarrow> int \<Rightarrow> (fault + nat \<times> token_bucket \<times> int) option"
    and clk tokens k x b res
  assume ih: "\<And>clk tokens k x b res. cw clk tokens k x b = Some res \<Longrightarrow> result_keeps x res"
    and r: "(case consume (clk k) x tokens b of Inl e \<Rightarrow> Some (Inl e)
      | Inr (ok, x') \<Rightarrow> if ok then Some (Inr (Suc k, x', b))
          else cw clk tokens (Suc k) x' ((b + 1) smod int NR_BUCKET)) = Some res"
  show "result_keeps x res"
  proof (cases "consume (clk k) x tokens b")
    case (Inl e)
    then show ?thesis using r by (auto simp: result_keeps_def)
  next
    case (Inr p)
    obtain ok y where p: "p = (ok, y)" by (cases p)
    have y: "keeps x y" using Inr p by (auto intro: keeps_consume)
    show ?thesis
    proof (cases ok)
      case True
      then show ?thesis using r Inr p y by (auto simp: result_keeps_def)
    next
      case False
      then have "result_keeps y res" using r Inr p ih by auto
      then show ?thesis using y keeps_trans unfolding result_keeps_def by blast
    qed
  qed
qed

lemma keeps_consume_wait: "consume_wait clk tokens k x b = Some (Inr (k', y, b')) \<Longrightarrow> keeps x y"
  using result_keeps_consume_wait by (auto simp: result_keeps_def)

lemma keeps_wait_repeat:
  "wait_repeat n clk tokens k x b = Some (Inr (k', y, b')) \<Longrightarrow> keeps x y"
  by (induction n clk tokens k x b rule: wait_repeat.induct)
     (auto simp: keeps_refl dest: keeps_consume_wait intro: keeps_trans split: option.splits sum.splits)

lemma keeps_wait_for_token:
  assumes "wait_for_token clk tokens k x b = Some (Inr (k', y))" shows "keeps x y"
  using assms unfolding wait_for_token_def
  by (auto simp: map_sum_Inr split: sum.splits option.splits prod.splits if_splits
      dest!: keeps_wait_repeat keeps_consume_wait intro: keeps_trans)

lemma keeps_wait_for_request_token:
  assumes "wait_for_request_token clk k x b = Some (Inr (k', y))" shows "keeps x y"
  using assms unfolding wait_for_request_token_def
  by (auto simp: map_sum_Inr dest!: keeps_consume_wait)

lemma buckets_ok_keeps:
  assumes "buckets_ok r" "keeps (tb r) x" "keeps (request_tb r) y"
  shows "buckets_ok (r\<lparr>tb := x, request_tb := y\<rparr>)"
  using assms by (simp add: buckets_ok_def keeps_def tb_consistent_def)

section \<open>Every step keeps the invariant\<close>

lemma table_ok_post:
  assumes "table_ok t" "ibv_post_send post_send clk k t p qp wrs = Some (Inr (k', t', ret))"
  shows "table_ok t'"
proof (cases "t' = t")
  case False
  then obtain x y k1 sz where t': "t' = t[0 := (t ! 0)\<lparr>tb := x, request_tb := y\<rparr>]"
    and w: "wait_for_request_token clk k (request_tb (t ! 0)) (local_bucket_index qp) = Some (Inr (k1, y))"
      "wait_for_token clk sz k1 (tb (t ! 0)) (bucket_index qp) = Some (Inr (k', x))"
    using assms(2) unfolding ibv_post_send_def
    by (auto simp: bindE_Inr row_Inr split: sum.splits option.splits prod.splits if_splits)
  have l: "0 < length t" and b: "buckets_ok (t ! 0)" using assms(1) by (simp_all add: table_ok_def TABLE_SIZE_def)
  show ?thesis
    unfolding t' using assms(1) l table_ok_row[OF assms(1) l]
      buckets_ok_keeps[OF b keeps_wait_for_token[OF w(2)] keeps_wait_for_request_token[OF w(1)]]
    by (intro table_ok_upd) simp_all
qed (use assms(1) in simp)

lemma table_ok_create:
  assumes "table_ok t" "ibv_create_qp create_qp t p pd attr = Inr (qp, t')"
  shows "table_ok t'"
proof (cases "t' = t")
  case False
  let ?g = "get_base_bucket (tb (t ! 0))" and ?l = "get_base_bucket (request_tb (t ! 0))"
  have t': "t' = t[0 := (t ! 0)\<lparr>tb := snd ?g, request_tb := snd ?l\<rparr>]"
    using False assms(2)
    by (auto simp: ibv_create_qp_def take_base_buckets_def bindE_Inr row_Inr split: option.splits if_splits prod.splits)
  have b: "buckets_ok (t ! 0)" and l: "0 < length t" using assms(1) by (simp_all add: table_ok_def TABLE_SIZE_def)
  have "buckets_ok ((t ! 0)\<lparr>tb := snd ?g, request_tb := snd ?l\<rparr>)"
    using b by (simp add: buckets_ok_def get_base_bucket_next tb_consistent_def order_trans[OF _ pos_mod_sign])
  then show ?thesis
    unfolding t' using assms(1) l table_ok_row[OF assms(1) l] by (intro table_ok_upd) simp_all
qed (use assms(1) in simp)

lemma cache_exec_usage_le:
  assumes "cache_exec x c = Inr c'" "usage c \<le> 0" shows "usage c' \<le> 0"
  using assms
  by (cases x) (auto simp: cache_find_or_insert_def cache_insert_def cache_delete_def cache_flush_def
      cache_find_def spin_lock_def spin_unlock_def set_entry_def bindE_Inr split: if_splits)

lemma table_ok_cache:
  assumes "table_ok t" "my_cache x t res = Inr t'" shows "table_ok t'"
proof -
  obtain i where r: "res = Some i" using assms(2) by (cases res) (auto simp: my_cache_def)
  then have i: "nat i < length t" using assms(2) by (auto simp: my_cache_def bindE_Inr row_Inr)
  obtain c where c: "cache_exec x (cache (t ! nat i)) = Inr c"
    and t': "t' = t[nat i := (t ! nat i)\<lparr>cache := c\<rparr>]"
    using assms(2) r by (auto simp: my_cache_def bindE_Inr row_Inr upd_row_Inr)
  show ?thesis
    unfolding t' using assms(1) i cache_exec_usage_le[OF c table_ok_row[OF assms(1) i]]
    by (intro table_ok_upd) (auto simp: table_ok_def buckets_ok_def)
qed

lemma table_ok_attach:
  assumes "table_ok t" "ibverbs_init env fd ok sysfs err t p = Inr (ret, t', p')" shows "table_ok t'"
proof -
  obtain a t1 p1 where i: "init_resource_table env fd ok t p = Inr (a, t1, p1)"
    and m: "my_row t1 (my_res p1) (\<lambda>r. r\<lparr>on := True\<rparr>) = Inr t'"
    using assms(2) by (auto simp: ibverbs_init_def bindE_Inr Let_def)
  have "table_ok t1"
    using i assms(1) unfolding init_resource_table_def
    by (auto simp: bindE_Inr Let_def buckets_ok_def init_qp_cache_def split: option.splits if_splits
        elim!: table_ok_upd_row)
  then show ?thesis using table_ok_my_row[OF _ m] by (simp add: buckets_ok_def)
qed

lemma table_ok_report:
  assumes "table_ok t"
  shows "report_latency t res med tl_lat ts = Inr t' \<Longrightarrow> table_ok t'"
    and "report_bw t res bw ts = Inr t' \<Longrightarrow> table_ok t'"
  unfolding report_latency_def report_bw_def
  by (rule table_ok_my_row[OF assms], assumption, simp_all add: buckets_ok_def)+

lemma table_ok_rate:
  assumes "table_ok t" "upd_row t 0 (\<lambda>r. r\<lparr>tb := f (tb r)\<rparr>) = Inr t'"
    and "f \<in> {\<lambda>x. set_rate x v, \<lambda>x. up_rate x v, \<lambda>x. down_rate x v}"
  shows "table_ok t'"
proof (rule table_ok_upd_row[OF assms(1,2)])
  show "buckets_ok (r\<lparr>tb := f (tb r)\<rparr>)" if "buckets_ok r" for r
    using that assms(3)
    by (auto simp: buckets_ok_def tb_consistent_def set_rate_def up_rate_def down_rate_def Let_def)
qed simp

lemma cal_slack_frame:
  assumes "foldE cal_slack_body xs m = Inr m'"
  shows "r_table m' = r_table m \<and> t_info m' = t_info m \<and> r_dir m' = r_dir m \<and>
    length (slack m') = length (slack m)"
  using assms
proof (induction xs arbitrary: m)
  case (Cons x xs)
  then obtain m1 where m1: "cal_slack_body x m = Inr m1" "foldE cal_slack_body xs m1 = Inr m'"
    by (auto simp: bindE_Inr)
  have "r_table m1 = r_table m \<and> t_info m1 = t_info m \<and> r_dir m1 = r_dir m \<and> length (slack m1) = length (slack m)"
    using m1(1) unfolding cal_slack_body_def Let_def by (auto simp only: bindE_Inr sum.inject split: if_splits) simp_all
  with Cons.IH[OF m1(2)] show ?case by simp
qed simp

lemma sys_inv_table_ok: "sys_inv s \<Longrightarrow> table_ok (table_of s)"
  by (simp add: sys_inv_def)

lemma sys_inv_table:
  assumes "sys_inv s" "table_ok t"
  shows "sys_inv (with_table s t)" "sys_inv ((with_table s t)\<lparr>tenants := ts\<rparr>)"
  using assms by (auto simp: sys_inv_def with_table_def tasks_in_range_def table_ok_def)

lemma sys_inv_mon:
  assumes "sys_inv s" "table_ok (r_table m)" "t_info m = t_info (sys_mon s)" "r_dir m = r_dir (sys_mon s)"
    "length (slack m) = length (slack (sys_mon s))"
  shows "sys_inv (s\<lparr>sys_mon := m\<rparr>)"
  using assms by (auto simp: sys_inv_def tasks_in_range_def table_ok_def)

lemma sys_inv_step: "sys_step s s' \<Longrightarrow> sys_inv s \<Longrightarrow> sys_inv s'"
proof (induction rule: sys_step.induct)
  case (network s m)
  then obtain v t where t: "upd_row (table_of s) 0 (\<lambda>r. r\<lparr>tb := set_rate (tb r) v\<rparr>) = Inr t"
    and m: "m = (sys_mon s)\<lparr>r_table := t\<rparr>"
    by (auto simp: network_monitor_step_def bindE_Inr)
  have "table_ok t" using network.prems t
    by (auto simp: sys_inv_def intro: table_ok_rate[of _ "\<lambda>x. set_rate x v"])
  then show ?case using sys_inv_mon[OF network.prems, of m] m by simp
next
  case (retrieve ratio s m)
  then obtain v t where t: "upd_row (table_of s) 0 (\<lambda>r. r\<lparr>tb := down_rate (tb r) v\<rparr>) = Inr t"
    and m: "m = (sys_mon s)\<lparr>r_table := t\<rparr>"
    by (auto simp: retrieve_resource_def bindE_Inr)
  have "table_ok t" using retrieve.prems t
    by (auto simp: sys_inv_def intro: table_ok_rate[of _ "\<lambda>x. down_rate x v"])
  then show ?case using sys_inv_mon[OF retrieve.prems, of m] m by simp
next
  case (alloc ratio s m)
  then obtain v t where t: "upd_row (table_of s) 0 (\<lambda>r. r\<lparr>tb := up_rate (tb r) v\<rparr>) = Inr t"
    and m: "m = (sys_mon s)\<lparr>r_table := t\<rparr>"
    by (auto simp: alloc_resource_def bindE_Inr)
  have "table_ok t" using alloc.prems t
    by (auto simp: sys_inv_def intro: table_ok_rate[of _ "\<lambda>x. up_rate x v"])
  then show ?case using sys_inv_mon[OF alloc.prems, of m] m by simp
next
  case (slacks s m)
  then consider "m = sys_mon s" | "cal_slack (sys_mon s) = Inr m"
    by (auto simp: monitor_step_def bindE_Inr split: if_splits)
  then show ?case
  proof cases
    case 2
    from cal_slack_frame[OF this[unfolded cal_slack_def]] slacks.prems
    show ?thesis by (intro sys_inv_mon) (auto simp: sys_inv_def)
  qed (use slacks.prems in simp)
qed (blast intro: sys_inv_table table_ok_attach table_ok_report table_ok_create table_ok_post table_ok_cache
    dest: sys_inv_table_ok)+

lemma sys_inv_start:
  assumes "sys_start s" shows "sys_inv s"
proof -
  obtain fopen args path es where st: "config_path (parse_options args) = Some path"
    "fopen path = Some (file_text es)" "list_all entry_ok es" "es \<noteq> []" "length es \<le> TABLE_SIZE"
    and run: "monitor_main fopen True True True args = Inr (Running (sys_mon s))"
    using assms by (auto simp: sys_start_def)
  from monitor_running[where fopen = fopen, OF st] run have m: "nr_task (t_info (sys_mon s)) = int (length es)"
    "length (table_of s) = TABLE_SIZE" "slack (sys_mon s) = replicate (length es) (DFin 0)"
    "r_dir (sys_mon s) = replicate (length es) BOTH"
    "tb (table_of s ! 0) = init_token_bucket zero_bucket INIT_BANDWIDTH BURST_SIZE"
    "request_tb (table_of s ! 0) = init_token_bucket zero_bucket INIT_REQUEST_RATE 64"
    "\<forall>i < TABLE_SIZE. usage (cache (table_of s ! i)) = 0" by auto
  have "buckets_ok (table_of s ! 0)"
    using m(5,6) by (simp add: buckets_ok_def tb_consistent_init) (simp add: init_token_bucket_def Let_def)
  then show ?thesis
    using m(1-4,7) st(4,5) by (auto simp: sys_inv_def table_ok_def tasks_in_range_def in_set_conv_nth)
qed

interpretation isolation: transition_inv sys_start sys_step sys_inv
  by unfold_locales (auto intro: sys_inv_start sys_inv_step)


text \<open>
  Property C11: the monitor never finds a task to move cache space from or to. Since the usage
  counters never rise above zero, in every reachable state both searches return -1.
\<close>

theorem no_victim_no_receiver:
  assumes "sys_start s" "sys_step\<^sup>*\<^sup>* s s'"
  shows "find_victim (sys_mon s') = Inr (- 1) \<and> find_reciever (sys_mon s') = Inr (- 1)"
proof -
  have inv: "sys_inv s'" by (rule isolation.reach_inv[OF assms])
  then obtain n where n: "tasks_in_range (sys_mon s') n" by (auto simp: sys_inv_def)
  have l: "n \<le> length (table_of s')" using n by (simp add: tasks_in_range_def)
  have u: "usage (cache (table_of s' ! i)) \<le> 0" if "i < n" for i
    by (rule table_ok_row[OF sys_inv_table_ok[OF inv] less_le_trans[OF that l]])
  show ?thesis by (intro conjI unused_not_chosen[OF n]) (erule u)+
qed

lemma sample_sys_run: "\<exists>s s'. sys_start s \<and> sys_step s s' \<and> tenants s' 0 \<noteq> tenants s 0"
proof -
  let ?fopen = "\<lambda>path. Some (file_text sample_entries)" and ?args = "[''-p'', ''tasks'']"
  have st: "config_path (parse_options ?args) = Some ''tasks''" "?fopen ''tasks'' = Some (file_text sample_entries)"
    "list_all entry_ok sample_entries" "sample_entries \<noteq> []" "length sample_entries \<le> TABLE_SIZE"
    using sample_entries_ok by (simp_all add: parse_options_def sample_entries_def TABLE_SIZE_def)
  from monitor_running[where fopen = ?fopen, OF st] obtain m where
    m: "monitor_main ?fopen True True True ?args = Inr (Running m)" "length (r_table m) = TABLE_SIZE" by blast
  let ?s = "\<lparr>sys_mon = m, tenants = \<lambda>j. fresh_tenant\<rparr>"
  have "sys_start ?s" unfolding sys_start_def
    using st m(1) by (intro conjI exI[of _ ?fopen] exI[of _ ?args] exI[of _ "''tasks''"] exI[of _ sample_entries]) simp_all
  moreover have "(1 :: nat) < length (r_table m)" using m(2) by (simp add: TABLE_SIZE_def)
  then obtain t p where "ibverbs_init (\<lambda>v. Some (decimal 1)) 3 True True 0 (r_table m) fresh_tenant = Inr (0, t, p)"
    "my_res p = Some 1"
    using ibverbs_init_row[of "\<lambda>v. Some (decimal 1)" 1 "r_table m" 3 True 0 fresh_tenant] by auto
  then have "sys_step ?s ((with_table ?s t)\<lparr>tenants := (tenants ?s)(0 := p)\<rparr>)" "p \<noteq> fresh_tenant"
    using sys_step.attach[of "\<lambda>v. Some (decimal 1)" 3 True 0 ?s 0 0 t p] by (auto simp: fresh_tenant_def)
  ultimately show ?thesis by fastforce
qed


theorem no_victim_no_receiver_witness:
  "\<exists>s s'. sys_start s \<and> sys_step s s' \<and> tenants s' 0 \<noteq> tenants s 0 \<and> find_victim (sys_mon s') = Inr (- 1)"
  using sample_sys_run no_victim_no_receiver r_into_rtranclp[of sys_step] by metis

section \<open>Tenants outside the configuration\<close>

lemma type_apply_entries:
  "i < length t \<Longrightarrow> \<forall>e \<in> set es. ent_id e \<noteq> i \<Longrightarrow> type (fold apply_entry es t ! i) = type (t ! i)"
  by (induction es arbitrary: t) (simp_all add: apply_entry_def)

text \<open>
  Property C38: a row the configuration does not mention is all zeros, and zero is the type
  \<open>LATENCY\<close>. A tenant that gives the number of such a row is therefore treated as
  latency-critical: none of its posts is ever held back.
\<close>

theorem unlisted_tenant_not_gated:
  assumes "list_all entry_ok es" "length es < 2 ^ 31" "\<forall>e \<in> set es. ent_id e \<noteq> i" "i < TABLE_SIZE"
  shows "\<exists>m. config_loop (file_text es) blank_mon = Inr m \<and>
    (\<forall>p. my_res p = Some (int i) \<longrightarrow>
       ibv_post_send post_send clk k (r_table m) p qp wrs = Some (Inr (k, r_table m, post_send qp wrs)))"
proof -
  let ?t = "fold apply_entry es (replicate TABLE_SIZE zero_resource)"
  have "config_loop (file_text es) blank_mon = Inr (blank_mon\<lparr>r_table := ?t,
      t_info := (t_info blank_mon)\<lparr>nr_task := int (length es)\<rparr>\<rparr>)"
    using config_loop_file[OF assms(1), of blank_mon] assms(2)
    by (simp add: blank_mon_def init_task_info_def)
  moreover have "type (?t ! i) = LATENCY"
    using type_apply_entries[of i "replicate TABLE_SIZE zero_resource" es] assms(3,4) by (simp add: zero_resource_def)
  moreover have "ibv_post_send post_send clk k ?t p qp wrs = Some (Inr (k, ?t, post_send qp wrs))"
    if "my_res p = Some (int i)" "type (?t ! i) = LATENCY" for p
    using that assms(4) by (simp add: ibv_post_send_def my_task_type_def row_def)
  ultimately show ?thesis by simp
qed

theorem unlisted_tenant_not_gated_witness:
  "\<exists>m. config_loop (file_text sample_entries) blank_mon = Inr m \<and>
     ibv_post_send (\<lambda>qp wrs. 0) sample_clk 0 (r_table m) (fresh_tenant\<lparr>my_res := Some (int 5)\<rparr>) sample_qp [] =
       Some (Inr (0, r_table m, 0))"
proof -
  have "length sample_entries < 2 ^ 31" "\<forall>e \<in> set sample_entries. ent_id e \<noteq> 5" "5 < TABLE_SIZE"
    by (simp_all add: sample_entries_def TABLE_SIZE_def)
  from unlisted_tenant_not_gated[OF sample_entries_ok this, of "\<lambda>qp wrs. 0" sample_clk 0 sample_qp "[]"]
  show ?thesis by force
qed

end
