(* ===== verification/Devx.thy ===== *)
theory Devx
  imports Prelude
begin

text \<open>
  Layouts of device structures and the accessors of their fields:
  the macros \<open>__devx_*\<close> and \<open>DEVX_*\<close> of \<open>providers/mlx5/mlx5dv.h\<close>. A structure
  \<open>mlx5_ifc_*_bits\<close> declares one array of \<open>u8\<close> per field whose length is the width of the field in
  bits, so that \<open>sizeof\<close> and \<open>offsetof\<close> count bits. A layout is the list of its
  members; a member \<open>reserved_at_x\<close> carries the offset in its name.
\<close>

named_theorems ifc_facts "sizes and alignment of the layouts of device structures"

section \<open>Layouts\<close>

datatype member =
    Reserved nat nat
  | Fld string nat
  | Arr string nat nat
  | Struct string "member list"
  | Union string "member list"

type_synonym layout = "member list"

text \<open>\<open>sizeof\<close>, in bits.\<close>

fun member_bits :: "member \<Rightarrow> nat" and layout_bits :: "layout \<Rightarrow> nat" and union_bits :: "layout \<Rightarrow> nat" where
  "member_bits (Reserved n w) = w"
| "member_bits (Fld s w) = w"
| "member_bits (Arr s n w) = n * w"
| "member_bits (Struct s l) = layout_bits l"
| "member_bits (Union s l) = union_bits l"
| "layout_bits [] = 0"
| "layout_bits (m # ms) = member_bits m + layout_bits ms"
| "union_bits [] = 0"
| "union_bits (m # ms) = max (member_bits m) (union_bits ms)"

text \<open>
  Member designators, \<open>a.b[2].c\<close>, and the offset and size of the member they
  name. Every step of the path selects a member, with an index for an element of an array.
\<close>

datatype sel = Name string | Elem string nat

fun locate_member :: "nat \<Rightarrow> member \<Rightarrow> sel list \<Rightarrow> (nat \<times> nat) option"
  and locate :: "nat \<Rightarrow> layout \<Rightarrow> sel list \<Rightarrow> (nat \<times> nat) option"
  and locate_union :: "nat \<Rightarrow> layout \<Rightarrow> sel list \<Rightarrow> (nat \<times> nat) option" where
  "locate_member off (Reserved n w) p = None"
| "locate_member off (Fld s w) p = (if p = [Name s] then Some (off, w) else None)"
| "locate_member off (Arr s n w) p =
     (case p of
        [Name s'] \<Rightarrow> if s' = s then Some (off, n * w) else None
      | [Elem s' i] \<Rightarrow> if s' = s \<and> i < n then Some (off + i * w, w) else None
      | _ \<Rightarrow> None)"
| "locate_member off (Struct s l) p =
     (case p of
        Name s' # p' \<Rightarrow> if s' \<noteq> s then None else if p' = [] then Some (off, layout_bits l) else locate off l p'
      | _ \<Rightarrow> None)"
| "locate_member off (Union s l) p =
     (case p of
        Name s' # p' \<Rightarrow> if s' \<noteq> s then None else if p' = [] then Some (off, union_bits l)
                      else locate_union off l p'
      | _ \<Rightarrow> None)"
| "locate off [] p = None"
| "locate off (m # ms) p =
     (case locate_member off m p of Some r \<Rightarrow> Some r | None \<Rightarrow> locate (off + member_bits m) ms p)"
| "locate_union off [] p = None"
| "locate_union off (m # ms) p =
     (case locate_member off m p of Some r \<Rightarrow> Some r | None \<Rightarrow> locate_union off ms p)"

section \<open>Accessors\<close>

text \<open>The dword at an index of a buffer of bytes, in network byte order.\<close>

definition be32_get :: "u8 list \<Rightarrow> nat \<Rightarrow> fault + u32" where
  "be32_get buf d =
     (if 4 * d + 4 \<le> length buf then
        Inr (push_bit 24 (ucast (buf ! (4 * d))) OR push_bit 16 (ucast (buf ! (4 * d + 1))) OR
             push_bit 8 (ucast (buf ! (4 * d + 2))) OR ucast (buf ! (4 * d + 3)))
      else Inl OutOfBounds)"

definition be32_put :: "u8 list \<Rightarrow> nat \<Rightarrow> u32 \<Rightarrow> fault + u8 list" where
  "be32_put buf d x =
     (if 4 * d + 4 \<le> length buf then
        Inr (buf[4 * d := ucast (drop_bit 24 x), 4 * d + 1 := ucast (drop_bit 16 x),
                 4 * d + 2 := ucast (drop_bit 8 x), 4 * d + 3 := ucast x])
      else Inl OutOfBounds)"

definition devx_dw_off :: "nat \<Rightarrow> nat" where
  "devx_dw_off bit_off = bit_off div 32"

text \<open>
  The distance of a field from the low end of its dword. The subtraction is done in
  \<open>size_t\<close>; where it wraps around, the shift by the result is undefined.
\<close>

definition devx_dw_bit_off :: "nat \<Rightarrow> nat \<Rightarrow> fault + nat" where
  "devx_dw_bit_off bit_sz bit_off =
     (if bit_sz + bit_off mod 32 \<le> 32 \<and> 0 < bit_sz then Inr (32 - bit_sz - bit_off mod 32) else Inl BadShift)"

definition devx_mask :: "nat \<Rightarrow> u32" where
  "devx_mask bit_sz = ucast (push_bit bit_sz 1 - 1 :: u64)"

definition devx_set :: "u8 list \<Rightarrow> u32 \<Rightarrow> nat \<Rightarrow> nat \<Rightarrow> fault + u8 list" where
  "devx_set p v bit_off bit_sz =
     bindE (devx_dw_bit_off bit_sz bit_off) (\<lambda>sh.
     bindE (be32_get p (devx_dw_off bit_off)) (\<lambda>x.
     be32_put p (devx_dw_off bit_off)
       ((x AND NOT (push_bit sh (devx_mask bit_sz))) OR push_bit sh (v AND devx_mask bit_sz))))"

definition devx_get :: "u8 list \<Rightarrow> nat \<Rightarrow> nat \<Rightarrow> fault + u32" where
  "devx_get p bit_off bit_sz =
     bindE (devx_dw_bit_off bit_sz bit_off) (\<lambda>sh.
     bindE (be32_get p (devx_dw_off bit_off)) (\<lambda>x.
     Inr (drop_bit sh x AND devx_mask bit_sz)))"

text \<open>A designator that names no member does not compile; it has no result here.\<close>

definition DEVX_SET :: "layout \<Rightarrow> u8 list \<Rightarrow> sel list \<Rightarrow> u32 \<Rightarrow> (fault + u8 list) option" where
  "DEVX_SET typ p fld v = map_option (\<lambda>(off, sz). devx_set p v off sz) (locate 0 typ fld)"

definition DEVX_GET :: "layout \<Rightarrow> u8 list \<Rightarrow> sel list \<Rightarrow> (fault + u32) option" where
  "DEVX_GET typ p fld = map_option (\<lambda>(off, sz). devx_get p off sz) (locate 0 typ fld)"

definition DEVX_ST_SZ_BYTES :: "layout \<Rightarrow> nat" where
  "DEVX_ST_SZ_BYTES typ = layout_bits typ div 8"

definition DEVX_ST_SZ_DW :: "layout \<Rightarrow> nat" where
  "DEVX_ST_SZ_DW typ = layout_bits typ div 32"

section \<open>Words of a buffer\<close>

lemma be32_put_length: "be32_put buf d x = Inr buf' \<Longrightarrow> length buf' = length buf"
  by (auto simp: be32_put_def split: if_splits)

lemma be32_bytes:
  "push_bit 24 (ucast (ucast (drop_bit 24 x) :: u8)) OR push_bit 16 (ucast (ucast (drop_bit 16 x) :: u8)) OR
      push_bit 8 (ucast (ucast (drop_bit 8 x) :: u8)) OR ucast (ucast x :: u8) = (x :: u32)" (is "?l = x")
proof (rule bit_word_eqI)
  fix n assume "n < LENGTH(32)"
  then consider "n < 8" | "8 \<le> n" "n < 16" | "16 \<le> n" "n < 24" | "24 \<le> n" "n < 32" by fastforce
  then show "bit ?l n = bit x n" by cases (auto simp: bit_simps)
qed

lemma be32_get_put:
  assumes "be32_put buf d x = Inr buf'"
  shows "be32_get buf' d = Inr x"
proof -
  have l: "4 * d + 4 \<le> length buf"
    and b: "buf' = buf[4 * d := ucast (drop_bit 24 x), 4 * d + 1 := ucast (drop_bit 16 x),
                 4 * d + 2 := ucast (drop_bit 8 x), 4 * d + 3 := ucast x]"
    using assms by (auto simp: be32_put_def split: if_splits)
  have "buf' ! (4 * d) = ucast (drop_bit 24 x)" "buf' ! (4 * d + 1) = ucast (drop_bit 16 x)"
    "buf' ! (4 * d + 2) = ucast (drop_bit 8 x)" "buf' ! (4 * d + 3) = ucast x"
    using l by (simp_all add: b)
  then show ?thesis using l be32_bytes[of x] by (simp add: be32_get_def b)
qed

lemma be32_get_put_other:
  assumes "be32_put buf d x = Inr buf'" "e \<noteq> d"
  shows "be32_get buf' e = be32_get buf e"
proof -
  have n: "4 * d \<noteq> 4 * e + j" "4 * d + 1 \<noteq> 4 * e + j" "4 * d + 2 \<noteq> 4 * e + j" "4 * d + 3 \<noteq> 4 * e + j"
    if "j < 4" for j
    using assms(2) that by (cases d e rule: linorder_cases; simp)+
  have "buf' ! (4 * e + j) = buf ! (4 * e + j)" if "j < 4" for j
    using assms(1) n[OF that] by (auto simp: be32_put_def split: if_splits)
  from this[of 0] this[of 1] this[of 2] this[of 3] show ?thesis
    using be32_put_length[OF assms(1)] by (simp add: be32_get_def)
qed

lemma bit_devx_mask: "n \<le> 32 \<Longrightarrow> bit (devx_mask n) k \<longleftrightarrow> k < n"
proof -
  assume n: "n \<le> 32"
  have "(push_bit n 1 - 1 :: u64) = mask n" by (simp add: mask_eq_exp_minus_1 push_bit_eq_mult)
  then show ?thesis using n by (auto simp: devx_mask_def bit_simps)
qed

text \<open>The new dword, as a word of which the field's bits come from the value.\<close>

definition dw_merge :: "u32 \<Rightarrow> u32 \<Rightarrow> nat \<Rightarrow> nat \<Rightarrow> u32" where
  "dw_merge x v sz sh = ((x AND NOT (push_bit sh (devx_mask sz))) OR push_bit sh (v AND devx_mask sz))"

lemma bit_dw_merge:
  assumes "sh + sz \<le> 32"
  shows "bit (dw_merge x v sz sh) n \<longleftrightarrow> (if sh \<le> n \<and> n < sh + sz then bit v (n - sh) else bit x n)"
proof -
  have "bit x n \<Longrightarrow> n < 32" using bit_imp_le_length[of x n] by simp
  then show ?thesis using assms by (auto simp: dw_merge_def bit_simps bit_devx_mask)
qed

lemma field_dw_merge:
  assumes "sh + sz \<le> 32"
  shows "drop_bit sh (dw_merge x v sz sh) AND devx_mask sz = v AND devx_mask sz"
  using assms by (intro bit_word_eqI) (auto simp: bit_and_iff bit_drop_bit_eq bit_dw_merge bit_devx_mask)

lemma other_dw_merge:
  assumes "sh + sz \<le> 32" "sh' + sz' \<le> 32" "sh + sz \<le> sh' \<or> sh' + sz' \<le> sh"
  shows "drop_bit sh' (dw_merge x v sz sh) AND devx_mask sz' = drop_bit sh' x AND devx_mask sz'"
  using assms by (intro bit_word_eqI) (auto simp: bit_and_iff bit_drop_bit_eq bit_dw_merge bit_devx_mask)

section \<open>Reading what was written\<close>

text \<open>A field inside one dword of a buffer.\<close>

definition accessible :: "u8 list \<Rightarrow> nat \<Rightarrow> nat \<Rightarrow> bool" where
  "accessible buf off sz \<longleftrightarrow> 0 < sz \<and> off mod 32 + sz \<le> 32 \<and> 4 * (off div 32) + 4 \<le> length buf"

lemma devx_set_defined:
  assumes "accessible buf off sz"
  obtains x buf' where "be32_get buf (off div 32) = Inr x" "devx_set buf v off sz = Inr buf'"
    "be32_get buf' (off div 32) =
       Inr (dw_merge x v sz (32 - sz - off mod 32))"
    "\<And>e. e \<noteq> off div 32 \<Longrightarrow> be32_get buf' e = be32_get buf e" "length buf' = length buf"
proof -
  obtain x where x: "be32_get buf (off div 32) = Inr x" using assms by (simp add: accessible_def be32_get_def)
  let ?y = "dw_merge x v sz (32 - sz - off mod 32)"
  obtain buf' where b: "be32_put buf (off div 32) ?y = Inr buf'"
    using assms by (simp add: accessible_def be32_put_def)
  have "devx_set buf v off sz = Inr buf'"
    using assms x b by (simp add: devx_set_def devx_dw_bit_off_def devx_dw_off_def accessible_def dw_merge_def)
  then show thesis using that x b be32_get_put[OF b] be32_get_put_other[OF b] be32_put_length[OF b] by blast
qed

lemma devx_get_defined:
  assumes "accessible buf off sz" "be32_get buf (off div 32) = Inr x"
  shows "devx_get buf off sz = Inr (drop_bit (32 - sz - off mod 32) x AND devx_mask sz)"
  using assms by (simp add: devx_get_def devx_dw_bit_off_def devx_dw_off_def accessible_def)

lemma devx_get_set:
  assumes "accessible buf off sz" "devx_set buf v off sz = Inr buf'"
  shows "devx_get buf' off sz = Inr (v AND devx_mask sz)"
proof -
  have a: "0 < sz" "off mod 32 + sz \<le> 32" using assms(1) by (simp_all add: accessible_def)
  obtain x buf'' where s: "be32_get buf (off div 32) = Inr x" "devx_set buf v off sz = Inr buf''"
    "be32_get buf'' (off div 32) =
       Inr (dw_merge x v sz (32 - sz - off mod 32))" "length buf'' = length buf"
    using devx_set_defined[OF assms(1)] by blast
  have "accessible buf' off sz" using assms s(2,4) by (simp add: accessible_def)
  from devx_get_defined[OF this] s(2,3) assms(2) show ?thesis
    using a by (simp add: field_dw_merge)
qed

text \<open>Two fields do not overlap.\<close>

definition apart :: "nat \<times> nat \<Rightarrow> nat \<times> nat \<Rightarrow> bool" where
  "apart f g \<longleftrightarrow> fst f + snd f \<le> fst g \<or> fst g + snd g \<le> fst f"

lemma devx_get_set_other:
  assumes "accessible buf off sz" "accessible buf off' sz'" "devx_set buf v off sz = Inr buf'"
    and "apart (off, sz) (off', sz')"
  shows "devx_get buf' off' sz' = devx_get buf off' sz'"
proof (cases "off' div 32 = off div 32")
  case False
  obtain buf'' where "devx_set buf v off sz = Inr buf''" "be32_get buf'' (off' div 32) = be32_get buf (off' div 32)"
    using devx_set_defined[OF assms(1)] False by metis
  then show ?thesis using assms(3) by (simp add: devx_get_def devx_dw_off_def)
next
  case True
  have a: "0 < sz" "off mod 32 + sz \<le> 32" "0 < sz'" "off' mod 32 + sz' \<le> 32"
    using assms(1,2) by (simp_all add: accessible_def)
  have o: "off = 32 * (off div 32) + off mod 32" "off' = 32 * (off div 32) + off' mod 32"
    using True by (metis mult_div_mod_eq)+
  then have c: "off mod 32 + sz \<le> off' mod 32 \<or> off' mod 32 + sz' \<le> off mod 32"
    using assms(4) unfolding apart_def fst_conv snd_conv by linarith
  obtain x buf'' where s: "be32_get buf (off div 32) = Inr x" "devx_set buf v off sz = Inr buf''"
    "be32_get buf'' (off div 32) =
       Inr (dw_merge x v sz (32 - sz - off mod 32))" "length buf'' = length buf"
    using devx_set_defined[OF assms(1)] by blast
  have "drop_bit (32 - sz' - off' mod 32) (dw_merge x v sz (32 - sz - off mod 32)) AND devx_mask sz' =
      drop_bit (32 - sz' - off' mod 32) x AND devx_mask sz'"
    using a c by (intro other_dw_merge) linarith+
  moreover have "accessible buf' off' sz'" using assms(2,3) s(2,4) by (simp add: accessible_def)
  ultimately show ?thesis
    using devx_get_defined[OF assms(2)] devx_get_defined[of buf' off' sz'] s(1,2,3) assms(3) True
    by simp
qed

section \<open>Well-formed layouts\<close>

text \<open>The offsets and sizes of the fields, elements of arrays and of nested structures included.\<close>

fun leaves_member :: "nat \<Rightarrow> member \<Rightarrow> (nat \<times> nat) list" and leaves :: "nat \<Rightarrow> layout \<Rightarrow> (nat \<times> nat) list"
  and leaves_union :: "nat \<Rightarrow> layout \<Rightarrow> (nat \<times> nat) list" where
  "leaves_member off (Reserved n w) = []"
| "leaves_member off (Fld s w) = [(off, w)]"
| "leaves_member off (Arr s n w) = map (\<lambda>i. (off + i * w, w)) [0..<n]"
| "leaves_member off (Struct s l) = leaves off l"
| "leaves_member off (Union s l) = leaves_union off l"
| "leaves off [] = []"
| "leaves off (m # ms) = leaves_member off m @ leaves (off + member_bits m) ms"
| "leaves_union off [] = []"
| "leaves_union off (m # ms) = leaves_member off m @ leaves_union off ms"

fun union_free_member :: "member \<Rightarrow> bool" and union_free :: "layout \<Rightarrow> bool" where
  "union_free_member (Struct s l) = union_free l"
| "union_free_member (Union s l) = False"
| "union_free_member (Reserved n w) = True"
| "union_free_member (Fld s w) = True"
| "union_free_member (Arr s n w) = True"
| "union_free [] = True"
| "union_free (m # ms) = (union_free_member m \<and> union_free ms)"

text \<open>
  Every field of at most 32 bits lies inside one dword, which is what the accessors need;
  nested structures start at a dword.
\<close>

fun member_ok :: "nat \<Rightarrow> member \<Rightarrow> bool" and layout_ok :: "nat \<Rightarrow> layout \<Rightarrow> bool"
  and union_ok :: "layout \<Rightarrow> bool" where
  "member_ok off (Reserved n w) = True"
| "member_ok off (Fld s w) = (w \<le> 32 \<longrightarrow> 0 < w \<and> off mod 32 + w \<le> 32)"
| "member_ok off (Arr s n w) = (w \<le> 32 \<longrightarrow> 0 < w \<and> w dvd 32 \<and> w dvd off)"
| "member_ok off (Struct s l) = (off mod 32 = 0 \<and> layout_ok 0 l)"
| "member_ok off (Union s l) = (off mod 32 = 0 \<and> union_ok l)"
| "layout_ok off [] = True"
| "layout_ok off (m # ms) = (member_ok off m \<and> layout_ok (off + member_bits m) ms)"
| "union_ok [] = True"
| "union_ok (m # ms) = (member_ok 0 m \<and> union_ok ms)"

text \<open>The offset in the name of a reserved member is its offset.\<close>

fun names_ok :: "nat \<Rightarrow> layout \<Rightarrow> bool" where
  "names_ok off [] = True"
| "names_ok off (m # ms) =
     ((case m of Reserved n w \<Rightarrow> n = off | _ \<Rightarrow> True) \<and> names_ok (off + member_bits m) ms)"

lemma leaves_within:
  "(o', w) \<in> set (leaves_member off m) \<Longrightarrow> off \<le> o' \<and> o' + w \<le> off + member_bits m"
  "(o', w) \<in> set (leaves off l) \<Longrightarrow> off \<le> o' \<and> o' + w \<le> off + layout_bits l"
  "(o', w) \<in> set (leaves_union off l) \<Longrightarrow> off \<le> o' \<and> o' + w \<le> off + union_bits l"
proof (induction off m and off l and off l rule: leaves_member_leaves_leaves_union.induct)
  case (3 off s n w')
  then obtain i where "i < n" "o' = off + i * w'" "w = w'" by auto
  moreover have "Suc i * w' \<le> n * w'" using \<open>i < n\<close> by (intro mult_le_mono1) simp
  ultimately show ?case by simp
qed auto

lemma leaves_apart:
  "union_free_member m \<Longrightarrow> f \<in> set (leaves_member off m) \<Longrightarrow> g \<in> set (leaves_member off m) \<Longrightarrow>
     fst f \<noteq> fst g \<Longrightarrow> apart f g"
  "union_free l \<Longrightarrow> f \<in> set (leaves off l) \<Longrightarrow> g \<in> set (leaves off l) \<Longrightarrow> fst f \<noteq> fst g \<Longrightarrow> apart f g"
  "f \<in> set (leaves_union off u) \<Longrightarrow> True"
proof (induction off m and off l and off u rule: leaves_member_leaves_leaves_union.induct)
  case (3 off s n w)
  then obtain i j where i: "f = (off + i * w, w)" and j: "g = (off + j * w, w)" and ne: "i \<noteq> j" by auto
  have "Suc i * w \<le> j * w" if "i < j" using that by (intro mult_le_mono1) simp
  moreover have "Suc j * w \<le> i * w" if "j < i" using that by (intro mult_le_mono1) simp
  ultimately show ?case using ne i j by (cases i j rule: linorder_cases) (auto simp: apart_def)
next
  case (7 off m ms)
  have b: "off \<le> fst h \<and> fst h + snd h \<le> off + member_bits m" if "h \<in> set (leaves_member off m)" for h
    using leaves_within(1)[of "fst h" "snd h" off m] that by simp
  have r: "off + member_bits m \<le> fst h" if "h \<in> set (leaves (off + member_bits m) ms)" for h
    using leaves_within(2)[of "fst h" "snd h" "off + member_bits m" ms] that by simp
  from "7.prems"(2,3) consider
    "f \<in> set (leaves_member off m)" "g \<in> set (leaves_member off m)"
    | "f \<in> set (leaves (off + member_bits m) ms)" "g \<in> set (leaves (off + member_bits m) ms)"
    | "f \<in> set (leaves_member off m)" "g \<in> set (leaves (off + member_bits m) ms)"
    | "g \<in> set (leaves_member off m)" "f \<in> set (leaves (off + member_bits m) ms)" by auto
  then show ?case
  proof cases
    case 1
    then show ?thesis using "7.IH"(1) "7.prems" by simp
  next
    case 2
    then show ?thesis using "7.IH"(2) "7.prems" by simp
  next
    case 3
    then show ?thesis using b[of f] r[of g] by (auto simp: apart_def)
  next
    case 4
    then show ?thesis using b[of g] r[of f] by (auto simp: apart_def)
  qed
qed auto

lemma dvd_inside_dword:
  assumes "w dvd x" "w dvd 32" "0 < w"
  shows "x mod 32 + w \<le> (32 :: nat)"
proof -
  have "w dvd x mod 32" using assms(1,2) by (simp add: dvd_mod)
  then have d: "w dvd 32 - x mod 32" using assms(2) by (rule dvd_diff_nat[rotated])
  moreover have "x mod 32 < 32" by simp
  ultimately have "w \<le> 32 - x mod 32" using dvd_imp_le[OF d] by linarith
  then show ?thesis using \<open>x mod 32 < 32\<close> by linarith
qed

lemma leaves_inside_dword:
  "member_ok k m \<Longrightarrow> k mod 32 = off mod 32 \<Longrightarrow> (o', w) \<in> set (leaves_member off m) \<Longrightarrow> w \<le> 32 \<Longrightarrow>
     0 < w \<and> o' mod 32 + w \<le> 32"
  "layout_ok k l \<Longrightarrow> k mod 32 = off mod 32 \<Longrightarrow> (o', w) \<in> set (leaves off l) \<Longrightarrow> w \<le> 32 \<Longrightarrow>
     0 < w \<and> o' mod 32 + w \<le> 32"
  "union_ok u \<Longrightarrow> off mod 32 = 0 \<Longrightarrow> (o', w) \<in> set (leaves_union off u) \<Longrightarrow> w \<le> 32 \<Longrightarrow>
     0 < w \<and> o' mod 32 + w \<le> 32"
proof (induction off m and off l and off u arbitrary: k and k and rule: leaves_member_leaves_leaves_union.induct)
  case (3 off s n w')
  then obtain i where i: "o' = off + i * w'" "w = w'" by auto
  have "w dvd 32" "0 < w" "w dvd k" using "3.prems" i by simp_all
  then have "w dvd k mod 32" by (simp add: dvd_mod)
  then have "w dvd off mod 32" using "3.prems"(2) by simp
  then have "w dvd off" using \<open>w dvd 32\<close> by (simp add: dvd_mod_iff)
  then have "w dvd o'" using i by simp
  from dvd_inside_dword[OF this \<open>w dvd 32\<close> \<open>0 < w\<close>] show ?case using \<open>0 < w\<close> by simp
next
  case (7 off m ms)
  have "(k + member_bits m) mod 32 = (off + member_bits m) mod 32"
    using "7.prems"(2) by (metis mod_add_left_eq)
  then show ?case using "7.IH"(1)[of k] "7.IH"(2)[of "k + member_bits m"] "7.prems" by auto
next
  case (9 off m ms)
  then show ?case by (metis layout_ok.simps leaves_union.simps(2) mod_0 set_append Un_iff union_ok.simps(2))
qed auto

text \<open>
  The contract of a well-formed layout: on a buffer that holds it, every field of at most 32 bits can
  be written, reads back its value, and leaves every other field as it was.
\<close>

lemma layout_accessible:
  assumes "layout_ok 0 l" "(o', w) \<in> set (leaves 0 l)" "w \<le> 32"
    and "layout_bits l \<le> 8 * length buf" "4 dvd length buf"
  shows "accessible buf o' w"
proof -
  have a: "0 < w" "o' mod 32 + w \<le> 32" using leaves_inside_dword(2)[OF assms(1) refl assms(2,3)] by simp_all
  have "o' + w \<le> layout_bits l" using leaves_within(2)[OF assms(2)] by simp
  then have "o' < 8 * length buf" using a(1) assms(4) by linarith
  moreover obtain n where n: "length buf = 4 * n" using assms(5) by blast
  ultimately have "o' div 32 < n" by (simp add: div_less_iff_less_mult)
  then show ?thesis using a n by (simp add: accessible_def)
qed

lemma devx_field_contract:
  assumes "layout_ok 0 l" "union_free l" "layout_bits l \<le> 8 * length buf" "4 dvd length buf"
    and "locate 0 l p = Some (o', w)" "(o', w) \<in> set (leaves 0 l)" "w \<le> 32"
  shows "\<exists>buf'. DEVX_SET l buf p v = Some (Inr buf') \<and> length buf' = length buf \<and>
    DEVX_GET l buf' p = Some (Inr (v AND devx_mask w)) \<and>
    (\<forall>q u w'. locate 0 l q = Some (u, w') \<longrightarrow> (u, w') \<in> set (leaves 0 l) \<longrightarrow> w' \<le> 32 \<longrightarrow> u \<noteq> o' \<longrightarrow>
       DEVX_GET l buf' q = DEVX_GET l buf q)"
proof -
  have a: "accessible buf o' w" by (rule layout_accessible[OF assms(1,6,7,3,4)])
  obtain buf' where b: "devx_set buf v o' w = Inr buf'" "length buf' = length buf"
    using devx_set_defined[OF a] by metis
  have "devx_get buf' u w' = devx_get buf u w'"
    if "(u, w') \<in> set (leaves 0 l)" "w' \<le> 32" "u \<noteq> o'" for u w'
    using devx_get_set_other[OF a layout_accessible[OF assms(1) that(1,2) assms(3,4)] b(1)]
      leaves_apart(2)[OF assms(2,6) that(1)] that(3) by simp
  then show ?thesis using b devx_get_set[OF a b(1)] assms(5) by (auto simp: DEVX_SET_def DEVX_GET_def)
qed

end
