(* ===== verification/Ifc_Caps.thy ===== *)
theory Ifc_Caps
  imports Devx
begin

text \<open>
  Layouts of the device structures of \<open>providers/mlx5/mlx5_ifc.h\<close>, in the order of the
  source: the flow tables, the
  match parameters and the device capabilities (lines 73 to 1178). Each
  definition lists the members of one structure with their widths in bits.
\<close>

section \<open>Layouts\<close>

definition mlx5_ifc_atomic_caps_bits :: layout where
  "mlx5_ifc_atomic_caps_bits = [
    Reserved 0x0 0x40, Fld ''atomic_req_8B_endianness_mode'' 0x2, Reserved 0x42 0x4,
    Fld ''supported_atomic_req_8B_endianness_mode_1'' 0x1, Reserved 0x47 0x19, Reserved 0x60 0x20,
    Reserved 0x80 0x10, Fld ''atomic_operations'' 0x10, Reserved 0xa0 0x10,
    Fld ''atomic_size_qp'' 0x10, Reserved 0xc0 0x10, Fld ''atomic_size_dc'' 0x10, Reserved 0xe0 0x1a0,
    Fld ''fetch_add_pci_atomic'' 0x10, Fld ''swap_pci_atomic'' 0x10,
    Fld ''compare_swap_pci_atomic'' 0x10, Reserved 0x2b0 0x550]"

definition mlx5_ifc_roce_cap_bits :: layout where
  "mlx5_ifc_roce_cap_bits = [
    Fld ''reserved_0'' 0x5, Fld ''fl_rc_qp_when_roce_disabled'' 0x1,
    Fld ''fl_rc_qp_when_roce_enabled'' 0x1, Reserved 0x7 0x818]"

definition mlx5_ifc_flow_table_context_bits :: layout where
  "mlx5_ifc_flow_table_context_bits = [
    Fld ''reformat_en'' 0x1, Fld ''decap_en'' 0x1, Fld ''sw_owner'' 0x1, Reserved 0x3 0x1,
    Fld ''table_miss_action'' 0x4, Fld ''level'' 0x8, Reserved 0x10 0x8, Fld ''log_size'' 0x8,
    Reserved 0x20 0x8, Fld ''table_miss_id'' 0x18, Reserved 0x40 0x8,
    Fld ''lag_master_next_table_id'' 0x18, Reserved 0x60 0x60, Fld ''sw_owner_icm_root_1'' 0x40,
    Fld ''sw_owner_icm_root_0'' 0x40]"

definition mlx5_ifc_create_flow_table_in_bits :: layout where
  "mlx5_ifc_create_flow_table_in_bits = [
    Fld ''opcode'' 0x10, Fld ''uid'' 0x10, Reserved 0x20 0x10, Fld ''op_mod'' 0x10,
    Fld ''other_vport'' 0x1, Reserved 0x41 0xf, Fld ''vport_number'' 0x10, Reserved 0x60 0x20,
    Fld ''table_type'' 0x8, Reserved 0x88 0x18, Reserved 0xa0 0x20,
    Struct ''flow_table_context'' mlx5_ifc_flow_table_context_bits]"

definition mlx5_ifc_create_flow_table_out_bits :: layout where
  "mlx5_ifc_create_flow_table_out_bits = [
    Fld ''status'' 0x8, Fld ''icm_address_63_40'' 0x18, Fld ''syndrome'' 0x20,
    Fld ''icm_address_39_32'' 0x8, Fld ''table_id'' 0x18, Fld ''icm_address_31_0'' 0x20]"

definition mlx5_ifc_sync_steering_in_bits :: layout where
  "mlx5_ifc_sync_steering_in_bits = [
    Fld ''opcode'' 0x10, Fld ''uid'' 0x10, Reserved 0x20 0x10, Fld ''op_mod'' 0x10, Reserved 0x40 0xc0]"

definition mlx5_ifc_sync_steering_out_bits :: layout where
  "mlx5_ifc_sync_steering_out_bits = [
    Fld ''status'' 0x8, Reserved 0x8 0x18, Fld ''syndrome'' 0x20, Reserved 0x40 0x40]"

definition mlx5_ifc_device_mem_cap_bits :: layout where
  "mlx5_ifc_device_mem_cap_bits = [
    Fld ''memic'' 0x1, Reserved 0x1 0x1f, Reserved 0x20 0xb, Fld ''log_min_memic_alloc_size'' 0x5,
    Reserved 0x30 0x8, Fld ''log_max_memic_addr_alignment'' 0x8, Fld ''memic_bar_start_addr'' 0x40,
    Fld ''memic_bar_size'' 0x20, Fld ''max_memic_size'' 0x20,
    Fld ''steering_sw_icm_start_address'' 0x40, Reserved 0x100 0x12,
    Fld ''log_sw_icm_alloc_granularity'' 0x6, Fld ''log_steering_sw_icm_size'' 0x8,
    Reserved 0x120 0x18, Fld ''log_header_modify_pattern_sw_icm_size'' 0x8,
    Fld ''header_modify_sw_icm_start_address'' 0x40, Reserved 0x180 0x40,
    Fld ''header_modify_pattern_sw_icm_start_address'' 0x40]"

definition mlx5_ifc_flow_table_fields_supported_bits :: layout where
  "mlx5_ifc_flow_table_fields_supported_bits = [
    Fld ''outer_dmac'' 0x1, Fld ''outer_smac'' 0x1, Fld ''outer_ether_type'' 0x1,
    Fld ''outer_ip_version'' 0x1, Fld ''outer_first_prio'' 0x1, Fld ''outer_first_cfi'' 0x1,
    Fld ''outer_first_vid'' 0x1, Fld ''outer_ipv4_ttl'' 0x1, Fld ''outer_second_prio'' 0x1,
    Fld ''outer_second_cfi'' 0x1, Fld ''outer_second_vid'' 0x1, Fld ''outer_ipv6_flow_label'' 0x1,
    Fld ''outer_sip'' 0x1, Fld ''outer_dip'' 0x1, Fld ''outer_frag'' 0x1,
    Fld ''outer_ip_protocol'' 0x1, Fld ''outer_ip_ecn'' 0x1, Fld ''outer_ip_dscp'' 0x1,
    Fld ''outer_udp_sport'' 0x1, Fld ''outer_udp_dport'' 0x1, Fld ''outer_tcp_sport'' 0x1,
    Fld ''outer_tcp_dport'' 0x1, Fld ''outer_tcp_flags'' 0x1, Fld ''outer_gre_protocol'' 0x1,
    Fld ''outer_gre_key'' 0x1, Fld ''outer_vxlan_vni'' 0x1, Fld ''outer_geneve_vni'' 0x1,
    Fld ''outer_geneve_oam'' 0x1, Fld ''outer_geneve_protocol_type'' 0x1,
    Fld ''outer_geneve_opt_len'' 0x1, Fld ''source_vhca_port'' 0x1, Fld ''source_eswitch_port'' 0x1,
    Fld ''inner_dmac'' 0x1, Fld ''inner_smac'' 0x1, Fld ''inner_ether_type'' 0x1,
    Fld ''inner_ip_version'' 0x1, Fld ''inner_first_prio'' 0x1, Fld ''inner_first_cfi'' 0x1,
    Fld ''inner_first_vid'' 0x1, Fld ''inner_ipv4_ttl'' 0x1, Fld ''inner_second_prio'' 0x1,
    Fld ''inner_second_cfi'' 0x1, Fld ''inner_second_vid'' 0x1, Fld ''inner_ipv6_flow_label'' 0x1,
    Fld ''inner_sip'' 0x1, Fld ''inner_dip'' 0x1, Fld ''inner_frag'' 0x1,
    Fld ''inner_ip_protocol'' 0x1, Fld ''inner_ip_ecn'' 0x1, Fld ''inner_ip_dscp'' 0x1,
    Fld ''inner_udp_sport'' 0x1, Fld ''inner_udp_dport'' 0x1, Fld ''inner_tcp_sport'' 0x1,
    Fld ''inner_tcp_dport'' 0x1, Fld ''inner_tcp_flags'' 0x1, Reserved 0x37 0x7,
    Fld ''metadata_reg_b'' 0x1, Fld ''metadata_reg_a'' 0x1, Reserved 0x40 0x5,
    Fld ''outer_first_mpls_over_udp_ttl'' 0x1, Fld ''outer_first_mpls_over_udp_s_bos'' 0x1,
    Fld ''outer_first_mpls_over_udp_exp'' 0x1, Fld ''outer_first_mpls_over_udp_label'' 0x1,
    Fld ''outer_first_mpls_over_gre_ttl'' 0x1, Fld ''outer_first_mpls_over_gre_s_bos'' 0x1,
    Fld ''outer_first_mpls_over_gre_exp'' 0x1, Fld ''outer_first_mpls_over_gre_label'' 0x1,
    Fld ''inner_first_mpls_ttl'' 0x1, Fld ''inner_first_mpls_s_bos'' 0x1,
    Fld ''inner_first_mpls_exp'' 0x1, Fld ''inner_first_mpls_label'' 0x1,
    Fld ''outer_first_mpls_ttl'' 0x1, Fld ''outer_first_mpls_s_bos'' 0x1,
    Fld ''outer_first_mpls_exp'' 0x1, Fld ''outer_first_mpls_label'' 0x1, Fld ''outer_emd_tag'' 0x1,
    Fld ''inner_esp_spi'' 0x1, Fld ''outer_esp_spi'' 0x1, Fld ''inner_ipv6_hop_limit'' 0x1,
    Fld ''outer_ipv6_hop_limit'' 0x1, Fld ''bth_dst_qp'' 0x1, Fld ''inner_first_svlan'' 0x1,
    Fld ''inner_second_svlan'' 0x1, Fld ''outer_first_svlan'' 0x1, Fld ''outer_second_svlan'' 0x1,
    Fld ''source_sqn'' 0x1, Reserved 0x60 0x20]"

definition mlx5_ifc_dr_match_spec_bits :: layout where
  "mlx5_ifc_dr_match_spec_bits = [
    Fld ''smac_47_16'' 0x20, Fld ''smac_15_0'' 0x10, Fld ''ethertype'' 0x10, Fld ''dmac_47_16'' 0x20,
    Fld ''dmac_15_0'' 0x10, Fld ''first_prio'' 0x3, Fld ''first_cfi'' 0x1, Fld ''first_vid'' 0xc,
    Fld ''ip_protocol'' 0x8, Fld ''ip_dscp'' 0x6, Fld ''ip_ecn'' 0x2, Fld ''cvlan_tag'' 0x1,
    Fld ''svlan_tag'' 0x1, Fld ''frag'' 0x1, Fld ''ip_version'' 0x4, Fld ''tcp_flags'' 0x9,
    Fld ''tcp_sport'' 0x10, Fld ''tcp_dport'' 0x10, Reserved 0xc0 0x18, Fld ''ip_ttl_hoplimit'' 0x8,
    Fld ''udp_sport'' 0x10, Fld ''udp_dport'' 0x10, Fld ''src_ip_127_96'' 0x20,
    Fld ''src_ip_95_64'' 0x20, Fld ''src_ip_63_32'' 0x20, Fld ''src_ip_31_0'' 0x20,
    Fld ''dst_ip_127_96'' 0x20, Fld ''dst_ip_95_64'' 0x20, Fld ''dst_ip_63_32'' 0x20,
    Fld ''dst_ip_31_0'' 0x20]"

definition mlx5_ifc_dr_match_set_misc_bits :: layout where
  "mlx5_ifc_dr_match_set_misc_bits = [
    Fld ''gre_c_present'' 0x1, Fld ''reserved_auto1'' 0x1, Fld ''gre_k_present'' 0x1,
    Fld ''gre_s_present'' 0x1, Fld ''source_vhca_port'' 0x4, Fld ''source_sqn'' 0x18,
    Fld ''source_eswitch_owner_vhca_id'' 0x10, Fld ''source_port'' 0x10, Fld ''outer_second_prio'' 0x3,
    Fld ''outer_second_cfi'' 0x1, Fld ''outer_second_vid'' 0xc, Fld ''inner_second_prio'' 0x3,
    Fld ''inner_second_cfi'' 0x1, Fld ''inner_second_vid'' 0xc, Fld ''outer_second_cvlan_tag'' 0x1,
    Fld ''inner_second_cvlan_tag'' 0x1, Fld ''outer_second_svlan_tag'' 0x1,
    Fld ''inner_second_svlan_tag'' 0x1, Fld ''outer_emd_tag'' 0x1, Reserved 0x65 0xb,
    Fld ''gre_protocol'' 0x10, Fld ''gre_key_h'' 0x18, Fld ''gre_key_l'' 0x8, Fld ''vxlan_vni'' 0x18,
    Reserved 0xb8 0x8, Fld ''geneve_vni'' 0x18, Reserved 0xe4 0x7, Fld ''geneve_oam'' 0x1,
    Reserved 0xec 0xc, Fld ''outer_ipv6_flow_label'' 0x14, Reserved 0x100 0xc,
    Fld ''inner_ipv6_flow_label'' 0x14, Reserved 0x120 0xa, Fld ''geneve_opt_len'' 0x6,
    Fld ''geneve_protocol_type'' 0x10, Reserved 0x140 0x8, Fld ''bth_dst_qp'' 0x18,
    Fld ''inner_esp_spi'' 0x20, Fld ''outer_esp_spi'' 0x20, Reserved 0x1a0 0x60]"

definition mlx5_ifc_dr_match_set_misc2_bits :: layout where
  "mlx5_ifc_dr_match_set_misc2_bits = [
    Fld ''outer_first_mpls_label'' 0x14, Fld ''outer_first_mpls_exp'' 0x3,
    Fld ''outer_first_mpls_s_bos'' 0x1, Fld ''outer_first_mpls_ttl'' 0x8,
    Fld ''inner_first_mpls_label'' 0x14, Fld ''inner_first_mpls_exp'' 0x3,
    Fld ''inner_first_mpls_s_bos'' 0x1, Fld ''inner_first_mpls_ttl'' 0x8,
    Fld ''outer_first_mpls_over_gre_label'' 0x14, Fld ''outer_first_mpls_over_gre_exp'' 0x3,
    Fld ''outer_first_mpls_over_gre_s_bos'' 0x1, Fld ''outer_first_mpls_over_gre_ttl'' 0x8,
    Fld ''outer_first_mpls_over_udp_label'' 0x14, Fld ''outer_first_mpls_over_udp_exp'' 0x3,
    Fld ''outer_first_mpls_over_udp_s_bos'' 0x1, Fld ''outer_first_mpls_over_udp_ttl'' 0x8,
    Fld ''metadata_reg_c_7'' 0x20, Fld ''metadata_reg_c_6'' 0x20, Fld ''metadata_reg_c_5'' 0x20,
    Fld ''metadata_reg_c_4'' 0x20, Fld ''metadata_reg_c_3'' 0x20, Fld ''metadata_reg_c_2'' 0x20,
    Fld ''metadata_reg_c_1'' 0x20, Fld ''metadata_reg_c_0'' 0x20, Fld ''metadata_reg_a'' 0x20,
    Fld ''metadata_reg_b'' 0x20, Reserved 0x260 0x40]"

definition mlx5_ifc_dr_match_set_misc3_bits :: layout where
  "mlx5_ifc_dr_match_set_misc3_bits = [
    Fld ''inner_tcp_seq_num'' 0x20, Fld ''outer_tcp_seq_num'' 0x20, Fld ''inner_tcp_ack_num'' 0x20,
    Fld ''outer_tcp_ack_num'' 0x20, Reserved 0x80 0x8, Fld ''outer_vxlan_gpe_vni'' 0x18,
    Fld ''outer_vxlan_gpe_next_protocol'' 0x8, Fld ''outer_vxlan_gpe_flags'' 0x8, Reserved 0xb0 0x10,
    Fld ''icmp_header_data'' 0x20, Fld ''icmpv6_header_data'' 0x20, Fld ''icmp_type'' 0x8,
    Fld ''icmp_code'' 0x8, Fld ''icmpv6_type'' 0x8, Fld ''icmpv6_code'' 0x8, Reserved 0x120 0x20,
    Fld ''gtpu_teid'' 0x20, Fld ''gtpu_msg_type'' 0x8, Reserved 0x148 0x5, Fld ''gtpu_flags'' 0x3,
    Reserved 0x150 0x10, Reserved 0x160 0x80]"

definition mlx5_ifc_dr_match_set_misc4_bits :: layout where
  "mlx5_ifc_dr_match_set_misc4_bits = [
    Fld ''prog_sample_field_value_0'' 0x20, Fld ''prog_sample_field_id_0'' 0x20,
    Fld ''prog_sample_field_value_1'' 0x20, Fld ''prog_sample_field_id_1'' 0x20,
    Fld ''prog_sample_field_value_2'' 0x20, Fld ''prog_sample_field_id_2'' 0x20,
    Fld ''prog_sample_field_value_3'' 0x20, Fld ''prog_sample_field_id_3'' 0x20,
    Fld ''reserved'' 0x100]"

definition mlx5_ifc_dr_match_param_bits :: layout where
  "mlx5_ifc_dr_match_param_bits = [
    Struct ''outer'' mlx5_ifc_dr_match_spec_bits, Struct ''misc'' mlx5_ifc_dr_match_set_misc_bits,
    Struct ''inner'' mlx5_ifc_dr_match_spec_bits, Struct ''misc2'' mlx5_ifc_dr_match_set_misc2_bits,
    Struct ''misc3'' mlx5_ifc_dr_match_set_misc3_bits,
    Struct ''misc4'' mlx5_ifc_dr_match_set_misc4_bits]"

definition mlx5_ifc_flow_table_prop_layout_bits :: layout where
  "mlx5_ifc_flow_table_prop_layout_bits = [
    Fld ''ft_support'' 0x1, Fld ''flow_tag'' 0x1, Fld ''flow_counter'' 0x1, Fld ''flow_modify_en'' 0x1,
    Fld ''modify_root'' 0x1, Fld ''identified_miss_table'' 0x1, Fld ''flow_table_modify'' 0x1,
    Fld ''reformat'' 0x1, Fld ''decap'' 0x1, Fld ''reset_root_to_default'' 0x1, Fld ''pop_vlan'' 0x1,
    Fld ''push_vlan'' 0x1, Fld ''fpga_vendor_acceleration'' 0x1, Fld ''pop_vlan_2'' 0x1,
    Fld ''push_vlan_2'' 0x1, Fld ''reformat_and_vlan_action'' 0x1, Fld ''modify_and_vlan_action'' 0x1,
    Fld ''sw_owner'' 0x1, Fld ''reformat_l3_tunnel_to_l2'' 0x1, Fld ''reformat_l2_to_l3_tunnel'' 0x1,
    Fld ''reformat_and_modify_action'' 0x1, Reserved 0x15 0x9, Fld ''sw_owner_v2'' 0x1,
    Reserved 0x1f 0x1, Reserved 0x20 0x2, Fld ''log_max_ft_size'' 0x6,
    Fld ''log_max_modify_header_context'' 0x8, Fld ''max_modify_header_actions'' 0x8,
    Fld ''max_ft_level'' 0x8, Reserved 0x40 0x10, Fld ''metadata_reg_b_width'' 0x8,
    Fld ''metadata_reg_a_width'' 0x8, Reserved 0x60 0x18, Fld ''log_max_ft_num'' 0x8,
    Reserved 0x80 0x10, Fld ''log_max_flow_counter'' 0x8, Fld ''log_max_destination'' 0x8,
    Reserved 0xa0 0x18, Fld ''log_max_flow'' 0x8, Reserved 0xc0 0x40,
    Struct ''ft_field_support'' mlx5_ifc_flow_table_fields_supported_bits,
    Struct ''ft_field_bitmask_support'' mlx5_ifc_flow_table_fields_supported_bits]"

definition mlx5_ifc_cmd_hca_cap_bits :: layout where
  "mlx5_ifc_cmd_hca_cap_bits = [
    Fld ''access_other_hca_roce'' 0x1, Reserved 0x1 0x1e, Fld ''vhca_resource_manager'' 0x1,
    Reserved 0x20 0x10, Fld ''vhca_id'' 0x10, Reserved 0x40 0x40, Fld ''log_max_srq_sz'' 0x8,
    Fld ''log_max_qp_sz'' 0x8, Reserved 0x90 0x8, Fld ''prio_tag_required'' 0x1, Reserved 0x99 0x2,
    Fld ''log_max_qp'' 0x5, Reserved 0xa0 0xa, Fld ''isolate_vl_tc'' 0x1, Fld ''log_max_srq'' 0x5,
    Reserved 0xb0 0x10, Reserved 0xc0 0x8, Fld ''log_max_cq_sz'' 0x8, Reserved 0xd0 0xb,
    Fld ''log_max_cq'' 0x5, Fld ''log_max_eq_sz'' 0x8, Fld ''relaxed_ordering_write'' 0x1,
    Reserved 0xe9 0x1, Fld ''log_max_mkey'' 0x6, Fld ''tunneled_atomic'' 0x1, Fld ''as_notify'' 0x1,
    Fld ''m_pci_port'' 0x1, Fld ''m_vhca_mk'' 0x1, Fld ''cmd_on_behalf'' 0x1,
    Fld ''device_emulation_manager'' 0x1, Fld ''terminate_scatter_list_mkey'' 0x1,
    Fld ''repeated_mkey'' 0x1, Fld ''dump_fill_mkey'' 0x1, Reserved 0xf9 0x3, Fld ''log_max_eq'' 0x4,
    Fld ''max_indirection'' 0x8, Fld ''fixed_buffer_size'' 0x1, Fld ''log_max_mrw_sz'' 0x7,
    Fld ''force_teardown'' 0x1, Fld ''fast_teardown'' 0x1, Fld ''log_max_bsf_list_size'' 0x6,
    Fld ''umr_extended_translation_offset'' 0x1, Fld ''null_mkey'' 0x1,
    Fld ''log_max_klm_list_size'' 0x6, Reserved 0x120 0xa, Fld ''log_max_ra_req_dc'' 0x6,
    Reserved 0x130 0xa, Fld ''log_max_ra_res_dc'' 0x6, Reserved 0x140 0xa,
    Fld ''log_max_ra_req_qp'' 0x6, Reserved 0x150 0xa, Fld ''log_max_ra_res_qp'' 0x6,
    Fld ''end_pad'' 0x1, Fld ''cc_query_allowed'' 0x1, Fld ''cc_modify_allowed'' 0x1,
    Fld ''start_pad'' 0x1, Fld ''cache_line_128byte'' 0x1, Fld ''gid_table_size_ro'' 0x1,
    Fld ''pkey_table_size_ro'' 0x1, Reserved 0x167 0x1, Fld ''rnr_nak_q_counters'' 0x1,
    Fld ''rts2rts_qp_counters_set_id'' 0x1, Fld ''rts2rts_qp_dscp'' 0x1, Reserved 0x16b 0x4,
    Fld ''qcam_reg'' 0x1, Fld ''gid_table_size'' 0x10, Fld ''out_of_seq_cnt'' 0x1,
    Fld ''vport_counters'' 0x1, Fld ''retransmission_q_counters'' 0x1, Fld ''debug'' 0x1,
    Fld ''modify_rq_counters_set_id'' 0x1, Fld ''rq_delay_drop'' 0x1, Fld ''max_qp_cnt'' 0xa,
    Fld ''pkey_table_size'' 0x10, Fld ''vport_group_manager'' 0x1, Fld ''vhca_group_manager'' 0x1,
    Fld ''ib_virt'' 0x1, Fld ''eth_virt'' 0x1, Fld ''vnic_env_queue_counters'' 0x1, Fld ''ets'' 0x1,
    Fld ''nic_flow_table'' 0x1, Fld ''eswitch_manager'' 0x1, Fld ''device_memory'' 0x1,
    Fld ''mcam_reg'' 0x1, Fld ''pcam_reg'' 0x1, Fld ''local_ca_ack_delay'' 0x5,
    Fld ''port_module_event'' 0x1, Fld ''enhanced_retransmission_q_counters'' 0x1,
    Fld ''port_checks'' 0x1, Fld ''pulse_gen_control'' 0x1, Fld ''disable_link_up_by_init_hca'' 0x1,
    Fld ''beacon_led'' 0x1, Fld ''port_type'' 0x2, Fld ''num_ports'' 0x8, Reserved 0x1c0 0x1,
    Fld ''pps'' 0x1, Fld ''pps_modify'' 0x1, Fld ''log_max_msg'' 0x5, Fld ''multi_path_xrc_rdma'' 0x1,
    Fld ''multi_path_dc_rdma'' 0x1, Fld ''multi_path_rc_rdma'' 0x1, Fld ''traffic_fast_control'' 0x1,
    Fld ''max_tc'' 0x4, Fld ''temp_warn_event'' 0x1, Fld ''dcbx'' 0x1,
    Fld ''general_notification_event'' 0x1, Fld ''multi_prio_sq'' 0x1, Fld ''afu_owner'' 0x1,
    Fld ''fpga'' 0x1, Fld ''rol_s'' 0x1, Fld ''rol_g'' 0x1, Fld ''ib_port_sniffer'' 0x1,
    Fld ''wol_s'' 0x1, Fld ''wol_g'' 0x1, Fld ''wol_a'' 0x1, Fld ''wol_b'' 0x1, Fld ''wol_m'' 0x1,
    Fld ''wol_u'' 0x1, Fld ''wol_p'' 0x1, Fld ''stat_rate_support'' 0x10, Reserved 0x1f0 0xc,
    Fld ''cqe_version'' 0x4, Fld ''compact_address_vector'' 0x1, Fld ''eth_striding_wq'' 0x1,
    Reserved 0x202 0x1, Fld ''ipoib_enhanced_offloads'' 0x1, Fld ''ipoib_basic_offloads'' 0x1,
    Fld ''ib_striding_wq'' 0x1, Fld ''repeated_block_disabled'' 0x1,
    Fld ''umr_modify_entity_size_disabled'' 0x1, Fld ''umr_modify_atomic_disabled'' 0x1,
    Fld ''umr_indirect_mkey_disabled'' 0x1, Fld ''umr_fence'' 0x2, Fld ''dc_req_sctr_data_cqe'' 0x1,
    Fld ''dc_connect_qp'' 0x1, Fld ''dc_cnak_trace'' 0x1, Fld ''drain_sigerr'' 0x1,
    Fld ''cmdif_checksum'' 0x2, Fld ''sigerr_cqe'' 0x1, Reserved 0x213 0x1, Fld ''wq_signature'' 0x1,
    Fld ''sctr_data_cqe'' 0x1, Reserved 0x216 0x1, Fld ''sho'' 0x1, Fld ''tph'' 0x1, Fld ''rf'' 0x1,
    Fld ''dct'' 0x1, Fld ''qos'' 0x1, Fld ''eth_net_offloads'' 0x1, Fld ''roce'' 0x1,
    Fld ''atomic'' 0x1, Fld ''extended_retry_count'' 0x1, Fld ''cq_oi'' 0x1, Fld ''cq_resize'' 0x1,
    Fld ''cq_moderation'' 0x1, Fld ''cq_period_mode_modify'' 0x1, Fld ''cq_invalidate'' 0x1,
    Reserved 0x225 0x1, Fld ''cq_eq_remap'' 0x1, Fld ''pg'' 0x1, Fld ''block_lb_mc'' 0x1,
    Fld ''exponential_backoff'' 0x1, Fld ''scqe_break_moderation'' 0x1,
    Fld ''cq_period_start_from_cqe'' 0x1, Fld ''cd'' 0x1, Fld ''atm'' 0x1, Fld ''apm'' 0x1,
    Fld ''vector_calc'' 0x1, Fld ''umr_ptr_rlkey'' 0x1, Fld ''imaicl'' 0x1,
    Fld ''qp_packet_based'' 0x1, Reserved 0x233 0x1, Fld ''ipoib_enhanced_pkey_change'' 0x1,
    Fld ''initiator_src_dct_in_cqe'' 0x1, Fld ''qkv'' 0x1, Fld ''pkv'' 0x1, Fld ''set_deth_sqpn'' 0x1,
    Fld ''rts2rts_primary_sl'' 0x1, Fld ''initiator_src_dct'' 0x1, Fld ''dc_v2'' 0x1, Fld ''xrc'' 0x1,
    Fld ''ud'' 0x1, Fld ''uc'' 0x1, Fld ''rc'' 0x1, Fld ''uar_4k'' 0x1, Reserved 0x241 0x9,
    Fld ''uar_sz'' 0x6, Reserved 0x250 0x3, Fld ''log_max_dc_cnak_qps'' 0x5, Fld ''log_pg_sz'' 0x8,
    Fld ''bf'' 0x1, Fld ''driver_version'' 0x1, Fld ''pad_tx_eth_packet'' 0x1,
    Fld ''query_driver_version'' 0x1, Fld ''max_qp_retry_freq'' 0x1, Fld ''qp_by_name'' 0x1,
    Fld ''mkey_by_name'' 0x1, Reserved 0x267 0x1, Fld ''suspend_qp_uc'' 0x1, Fld ''suspend_qp_ud'' 0x1,
    Fld ''suspend_qp_rc'' 0x1, Fld ''log_bf_reg_size'' 0x5, Reserved 0x270 0x6, Fld ''lag_dct'' 0x2,
    Fld ''lag_tx_port_affinity'' 0x1, Reserved 0x279 0x2, Fld ''lag_master'' 0x1,
    Fld ''num_lag_ports'' 0x4, Fld ''num_of_diagnostic_counters'' 0x10, Fld ''max_wqe_sz_sq'' 0x10,
    Reserved 0x2a0 0x10, Fld ''max_wqe_sz_rq'' 0x10, Fld ''max_flow_counter_31_16'' 0x10,
    Fld ''max_wqe_sz_sq_dc'' 0x10, Reserved 0x2e0 0x7, Fld ''max_qp_mcg'' 0x19,
    Fld ''mlnx_tag_ethertype'' 0x10, Reserved 0x310 0x8, Fld ''log_max_mcg'' 0x8, Reserved 0x320 0x3,
    Fld ''log_max_transport_domain'' 0x5, Reserved 0x328 0x3, Fld ''log_max_pd'' 0x5,
    Reserved 0x330 0xb, Fld ''log_max_xrcd'' 0x5, Fld ''nic_receive_steering_discard'' 0x1,
    Fld ''receive_discard_vport_down'' 0x1, Fld ''transmit_discard_vport_down'' 0x1,
    Fld ''eq_overrun_count'' 0x1, Fld ''nic_receive_steering_depth'' 0x1,
    Fld ''invalid_command_count'' 0x1, Fld ''quota_exceeded_count'' 0x1, Reserved 0x347 0x1,
    Fld ''log_max_flow_counter_bulk'' 0x8, Fld ''max_flow_counter_15_0'' 0x10, Fld ''modify_tis'' 0x1,
    Reserved 0x361 0x2, Fld ''log_max_rq'' 0x5, Reserved 0x368 0x3, Fld ''log_max_sq'' 0x5,
    Reserved 0x370 0x3, Fld ''log_max_tir'' 0x5, Reserved 0x378 0x3, Fld ''log_max_tis'' 0x5,
    Fld ''basic_cyclic_rcv_wqe'' 0x1, Reserved 0x381 0x2, Fld ''log_max_rmp'' 0x5, Reserved 0x388 0x3,
    Fld ''log_max_rqt'' 0x5, Reserved 0x390 0x3, Fld ''log_max_rqt_size'' 0x5, Reserved 0x398 0x3,
    Fld ''log_max_tis_per_sq'' 0x5, Fld ''ext_stride_num_range'' 0x1, Reserved 0x3a1 0x2,
    Fld ''log_max_stride_sz_rq'' 0x5, Reserved 0x3a8 0x3, Fld ''log_min_stride_sz_rq'' 0x5,
    Reserved 0x3b0 0x3, Fld ''log_max_stride_sz_sq'' 0x5, Reserved 0x3b8 0x3,
    Fld ''log_min_stride_sz_sq'' 0x5, Fld ''hairpin'' 0x1, Reserved 0x3c1 0x2,
    Fld ''log_max_hairpin_queues'' 0x5, Reserved 0x3c8 0x3, Fld ''log_max_hairpin_wq_data_sz'' 0x5,
    Reserved 0x3d0 0x3, Fld ''log_max_hairpin_num_packets'' 0x5, Reserved 0x3d8 0x3,
    Fld ''log_max_wq_sz'' 0x5, Fld ''nic_vport_change_event'' 0x1, Fld ''disable_local_lb_uc'' 0x1,
    Fld ''disable_local_lb_mc'' 0x1, Fld ''log_min_hairpin_wq_data_sz'' 0x5, Reserved 0x3e8 0x3,
    Fld ''log_max_vlan_list'' 0x5, Reserved 0x3f0 0x3, Fld ''log_max_current_mc_list'' 0x5,
    Reserved 0x3f8 0x3, Fld ''log_max_current_uc_list'' 0x5, Fld ''general_obj_types'' 0x40,
    Reserved 0x440 0x4, Fld ''steering_format_version'' 0x4, Fld ''create_qp_start_hint'' 0x18,
    Reserved 0x460 0x10, Fld ''max_num_eqs'' 0x10, Reserved 0x480 0x3, Fld ''log_max_l2_table'' 0x5,
    Reserved 0x488 0x8, Fld ''log_uar_page_sz'' 0x10, Reserved 0x4a0 0x20,
    Fld ''device_frequency_mhz'' 0x20, Fld ''device_frequency_khz'' 0x20, Fld ''capi'' 0x1,
    Fld ''create_pec'' 0x1, Fld ''nvmf_target_offload'' 0x1, Fld ''capi_invalidate'' 0x1,
    Reserved 0x504 0x17, Fld ''log_max_pasid'' 0x5, Fld ''num_of_uars_per_page'' 0x20,
    Fld ''flex_parser_protocols'' 0x20, Reserved 0x560 0x13,
    Fld ''log_max_guaranteed_connections'' 0x5, Reserved 0x578 0x3,
    Fld ''log_max_dct_connections'' 0x5, Fld ''log_max_atomic_size_qp'' 0x8, Reserved 0x588 0x10,
    Fld ''log_max_atomic_size_dc'' 0x8, Reserved 0x5a0 0x1c, Fld ''mini_cqe_resp_stride_index'' 0x1,
    Fld ''cqe_128_always'' 0x1, Fld ''cqe_compression_128b'' 0x1, Fld ''cqe_compression'' 0x1,
    Fld ''cqe_compression_timeout'' 0x10, Fld ''cqe_compression_max_num'' 0x10, Reserved 0x5e0 0xc,
    Fld ''log_max_tm_offloaded_op_size'' 0x4, Fld ''tag_matching'' 0x1, Fld ''rndv_offload_rc'' 0x1,
    Fld ''rndv_offload_dc'' 0x1, Fld ''log_tag_matching_list_sz'' 0x5, Reserved 0x5f8 0x3,
    Fld ''log_max_xrq'' 0x5, Fld ''affiliate_nic_vport_criteria'' 0x8, Fld ''native_port_num'' 0x8,
    Fld ''num_vhca_ports'' 0x8, Reserved 0x618 0x5, Fld ''trusted_vnic_vhca'' 0x1,
    Fld ''sw_owner_id'' 0x1, Fld ''reserve_not_to_use'' 0x1, Reserved 0x620 0x60, Fld ''sf'' 0x1,
    Reserved 0x682 0x47, Fld ''flex_parser_id_icmp_dw1'' 0x4, Fld ''flex_parser_id_icmp_dw0'' 0x4,
    Fld ''flex_parser_id_icmpv6_dw1'' 0x4, Fld ''flex_parser_id_icmpv6_dw0'' 0x4,
    Fld ''flex_parser_id_outer_first_mpls_over_gre'' 0x4,
    Fld ''flex_parser_id_outer_first_mpls_over_udp_label'' 0x4, Reserved 0x6b8 0x80,
    Reserved 0x738 0x3, Fld ''log_max_num_header_modify_argument'' 0x5, Reserved 0x73d 0x4,
    Fld ''log_header_modify_argument_granularity'' 0x4, Reserved 0x741 0x3,
    Fld ''log_header_modify_argument_max_alloc'' 0x5, Reserved 0x746 0x8, Reserved 0x74e 0x80]"

definition mlx5_ifc_header_modify_cap_properties_bits :: layout where
  "mlx5_ifc_header_modify_cap_properties_bits = [
    Struct ''set_action_field_support'' mlx5_ifc_flow_table_fields_supported_bits, Reserved 0x80 0x80,
    Struct ''add_action_field_support'' mlx5_ifc_flow_table_fields_supported_bits, Reserved 0x180 0x80,
    Arr ''copy_action_field_support'' 8 0x20, Reserved 0x300 0x100]"

definition mlx5_ifc_flow_table_nic_cap_bits :: layout where
  "mlx5_ifc_flow_table_nic_cap_bits = [
    Fld ''nic_rx_multi_path_tirs'' 0x1, Fld ''nic_rx_multi_path_tirs_fts'' 0x1,
    Fld ''allow_sniffer_and_nic_rx_shared_tir'' 0x1, Reserved 0x3 0x1,
    Fld ''nic_rx_flow_tag_multipath_en'' 0x1, Reserved 0x5 0x13,
    Fld ''nic_receive_max_steering_depth'' 0x8, Fld ''encap_general_header'' 0x1, Reserved 0x21 0xa,
    Fld ''log_max_packet_reformat_context'' 0x5, Reserved 0x30 0x6, Fld ''max_encap_header_size'' 0xa,
    Reserved 0x40 0x1c0,
    Struct ''flow_table_properties_nic_receive'' mlx5_ifc_flow_table_prop_layout_bits,
    Struct ''flow_table_properties_nic_receive_rdma'' mlx5_ifc_flow_table_prop_layout_bits,
    Struct ''flow_table_properties_nic_receive_sniffer'' mlx5_ifc_flow_table_prop_layout_bits,
    Struct ''flow_table_properties_nic_transmit'' mlx5_ifc_flow_table_prop_layout_bits,
    Struct ''flow_table_properties_nic_transmit_rdma'' mlx5_ifc_flow_table_prop_layout_bits,
    Struct ''flow_table_properties_nic_transmit_sniffer'' mlx5_ifc_flow_table_prop_layout_bits,
    Reserved 0xe00 0x200,
    Struct ''header_modify_nic_receive'' mlx5_ifc_header_modify_cap_properties_bits,
    Reserved 0x1400 0x800,
    Struct ''header_modify_nic_transmit'' mlx5_ifc_header_modify_cap_properties_bits,
    Fld ''sw_steering_nic_rx_action_drop_icm_address'' 0x40,
    Fld ''sw_steering_nic_tx_action_drop_icm_address'' 0x40,
    Fld ''sw_steering_nic_tx_action_allow_icm_address'' 0x40, Reserved 0x20c0 0x5f40]"

definition mlx5_ifc_flow_table_eswitch_cap_bits :: layout where
  "mlx5_ifc_flow_table_eswitch_cap_bits = [
    Reserved 0x0 0x1c, Fld ''fdb_multi_path_to_table'' 0x1, Reserved 0x1d 0x1e3,
    Struct ''flow_table_properties_nic_esw_fdb'' mlx5_ifc_flow_table_prop_layout_bits,
    Struct ''flow_table_properties_esw_acl_ingress'' mlx5_ifc_flow_table_prop_layout_bits,
    Struct ''flow_table_properties_esw_acl_egress'' mlx5_ifc_flow_table_prop_layout_bits,
    Reserved 0x800 0x1000, Fld ''sw_steering_fdb_action_drop_icm_address_rx'' 0x40,
    Fld ''sw_steering_fdb_action_drop_icm_address_tx'' 0x40,
    Fld ''sw_steering_uplink_icm_address_rx'' 0x40, Fld ''sw_steering_uplink_icm_address_tx'' 0x40,
    Reserved 0x1900 0x6700]"

definition mlx5_ifc_odp_per_transport_service_cap_bits :: layout where
  "mlx5_ifc_odp_per_transport_service_cap_bits = [
    Fld ''send'' 0x1, Fld ''receive'' 0x1, Fld ''write'' 0x1, Fld ''read'' 0x1, Fld ''atomic'' 0x1,
    Fld ''srq_receive'' 0x1, Reserved 0x6 0x1a]"

definition mlx5_ifc_odp_cap_bits :: layout where
  "mlx5_ifc_odp_cap_bits = [
    Reserved 0x0 0x40, Fld ''sig'' 0x1, Reserved 0x41 0x1f, Reserved 0x60 0x20,
    Struct ''rc_odp_caps'' mlx5_ifc_odp_per_transport_service_cap_bits,
    Struct ''uc_odp_caps'' mlx5_ifc_odp_per_transport_service_cap_bits,
    Struct ''ud_odp_caps'' mlx5_ifc_odp_per_transport_service_cap_bits,
    Struct ''xrc_odp_caps'' mlx5_ifc_odp_per_transport_service_cap_bits,
    Struct ''dc_odp_caps'' mlx5_ifc_odp_per_transport_service_cap_bits, Reserved 0x120 0x6e0]"

definition mlx5_ifc_per_protocol_networking_offload_caps_bits :: layout where
  "mlx5_ifc_per_protocol_networking_offload_caps_bits = [
    Fld ''csum_cap'' 0x1, Fld ''vlan_cap'' 0x1, Fld ''lro_cap'' 0x1, Fld ''lro_psh_flag'' 0x1,
    Fld ''lro_time_stamp'' 0x1, Reserved 0x5 0x2, Fld ''wqe_vlan_insert'' 0x1,
    Fld ''self_lb_en_modifiable'' 0x1, Reserved 0x9 0x2, Fld ''max_lso_cap'' 0x5,
    Fld ''multi_pkt_send_wqe'' 0x2, Fld ''wqe_inline_mode'' 0x2, Fld ''rss_ind_tbl_cap'' 0x4,
    Fld ''reg_umr_sq'' 0x1, Fld ''scatter_fcs'' 0x1, Fld ''enhanced_multi_pkt_send_wqe'' 0x1,
    Fld ''tunnel_lso_const_out_ip_id'' 0x1, Reserved 0x1c 0x2, Fld ''tunnel_stateless_gre'' 0x1,
    Fld ''tunnel_stateless_vxlan'' 0x1, Fld ''swp'' 0x1, Fld ''swp_csum'' 0x1, Fld ''swp_lso'' 0x1,
    Fld ''cqe_checksum_full'' 0x1, Fld ''tunnel_stateless_geneve_tx'' 0x1,
    Fld ''tunnel_stateless_mpls_over_udp'' 0x1, Fld ''tunnel_stateless_mpls_over_gre'' 0x1,
    Fld ''tunnel_stateless_vxlan_gpe'' 0x1, Fld ''tunnel_stateless_ipv4_over_vxlan'' 0x1,
    Fld ''tunnel_stateless_ip_over_ip'' 0x1, Fld ''insert_trailer'' 0x1,
    Fld ''tunnel_stateless_gtp'' 0x1, Reserved 0x2c 0x4, Fld ''max_vxlan_udp_ports'' 0x8,
    Reserved 0x38 0x6, Fld ''max_geneve_opt_len'' 0x1, Fld ''tunnel_stateless_geneve_rx'' 0x1,
    Reserved 0x40 0x10, Fld ''lro_min_mss_size'' 0x10, Reserved 0x60 0x120,
    Arr ''lro_timer_supported_periods'' 4 0x20, Reserved 0x200 0x600]"

definition mlx5_ifc_e_switch_cap_bits :: layout where
  "mlx5_ifc_e_switch_cap_bits = [
    Reserved 0x0 0x4b, Fld ''log_max_esw_sf'' 0x5, Fld ''esw_sf_base_id'' 0x10, Reserved 0x60 0x7a0]"

definition mlx5_ifc_hca_cap_union_bits :: layout where
  "mlx5_ifc_hca_cap_union_bits = [
    Struct ''atomic_caps'' mlx5_ifc_atomic_caps_bits, Struct ''cmd_hca_cap'' mlx5_ifc_cmd_hca_cap_bits,
    Struct ''per_protocol_networking_offload_caps'' mlx5_ifc_per_protocol_networking_offload_caps_bits,
    Struct ''flow_table_nic_cap'' mlx5_ifc_flow_table_nic_cap_bits,
    Struct ''flow_table_eswitch_cap'' mlx5_ifc_flow_table_eswitch_cap_bits,
    Struct ''e_switch_cap'' mlx5_ifc_e_switch_cap_bits,
    Struct ''device_mem_cap'' mlx5_ifc_device_mem_cap_bits, Struct ''odp_cap'' mlx5_ifc_odp_cap_bits,
    Struct ''roce_caps'' mlx5_ifc_roce_cap_bits, Reserved 0x0 0x8000]"

definition mlx5_ifc_query_hca_cap_out_bits :: layout where
  "mlx5_ifc_query_hca_cap_out_bits = [
    Fld ''status'' 0x8, Reserved 0x8 0x18, Fld ''syndrome'' 0x20, Reserved 0x40 0x40,
    Union ''capability'' mlx5_ifc_hca_cap_union_bits]"

definition mlx5_ifc_query_hca_cap_in_bits :: layout where
  "mlx5_ifc_query_hca_cap_in_bits = [
    Fld ''opcode'' 0x10, Reserved 0x10 0x10, Reserved 0x20 0x10, Fld ''op_mod'' 0x10,
    Fld ''other_function'' 0x1, Reserved 0x41 0xf, Fld ''function_id'' 0x10, Reserved 0x60 0x20]"

section \<open>Sizes and alignment\<close>

lemma atomic_caps_facts [ifc_facts]:
  "layout_bits mlx5_ifc_atomic_caps_bits = 0x800"
  "layout_ok 0 mlx5_ifc_atomic_caps_bits" "names_ok 0 mlx5_ifc_atomic_caps_bits" "union_free mlx5_ifc_atomic_caps_bits"
  by (simp_all add: mlx5_ifc_atomic_caps_bits_def ifc_facts)

lemma roce_cap_facts [ifc_facts]:
  "layout_bits mlx5_ifc_roce_cap_bits = 0x81f"
  "layout_ok 0 mlx5_ifc_roce_cap_bits" "names_ok 0 mlx5_ifc_roce_cap_bits" "union_free mlx5_ifc_roce_cap_bits"
  by (simp_all add: mlx5_ifc_roce_cap_bits_def ifc_facts)

lemma flow_table_context_facts [ifc_facts]:
  "layout_bits mlx5_ifc_flow_table_context_bits = 0x140"
  "layout_ok 0 mlx5_ifc_flow_table_context_bits" "names_ok 0 mlx5_ifc_flow_table_context_bits" "union_free mlx5_ifc_flow_table_context_bits"
  by (simp_all add: mlx5_ifc_flow_table_context_bits_def ifc_facts)

lemma create_flow_table_in_facts [ifc_facts]:
  "layout_bits mlx5_ifc_create_flow_table_in_bits = 0x200"
  "layout_ok 0 mlx5_ifc_create_flow_table_in_bits" "names_ok 0 mlx5_ifc_create_flow_table_in_bits" "union_free mlx5_ifc_create_flow_table_in_bits"
  by (simp_all add: mlx5_ifc_create_flow_table_in_bits_def ifc_facts)

lemma create_flow_table_out_facts [ifc_facts]:
  "layout_bits mlx5_ifc_create_flow_table_out_bits = 0x80"
  "layout_ok 0 mlx5_ifc_create_flow_table_out_bits" "names_ok 0 mlx5_ifc_create_flow_table_out_bits" "union_free mlx5_ifc_create_flow_table_out_bits"
  by (simp_all add: mlx5_ifc_create_flow_table_out_bits_def ifc_facts)

lemma sync_steering_in_facts [ifc_facts]:
  "layout_bits mlx5_ifc_sync_steering_in_bits = 0x100"
  "layout_ok 0 mlx5_ifc_sync_steering_in_bits" "names_ok 0 mlx5_ifc_sync_steering_in_bits" "union_free mlx5_ifc_sync_steering_in_bits"
  by (simp_all add: mlx5_ifc_sync_steering_in_bits_def ifc_facts)

lemma sync_steering_out_facts [ifc_facts]:
  "layout_bits mlx5_ifc_sync_steering_out_bits = 0x80"
  "layout_ok 0 mlx5_ifc_sync_steering_out_bits" "names_ok 0 mlx5_ifc_sync_steering_out_bits" "union_free mlx5_ifc_sync_steering_out_bits"
  by (simp_all add: mlx5_ifc_sync_steering_out_bits_def ifc_facts)

lemma device_mem_cap_facts [ifc_facts]:
  "layout_bits mlx5_ifc_device_mem_cap_bits = 0x200"
  "layout_ok 0 mlx5_ifc_device_mem_cap_bits" "names_ok 0 mlx5_ifc_device_mem_cap_bits" "union_free mlx5_ifc_device_mem_cap_bits"
  by (simp_all add: mlx5_ifc_device_mem_cap_bits_def ifc_facts)

lemma flow_table_fields_supported_facts [ifc_facts]:
  "layout_bits mlx5_ifc_flow_table_fields_supported_bits = 0x80"
  "layout_ok 0 mlx5_ifc_flow_table_fields_supported_bits" "names_ok 0 mlx5_ifc_flow_table_fields_supported_bits" "union_free mlx5_ifc_flow_table_fields_supported_bits"
  by (simp_all add: mlx5_ifc_flow_table_fields_supported_bits_def ifc_facts)

lemma dr_match_spec_facts [ifc_facts]:
  "layout_bits mlx5_ifc_dr_match_spec_bits = 0x200"
  "layout_ok 0 mlx5_ifc_dr_match_spec_bits" "names_ok 0 mlx5_ifc_dr_match_spec_bits" "union_free mlx5_ifc_dr_match_spec_bits"
  by (simp_all add: mlx5_ifc_dr_match_spec_bits_def ifc_facts)

lemma dr_match_set_misc_facts [ifc_facts]:
  "layout_bits mlx5_ifc_dr_match_set_misc_bits = 0x200"
  "layout_ok 0 mlx5_ifc_dr_match_set_misc_bits" "\<not> names_ok 0 mlx5_ifc_dr_match_set_misc_bits" "union_free mlx5_ifc_dr_match_set_misc_bits"
  by (simp_all add: mlx5_ifc_dr_match_set_misc_bits_def ifc_facts)

lemma dr_match_set_misc2_facts [ifc_facts]:
  "layout_bits mlx5_ifc_dr_match_set_misc2_bits = 0x200"
  "layout_ok 0 mlx5_ifc_dr_match_set_misc2_bits" "\<not> names_ok 0 mlx5_ifc_dr_match_set_misc2_bits" "union_free mlx5_ifc_dr_match_set_misc2_bits"
  by (simp_all add: mlx5_ifc_dr_match_set_misc2_bits_def ifc_facts)

lemma dr_match_set_misc3_facts [ifc_facts]:
  "layout_bits mlx5_ifc_dr_match_set_misc3_bits = 0x200"
  "layout_ok 0 mlx5_ifc_dr_match_set_misc3_bits" "\<not> names_ok 0 mlx5_ifc_dr_match_set_misc3_bits" "union_free mlx5_ifc_dr_match_set_misc3_bits"
  by (simp_all add: mlx5_ifc_dr_match_set_misc3_bits_def ifc_facts)

lemma dr_match_set_misc4_facts [ifc_facts]:
  "layout_bits mlx5_ifc_dr_match_set_misc4_bits = 0x200"
  "layout_ok 0 mlx5_ifc_dr_match_set_misc4_bits" "names_ok 0 mlx5_ifc_dr_match_set_misc4_bits" "union_free mlx5_ifc_dr_match_set_misc4_bits"
  by (simp_all add: mlx5_ifc_dr_match_set_misc4_bits_def ifc_facts)

lemma dr_match_param_facts [ifc_facts]:
  "layout_bits mlx5_ifc_dr_match_param_bits = 0xc00"
  "layout_ok 0 mlx5_ifc_dr_match_param_bits" "names_ok 0 mlx5_ifc_dr_match_param_bits" "union_free mlx5_ifc_dr_match_param_bits"
  by (simp_all add: mlx5_ifc_dr_match_param_bits_def ifc_facts)

lemma flow_table_prop_layout_facts [ifc_facts]:
  "layout_bits mlx5_ifc_flow_table_prop_layout_bits = 0x200"
  "layout_ok 0 mlx5_ifc_flow_table_prop_layout_bits" "names_ok 0 mlx5_ifc_flow_table_prop_layout_bits" "union_free mlx5_ifc_flow_table_prop_layout_bits"
  by (simp_all add: mlx5_ifc_flow_table_prop_layout_bits_def ifc_facts)

lemma cmd_hca_cap_facts [ifc_facts]:
  "layout_bits mlx5_ifc_cmd_hca_cap_bits = 0x800"
  "layout_ok 0 mlx5_ifc_cmd_hca_cap_bits" "\<not> names_ok 0 mlx5_ifc_cmd_hca_cap_bits" "union_free mlx5_ifc_cmd_hca_cap_bits"
  by (simp_all add: mlx5_ifc_cmd_hca_cap_bits_def ifc_facts)

lemma header_modify_cap_properties_facts [ifc_facts]:
  "layout_bits mlx5_ifc_header_modify_cap_properties_bits = 0x400"
  "layout_ok 0 mlx5_ifc_header_modify_cap_properties_bits" "names_ok 0 mlx5_ifc_header_modify_cap_properties_bits" "union_free mlx5_ifc_header_modify_cap_properties_bits"
  by (simp_all add: mlx5_ifc_header_modify_cap_properties_bits_def ifc_facts)

lemma flow_table_nic_cap_facts [ifc_facts]:
  "layout_bits mlx5_ifc_flow_table_nic_cap_bits = 0x8000"
  "layout_ok 0 mlx5_ifc_flow_table_nic_cap_bits" "names_ok 0 mlx5_ifc_flow_table_nic_cap_bits" "union_free mlx5_ifc_flow_table_nic_cap_bits"
  by (simp_all add: mlx5_ifc_flow_table_nic_cap_bits_def ifc_facts)

lemma flow_table_eswitch_cap_facts [ifc_facts]:
  "layout_bits mlx5_ifc_flow_table_eswitch_cap_bits = 0x8000"
  "layout_ok 0 mlx5_ifc_flow_table_eswitch_cap_bits" "names_ok 0 mlx5_ifc_flow_table_eswitch_cap_bits" "union_free mlx5_ifc_flow_table_eswitch_cap_bits"
  by (simp_all add: mlx5_ifc_flow_table_eswitch_cap_bits_def ifc_facts)

lemma odp_per_transport_service_cap_facts [ifc_facts]:
  "layout_bits mlx5_ifc_odp_per_transport_service_cap_bits = 0x20"
  "layout_ok 0 mlx5_ifc_odp_per_transport_service_cap_bits" "names_ok 0 mlx5_ifc_odp_per_transport_service_cap_bits" "union_free mlx5_ifc_odp_per_transport_service_cap_bits"
  by (simp_all add: mlx5_ifc_odp_per_transport_service_cap_bits_def ifc_facts)

lemma odp_cap_facts [ifc_facts]:
  "layout_bits mlx5_ifc_odp_cap_bits = 0x800"
  "layout_ok 0 mlx5_ifc_odp_cap_bits" "names_ok 0 mlx5_ifc_odp_cap_bits" "union_free mlx5_ifc_odp_cap_bits"
  by (simp_all add: mlx5_ifc_odp_cap_bits_def ifc_facts)

lemma per_protocol_networking_offload_caps_facts [ifc_facts]:
  "layout_bits mlx5_ifc_per_protocol_networking_offload_caps_bits = 0x800"
  "layout_ok 0 mlx5_ifc_per_protocol_networking_offload_caps_bits" "names_ok 0 mlx5_ifc_per_protocol_networking_offload_caps_bits" "union_free mlx5_ifc_per_protocol_networking_offload_caps_bits"
  by (simp_all add: mlx5_ifc_per_protocol_networking_offload_caps_bits_def ifc_facts)

lemma e_switch_cap_facts [ifc_facts]:
  "layout_bits mlx5_ifc_e_switch_cap_bits = 0x800"
  "layout_ok 0 mlx5_ifc_e_switch_cap_bits" "names_ok 0 mlx5_ifc_e_switch_cap_bits" "union_free mlx5_ifc_e_switch_cap_bits"
  by (simp_all add: mlx5_ifc_e_switch_cap_bits_def ifc_facts)

lemma hca_cap_union_facts [ifc_facts]:
  "union_bits mlx5_ifc_hca_cap_union_bits = 0x8000" "union_ok mlx5_ifc_hca_cap_union_bits"
  by (simp_all add: mlx5_ifc_hca_cap_union_bits_def ifc_facts)

lemma query_hca_cap_out_facts [ifc_facts]:
  "layout_bits mlx5_ifc_query_hca_cap_out_bits = 0x8080"
  "layout_ok 0 mlx5_ifc_query_hca_cap_out_bits" "names_ok 0 mlx5_ifc_query_hca_cap_out_bits" "\<not> union_free mlx5_ifc_query_hca_cap_out_bits"
  by (simp_all add: mlx5_ifc_query_hca_cap_out_bits_def ifc_facts)

lemma query_hca_cap_in_facts [ifc_facts]:
  "layout_bits mlx5_ifc_query_hca_cap_in_bits = 0x80"
  "layout_ok 0 mlx5_ifc_query_hca_cap_in_bits" "names_ok 0 mlx5_ifc_query_hca_cap_in_bits" "union_free mlx5_ifc_query_hca_cap_in_bits"
  by (simp_all add: mlx5_ifc_query_hca_cap_in_bits_def ifc_facts)

section \<open>All structures of this part\<close>

definition ifc_caps :: "layout list" where
  "ifc_caps = [
    mlx5_ifc_atomic_caps_bits, mlx5_ifc_roce_cap_bits, mlx5_ifc_flow_table_context_bits,
    mlx5_ifc_create_flow_table_in_bits, mlx5_ifc_create_flow_table_out_bits,
    mlx5_ifc_sync_steering_in_bits, mlx5_ifc_sync_steering_out_bits, mlx5_ifc_device_mem_cap_bits,
    mlx5_ifc_flow_table_fields_supported_bits, mlx5_ifc_dr_match_spec_bits,
    mlx5_ifc_dr_match_set_misc_bits, mlx5_ifc_dr_match_set_misc2_bits,
    mlx5_ifc_dr_match_set_misc3_bits, mlx5_ifc_dr_match_set_misc4_bits,
    mlx5_ifc_dr_match_param_bits, mlx5_ifc_flow_table_prop_layout_bits, mlx5_ifc_cmd_hca_cap_bits,
    mlx5_ifc_header_modify_cap_properties_bits, mlx5_ifc_flow_table_nic_cap_bits,
    mlx5_ifc_flow_table_eswitch_cap_bits, mlx5_ifc_odp_per_transport_service_cap_bits,
    mlx5_ifc_odp_cap_bits, mlx5_ifc_per_protocol_networking_offload_caps_bits,
    mlx5_ifc_e_switch_cap_bits, mlx5_ifc_query_hca_cap_out_bits, mlx5_ifc_query_hca_cap_in_bits]"

lemma ifc_caps_ok: "list_all (layout_ok 0) ifc_caps"
  by (simp add: ifc_caps_def ifc_facts)

lemma ifc_caps_misnamed:
  "filter (\<lambda>l. \<not> names_ok 0 l) ifc_caps = [
    mlx5_ifc_dr_match_set_misc_bits, mlx5_ifc_dr_match_set_misc2_bits,
    mlx5_ifc_dr_match_set_misc3_bits, mlx5_ifc_cmd_hca_cap_bits]"
  by (simp add: ifc_caps_def ifc_facts)

lemma ifc_caps_odd_sizes:
  "filter (\<lambda>l. layout_bits l mod 32 \<noteq> 0) ifc_caps = [mlx5_ifc_roce_cap_bits]"
  by (simp add: ifc_caps_def ifc_facts)

lemma ifc_caps_unions:
  "filter (\<lambda>l. \<not> union_free l) ifc_caps = [mlx5_ifc_query_hca_cap_out_bits]"
  by (simp add: ifc_caps_def ifc_facts)

end
