(* ===== verification/Ifc_Steering.thy ===== *)
theory Ifc_Steering
  imports Ifc_Caps
begin

text \<open>
  Layouts of the device structures of \<open>providers/mlx5/mlx5_ifc.h\<close>, in the order of the
  source: memory keys, the steering
  entries of both hardware generations and the header actions (lines 1199 to 2255). Each
  definition lists the members of one structure with their widths in bits.
\<close>

section \<open>Layouts\<close>

definition mlx5_ifc_mkc_bits :: layout where
  "mlx5_ifc_mkc_bits = [
    Reserved 0x0 0x1, Fld ''free'' 0x1, Reserved 0x2 0x1, Fld ''access_mode_4_2'' 0x3,
    Reserved 0x6 0x7, Fld ''relaxed_ordering_write'' 0x1, Reserved 0xe 0x1,
    Fld ''small_fence_on_rdma_read_response'' 0x1, Fld ''umr_en'' 0x1, Fld ''a'' 0x1, Fld ''rw'' 0x1,
    Fld ''rr'' 0x1, Fld ''lw'' 0x1, Fld ''lr'' 0x1, Fld ''access_mode_1_0'' 0x2, Reserved 0x18 0x8,
    Fld ''qpn'' 0x18, Fld ''mkey_7_0'' 0x8, Reserved 0x40 0x20, Fld ''length64'' 0x1,
    Fld ''bsf_en'' 0x1, Fld ''sync_umr'' 0x1, Reserved 0x63 0x2, Fld ''expected_sigerr_count'' 0x1,
    Reserved 0x66 0x1, Fld ''en_rinval'' 0x1, Fld ''pd'' 0x18, Fld ''start_addr'' 0x40,
    Fld ''len'' 0x40, Fld ''bsf_octword_size'' 0x20, Reserved 0x120 0x80,
    Fld ''translations_octword_size'' 0x20, Reserved 0x1c0 0x1b, Fld ''log_page_size'' 0x5,
    Reserved 0x1e0 0x20]"

definition mlx5_ifc_create_mkey_out_bits :: layout where
  "mlx5_ifc_create_mkey_out_bits = [
    Fld ''status'' 0x8, Reserved 0x8 0x18, Fld ''syndrome'' 0x20, Reserved 0x40 0x8,
    Fld ''mkey_index'' 0x18, Reserved 0x60 0x20]"

definition mlx5_ifc_create_mkey_in_bits :: layout where
  "mlx5_ifc_create_mkey_in_bits = [
    Fld ''opcode'' 0x10, Reserved 0x10 0x10, Reserved 0x20 0x10, Fld ''op_mod'' 0x10,
    Reserved 0x40 0x20, Fld ''pg_access'' 0x1, Fld ''mkey_umem_valid'' 0x1, Reserved 0x62 0x1e,
    Struct ''memory_key_mkey_entry'' mlx5_ifc_mkc_bits, Reserved 0x280 0x80,
    Fld ''translations_octword_actual_size'' 0x20, Reserved 0x320 0x560, Arr ''klm_pas_mtt'' 0 0x20]"

definition mlx5_ifc_l2_hdr_bits :: layout where
  "mlx5_ifc_l2_hdr_bits = [
    Fld ''dmac_47_16'' 0x20, Fld ''dmac_15_0'' 0x10, Fld ''smac_47_32'' 0x10, Fld ''smac_31_0'' 0x20,
    Fld ''ethertype'' 0x10, Fld ''vlan_type'' 0x10, Fld ''vlan'' 0x10]"

definition mlx5_ifc_ste_general_bits :: layout where
  "mlx5_ifc_ste_general_bits = [
    Fld ''entry_type'' 0x4, Reserved 0x4 0x4, Fld ''entry_sub_type'' 0x8, Fld ''byte_mask'' 0x10,
    Fld ''next_table_base_63_48'' 0x10, Fld ''next_lu_type'' 0x8,
    Fld ''next_table_base_39_32_size'' 0x8, Fld ''next_table_base_31_5_size'' 0x1b,
    Fld ''linear_hash_enable'' 0x1, Reserved 0x5c 0x2, Fld ''next_table_rank'' 0x2, Reserved 0x60 0xa0,
    Fld ''tag_value'' 0x60, Fld ''bit_mask'' 0x60]"

definition mlx5_ifc_ste_sx_transmit_bits :: layout where
  "mlx5_ifc_ste_sx_transmit_bits = [
    Fld ''entry_type'' 0x4, Reserved 0x4 0x4, Fld ''entry_sub_type'' 0x8, Fld ''byte_mask'' 0x10,
    Fld ''next_table_base_63_48'' 0x10, Fld ''next_lu_type'' 0x8,
    Fld ''next_table_base_39_32_size'' 0x8, Fld ''next_table_base_31_5_size'' 0x1b,
    Fld ''linear_hash_enable'' 0x1, Reserved 0x5c 0x2, Fld ''next_table_rank'' 0x2,
    Fld ''sx_wire'' 0x1, Fld ''sx_func_lb'' 0x1, Fld ''sx_sniffer'' 0x1, Fld ''sx_wire_enable'' 0x1,
    Fld ''sx_func_lb_enable'' 0x1, Fld ''sx_sniffer_enable'' 0x1, Fld ''action_type'' 0x3,
    Reserved 0x69 0x1, Fld ''action_description'' 0x6, Fld ''gvmi'' 0x10,
    Fld ''encap_pointer_vlan_data'' 0x20, Fld ''loopback_syndome_en'' 0x8,
    Fld ''loopback_syndome'' 0x8, Fld ''counter_trigger'' 0x10, Fld ''miss_address_63_48'' 0x10,
    Fld ''counter_trigger_23_16'' 0x8, Fld ''miss_address_39_32'' 0x8, Fld ''miss_address_31_6'' 0x1a,
    Fld ''learning_point'' 0x1, Fld ''go_back'' 0x1, Fld ''match_polarity'' 0x1, Fld ''mask_mode'' 0x1,
    Fld ''miss_rank'' 0x2]"

definition mlx5_ifc_ste_rx_steering_mult_bits :: layout where
  "mlx5_ifc_ste_rx_steering_mult_bits = [
    Fld ''entry_type'' 0x4, Reserved 0x4 0x4, Fld ''entry_sub_type'' 0x8, Fld ''byte_mask'' 0x10,
    Fld ''next_table_base_63_48'' 0x10, Fld ''next_lu_type'' 0x8,
    Fld ''next_table_base_39_32_size'' 0x8, Fld ''next_table_base_31_5_size'' 0x1b,
    Fld ''linear_hash_enable'' 0x1, Reserved 0x5c 0x2, Fld ''next_table_rank'' 0x2,
    Fld ''member_count'' 0x10, Fld ''gvmi'' 0x10, Fld ''qp_list_pointer'' 0x20, Reserved 0xa0 0x1,
    Fld ''tunneling_action'' 0x3, Fld ''action_description'' 0x4, Reserved 0xa8 0x8,
    Fld ''counter_trigger_15_0'' 0x10, Fld ''miss_address_63_48'' 0x10,
    Fld ''counter_trigger_23_16'' 0x08, Fld ''miss_address_39_32'' 0x8, Fld ''miss_address_31_6'' 0x1a,
    Fld ''learning_point'' 0x1, Fld ''fail_on_error'' 0x1, Fld ''match_polarity'' 0x1,
    Fld ''mask_mode'' 0x1, Fld ''miss_rank'' 0x2]"

definition mlx5_ifc_ste_modify_packet_bits :: layout where
  "mlx5_ifc_ste_modify_packet_bits = [
    Fld ''entry_type'' 0x4, Reserved 0x4 0x4, Fld ''entry_sub_type'' 0x8, Fld ''byte_mask'' 0x10,
    Fld ''next_table_base_63_48'' 0x10, Fld ''next_lu_type'' 0x8,
    Fld ''next_table_base_39_32_size'' 0x8, Fld ''next_table_base_31_5_size'' 0x1b,
    Fld ''linear_hash_enable'' 0x1, Reserved 0x5c 0x2, Fld ''next_table_rank'' 0x2,
    Fld ''number_of_re_write_actions'' 0x10, Fld ''gvmi'' 0x10,
    Fld ''header_re_write_actions_pointer'' 0x20, Reserved 0xa0 0x1, Fld ''tunneling_action'' 0x3,
    Fld ''action_description'' 0x4, Reserved 0xa8 0x8, Fld ''counter_trigger_15_0'' 0x10,
    Fld ''miss_address_63_48'' 0x10, Fld ''counter_trigger_23_16'' 0x08,
    Fld ''miss_address_39_32'' 0x8, Fld ''miss_address_31_6'' 0x1a, Fld ''learning_point'' 0x1,
    Fld ''fail_on_error'' 0x1, Fld ''match_polarity'' 0x1, Fld ''mask_mode'' 0x1,
    Fld ''miss_rank'' 0x2]"

definition mlx5_ifc_ste_single_action_flow_tag_bits :: layout where
  "mlx5_ifc_ste_single_action_flow_tag_bits = [
    Fld ''action_id'' 0x8, Fld ''flow_tag'' 0x18]"

definition mlx5_ifc_ste_single_action_modify_list_bits :: layout where
  "mlx5_ifc_ste_single_action_modify_list_bits = [
    Fld ''action_id'' 0x8, Fld ''num_of_modify_actions'' 0x8, Fld ''modify_actions_ptr'' 0x10]"

definition mlx5_ifc_ste_single_action_remove_header_bits :: layout where
  "mlx5_ifc_ste_single_action_remove_header_bits = [
    Fld ''action_id'' 0x8, Reserved 0x8 0x2, Fld ''start_anchor'' 0x6, Reserved 0x10 0x2,
    Fld ''end_anchor'' 0x6, Reserved 0x18 0x4, Fld ''decap'' 0x1, Fld ''vni_to_cqe'' 0x1,
    Fld ''qos_profile'' 0x2]"

definition mlx5_ifc_ste_single_action_remove_header_size_bits :: layout where
  "mlx5_ifc_ste_single_action_remove_header_size_bits = [
    Fld ''action_id'' 0x8, Reserved 0x8 0x2, Fld ''start_anchor'' 0x6, Fld ''outer_l4_remove'' 0x1,
    Reserved 0x11 0x1, Fld ''start_offset'' 0x7, Reserved 0x18 0x1, Fld ''remove_size'' 0x6]"

definition mlx5_ifc_ste_double_action_copy_bits :: layout where
  "mlx5_ifc_ste_double_action_copy_bits = [
    Fld ''action_id'' 0x8, Fld ''destination_dw_offset'' 0x8, Reserved 0x10 0x2,
    Fld ''destination_left_shifter'' 0x6, Reserved 0x18 0x2, Fld ''destination_length'' 0x6,
    Reserved 0x20 0x8, Fld ''source_dw_offset'' 0x8, Reserved 0x30 0x2,
    Fld ''source_right_shifter'' 0x6, Reserved 0x38 0x8]"

definition mlx5_ifc_ste_double_action_set_bits :: layout where
  "mlx5_ifc_ste_double_action_set_bits = [
    Fld ''action_id'' 0x8, Fld ''destination_dw_offset'' 0x8, Reserved 0x10 0x2,
    Fld ''destination_left_shifter'' 0x6, Reserved 0x18 0x2, Fld ''destination_length'' 0x6,
    Fld ''inline_data'' 0x20]"

definition mlx5_ifc_ste_double_action_add_bits :: layout where
  "mlx5_ifc_ste_double_action_add_bits = [
    Fld ''action_id'' 0x8, Fld ''destination_dw_offset'' 0x8, Reserved 0x10 0x2,
    Fld ''destination_left_shifter'' 0x6, Reserved 0x18 0x2, Fld ''destination_length'' 0x6,
    Fld ''add_value'' 0x20]"

definition mlx5_ifc_ste_double_action_insert_with_inline_bits :: layout where
  "mlx5_ifc_ste_double_action_insert_with_inline_bits = [
    Fld ''action_id'' 0x8, Reserved 0x8 0x2, Fld ''start_anchor'' 0x6, Fld ''start_offset'' 0x7,
    Reserved 0x17 0x9, Fld ''inline_data'' 0x20]"

definition mlx5_ifc_ste_double_action_insert_with_ptr_bits :: layout where
  "mlx5_ifc_ste_double_action_insert_with_ptr_bits = [
    Fld ''action_id'' 0x8, Reserved 0x8 0x2, Fld ''start_anchor'' 0x6, Fld ''start_offset'' 0x7,
    Fld ''size'' 0x6, Fld ''attributes'' 0x3, Fld ''pointer'' 0x20]"

definition mlx5_ifc_ste_double_action_accelerated_modify_action_list_bits :: layout where
  "mlx5_ifc_ste_double_action_accelerated_modify_action_list_bits = [
    Fld ''action_id'' 0x8, Fld ''modify_actions_pattern_pointer'' 0x18,
    Fld ''number_of_modify_actions'' 0x8, Fld ''modify_actions_argument_pointer'' 0x18]"

definition mlx5_ifc_ste_match_bwc_bits :: layout where
  "mlx5_ifc_ste_match_bwc_bits = [
    Fld ''entry_format'' 0x8, Fld ''counter_id'' 0x18, Fld ''miss_address_63_48'' 0x10,
    Fld ''match_definer_ctx_idx'' 0x8, Fld ''miss_address_39_32'' 0x8, Fld ''miss_address_31_6'' 0x1a,
    Reserved 0x5a 0x1, Fld ''match_polarity'' 0x1, Fld ''reparse'' 0x1, Reserved 0x5d 0x3,
    Fld ''next_table_base_63_48'' 0x10, Fld ''hash_definer_ctx_idx'' 0x8,
    Fld ''next_table_base_39_32_size'' 0x8, Fld ''next_table_base_31_5_size'' 0x1b,
    Fld ''hash_type'' 0x2, Fld ''hash_after_actions'' 0x1, Reserved 0x9e 0x2, Fld ''byte_mask'' 0x10,
    Fld ''next_entry_format'' 0x1, Fld ''mask_mode'' 0x1, Fld ''gvmi'' 0xe, Fld ''action'' 0x40]"

definition mlx5_ifc_ste_mask_and_match_bits :: layout where
  "mlx5_ifc_ste_mask_and_match_bits = [
    Fld ''entry_format'' 0x8, Fld ''counter_id'' 0x18, Fld ''miss_address_63_48'' 0x10,
    Fld ''match_definer_ctx_idx'' 0x8, Fld ''miss_address_39_32'' 0x8, Fld ''miss_address_31_6'' 0x1a,
    Reserved 0x5a 0x1, Fld ''match_polarity'' 0x1, Fld ''reparse'' 0x1, Reserved 0x5d 0x3,
    Fld ''next_table_base_63_48'' 0x10, Fld ''hash_definer_ctx_idx'' 0x8,
    Fld ''next_table_base_39_32_size'' 0x8, Fld ''next_table_base_31_5_size'' 0x1b,
    Fld ''hash_type'' 0x2, Fld ''hash_after_actions'' 0x1, Reserved 0x9e 0x2, Fld ''action'' 0x60]"

definition mlx5_ifc_ste_eth_l2_src_bits :: layout where
  "mlx5_ifc_ste_eth_l2_src_bits = [
    Fld ''smac_47_16'' 0x20, Fld ''smac_15_0'' 0x10, Fld ''l3_ethertype'' 0x10, Fld ''qp_type'' 0x2,
    Fld ''ethertype_filter'' 0x1, Reserved 0x43 0x1, Fld ''sx_sniffer'' 0x1, Fld ''force_lb'' 0x1,
    Fld ''functional_lb'' 0x1, Fld ''port'' 0x1, Reserved 0x48 0x4, Fld ''first_priority'' 0x3,
    Fld ''first_cfi'' 0x1, Fld ''first_vlan_qualifier'' 0x2, Reserved 0x52 0x2,
    Fld ''first_vlan_id'' 0xc, Fld ''ip_fragmented'' 0x1, Fld ''tcp_syn'' 0x1, Fld ''encp_type'' 0x2,
    Fld ''l3_type'' 0x2, Fld ''l4_type'' 0x2, Reserved 0x68 0x4, Fld ''second_priority'' 0x3,
    Fld ''second_cfi'' 0x1, Fld ''second_vlan_qualifier'' 0x2, Reserved 0x72 0x2,
    Fld ''second_vlan_id'' 0xc]"

definition mlx5_ifc_ste_eth_l2_src_v1_bits :: layout where
  "mlx5_ifc_ste_eth_l2_src_v1_bits = [
    Reserved 0x0 0x1, Fld ''sx_sniffer'' 0x1, Fld ''functional_loopback'' 0x1,
    Fld ''ip_fragmented'' 0x1, Fld ''qp_type'' 0x2, Fld ''encapsulation_type'' 0x2, Fld ''port'' 0x2,
    Fld ''l3_type'' 0x2, Fld ''l4_type'' 0x2, Fld ''first_vlan_qualifier'' 0x2,
    Fld ''first_priority'' 0x3, Fld ''first_cfi'' 0x1, Fld ''first_vlan_id'' 0xc,
    Fld ''smac_47_16'' 0x20, Fld ''smac_15_0'' 0x10, Fld ''l3_ethertype'' 0x10, Reserved 0x60 0x6,
    Fld ''tcp_syn'' 0x1, Reserved 0x67 0x3, Fld ''force_loopback'' 0x1, Fld ''l2_ok'' 0x1,
    Fld ''l3_ok'' 0x1, Fld ''l4_ok'' 0x1, Fld ''second_vlan_qualifier'' 0x2,
    Fld ''second_priority'' 0x3, Fld ''second_cfi'' 0x1, Fld ''second_vlan_id'' 0xc]"

definition mlx5_ifc_ste_eth_l2_dst_bits :: layout where
  "mlx5_ifc_ste_eth_l2_dst_bits = [
    Fld ''dmac_47_16'' 0x20, Fld ''dmac_15_0'' 0x10, Fld ''l3_ethertype'' 0x10, Fld ''qp_type'' 0x2,
    Fld ''ethertype_filter'' 0x1, Reserved 0x43 0x1, Fld ''sx_sniffer'' 0x1, Fld ''force_lb'' 0x1,
    Fld ''functional_lb'' 0x1, Fld ''port'' 0x1, Reserved 0x48 0x4, Fld ''first_priority'' 0x3,
    Fld ''first_cfi'' 0x1, Fld ''first_vlan_qualifier'' 0x2, Reserved 0x52 0x2,
    Fld ''first_vlan_id'' 0xc, Fld ''ip_fragmented'' 0x1, Fld ''tcp_syn'' 0x1, Fld ''encp_type'' 0x2,
    Fld ''l3_type'' 0x2, Fld ''l4_type'' 0x2, Reserved 0x68 0x4, Fld ''second_priority'' 0x3,
    Fld ''second_cfi'' 0x1, Fld ''second_vlan_qualifier'' 0x2, Reserved 0x72 0x2,
    Fld ''second_vlan_id'' 0xc]"

definition mlx5_ifc_ste_eth_l2_dst_v1_bits :: layout where
  "mlx5_ifc_ste_eth_l2_dst_v1_bits = [
    Reserved 0x0 0x1, Fld ''sx_sniffer'' 0x1, Fld ''functional_lb'' 0x1, Fld ''ip_fragmented'' 0x1,
    Fld ''qp_type'' 0x2, Fld ''encapsulation_type'' 0x2, Fld ''port'' 0x2, Fld ''l3_type'' 0x2,
    Fld ''l4_type'' 0x2, Fld ''first_vlan_qualifier'' 0x2, Fld ''first_priority'' 0x3,
    Fld ''first_cfi'' 0x1, Fld ''first_vlan_id'' 0xc, Fld ''dmac_47_16'' 0x20, Fld ''dmac_15_0'' 0x10,
    Fld ''l3_ethertype'' 0x10, Reserved 0x60 0x6, Fld ''tcp_syn'' 0x1, Reserved 0x67 0x3,
    Fld ''force_lb'' 0x1, Fld ''l2_ok'' 0x1, Fld ''l3_ok'' 0x1, Fld ''l4_ok'' 0x1,
    Fld ''second_vlan_qualifier'' 0x2, Fld ''second_priority'' 0x3, Fld ''second_cfi'' 0x1,
    Fld ''second_vlan_id'' 0xc]"

definition mlx5_ifc_ste_eth_l2_src_dst_bits :: layout where
  "mlx5_ifc_ste_eth_l2_src_dst_bits = [
    Fld ''dmac_47_16'' 0x20, Fld ''dmac_15_0'' 0x10, Fld ''smac_47_32'' 0x10, Fld ''smac_31_0'' 0x20,
    Fld ''sx_sniffer'' 0x1, Fld ''force_lb'' 0x1, Fld ''functional_lb'' 0x1, Fld ''port'' 0x1,
    Fld ''l3_type'' 0x2, Reserved 0x66 0x6, Fld ''first_priority'' 0x3, Fld ''first_cfi'' 0x1,
    Fld ''first_vlan_qualifier'' 0x2, Reserved 0x72 0x2, Fld ''first_vlan_id'' 0xc]"

definition mlx5_ifc_ste_eth_l2_src_dst_v1_bits :: layout where
  "mlx5_ifc_ste_eth_l2_src_dst_v1_bits = [
    Fld ''dmac_47_16'' 0x20, Fld ''smac_47_16'' 0x20, Fld ''dmac_15_0'' 0x10, Reserved 0x50 0x2,
    Fld ''functional_lb'' 0x1, Reserved 0x53 0x5, Fld ''port'' 0x2, Fld ''l3_type'' 0x2,
    Reserved 0x5c 0x2, Fld ''first_vlan_qualifier'' 0x2, Fld ''first_priority'' 0x3,
    Fld ''first_cfi'' 0x1, Fld ''first_vlan_id'' 0xc, Fld ''smac_15_0'' 0x10]"

definition mlx5_ifc_ste_eth_l3_ipv4_5_tuple_bits :: layout where
  "mlx5_ifc_ste_eth_l3_ipv4_5_tuple_bits = [
    Fld ''destination_address'' 0x20, Fld ''source_address'' 0x20, Fld ''source_port'' 0x10,
    Fld ''destination_port'' 0x10, Fld ''fragmented'' 0x1, Fld ''first_fragment'' 0x1,
    Reserved 0x62 0x2, Reserved 0x64 0x1, Fld ''ecn'' 0x2, Fld ''tcp_ns'' 0x1, Fld ''tcp_cwr'' 0x1,
    Fld ''tcp_ece'' 0x1, Fld ''tcp_urg'' 0x1, Fld ''tcp_ack'' 0x1, Fld ''tcp_psh'' 0x1,
    Fld ''tcp_rst'' 0x1, Fld ''tcp_syn'' 0x1, Fld ''tcp_fin'' 0x1, Fld ''dscp'' 0x6, Reserved 0x76 0x2,
    Fld ''protocol'' 0x8]"

definition mlx5_ifc_ste_eth_l3_ipv4_5_tuple_v1_bits :: layout where
  "mlx5_ifc_ste_eth_l3_ipv4_5_tuple_v1_bits = [
    Fld ''source_address'' 0x20, Fld ''destination_address'' 0x20, Fld ''source_port'' 0x10,
    Fld ''destination_port'' 0x10, Reserved 0x60 0x4, Fld ''l4_ok'' 0x1, Fld ''l3_ok'' 0x1,
    Fld ''fragmented'' 0x1, Fld ''tcp_ns'' 0x1, Fld ''tcp_cwr'' 0x1, Fld ''tcp_ece'' 0x1,
    Fld ''tcp_urg'' 0x1, Fld ''tcp_ack'' 0x1, Fld ''tcp_psh'' 0x1, Fld ''tcp_rst'' 0x1,
    Fld ''tcp_syn'' 0x1, Fld ''tcp_fin'' 0x1, Fld ''dscp'' 0x6, Fld ''ecn'' 0x2, Fld ''protocol'' 0x8]"

definition mlx5_ifc_ste_eth_l3_ipv6_dst_bits :: layout where
  "mlx5_ifc_ste_eth_l3_ipv6_dst_bits = [
    Fld ''dst_ip_127_96'' 0x20, Fld ''dst_ip_95_64'' 0x20, Fld ''dst_ip_63_32'' 0x20,
    Fld ''dst_ip_31_0'' 0x20]"

definition mlx5_ifc_ste_eth_l2_tnl_bits :: layout where
  "mlx5_ifc_ste_eth_l2_tnl_bits = [
    Fld ''dmac_47_16'' 0x20, Fld ''dmac_15_0'' 0x10, Fld ''l3_ethertype'' 0x10,
    Fld ''l2_tunneling_network_id'' 0x20, Fld ''ip_fragmented'' 0x1, Fld ''tcp_syn'' 0x1,
    Fld ''encp_type'' 0x2, Fld ''l3_type'' 0x2, Fld ''l4_type'' 0x2, Fld ''first_priority'' 0x3,
    Fld ''first_cfi'' 0x1, Reserved 0x6c 0x3, Fld ''gre_key_flag'' 0x1,
    Fld ''first_vlan_qualifier'' 0x2, Reserved 0x72 0x2, Fld ''first_vlan_id'' 0xc]"

definition mlx5_ifc_ste_eth_l2_tnl_v1_bits :: layout where
  "mlx5_ifc_ste_eth_l2_tnl_v1_bits = [
    Fld ''l2_tunneling_network_id'' 0x20, Fld ''dmac_47_16'' 0x20, Fld ''dmac_15_0'' 0x10,
    Fld ''l3_ethertype'' 0x10, Reserved 0x60 0x3, Fld ''ip_fragmented'' 0x1, Reserved 0x64 0x2,
    Fld ''encp_type'' 0x2, Reserved 0x68 0x2, Fld ''l3_type'' 0x2, Fld ''l4_type'' 0x2,
    Fld ''first_vlan_qualifier'' 0x2, Fld ''first_priority'' 0x3, Fld ''first_cfi'' 0x1,
    Fld ''first_vlan_id'' 0xc]"

definition mlx5_ifc_ste_eth_l3_ipv6_src_bits :: layout where
  "mlx5_ifc_ste_eth_l3_ipv6_src_bits = [
    Fld ''src_ip_127_96'' 0x20, Fld ''src_ip_95_64'' 0x20, Fld ''src_ip_63_32'' 0x20,
    Fld ''src_ip_31_0'' 0x20]"

definition mlx5_ifc_ste_eth_l3_ipv4_misc_bits :: layout where
  "mlx5_ifc_ste_eth_l3_ipv4_misc_bits = [
    Fld ''version'' 0x4, Fld ''ihl'' 0x4, Reserved 0x8 0x8, Fld ''total_length'' 0x10,
    Fld ''identification'' 0x10, Fld ''flags'' 0x3, Fld ''fragment_offset'' 0xd,
    Fld ''time_to_live'' 0x8, Reserved 0x48 0x8, Fld ''checksum'' 0x10, Reserved 0x60 0x20]"

definition mlx5_ifc_ste_eth_l3_ipv4_misc_v1_bits :: layout where
  "mlx5_ifc_ste_eth_l3_ipv4_misc_v1_bits = [
    Fld ''identification'' 0x10, Fld ''flags'' 0x3, Fld ''fragment_offset'' 0xd,
    Fld ''total_length'' 0x10, Fld ''checksum'' 0x10, Fld ''version'' 0x4, Fld ''ihl'' 0x4,
    Fld ''time_to_live'' 0x8, Reserved 0x50 0x10, Reserved 0x60 0x1c, Fld ''voq_internal_prio'' 0x4]"

definition mlx5_ifc_ste_eth_l4_bits :: layout where
  "mlx5_ifc_ste_eth_l4_bits = [
    Fld ''fragmented'' 0x1, Fld ''first_fragment'' 0x1, Reserved 0x2 0x6, Fld ''protocol'' 0x8,
    Fld ''dst_port'' 0x10, Fld ''ipv6_version'' 0x4, Reserved 0x24 0x1, Fld ''ecn'' 0x2,
    Fld ''tcp_ns'' 0x1, Fld ''tcp_cwr'' 0x1, Fld ''tcp_ece'' 0x1, Fld ''tcp_urg'' 0x1,
    Fld ''tcp_ack'' 0x1, Fld ''tcp_psh'' 0x1, Fld ''tcp_rst'' 0x1, Fld ''tcp_syn'' 0x1,
    Fld ''tcp_fin'' 0x1, Fld ''src_port'' 0x10, Fld ''ipv6_payload_length'' 0x10,
    Fld ''ipv6_hop_limit'' 0x8, Fld ''dscp'' 0x6, Reserved 0x5e 0x2, Fld ''tcp_data_offset'' 0x4,
    Reserved 0x64 0x8, Fld ''flow_label'' 0x14]"

definition mlx5_ifc_ste_eth_l4_v1_bits :: layout where
  "mlx5_ifc_ste_eth_l4_v1_bits = [
    Fld ''ipv6_version'' 0x4, Reserved 0x4 0x4, Fld ''dscp'' 0x6, Fld ''ecn'' 0x2,
    Fld ''ipv6_hop_limit'' 0x8, Fld ''protocol'' 0x8, Fld ''src_port'' 0x10, Fld ''dst_port'' 0x10,
    Fld ''first_fragment'' 0x1, Reserved 0x41 0xb, Fld ''flow_label'' 0x14,
    Fld ''tcp_data_offset'' 0x4, Fld ''l4_ok'' 0x1, Fld ''l3_ok'' 0x1, Fld ''fragmented'' 0x1,
    Fld ''tcp_ns'' 0x1, Fld ''tcp_cwr'' 0x1, Fld ''tcp_ece'' 0x1, Fld ''tcp_urg'' 0x1,
    Fld ''tcp_ack'' 0x1, Fld ''tcp_psh'' 0x1, Fld ''tcp_rst'' 0x1, Fld ''tcp_syn'' 0x1,
    Fld ''tcp_fin'' 0x1, Fld ''ipv6_paylen'' 0x10]"

definition mlx5_ifc_ste_eth_l4_misc_bits :: layout where
  "mlx5_ifc_ste_eth_l4_misc_bits = [
    Fld ''checksum'' 0x10, Fld ''length'' 0x10, Fld ''seq_num'' 0x20, Fld ''ack_num'' 0x20,
    Fld ''urgent_pointer'' 0x10, Fld ''window_size'' 0x10]"

definition mlx5_ifc_ste_eth_l4_misc_v1_bits :: layout where
  "mlx5_ifc_ste_eth_l4_misc_v1_bits = [
    Fld ''window_size'' 0x10, Fld ''urgent_pointer'' 0x10, Fld ''ack_num'' 0x20, Fld ''seq_num'' 0x20,
    Fld ''length'' 0x10, Fld ''checksum'' 0x10]"

definition mlx5_ifc_ste_mpls_bits :: layout where
  "mlx5_ifc_ste_mpls_bits = [
    Fld ''mpls0_label'' 0x14, Fld ''mpls0_exp'' 0x3, Fld ''mpls0_s_bos'' 0x1, Fld ''mpls0_ttl'' 0x8,
    Fld ''mpls1_label'' 0x20, Fld ''mpls2_label'' 0x20, Reserved 0x60 0x16, Fld ''mpls4_s_bit'' 0x1,
    Fld ''mpls4_qualifier'' 0x1, Fld ''mpls3_s_bit'' 0x1, Fld ''mpls3_qualifier'' 0x1,
    Fld ''mpls2_s_bit'' 0x1, Fld ''mpls2_qualifier'' 0x1, Fld ''mpls1_s_bit'' 0x1,
    Fld ''mpls1_qualifier'' 0x1, Fld ''mpls0_s_bit'' 0x1, Fld ''mpls0_qualifier'' 0x1]"

definition mlx5_ifc_ste_mpls_v1_bits :: layout where
  "mlx5_ifc_ste_mpls_v1_bits = [
    Reserved 0x0 0x15, Fld ''mpls_ok'' 0x1, Fld ''mpls4_s_bit'' 0x1, Fld ''mpls4_qualifier'' 0x1,
    Fld ''mpls3_s_bit'' 0x1, Fld ''mpls3_qualifier'' 0x1, Fld ''mpls2_s_bit'' 0x1,
    Fld ''mpls2_qualifier'' 0x1, Fld ''mpls1_s_bit'' 0x1, Fld ''mpls1_qualifier'' 0x1,
    Fld ''mpls0_s_bit'' 0x1, Fld ''mpls0_qualifier'' 0x1, Fld ''mpls0_label'' 0x14,
    Fld ''mpls0_exp'' 0x3, Fld ''mpls0_s_bos'' 0x1, Fld ''mpls0_ttl'' 0x8, Fld ''mpls1_label'' 0x20,
    Fld ''mpls2_label'' 0x20]"

definition mlx5_ifc_ste_register_0_bits :: layout where
  "mlx5_ifc_ste_register_0_bits = [
    Fld ''register_0_h'' 0x20, Fld ''register_0_l'' 0x20, Fld ''register_1_h'' 0x20,
    Fld ''register_1_l'' 0x20]"

definition mlx5_ifc_ste_register_1_bits :: layout where
  "mlx5_ifc_ste_register_1_bits = [
    Fld ''register_2_h'' 0x20, Fld ''register_2_l'' 0x20, Fld ''register_3_h'' 0x20,
    Fld ''register_3_l'' 0x20]"

definition mlx5_ifc_ste_gre_bits :: layout where
  "mlx5_ifc_ste_gre_bits = [
    Fld ''gre_c_present'' 0x1, Reserved 0x1 0x1, Fld ''gre_k_present'' 0x1, Fld ''gre_s_present'' 0x1,
    Fld ''strict_src_route'' 0x1, Fld ''recur'' 0x3, Fld ''flags'' 0x5, Fld ''version'' 0x3,
    Fld ''gre_protocol'' 0x10, Fld ''checksum'' 0x10, Fld ''offset'' 0x10, Fld ''gre_key_h'' 0x18,
    Fld ''gre_key_l'' 0x8, Fld ''seq_num'' 0x20]"

definition mlx5_ifc_ste_gre_v1_bits :: layout where
  "mlx5_ifc_ste_gre_v1_bits = [
    Fld ''gre_c_present'' 0x1, Reserved 0x1 0x1, Fld ''gre_k_present'' 0x1, Fld ''gre_s_present'' 0x1,
    Fld ''strict_src_route'' 0x1, Fld ''recur'' 0x3, Fld ''flags'' 0x5, Fld ''version'' 0x3,
    Fld ''gre_protocol'' 0x10, Reserved 0x20 0x20, Fld ''gre_key_h'' 0x18, Fld ''gre_key_l'' 0x8,
    Reserved 0x60 0x20]"

definition mlx5_ifc_ste_flex_parser_0_bits :: layout where
  "mlx5_ifc_ste_flex_parser_0_bits = [
    Fld ''flex_parser_3'' 0x20, Fld ''flex_parser_2'' 0x20, Fld ''flex_parser_1'' 0x20,
    Fld ''flex_parser_0'' 0x20]"

definition mlx5_ifc_ste_flex_parser_1_bits :: layout where
  "mlx5_ifc_ste_flex_parser_1_bits = [
    Fld ''flex_parser_7'' 0x20, Fld ''flex_parser_6'' 0x20, Fld ''flex_parser_5'' 0x20,
    Fld ''flex_parser_4'' 0x20]"

definition mlx5_ifc_ste_flex_parser_tnl_vxlan_gpe_bits :: layout where
  "mlx5_ifc_ste_flex_parser_tnl_vxlan_gpe_bits = [
    Fld ''outer_vxlan_gpe_flags'' 0x8, Reserved 0x8 0x10, Fld ''outer_vxlan_gpe_next_protocol'' 0x8,
    Fld ''outer_vxlan_gpe_vni'' 0x18, Reserved 0x38 0x8, Reserved 0x40 0x40]"

definition mlx5_ifc_ste_flex_parser_tnl_geneve_bits :: layout where
  "mlx5_ifc_ste_flex_parser_tnl_geneve_bits = [
    Reserved 0x0 0x2, Fld ''geneve_opt_len'' 0x6, Fld ''geneve_oam'' 0x1, Reserved 0x9 0x7,
    Fld ''geneve_protocol_type'' 0x10, Fld ''geneve_vni'' 0x18, Reserved 0x38 0x8, Reserved 0x40 0x40]"

definition mlx5_ifc_ste_flex_parser_tnl_gtpu_bits :: layout where
  "mlx5_ifc_ste_flex_parser_tnl_gtpu_bits = [
    Reserved 0x0 0x5, Fld ''gtpu_flags'' 0x3, Fld ''gtpu_msg_type'' 0x8, Reserved 0x10 0x10,
    Fld ''gtpu_teid'' 0x20, Reserved 0x40 0x40]"

definition mlx5_ifc_ste_general_purpose_bits :: layout where
  "mlx5_ifc_ste_general_purpose_bits = [
    Fld ''general_purpose_lookup_field'' 0x20, Reserved 0x20 0x20, Reserved 0x40 0x20,
    Reserved 0x60 0x20]"

definition mlx5_ifc_ste_src_gvmi_qp_bits :: layout where
  "mlx5_ifc_ste_src_gvmi_qp_bits = [
    Fld ''loopback_syndrome'' 0x8, Reserved 0x8 0x8, Fld ''source_gvmi'' 0x10, Reserved 0x20 0x5,
    Fld ''force_lb'' 0x1, Fld ''functional_lb'' 0x1, Fld ''source_is_requestor'' 0x1,
    Fld ''source_qp'' 0x18, Reserved 0x40 0x20, Reserved 0x60 0x20]"

definition mlx5_ifc_ste_src_gvmi_qp_v1_bits :: layout where
  "mlx5_ifc_ste_src_gvmi_qp_v1_bits = [
    Fld ''loopback_synd'' 0x8, Reserved 0x8 0x7, Fld ''functional_lb'' 0x1, Fld ''source_gvmi'' 0x10,
    Fld ''force_lb'' 0x1, Reserved 0x21 0x1, Fld ''source_is_requestor'' 0x1, Reserved 0x23 0x5,
    Fld ''source_qp'' 0x18, Reserved 0x40 0x20, Reserved 0x60 0x20]"

definition mlx5_ifc_ste_icmp_v1_bits :: layout where
  "mlx5_ifc_ste_icmp_v1_bits = [
    Fld ''icmp_payload_data'' 0x20, Fld ''icmp_header_data'' 0x20, Fld ''icmp_type'' 0x8,
    Fld ''icmp_code'' 0x8, Reserved 0x50 0x10, Reserved 0x60 0x20]"

definition mlx5_ifc_set_action_in_bits :: layout where
  "mlx5_ifc_set_action_in_bits = [
    Fld ''action_type'' 0x4, Fld ''field'' 0xc, Reserved 0x10 0x3, Fld ''offset'' 0x5,
    Reserved 0x18 0x3, Fld ''length'' 0x5, Fld ''data'' 0x20]"

definition mlx5_ifc_add_action_in_bits :: layout where
  "mlx5_ifc_add_action_in_bits = [
    Fld ''action_type'' 0x4, Fld ''field'' 0xc, Reserved 0x10 0x10, Fld ''data'' 0x20]"

definition mlx5_ifc_copy_action_in_bits :: layout where
  "mlx5_ifc_copy_action_in_bits = [
    Fld ''action_type'' 0x4, Fld ''src_field'' 0xc, Reserved 0x10 0x3, Fld ''src_offset'' 0x5,
    Reserved 0x18 0x3, Fld ''length'' 0x5, Reserved 0x20 0x4, Fld ''dst_field'' 0xc, Reserved 0x30 0x3,
    Fld ''dst_offset'' 0x5, Reserved 0x38 0x8]"

section \<open>Sizes and alignment\<close>

lemma mkc_facts [ifc_facts]:
  "layout_bits mlx5_ifc_mkc_bits = 0x200"
  "layout_ok 0 mlx5_ifc_mkc_bits" "names_ok 0 mlx5_ifc_mkc_bits" "union_free mlx5_ifc_mkc_bits"
  by (simp_all add: mlx5_ifc_mkc_bits_def ifc_facts)

lemma create_mkey_out_facts [ifc_facts]:
  "layout_bits mlx5_ifc_create_mkey_out_bits = 0x80"
  "layout_ok 0 mlx5_ifc_create_mkey_out_bits" "names_ok 0 mlx5_ifc_create_mkey_out_bits" "union_free mlx5_ifc_create_mkey_out_bits"
  by (simp_all add: mlx5_ifc_create_mkey_out_bits_def ifc_facts)

lemma create_mkey_in_facts [ifc_facts]:
  "layout_bits mlx5_ifc_create_mkey_in_bits = 0x880"
  "layout_ok 0 mlx5_ifc_create_mkey_in_bits" "names_ok 0 mlx5_ifc_create_mkey_in_bits" "union_free mlx5_ifc_create_mkey_in_bits"
  by (simp_all add: mlx5_ifc_create_mkey_in_bits_def ifc_facts)

lemma l2_hdr_facts [ifc_facts]:
  "layout_bits mlx5_ifc_l2_hdr_bits = 0x90"
  "layout_ok 0 mlx5_ifc_l2_hdr_bits" "names_ok 0 mlx5_ifc_l2_hdr_bits" "union_free mlx5_ifc_l2_hdr_bits"
  by (simp_all add: mlx5_ifc_l2_hdr_bits_def ifc_facts)

lemma ste_general_facts [ifc_facts]:
  "layout_bits mlx5_ifc_ste_general_bits = 0x1c0"
  "layout_ok 0 mlx5_ifc_ste_general_bits" "names_ok 0 mlx5_ifc_ste_general_bits" "union_free mlx5_ifc_ste_general_bits"
  by (simp_all add: mlx5_ifc_ste_general_bits_def ifc_facts)

lemma ste_sx_transmit_facts [ifc_facts]:
  "layout_bits mlx5_ifc_ste_sx_transmit_bits = 0x100"
  "layout_ok 0 mlx5_ifc_ste_sx_transmit_bits" "names_ok 0 mlx5_ifc_ste_sx_transmit_bits" "union_free mlx5_ifc_ste_sx_transmit_bits"
  by (simp_all add: mlx5_ifc_ste_sx_transmit_bits_def ifc_facts)

lemma ste_rx_steering_mult_facts [ifc_facts]:
  "layout_bits mlx5_ifc_ste_rx_steering_mult_bits = 0x100"
  "layout_ok 0 mlx5_ifc_ste_rx_steering_mult_bits" "names_ok 0 mlx5_ifc_ste_rx_steering_mult_bits" "union_free mlx5_ifc_ste_rx_steering_mult_bits"
  by (simp_all add: mlx5_ifc_ste_rx_steering_mult_bits_def ifc_facts)

lemma ste_modify_packet_facts [ifc_facts]:
  "layout_bits mlx5_ifc_ste_modify_packet_bits = 0x100"
  "layout_ok 0 mlx5_ifc_ste_modify_packet_bits" "names_ok 0 mlx5_ifc_ste_modify_packet_bits" "union_free mlx5_ifc_ste_modify_packet_bits"
  by (simp_all add: mlx5_ifc_ste_modify_packet_bits_def ifc_facts)

lemma ste_single_action_flow_tag_facts [ifc_facts]:
  "layout_bits mlx5_ifc_ste_single_action_flow_tag_bits = 0x20"
  "layout_ok 0 mlx5_ifc_ste_single_action_flow_tag_bits" "names_ok 0 mlx5_ifc_ste_single_action_flow_tag_bits" "union_free mlx5_ifc_ste_single_action_flow_tag_bits"
  by (simp_all add: mlx5_ifc_ste_single_action_flow_tag_bits_def ifc_facts)

lemma ste_single_action_modify_list_facts [ifc_facts]:
  "layout_bits mlx5_ifc_ste_single_action_modify_list_bits = 0x20"
  "layout_ok 0 mlx5_ifc_ste_single_action_modify_list_bits" "names_ok 0 mlx5_ifc_ste_single_action_modify_list_bits" "union_free mlx5_ifc_ste_single_action_modify_list_bits"
  by (simp_all add: mlx5_ifc_ste_single_action_modify_list_bits_def ifc_facts)

lemma ste_single_action_remove_header_facts [ifc_facts]:
  "layout_bits mlx5_ifc_ste_single_action_remove_header_bits = 0x20"
  "layout_ok 0 mlx5_ifc_ste_single_action_remove_header_bits" "names_ok 0 mlx5_ifc_ste_single_action_remove_header_bits" "union_free mlx5_ifc_ste_single_action_remove_header_bits"
  by (simp_all add: mlx5_ifc_ste_single_action_remove_header_bits_def ifc_facts)

lemma ste_single_action_remove_header_size_facts [ifc_facts]:
  "layout_bits mlx5_ifc_ste_single_action_remove_header_size_bits = 0x20"
  "layout_ok 0 mlx5_ifc_ste_single_action_remove_header_size_bits" "\<not> names_ok 0 mlx5_ifc_ste_single_action_remove_header_size_bits" "union_free mlx5_ifc_ste_single_action_remove_header_size_bits"
  by (simp_all add: mlx5_ifc_ste_single_action_remove_header_size_bits_def ifc_facts)

lemma ste_double_action_copy_facts [ifc_facts]:
  "layout_bits mlx5_ifc_ste_double_action_copy_bits = 0x40"
  "layout_ok 0 mlx5_ifc_ste_double_action_copy_bits" "names_ok 0 mlx5_ifc_ste_double_action_copy_bits" "union_free mlx5_ifc_ste_double_action_copy_bits"
  by (simp_all add: mlx5_ifc_ste_double_action_copy_bits_def ifc_facts)

lemma ste_double_action_set_facts [ifc_facts]:
  "layout_bits mlx5_ifc_ste_double_action_set_bits = 0x40"
  "layout_ok 0 mlx5_ifc_ste_double_action_set_bits" "names_ok 0 mlx5_ifc_ste_double_action_set_bits" "union_free mlx5_ifc_ste_double_action_set_bits"
  by (simp_all add: mlx5_ifc_ste_double_action_set_bits_def ifc_facts)

lemma ste_double_action_add_facts [ifc_facts]:
  "layout_bits mlx5_ifc_ste_double_action_add_bits = 0x40"
  "layout_ok 0 mlx5_ifc_ste_double_action_add_bits" "names_ok 0 mlx5_ifc_ste_double_action_add_bits" "union_free mlx5_ifc_ste_double_action_add_bits"
  by (simp_all add: mlx5_ifc_ste_double_action_add_bits_def ifc_facts)

lemma ste_double_action_insert_with_inline_facts [ifc_facts]:
  "layout_bits mlx5_ifc_ste_double_action_insert_with_inline_bits = 0x40"
  "layout_ok 0 mlx5_ifc_ste_double_action_insert_with_inline_bits" "names_ok 0 mlx5_ifc_ste_double_action_insert_with_inline_bits" "union_free mlx5_ifc_ste_double_action_insert_with_inline_bits"
  by (simp_all add: mlx5_ifc_ste_double_action_insert_with_inline_bits_def ifc_facts)

lemma ste_double_action_insert_with_ptr_facts [ifc_facts]:
  "layout_bits mlx5_ifc_ste_double_action_insert_with_ptr_bits = 0x40"
  "layout_ok 0 mlx5_ifc_ste_double_action_insert_with_ptr_bits" "names_ok 0 mlx5_ifc_ste_double_action_insert_with_ptr_bits" "union_free mlx5_ifc_ste_double_action_insert_with_ptr_bits"
  by (simp_all add: mlx5_ifc_ste_double_action_insert_with_ptr_bits_def ifc_facts)

lemma ste_double_action_accelerated_modify_action_list_facts [ifc_facts]:
  "layout_bits mlx5_ifc_ste_double_action_accelerated_modify_action_list_bits = 0x40"
  "layout_ok 0 mlx5_ifc_ste_double_action_accelerated_modify_action_list_bits" "names_ok 0 mlx5_ifc_ste_double_action_accelerated_modify_action_list_bits" "union_free mlx5_ifc_ste_double_action_accelerated_modify_action_list_bits"
  by (simp_all add: mlx5_ifc_ste_double_action_accelerated_modify_action_list_bits_def ifc_facts)

lemma ste_match_bwc_facts [ifc_facts]:
  "layout_bits mlx5_ifc_ste_match_bwc_bits = 0x100"
  "layout_ok 0 mlx5_ifc_ste_match_bwc_bits" "names_ok 0 mlx5_ifc_ste_match_bwc_bits" "union_free mlx5_ifc_ste_match_bwc_bits"
  by (simp_all add: mlx5_ifc_ste_match_bwc_bits_def ifc_facts)

lemma ste_mask_and_match_facts [ifc_facts]:
  "layout_bits mlx5_ifc_ste_mask_and_match_bits = 0x100"
  "layout_ok 0 mlx5_ifc_ste_mask_and_match_bits" "names_ok 0 mlx5_ifc_ste_mask_and_match_bits" "union_free mlx5_ifc_ste_mask_and_match_bits"
  by (simp_all add: mlx5_ifc_ste_mask_and_match_bits_def ifc_facts)

lemma ste_eth_l2_src_facts [ifc_facts]:
  "layout_bits mlx5_ifc_ste_eth_l2_src_bits = 0x80"
  "layout_ok 0 mlx5_ifc_ste_eth_l2_src_bits" "names_ok 0 mlx5_ifc_ste_eth_l2_src_bits" "union_free mlx5_ifc_ste_eth_l2_src_bits"
  by (simp_all add: mlx5_ifc_ste_eth_l2_src_bits_def ifc_facts)

lemma ste_eth_l2_src_v1_facts [ifc_facts]:
  "layout_bits mlx5_ifc_ste_eth_l2_src_v1_bits = 0x80"
  "layout_ok 0 mlx5_ifc_ste_eth_l2_src_v1_bits" "names_ok 0 mlx5_ifc_ste_eth_l2_src_v1_bits" "union_free mlx5_ifc_ste_eth_l2_src_v1_bits"
  by (simp_all add: mlx5_ifc_ste_eth_l2_src_v1_bits_def ifc_facts)

lemma ste_eth_l2_dst_facts [ifc_facts]:
  "layout_bits mlx5_ifc_ste_eth_l2_dst_bits = 0x80"
  "layout_ok 0 mlx5_ifc_ste_eth_l2_dst_bits" "names_ok 0 mlx5_ifc_ste_eth_l2_dst_bits" "union_free mlx5_ifc_ste_eth_l2_dst_bits"
  by (simp_all add: mlx5_ifc_ste_eth_l2_dst_bits_def ifc_facts)

lemma ste_eth_l2_dst_v1_facts [ifc_facts]:
  "layout_bits mlx5_ifc_ste_eth_l2_dst_v1_bits = 0x80"
  "layout_ok 0 mlx5_ifc_ste_eth_l2_dst_v1_bits" "names_ok 0 mlx5_ifc_ste_eth_l2_dst_v1_bits" "union_free mlx5_ifc_ste_eth_l2_dst_v1_bits"
  by (simp_all add: mlx5_ifc_ste_eth_l2_dst_v1_bits_def ifc_facts)

lemma ste_eth_l2_src_dst_facts [ifc_facts]:
  "layout_bits mlx5_ifc_ste_eth_l2_src_dst_bits = 0x80"
  "layout_ok 0 mlx5_ifc_ste_eth_l2_src_dst_bits" "names_ok 0 mlx5_ifc_ste_eth_l2_src_dst_bits" "union_free mlx5_ifc_ste_eth_l2_src_dst_bits"
  by (simp_all add: mlx5_ifc_ste_eth_l2_src_dst_bits_def ifc_facts)

lemma ste_eth_l2_src_dst_v1_facts [ifc_facts]:
  "layout_bits mlx5_ifc_ste_eth_l2_src_dst_v1_bits = 0x80"
  "layout_ok 0 mlx5_ifc_ste_eth_l2_src_dst_v1_bits" "names_ok 0 mlx5_ifc_ste_eth_l2_src_dst_v1_bits" "union_free mlx5_ifc_ste_eth_l2_src_dst_v1_bits"
  by (simp_all add: mlx5_ifc_ste_eth_l2_src_dst_v1_bits_def ifc_facts)

lemma ste_eth_l3_ipv4_5_tuple_facts [ifc_facts]:
  "layout_bits mlx5_ifc_ste_eth_l3_ipv4_5_tuple_bits = 0x80"
  "layout_ok 0 mlx5_ifc_ste_eth_l3_ipv4_5_tuple_bits" "names_ok 0 mlx5_ifc_ste_eth_l3_ipv4_5_tuple_bits" "union_free mlx5_ifc_ste_eth_l3_ipv4_5_tuple_bits"
  by (simp_all add: mlx5_ifc_ste_eth_l3_ipv4_5_tuple_bits_def ifc_facts)

lemma ste_eth_l3_ipv4_5_tuple_v1_facts [ifc_facts]:
  "layout_bits mlx5_ifc_ste_eth_l3_ipv4_5_tuple_v1_bits = 0x80"
  "layout_ok 0 mlx5_ifc_ste_eth_l3_ipv4_5_tuple_v1_bits" "names_ok 0 mlx5_ifc_ste_eth_l3_ipv4_5_tuple_v1_bits" "union_free mlx5_ifc_ste_eth_l3_ipv4_5_tuple_v1_bits"
  by (simp_all add: mlx5_ifc_ste_eth_l3_ipv4_5_tuple_v1_bits_def ifc_facts)

lemma ste_eth_l3_ipv6_dst_facts [ifc_facts]:
  "layout_bits mlx5_ifc_ste_eth_l3_ipv6_dst_bits = 0x80"
  "layout_ok 0 mlx5_ifc_ste_eth_l3_ipv6_dst_bits" "names_ok 0 mlx5_ifc_ste_eth_l3_ipv6_dst_bits" "union_free mlx5_ifc_ste_eth_l3_ipv6_dst_bits"
  by (simp_all add: mlx5_ifc_ste_eth_l3_ipv6_dst_bits_def ifc_facts)

lemma ste_eth_l2_tnl_facts [ifc_facts]:
  "layout_bits mlx5_ifc_ste_eth_l2_tnl_bits = 0x80"
  "layout_ok 0 mlx5_ifc_ste_eth_l2_tnl_bits" "names_ok 0 mlx5_ifc_ste_eth_l2_tnl_bits" "union_free mlx5_ifc_ste_eth_l2_tnl_bits"
  by (simp_all add: mlx5_ifc_ste_eth_l2_tnl_bits_def ifc_facts)

lemma ste_eth_l2_tnl_v1_facts [ifc_facts]:
  "layout_bits mlx5_ifc_ste_eth_l2_tnl_v1_bits = 0x80"
  "layout_ok 0 mlx5_ifc_ste_eth_l2_tnl_v1_bits" "names_ok 0 mlx5_ifc_ste_eth_l2_tnl_v1_bits" "union_free mlx5_ifc_ste_eth_l2_tnl_v1_bits"
  by (simp_all add: mlx5_ifc_ste_eth_l2_tnl_v1_bits_def ifc_facts)

lemma ste_eth_l3_ipv6_src_facts [ifc_facts]:
  "layout_bits mlx5_ifc_ste_eth_l3_ipv6_src_bits = 0x80"
  "layout_ok 0 mlx5_ifc_ste_eth_l3_ipv6_src_bits" "names_ok 0 mlx5_ifc_ste_eth_l3_ipv6_src_bits" "union_free mlx5_ifc_ste_eth_l3_ipv6_src_bits"
  by (simp_all add: mlx5_ifc_ste_eth_l3_ipv6_src_bits_def ifc_facts)

lemma ste_eth_l3_ipv4_misc_facts [ifc_facts]:
  "layout_bits mlx5_ifc_ste_eth_l3_ipv4_misc_bits = 0x80"
  "layout_ok 0 mlx5_ifc_ste_eth_l3_ipv4_misc_bits" "names_ok 0 mlx5_ifc_ste_eth_l3_ipv4_misc_bits" "union_free mlx5_ifc_ste_eth_l3_ipv4_misc_bits"
  by (simp_all add: mlx5_ifc_ste_eth_l3_ipv4_misc_bits_def ifc_facts)

lemma ste_eth_l3_ipv4_misc_v1_facts [ifc_facts]:
  "layout_bits mlx5_ifc_ste_eth_l3_ipv4_misc_v1_bits = 0x80"
  "layout_ok 0 mlx5_ifc_ste_eth_l3_ipv4_misc_v1_bits" "names_ok 0 mlx5_ifc_ste_eth_l3_ipv4_misc_v1_bits" "union_free mlx5_ifc_ste_eth_l3_ipv4_misc_v1_bits"
  by (simp_all add: mlx5_ifc_ste_eth_l3_ipv4_misc_v1_bits_def ifc_facts)

lemma ste_eth_l4_facts [ifc_facts]:
  "layout_bits mlx5_ifc_ste_eth_l4_bits = 0x80"
  "layout_ok 0 mlx5_ifc_ste_eth_l4_bits" "names_ok 0 mlx5_ifc_ste_eth_l4_bits" "union_free mlx5_ifc_ste_eth_l4_bits"
  by (simp_all add: mlx5_ifc_ste_eth_l4_bits_def ifc_facts)

lemma ste_eth_l4_v1_facts [ifc_facts]:
  "layout_bits mlx5_ifc_ste_eth_l4_v1_bits = 0x80"
  "layout_ok 0 mlx5_ifc_ste_eth_l4_v1_bits" "names_ok 0 mlx5_ifc_ste_eth_l4_v1_bits" "union_free mlx5_ifc_ste_eth_l4_v1_bits"
  by (simp_all add: mlx5_ifc_ste_eth_l4_v1_bits_def ifc_facts)

lemma ste_eth_l4_misc_facts [ifc_facts]:
  "layout_bits mlx5_ifc_ste_eth_l4_misc_bits = 0x80"
  "layout_ok 0 mlx5_ifc_ste_eth_l4_misc_bits" "names_ok 0 mlx5_ifc_ste_eth_l4_misc_bits" "union_free mlx5_ifc_ste_eth_l4_misc_bits"
  by (simp_all add: mlx5_ifc_ste_eth_l4_misc_bits_def ifc_facts)

lemma ste_eth_l4_misc_v1_facts [ifc_facts]:
  "layout_bits mlx5_ifc_ste_eth_l4_misc_v1_bits = 0x80"
  "layout_ok 0 mlx5_ifc_ste_eth_l4_misc_v1_bits" "names_ok 0 mlx5_ifc_ste_eth_l4_misc_v1_bits" "union_free mlx5_ifc_ste_eth_l4_misc_v1_bits"
  by (simp_all add: mlx5_ifc_ste_eth_l4_misc_v1_bits_def ifc_facts)

lemma ste_mpls_facts [ifc_facts]:
  "layout_bits mlx5_ifc_ste_mpls_bits = 0x80"
  "layout_ok 0 mlx5_ifc_ste_mpls_bits" "names_ok 0 mlx5_ifc_ste_mpls_bits" "union_free mlx5_ifc_ste_mpls_bits"
  by (simp_all add: mlx5_ifc_ste_mpls_bits_def ifc_facts)

lemma ste_mpls_v1_facts [ifc_facts]:
  "layout_bits mlx5_ifc_ste_mpls_v1_bits = 0x80"
  "layout_ok 0 mlx5_ifc_ste_mpls_v1_bits" "names_ok 0 mlx5_ifc_ste_mpls_v1_bits" "union_free mlx5_ifc_ste_mpls_v1_bits"
  by (simp_all add: mlx5_ifc_ste_mpls_v1_bits_def ifc_facts)

lemma ste_register_0_facts [ifc_facts]:
  "layout_bits mlx5_ifc_ste_register_0_bits = 0x80"
  "layout_ok 0 mlx5_ifc_ste_register_0_bits" "names_ok 0 mlx5_ifc_ste_register_0_bits" "union_free mlx5_ifc_ste_register_0_bits"
  by (simp_all add: mlx5_ifc_ste_register_0_bits_def ifc_facts)

lemma ste_register_1_facts [ifc_facts]:
  "layout_bits mlx5_ifc_ste_register_1_bits = 0x80"
  "layout_ok 0 mlx5_ifc_ste_register_1_bits" "names_ok 0 mlx5_ifc_ste_register_1_bits" "union_free mlx5_ifc_ste_register_1_bits"
  by (simp_all add: mlx5_ifc_ste_register_1_bits_def ifc_facts)

lemma ste_gre_facts [ifc_facts]:
  "layout_bits mlx5_ifc_ste_gre_bits = 0x80"
  "layout_ok 0 mlx5_ifc_ste_gre_bits" "names_ok 0 mlx5_ifc_ste_gre_bits" "union_free mlx5_ifc_ste_gre_bits"
  by (simp_all add: mlx5_ifc_ste_gre_bits_def ifc_facts)

lemma ste_gre_v1_facts [ifc_facts]:
  "layout_bits mlx5_ifc_ste_gre_v1_bits = 0x80"
  "layout_ok 0 mlx5_ifc_ste_gre_v1_bits" "names_ok 0 mlx5_ifc_ste_gre_v1_bits" "union_free mlx5_ifc_ste_gre_v1_bits"
  by (simp_all add: mlx5_ifc_ste_gre_v1_bits_def ifc_facts)

lemma ste_flex_parser_0_facts [ifc_facts]:
  "layout_bits mlx5_ifc_ste_flex_parser_0_bits = 0x80"
  "layout_ok 0 mlx5_ifc_ste_flex_parser_0_bits" "names_ok 0 mlx5_ifc_ste_flex_parser_0_bits" "union_free mlx5_ifc_ste_flex_parser_0_bits"
  by (simp_all add: mlx5_ifc_ste_flex_parser_0_bits_def ifc_facts)

lemma ste_flex_parser_1_facts [ifc_facts]:
  "layout_bits mlx5_ifc_ste_flex_parser_1_bits = 0x80"
  "layout_ok 0 mlx5_ifc_ste_flex_parser_1_bits" "names_ok 0 mlx5_ifc_ste_flex_parser_1_bits" "union_free mlx5_ifc_ste_flex_parser_1_bits"
  by (simp_all add: mlx5_ifc_ste_flex_parser_1_bits_def ifc_facts)

lemma ste_flex_parser_tnl_vxlan_gpe_facts [ifc_facts]:
  "layout_bits mlx5_ifc_ste_flex_parser_tnl_vxlan_gpe_bits = 0x80"
  "layout_ok 0 mlx5_ifc_ste_flex_parser_tnl_vxlan_gpe_bits" "names_ok 0 mlx5_ifc_ste_flex_parser_tnl_vxlan_gpe_bits" "union_free mlx5_ifc_ste_flex_parser_tnl_vxlan_gpe_bits"
  by (simp_all add: mlx5_ifc_ste_flex_parser_tnl_vxlan_gpe_bits_def ifc_facts)

lemma ste_flex_parser_tnl_geneve_facts [ifc_facts]:
  "layout_bits mlx5_ifc_ste_flex_parser_tnl_geneve_bits = 0x80"
  "layout_ok 0 mlx5_ifc_ste_flex_parser_tnl_geneve_bits" "names_ok 0 mlx5_ifc_ste_flex_parser_tnl_geneve_bits" "union_free mlx5_ifc_ste_flex_parser_tnl_geneve_bits"
  by (simp_all add: mlx5_ifc_ste_flex_parser_tnl_geneve_bits_def ifc_facts)

lemma ste_flex_parser_tnl_gtpu_facts [ifc_facts]:
  "layout_bits mlx5_ifc_ste_flex_parser_tnl_gtpu_bits = 0x80"
  "layout_ok 0 mlx5_ifc_ste_flex_parser_tnl_gtpu_bits" "names_ok 0 mlx5_ifc_ste_flex_parser_tnl_gtpu_bits" "union_free mlx5_ifc_ste_flex_parser_tnl_gtpu_bits"
  by (simp_all add: mlx5_ifc_ste_flex_parser_tnl_gtpu_bits_def ifc_facts)

lemma ste_general_purpose_facts [ifc_facts]:
  "layout_bits mlx5_ifc_ste_general_purpose_bits = 0x80"
  "layout_ok 0 mlx5_ifc_ste_general_purpose_bits" "names_ok 0 mlx5_ifc_ste_general_purpose_bits" "union_free mlx5_ifc_ste_general_purpose_bits"
  by (simp_all add: mlx5_ifc_ste_general_purpose_bits_def ifc_facts)

lemma ste_src_gvmi_qp_facts [ifc_facts]:
  "layout_bits mlx5_ifc_ste_src_gvmi_qp_bits = 0x80"
  "layout_ok 0 mlx5_ifc_ste_src_gvmi_qp_bits" "names_ok 0 mlx5_ifc_ste_src_gvmi_qp_bits" "union_free mlx5_ifc_ste_src_gvmi_qp_bits"
  by (simp_all add: mlx5_ifc_ste_src_gvmi_qp_bits_def ifc_facts)

lemma ste_src_gvmi_qp_v1_facts [ifc_facts]:
  "layout_bits mlx5_ifc_ste_src_gvmi_qp_v1_bits = 0x80"
  "layout_ok 0 mlx5_ifc_ste_src_gvmi_qp_v1_bits" "names_ok 0 mlx5_ifc_ste_src_gvmi_qp_v1_bits" "union_free mlx5_ifc_ste_src_gvmi_qp_v1_bits"
  by (simp_all add: mlx5_ifc_ste_src_gvmi_qp_v1_bits_def ifc_facts)

lemma ste_icmp_v1_facts [ifc_facts]:
  "layout_bits mlx5_ifc_ste_icmp_v1_bits = 0x80"
  "layout_ok 0 mlx5_ifc_ste_icmp_v1_bits" "names_ok 0 mlx5_ifc_ste_icmp_v1_bits" "union_free mlx5_ifc_ste_icmp_v1_bits"
  by (simp_all add: mlx5_ifc_ste_icmp_v1_bits_def ifc_facts)

lemma set_action_in_facts [ifc_facts]:
  "layout_bits mlx5_ifc_set_action_in_bits = 0x40"
  "layout_ok 0 mlx5_ifc_set_action_in_bits" "names_ok 0 mlx5_ifc_set_action_in_bits" "union_free mlx5_ifc_set_action_in_bits"
  by (simp_all add: mlx5_ifc_set_action_in_bits_def ifc_facts)

lemma add_action_in_facts [ifc_facts]:
  "layout_bits mlx5_ifc_add_action_in_bits = 0x40"
  "layout_ok 0 mlx5_ifc_add_action_in_bits" "names_ok 0 mlx5_ifc_add_action_in_bits" "union_free mlx5_ifc_add_action_in_bits"
  by (simp_all add: mlx5_ifc_add_action_in_bits_def ifc_facts)

lemma copy_action_in_facts [ifc_facts]:
  "layout_bits mlx5_ifc_copy_action_in_bits = 0x40"
  "layout_ok 0 mlx5_ifc_copy_action_in_bits" "names_ok 0 mlx5_ifc_copy_action_in_bits" "union_free mlx5_ifc_copy_action_in_bits"
  by (simp_all add: mlx5_ifc_copy_action_in_bits_def ifc_facts)

section \<open>All structures of this part\<close>

definition ifc_steering :: "layout list" where
  "ifc_steering = [
    mlx5_ifc_mkc_bits, mlx5_ifc_create_mkey_out_bits, mlx5_ifc_create_mkey_in_bits,
    mlx5_ifc_l2_hdr_bits, mlx5_ifc_ste_general_bits, mlx5_ifc_ste_sx_transmit_bits,
    mlx5_ifc_ste_rx_steering_mult_bits, mlx5_ifc_ste_modify_packet_bits,
    mlx5_ifc_ste_single_action_flow_tag_bits, mlx5_ifc_ste_single_action_modify_list_bits,
    mlx5_ifc_ste_single_action_remove_header_bits,
    mlx5_ifc_ste_single_action_remove_header_size_bits, mlx5_ifc_ste_double_action_copy_bits,
    mlx5_ifc_ste_double_action_set_bits, mlx5_ifc_ste_double_action_add_bits,
    mlx5_ifc_ste_double_action_insert_with_inline_bits,
    mlx5_ifc_ste_double_action_insert_with_ptr_bits,
    mlx5_ifc_ste_double_action_accelerated_modify_action_list_bits, mlx5_ifc_ste_match_bwc_bits,
    mlx5_ifc_ste_mask_and_match_bits, mlx5_ifc_ste_eth_l2_src_bits,
    mlx5_ifc_ste_eth_l2_src_v1_bits, mlx5_ifc_ste_eth_l2_dst_bits, mlx5_ifc_ste_eth_l2_dst_v1_bits,
    mlx5_ifc_ste_eth_l2_src_dst_bits, mlx5_ifc_ste_eth_l2_src_dst_v1_bits,
    mlx5_ifc_ste_eth_l3_ipv4_5_tuple_bits, mlx5_ifc_ste_eth_l3_ipv4_5_tuple_v1_bits,
    mlx5_ifc_ste_eth_l3_ipv6_dst_bits, mlx5_ifc_ste_eth_l2_tnl_bits,
    mlx5_ifc_ste_eth_l2_tnl_v1_bits, mlx5_ifc_ste_eth_l3_ipv6_src_bits,
    mlx5_ifc_ste_eth_l3_ipv4_misc_bits, mlx5_ifc_ste_eth_l3_ipv4_misc_v1_bits,
    mlx5_ifc_ste_eth_l4_bits, mlx5_ifc_ste_eth_l4_v1_bits, mlx5_ifc_ste_eth_l4_misc_bits,
    mlx5_ifc_ste_eth_l4_misc_v1_bits, mlx5_ifc_ste_mpls_bits, mlx5_ifc_ste_mpls_v1_bits,
    mlx5_ifc_ste_register_0_bits, mlx5_ifc_ste_register_1_bits, mlx5_ifc_ste_gre_bits,
    mlx5_ifc_ste_gre_v1_bits, mlx5_ifc_ste_flex_parser_0_bits, mlx5_ifc_ste_flex_parser_1_bits,
    mlx5_ifc_ste_flex_parser_tnl_vxlan_gpe_bits, mlx5_ifc_ste_flex_parser_tnl_geneve_bits,
    mlx5_ifc_ste_flex_parser_tnl_gtpu_bits, mlx5_ifc_ste_general_purpose_bits,
    mlx5_ifc_ste_src_gvmi_qp_bits, mlx5_ifc_ste_src_gvmi_qp_v1_bits, mlx5_ifc_ste_icmp_v1_bits,
    mlx5_ifc_set_action_in_bits, mlx5_ifc_add_action_in_bits, mlx5_ifc_copy_action_in_bits]"

lemma ifc_steering_ok: "list_all (layout_ok 0) ifc_steering"
  by (simp add: ifc_steering_def ifc_facts)

lemma ifc_steering_misnamed:
  "filter (\<lambda>l. \<not> names_ok 0 l) ifc_steering = [
    mlx5_ifc_ste_single_action_remove_header_size_bits]"
  by (simp add: ifc_steering_def ifc_facts)

lemma ifc_steering_odd_sizes:
  "filter (\<lambda>l. layout_bits l mod 32 \<noteq> 0) ifc_steering = [mlx5_ifc_l2_hdr_bits]"
  by (simp add: ifc_steering_def ifc_facts)

lemma ifc_steering_unions:
  "filter (\<lambda>l. \<not> union_free l) ifc_steering = []"
  by (simp add: ifc_steering_def ifc_facts)

end
