(* ===== verification/Ifc_Commands.thy ===== *)
theory Ifc_Commands
  imports Ifc_Steering
begin

text \<open>
  Layouts of the device structures of \<open>providers/mlx5/mlx5_ifc.h\<close>, in the order of the
  source: packet reformats, general objects, virtual
  ports, queue pair contexts and the commands that carry them (lines 2300 to 3236). Each
  definition lists the members of one structure with their widths in bits.
\<close>

section \<open>Layouts\<close>

definition mlx5_ifc_packet_reformat_context_in_bits :: layout where
  "mlx5_ifc_packet_reformat_context_in_bits = [
    Reserved 0x0 0x5, Fld ''reformat_type'' 0x3, Reserved 0x8 0xe, Fld ''reformat_data_size'' 0xa,
    Reserved 0x20 0x10, Arr ''reformat_data'' 2 0x8, Arr ''more_reformat_data'' 0 0x8]"

definition mlx5_ifc_alloc_packet_reformat_context_in_bits :: layout where
  "mlx5_ifc_alloc_packet_reformat_context_in_bits = [
    Fld ''opcode'' 0x10, Reserved 0x10 0x10, Reserved 0x20 0x10, Fld ''op_mod'' 0x10,
    Reserved 0x40 0xa0, Struct ''packet_reformat_context'' mlx5_ifc_packet_reformat_context_in_bits]"

definition mlx5_ifc_alloc_packet_reformat_context_out_bits :: layout where
  "mlx5_ifc_alloc_packet_reformat_context_out_bits = [
    Fld ''status'' 0x8, Reserved 0x8 0x18, Fld ''syndrome'' 0x20, Fld ''packet_reformat_id'' 0x20,
    Reserved 0x60 0x20]"

definition mlx5_ifc_dealloc_packet_reformat_context_in_bits :: layout where
  "mlx5_ifc_dealloc_packet_reformat_context_in_bits = [
    Fld ''opcode'' 0x10, Reserved 0x10 0x10, Fld ''reserved_20'' 0x10, Fld ''op_mod'' 0x10,
    Fld ''packet_reformat_id'' 0x20, Fld ''reserved_60'' 0x20]"

definition mlx5_ifc_dealloc_packet_reformat_context_out_bits :: layout where
  "mlx5_ifc_dealloc_packet_reformat_context_out_bits = [
    Fld ''status'' 0x8, Reserved 0x8 0x18, Fld ''syndrome'' 0x20, Reserved 0x40 0x40]"

definition mlx5_ifc_alloc_flow_counter_in_bits :: layout where
  "mlx5_ifc_alloc_flow_counter_in_bits = [
    Fld ''opcode'' 0x10, Fld ''uid'' 0x10, Reserved 0x20 0x10, Fld ''op_mod'' 0x10, Reserved 0x40 0x40]"

definition mlx5_ifc_alloc_flow_counter_out_bits :: layout where
  "mlx5_ifc_alloc_flow_counter_out_bits = [
    Fld ''status'' 0x8, Reserved 0x8 0x18, Fld ''syndrome'' 0x20, Fld ''flow_counter_id'' 0x20,
    Reserved 0x60 0x20]"

definition mlx5_ifc_general_obj_in_cmd_hdr_bits :: layout where
  "mlx5_ifc_general_obj_in_cmd_hdr_bits = [
    Fld ''opcode'' 0x10, Fld ''uid'' 0x10, Reserved 0x20 0x10, Fld ''obj_type'' 0x10,
    Fld ''obj_id'' 0x20, Reserved 0x60 0x3, Fld ''log_obj_range'' 0x5, Reserved 0x68 0x18]"

definition mlx5_ifc_general_obj_out_cmd_hdr_bits :: layout where
  "mlx5_ifc_general_obj_out_cmd_hdr_bits = [
    Fld ''status'' 0x8, Reserved 0x8 0x18, Fld ''syndrome'' 0x20, Fld ''obj_id'' 0x20,
    Reserved 0x60 0x20]"

definition mlx5_ifc_flow_meter_bits :: layout where
  "mlx5_ifc_flow_meter_bits = [
    Fld ''modify_field_select'' 0x40, Fld ''active'' 0x1, Reserved 0x41 0x3, Fld ''return_reg_id'' 0x4,
    Fld ''table_type'' 0x8, Reserved 0x50 0x10, Reserved 0x60 0x8, Fld ''destination_table_id'' 0x18,
    Reserved 0x80 0x80, Fld ''flow_meter_params'' 0x100, Reserved 0x180 0x180,
    Fld ''sw_steering_icm_address_rx'' 0x40, Fld ''sw_steering_icm_address_tx'' 0x40]"

definition mlx5_ifc_create_flow_meter_in_bits :: layout where
  "mlx5_ifc_create_flow_meter_in_bits = [
    Struct ''hdr'' mlx5_ifc_general_obj_in_cmd_hdr_bits, Struct ''meter'' mlx5_ifc_flow_meter_bits]"

definition mlx5_ifc_query_flow_meter_out_bits :: layout where
  "mlx5_ifc_query_flow_meter_out_bits = [
    Struct ''hdr'' mlx5_ifc_general_obj_out_cmd_hdr_bits, Struct ''obj'' mlx5_ifc_flow_meter_bits]"

definition mlx5_ifc_modify_header_arg_bits :: layout where
  "mlx5_ifc_modify_header_arg_bits = [
    Reserved 0x0 0x80, Reserved 0x80 0x8, Fld ''access_pd'' 0x18]"

definition mlx5_ifc_create_modify_header_arg_in_bits :: layout where
  "mlx5_ifc_create_modify_header_arg_in_bits = [
    Struct ''hdr'' mlx5_ifc_general_obj_in_cmd_hdr_bits,
    Struct ''arg'' mlx5_ifc_modify_header_arg_bits]"

definition mlx5_ifc_esw_vport_context_bits :: layout where
  "mlx5_ifc_esw_vport_context_bits = [
    Reserved 0x0 0x3, Fld ''vport_svlan_strip'' 0x1, Fld ''vport_cvlan_strip'' 0x1,
    Fld ''vport_svlan_insert'' 0x1, Fld ''vport_cvlan_insert'' 0x2, Reserved 0x8 0x18,
    Reserved 0x20 0x20, Fld ''svlan_cfi'' 0x1, Fld ''svlan_pcp'' 0x3, Fld ''svlan_id'' 0xc,
    Fld ''cvlan_cfi'' 0x1, Fld ''cvlan_pcp'' 0x3, Fld ''cvlan_id'' 0xc, Reserved 0x40 0x720,
    Fld ''sw_steering_vport_icm_address_rx'' 0x40, Fld ''sw_steering_vport_icm_address_tx'' 0x40]"

definition mlx5_ifc_query_esw_vport_context_out_bits :: layout where
  "mlx5_ifc_query_esw_vport_context_out_bits = [
    Fld ''status'' 0x8, Reserved 0x8 0x18, Fld ''syndrome'' 0x20, Reserved 0x40 0x40,
    Struct ''esw_vport_context'' mlx5_ifc_esw_vport_context_bits]"

definition mlx5_ifc_query_esw_vport_context_in_bits :: layout where
  "mlx5_ifc_query_esw_vport_context_in_bits = [
    Fld ''opcode'' 0x10, Reserved 0x10 0x10, Reserved 0x20 0x10, Fld ''op_mod'' 0x10,
    Fld ''other_vport'' 0x1, Reserved 0x41 0xf, Fld ''vport_number'' 0x10, Reserved 0x60 0x20]"

definition mlx5_ifc_mac_address_layout_bits :: layout where
  "mlx5_ifc_mac_address_layout_bits = [
    Reserved 0x0 0x10, Fld ''mac_addr_47_32'' 0x10, Fld ''mac_addr_31_0'' 0x20]"

definition mlx5_ifc_nic_vport_context_bits :: layout where
  "mlx5_ifc_nic_vport_context_bits = [
    Reserved 0x0 0x5, Fld ''min_wqe_inline_mode'' 0x3, Reserved 0x8 0x15,
    Fld ''disable_mc_local_lb'' 0x1, Fld ''disable_uc_local_lb'' 0x1, Fld ''roce_en'' 0x1,
    Fld ''arm_change_event'' 0x1, Reserved 0x21 0x1a, Fld ''event_on_mtu'' 0x1,
    Fld ''event_on_promisc_change'' 0x1, Fld ''event_on_vlan_change'' 0x1,
    Fld ''event_on_mc_address_change'' 0x1, Fld ''event_on_uc_address_change'' 0x1, Reserved 0x40 0xc,
    Fld ''affiliation_criteria'' 0x4, Fld ''affiliated_vhca_id'' 0x10, Reserved 0x60 0xc0,
    Reserved 0x120 0x10, Fld ''mtu'' 0x10, Fld ''system_image_guid'' 0x40, Fld ''port_guid'' 0x40,
    Fld ''node_guid'' 0x40, Reserved 0x200 0x140, Fld ''qkey_violation_counter'' 0x10,
    Reserved 0x350 0x10, Reserved 0x360 0x420, Fld ''promisc_uc'' 0x1, Fld ''promisc_mc'' 0x1,
    Fld ''promisc_all'' 0x1, Reserved 0x783 0x2, Fld ''allowed_list_type'' 0x3, Reserved 0x788 0xc,
    Fld ''allowed_list_size'' 0xc, Struct ''permanent_address'' mlx5_ifc_mac_address_layout_bits,
    Reserved 0x7e0 0x20, Arr ''current_uc_mac_address'' 0 0x40]"

definition mlx5_ifc_query_nic_vport_context_out_bits :: layout where
  "mlx5_ifc_query_nic_vport_context_out_bits = [
    Fld ''status'' 0x8, Reserved 0x8 0x18, Fld ''syndrome'' 0x20, Reserved 0x40 0x40,
    Struct ''nic_vport_context'' mlx5_ifc_nic_vport_context_bits]"

definition mlx5_ifc_query_nic_vport_context_in_bits :: layout where
  "mlx5_ifc_query_nic_vport_context_in_bits = [
    Fld ''opcode'' 0x10, Reserved 0x10 0x10, Reserved 0x20 0x10, Fld ''op_mod'' 0x10,
    Fld ''other_vport'' 0x1, Reserved 0x41 0xf, Fld ''vport_number'' 0x10, Reserved 0x60 0x5,
    Fld ''allowed_list_type'' 0x3, Reserved 0x68 0x18]"

definition mlx5_ifc_ads_bits :: layout where
  "mlx5_ifc_ads_bits = [
    Fld ''fl'' 0x1, Fld ''free_ar'' 0x1, Reserved 0x2 0xe, Fld ''pkey_index'' 0x10, Reserved 0x20 0x8,
    Fld ''grh'' 0x1, Fld ''mlid'' 0x7, Fld ''rlid'' 0x10, Fld ''ack_timeout'' 0x5, Reserved 0x45 0x3,
    Fld ''src_addr_index'' 0x8, Reserved 0x50 0x4, Fld ''stat_rate'' 0x4, Fld ''hop_limit'' 0x8,
    Reserved 0x60 0x4, Fld ''tclass'' 0x8, Fld ''flow_label'' 0x14, Arr ''rgid_rip'' 16 0x8,
    Reserved 0x100 0x4, Fld ''f_dscp'' 0x1, Fld ''f_ecn'' 0x1, Reserved 0x106 0x1,
    Fld ''f_eth_prio'' 0x1, Fld ''ecn'' 0x2, Fld ''dscp'' 0x6, Fld ''udp_sport'' 0x10,
    Fld ''dei_cfi'' 0x1, Fld ''eth_prio'' 0x3, Fld ''sl'' 0x4, Fld ''vhca_port_num'' 0x8,
    Fld ''rmac_47_32'' 0x10, Fld ''rmac_31_0'' 0x20]"

definition mlx5_ifc_qpc_bits :: layout where
  "mlx5_ifc_qpc_bits = [
    Fld ''state'' 0x4, Fld ''lag_tx_port_affinity'' 0x4, Fld ''st'' 0x8, Reserved 0x10 0x2,
    Fld ''isolate_vl_tc'' 0x1, Fld ''pm_state'' 0x2, Reserved 0x15 0x1,
    Fld ''req_e2e_credit_mode'' 0x2, Fld ''offload_type'' 0x4, Fld ''end_padding_mode'' 0x2,
    Reserved 0x1e 0x2, Fld ''wq_signature'' 0x1, Fld ''block_lb_mc'' 0x1,
    Fld ''atomic_like_write_en'' 0x1, Fld ''latency_sensitive'' 0x1, Reserved 0x24 0x1,
    Fld ''drain_sigerr'' 0x1, Reserved 0x26 0x2, Fld ''pd'' 0x18, Fld ''mtu'' 0x3,
    Fld ''log_msg_max'' 0x5, Reserved 0x48 0x1, Fld ''log_rq_size'' 0x4, Fld ''log_rq_stride'' 0x3,
    Fld ''no_sq'' 0x1, Fld ''log_sq_size'' 0x4, Reserved 0x55 0x6, Fld ''rlky'' 0x1,
    Fld ''ulp_stateless_offload_mode'' 0x4, Fld ''counter_set_id'' 0x8, Fld ''uar_page'' 0x18,
    Reserved 0x80 0x8, Fld ''user_index'' 0x18, Reserved 0xa0 0x3, Fld ''log_page_size'' 0x5,
    Fld ''remote_qpn'' 0x18, Struct ''primary_address_path'' mlx5_ifc_ads_bits,
    Struct ''secondary_address_path'' mlx5_ifc_ads_bits, Fld ''log_ack_req_freq'' 0x4,
    Reserved 0x384 0x4, Fld ''log_sra_max'' 0x3, Reserved 0x38b 0x2, Fld ''retry_count'' 0x3,
    Fld ''rnr_retry'' 0x3, Reserved 0x393 0x1, Fld ''fre'' 0x1, Fld ''cur_rnr_retry'' 0x3,
    Fld ''cur_retry_count'' 0x3, Reserved 0x39b 0x5, Reserved 0x3a0 0x20, Reserved 0x3c0 0x8,
    Fld ''next_send_psn'' 0x18, Reserved 0x3e0 0x8, Fld ''cqn_snd'' 0x18, Reserved 0x400 0x8,
    Fld ''deth_sqpn'' 0x18, Reserved 0x420 0x20, Reserved 0x440 0x8, Fld ''last_acked_psn'' 0x18,
    Reserved 0x460 0x8, Fld ''ssn'' 0x18, Reserved 0x480 0x8, Fld ''log_rra_max'' 0x3,
    Reserved 0x48b 0x1, Fld ''atomic_mode'' 0x4, Fld ''rre'' 0x1, Fld ''rwe'' 0x1, Fld ''rae'' 0x1,
    Reserved 0x493 0x1, Fld ''page_offset'' 0x6, Reserved 0x49a 0x3, Fld ''cd_slave_receive'' 0x1,
    Fld ''cd_slave_send'' 0x1, Fld ''cd_master'' 0x1, Reserved 0x4a0 0x3, Fld ''min_rnr_nak'' 0x5,
    Fld ''next_rcv_psn'' 0x18, Reserved 0x4c0 0x8, Fld ''xrcd'' 0x18, Reserved 0x4e0 0x8,
    Fld ''cqn_rcv'' 0x18, Fld ''dbr_addr'' 0x40, Fld ''q_key'' 0x20, Reserved 0x560 0x5,
    Fld ''rq_type'' 0x3, Fld ''srqn_rmpn_xrqn'' 0x18, Reserved 0x580 0x8, Fld ''rmsn'' 0x18,
    Fld ''hw_sq_wqebb_counter'' 0x10, Fld ''sw_sq_wqebb_counter'' 0x10, Fld ''hw_rq_counter'' 0x20,
    Fld ''sw_rq_counter'' 0x20, Reserved 0x600 0x20, Reserved 0x620 0xf, Fld ''cgs'' 0x1,
    Fld ''cs_req'' 0x8, Fld ''cs_res'' 0x8, Fld ''dc_access_key'' 0x40, Reserved 0x680 0x3,
    Fld ''dbr_umem_valid'' 0x1, Reserved 0x684 0x9c, Fld ''dbr_umem_id'' 0x20]"

definition mlx5_ifc_rx_hash_field_select_bits :: layout where
  "mlx5_ifc_rx_hash_field_select_bits = [
    Fld ''l3_prot_type'' 0x1, Fld ''l4_prot_type'' 0x1, Fld ''selected_fields'' 0x1e]"

definition mlx5_ifc_tirc_bits :: layout where
  "mlx5_ifc_tirc_bits = [
    Reserved 0x0 0x20, Fld ''disp_type'' 0x4, Reserved 0x24 0x1c, Reserved 0x40 0x40,
    Reserved 0x80 0x4, Fld ''lro_timeout_period_usecs'' 0x10, Fld ''lro_enable_mask'' 0x4,
    Fld ''lro_max_ip_payload_size'' 0x8, Reserved 0xa0 0x40, Reserved 0xe0 0x8,
    Fld ''inline_rqn'' 0x18, Fld ''rx_hash_symmetric'' 0x1, Reserved 0x101 0x1,
    Fld ''tunneled_offload_en'' 0x1, Reserved 0x103 0x5, Fld ''indirect_table'' 0x18,
    Fld ''rx_hash_fn'' 0x4, Reserved 0x124 0x2, Fld ''self_lb_block'' 0x2,
    Fld ''transport_domain'' 0x18, Arr ''rx_hash_toeplitz_key'' 10 0x20,
    Struct ''rx_hash_field_selector_outer'' mlx5_ifc_rx_hash_field_select_bits,
    Struct ''rx_hash_field_selector_inner'' mlx5_ifc_rx_hash_field_select_bits, Reserved 0x2c0 0x4c0]"

definition mlx5_ifc_create_tir_out_bits :: layout where
  "mlx5_ifc_create_tir_out_bits = [
    Fld ''status'' 0x8, Fld ''icm_address_63_40'' 0x18, Fld ''syndrome'' 0x20,
    Fld ''icm_address_39_32'' 0x8, Fld ''tirn'' 0x18, Fld ''icm_address_31_0'' 0x20]"

definition mlx5_ifc_create_tir_in_bits :: layout where
  "mlx5_ifc_create_tir_in_bits = [
    Fld ''opcode'' 0x10, Fld ''uid'' 0x10, Reserved 0x20 0x10, Fld ''op_mod'' 0x10, Reserved 0x40 0xc0,
    Struct ''ctx'' mlx5_ifc_tirc_bits]"

definition mlx5_ifc_create_qp_out_bits :: layout where
  "mlx5_ifc_create_qp_out_bits = [
    Fld ''status'' 0x8, Reserved 0x8 0x18, Fld ''syndrome'' 0x20, Reserved 0x40 0x8, Fld ''qpn'' 0x18,
    Reserved 0x60 0x20]"

definition mlx5_ifc_create_qp_in_bits :: layout where
  "mlx5_ifc_create_qp_in_bits = [
    Fld ''opcode'' 0x10, Fld ''uid'' 0x10, Reserved 0x20 0x10, Fld ''op_mod'' 0x10, Reserved 0x40 0x40,
    Fld ''opt_param_mask'' 0x20, Reserved 0xa0 0x20, Struct ''qpc'' mlx5_ifc_qpc_bits,
    Reserved 0x800 0x40, Fld ''wq_umem_id'' 0x20, Fld ''wq_umem_valid'' 0x1, Reserved 0x861 0x1f,
    Arr ''pas'' 0 0x40]"

definition mlx5_ifc_init2rtr_qp_out_bits :: layout where
  "mlx5_ifc_init2rtr_qp_out_bits = [
    Fld ''status'' 0x8, Reserved 0x8 0x18, Fld ''syndrome'' 0x20, Reserved 0x40 0x40]"

definition mlx5_ifc_init2rtr_qp_in_bits :: layout where
  "mlx5_ifc_init2rtr_qp_in_bits = [
    Fld ''opcode'' 0x10, Fld ''uid'' 0x10, Reserved 0x20 0x10, Fld ''op_mod'' 0x10, Reserved 0x40 0x8,
    Fld ''qpn'' 0x18, Reserved 0x60 0x20, Fld ''opt_param_mask'' 0x20, Reserved 0xa0 0x20,
    Struct ''qpc'' mlx5_ifc_qpc_bits, Reserved 0x800 0x80]"

definition mlx5_ifc_rtr2rts_qp_out_bits :: layout where
  "mlx5_ifc_rtr2rts_qp_out_bits = [
    Fld ''status'' 0x8, Reserved 0x8 0x18, Fld ''syndrome'' 0x20, Reserved 0x40 0x40]"

definition mlx5_ifc_rtr2rts_qp_in_bits :: layout where
  "mlx5_ifc_rtr2rts_qp_in_bits = [
    Fld ''opcode'' 0x10, Fld ''uid'' 0x10, Reserved 0x20 0x10, Fld ''op_mod'' 0x10, Reserved 0x40 0x8,
    Fld ''qpn'' 0x18, Reserved 0x60 0x20, Fld ''opt_param_mask'' 0x20, Reserved 0xa0 0x20,
    Struct ''qpc'' mlx5_ifc_qpc_bits, Reserved 0x800 0x80]"

definition mlx5_ifc_rst2init_qp_out_bits :: layout where
  "mlx5_ifc_rst2init_qp_out_bits = [
    Fld ''status'' 0x8, Reserved 0x8 0x18, Fld ''syndrome'' 0x20, Reserved 0x40 0x40]"

definition mlx5_ifc_rst2init_qp_in_bits :: layout where
  "mlx5_ifc_rst2init_qp_in_bits = [
    Fld ''opcode'' 0x10, Fld ''uid'' 0x10, Reserved 0x20 0x10, Fld ''op_mod'' 0x10, Reserved 0x40 0x8,
    Fld ''qpn'' 0x18, Reserved 0x60 0x20, Fld ''opt_param_mask'' 0x20, Reserved 0xa0 0x20,
    Struct ''qpc'' mlx5_ifc_qpc_bits, Reserved 0x800 0x80]"

definition mlx5_ifc_query_qp_out_bits :: layout where
  "mlx5_ifc_query_qp_out_bits = [
    Fld ''status'' 0x8, Reserved 0x8 0x18, Fld ''syndrome'' 0x20, Reserved 0x40 0x40,
    Fld ''opt_param_mask'' 0x20, Reserved 0xa0 0x20, Struct ''qpc'' mlx5_ifc_qpc_bits,
    Reserved 0x800 0x80, Arr ''pas'' 0 0x40]"

definition mlx5_ifc_query_qp_in_bits :: layout where
  "mlx5_ifc_query_qp_in_bits = [
    Fld ''opcode'' 0x10, Reserved 0x10 0x10, Reserved 0x20 0x10, Fld ''op_mod'' 0x10,
    Reserved 0x40 0x8, Fld ''qpn'' 0x18, Reserved 0x60 0x20]"

definition mlx5_ifc_tisc_bits :: layout where
  "mlx5_ifc_tisc_bits = [
    Fld ''strict_lag_tx_port_affinity'' 0x1, Fld ''tls_en'' 0x1, Reserved 0x2 0x2,
    Fld ''lag_tx_port_affinity'' 0x04, Reserved 0x8 0x4, Fld ''prio'' 0x4, Reserved 0x10 0x10,
    Reserved 0x20 0x100, Reserved 0x120 0x8, Fld ''transport_domain'' 0x18, Reserved 0x140 0x8,
    Fld ''underlay_qpn'' 0x18, Reserved 0x160 0x8, Fld ''pd'' 0x18, Reserved 0x180 0x380]"

definition mlx5_ifc_query_tis_out_bits :: layout where
  "mlx5_ifc_query_tis_out_bits = [
    Fld ''status'' 0x8, Reserved 0x8 0x18, Fld ''syndrome'' 0x20, Reserved 0x40 0x40,
    Struct ''tis_context'' mlx5_ifc_tisc_bits]"

definition mlx5_ifc_query_tis_in_bits :: layout where
  "mlx5_ifc_query_tis_in_bits = [
    Fld ''opcode'' 0x10, Reserved 0x10 0x10, Reserved 0x20 0x10, Fld ''op_mod'' 0x10,
    Reserved 0x40 0x8, Fld ''tisn'' 0x18, Reserved 0x60 0x20]"

definition mlx5_ifc_lagc_bits :: layout where
  "mlx5_ifc_lagc_bits = [
    Reserved 0x0 0x1d, Fld ''lag_state'' 0x3, Reserved 0x20 0x14, Fld ''tx_remap_affinity_2'' 0x4,
    Reserved 0x38 0x4, Fld ''tx_remap_affinity_1'' 0x4]"

definition mlx5_ifc_query_lag_out_bits :: layout where
  "mlx5_ifc_query_lag_out_bits = [
    Fld ''status'' 0x8, Reserved 0x8 0x18, Fld ''syndrome'' 0x20, Struct ''ctx'' mlx5_ifc_lagc_bits]"

definition mlx5_ifc_query_lag_in_bits :: layout where
  "mlx5_ifc_query_lag_in_bits = [
    Fld ''opcode'' 0x10, Reserved 0x10 0x10, Reserved 0x20 0x10, Fld ''op_mod'' 0x10,
    Reserved 0x40 0x40]"

definition mlx5_ifc_modify_tis_out_bits :: layout where
  "mlx5_ifc_modify_tis_out_bits = [
    Fld ''status'' 0x8, Reserved 0x8 0x18, Fld ''syndrome'' 0x20, Reserved 0x40 0x40]"

definition mlx5_ifc_modify_tis_bitmask_bits :: layout where
  "mlx5_ifc_modify_tis_bitmask_bits = [
    Reserved 0x0 0x20, Reserved 0x20 0x1d, Fld ''lag_tx_port_affinity'' 0x1,
    Fld ''strict_lag_tx_port_affinity'' 0x1, Fld ''prio'' 0x1]"

definition mlx5_ifc_modify_tis_in_bits :: layout where
  "mlx5_ifc_modify_tis_in_bits = [
    Fld ''opcode'' 0x10, Fld ''uid'' 0x10, Reserved 0x20 0x10, Fld ''op_mod'' 0x10, Reserved 0x40 0x8,
    Fld ''tisn'' 0x18, Reserved 0x60 0x20, Struct ''bitmask'' mlx5_ifc_modify_tis_bitmask_bits,
    Reserved 0xc0 0x40, Struct ''ctx'' mlx5_ifc_tisc_bits]"

definition mlx5_ifc_roce_addr_layout_bits :: layout where
  "mlx5_ifc_roce_addr_layout_bits = [
    Arr ''source_l3_address'' 16 0x8, Reserved 0x80 0x3, Fld ''vlan_valid'' 0x1, Fld ''vlan_id'' 0xc,
    Fld ''source_mac_47_32'' 0x10, Fld ''source_mac_31_0'' 0x20, Reserved 0xc0 0x14,
    Fld ''roce_l3_type'' 0x4, Fld ''roce_version'' 0x8, Reserved 0xe0 0x20]"

definition mlx5_ifc_query_roce_address_out_bits :: layout where
  "mlx5_ifc_query_roce_address_out_bits = [
    Fld ''status'' 0x8, Reserved 0x8 0x18, Fld ''syndrome'' 0x20, Reserved 0x40 0x40,
    Struct ''roce_address'' mlx5_ifc_roce_addr_layout_bits]"

definition mlx5_ifc_query_roce_address_in_bits :: layout where
  "mlx5_ifc_query_roce_address_in_bits = [
    Fld ''opcode'' 0x10, Reserved 0x10 0x10, Reserved 0x20 0x10, Fld ''op_mod'' 0x10,
    Fld ''roce_address_index'' 0x10, Reserved 0x50 0xc, Fld ''vhca_port_num'' 0x4, Reserved 0x60 0x20]"

definition mlx5_ifc_dr_action_hw_set_bits :: layout where
  "mlx5_ifc_dr_action_hw_set_bits = [
    Fld ''opcode'' 0x8, Fld ''destination_field_code'' 0x8, Reserved 0x10 0x2,
    Fld ''destination_left_shifter'' 0x6, Reserved 0x18 0x3, Fld ''destination_length'' 0x5,
    Fld ''inline_data'' 0x20]"

definition mlx5_ifc_dr_action_hw_copy_bits :: layout where
  "mlx5_ifc_dr_action_hw_copy_bits = [
    Fld ''opcode'' 0x8, Fld ''destination_field_code'' 0x8, Reserved 0x10 0x2,
    Fld ''destination_left_shifter'' 0x6, Reserved 0x18 0x2, Fld ''destination_length'' 0x6,
    Reserved 0x20 0x8, Fld ''source_field_code'' 0x8, Reserved 0x30 0x2,
    Fld ''source_right_shifter'' 0x6, Reserved 0x38 0x8]"

definition mlx5_ifc_host_params_context_bits :: layout where
  "mlx5_ifc_host_params_context_bits = [
    Fld ''host_number'' 0x8, Reserved 0x8 0x6, Fld ''host_pf_vhca_id_valid'' 0x1,
    Fld ''host_pf_disabled'' 0x1, Fld ''host_num_of_vfs'' 0x10, Fld ''host_total_vfs'' 0x10,
    Fld ''host_pci_bus'' 0x10, Fld ''host_pf_vhca_id'' 0x10, Fld ''host_pci_device'' 0x10,
    Reserved 0x60 0x10, Fld ''host_pci_function'' 0x10, Reserved 0x80 0x180]"

definition mlx5_ifc_query_esw_functions_in_bits :: layout where
  "mlx5_ifc_query_esw_functions_in_bits = [
    Fld ''opcode'' 0x10, Reserved 0x10 0x10, Reserved 0x20 0x10, Fld ''op_mod'' 0x10,
    Reserved 0x40 0x40]"

definition mlx5_ifc_query_esw_functions_out_bits :: layout where
  "mlx5_ifc_query_esw_functions_out_bits = [
    Fld ''status'' 0x8, Reserved 0x8 0x18, Fld ''syndrome'' 0x20, Reserved 0x40 0x40,
    Struct ''host_params_context'' mlx5_ifc_host_params_context_bits, Reserved 0x280 0x180,
    Arr ''host_sf_enable'' 0 0x40]"

section \<open>Sizes and alignment\<close>

lemma packet_reformat_context_in_facts [ifc_facts]:
  "layout_bits mlx5_ifc_packet_reformat_context_in_bits = 0x40"
  "layout_ok 0 mlx5_ifc_packet_reformat_context_in_bits" "names_ok 0 mlx5_ifc_packet_reformat_context_in_bits" "union_free mlx5_ifc_packet_reformat_context_in_bits"
  by (simp_all add: mlx5_ifc_packet_reformat_context_in_bits_def ifc_facts)

lemma alloc_packet_reformat_context_in_facts [ifc_facts]:
  "layout_bits mlx5_ifc_alloc_packet_reformat_context_in_bits = 0x120"
  "layout_ok 0 mlx5_ifc_alloc_packet_reformat_context_in_bits" "names_ok 0 mlx5_ifc_alloc_packet_reformat_context_in_bits" "union_free mlx5_ifc_alloc_packet_reformat_context_in_bits"
  by (simp_all add: mlx5_ifc_alloc_packet_reformat_context_in_bits_def ifc_facts)

lemma alloc_packet_reformat_context_out_facts [ifc_facts]:
  "layout_bits mlx5_ifc_alloc_packet_reformat_context_out_bits = 0x80"
  "layout_ok 0 mlx5_ifc_alloc_packet_reformat_context_out_bits" "names_ok 0 mlx5_ifc_alloc_packet_reformat_context_out_bits" "union_free mlx5_ifc_alloc_packet_reformat_context_out_bits"
  by (simp_all add: mlx5_ifc_alloc_packet_reformat_context_out_bits_def ifc_facts)

lemma dealloc_packet_reformat_context_in_facts [ifc_facts]:
  "layout_bits mlx5_ifc_dealloc_packet_reformat_context_in_bits = 0x80"
  "layout_ok 0 mlx5_ifc_dealloc_packet_reformat_context_in_bits" "names_ok 0 mlx5_ifc_dealloc_packet_reformat_context_in_bits" "union_free mlx5_ifc_dealloc_packet_reformat_context_in_bits"
  by (simp_all add: mlx5_ifc_dealloc_packet_reformat_context_in_bits_def ifc_facts)

lemma dealloc_packet_reformat_context_out_facts [ifc_facts]:
  "layout_bits mlx5_ifc_dealloc_packet_reformat_context_out_bits = 0x80"
  "layout_ok 0 mlx5_ifc_dealloc_packet_reformat_context_out_bits" "names_ok 0 mlx5_ifc_dealloc_packet_reformat_context_out_bits" "union_free mlx5_ifc_dealloc_packet_reformat_context_out_bits"
  by (simp_all add: mlx5_ifc_dealloc_packet_reformat_context_out_bits_def ifc_facts)

lemma alloc_flow_counter_in_facts [ifc_facts]:
  "layout_bits mlx5_ifc_alloc_flow_counter_in_bits = 0x80"
  "layout_ok 0 mlx5_ifc_alloc_flow_counter_in_bits" "names_ok 0 mlx5_ifc_alloc_flow_counter_in_bits" "union_free mlx5_ifc_alloc_flow_counter_in_bits"
  by (simp_all add: mlx5_ifc_alloc_flow_counter_in_bits_def ifc_facts)

lemma alloc_flow_counter_out_facts [ifc_facts]:
  "layout_bits mlx5_ifc_alloc_flow_counter_out_bits = 0x80"
  "layout_ok 0 mlx5_ifc_alloc_flow_counter_out_bits" "names_ok 0 mlx5_ifc_alloc_flow_counter_out_bits" "union_free mlx5_ifc_alloc_flow_counter_out_bits"
  by (simp_all add: mlx5_ifc_alloc_flow_counter_out_bits_def ifc_facts)

lemma general_obj_in_cmd_hdr_facts [ifc_facts]:
  "layout_bits mlx5_ifc_general_obj_in_cmd_hdr_bits = 0x80"
  "layout_ok 0 mlx5_ifc_general_obj_in_cmd_hdr_bits" "names_ok 0 mlx5_ifc_general_obj_in_cmd_hdr_bits" "union_free mlx5_ifc_general_obj_in_cmd_hdr_bits"
  by (simp_all add: mlx5_ifc_general_obj_in_cmd_hdr_bits_def ifc_facts)

lemma general_obj_out_cmd_hdr_facts [ifc_facts]:
  "layout_bits mlx5_ifc_general_obj_out_cmd_hdr_bits = 0x80"
  "layout_ok 0 mlx5_ifc_general_obj_out_cmd_hdr_bits" "names_ok 0 mlx5_ifc_general_obj_out_cmd_hdr_bits" "union_free mlx5_ifc_general_obj_out_cmd_hdr_bits"
  by (simp_all add: mlx5_ifc_general_obj_out_cmd_hdr_bits_def ifc_facts)

lemma flow_meter_facts [ifc_facts]:
  "layout_bits mlx5_ifc_flow_meter_bits = 0x400"
  "layout_ok 0 mlx5_ifc_flow_meter_bits" "\<not> names_ok 0 mlx5_ifc_flow_meter_bits" "union_free mlx5_ifc_flow_meter_bits"
  by (simp_all add: mlx5_ifc_flow_meter_bits_def ifc_facts)

lemma create_flow_meter_in_facts [ifc_facts]:
  "layout_bits mlx5_ifc_create_flow_meter_in_bits = 0x480"
  "layout_ok 0 mlx5_ifc_create_flow_meter_in_bits" "names_ok 0 mlx5_ifc_create_flow_meter_in_bits" "union_free mlx5_ifc_create_flow_meter_in_bits"
  by (simp_all add: mlx5_ifc_create_flow_meter_in_bits_def ifc_facts)

lemma query_flow_meter_out_facts [ifc_facts]:
  "layout_bits mlx5_ifc_query_flow_meter_out_bits = 0x480"
  "layout_ok 0 mlx5_ifc_query_flow_meter_out_bits" "names_ok 0 mlx5_ifc_query_flow_meter_out_bits" "union_free mlx5_ifc_query_flow_meter_out_bits"
  by (simp_all add: mlx5_ifc_query_flow_meter_out_bits_def ifc_facts)

lemma modify_header_arg_facts [ifc_facts]:
  "layout_bits mlx5_ifc_modify_header_arg_bits = 0xa0"
  "layout_ok 0 mlx5_ifc_modify_header_arg_bits" "names_ok 0 mlx5_ifc_modify_header_arg_bits" "union_free mlx5_ifc_modify_header_arg_bits"
  by (simp_all add: mlx5_ifc_modify_header_arg_bits_def ifc_facts)

lemma create_modify_header_arg_in_facts [ifc_facts]:
  "layout_bits mlx5_ifc_create_modify_header_arg_in_bits = 0x120"
  "layout_ok 0 mlx5_ifc_create_modify_header_arg_in_bits" "names_ok 0 mlx5_ifc_create_modify_header_arg_in_bits" "union_free mlx5_ifc_create_modify_header_arg_in_bits"
  by (simp_all add: mlx5_ifc_create_modify_header_arg_in_bits_def ifc_facts)

lemma esw_vport_context_facts [ifc_facts]:
  "layout_bits mlx5_ifc_esw_vport_context_bits = 0x800"
  "layout_ok 0 mlx5_ifc_esw_vport_context_bits" "\<not> names_ok 0 mlx5_ifc_esw_vport_context_bits" "union_free mlx5_ifc_esw_vport_context_bits"
  by (simp_all add: mlx5_ifc_esw_vport_context_bits_def ifc_facts)

lemma query_esw_vport_context_out_facts [ifc_facts]:
  "layout_bits mlx5_ifc_query_esw_vport_context_out_bits = 0x880"
  "layout_ok 0 mlx5_ifc_query_esw_vport_context_out_bits" "names_ok 0 mlx5_ifc_query_esw_vport_context_out_bits" "union_free mlx5_ifc_query_esw_vport_context_out_bits"
  by (simp_all add: mlx5_ifc_query_esw_vport_context_out_bits_def ifc_facts)

lemma query_esw_vport_context_in_facts [ifc_facts]:
  "layout_bits mlx5_ifc_query_esw_vport_context_in_bits = 0x80"
  "layout_ok 0 mlx5_ifc_query_esw_vport_context_in_bits" "names_ok 0 mlx5_ifc_query_esw_vport_context_in_bits" "union_free mlx5_ifc_query_esw_vport_context_in_bits"
  by (simp_all add: mlx5_ifc_query_esw_vport_context_in_bits_def ifc_facts)

lemma mac_address_layout_facts [ifc_facts]:
  "layout_bits mlx5_ifc_mac_address_layout_bits = 0x40"
  "layout_ok 0 mlx5_ifc_mac_address_layout_bits" "names_ok 0 mlx5_ifc_mac_address_layout_bits" "union_free mlx5_ifc_mac_address_layout_bits"
  by (simp_all add: mlx5_ifc_mac_address_layout_bits_def ifc_facts)

lemma nic_vport_context_facts [ifc_facts]:
  "layout_bits mlx5_ifc_nic_vport_context_bits = 0x800"
  "layout_ok 0 mlx5_ifc_nic_vport_context_bits" "names_ok 0 mlx5_ifc_nic_vport_context_bits" "union_free mlx5_ifc_nic_vport_context_bits"
  by (simp_all add: mlx5_ifc_nic_vport_context_bits_def ifc_facts)

lemma query_nic_vport_context_out_facts [ifc_facts]:
  "layout_bits mlx5_ifc_query_nic_vport_context_out_bits = 0x880"
  "layout_ok 0 mlx5_ifc_query_nic_vport_context_out_bits" "names_ok 0 mlx5_ifc_query_nic_vport_context_out_bits" "union_free mlx5_ifc_query_nic_vport_context_out_bits"
  by (simp_all add: mlx5_ifc_query_nic_vport_context_out_bits_def ifc_facts)

lemma query_nic_vport_context_in_facts [ifc_facts]:
  "layout_bits mlx5_ifc_query_nic_vport_context_in_bits = 0x80"
  "layout_ok 0 mlx5_ifc_query_nic_vport_context_in_bits" "names_ok 0 mlx5_ifc_query_nic_vport_context_in_bits" "union_free mlx5_ifc_query_nic_vport_context_in_bits"
  by (simp_all add: mlx5_ifc_query_nic_vport_context_in_bits_def ifc_facts)

lemma ads_facts [ifc_facts]:
  "layout_bits mlx5_ifc_ads_bits = 0x160"
  "layout_ok 0 mlx5_ifc_ads_bits" "names_ok 0 mlx5_ifc_ads_bits" "union_free mlx5_ifc_ads_bits"
  by (simp_all add: mlx5_ifc_ads_bits_def ifc_facts)

lemma qpc_facts [ifc_facts]:
  "layout_bits mlx5_ifc_qpc_bits = 0x740"
  "layout_ok 0 mlx5_ifc_qpc_bits" "names_ok 0 mlx5_ifc_qpc_bits" "union_free mlx5_ifc_qpc_bits"
  by (simp_all add: mlx5_ifc_qpc_bits_def ifc_facts)

lemma rx_hash_field_select_facts [ifc_facts]:
  "layout_bits mlx5_ifc_rx_hash_field_select_bits = 0x20"
  "layout_ok 0 mlx5_ifc_rx_hash_field_select_bits" "names_ok 0 mlx5_ifc_rx_hash_field_select_bits" "union_free mlx5_ifc_rx_hash_field_select_bits"
  by (simp_all add: mlx5_ifc_rx_hash_field_select_bits_def ifc_facts)

lemma tirc_facts [ifc_facts]:
  "layout_bits mlx5_ifc_tirc_bits = 0x780"
  "layout_ok 0 mlx5_ifc_tirc_bits" "names_ok 0 mlx5_ifc_tirc_bits" "union_free mlx5_ifc_tirc_bits"
  by (simp_all add: mlx5_ifc_tirc_bits_def ifc_facts)

lemma create_tir_out_facts [ifc_facts]:
  "layout_bits mlx5_ifc_create_tir_out_bits = 0x80"
  "layout_ok 0 mlx5_ifc_create_tir_out_bits" "names_ok 0 mlx5_ifc_create_tir_out_bits" "union_free mlx5_ifc_create_tir_out_bits"
  by (simp_all add: mlx5_ifc_create_tir_out_bits_def ifc_facts)

lemma create_tir_in_facts [ifc_facts]:
  "layout_bits mlx5_ifc_create_tir_in_bits = 0x880"
  "layout_ok 0 mlx5_ifc_create_tir_in_bits" "names_ok 0 mlx5_ifc_create_tir_in_bits" "union_free mlx5_ifc_create_tir_in_bits"
  by (simp_all add: mlx5_ifc_create_tir_in_bits_def ifc_facts)

lemma create_qp_out_facts [ifc_facts]:
  "layout_bits mlx5_ifc_create_qp_out_bits = 0x80"
  "layout_ok 0 mlx5_ifc_create_qp_out_bits" "names_ok 0 mlx5_ifc_create_qp_out_bits" "union_free mlx5_ifc_create_qp_out_bits"
  by (simp_all add: mlx5_ifc_create_qp_out_bits_def ifc_facts)

lemma create_qp_in_facts [ifc_facts]:
  "layout_bits mlx5_ifc_create_qp_in_bits = 0x880"
  "layout_ok 0 mlx5_ifc_create_qp_in_bits" "names_ok 0 mlx5_ifc_create_qp_in_bits" "union_free mlx5_ifc_create_qp_in_bits"
  by (simp_all add: mlx5_ifc_create_qp_in_bits_def ifc_facts)

lemma init2rtr_qp_out_facts [ifc_facts]:
  "layout_bits mlx5_ifc_init2rtr_qp_out_bits = 0x80"
  "layout_ok 0 mlx5_ifc_init2rtr_qp_out_bits" "names_ok 0 mlx5_ifc_init2rtr_qp_out_bits" "union_free mlx5_ifc_init2rtr_qp_out_bits"
  by (simp_all add: mlx5_ifc_init2rtr_qp_out_bits_def ifc_facts)

lemma init2rtr_qp_in_facts [ifc_facts]:
  "layout_bits mlx5_ifc_init2rtr_qp_in_bits = 0x880"
  "layout_ok 0 mlx5_ifc_init2rtr_qp_in_bits" "names_ok 0 mlx5_ifc_init2rtr_qp_in_bits" "union_free mlx5_ifc_init2rtr_qp_in_bits"
  by (simp_all add: mlx5_ifc_init2rtr_qp_in_bits_def ifc_facts)

lemma rtr2rts_qp_out_facts [ifc_facts]:
  "layout_bits mlx5_ifc_rtr2rts_qp_out_bits = 0x80"
  "layout_ok 0 mlx5_ifc_rtr2rts_qp_out_bits" "names_ok 0 mlx5_ifc_rtr2rts_qp_out_bits" "union_free mlx5_ifc_rtr2rts_qp_out_bits"
  by (simp_all add: mlx5_ifc_rtr2rts_qp_out_bits_def ifc_facts)

lemma rtr2rts_qp_in_facts [ifc_facts]:
  "layout_bits mlx5_ifc_rtr2rts_qp_in_bits = 0x880"
  "layout_ok 0 mlx5_ifc_rtr2rts_qp_in_bits" "names_ok 0 mlx5_ifc_rtr2rts_qp_in_bits" "union_free mlx5_ifc_rtr2rts_qp_in_bits"
  by (simp_all add: mlx5_ifc_rtr2rts_qp_in_bits_def ifc_facts)

lemma rst2init_qp_out_facts [ifc_facts]:
  "layout_bits mlx5_ifc_rst2init_qp_out_bits = 0x80"
  "layout_ok 0 mlx5_ifc_rst2init_qp_out_bits" "names_ok 0 mlx5_ifc_rst2init_qp_out_bits" "union_free mlx5_ifc_rst2init_qp_out_bits"
  by (simp_all add: mlx5_ifc_rst2init_qp_out_bits_def ifc_facts)

lemma rst2init_qp_in_facts [ifc_facts]:
  "layout_bits mlx5_ifc_rst2init_qp_in_bits = 0x880"
  "layout_ok 0 mlx5_ifc_rst2init_qp_in_bits" "names_ok 0 mlx5_ifc_rst2init_qp_in_bits" "union_free mlx5_ifc_rst2init_qp_in_bits"
  by (simp_all add: mlx5_ifc_rst2init_qp_in_bits_def ifc_facts)

lemma query_qp_out_facts [ifc_facts]:
  "layout_bits mlx5_ifc_query_qp_out_bits = 0x880"
  "layout_ok 0 mlx5_ifc_query_qp_out_bits" "names_ok 0 mlx5_ifc_query_qp_out_bits" "union_free mlx5_ifc_query_qp_out_bits"
  by (simp_all add: mlx5_ifc_query_qp_out_bits_def ifc_facts)

lemma query_qp_in_facts [ifc_facts]:
  "layout_bits mlx5_ifc_query_qp_in_bits = 0x80"
  "layout_ok 0 mlx5_ifc_query_qp_in_bits" "names_ok 0 mlx5_ifc_query_qp_in_bits" "union_free mlx5_ifc_query_qp_in_bits"
  by (simp_all add: mlx5_ifc_query_qp_in_bits_def ifc_facts)

lemma tisc_facts [ifc_facts]:
  "layout_bits mlx5_ifc_tisc_bits = 0x500"
  "layout_ok 0 mlx5_ifc_tisc_bits" "names_ok 0 mlx5_ifc_tisc_bits" "union_free mlx5_ifc_tisc_bits"
  by (simp_all add: mlx5_ifc_tisc_bits_def ifc_facts)

lemma query_tis_out_facts [ifc_facts]:
  "layout_bits mlx5_ifc_query_tis_out_bits = 0x580"
  "layout_ok 0 mlx5_ifc_query_tis_out_bits" "names_ok 0 mlx5_ifc_query_tis_out_bits" "union_free mlx5_ifc_query_tis_out_bits"
  by (simp_all add: mlx5_ifc_query_tis_out_bits_def ifc_facts)

lemma query_tis_in_facts [ifc_facts]:
  "layout_bits mlx5_ifc_query_tis_in_bits = 0x80"
  "layout_ok 0 mlx5_ifc_query_tis_in_bits" "names_ok 0 mlx5_ifc_query_tis_in_bits" "union_free mlx5_ifc_query_tis_in_bits"
  by (simp_all add: mlx5_ifc_query_tis_in_bits_def ifc_facts)

lemma lagc_facts [ifc_facts]:
  "layout_bits mlx5_ifc_lagc_bits = 0x40"
  "layout_ok 0 mlx5_ifc_lagc_bits" "names_ok 0 mlx5_ifc_lagc_bits" "union_free mlx5_ifc_lagc_bits"
  by (simp_all add: mlx5_ifc_lagc_bits_def ifc_facts)

lemma query_lag_out_facts [ifc_facts]:
  "layout_bits mlx5_ifc_query_lag_out_bits = 0x80"
  "layout_ok 0 mlx5_ifc_query_lag_out_bits" "names_ok 0 mlx5_ifc_query_lag_out_bits" "union_free mlx5_ifc_query_lag_out_bits"
  by (simp_all add: mlx5_ifc_query_lag_out_bits_def ifc_facts)

lemma query_lag_in_facts [ifc_facts]:
  "layout_bits mlx5_ifc_query_lag_in_bits = 0x80"
  "layout_ok 0 mlx5_ifc_query_lag_in_bits" "names_ok 0 mlx5_ifc_query_lag_in_bits" "union_free mlx5_ifc_query_lag_in_bits"
  by (simp_all add: mlx5_ifc_query_lag_in_bits_def ifc_facts)

lemma modify_tis_out_facts [ifc_facts]:
  "layout_bits mlx5_ifc_modify_tis_out_bits = 0x80"
  "layout_ok 0 mlx5_ifc_modify_tis_out_bits" "names_ok 0 mlx5_ifc_modify_tis_out_bits" "union_free mlx5_ifc_modify_tis_out_bits"
  by (simp_all add: mlx5_ifc_modify_tis_out_bits_def ifc_facts)

lemma modify_tis_bitmask_facts [ifc_facts]:
  "layout_bits mlx5_ifc_modify_tis_bitmask_bits = 0x40"
  "layout_ok 0 mlx5_ifc_modify_tis_bitmask_bits" "names_ok 0 mlx5_ifc_modify_tis_bitmask_bits" "union_free mlx5_ifc_modify_tis_bitmask_bits"
  by (simp_all add: mlx5_ifc_modify_tis_bitmask_bits_def ifc_facts)

lemma modify_tis_in_facts [ifc_facts]:
  "layout_bits mlx5_ifc_modify_tis_in_bits = 0x600"
  "layout_ok 0 mlx5_ifc_modify_tis_in_bits" "names_ok 0 mlx5_ifc_modify_tis_in_bits" "union_free mlx5_ifc_modify_tis_in_bits"
  by (simp_all add: mlx5_ifc_modify_tis_in_bits_def ifc_facts)

lemma roce_addr_layout_facts [ifc_facts]:
  "layout_bits mlx5_ifc_roce_addr_layout_bits = 0x100"
  "layout_ok 0 mlx5_ifc_roce_addr_layout_bits" "names_ok 0 mlx5_ifc_roce_addr_layout_bits" "union_free mlx5_ifc_roce_addr_layout_bits"
  by (simp_all add: mlx5_ifc_roce_addr_layout_bits_def ifc_facts)

lemma query_roce_address_out_facts [ifc_facts]:
  "layout_bits mlx5_ifc_query_roce_address_out_bits = 0x180"
  "layout_ok 0 mlx5_ifc_query_roce_address_out_bits" "names_ok 0 mlx5_ifc_query_roce_address_out_bits" "union_free mlx5_ifc_query_roce_address_out_bits"
  by (simp_all add: mlx5_ifc_query_roce_address_out_bits_def ifc_facts)

lemma query_roce_address_in_facts [ifc_facts]:
  "layout_bits mlx5_ifc_query_roce_address_in_bits = 0x80"
  "layout_ok 0 mlx5_ifc_query_roce_address_in_bits" "names_ok 0 mlx5_ifc_query_roce_address_in_bits" "union_free mlx5_ifc_query_roce_address_in_bits"
  by (simp_all add: mlx5_ifc_query_roce_address_in_bits_def ifc_facts)

lemma dr_action_hw_set_facts [ifc_facts]:
  "layout_bits mlx5_ifc_dr_action_hw_set_bits = 0x40"
  "layout_ok 0 mlx5_ifc_dr_action_hw_set_bits" "names_ok 0 mlx5_ifc_dr_action_hw_set_bits" "union_free mlx5_ifc_dr_action_hw_set_bits"
  by (simp_all add: mlx5_ifc_dr_action_hw_set_bits_def ifc_facts)

lemma dr_action_hw_copy_facts [ifc_facts]:
  "layout_bits mlx5_ifc_dr_action_hw_copy_bits = 0x40"
  "layout_ok 0 mlx5_ifc_dr_action_hw_copy_bits" "names_ok 0 mlx5_ifc_dr_action_hw_copy_bits" "union_free mlx5_ifc_dr_action_hw_copy_bits"
  by (simp_all add: mlx5_ifc_dr_action_hw_copy_bits_def ifc_facts)

lemma host_params_context_facts [ifc_facts]:
  "layout_bits mlx5_ifc_host_params_context_bits = 0x200"
  "layout_ok 0 mlx5_ifc_host_params_context_bits" "names_ok 0 mlx5_ifc_host_params_context_bits" "union_free mlx5_ifc_host_params_context_bits"
  by (simp_all add: mlx5_ifc_host_params_context_bits_def ifc_facts)

lemma query_esw_functions_in_facts [ifc_facts]:
  "layout_bits mlx5_ifc_query_esw_functions_in_bits = 0x80"
  "layout_ok 0 mlx5_ifc_query_esw_functions_in_bits" "names_ok 0 mlx5_ifc_query_esw_functions_in_bits" "union_free mlx5_ifc_query_esw_functions_in_bits"
  by (simp_all add: mlx5_ifc_query_esw_functions_in_bits_def ifc_facts)

lemma query_esw_functions_out_facts [ifc_facts]:
  "layout_bits mlx5_ifc_query_esw_functions_out_bits = 0x400"
  "layout_ok 0 mlx5_ifc_query_esw_functions_out_bits" "names_ok 0 mlx5_ifc_query_esw_functions_out_bits" "union_free mlx5_ifc_query_esw_functions_out_bits"
  by (simp_all add: mlx5_ifc_query_esw_functions_out_bits_def ifc_facts)

section \<open>All structures of this part\<close>

definition ifc_commands :: "layout list" where
  "ifc_commands = [
    mlx5_ifc_packet_reformat_context_in_bits, mlx5_ifc_alloc_packet_reformat_context_in_bits,
    mlx5_ifc_alloc_packet_reformat_context_out_bits,
    mlx5_ifc_dealloc_packet_reformat_context_in_bits,
    mlx5_ifc_dealloc_packet_reformat_context_out_bits, mlx5_ifc_alloc_flow_counter_in_bits,
    mlx5_ifc_alloc_flow_counter_out_bits, mlx5_ifc_general_obj_in_cmd_hdr_bits,
    mlx5_ifc_general_obj_out_cmd_hdr_bits, mlx5_ifc_flow_meter_bits,
    mlx5_ifc_create_flow_meter_in_bits, mlx5_ifc_query_flow_meter_out_bits,
    mlx5_ifc_modify_header_arg_bits, mlx5_ifc_create_modify_header_arg_in_bits,
    mlx5_ifc_esw_vport_context_bits, mlx5_ifc_query_esw_vport_context_out_bits,
    mlx5_ifc_query_esw_vport_context_in_bits, mlx5_ifc_mac_address_layout_bits,
    mlx5_ifc_nic_vport_context_bits, mlx5_ifc_query_nic_vport_context_out_bits,
    mlx5_ifc_query_nic_vport_context_in_bits, mlx5_ifc_ads_bits, mlx5_ifc_qpc_bits,
    mlx5_ifc_rx_hash_field_select_bits, mlx5_ifc_tirc_bits, mlx5_ifc_create_tir_out_bits,
    mlx5_ifc_create_tir_in_bits, mlx5_ifc_create_qp_out_bits, mlx5_ifc_create_qp_in_bits,
    mlx5_ifc_init2rtr_qp_out_bits, mlx5_ifc_init2rtr_qp_in_bits, mlx5_ifc_rtr2rts_qp_out_bits,
    mlx5_ifc_rtr2rts_qp_in_bits, mlx5_ifc_rst2init_qp_out_bits, mlx5_ifc_rst2init_qp_in_bits,
    mlx5_ifc_query_qp_out_bits, mlx5_ifc_query_qp_in_bits, mlx5_ifc_tisc_bits,
    mlx5_ifc_query_tis_out_bits, mlx5_ifc_query_tis_in_bits, mlx5_ifc_lagc_bits,
    mlx5_ifc_query_lag_out_bits, mlx5_ifc_query_lag_in_bits, mlx5_ifc_modify_tis_out_bits,
    mlx5_ifc_modify_tis_bitmask_bits, mlx5_ifc_modify_tis_in_bits, mlx5_ifc_roce_addr_layout_bits,
    mlx5_ifc_query_roce_address_out_bits, mlx5_ifc_query_roce_address_in_bits,
    mlx5_ifc_dr_action_hw_set_bits, mlx5_ifc_dr_action_hw_copy_bits,
    mlx5_ifc_host_params_context_bits, mlx5_ifc_query_esw_functions_in_bits,
    mlx5_ifc_query_esw_functions_out_bits]"

lemma ifc_commands_ok: "list_all (layout_ok 0) ifc_commands"
  by (simp add: ifc_commands_def ifc_facts)

lemma ifc_commands_misnamed:
  "filter (\<lambda>l. \<not> names_ok 0 l) ifc_commands = [
    mlx5_ifc_flow_meter_bits, mlx5_ifc_esw_vport_context_bits]"
  by (simp add: ifc_commands_def ifc_facts)

lemma ifc_commands_odd_sizes:
  "filter (\<lambda>l. layout_bits l mod 32 \<noteq> 0) ifc_commands = []"
  by (simp add: ifc_commands_def ifc_facts)

lemma ifc_commands_unions:
  "filter (\<lambda>l. \<not> union_free l) ifc_commands = []"
  by (simp add: ifc_commands_def ifc_facts)

end
