(* ===== verification/Mlx5_Ifc.thy ===== *)
theory Mlx5_Ifc
  imports Ifc_Commands
begin

text \<open>
  All device structures of \<open>providers/mlx5/mlx5_ifc.h\<close> together: the accessors of
  \<open>Devx\<close> are correct on every field of every one of them, the offsets in the names of
  the reserved members are right except in the structures listed, and so are the sizes.
\<close>

definition ifc_structs :: "layout list" where
  "ifc_structs = ifc_caps @ ifc_steering @ ifc_commands"

lemma ifc_struct_ok: "l \<in> set ifc_structs \<Longrightarrow> layout_ok 0 l"
  using ifc_caps_ok ifc_steering_ok ifc_commands_ok by (auto simp: ifc_structs_def list_all_iff)

lemma ifc_struct_union_free: "l \<in> set ifc_structs \<Longrightarrow> l \<noteq> mlx5_ifc_query_hca_cap_out_bits \<Longrightarrow> union_free l"
  using arg_cong[OF ifc_caps_unions, of set] arg_cong[OF ifc_steering_unions, of set]
    arg_cong[OF ifc_commands_unions, of set] by (auto simp: ifc_structs_def)

text \<open>
  Property C6: the fields of every device structure are independent. In each of the 136 structures
  (but the one that contains a union), on a buffer of whole dwords that holds it, every field
  of at most 32 bits can be written, reads back the value that was
  written, cut to its width, and leaves every other field of the structure unchanged.
\<close>

theorem ifc_fields_independent:
  assumes "l \<in> set ifc_structs" "l \<noteq> mlx5_ifc_query_hca_cap_out_bits"
    and "layout_bits l \<le> 8 * length buf" "4 dvd length buf"
    and "locate 0 l p = Some (off, w)" "(off, w) \<in> set (leaves 0 l)" "w \<le> 32"
  shows "\<exists>buf'. DEVX_SET l buf p v = Some (Inr buf') \<and> length buf' = length buf \<and>
    DEVX_GET l buf' p = Some (Inr (v AND devx_mask w)) \<and>
    (\<forall>q off' w'. locate 0 l q = Some (off', w') \<longrightarrow> (off', w') \<in> set (leaves 0 l) \<longrightarrow> w' \<le> 32 \<longrightarrow>
       off' \<noteq> off \<longrightarrow> DEVX_GET l buf' q = DEVX_GET l buf q)"
  by (rule devx_field_contract[OF ifc_struct_ok[OF assms(1)] ifc_struct_union_free[OF assms(1,2)] assms(3-7)])

lemma lagc_in: "mlx5_ifc_lagc_bits \<in> set ifc_structs"
  by (simp add: ifc_structs_def ifc_commands_def)

theorem ifc_fields_independent_witness:
  "\<exists>buf'. DEVX_SET mlx5_ifc_lagc_bits (replicate 8 0) [Name ''tx_remap_affinity_2''] 0x13 = Some (Inr buf') \<and>
    DEVX_GET mlx5_ifc_lagc_bits buf' [Name ''tx_remap_affinity_2''] = Some (Inr 3) \<and>
    DEVX_GET mlx5_ifc_lagc_bits buf' [Name ''tx_remap_affinity_1''] =
      DEVX_GET mlx5_ifc_lagc_bits (replicate 8 0) [Name ''tx_remap_affinity_1'']"
proof -
  let ?l = mlx5_ifc_lagc_bits and ?b = "replicate 8 0 :: u8 list"
  have "hd ?l \<noteq> hd mlx5_ifc_query_hca_cap_out_bits"
    by (simp add: mlx5_ifc_lagc_bits_def mlx5_ifc_query_hca_cap_out_bits_def)
  then have ne: "?l \<noteq> mlx5_ifc_query_hca_cap_out_bits" by metis
  have loc: "locate 0 ?l [Name ''tx_remap_affinity_2''] = Some (52, 4)"
    "locate 0 ?l [Name ''tx_remap_affinity_1''] = Some (60, 4)"
    "(52, 4) \<in> set (leaves 0 ?l)" "(60, 4) \<in> set (leaves 0 ?l)"
    by (simp_all add: mlx5_ifc_lagc_bits_def)
  have sz: "layout_bits ?l \<le> 8 * length ?b" "4 dvd length ?b" by (simp_all add: ifc_facts)
  have "(0x13 AND devx_mask 4 :: u32) = 3" by (simp add: devx_mask_def)
  then show ?thesis
    using ifc_fields_independent[OF lagc_in ne sz loc(1,3), of "0x13"] loc(2,4) by auto
qed


end
