(* ===== verification/Ring_Lists.thy ===== *)
theory Ring_Lists
  imports Prelude
begin

text \<open>
  Circular doubly linked lists on a heap, shared by the three list implementations of
  the repository. A heap gives each address its two links; the predicate
  \<open>holds s h xs\<close> says that the list headed by \<open>h\<close> consists of the nodes \<open>xs\<close>. The locale
  \<open>ring_ops\<close> is the interface of the implementations and proves once that any
  sequence of their operations acts on the list as on a list of nodes.
\<close>

section \<open>Heaps\<close>

record links =
  nxt :: "nat \<Rightarrow> nat"
  prv :: "nat \<Rightarrow> nat"

fun chain :: "links \<Rightarrow> nat list \<Rightarrow> bool" where
  "chain s (a # b # r) = (nxt s a = b \<and> prv s b = a \<and> chain s (b # r))"
| "chain s _ = True"

definition holds :: "links \<Rightarrow> nat \<Rightarrow> nat list \<Rightarrow> bool" where
  "holds s h xs \<longleftrightarrow> distinct (h # xs) \<and> chain s (h # xs @ [h])"

definition set_nxt :: "nat \<Rightarrow> nat \<Rightarrow> links \<Rightarrow> links" where
  "set_nxt a b s = s\<lparr>nxt := (nxt s)(a := b)\<rparr>"

definition set_prv :: "nat \<Rightarrow> nat \<Rightarrow> links \<Rightarrow> links" where
  "set_prv a b s = s\<lparr>prv := (prv s)(a := b)\<rparr>"

lemma nxt_set [simp]: "nxt (set_nxt a b s) = (nxt s)(a := b)" "nxt (set_prv a b s) = nxt s"
  and prv_set [simp]: "prv (set_prv a b s) = (prv s)(a := b)" "prv (set_nxt a b s) = prv s"
  by (simp_all add: set_nxt_def set_prv_def)

section \<open>Chains\<close>

lemma chain_append: "chain s (xs @ a # ys) \<longleftrightarrow> chain s (xs @ [a]) \<and> chain s (a # ys)"
proof (induction xs)
  case (Cons x xs)
  then show ?case by (cases xs) simp_all
qed simp

lemma chain_cong:
  assumes "\<And>a. a \<in> set (butlast l) \<Longrightarrow> nxt s' a = nxt s a" "\<And>a. a \<in> set (tl l) \<Longrightarrow> prv s' a = prv s a"
  shows "chain s' l \<longleftrightarrow> chain s l"
  using assms by (induction s l rule: chain.induct) auto

lemma holds_Nil: "holds s h [] \<longleftrightarrow> nxt s h = h \<and> prv s h = h"
  by (simp add: holds_def)

text \<open>The neighbours of a position in the list.\<close>

definition before :: "nat \<Rightarrow> nat list \<Rightarrow> nat" where
  "before h xs = last (h # xs)"

definition after :: "nat \<Rightarrow> nat list \<Rightarrow> nat" where
  "after h ys = hd (ys @ [h])"

lemma ring_split: "h # (xs @ ys) @ [h] = butlast (h # xs) @ before h xs # ys @ [h]"
proof -
  have "h # (xs @ ys) @ [h] = (h # xs) @ ys @ [h]" by simp
  also have "h # xs = butlast (h # xs) @ [before h xs]"
    unfolding before_def by (rule append_butlast_last_id[symmetric]) simp
  finally show ?thesis by simp
qed

lemma after_split: "ys @ [h] = after h ys # tl (ys @ [h])"
  by (cases ys) (simp_all add: after_def)

lemma holds_split:
  "holds s h (xs @ ys) \<longleftrightarrow> distinct (h # xs @ ys) \<and> chain s (h # xs) \<and>
     nxt s (before h xs) = after h ys \<and> prv s (after h ys) = before h xs \<and> chain s (ys @ [h])"
proof -
  have a: "butlast (h # xs) @ [before h xs] = h # xs"
    unfolding before_def using append_butlast_last_id[of "h # xs"] by simp
  have "chain s (h # (xs @ ys) @ [h]) \<longleftrightarrow>
      chain s (butlast (h # xs) @ [before h xs]) \<and> chain s (before h xs # ys @ [h])"
    unfolding ring_split by (rule chain_append)
  also have "chain s (before h xs # ys @ [h]) \<longleftrightarrow>
      nxt s (before h xs) = after h ys \<and> prv s (after h ys) = before h xs \<and> chain s (ys @ [h])"
    by (subst (1 2) after_split) simp
  finally show ?thesis unfolding a holds_def by auto
qed

lemma holds_at:
  assumes "holds s h (xs @ x # ys)"
  shows "prv s x = before h xs" "nxt s x = after h ys"
proof -
  show "prv s x = before h xs" using assms holds_split[of s h xs "x # ys"] by (simp add: after_def)
  have "holds s h ((xs @ [x]) @ ys)" using assms by simp
  then show "nxt s x = after h ys" unfolding holds_split by (simp add: before_def)
qed

lemma chain_at:
  "chain s (h # xs @ x # ys) \<longleftrightarrow> chain s (h # xs) \<and> nxt s (before h xs) = x \<and> prv s x = before h xs \<and> chain s (x # ys)"
  by (induction xs arbitrary: h) (auto simp: before_def)

lemma before_in: "before h xs \<in> set (h # xs)"
  by (auto simp: before_def)

lemma after_in: "after h ys \<in> set (h # ys)"
  by (cases ys) (auto simp: after_def)

lemma holds_head:
  assumes "holds s h xs"
  shows "nxt s h = after h xs" "prv s h = before h xs"
  using assms holds_split[of s h "[]" xs] holds_split[of s h xs "[]"] by (simp_all add: before_def after_def)

lemma neighbours_in:
  assumes "holds s h (xs @ x # ys)"
  shows "prv s x \<in> set (h # xs @ x # ys)" "nxt s x \<in> set (h # xs @ x # ys)"
  using before_in[of h xs] after_in[of h ys] holds_at[OF assms] by auto

lemma distinct_butlast_last: "distinct (h # xs) \<Longrightarrow> a \<in> set (butlast (h # xs)) \<Longrightarrow> a \<noteq> before h xs"
proof -
  assume "distinct (h # xs)" "a \<in> set (butlast (h # xs))"
  moreover have "h # xs = butlast (h # xs) @ [before h xs]"
    unfolding before_def using append_butlast_last_id[of "h # xs"] by simp
  ultimately show ?thesis by (metis distinct_append disjoint_iff list.set_intros(1))
qed

lemma ring_insert:
  assumes "holds s h (xs @ ys)" "x \<notin> set (h # xs @ ys)"
    and "nxt s' = (nxt s)(before h xs := x, x := after h ys)"
    and "prv s' = (prv s)(after h ys := x, x := before h xs)"
  shows "holds s' h (xs @ x # ys)"
proof -
  have d: "distinct (h # xs @ ys)" and c1: "chain s (h # xs)" and c2: "chain s (ys @ [h])"
    using assms(1) by (auto simp: holds_split)
  have b: "before h xs \<in> set (h # xs)" "after h ys \<in> set (h # ys)" by (rule before_in after_in)+
  have n1: "nxt s' a = nxt s a" if "a \<in> set (butlast (h # xs))" for a
    using that assms(2) distinct_butlast_last[of h xs a] d in_set_butlastD[OF that] by (auto simp: assms(3))
  have n2: "nxt s' a = nxt s a" if "a \<in> set ys" for a
    using that assms(2) d b(1) by (auto simp: assms(3))
  have p1: "prv s' a = prv s a" if "a \<in> set xs" for a
    using that assms(2) d b(2) by (auto simp: assms(4))
  have p2: "prv s' a = prv s a" if "a \<in> set (tl (ys @ [h]))" for a
  proof -
    have "distinct (ys @ [h])" using d by auto
    then have "a \<noteq> after h ys" using that after_split[of ys h] by (metis distinct.simps(2))
    moreover have "a \<noteq> x" using that assms(2) by (cases ys) auto
    ultimately show ?thesis by (simp add: assms(4))
  qed
  have "chain s' (h # xs)" using c1 chain_cong[of "h # xs" s' s] n1 p1 by simp
  moreover have "chain s' (ys @ [h])" using c2 chain_cong[of "ys @ [h]" s' s] n2 p2 by simp
  moreover have "x \<noteq> before h xs" "x \<noteq> after h ys" using assms(2) b by auto
  ultimately have "chain s' ((x # ys) @ [h])" "nxt s' (before h xs) = x" "prv s' x = before h xs" "chain s' (h # xs)"
    using after_split[of ys h] by (auto simp: assms(3,4)) (metis assms(3,4) chain.simps(1) fun_upd_apply)
  then show ?thesis using d assms(2) unfolding holds_split by (auto simp: after_def)
qed


lemma ring_remove:
  assumes "holds s h (xs @ x # ys)"
    and "\<And>a. a \<noteq> x \<Longrightarrow> nxt s' a = ((nxt s)(before h xs := after h ys)) a"
    and "\<And>a. a \<noteq> x \<Longrightarrow> prv s' a = ((prv s)(after h ys := before h xs)) a"
  shows "holds s' h (xs @ ys)"
proof -
  have d: "distinct (h # xs @ x # ys)" and c1: "chain s (h # xs)" and c: "chain s ((x # ys) @ [h])"
    using assms(1) by (auto simp: holds_split)
  have c2: "chain s (ys @ [h])" using c after_split[of ys h] by (cases ys) simp_all
  have b: "before h xs \<in> set (h # xs)" "after h ys \<in> set (h # ys)" by (rule before_in after_in)+
  have n1: "nxt s' a = nxt s a" if "a \<in> set (butlast (h # xs))" for a
  proof -
    have "a \<noteq> before h xs" using distinct_butlast_last[of h xs a] that d by simp
    moreover have "a \<noteq> x" using in_set_butlastD[OF that] d by auto
    ultimately show ?thesis by (simp add: assms(2))
  qed
  have n2: "nxt s' a = nxt s a" if "a \<in> set ys" for a
  proof -
    have "a \<noteq> x" "a \<noteq> before h xs" using that d b(1) by auto
    then show ?thesis by (simp add: assms(2))
  qed
  have p1: "prv s' a = prv s a" if "a \<in> set xs" for a
  proof -
    have "a \<noteq> x" "a \<noteq> after h ys" using that d b(2) by auto
    then show ?thesis by (simp add: assms(3))
  qed
  have p2: "prv s' a = prv s a" if "a \<in> set (tl (ys @ [h]))" for a
  proof -
    have "distinct (ys @ [h])" using d by auto
    then have "a \<noteq> after h ys" using that after_split[of ys h] by (metis distinct.simps(2))
    moreover have "a \<noteq> x" using that d by (cases ys) auto
    ultimately show ?thesis by (simp add: assms(3))
  qed
  have "chain s' (h # xs)" using c1 chain_cong[of "h # xs" s' s] n1 p1 by simp
  moreover have "chain s' (ys @ [h])" using c2 chain_cong[of "ys @ [h]" s' s] n2 p2 by simp
  moreover have "nxt s' (before h xs) = after h ys" "prv s' (after h ys) = before h xs"
  proof -
    have "before h xs \<noteq> x" "after h ys \<noteq> x" using b d by auto
    then show "nxt s' (before h xs) = after h ys" "prv s' (after h ys) = before h xs"
      by (simp_all add: assms(2,3))
  qed
  ultimately show ?thesis using d unfolding holds_split by auto
qed

lemma ring_replace:
  assumes "holds s h (xs @ y # ys)" "x \<notin> set (h # xs @ y # ys)"
    and "nxt s' = (nxt s)(x := after h ys, before h xs := x)"
    and "prv s' = (prv s)(x := before h xs, after h ys := x)"
  shows "holds s' h (xs @ x # ys)"
proof -
  define t where "t = set_nxt (before h xs) (after h ys) (set_prv (after h ys) (before h xs) s)"
  have "holds t h (xs @ ys)" by (rule ring_remove[OF assms(1)]) (simp_all add: t_def)
  moreover have "x \<noteq> before h xs" "x \<noteq> after h ys"
    using assms(2) before_in[of h xs] after_in[of h ys] by auto
  ultimately show ?thesis using assms(2)
    by (intro ring_insert[of t]) (auto simp: t_def assms(3,4))
qed

text \<open>A whole list, its head included, sewn into another one.\<close>

lemma ring_sew:
  assumes s: "holds s h (xs @ zs)" and g: "holds s g ys" and dis: "set (g # ys) \<inter> set (h # xs @ zs) = {}"
    and n: "nxt t = (nxt s)(before g ys := after h zs, before h xs := g)"
    and p: "prv t = (prv s)(after h zs := before g ys, g := before h xs)"
  shows "holds t h (xs @ g # ys @ zs)"
proof -
  let ?A = "after h zs" and ?B = "before h xs" and ?E = "before g ys"
  have d: "distinct (h # xs @ zs)" "distinct (g # ys)" and c: "chain s (h # xs)" "chain s (zs @ [h])" "chain s (g # ys)"
    using s[unfolded holds_split] g holds_split[of s g ys "[]"] by (auto simp: holds_def)
  have b: "?A \<in> set (h # zs)" "?B \<in> set (h # xs)" "?E \<in> set (g # ys)" by (rule after_in before_in)+
  have ab: "?A \<notin> set (g # ys)" "?B \<notin> set (g # ys)" "?E \<notin> set (h # xs @ zs)" "g \<notin> set (h # xs @ zs)"
    using b dis by auto
  have "chain t (h # xs)"
  proof -
    have "nxt t a = nxt s a" if "a \<in> set (butlast (h # xs))" for a
      using distinct_butlast_last[of h xs a] that d(1) in_set_butlastD[OF that] ab(3) by (auto simp: n)
    moreover have "prv t a = prv s a" if "a \<in> set xs" for a
      using that d(1) b(1) ab(4) by (auto simp: p)
    ultimately show ?thesis using c(1) chain_cong[of "h # xs" t s] by simp
  qed
  moreover have "chain t (g # ys)"
  proof -
    have "nxt t a = nxt s a" if "a \<in> set (butlast (g # ys))" for a
      using distinct_butlast_last[OF d(2) that] in_set_butlastD[OF that] ab(2) by (auto simp: n)
    moreover have "prv t a = prv s a" if "a \<in> set ys" for a
      using that d(2) ab(1) by (auto simp: p)
    ultimately show ?thesis using c(3) chain_cong[of "g # ys" t s] by simp
  qed
  moreover have "chain t (zs @ [h])"
  proof -
    have "nxt t a = nxt s a" if "a \<in> set zs" for a
      using that d(1) b(2) ab(3) by (auto simp: n)
    moreover have "prv t a = prv s a" if "a \<in> set (tl (zs @ [h]))" for a
    proof -
      have "distinct (zs @ [h])" using d(1) by auto
      then have "a \<noteq> ?A" using that after_split[of zs h] by (metis distinct.simps(2))
      moreover have "a \<noteq> g" using that ab(4) by (cases zs) auto
      ultimately show ?thesis by (simp add: p)
    qed
    ultimately show ?thesis using c(2) chain_cong[of "zs @ [h]" t s] by simp
  qed
  moreover have "nxt t ?B = g" "prv t g = ?B" "nxt t ?E = ?A" "prv t ?A = ?E"
    using ab b by (auto simp: n p)
  moreover have "chain t (g # ys @ zs @ [h]) \<longleftrightarrow>
      chain t (g # ys) \<and> nxt t ?E = ?A \<and> prv t ?A = ?E \<and> chain t (zs @ [h])"
    using chain_at[of t g ys ?A "tl (zs @ [h])"] unfolding after_split[of zs h, symmetric] .
  moreover have "distinct (h # xs @ g # ys @ zs)" using d dis by auto
  ultimately show ?thesis unfolding holds_split[of t h xs "g # ys @ zs"] by (simp add: after_def)
qed

section \<open>Frames\<close>

definition only :: "nat set \<Rightarrow> links \<Rightarrow> links \<Rightarrow> bool" where
  "only A s s' \<longleftrightarrow> (\<forall>a. a \<notin> A \<longrightarrow> nxt s' a = nxt s a \<and> prv s' a = prv s a)"

lemma holds_frame:
  assumes "only A s s'" "holds s g zs" "set (g # zs) \<inter> A = {}"
  shows "holds s' g zs"
proof -
  have a: "a \<notin> A" if "a \<in> set (g # zs)" for a using that assms(3) by auto
  have "nxt s' a = nxt s a" if "a \<in> set (butlast (g # zs @ [g]))" for a
    using that a[of a] assms(1) by (auto simp: only_def butlast_append split: if_splits)
  moreover have "prv s' a = prv s a" if "a \<in> set (tl (g # zs @ [g]))" for a
    using that a[of a] assms(1) by (auto simp: only_def)
  ultimately have "chain s' (g # zs @ [g]) \<longleftrightarrow> chain s (g # zs @ [g])" by (rule chain_cong)
  then show ?thesis using assms(2) by (simp add: holds_def)
qed

lemma only_set [simp]: "only A s (set_nxt a b t) \<longleftrightarrow> only A s t" if "a \<in> A" for a
  using that by (auto simp: only_def)

lemma only_set_prv [simp]: "only A s (set_prv a b t) \<longleftrightarrow> only A s t" if "a \<in> A" for a
  using that by (auto simp: only_def)

lemma only_refl [simp]: "only A s s"
  by (simp add: only_def)

section \<open>The interface of the lists\<close>

text \<open>What a program sees of its lists: a map from the heads to the nodes behind them.\<close>

type_synonym lists = "nat \<Rightarrow> nat list option"

datatype ring_op = Init nat | Push nat nat | Push_Tail nat nat | Delete nat

definition owned :: "lists \<Rightarrow> nat set" where
  "owned m = {a. \<exists>h xs. m h = Some xs \<and> a \<in> set (h # xs)}"

inductive spec_step :: "lists \<Rightarrow> ring_op \<Rightarrow> lists \<Rightarrow> bool" where
  Init: "h \<notin> owned m \<Longrightarrow> spec_step m (Init h) (m(h \<mapsto> []))"
| Push: "m h = Some xs \<Longrightarrow> x \<notin> owned m \<Longrightarrow> spec_step m (Push x h) (m(h \<mapsto> x # xs))"
| Push_Tail: "m h = Some xs \<Longrightarrow> x \<notin> owned m \<Longrightarrow> spec_step m (Push_Tail x h) (m(h \<mapsto> xs @ [x]))"
| Delete: "m h = Some (xs @ x # ys) \<Longrightarrow> spec_step m (Delete x) (m(h \<mapsto> xs @ ys))"

inductive spec_run :: "lists \<Rightarrow> ring_op list \<Rightarrow> lists \<Rightarrow> bool" where
  Done: "spec_run m [] m"
| Step: "spec_step m a m' \<Longrightarrow> spec_run m' as m'' \<Longrightarrow> spec_run m (a # as) m''"

inductive_cases spec_run_ConsE: "spec_run m (a # as) m''"

text \<open>One operation of a program, on the heap, by an implementation of the four operations.\<close>

fun ring_op_with :: "(nat \<Rightarrow> links \<Rightarrow> links) \<Rightarrow> (nat \<Rightarrow> nat \<Rightarrow> links \<Rightarrow> links) \<Rightarrow> (nat \<Rightarrow> nat \<Rightarrow> links \<Rightarrow> links) \<Rightarrow>
    (nat \<Rightarrow> links \<Rightarrow> links) \<Rightarrow> ring_op \<Rightarrow> links \<Rightarrow> links" where
  "ring_op_with init push push_tail del (Init h) s = init h s"
| "ring_op_with init push push_tail del (Push x h) s = push x h s"
| "ring_op_with init push push_tail del (Push_Tail x h) s = push_tail x h s"
| "ring_op_with init push push_tail del (Delete x) s = del x s"

definition represents :: "links \<Rightarrow> lists \<Rightarrow> bool" where
  "represents s m \<longleftrightarrow> (\<forall>h xs. m h = Some xs \<longrightarrow> holds s h xs) \<and>
     (\<forall>h h' xs xs'. m h = Some xs \<longrightarrow> m h' = Some xs' \<longrightarrow> h \<noteq> h' \<longrightarrow> set (h # xs) \<inter> set (h' # xs') = {})"

lemma represents_holds: "represents s m \<Longrightarrow> m h = Some xs \<Longrightarrow> holds s h xs"
  by (simp add: represents_def)

lemma represents_update:
  assumes "represents s m" "only A s s'" "holds s' h ys"
    and "\<And>h' xs'. m h' = Some xs' \<Longrightarrow> h' \<noteq> h \<Longrightarrow> set (h' # xs') \<inter> (A \<union> set (h # ys)) = {}"
  shows "represents s' (m(h \<mapsto> ys))"
proof -
  have "holds s' g zs" if g: "(m(h \<mapsto> ys)) g = Some zs" for g zs
  proof (cases "g = h")
    case True
    then show ?thesis using g assms(3) by simp
  next
    case False
    then have m: "m g = Some zs" using g by simp
    show ?thesis
      by (rule holds_frame[OF assms(2) represents_holds[OF assms(1) m]]) (use assms(4)[OF m False] in auto)
  qed
  moreover have "set (g # zs) \<inter> set (g' # zs') = {}"
    if "(m(h \<mapsto> ys)) g = Some zs" "(m(h \<mapsto> ys)) g' = Some zs'" "g \<noteq> g'" for g g' zs zs'
  proof -
    consider "g = h" | "g' = h" | "g \<noteq> h" "g' \<noteq> h" by blast
    then show ?thesis
    proof cases
      case 1
      then show ?thesis using that assms(4)[of g' zs'] by auto
    next
      case 2
      then show ?thesis using that assms(4)[of g zs] by auto
    next
      case 3
      then show ?thesis using that assms(1) unfolding represents_def by (metis fun_upd_apply)
    qed
  qed
  ultimately show ?thesis unfolding represents_def by blast
qed

lemma represents_drop: "represents s m \<Longrightarrow> represents s (m(l := None))"
  unfolding represents_def by (simp add: fun_upd_apply)

lemma other_disjoint:
  "represents s m \<Longrightarrow> m h = Some xs \<Longrightarrow> m h' = Some xs' \<Longrightarrow> h' \<noteq> h \<Longrightarrow> set (h' # xs') \<inter> set (h # xs) = {}"
  unfolding represents_def by blast

lemma not_owned: "x \<notin> owned m \<Longrightarrow> m h = Some xs \<Longrightarrow> x \<notin> set (h # xs)"
  by (auto simp: owned_def)

locale ring_ops =
  fixes init :: "nat \<Rightarrow> links \<Rightarrow> links"
    and push :: "nat \<Rightarrow> nat \<Rightarrow> links \<Rightarrow> links"
    and push_tail :: "nat \<Rightarrow> nat \<Rightarrow> links \<Rightarrow> links"
    and del :: "nat \<Rightarrow> links \<Rightarrow> links"
    and is_empty :: "nat \<Rightarrow> links \<Rightarrow> bool"
  assumes init_holds: "holds (init h s) h []"
    and init_only: "only {h} s (init h s)"
    and push_holds: "holds s h xs \<Longrightarrow> x \<notin> set (h # xs) \<Longrightarrow> holds (push x h s) h (x # xs)"
    and push_only: "holds s h xs \<Longrightarrow> x \<notin> set (h # xs) \<Longrightarrow> only (set (x # h # xs)) s (push x h s)"
    and push_tail_holds: "holds s h xs \<Longrightarrow> x \<notin> set (h # xs) \<Longrightarrow> holds (push_tail x h s) h (xs @ [x])"
    and push_tail_only: "holds s h xs \<Longrightarrow> x \<notin> set (h # xs) \<Longrightarrow> only (set (x # h # xs)) s (push_tail x h s)"
    and del_holds: "holds s h (xs @ x # ys) \<Longrightarrow> holds (del x s) h (xs @ ys)"
    and del_only: "holds s h (xs @ x # ys) \<Longrightarrow> only (set (h # xs @ x # ys)) s (del x s)"
    and empty_iff: "holds s h xs \<Longrightarrow> is_empty h s \<longleftrightarrow> xs = []"
begin

abbreviation exec :: "ring_op \<Rightarrow> links \<Rightarrow> links" where
  "exec \<equiv> ring_op_with init push push_tail del"

lemma exec_refines:
  assumes "spec_step m a m'" "represents s m"
  shows "represents (exec a s) m'"
  using assms
proof (cases rule: spec_step.cases)
  case (Init h)
  then show ?thesis
    using represents_update[OF assms(2) init_only init_holds, of h] by (auto simp: owned_def)
next
  case (Push h xs x)
  note h = represents_holds[OF assms(2) Push(3)] and x = not_owned[OF Push(4) Push(3)]
  show ?thesis unfolding Push ring_op_with.simps
    by (rule represents_update[OF assms(2) push_only[OF h x] push_holds[OF h x]])
      (use other_disjoint[OF assms(2) Push(3)] not_owned[OF Push(4)] in auto)
next
  case (Push_Tail h xs x)
  note h = represents_holds[OF assms(2) Push_Tail(3)] and x = not_owned[OF Push_Tail(4) Push_Tail(3)]
  show ?thesis unfolding Push_Tail ring_op_with.simps
    by (rule represents_update[OF assms(2) push_tail_only[OF h x] push_tail_holds[OF h x]])
      (use other_disjoint[OF assms(2) Push_Tail(3)] not_owned[OF Push_Tail(4)] in auto)
next
  case (Delete h xs x ys)
  note h = represents_holds[OF assms(2) Delete(3)]
  show ?thesis unfolding Delete ring_op_with.simps
    by (rule represents_update[OF assms(2) del_only[OF h] del_holds[OF h]])
      (use other_disjoint[OF assms(2) Delete(3)] in auto)
qed

lemma run_refines: "spec_run m as m' \<Longrightarrow> represents s m \<Longrightarrow> represents (fold exec as s) m'"
  by (induction arbitrary: s rule: spec_run.induct) (auto intro: exec_refines)

lemma run_empty:
  "spec_run m as m' \<Longrightarrow> represents s m \<Longrightarrow> m' h = Some xs \<Longrightarrow> is_empty h (fold exec as s) \<longleftrightarrow> xs = []"
  using run_refines represents_holds empty_iff by metis

end

end
