(* ===== verification/KList.thy ===== *)
theory KList
  imports Ring_Lists
begin

text \<open>
  The kernel-style lists of \<open>src/src/list.h\<close>: the circular doubly linked lists, every
  operation as its assignments in the order of the source, their traversals, and the
  hash chains with a single pointer head. The circular lists implement the interface
  \<open>ring_ops\<close>; the hash chains refine lists of nodes directly.
\<close>

section \<open>Circular lists\<close>

definition list_poison1 :: nat where
  "list_poison1 = 0x00100100"

definition list_poison2 :: nat where
  "list_poison2 = 0x00200200"

definition init_list_head :: "nat \<Rightarrow> links \<Rightarrow> links" where
  "init_list_head p s = set_prv p p (set_nxt p p s)"

definition list_add_between :: "nat \<Rightarrow> nat \<Rightarrow> nat \<Rightarrow> links \<Rightarrow> links" where
  "list_add_between new prev next s =
    (let s = set_prv next new s;
         s = set_nxt new next s;
         s = set_prv new prev s
     in set_nxt prev new s)"

definition list_add :: "nat \<Rightarrow> nat \<Rightarrow> links \<Rightarrow> links" where
  "list_add new head s = list_add_between new head (nxt s head) s"

definition list_add_tail :: "nat \<Rightarrow> nat \<Rightarrow> links \<Rightarrow> links" where
  "list_add_tail new head s = list_add_between new (prv s head) head s"

definition list_del_between :: "nat \<Rightarrow> nat \<Rightarrow> links \<Rightarrow> links" where
  "list_del_between prev next s = set_nxt prev next (set_prv next prev s)"

definition list_del :: "nat \<Rightarrow> links \<Rightarrow> links" where
  "list_del entry s =
    (let s = list_del_between (prv s entry) (nxt s entry) s;
         s = set_nxt entry list_poison1 s
     in set_prv entry list_poison2 s)"

definition list_del_init :: "nat \<Rightarrow> links \<Rightarrow> links" where
  "list_del_init entry s =
    init_list_head entry (list_del_between (prv s entry) (nxt s entry) s)"

definition list_move :: "nat \<Rightarrow> nat \<Rightarrow> links \<Rightarrow> links" where
  "list_move entry head s = list_add entry head (list_del_between (prv s entry) (nxt s entry) s)"

definition list_move_tail :: "nat \<Rightarrow> nat \<Rightarrow> links \<Rightarrow> links" where
  "list_move_tail entry head s =
    list_add_tail entry head (list_del_between (prv s entry) (nxt s entry) s)"

definition list_empty :: "nat \<Rightarrow> links \<Rightarrow> bool" where
  "list_empty head s = (nxt s head = head)"

definition list_splice_body :: "nat \<Rightarrow> nat \<Rightarrow> links \<Rightarrow> links" where
  "list_splice_body lst head s =
    (let first = nxt s lst; final = prv s lst; place = nxt s head;
         s = set_prv first head s;
         s = set_nxt head first s;
         s = set_nxt final place s
     in set_prv place final s)"

definition list_splice :: "nat \<Rightarrow> nat \<Rightarrow> links \<Rightarrow> links" where
  "list_splice lst head s = (if \<not> list_empty lst s then list_splice_body lst head s else s)"

definition list_splice_init :: "nat \<Rightarrow> nat \<Rightarrow> links \<Rightarrow> links" where
  "list_splice_init lst head s =
    (if \<not> list_empty lst s then init_list_head lst (list_splice_body lst head s) else s)"

text \<open>
  The traversal macros, with the loop body as an argument. Nothing but the shape of the
  list ends these loops, so not ending is the value \<open>None\<close>.
\<close>

partial_function (option) list_for_each_from ::
  "nat \<Rightarrow> (nat \<Rightarrow> 'a \<Rightarrow> 'a) \<Rightarrow> nat \<Rightarrow> links \<Rightarrow> 'a \<Rightarrow> 'a option" where
  "list_for_each_from head body pos s acc =
    (if pos = head then Some acc
     else list_for_each_from head body (nxt s pos) s (body pos acc))"

definition list_for_each :: "nat \<Rightarrow> (nat \<Rightarrow> 'a \<Rightarrow> 'a) \<Rightarrow> links \<Rightarrow> 'a \<Rightarrow> 'a option" where
  "list_for_each head body s acc = list_for_each_from head body (nxt s head) s acc"

partial_function (option) list_for_each_prev_from ::
  "nat \<Rightarrow> (nat \<Rightarrow> 'a \<Rightarrow> 'a) \<Rightarrow> nat \<Rightarrow> links \<Rightarrow> 'a \<Rightarrow> 'a option" where
  "list_for_each_prev_from head body pos s acc =
    (if pos = head then Some acc
     else list_for_each_prev_from head body (prv s pos) s (body pos acc))"

definition list_for_each_prev :: "nat \<Rightarrow> (nat \<Rightarrow> 'a \<Rightarrow> 'a) \<Rightarrow> links \<Rightarrow> 'a \<Rightarrow> 'a option" where
  "list_for_each_prev head body s acc = list_for_each_prev_from head body (prv s head) s acc"

partial_function (option) list_for_each_safe_from ::
  "nat \<Rightarrow> (nat \<Rightarrow> links \<Rightarrow> links) \<Rightarrow> nat \<Rightarrow> nat \<Rightarrow> links \<Rightarrow> links option" where
  "list_for_each_safe_from head body pos n s =
    (if pos = head then Some s
     else (let s' = body pos s in list_for_each_safe_from head body n (nxt s' n) s'))"

definition list_for_each_safe :: "nat \<Rightarrow> (nat \<Rightarrow> links \<Rightarrow> links) \<Rightarrow> links \<Rightarrow> links option" where
  "list_for_each_safe head body s =
    list_for_each_safe_from head body (nxt s head) (nxt s (nxt s head)) s"

section \<open>Hash chains\<close>

text \<open>
  A back pointer of a hash chain is the address of a pointer: of the head's \<open>first\<close> or
  of a node's \<open>next\<close>. Address 0 is the null pointer.
\<close>

datatype slot = First nat | Next nat | Poison

record hlinks =
  hfirst :: "nat \<Rightarrow> nat"
  hnext :: "nat \<Rightarrow> nat"
  hpprev :: "nat \<Rightarrow> slot option"

fun store_slot :: "slot \<Rightarrow> nat \<Rightarrow> hlinks \<Rightarrow> fault + hlinks" where
  "store_slot (First h) v s = Inr (s\<lparr>hfirst := (hfirst s)(h := v)\<rparr>)"
| "store_slot (Next n) v s = Inr (s\<lparr>hnext := (hnext s)(n := v)\<rparr>)"
| "store_slot Poison v s = Inl BadPointer"

definition set_hnext :: "nat \<Rightarrow> nat \<Rightarrow> hlinks \<Rightarrow> hlinks" where
  "set_hnext n v s = s\<lparr>hnext := (hnext s)(n := v)\<rparr>"

definition set_pprev :: "nat \<Rightarrow> slot option \<Rightarrow> hlinks \<Rightarrow> hlinks" where
  "set_pprev n v s = s\<lparr>hpprev := (hpprev s)(n := v)\<rparr>"

definition init_hlist_head :: "nat \<Rightarrow> hlinks \<Rightarrow> hlinks" where
  "init_hlist_head h s = s\<lparr>hfirst := (hfirst s)(h := 0)\<rparr>"

definition init_hlist_node :: "nat \<Rightarrow> hlinks \<Rightarrow> hlinks" where
  "init_hlist_node n s = set_pprev n None (set_hnext n 0 s)"

definition hlist_unhashed :: "nat \<Rightarrow> hlinks \<Rightarrow> bool" where
  "hlist_unhashed n s = (hpprev s n = None)"

definition hlist_empty :: "nat \<Rightarrow> hlinks \<Rightarrow> bool" where
  "hlist_empty h s = (hfirst s h = 0)"

definition hlist_del_body :: "nat \<Rightarrow> hlinks \<Rightarrow> fault + hlinks" where
  "hlist_del_body n s =
    (let next = hnext s n; pprev = hpprev s n in
     bindE (case pprev of None \<Rightarrow> Inl NullDeref | Some p \<Rightarrow> store_slot p next s) (\<lambda>s.
     Inr (if next \<noteq> 0 then set_pprev next pprev s else s)))"

definition hlist_del :: "nat \<Rightarrow> hlinks \<Rightarrow> fault + hlinks" where
  "hlist_del n s =
    bindE (hlist_del_body n s) (\<lambda>s. Inr (set_pprev n (Some Poison) (set_hnext n list_poison1 s)))"

definition hlist_del_init :: "nat \<Rightarrow> hlinks \<Rightarrow> fault + hlinks" where
  "hlist_del_init n s =
    (if hpprev s n \<noteq> None then bindE (hlist_del_body n s) (\<lambda>s. Inr (init_hlist_node n s)) else Inr s)"

definition hlist_add_head :: "nat \<Rightarrow> nat \<Rightarrow> hlinks \<Rightarrow> hlinks" where
  "hlist_add_head n h s =
    (let first = hfirst s h;
         s = set_hnext n first s;
         s = (if first \<noteq> 0 then set_pprev first (Some (Next n)) s else s);
         s = s\<lparr>hfirst := (hfirst s)(h := n)\<rparr>
     in set_pprev n (Some (First h)) s)"

definition hlist_add_before :: "nat \<Rightarrow> nat \<Rightarrow> hlinks \<Rightarrow> fault + hlinks" where
  "hlist_add_before n next s =
    (let s = set_pprev n (hpprev s next) s;
         s = set_hnext n next s;
         s = set_pprev next (Some (Next n)) s
     in case hpprev s n of None \<Rightarrow> Inl NullDeref | Some p \<Rightarrow> store_slot p n s)"

definition hlist_add_after :: "nat \<Rightarrow> nat \<Rightarrow> hlinks \<Rightarrow> hlinks" where
  "hlist_add_after n next s =
    (let s = set_hnext next (hnext s n) s;
         s = set_hnext n next s;
         s = set_pprev next (Some (Next n)) s
     in if hnext s next \<noteq> 0 then set_pprev (hnext s next) (Some (Next next)) s else s)"

section \<open>The circular lists implement the interface\<close>

lemma add_between_holds:
  assumes "holds s h (xs @ ys)" "x \<notin> set (h # xs @ ys)"
  shows "holds (list_add_between x (before h xs) (after h ys) s) h (xs @ x # ys)"
  by (rule ring_insert[OF assms])
    (use assms(2) before_in[of h xs] after_in[of h ys] in \<open>auto simp: list_add_between_def fun_eq_iff\<close>)

lemma list_add_holds: "holds s h xs \<Longrightarrow> x \<notin> set (h # xs) \<Longrightarrow> holds (list_add x h s) h (x # xs)"
  using add_between_holds[of s h "[]" xs x] by (simp add: list_add_def holds_head before_def)

lemma list_add_tail_holds: "holds s h xs \<Longrightarrow> x \<notin> set (h # xs) \<Longrightarrow> holds (list_add_tail x h s) h (xs @ [x])"
  using add_between_holds[of s h xs "[]" x] by (simp add: list_add_tail_def holds_head after_def)

lemma unlink_holds:
  assumes "holds s h (xs @ x # ys)"
    and "\<And>a. a \<noteq> x \<Longrightarrow> nxt s' a = nxt (list_del_between (prv s x) (nxt s x) s) a"
    and "\<And>a. a \<noteq> x \<Longrightarrow> prv s' a = prv (list_del_between (prv s x) (nxt s x) s) a"
  shows "holds s' h (xs @ ys)"
  by (rule ring_remove[OF assms(1)]) (simp_all add: assms(2,3) list_del_between_def holds_at[OF assms(1)])

lemma list_del_holds: "holds s h (xs @ x # ys) \<Longrightarrow> holds (list_del x s) h (xs @ ys)"
  by (erule unlink_holds) (simp_all add: list_del_def)

lemma list_del_init_holds:
  "holds s h (xs @ x # ys) \<Longrightarrow> holds (list_del_init x s) h (xs @ ys) \<and> holds (list_del_init x s) x []"
  by (rule conjI, erule unlink_holds) (simp_all add: list_del_init_def init_list_head_def holds_Nil)

interpretation klist: ring_ops init_list_head list_add list_add_tail list_del list_empty
proof
  fix s :: links and h x :: nat and xs ys :: "nat list"
  show "holds (init_list_head h s) h []" by (simp add: init_list_head_def holds_Nil)
  show "only {h} s (init_list_head h s)" by (simp add: init_list_head_def)
  { assume h: "holds s h xs" and x: "x \<notin> set (h # xs)"
    show "holds (list_add x h s) h (x # xs)" "holds (list_add_tail x h s) h (xs @ [x])"
      using h x by (rule list_add_holds list_add_tail_holds)+
    have "nxt s h \<in> set (x # h # xs)" "prv s h \<in> set (x # h # xs)"
      using before_in[of h xs] after_in[of h xs] by (auto simp: holds_head[OF h])
    then show "only (set (x # h # xs)) s (list_add x h s)" "only (set (x # h # xs)) s (list_add_tail x h s)"
      by (simp_all add: list_add_def list_add_tail_def list_add_between_def) }
  { assume h: "holds s h (xs @ x # ys)"
    show "holds (list_del x s) h (xs @ ys)" using h by (rule list_del_holds)
    show "only (set (h # xs @ x # ys)) s (list_del x s)"
      using neighbours_in[OF h] by (simp add: list_del_def list_del_between_def) }
  assume h: "holds s h xs"
  show "list_empty h s \<longleftrightarrow> xs = []"
    using h by (cases xs) (auto simp: list_empty_def holds_def)
qed


section \<open>Moving and joining\<close>

lemma unlink_only:
  "holds s h (xs @ x # ys) \<Longrightarrow> only (set (h # xs @ x # ys)) s (list_del_between (prv s x) (nxt s x) s)"
  using neighbours_in by (simp add: list_del_between_def)

lemma unlink_represents:
  assumes "represents s m" "m g = Some (xs @ x # ys)"
  shows "represents (list_del_between (prv s x) (nxt s x) s) (m(g \<mapsto> xs @ ys))"
proof -
  have h: "holds s g (xs @ x # ys)" using assms by (rule represents_holds)
  show ?thesis
    by (rule represents_update[OF assms(1) unlink_only[OF h] unlink_holds[OF h]])
      (use other_disjoint[OF assms] in auto)
qed

lemma unlinked_free:
  assumes "represents s m" "m g = Some (xs @ x # ys)"
  shows "x \<notin> owned (m(g \<mapsto> xs @ ys))"
proof -
  have "distinct (g # xs @ x # ys)" using represents_holds[OF assms] by (simp add: holds_def)
  then show ?thesis using other_disjoint[OF assms] by (auto simp: owned_def)
qed

lemma list_move_represents:
  assumes "represents s m" "m g = Some (xs @ x # ys)" "(m(g \<mapsto> xs @ ys)) h = Some zs"
  shows "represents (list_move x h s) (m(g \<mapsto> xs @ ys, h \<mapsto> x # zs))"
    and "represents (list_move_tail x h s) (m(g \<mapsto> xs @ ys, h \<mapsto> zs @ [x]))"
  using klist.exec_refines[OF spec_step.Push[OF assms(3) unlinked_free[OF assms(1,2)]] unlink_represents[OF assms(1,2)]]
    klist.exec_refines[OF spec_step.Push_Tail[OF assms(3) unlinked_free[OF assms(1,2)]] unlink_represents[OF assms(1,2)]]
  by (simp_all add: list_move_def list_move_tail_def)

lemma chain_heads:
  assumes "chain s (l # ys)" "ys \<noteq> []" "nxt s' h = hd ys" "prv s' (hd ys) = h"
    and "\<And>a. a \<in> set (butlast ys) \<Longrightarrow> nxt s' a = nxt s a" "\<And>a. a \<in> set (tl ys) \<Longrightarrow> prv s' a = prv s a"
  shows "chain s' (h # ys)"
proof (cases ys)
  case (Cons b r)
  then have "chain s ys" using assms(1) by simp
  then have "chain s' ys" using chain_cong[of ys s' s] assms(5,6) by simp
  then show ?thesis using Cons assms(3,4) by simp
qed (use assms(2) in simp)

lemma splice_body_holds:
  assumes l: "holds s l ys" and h: "holds s h xs" and ys: "ys \<noteq> []"
    and dis: "set (l # ys) \<inter> set (h # xs) = {}"
  shows "holds (list_splice_body l h s) h (ys @ xs)"
proof -
  let ?t = "list_splice_body l h s"
  have f: "nxt s l = hd ys" "prv s l = last ys" "nxt s h = after h xs"
    using ys holds_head[OF l] holds_head[OF h] by (simp_all add: after_def before_def)
  have in_ys: "hd ys \<in> set ys" "last ys \<in> set ys" and in_xs: "after h xs \<in> set (h # xs)"
    using ys after_in[of h xs] by auto
  have d: "distinct ys" "distinct (h # xs)" using l h by (auto simp: holds_def)
  have n: "nxt ?t = (nxt s)(h := hd ys, last ys := after h xs)"
    and p: "prv ?t = (prv s)(hd ys := h, after h xs := last ys)"
    by (simp_all add: list_splice_body_def f Let_def)
  have sep: "a \<noteq> h" "a \<noteq> after h xs" if "a \<in> set ys" for a using that dis in_xs by auto
  have sep': "a \<noteq> hd ys" "a \<noteq> last ys" if "a \<in> set (h # xs)" for a using that dis in_ys by auto
  have "chain s (l # ys)" using holds_split[of s l ys "[]"] l by simp
  moreover have "nxt ?t a = nxt s a" if "a \<in> set (butlast ys)" for a
  proof -
    have "distinct (butlast ys @ [last ys])" using d(1) ys by simp
    then have "a \<noteq> last ys" using that by auto
    moreover have "a \<noteq> h" using sep(1) in_set_butlastD[OF that] .
    ultimately show ?thesis by (simp add: n)
  qed
  moreover have "prv ?t a = prv s a" if "a \<in> set (tl ys)" for a
  proof -
    have "a \<noteq> hd ys" "a \<in> set ys" using that d(1) ys by (cases ys; auto)+
    then show ?thesis using sep(2) by (simp add: p)
  qed
  moreover have "nxt ?t h = hd ys" "prv ?t (hd ys) = h"
    using sep[OF in_ys(1)] sep(1)[OF in_ys(2)] by (simp_all add: n p)
  ultimately have c: "chain ?t (h # ys)" by (blast intro: chain_heads[OF _ ys])
  have "chain ?t (xs @ [h])"
  proof -
    have "nxt ?t a = nxt s a" if "a \<in> set xs" for a
      using that d(2) sep'(2)[of a] by (auto simp: n)
    moreover have "prv ?t a = prv s a" if a: "a \<in> set (tl (xs @ [h]))" for a
    proof -
      have "distinct (xs @ [h])" using d(2) by auto
      then have "distinct (after h xs # tl (xs @ [h]))" using after_split[of xs h] by argo
      then have "a \<noteq> after h xs" using a by auto
      moreover have "a \<in> set (h # xs)" using a by (cases xs) auto
      ultimately show ?thesis using sep'(1)[of a] by (simp add: p)
    qed
    ultimately have "chain ?t (xs @ [h]) \<longleftrightarrow> chain s (xs @ [h])" using chain_cong[of "xs @ [h]" ?t s] by simp
    then show ?thesis using holds_split[of s h "[]" xs] h by simp
  qed
  moreover have "nxt ?t (before h ys) = after h xs" "prv ?t (after h xs) = before h ys"
    using ys by (simp_all add: n p before_def)
  moreover have "distinct (h # ys @ xs)" using d dis by auto
  ultimately show ?thesis using c unfolding holds_split by blast
qed

lemma splice_body_only:
  assumes "holds s l ys" "holds s h xs"
  shows "only (set (l # ys) \<union> set (h # xs)) s (list_splice_body l h s)"
proof -
  let ?A = "set (l # ys) \<union> set (h # xs)"
  have "nxt s l \<in> ?A" "prv s l \<in> ?A" "nxt s h \<in> ?A" "h \<in> ?A"
    using assms before_in[of l ys] after_in[of l ys] after_in[of h xs] by (auto simp: holds_head)
  then show ?thesis
    unfolding list_splice_body_def Let_def by (simp only: only_set only_set_prv only_refl)
qed

lemma list_splice_init_represents:
  assumes "represents s m" "m l = Some ys" "m h = Some xs" "l \<noteq> h"
  shows "represents (list_splice_init l h s) (m(l \<mapsto> [], h \<mapsto> ys @ xs))"
proof (cases "ys = []")
  case True
  then have "m(l \<mapsto> [], h \<mapsto> ys @ xs) = m" using assms by auto
  then show ?thesis
    using True assms(1) klist.empty_iff[OF represents_holds[OF assms(1,2)]] by (simp add: list_splice_init_def)
next
  case False
  note hl = represents_holds[OF assms(1,2)] and hh = represents_holds[OF assms(1,3)]
  have dis: "set (l # ys) \<inter> set (h # xs) = {}" using assms by (intro other_disjoint)
  let ?t = "list_splice_body l h s" and ?A = "set (l # ys) \<union> set (h # xs)"
  have e: "list_splice_init l h s = init_list_head l ?t"
    using False klist.empty_iff[OF hl] by (simp add: list_splice_init_def)
  let ?m = "m(l := None, h \<mapsto> ys @ xs)"
  have o: "set (g # zs) \<inter> set (l # ys) = {}" "set (g # zs) \<inter> set (h # xs) = {}"
    if "(m(l := None)) g = Some zs" "g \<noteq> h" for g zs
    using that other_disjoint[OF assms(1,2)] other_disjoint[OF assms(1,3)] by (metis fun_upd_apply option.distinct(1))+
  have "represents ?t ?m"
  proof (rule represents_update[OF represents_drop[OF assms(1)] splice_body_only[OF hl hh] splice_body_holds[OF hl hh False dis]])
    fix g zs assume "(m(l := None)) g = Some zs" "g \<noteq> h"
    from o[OF this] show "set (g # zs) \<inter> ((set (l # ys) \<union> set (h # xs)) \<union> set (h # ys @ xs)) = {}" by auto
  qed
  moreover have "l \<notin> owned ?m"
  proof
    assume "l \<in> owned ?m"
    then obtain g zs where g: "?m g = Some zs" "l \<in> set (g # zs)" unfolding owned_def by blast
    then show False using o(1)[of g zs] dis hl by (cases "g = h") (auto simp: holds_def)
  qed
  ultimately have "represents (init_list_head l ?t) (?m(l \<mapsto> []))"
    using klist.exec_refines[OF spec_step.Init] ring_op_with.simps(1) by metis
  then show ?thesis using assms(4) by (simp add: e fun_upd_twist)
qed


section \<open>Traversals\<close>

declare list_for_each_from.simps [code]
declare list_for_each_prev_from.simps [code]
declare list_for_each_safe_from.simps [code]

lemma for_each_from_chain:
  "chain s (xs @ [h]) \<Longrightarrow> h \<notin> set xs \<Longrightarrow> list_for_each_from h body (after h xs) s acc = Some (fold body xs acc)"
proof (induction xs arbitrary: acc)
  case Nil
  then show ?case by (simp add: after_def list_for_each_from.simps)
next
  case (Cons x xs)
  have "nxt s x = after h xs" "chain s (xs @ [h])" using Cons.prems(1) after_split[of xs h] by (cases xs; simp)+
  then show ?case using Cons by (subst list_for_each_from.simps) (simp add: after_def)
qed

lemma list_for_each_holds: "holds s h xs \<Longrightarrow> list_for_each h body s acc = Some (fold body xs acc)"
  using holds_split[of s h "[]" xs] for_each_from_chain[of s xs h]
  by (simp add: list_for_each_def holds_head)

lemma for_each_prev_from_chain:
  "chain s (h # xs) \<Longrightarrow> h \<notin> set xs \<Longrightarrow> list_for_each_prev_from h body (before h xs) s acc = Some (foldr body xs acc)"
proof (induction xs arbitrary: acc rule: rev_induct)
  case Nil
  then show ?case by (simp add: before_def list_for_each_prev_from.simps)
next
  case (snoc x xs)
  have "chain s (h # xs)" "prv s x = before h xs" using snoc.prems(1) by (simp_all add: chain_at)
  then show ?case using snoc by (subst list_for_each_prev_from.simps) (simp add: before_def)
qed

lemma list_for_each_prev_holds: "holds s h xs \<Longrightarrow> list_for_each_prev h body s acc = Some (foldr body xs acc)"
  using holds_split[of s h xs "[]"] for_each_prev_from_chain[of s h xs]
  by (simp add: list_for_each_prev_def holds_head)

lemma for_each_safe_from_holds:
  assumes "holds s h (zs @ xs)"
  shows "\<exists>s'. list_for_each_safe_from h (\<lambda>p s. if P p then list_del p s else s) (after h xs) (nxt s (after h xs)) s = Some s'
    \<and> holds s' h (zs @ filter (\<lambda>x. \<not> P x) xs)"
  using assms
proof (induction xs arbitrary: zs s)
  case Nil
  then show ?case by (simp add: after_def list_for_each_safe_from.simps)
next
  case (Cons x xs)
  let ?body = "\<lambda>p s. if P p then list_del p s else s"
  have n: "nxt s x = after h xs" "x \<noteq> h" using holds_at[OF Cons.prems] Cons.prems by (auto simp: holds_def)
  have step: "list_for_each_safe_from h ?body (after h (x # xs)) (nxt s (after h (x # xs))) s =
      list_for_each_safe_from h ?body (after h xs) (nxt (?body x s) (after h xs)) (?body x s)"
    using n by (subst list_for_each_safe_from.simps) (simp add: after_def Let_def)
  show ?case
  proof (cases "P x")
    case True
    then show ?thesis unfolding step using Cons.IH[OF list_del_holds[OF Cons.prems]] by simp
  next
    case False
    then show ?thesis unfolding step using Cons.IH[of s "zs @ [x]"] Cons.prems by simp
  qed
qed

lemma list_for_each_safe_holds:
  "holds s h xs \<Longrightarrow> \<exists>s'. list_for_each_safe h (\<lambda>p s. if P p then list_del p s else s) s = Some s' \<and>
     holds s' h (filter (\<lambda>x. \<not> P x) xs)"
  using for_each_safe_from_holds[of s h "[]" xs P] by (simp add: list_for_each_safe_def holds_head)

section \<open>The hash chains refine lists\<close>

fun read_slot :: "hlinks \<Rightarrow> slot \<Rightarrow> nat" where
  "read_slot s (First h) = hfirst s h"
| "read_slot s (Next n) = hnext s n"
| "read_slot s Poison = 0"

fun hseg :: "hlinks \<Rightarrow> slot \<Rightarrow> nat list \<Rightarrow> bool" where
  "hseg s p [] = True"
| "hseg s p (x # xs) = (read_slot s p = x \<and> hpprev s x = Some p \<and> hseg s (Next x) xs)"

fun endslot :: "slot \<Rightarrow> nat list \<Rightarrow> slot" where
  "endslot p [] = p"
| "endslot p (x # xs) = endslot (Next x) xs"

definition hholds :: "hlinks \<Rightarrow> nat \<Rightarrow> nat list \<Rightarrow> bool" where
  "hholds s h xs \<longleftrightarrow> distinct xs \<and> 0 \<notin> set xs \<and> hseg s (First h) xs \<and> read_slot s (endslot (First h) xs) = 0"

lemma hseg_append: "hseg s p (xs @ ys) \<longleftrightarrow> hseg s p xs \<and> hseg s (endslot p xs) ys"
  by (induction xs arbitrary: p) auto

lemma endslot_append [simp]: "endslot p (xs @ ys) = endslot (endslot p xs) ys"
  by (induction xs arbitrary: p) auto

lemma endslot_in: "endslot p xs \<in> insert p (Next ` set xs)"
  by (induction xs arbitrary: p) auto

lemma hseg_cong:
  assumes "\<And>q. q \<in> insert p (Next ` set xs) \<Longrightarrow> q \<noteq> endslot p xs \<Longrightarrow> read_slot s' q = read_slot s q"
    and "\<And>a. a \<in> set xs \<Longrightarrow> hpprev s' a = hpprev s a" "distinct xs" "p \<notin> Next ` set xs"
  shows "hseg s' p xs \<longleftrightarrow> hseg s p xs"
  using assms
proof (induction xs arbitrary: p)
  case (Cons x xs)
  have e: "endslot (Next x) xs \<noteq> p" using endslot_in[of "Next x" xs] Cons.prems(4) by auto
  have "hseg s' (Next x) xs \<longleftrightarrow> hseg s (Next x) xs"
    using Cons.prems by (intro Cons.IH) auto
  moreover have "read_slot s' p = read_slot s p" using e by (intro Cons.prems(1)) auto
  ultimately show ?case using Cons.prems(2) by simp
qed simp

lemma hholds_split:
  "hholds s h (xs @ ys) \<longleftrightarrow> distinct (xs @ ys) \<and> 0 \<notin> set (xs @ ys) \<and> hseg s (First h) xs \<and>
     hseg s (endslot (First h) xs) ys \<and> read_slot s (endslot (endslot (First h) xs) ys) = 0"
  by (auto simp: hholds_def hseg_append)

lemma endslot_First: "endslot (First h) xs \<noteq> Next x" if "x \<notin> set xs"
  using that endslot_in[of "First h" xs] by auto

lemma endslot_not_later:
  assumes "distinct (xs @ ys)" "q \<in> Next ` set ys"
  shows "q \<noteq> endslot (First h) xs"
  using assms endslot_in[of "First h" xs] by auto


text \<open>Linking a node in and out, by what is read afterwards.\<close>

lemma hlist_insert:
  assumes "hholds s h (xs @ ys)" "x \<notin> set (xs @ ys)" "x \<noteq> 0"
    and r: "\<And>q. read_slot s' q = (if q = endslot (First h) xs then x
        else if q = Next x then read_slot s (endslot (First h) xs) else read_slot s q)"
    and pp: "\<And>a. hpprev s' a = (if a = x then Some (endslot (First h) xs)
        else if ys \<noteq> [] \<and> a = hd ys then Some (Next x) else hpprev s a)"
  shows "hholds s' h (xs @ x # ys)"
proof -
  let ?P = "endslot (First h) xs"
  have d: "distinct (xs @ ys)" "0 \<notin> set (xs @ ys)" and c: "hseg s (First h) xs" "hseg s ?P ys"
    and e: "read_slot s (endslot ?P ys) = 0"
    using assms(1) by (auto simp: hholds_split)
  have Px: "?P \<noteq> Next x" using assms(2) by (intro endslot_First) simp
  have "hseg s' (First h) xs"
  proof -
    have "read_slot s' q = read_slot s q" if "q \<in> insert (First h) (Next ` set xs)" "q \<noteq> ?P" for q
      using that assms(2) by (subst r) auto
    moreover have "hpprev s' a = hpprev s a" if "a \<in> set xs" for a
      using that d assms(2) by (subst pp) (auto simp: neq_Nil_conv)
    ultimately show ?thesis using c(1) d hseg_cong[of "First h" xs s' s] by auto
  qed
  moreover have "hseg s' (Next x) ys \<and> read_slot s' (endslot (Next x) ys) = 0"
  proof (cases ys)
    case Nil
    then show ?thesis using e Px r[of "Next x"] by simp
  next
    case (Cons y zs)
    have later: "q \<noteq> ?P" "q \<noteq> Next x" if "q \<in> Next ` set ys" for q
      using endslot_not_later[OF d(1) that] that assms(2) by auto
    have "hseg s' (Next y) zs"
    proof -
      have "read_slot s' q = read_slot s q" if "q \<in> insert (Next y) (Next ` set zs)" for q
        using that later[of q] by (subst r) (auto simp: Cons)
      moreover have "hpprev s' a = hpprev s a" if "a \<in> set zs" for a
        using that d assms(2) by (subst pp) (auto simp: Cons)
      ultimately show ?thesis using c(2) d hseg_cong[of "Next y" zs s' s] by (auto simp: Cons)
    qed
    moreover have l: "endslot (Next y) zs \<in> Next ` set ys"
      using endslot_in[of "Next y" zs] by (auto simp: Cons)
    moreover have "y \<noteq> x" using assms(2) by (simp add: Cons)
    ultimately show ?thesis
      using c(2) e later[OF l] Px r[of "Next x"] by (auto simp: Cons r pp)
  qed
  ultimately show ?thesis using d assms(2,3) by (auto simp: hholds_split r pp)
qed

lemma hlist_remove:
  assumes "hholds s h (xs @ x # ys)"
    and r: "\<And>q. q \<noteq> Next x \<Longrightarrow> read_slot s' q = (if q = endslot (First h) xs then read_slot s (Next x) else read_slot s q)"
    and pp: "\<And>a. a \<noteq> x \<Longrightarrow> hpprev s' a = (if ys \<noteq> [] \<and> a = hd ys then Some (endslot (First h) xs) else hpprev s a)"
  shows "hholds s' h (xs @ ys)"
proof -
  let ?P = "endslot (First h) xs"
  have d: "distinct (xs @ x # ys)" "0 \<notin> set (xs @ x # ys)" and c: "hseg s (First h) xs" "hseg s (Next x) ys"
    and e: "read_slot s (endslot (Next x) ys) = 0"
    using assms(1) by (auto simp: hholds_split)
  have Px: "?P \<noteq> Next x" using d by (intro endslot_First) simp
  have "hseg s' (First h) xs"
  proof -
    have "read_slot s' q = read_slot s q" if "q \<in> insert (First h) (Next ` set xs)" "q \<noteq> ?P" for q
      using that d by (subst r) auto
    moreover have "hpprev s' a = hpprev s a" if "a \<in> set xs" for a
      using that d by (subst pp) (auto simp: neq_Nil_conv)
    ultimately show ?thesis using c(1) d hseg_cong[of "First h" xs s' s] by auto
  qed
  moreover have "hseg s' ?P ys \<and> read_slot s' (endslot ?P ys) = 0"
  proof (cases ys)
    case Nil
    then show ?thesis using e Px by (simp add: r)
  next
    case (Cons y zs)
    have later: "q \<noteq> ?P" "q \<noteq> Next x" if "q \<in> Next ` set ys" for q
      using endslot_not_later[of xs ys q h] that d by auto
    have "hseg s' (Next y) zs"
    proof -
      have "read_slot s' q = read_slot s q" if "q \<in> insert (Next y) (Next ` set zs)" for q
        using that later[of q] by (subst r) (auto simp: Cons)
      moreover have "hpprev s' a = hpprev s a" if "a \<in> set zs" for a
        using that d by (subst pp) (auto simp: Cons)
      ultimately show ?thesis using c(2) d hseg_cong[of "Next y" zs s' s] by (auto simp: Cons)
    qed
    moreover have l: "endslot (Next y) zs \<in> Next ` set ys"
      using endslot_in[of "Next y" zs] by (auto simp: Cons)
    moreover have "y \<noteq> x" using d by (simp add: Cons)
    ultimately show ?thesis
      using c(2) e later[OF l] Px by (auto simp: Cons r pp)
  qed
  ultimately show ?thesis using d by (auto simp: hholds_split)
qed


lemma store_slot_effect:
  assumes "p \<noteq> Poison"
  obtains s' where "store_slot p v s = Inr s'" "\<And>q. read_slot s' q = (if q = p then v else read_slot s q)"
    "hpprev s' = hpprev s"
proof -
  have "\<exists>s'. store_slot p v s = Inr s' \<and> (\<forall>q. read_slot s' q = (if q = p then v else read_slot s q)) \<and> hpprev s' = hpprev s"
  proof (cases p)
    case (First h)
    have "read_slot (s\<lparr>hfirst := (hfirst s)(h := v)\<rparr>) q = (if q = p then v else read_slot s q)" for q
      by (cases q) (simp_all add: First)
    then show ?thesis by (simp add: First)
  next
    case (Next n)
    have "read_slot (s\<lparr>hnext := (hnext s)(n := v)\<rparr>) q = (if q = p then v else read_slot s q)" for q
      by (cases q) (simp_all add: Next)
    then show ?thesis by (simp add: Next)
  qed (use assms in simp)
  then show thesis using that by blast
qed

lemma hnext_reads [simp]:
  "read_slot (set_hnext n v s) q = (if q = Next n then v else read_slot s q)"
  "read_slot (set_pprev n w s) q = read_slot s q"
  "hnext (set_hnext n v s) = (hnext s)(n := v)" "hnext (set_pprev n w s) = hnext s"
  "hpprev (set_hnext n v s) = hpprev s" "hpprev (set_pprev n w s) = (hpprev s)(n := w)"
  by (cases q; simp add: set_hnext_def set_pprev_def fun_eq_iff)+

lemma hholds_at:
  assumes "hholds s h (xs @ x # ys)"
  shows "hpprev s x = Some (endslot (First h) xs)" "hnext s x = (case ys of [] \<Rightarrow> 0 | y # _ \<Rightarrow> y)"
    "read_slot s (endslot (First h) xs) = x" "endslot (First h) xs \<noteq> Poison"
  using assms endslot_in[of "First h" xs] by (auto simp: hholds_split split: list.splits)

lemma hlist_del_body_holds:
  assumes "hholds s h (xs @ x # ys)"
  shows "\<exists>t. hlist_del_body x s = Inr t \<and>
    (\<forall>s'. (\<forall>q. q \<noteq> Next x \<longrightarrow> read_slot s' q = read_slot t q) \<longrightarrow> (\<forall>a. a \<noteq> x \<longrightarrow> hpprev s' a = hpprev t a) \<longrightarrow>
      hholds s' h (xs @ ys))"
proof -
  note a = hholds_at[OF assms]
  obtain u where u: "store_slot (endslot (First h) xs) (hnext s x) s = Inr u"
    "\<And>q. read_slot u q = (if q = endslot (First h) xs then hnext s x else read_slot s q)" "hpprev u = hpprev s"
    using store_slot_effect[OF a(4)] by metis
  define t where "t = (if hnext s x \<noteq> 0 then set_pprev (hnext s x) (Some (endslot (First h) xs)) u else u)"
  have "hlist_del_body x s = Inr t"
    using a(1) u(1) by (simp add: hlist_del_body_def t_def Let_def)
  moreover have "hholds s' h (xs @ ys)"
    if "\<And>q. q \<noteq> Next x \<Longrightarrow> read_slot s' q = read_slot t q" "\<And>a. a \<noteq> x \<Longrightarrow> hpprev s' a = hpprev t a" for s'
  proof (rule hlist_remove[OF assms])
    fix q assume "q \<noteq> Next x"
    then show "read_slot s' q = (if q = endslot (First h) xs then read_slot s (Next x) else read_slot s q)"
      using that(1) by (simp add: t_def u(2))
  next
    have z: "0 \<notin> set ys" using assms by (simp add: hholds_def)
    fix b assume "b \<noteq> x"
    then show "hpprev s' b = (if ys \<noteq> [] \<and> b = hd ys then Some (endslot (First h) xs) else hpprev s b)"
      using that(2) z by (cases ys) (auto simp: t_def u(3) a(2))
  qed
  ultimately show ?thesis by blast
qed

lemma hlist_del_holds:
  assumes "hholds s h (xs @ x # ys)"
  shows "\<exists>s'. hlist_del x s = Inr s' \<and> hholds s' h (xs @ ys)"
proof -
  obtain t where "hlist_del_body x s = Inr t" "\<And>s'. (\<forall>q. q \<noteq> Next x \<longrightarrow> read_slot s' q = read_slot t q) \<Longrightarrow>
      (\<forall>a. a \<noteq> x \<longrightarrow> hpprev s' a = hpprev t a) \<Longrightarrow> hholds s' h (xs @ ys)"
    using hlist_del_body_holds[OF assms] by blast
  then show ?thesis by (simp add: hlist_del_def)
qed

lemma hlist_del_init_holds:
  assumes "hholds s h (xs @ x # ys)"
  shows "\<exists>s'. hlist_del_init x s = Inr s' \<and> hholds s' h (xs @ ys) \<and> hlist_unhashed x s' \<and> hlist_del_init x s' = Inr s'"
proof -
  obtain t where "hlist_del_body x s = Inr t" "\<And>s'. (\<forall>q. q \<noteq> Next x \<longrightarrow> read_slot s' q = read_slot t q) \<Longrightarrow>
      (\<forall>a. a \<noteq> x \<longrightarrow> hpprev s' a = hpprev t a) \<Longrightarrow> hholds s' h (xs @ ys)"
    using hlist_del_body_holds[OF assms] by blast
  then show ?thesis
    by (simp add: hlist_del_init_def init_hlist_node_def hlist_unhashed_def hholds_at[OF assms])
qed

lemma hfirst_reads [simp]:
  "read_slot (s\<lparr>hfirst := (hfirst s)(h := v)\<rparr>) q = (if q = First h then v else read_slot s q)"
  by (cases q) simp_all

lemma hlist_add_head_holds:
  assumes "hholds s h xs" "x \<notin> set xs" "x \<noteq> 0"
  shows "hholds (hlist_add_head x h s) h (x # xs)"
proof -
  have "hfirst s h = (case xs of [] \<Rightarrow> 0 | y # _ \<Rightarrow> y)" "0 \<notin> set xs"
    using assms(1) by (auto simp: hholds_def split: list.splits)
  then have "hholds (hlist_add_head x h s) h ([] @ x # xs)"
    using assms by (intro hlist_insert[of s h "[]" xs])
      (auto simp: hlist_add_head_def Let_def neq_Nil_conv split: list.splits)
  then show ?thesis by simp
qed

lemma hlist_add_before_holds:
  assumes "hholds s h (xs @ y # ys)" "x \<notin> set (xs @ y # ys)" "x \<noteq> 0"
  shows "\<exists>s'. hlist_add_before x y s = Inr s' \<and> hholds s' h (xs @ x # y # ys)"
proof -
  note a = hholds_at[OF assms(1)]
  let ?t = "set_pprev y (Some (Next x)) (set_hnext x y (set_pprev x (hpprev s y) s))"
  obtain u where u: "store_slot (endslot (First h) xs) x ?t = Inr u"
    "\<And>q. read_slot u q = (if q = endslot (First h) xs then x else read_slot ?t q)" "hpprev u = hpprev ?t"
    using store_slot_effect[OF a(4)] by metis
  have "y \<noteq> x" using assms(2) by auto
  then have "hlist_add_before x y s = Inr u"
    using u(1) by (simp add: hlist_add_before_def Let_def a(1))
  moreover have "hholds u h (xs @ x # y # ys)"
    by (rule hlist_insert[OF assms]) (use \<open>y \<noteq> x\<close> in \<open>simp_all add: u(2,3) a(1,3)\<close>)
  ultimately show ?thesis by blast
qed

lemma hlist_add_after_holds:
  assumes "hholds s h (xs @ n # ys)" "x \<notin> set (xs @ n # ys)" "x \<noteq> 0"
  shows "hholds (hlist_add_after n x s) h (xs @ n # x # ys)"
proof -
  note a = hholds_at(2)[OF assms(1)]
  have z: "0 \<notin> set ys" "x \<noteq> n" using assms by (auto simp: hholds_def)
  have "hholds (hlist_add_after n x s) h ((xs @ [n]) @ x # ys)"
  proof (rule hlist_insert)
    show "hholds s h ((xs @ [n]) @ ys)" "x \<notin> set ((xs @ [n]) @ ys)" "x \<noteq> 0" using assms by simp_all
    show "read_slot (hlist_add_after n x s) q = (if q = endslot (First h) (xs @ [n]) then x
        else if q = Next x then read_slot s (endslot (First h) (xs @ [n])) else read_slot s q)" for q
      using z by (simp add: hlist_add_after_def Let_def)
    show "hpprev (hlist_add_after n x s) b = (if b = x then Some (endslot (First h) (xs @ [n]))
        else if ys \<noteq> [] \<and> b = hd ys then Some (Next x) else hpprev s b)" for b
      using z assms(2) by (cases ys) (auto simp: hlist_add_after_def Let_def a set_hnext_def set_pprev_def)
  qed
  then show ?thesis by simp
qed

lemma hlist_empty_iff: "hholds s h xs \<Longrightarrow> hlist_empty h s \<longleftrightarrow> xs = []"
  by (cases xs) (auto simp: hholds_def hlist_empty_def)


section \<open>Properties\<close>

text \<open>
  The hash chains refine lists of nodes. Adding at the head, before and after a
  node, and deleting a node have the effect on the chain that they have on the list;
  none of them follows a bad pointer on a well-formed chain; the emptiness test is right;
  and a node deleted with reinitialisation is unhashed, so that deleting it again does
  nothing.
\<close>

theorem hash_chains_refine_lists:
  assumes "hholds s h (xs @ ys)"
  shows "(\<forall>x. x \<notin> set (xs @ ys) \<and> x \<noteq> 0 \<longrightarrow>
      hholds (hlist_add_head x h s) h (x # xs @ ys) \<and>
      (\<forall>y zs. ys = y # zs \<longrightarrow>
        (\<exists>s'. hlist_add_before x y s = Inr s' \<and> hholds s' h (xs @ x # ys)) \<and>
        hholds (hlist_add_after y x s) h (xs @ y # x # zs))) \<and>
    (\<forall>y zs. ys = y # zs \<longrightarrow>
      (\<exists>s'. hlist_del y s = Inr s' \<and> hholds s' h (xs @ zs)) \<and>
      (\<exists>s'. hlist_del_init y s = Inr s' \<and> hholds s' h (xs @ zs) \<and> hlist_unhashed y s' \<and> hlist_del_init y s' = Inr s')) \<and>
    (hlist_empty h s \<longleftrightarrow> xs @ ys = [])"
proof (cases ys)
  case Nil
  then show ?thesis using hlist_add_head_holds[OF assms] hlist_empty_iff[OF assms] by simp
next
  case (Cons y zs)
  have h: "hholds s h (xs @ y # zs)" using assms Cons by simp
  show ?thesis
    using hlist_add_head_holds[OF h] hlist_add_before_holds[OF h] hlist_add_after_holds[OF h] hlist_del_holds[OF h]
      hlist_del_init_holds[OF h] hlist_empty_iff[OF h] unfolding Cons by blast
qed

definition demo_chain :: hlinks where
  "demo_chain = \<lparr>hfirst = (\<lambda>_. 0)(1 := 7), hnext = (\<lambda>_. 0)(7 := 8), hpprev = [7 \<mapsto> First 1, 8 \<mapsto> Next 7]\<rparr>"

theorem hash_chains_refine_lists_witness:
  "hholds (hlist_add_head 9 1 demo_chain) 1 [9, 7, 8] \<and> hholds (hlist_add_after 8 9 demo_chain) 1 [7, 8, 9] \<and>
   (\<exists>s'. hlist_del 8 demo_chain = Inr s' \<and> hholds s' 1 [7]) \<and> \<not> hlist_empty 1 demo_chain"
proof -
  have "hholds demo_chain 1 ([7] @ [8])" by (simp add: hholds_def demo_chain_def)
  from hash_chains_refine_lists[OF this] show ?thesis by simp
qed

end
