(* ===== verification/Ccan_List.thy ===== *)
theory Ccan_List
  imports KList
begin

text \<open>
  The lists the libraries use: \<open>ccan/list.h\<close> and the consistency check of
  \<open>ccan/list.c\<close>, and the small lists of \<open>librdmacm/indexer.h\<close>. Both implement the
  interface \<open>ring_ops\<close>. The build without \<open>CCAN_LIST_DEBUG\<close> is modelled, where
  \<open>list_debug\<close> is its argument.
\<close>

section \<open>ccan/list.h\<close>

definition list_head_init :: "nat \<Rightarrow> links \<Rightarrow> links" where
  "list_head_init h s = set_nxt h h (set_prv h h s)"

definition list_node_init :: "nat \<Rightarrow> links \<Rightarrow> links" where
  "list_node_init n s = set_nxt n n (set_prv n n s)"

definition ccan_list_add_after :: "nat \<Rightarrow> nat \<Rightarrow> links \<Rightarrow> links" where
  "ccan_list_add_after p n s =
    (let s = set_nxt n (nxt s p) s;
         s = set_prv n p s;
         s = set_prv (nxt s p) n s
     in set_nxt p n s)"

definition ccan_list_add :: "nat \<Rightarrow> nat \<Rightarrow> links \<Rightarrow> links" where
  "ccan_list_add h n s = ccan_list_add_after h n s"

definition ccan_list_add_before :: "nat \<Rightarrow> nat \<Rightarrow> links \<Rightarrow> links" where
  "ccan_list_add_before p n s =
    (let s = set_nxt n p s;
         s = set_prv n (prv s p) s;
         s = set_nxt (prv s p) n s
     in set_prv p n s)"

definition ccan_list_add_tail :: "nat \<Rightarrow> nat \<Rightarrow> links \<Rightarrow> links" where
  "ccan_list_add_tail h n s = ccan_list_add_before h n s"

definition ccan_list_empty :: "nat \<Rightarrow> links \<Rightarrow> bool" where
  "ccan_list_empty h s = (nxt s h = h)"

definition ccan_list_del :: "nat \<Rightarrow> links \<Rightarrow> links" where
  "ccan_list_del n s =
    (let s = set_prv (nxt s n) (prv s n) s
     in set_nxt (prv s n) (nxt s n) s)"

definition ccan_list_del_init :: "nat \<Rightarrow> links \<Rightarrow> links" where
  "ccan_list_del_init n s = list_node_init n (ccan_list_del n s)"

text \<open>\<open>None\<close> where the assertion stops the program.\<close>

definition list_del_from :: "nat \<Rightarrow> nat \<Rightarrow> links \<Rightarrow> links option" where
  "list_del_from h n s = (if \<not> ccan_list_empty h s then Some (ccan_list_del n s) else None)"

definition ccan_list_swap :: "nat \<Rightarrow> nat \<Rightarrow> links \<Rightarrow> links" where
  "ccan_list_swap old n s =
    (let s = set_prv n (prv s old) (set_nxt n (nxt s old) s);
         s = set_prv (nxt s n) n s
     in set_nxt (prv s n) n s)"

text \<open>Entries by the address of the structure around the node; \<open>None\<close> is the null pointer.\<close>

definition list_node_to_off :: "nat \<Rightarrow> nat \<Rightarrow> nat" where
  "list_node_to_off node off = node - off"

definition list_node_from_off :: "nat \<Rightarrow> nat \<Rightarrow> nat" where
  "list_node_from_off ptr off = ptr + off"

definition list_entry_or_null :: "nat \<Rightarrow> nat \<Rightarrow> nat \<Rightarrow> nat option" where
  "list_entry_or_null h n off = (if n = h then None else Some (n - off))"

definition ccan_list_top :: "nat \<Rightarrow> nat \<Rightarrow> links \<Rightarrow> nat option" where
  "ccan_list_top h off s = (if ccan_list_empty h s then None else Some (nxt s h - off))"

definition ccan_list_pop :: "nat \<Rightarrow> nat \<Rightarrow> links \<Rightarrow> nat option \<times> links" where
  "ccan_list_pop h off s =
    (if ccan_list_empty h s then (None, s)
     else (let n = nxt s h; s = ccan_list_del n s in (Some (n - off), s)))"

definition ccan_list_tail :: "nat \<Rightarrow> nat \<Rightarrow> links \<Rightarrow> nat option" where
  "ccan_list_tail h off s = (if ccan_list_empty h s then None else Some (prv s h - off))"

definition ccan_list_append_list :: "nat \<Rightarrow> nat \<Rightarrow> links \<Rightarrow> links" where
  "ccan_list_append_list to from s =
    (let from_tail = prv s from; to_tail = prv s to;
         s = set_prv to from_tail s;
         s = set_nxt from_tail to s;
         s = set_nxt to_tail from s;
         s = set_prv from to_tail s;
         s = ccan_list_del from s
     in list_head_init from s)"

definition ccan_list_prepend_list :: "nat \<Rightarrow> nat \<Rightarrow> links \<Rightarrow> links" where
  "ccan_list_prepend_list to from s =
    (let from_tail = prv s from; to_head = nxt s to;
         s = set_nxt to from s;
         s = set_prv from to s;
         s = set_prv to_head from_tail s;
         s = set_nxt from_tail to_head s;
         s = ccan_list_del from s
     in list_head_init from s)"

partial_function (option) list_for_each_off_dir_from ::
  "(links \<Rightarrow> nat \<Rightarrow> nat) \<Rightarrow> nat \<Rightarrow> nat \<Rightarrow> (nat \<Rightarrow> 'a \<Rightarrow> 'a) \<Rightarrow> nat \<Rightarrow> links \<Rightarrow> 'a \<Rightarrow> 'a option" where
  "list_for_each_off_dir_from dir h off body i s acc =
    (if list_node_from_off i off \<noteq> h
     then list_for_each_off_dir_from dir h off body
            (list_node_to_off (dir s (list_node_from_off i off)) off) s (body i acc)
     else Some acc)"

definition list_for_each_off_dir ::
  "(links \<Rightarrow> nat \<Rightarrow> nat) \<Rightarrow> nat \<Rightarrow> nat \<Rightarrow> (nat \<Rightarrow> 'a \<Rightarrow> 'a) \<Rightarrow> links \<Rightarrow> 'a \<Rightarrow> 'a option" where
  "list_for_each_off_dir dir h off body s acc =
    list_for_each_off_dir_from dir h off body (list_node_to_off (dir s h) off) s acc"

section \<open>ccan/list.c\<close>

text \<open>
  A check returns its node, or the null pointer, or stops the program with a message
  (the string, the node, the count and the head it prints).
\<close>

datatype checked = Sound nat | Null | Aborted string nat nat nat

definition corrupt :: "string option \<Rightarrow> nat \<Rightarrow> nat \<Rightarrow> nat \<Rightarrow> checked" where
  "corrupt abortstr head node count =
    (case abortstr of Some str \<Rightarrow> Aborted str node count head | None \<Rightarrow> Null)"

partial_function (option) list_check_from ::
  "string option \<Rightarrow> nat \<Rightarrow> nat \<Rightarrow> nat \<Rightarrow> nat \<Rightarrow> links \<Rightarrow> checked option" where
  "list_check_from abortstr node p n count s =
    (if n \<noteq> node then
       (if prv s n \<noteq> p then Some (corrupt abortstr node n (count + 1))
        else list_check_from abortstr node n (nxt s n) (count + 1) s)
     else if prv s node \<noteq> p then Some (corrupt abortstr node node 0)
     else Some (Sound node))"

definition list_check_node :: "string option \<Rightarrow> nat \<Rightarrow> links \<Rightarrow> checked option" where
  "list_check_node abortstr node s = list_check_from abortstr node node (nxt s node) 0 s"

definition list_check :: "string option \<Rightarrow> nat \<Rightarrow> links \<Rightarrow> checked option" where
  "list_check abortstr h s =
    map_option (\<lambda>r. case r of Sound _ \<Rightarrow> Sound h | other \<Rightarrow> other) (list_check_node abortstr h s)"

section \<open>librdmacm/indexer.h\<close>

definition dlist_init :: "nat \<Rightarrow> links \<Rightarrow> links" where
  "dlist_init head s = set_prv head head (set_nxt head head s)"

definition dlist_empty :: "nat \<Rightarrow> links \<Rightarrow> bool" where
  "dlist_empty head s = (nxt s head = head)"

definition dlist_insert_after :: "nat \<Rightarrow> nat \<Rightarrow> links \<Rightarrow> links" where
  "dlist_insert_after item head s =
    (let s = set_nxt item (nxt s head) s;
         s = set_prv item head s;
         s = set_prv (nxt s head) item s
     in set_nxt head item s)"

definition dlist_insert_before :: "nat \<Rightarrow> nat \<Rightarrow> links \<Rightarrow> links" where
  "dlist_insert_before item head s = dlist_insert_after item (prv s head) s"

definition dlist_remove :: "nat \<Rightarrow> links \<Rightarrow> links" where
  "dlist_remove item s =
    (let s = set_nxt (prv s item) (nxt s item) s
     in set_prv (nxt s item) (prv s item) s)"

section \<open>Both implement the interface\<close>

lemma nxt_before: "holds s h (xs @ ys) \<Longrightarrow> nxt s (before h xs) = after h ys"
  and prv_after: "holds s h (xs @ ys) \<Longrightarrow> prv s (after h ys) = before h xs"
  unfolding holds_split by blast+

lemma ccan_add_after_holds:
  assumes "holds s h (xs @ ys)" "x \<notin> set (h # xs @ ys)"
  shows "holds (ccan_list_add_after (before h xs) x s) h (xs @ x # ys)"
    and "dlist_insert_after x (before h xs) s = ccan_list_add_after (before h xs) x s"
proof -
  have "x \<noteq> before h xs" "x \<noteq> after h ys" using assms(2) before_in[of h xs] after_in[of h ys] by auto
  then show "holds (ccan_list_add_after (before h xs) x s) h (xs @ x # ys)"
    by (intro ring_insert[OF assms])
      (auto simp: ccan_list_add_after_def Let_def nxt_before[OF assms(1)])
  show "dlist_insert_after x (before h xs) s = ccan_list_add_after (before h xs) x s"
    by (simp add: ccan_list_add_after_def dlist_insert_after_def)
qed

lemma ccan_add_before_holds:
  assumes "holds s h (xs @ ys)" "x \<notin> set (h # xs @ ys)"
  shows "holds (ccan_list_add_before (after h ys) x s) h (xs @ x # ys)"
proof -
  have "x \<noteq> before h xs" "x \<noteq> after h ys" using assms(2) before_in[of h xs] after_in[of h ys] by auto
  then show ?thesis
    by (intro ring_insert[OF assms])
      (auto simp: ccan_list_add_before_def Let_def prv_after[OF assms(1)])
qed

lemma ring_node_not_self:
  assumes "holds s h (xs @ x # ys)"
  shows "before h xs \<noteq> x" "after h ys \<noteq> x"
  using assms before_in[of h xs] after_in[of h ys] by (auto simp: holds_def)

lemma ccan_del_links:
  assumes "holds s h (xs @ x # ys)"
  shows "ccan_list_del x s = list_del_between (before h xs) (after h ys) s"
    and "dlist_remove x s = set_prv (after h ys) (before h xs) (set_nxt (before h xs) (after h ys) s)"
  using ring_node_not_self[OF assms]
  by (simp_all add: ccan_list_del_def dlist_remove_def list_del_between_def Let_def holds_at[OF assms])

lemma ccan_del_holds:
  assumes "holds s h (xs @ x # ys)"
  shows "holds (ccan_list_del x s) h (xs @ ys)" "holds (dlist_remove x s) h (xs @ ys)"
  by (rule ring_remove[OF assms]; simp add: ccan_del_links[OF assms] list_del_between_def)+

interpretation ccan: ring_ops list_head_init "\<lambda>n h. ccan_list_add h n" "\<lambda>n h. ccan_list_add_tail h n"
  ccan_list_del ccan_list_empty
proof
  fix s :: links and h x :: nat and xs ys :: "nat list"
  show "holds (list_head_init h s) h []" by (simp add: list_head_init_def holds_Nil)
  show "only {h} s (list_head_init h s)" by (simp add: list_head_init_def)
  { assume h: "holds s h xs" and x: "x \<notin> set (h # xs)"
    show "holds (ccan_list_add h x s) h (x # xs)"
      using ccan_add_after_holds(1)[of s h "[]" xs x] h x by (simp add: ccan_list_add_def before_def)
    show "holds (ccan_list_add_tail h x s) h (xs @ [x])"
      using ccan_add_before_holds[of s h xs "[]" x] h x by (simp add: ccan_list_add_tail_def after_def)
    have "nxt s h \<in> set (x # h # xs)" "prv s h \<in> set (x # h # xs)" "x \<noteq> h"
      using before_in[of h xs] after_in[of h xs] x by (auto simp: holds_head[OF h])
    then show "only (set (x # h # xs)) s (ccan_list_add h x s)" "only (set (x # h # xs)) s (ccan_list_add_tail h x s)"
      by (simp_all add: ccan_list_add_def ccan_list_add_tail_def ccan_list_add_after_def ccan_list_add_before_def Let_def) }
  { assume h: "holds s h (xs @ x # ys)"
    show "holds (ccan_list_del x s) h (xs @ ys)" using h by (rule ccan_del_holds)
    show "only (set (h # xs @ x # ys)) s (ccan_list_del x s)"
      using unlink_only[OF h] by (simp add: ccan_del_links[OF h] holds_at[OF h]) }
  assume h: "holds s h xs"
  show "ccan_list_empty h s \<longleftrightarrow> xs = []"
    using klist.empty_iff[OF h] by (simp add: ccan_list_empty_def list_empty_def)
qed

interpretation dlist: ring_ops dlist_init dlist_insert_after dlist_insert_before dlist_remove dlist_empty
proof
  fix s :: links and h x :: nat and xs ys :: "nat list"
  show "holds (dlist_init h s) h []" by (simp add: dlist_init_def holds_Nil)
  show "only {h} s (dlist_init h s)" by (simp add: dlist_init_def)
  { assume h: "holds s h xs" and x: "x \<notin> set (h # xs)"
    show "holds (dlist_insert_after x h s) h (x # xs)"
      using ccan_add_after_holds[of s h "[]" xs x] h x by (simp add: before_def)
    show "holds (dlist_insert_before x h s) h (xs @ [x])"
      using ccan_add_after_holds[of s h xs "[]" x] h x by (simp add: dlist_insert_before_def holds_head)
    have b: "nxt s h \<in> set (h # xs)" "prv s h \<in> set (h # xs)" "nxt s (prv s h) = h"
      using before_in[of h xs] after_in[of h xs] nxt_before[of s h xs "[]"] h by (simp_all add: holds_head[OF h] after_def)
    have "x \<noteq> h" "x \<noteq> prv s h" using x b by auto
    then show "only (set (x # h # xs)) s (dlist_insert_after x h s)" "only (set (x # h # xs)) s (dlist_insert_before x h s)"
      using b by (simp_all add: dlist_insert_before_def dlist_insert_after_def Let_def) }
  { assume h: "holds s h (xs @ x # ys)"
    show "holds (dlist_remove x s) h (xs @ ys)" using h by (rule ccan_del_holds)
    show "only (set (h # xs @ x # ys)) s (dlist_remove x s)"
      using neighbours_in[OF h] by (simp add: ccan_del_links[OF h] holds_at[OF h]) }
  assume h: "holds s h xs"
  show "dlist_empty h s \<longleftrightarrow> xs = []"
    using klist.empty_iff[OF h] by (simp add: dlist_empty_def list_empty_def)
qed

section \<open>The other operations of ccan/list.h\<close>

lemma list_swap_holds:
  assumes "holds s h (xs @ y # ys)" "x \<notin> set (h # xs @ y # ys)"
  shows "holds (ccan_list_swap y x s) h (xs @ x # ys)"
proof -
  have "x \<noteq> before h xs" "x \<noteq> after h ys" using assms(2) before_in[of h xs] after_in[of h ys] by auto
  then show ?thesis
    by (intro ring_replace[OF assms]) (auto simp: ccan_list_swap_def Let_def holds_at[OF assms(1)])
qed

lemma list_pop_holds:
  "holds s h [] \<Longrightarrow> ccan_list_pop h off s = (None, s)"
  "holds s h (x # xs) \<Longrightarrow> \<exists>s'. ccan_list_pop h off s = (Some (x - off), s') \<and> holds s' h xs"
  using ccan.empty_iff[of s h "[]"] ccan.empty_iff[of s h "x # xs"] ccan_del_holds[of s h "[]" x xs]
  by (auto simp: ccan_list_pop_def holds_head after_def Let_def)

lemma list_ends:
  assumes "holds s h xs"
  shows "ccan_list_top h off s = (case xs of [] \<Rightarrow> None | x # _ \<Rightarrow> Some (x - off))"
    and "ccan_list_tail h off s = (if xs = [] then None else Some (last xs - off))"
  using assms ccan.empty_iff[OF assms]
  by (auto simp: ccan_list_top_def ccan_list_tail_def holds_head after_def before_def split: list.splits)


lemma list_append_holds:
  assumes dst: "holds s to xs" and fr: "holds s src ys" and dis: "set (src # ys) \<inter> set (to # xs) = {}"
  shows "holds (ccan_list_append_list to src s) to (xs @ ys)"
    and "holds (ccan_list_prepend_list to src s) to (ys @ xs)"
proof -
  define t where "t = set_prv src (prv s to) (set_nxt (prv s to) src (set_nxt (prv s src) to (set_prv to (prv s src) s)))"
  have "holds t to (xs @ src # ys @ [])"
    by (rule ring_sew[OF _ fr]) (use dst dis in \<open>simp_all add: t_def holds_head[OF dst] holds_head[OF fr] after_def\<close>)
  then have "holds (ccan_list_del src t) to (xs @ ys)" using ccan_del_holds(1) by simp
  then show "holds (ccan_list_append_list to src s) to (xs @ ys)"
    unfolding ccan_list_append_list_def Let_def t_def[symmetric]
    by (rule holds_frame[OF ccan.init_only]) (use dis fr in \<open>auto simp: holds_def\<close>)
  define u where "u = set_nxt (prv s src) (nxt s to) (set_prv (nxt s to) (prv s src) (set_prv src to (set_nxt to src s)))"
  have ne: "before src ys \<noteq> to" "after to xs \<noteq> src"
    using before_in[of src ys] after_in[of to xs] dis by auto
  have "holds u to ([] @ src # ys @ xs)"
    by (rule ring_sew[OF _ fr])
      (use dst dis ne in \<open>auto simp: u_def holds_head[OF dst] holds_head[OF fr] before_def[of to]\<close>)
  then have "holds (ccan_list_del src u) to ([] @ ys @ xs)" by (rule ccan_del_holds(1))
  then show "holds (ccan_list_prepend_list to src s) to (ys @ xs)"
    unfolding ccan_list_prepend_list_def Let_def u_def[symmetric]
    by (intro holds_frame[OF ccan.init_only]) (use dis fr in \<open>auto simp: holds_def\<close>)
qed

lemma list_append_empties:
  "holds (ccan_list_append_list to src s) src []" "holds (ccan_list_prepend_list to src s) src []"
  by (simp_all add: ccan_list_append_list_def ccan_list_prepend_list_def Let_def ccan.init_holds)

lemma off_roundtrip: "off \<le> n \<Longrightarrow> list_node_from_off (list_node_to_off n off) off = n"
  by (simp add: list_node_from_off_def list_node_to_off_def)

lemma for_each_off_holds:
  assumes "holds s h xs" "\<forall>a\<in>set (h # xs). off \<le> a"
  shows "list_for_each_off_dir nxt h off body s acc = Some (fold (\<lambda>n. body (n - off)) xs acc)"
proof -
  have "list_for_each_off_dir_from nxt h off body (list_node_to_off (after h ys) off) s acc = Some (fold (\<lambda>n. body (n - off)) ys acc)"
    if "chain s (ys @ [h])" "h \<notin> set ys" "\<forall>a\<in>set (h # ys). off \<le> a" for ys
    using that
  proof (induction ys arbitrary: acc)
    case Nil
    then show ?case by (subst list_for_each_off_dir_from.simps) (simp add: after_def off_roundtrip)
  next
    case (Cons y ys)
    have "nxt s y = after h ys" "chain s (ys @ [h])" using Cons.prems(1) after_split[of ys h] by (cases ys; simp)+
    then show ?case
      using Cons by (subst list_for_each_off_dir_from.simps) (simp add: after_def list_node_from_off_def list_node_to_off_def)
  qed
  then show ?thesis
    using assms holds_split[of s h "[]" xs] by (simp add: list_for_each_off_dir_def holds_head)
qed

section \<open>The consistency check\<close>

lemma chain_prv: "chain s l \<Longrightarrow> Suc i < length l \<Longrightarrow> prv s (l ! Suc i) = l ! i"
  by (induction s l arbitrary: i rule: chain.induct) (auto simp: nth_Cons' split: if_splits)

text \<open>A chain that comes back to its head for the first time repeats no node.\<close>

lemma chain_distinct:
  assumes "chain s (h # ys @ [h])" "h \<notin> set ys"
  shows "distinct (h # ys)"
proof -
  have "(h # ys) ! i \<noteq> (h # ys) ! j" if "i < j" "j < length (h # ys)" for i j
    using that
  proof (induction i arbitrary: j)
    case 0
    then have "(h # ys) ! j \<in> set ys" by (cases j) auto
    then show ?case using assms(2) by auto
  next
    case (Suc i)
    then obtain k where k: "j = Suc k" "i < k" by (cases j) auto
    have "prv s ((h # ys) ! Suc m) = (h # ys) ! m" if "Suc m < length (h # ys)" for m
      using chain_prv[OF assms(1), of m] that by (simp add: nth_append nth_Cons' split: if_splits)
    from this[of i] this[of k] show ?case using Suc k by (metis Suc_lessD less_trans)
  qed
  then show ?thesis unfolding distinct_conv_nth by (metis nat_neq_iff)
qed

lemma check_complete:
  "chain s (p # ys @ [node]) \<Longrightarrow> node \<notin> set ys \<Longrightarrow>
    list_check_from a node p (after node ys) c s = Some (Sound node)"
proof (induction ys arbitrary: p c)
  case Nil
  then show ?case by (simp add: list_check_from.simps after_def)
next
  case (Cons y ys)
  have "nxt s y = after node ys" using Cons.prems(1) by (cases ys) (simp_all add: after_def)
  then show ?case using Cons by (subst list_check_from.simps) (simp add: after_def)
qed

lemma check_sound:
  assumes "list_check_from a node p n c s = Some r"
  shows "nxt s p = n \<longrightarrow> r = Sound v \<longrightarrow> (\<exists>ys. chain s (p # ys @ [node]) \<and> node \<notin> set ys)"
  using assms
proof (induction rule: list_check_from.raw_induct[rotated, consumes 1, case_names step])
  case (step f a node p n c s r)
  show ?case
  proof (intro impI)
    assume n: "nxt s p = n" and r: "r = Sound v"
    show "\<exists>ys. chain s (p # ys @ [node]) \<and> node \<notin> set ys"
    proof (cases "n = node")
      case True
      then have "chain s (p # [] @ [node])" using step(2) n r by (auto simp: corrupt_def split: if_splits option.splits)
      then show ?thesis by (intro exI[of _ "[]"]) simp
    next
      case False
      then have "prv s n = p" "f a node n (nxt s n) (c + 1) s = Some r"
        using step(2) r by (auto simp: corrupt_def split: if_splits option.splits)
      moreover obtain ys where "chain s (n # ys @ [node])" "node \<notin> set ys"
        using step(1)[OF calculation(2)] r by blast
      ultimately show ?thesis using n False by (intro exI[of _ "n # ys"]) simp
    qed
  qed
qed

lemma check_iff: "list_check_node a h s = Some (Sound h) \<longleftrightarrow> (\<exists>xs. holds s h xs)"
proof
  assume "list_check_node a h s = Some (Sound h)"
  then obtain ys where "chain s (h # ys @ [h])" "h \<notin> set ys"
    using check_sound[of a h h "nxt s h" 0 s "Sound h" h] unfolding list_check_node_def by blast
  then show "\<exists>xs. holds s h xs" using chain_distinct unfolding holds_def by blast
next
  assume "\<exists>xs. holds s h xs"
  then obtain xs where h: "holds s h xs" by blast
  then show "list_check_node a h s = Some (Sound h)"
    using check_complete[of s h xs h a 0] by (simp add: list_check_node_def holds_head holds_def)
qed


section \<open>Properties\<close>

text \<open>
  Property C28: the three list implementations of the repository refine the same
  specification. From a heap that represents a family of lists, any sequence of
  initialisations, insertions at either end and deletions that the specification allows
  leaves a heap that represents the lists the specification computes, and the emptiness
  test of each implementation then answers for these lists.
\<close>

theorem list_implementations_refine:
  assumes "spec_run m ops m'" "represents s m"
  shows "represents (fold (ring_op_with init_list_head list_add list_add_tail list_del) ops s) m' \<and>
    represents (fold (ring_op_with list_head_init (\<lambda>n h. ccan_list_add h n) (\<lambda>n h. ccan_list_add_tail h n)
           ccan_list_del) ops s) m' \<and>
    represents (fold (ring_op_with dlist_init dlist_insert_after dlist_insert_before dlist_remove) ops s) m' \<and>
    (\<forall>h xs. m' h = Some xs \<longrightarrow>
      list_empty h (fold (ring_op_with init_list_head list_add list_add_tail list_del) ops s) = (xs = []) \<and>
      ccan_list_empty h (fold (ring_op_with list_head_init (\<lambda>n h. ccan_list_add h n) (\<lambda>n h. ccan_list_add_tail h n)
           ccan_list_del) ops s) = (xs = []) \<and>
      dlist_empty h (fold (ring_op_with dlist_init dlist_insert_after dlist_insert_before dlist_remove) ops s) = (xs = []))"
  using klist.run_refines[OF assms] ccan.run_refines[OF assms] dlist.run_refines[OF assms]
    klist.run_empty[OF assms] ccan.run_empty[OF assms] dlist.run_empty[OF assms] by blast

definition demo_links :: links where
  "demo_links = \<lparr>nxt = (\<lambda>_. 0), prv = (\<lambda>_. 0)\<rparr>"

theorem list_implementations_refine_witness:
  "represents (fold (ring_op_with init_list_head list_add list_add_tail list_del)
     [Init 1, Push_Tail 7 1, Push 9 1, Delete 7] demo_links) [1 \<mapsto> [9]] \<and>
   \<not> dlist_empty 1 (fold (ring_op_with dlist_init dlist_insert_after dlist_insert_before dlist_remove)
     [Init 1, Push_Tail 7 1, Push 9 1, Delete 7] demo_links)"
proof -
  have s1: "spec_step Map.empty (Init 1) [1 \<mapsto> []]"
    by (rule spec_step.Init) (simp add: owned_def)
  have s2: "spec_step [1 \<mapsto> []] (Push_Tail 7 1) [1 \<mapsto> [7]]"
    using spec_step.Push_Tail[of "[1 \<mapsto> []]" 1 "[]" 7] by (simp add: owned_def)
  have s3: "spec_step [1 \<mapsto> [7]] (Push 9 1) [1 \<mapsto> [9, 7]]"
    using spec_step.Push[of "[1 \<mapsto> [7]]" 1 "[7]" 9] by (simp add: owned_def)
  have s4: "spec_step [1 \<mapsto> [9, 7]] (Delete 7) [1 \<mapsto> [9]]"
    using spec_step.Delete[of "[1 \<mapsto> [9, 7]]" 1 "[9]" 7 "[]"] by simp
  have r: "spec_run Map.empty [Init 1, Push_Tail 7 1, Push 9 1, Delete 7] [1 \<mapsto> [9]]"
    by (rule spec_run.Step[OF s1 spec_run.Step[OF s2 spec_run.Step[OF s3 spec_run.Step[OF s4 spec_run.Done]]]])
  have e: "represents demo_links Map.empty" by (simp add: represents_def)
  show ?thesis
    using list_implementations_refine[OF r e] by simp
qed

text \<open>
  Moving nodes between lists. In the lists of \<open>list.h\<close> a node moves from
  its list to either end of any list, its own one included, and joining takes all nodes
  of one list, in order, to the front of another and leaves the first empty; no other
  list changes. In \<open>ccan/list.h\<close> appending and prepending empty one list into another.
\<close>

theorem list_moves:
  assumes "represents s m"
  shows "(\<forall>g h xs x ys zs. m g = Some (xs @ x # ys) \<and> (m(g \<mapsto> xs @ ys)) h = Some zs \<longrightarrow>
      represents (list_move x h s) (m(g \<mapsto> xs @ ys, h \<mapsto> x # zs)) \<and>
      represents (list_move_tail x h s) (m(g \<mapsto> xs @ ys, h \<mapsto> zs @ [x]))) \<and>
    (\<forall>g h xs ys. m g = Some ys \<and> m h = Some xs \<and> g \<noteq> h \<longrightarrow>
      represents (list_splice_init g h s) (m(g \<mapsto> [], h \<mapsto> ys @ xs)) \<and>
      holds (list_splice g h s) h (ys @ xs) \<and>
      holds (ccan_list_append_list h g s) h (xs @ ys) \<and> holds (ccan_list_append_list h g s) g [] \<and>
      holds (ccan_list_prepend_list h g s) h (ys @ xs) \<and> holds (ccan_list_prepend_list h g s) g [])"
proof (intro conjI allI impI; elim conjE)
  fix g h xs x ys zs assume a: "m g = Some (xs @ x # ys)" "(m(g \<mapsto> xs @ ys)) h = Some zs"
  show "represents (list_move x h s) (m(g \<mapsto> xs @ ys, h \<mapsto> x # zs))"
    "represents (list_move_tail x h s) (m(g \<mapsto> xs @ ys, h \<mapsto> zs @ [x]))"
    by (rule list_move_represents[OF assms a])+
next
  fix g h xs ys assume a: "m g = Some ys" "m h = Some xs" "g \<noteq> h"
  note hg = represents_holds[OF assms a(1)] and hh = represents_holds[OF assms a(2)]
  have dis: "set (g # ys) \<inter> set (h # xs) = {}" using a by (intro other_disjoint[OF assms])
  show "represents (list_splice_init g h s) (m(g \<mapsto> [], h \<mapsto> ys @ xs))"
    by (rule list_splice_init_represents[OF assms a])
  show "holds (list_splice g h s) h (ys @ xs)"
    using splice_body_holds[OF hg hh _ dis] klist.empty_iff[OF hg] hh by (auto simp: list_splice_def)
  show "holds (ccan_list_append_list h g s) h (xs @ ys)" "holds (ccan_list_prepend_list h g s) h (ys @ xs)"
    by (rule list_append_holds[OF hh hg dis])+
  show "holds (ccan_list_append_list h g s) g []" "holds (ccan_list_prepend_list h g s) g []"
    by (rule list_append_empties)+
qed

text \<open>Two lists: 7 behind 1, and 8, 9 behind 2.\<close>

definition demo_two :: links where
  "demo_two = \<lparr>nxt = (\<lambda>_. 0)(1 := 7, 7 := 1, 2 := 8, 8 := 9, 9 := 2),
               prv = (\<lambda>_. 0)(1 := 7, 7 := 1, 2 := 9, 9 := 8, 8 := 2)\<rparr>"

theorem list_moves_witness:
  "represents (list_move 8 1 demo_two) [2 \<mapsto> [9], 1 \<mapsto> [8, 7]] \<and>
   represents (list_splice_init 2 1 demo_two) [2 \<mapsto> [], 1 \<mapsto> [8, 9, 7]]"
proof -
  have r: "represents demo_two [1 \<mapsto> [7], 2 \<mapsto> [8, 9]]"
    by (auto simp: represents_def holds_def demo_two_def split: if_splits)
  have "represents (list_move 8 1 demo_two) [1 \<mapsto> [7], 2 \<mapsto> [8, 9], 2 \<mapsto> [] @ [9], 1 \<mapsto> 8 # [7]]"
    by (rule list_moves[OF r, THEN conjunct1, rule_format, THEN conjunct1]) simp
  moreover have "represents (list_splice_init 2 1 demo_two) [1 \<mapsto> [7], 2 \<mapsto> [8, 9], 2 \<mapsto> [], 1 \<mapsto> [8, 9] @ [7]]"
    by (rule list_moves[OF r, THEN conjunct2, rule_format, THEN conjunct1]) simp
  ultimately show ?thesis by (simp add: fun_upd_twist)
qed

text \<open>
  Property C32: the traversals end and visit the nodes of a list once and in order, forwards
  and backwards, also when the body removes the node it is at; the entries of
  \<open>ccan/list.h\<close> are visited by the address of their structure.
\<close>

theorem traversals_visit_list:
  assumes "holds s h xs"
  shows "list_for_each h body s acc = Some (fold body xs acc) \<and>
    list_for_each_prev h body s acc = Some (fold body (rev xs) acc) \<and>
    (\<exists>s'. list_for_each_safe h (\<lambda>p s. if P p then list_del p s else s) s = Some s' \<and>
      holds s' h (filter (\<lambda>x. \<not> P x) xs)) \<and>
    ((\<forall>a\<in>set (h # xs). off \<le> a) \<longrightarrow>
      list_for_each_off_dir nxt h off body s acc = Some (fold body (map (\<lambda>n. n - off) xs) acc))"
  using list_for_each_holds[OF assms, of body acc] list_for_each_prev_holds[OF assms, of body acc]
    list_for_each_safe_holds[OF assms, of P] for_each_off_holds[OF assms, of off body acc]
  by (simp add: foldr_conv_fold fold_map comp_def)

theorem traversals_visit_list_witness:
  "list_for_each 2 (#) demo_two [] = Some [9, 8] \<and> list_for_each_prev 2 (#) demo_two [] = Some [8, 9] \<and>
   (\<exists>s'. list_for_each_safe 2 (\<lambda>p s. if p = 8 then list_del p s else s) demo_two = Some s' \<and> holds s' 2 [9]) \<and>
   list_for_each_off_dir nxt 2 1 (#) demo_two [] = Some [8, 7]"
proof -
  have "holds demo_two 2 [8, 9]" by (simp add: holds_def demo_two_def)
  from traversals_visit_list[OF this, of "(#)" "[]" "\<lambda>p. p = 8" 1]
  show ?thesis by simp
qed

text \<open>
  The consistency check of \<open>ccan/list.c\<close> accepts exactly the well-formed
  lists: it ends and returns the node if and only if following the links from it gives a
  circular doubly linked list without repetition.
\<close>

theorem list_check_exact: "list_check_node abortstr h s = Some (Sound h) \<longleftrightarrow> (\<exists>xs. holds s h xs)"
  by (rule check_iff)

end
