(* ===== verification/Indexer.thy ===== *)
theory Indexer
  imports Prelude
begin

text \<open>
  The index store and the index map of \<open>librdmacm/indexer.c\<close> and \<open>librdmacm/indexer.h\<close>:
  a table of up to 64 allocations of 1024 entries. The store hands out indices from a
  free list that runs through its unused entries; the map is filled at indices of the
  caller's choice. Whether an allocation succeeds is an argument. An entry of the store
  is a union of a pointer and a link, modelled with its member as a tag; a pointer is a
  number, and 0 is the null pointer.
\<close>

section \<open>Two-level arrays\<close>

datatype idx_entry = Item nat | Link int

definition idx_index_bits :: nat where
  "idx_index_bits = 16"

definition idx_entry_bits :: nat where
  "idx_entry_bits = 10"

definition idx_entry_size :: nat where
  "idx_entry_size = 2 ^ idx_entry_bits"

definition idx_array_size :: nat where
  "idx_array_size = 2 ^ (idx_index_bits - idx_entry_bits)"

definition idx_max_index :: int where
  "idx_max_index = 2 ^ idx_index_bits - 1"

definition idx_array_index :: "int \<Rightarrow> int" where
  "idx_array_index index = drop_bit idx_entry_bits index"

definition idx_entry_index :: "int \<Rightarrow> nat" where
  "idx_entry_index index = nat (index AND (int idx_entry_size - 1))"

text \<open>Access to \<open>array[idx_array_index(index)][idx_entry_index(index)]\<close>.\<close>

definition chunk_of :: "'a list option list \<Rightarrow> int \<Rightarrow> fault + 'a list option" where
  "chunk_of array index =
    (let a = idx_array_index index in
     if a < 0 \<or> a \<ge> int (length array) then Inl OutOfBounds else Inr (array ! nat a))"

definition get_entry :: "'a list option list \<Rightarrow> int \<Rightarrow> fault + 'a" where
  "get_entry array index =
    bindE (chunk_of array index) (\<lambda>c.
    bindE (orFault NullDeref c) (\<lambda>entry. Inr (entry ! idx_entry_index index)))"

definition set_entry :: "'a list option list \<Rightarrow> int \<Rightarrow> 'a \<Rightarrow> fault + 'a list option list" where
  "set_entry array index v =
    bindE (chunk_of array index) (\<lambda>c.
    bindE (orFault NullDeref c) (\<lambda>entry.
    Inr (array[nat (idx_array_index index) := Some (entry[idx_entry_index index := v])])))"

section \<open>The index store\<close>

record indexer =
  array :: "idx_entry list option list"
  free_list :: int
  chunks :: int

fun as_next :: "idx_entry \<Rightarrow> fault + int" where
  "as_next (Link n) = Inr n"
| "as_next (Item p) = Inl BadPointer"

fun as_item :: "idx_entry \<Rightarrow> fault + nat" where
  "as_item (Item p) = Inr p"
| "as_item (Link n) = Inl BadPointer"

definition idx_grow :: "bool \<Rightarrow> indexer \<Rightarrow> int \<times> indexer" where
  "idx_grow calloc_ok idx =
    (if chunks idx \<ge> int idx_array_size then (-1, idx)
     else if \<not> calloc_ok then (-1, idx\<lparr>array := (array idx)[nat (chunks idx) := None]\<rparr>)
     else
       (let entry = replicate idx_entry_size (Item 0);
            start_index = push_bit idx_entry_bits (chunks idx);
            entry = entry[idx_entry_size - 1 := Link (free_list idx)];
            entry = fold (\<lambda>i entry. entry[i := Link (start_index + int i + 1)]) (rev [0..<idx_entry_size - 1]) entry;
            idx = idx\<lparr>array := (array idx)[nat (chunks idx) := Some entry]\<rparr>;
            start_index = (if start_index = 0 then start_index + 1 else start_index)
        in (start_index, idx\<lparr>free_list := start_index, chunks := chunks idx + 1\<rparr>)))"

definition idx_insert :: "bool \<Rightarrow> nat \<Rightarrow> indexer \<Rightarrow> fault + int \<times> indexer" where
  "idx_insert calloc_ok item idx =
    (let (index, idx) = (if free_list idx = 0 then idx_grow calloc_ok idx else (free_list idx, idx)) in
     if index \<le> 0 then Inr (index, idx)
     else
       bindE (get_entry (array idx) index) (\<lambda>e.
       bindE (as_next e) (\<lambda>next.
       bindE (set_entry (array idx) index (Item item)) (\<lambda>a.
       Inr (index, idx\<lparr>free_list := next, array := a\<rparr>)))))"

definition idx_remove :: "int \<Rightarrow> indexer \<Rightarrow> fault + nat \<times> indexer" where
  "idx_remove index idx =
    bindE (get_entry (array idx) index) (\<lambda>e.
    bindE (as_item e) (\<lambda>item.
    bindE (set_entry (array idx) index (Link (free_list idx))) (\<lambda>a.
    Inr (item, idx\<lparr>array := a, free_list := index\<rparr>))))"

definition idx_replace :: "int \<Rightarrow> nat \<Rightarrow> indexer \<Rightarrow> fault + indexer" where
  "idx_replace index item idx =
    bindE (set_entry (array idx) index (Item item)) (\<lambda>a. Inr (idx\<lparr>array := a\<rparr>))"

definition idx_at :: "int \<Rightarrow> indexer \<Rightarrow> fault + nat" where
  "idx_at index idx = bindE (get_entry (array idx) index) as_item"

section \<open>The index map\<close>

type_synonym index_map = "nat list option list"

definition idm_at :: "int \<Rightarrow> index_map \<Rightarrow> fault + nat" where
  "idm_at index idm = get_entry idm index"

definition idm_lookup :: "int \<Rightarrow> index_map \<Rightarrow> fault + nat" where
  "idm_lookup index idm =
    (if index \<le> idx_max_index
     then bindE (chunk_of idm index) (\<lambda>c. if c \<noteq> None then idm_at index idm else Inr 0)
     else Inr 0)"

definition idm_grow :: "bool \<Rightarrow> int \<Rightarrow> index_map \<Rightarrow> int \<times> index_map" where
  "idm_grow calloc_ok index idm =
    (if calloc_ok then (index, idm[nat (idx_array_index index) := Some (replicate idx_entry_size 0)])
     else (-1, idm[nat (idx_array_index index) := None]))"

definition idm_set :: "bool \<Rightarrow> int \<Rightarrow> nat \<Rightarrow> index_map \<Rightarrow> fault + int \<times> index_map" where
  "idm_set calloc_ok index item idm =
    (if index > idx_max_index then Inr (-1, idm)
     else
       bindE (chunk_of idm index) (\<lambda>c.
         let (r, idm) = (if c = None then idm_grow calloc_ok index idm else (index, idm)) in
         if c = None \<and> r < 0 then Inr (-1, idm)
         else bindE (set_entry idm index item) (\<lambda>idm. Inr (index, idm))))"

definition idm_clear :: "int \<Rightarrow> index_map \<Rightarrow> fault + nat \<times> index_map" where
  "idm_clear index idm =
    bindE (get_entry idm index) (\<lambda>item. bindE (set_entry idm index 0) (\<lambda>idm. Inr (item, idm)))"

section \<open>Indices\<close>

lemma idx_consts [simp]:
  "idx_entry_bits = 10" "idx_entry_size = 1024" "idx_array_size = 64" "idx_max_index = 65535"
  by (simp_all add: idx_entry_bits_def idx_entry_size_def idx_array_size_def idx_index_bits_def idx_max_index_def)

lemma idx_array_index_div: "idx_array_index i = i div 1024"
  by (simp add: idx_array_index_def drop_bit_int_def)

lemma idx_entry_index_mod: "idx_entry_index i = nat (i mod 1024)"
proof -
  have "i AND 1023 = take_bit 10 i" by (simp add: take_bit_eq_mask mask_eq_exp_minus_1)
  then show ?thesis by (simp add: idx_entry_index_def take_bit_int_def)
qed

lemma idx_entry_index_lt [simp]: "idx_entry_index i < 1024"
  by (simp add: idx_entry_index_mod nat_less_iff)

text \<open>Distinct indices name distinct entries.\<close>

lemma index_split: "idx_array_index i = idx_array_index j \<Longrightarrow> idx_entry_index i = idx_entry_index j \<Longrightarrow> i = j"
  unfolding idx_array_index_div idx_entry_index_mod
  by (metis div_mult_mod_eq eq_nat_nat_iff pos_mod_sign zero_less_numeral)

text \<open>All allocated chunks have their full length, and the table has 64 places.\<close>

definition table_ok :: "'a list option list \<Rightarrow> bool" where
  "table_ok t \<longleftrightarrow> length t = 64 \<and> (\<forall>c. Some c \<in> set t \<longrightarrow> length c = 1024)"

definition allocated :: "'a list option list \<Rightarrow> int \<Rightarrow> bool" where
  "allocated t i \<longleftrightarrow> 0 \<le> i \<and> i \<le> 65535 \<and> t ! nat (i div 1024) \<noteq> None"

definition entry_at :: "'a list option list \<Rightarrow> int \<Rightarrow> 'a" where
  "entry_at t i = the (t ! nat (i div 1024)) ! nat (i mod 1024)"

lemma chunk_of_range: "length t = 64 \<Longrightarrow> chunk_of t i = (if 0 \<le> i \<and> i \<le> 65535 then Inr (t ! nat (i div 1024)) else Inl OutOfBounds)"
  by (auto simp: chunk_of_def Let_def idx_array_index_div)

lemma get_entry_allocated: "table_ok t \<Longrightarrow> allocated t i \<Longrightarrow> get_entry t i = Inr (entry_at t i)"
  by (auto simp: get_entry_def table_ok_def allocated_def chunk_of_range entry_at_def idx_entry_index_mod)

lemma table_ok_update: "table_ok t \<Longrightarrow> (\<And>d. c = Some d \<Longrightarrow> length d = 1024) \<Longrightarrow> table_ok (t[k := c])"
  using set_update_subset_insert[of t k c] by (auto simp: table_ok_def)

lemma set_entry_allocated:
  assumes "table_ok t" "allocated t i"
  shows "\<exists>t'. set_entry t i v = Inr t' \<and> table_ok t' \<and> (\<forall>j. allocated t' j = allocated t j) \<and>
    (\<forall>j. allocated t j \<longrightarrow> entry_at t' j = (if j = i then v else entry_at t j))"
proof -
  obtain c where c: "t ! nat (i div 1024) = Some c" and i: "0 \<le> i" "i \<le> 65535" "i div 1024 < 64"
    using assms(2) by (auto simp: allocated_def)
  let ?k = "nat (i div 1024)"
  let ?t = "t[?k := Some (c[nat (i mod 1024) := v])]"
  have t: "length t = 64" "?k < 64" using assms(1) i by (auto simp: table_ok_def nat_less_iff)
  then have len: "length c = 1024" using assms(1) c by (metis nth_mem table_ok_def)
  have "set_entry t i v = Inr ?t"
    using c i t by (simp add: set_entry_def chunk_of_range idx_array_index_div idx_entry_index_mod)
  moreover have "table_ok ?t"
    using assms(1) len by (intro table_ok_update) auto
  moreover have "allocated ?t j = allocated t j" for j
    using c t by (cases "nat (j div 1024) = ?k") (auto simp: allocated_def nth_list_update)
  moreover have "entry_at ?t j = (if j = i then v else entry_at t j)" if "allocated t j" for j
  proof (cases "nat (j div 1024) = ?k")
    case True
    then have d: "j div 1024 = i div 1024" using that i by (auto simp: allocated_def)
    have "j = i \<longleftrightarrow> nat (j mod 1024) = nat (i mod 1024)"
      using index_split[of j i] d by (auto simp: idx_array_index_div idx_entry_index_mod)
    then show ?thesis using c t len True by (simp add: entry_at_def nth_list_update nat_less_iff)
  next
    case False
    then show ?thesis by (auto simp: entry_at_def)
  qed
  ultimately show ?thesis by blast
qed


section \<open>The free list\<close>

fun free_chain :: "idx_entry list option list \<Rightarrow> int \<Rightarrow> int list \<Rightarrow> bool" where
  "free_chain t f [] = (f = 0)"
| "free_chain t f (i # is) =
    (f = i \<and> i \<noteq> 0 \<and> (case entry_at t i of Link n \<Rightarrow> free_chain t n is | Item p \<Rightarrow> False))"

definition in_use :: "indexer \<Rightarrow> int \<Rightarrow> nat option" where
  "in_use idx i = (if 0 < i \<and> i < chunks idx * 1024
     then (case entry_at (array idx) i of Item p \<Rightarrow> Some p | Link n \<Rightarrow> None) else None)"

definition idx_ok :: "indexer \<Rightarrow> int list \<Rightarrow> bool" where
  "idx_ok idx fs \<longleftrightarrow> table_ok (array idx) \<and> 0 \<le> chunks idx \<and> chunks idx \<le> 64 \<and>
     (\<forall>i. allocated (array idx) i \<longleftrightarrow> 0 \<le> i \<and> i < chunks idx * 1024) \<and>
     free_chain (array idx) (free_list idx) fs \<and> distinct fs \<and>
     (\<forall>i. i \<in> set fs \<longleftrightarrow> 0 < i \<and> i < chunks idx * 1024 \<and> in_use idx i = None)"

definition idx_empty :: indexer where
  "idx_empty = \<lparr>array = replicate 64 None, free_list = 0, chunks = 0\<rparr>"

lemma idx_empty_ok: "idx_ok idx_empty []"
  by (auto simp: idx_ok_def idx_empty_def table_ok_def allocated_def in_use_def)

lemma free_chain_cong:
  "(\<And>i. i \<in> set fs \<Longrightarrow> entry_at t' i = entry_at t i) \<Longrightarrow> free_chain t' f fs = free_chain t f fs"
  by (induction fs arbitrary: f) (auto split: idx_entry.splits)

lemma free_chain_upto:
  assumes "0 < a" "a \<le> b" "\<And>i. a \<le> i \<Longrightarrow> i < b \<Longrightarrow> entry_at t i = Link (i + 1)" "entry_at t b = Link 0"
  shows "free_chain t a [a..b]"
  using assms
proof (induction a b rule: upto.induct)
  case (1 a b)
  show ?case
  proof (cases "a = b")
    case True
    then show ?thesis using 1 by simp
  next
    case False
    then show ?thesis using 1 by (simp add: upto_rec1[of a b])
  qed
qed

lemma fill_nth:
  "n \<le> length e \<Longrightarrow> k < length e \<Longrightarrow>
    fold (\<lambda>i e. e[i := g i]) (rev [0..<n]) e ! k = (if k < n then g k else e ! k)"
  "length (fold (\<lambda>i e. e[i := g i]) (rev [0..<n]) e) = length e"
  by (induction n arbitrary: e) (auto simp: nth_list_update less_Suc_eq)

text \<open>Growing an exhausted store: every index of the new chunk but 0 becomes free.\<close>

lemma idx_grow_ok:
  assumes "idx_ok idx []" "chunks idx < 64"
  defines "start \<equiv> chunks idx * 1024"
  obtains idx' where "idx_grow True idx = (max 1 start, idx')" "idx_ok idx' [max 1 start..start + 1023]"
    "\<And>i. in_use idx' i = in_use idx i" "free_list idx' = max 1 start" "chunks idx' = chunks idx + 1"
proof -
  let ?k = "nat (chunks idx)"
  define e where "e = fold (\<lambda>i entry. entry[i := Link (start + int i + 1)]) (rev [0..<1023])
    ((replicate 1024 (Item 0))[1023 := Link 0])"
  define idx' where "idx' = idx\<lparr>array := (array idx)[?k := Some e], free_list := max 1 start, chunks := chunks idx + 1\<rparr>"
  note ok = assms(1)[unfolded idx_ok_def]
  have k: "?k < 64" "length (array idx) = 64" "0 \<le> chunks idx" "free_list idx = 0"
    using ok assms(2) by (auto simp: table_ok_def)
  have e: "length e = 1024" "\<And>i. i < 1024 \<Longrightarrow> e ! i = Link (if i = 1023 then 0 else start + int i + 1)"
    by (auto simp: e_def fill_nth nth_list_update)
  have old: "entry_at (array idx') i = entry_at (array idx) i" if "0 \<le> i" "i < start" for i
  proof -
    have "nat (i div 1024) \<noteq> ?k" using that k(3) by (auto simp: start_def)
    then show ?thesis by (simp add: idx'_def entry_at_def)
  qed
  have new: "entry_at (array idx') i = Link (if i = start + 1023 then 0 else i + 1)" if i: "start \<le> i" "i < start + 1024" for i
  proof -
    obtain j where j: "i = start + j" "0 \<le> j" "j < 1024" using i by (metis add.commute add_diff_cancel_left' diff_add_cancel diff_ge_0_iff_ge add_less_cancel_left)
    then have "i div 1024 = chunks idx" "i mod 1024 = j" by (auto simp: start_def)
    then show ?thesis using j k e(2)[of "nat j"] by (auto simp: idx'_def entry_at_def)
  qed
  have "idx_grow True idx = (max 1 start, idx')"
    using assms(2) k by (auto simp: idx_grow_def idx'_def e_def start_def Let_def push_bit_eq_mult max_def)
  moreover have c: "chunks idx' = chunks idx + 1" "free_list idx' = max 1 start" by (simp_all add: idx'_def)
  moreover have use: "in_use idx' i = in_use idx i" for i
    using old[of i] new[of i] k(3) c(1) by (cases "i < start") (auto simp: in_use_def start_def)
  moreover have "idx_ok idx' [max 1 start..start + 1023]"
    unfolding idx_ok_def
  proof (intro conjI allI)
    have t: "table_ok (array idx)" and a: "\<And>i. allocated (array idx) i \<longleftrightarrow> 0 \<le> i \<and> i < start"
      and used: "\<And>i. 0 < i \<Longrightarrow> i < start \<Longrightarrow> in_use idx i \<noteq> None"
      using ok by (auto simp: start_def)
    show "table_ok (array idx')" using table_ok_update[OF t, of "Some e" ?k] e(1) by (simp add: idx'_def)
    show "0 \<le> chunks idx'" "chunks idx' \<le> 64" using k assms(2) c by auto
    show "free_chain (array idx') (free_list idx') [max 1 start..start + 1023]"
      unfolding c using k(3) new by (intro free_chain_upto) (auto simp: start_def)
    show "distinct [max 1 start..start + 1023]" by simp
    fix i
    have "allocated (array idx') i \<longleftrightarrow> (if 0 \<le> i \<and> i div 1024 = chunks idx then i \<le> 65535 else allocated (array idx) i)"
      using k by (auto simp: allocated_def idx'_def nth_list_update)
    then show "allocated (array idx') i \<longleftrightarrow> 0 \<le> i \<and> i < chunks idx' * 1024"
      using a[of i] assms(2) k(3) by (auto simp: c start_def)
    have "in_use idx' i = None" if "start \<le> i" using that unfolding use by (simp add: in_use_def start_def)
    then show "i \<in> set [max 1 start..start + 1023] \<longleftrightarrow> 0 < i \<and> i < chunks idx' * 1024 \<and> in_use idx' i = None"
      using used[of i] k(3) by (cases "i < start") (auto simp: c use start_def)
  qed
  ultimately show thesis using that by blast
qed


section \<open>Operations of the store\<close>

text \<open>Writing one entry of a store, seen through \<open>in_use\<close>.\<close>

lemma store_write:
  assumes "idx_ok idx fs" "0 < i" "i < chunks idx * 1024"
  obtains t where "set_entry (array idx) i v = Inr t" "table_ok t"
    "\<And>j. allocated t j \<longleftrightarrow> 0 \<le> j \<and> j < chunks idx * 1024"
    "\<And>j. 0 \<le> j \<Longrightarrow> j < chunks idx * 1024 \<Longrightarrow> entry_at t j = (if j = i then v else entry_at (array idx) j)"
    "get_entry (array idx) i = Inr (entry_at (array idx) i)"
  using assms set_entry_allocated[of "array idx" i v] get_entry_allocated[of "array idx" i]
  unfolding idx_ok_def by (metis less_imp_le)

lemma take_free:
  assumes ok: "idx_ok idx fs" and ne: "free_list idx \<noteq> 0"
  shows "\<exists>idx' i. bindE (get_entry (array idx) (free_list idx)) (\<lambda>e. bindE (as_next e) (\<lambda>next.
       bindE (set_entry (array idx) (free_list idx) (Item item)) (\<lambda>a.
       Inr (free_list idx, idx\<lparr>free_list := next, array := a\<rparr>)))) = Inr (free_list idx, idx') \<and>
     idx_ok idx' (tl fs) \<and> 0 < free_list idx \<and> free_list idx < chunks idx * 1024 \<and>
     in_use idx (free_list idx) = None \<and> in_use idx' = (in_use idx)(free_list idx \<mapsto> item)"
proof -
  let ?i = "free_list idx"
  note o = ok[unfolded idx_ok_def]
  obtain n gs where fs: "fs = ?i # gs" "entry_at (array idx) ?i = Link n" "free_chain (array idx) n gs"
    using o ne by (cases fs) (auto split: idx_entry.splits)
  have i: "0 < ?i" "?i < chunks idx * 1024" "in_use idx ?i = None" "?i \<notin> set gs" "distinct gs"
    using o by (auto simp: fs(1))
  obtain t where t: "set_entry (array idx) ?i (Item item) = Inr t" "table_ok t"
    "\<And>j. allocated t j \<longleftrightarrow> 0 \<le> j \<and> j < chunks idx * 1024"
    "\<And>j. 0 \<le> j \<Longrightarrow> j < chunks idx * 1024 \<Longrightarrow> entry_at t j = (if j = ?i then Item item else entry_at (array idx) j)"
    "get_entry (array idx) ?i = Inr (entry_at (array idx) ?i)"
    using store_write[OF ok i(1,2)] by blast
  have gs: "0 \<le> j \<and> j < chunks idx * 1024 \<and> j \<noteq> ?i" if "j \<in> set gs" for j
    using that o i(4) unfolding fs(1) by (metis less_imp_le list.set_intros(2))
  let ?idx = "idx\<lparr>free_list := n, array := t\<rparr>"
  have use: "in_use ?idx j = ((in_use idx)(?i \<mapsto> item)) j" for j
    using i(1,2) by (auto simp: in_use_def t(4))
  have "idx_ok ?idx gs"
    unfolding idx_ok_def
  proof (intro conjI allI)
    have "free_chain t n gs = free_chain (array idx) n gs"
      using gs by (intro free_chain_cong) (simp add: t(4))
    then show "free_chain (array ?idx) (free_list ?idx) gs" using fs(3) by simp
    show "j \<in> set gs \<longleftrightarrow> 0 < j \<and> j < chunks ?idx * 1024 \<and> in_use ?idx j = None" for j
      using o i(4) unfolding use by (auto simp: fs(1))
  qed (use o i t in auto)
  then show ?thesis using fs t i use by (auto simp: fun_eq_iff)
qed

lemma idx_grow_fails:
  assumes "idx_ok idx fs" "\<not> calloc_ok \<or> chunks idx = 64"
  shows "idx_grow calloc_ok idx = (-1, idx)"
proof (cases "chunks idx = 64")
  case False
  note o = assms(1)[unfolded idx_ok_def]
  have "\<not> allocated (array idx) (chunks idx * 1024)" using o by auto
  then have "array idx ! nat (chunks idx) = None" using o False by (auto simp: allocated_def)
  then have "(array idx)[nat (chunks idx) := None] = array idx" by (metis list_update_id)
  then show ?thesis using o False assms(2) by (simp add: idx_grow_def)
qed (simp add: idx_grow_def)

lemma idx_insert_ok:
  assumes ok: "idx_ok idx fs"
  shows "\<exists>r idx' fs'. idx_insert calloc_ok item idx = Inr (r, idx') \<and> idx_ok idx' fs' \<and>
    (0 < r \<and> r \<le> 65535 \<and> in_use idx r = None \<and> in_use idx' = (in_use idx)(r \<mapsto> item) \<or>
     r = -1 \<and> in_use idx' = in_use idx \<and> (\<not> calloc_ok \<or> chunks idx = 64) \<and>
      (\<forall>i. 0 < i \<and> i < chunks idx * 1024 \<longrightarrow> in_use idx i \<noteq> None))"
proof (cases "free_list idx = 0")
  case False
  have c: "chunks idx \<le> 64" using ok by (simp add: idx_ok_def)
  obtain idx' where "idx_insert calloc_ok item idx = Inr (free_list idx, idx')" "idx_ok idx' (tl fs)" "0 < free_list idx"
    "free_list idx < chunks idx * 1024" "in_use idx (free_list idx) = None" "in_use idx' = (in_use idx)(free_list idx \<mapsto> item)"
    using take_free[OF ok False, of item] False by (auto simp: idx_insert_def)
  then show ?thesis using c by (intro exI[of _ "free_list idx"] exI[of _ idx'] exI[of _ "tl fs"]) simp
next
  case True
  then have fs: "fs = []" using ok by (cases fs) (auto simp: idx_ok_def)
  show ?thesis
  proof (cases "calloc_ok \<and> chunks idx < 64")
    case grow: True
    obtain idx1 where g: "idx_grow True idx = (max 1 (chunks idx * 1024), idx1)"
      "idx_ok idx1 [max 1 (chunks idx * 1024)..chunks idx * 1024 + 1023]" "\<And>i. in_use idx1 i = in_use idx i"
      "free_list idx1 = max 1 (chunks idx * 1024)" "chunks idx1 = chunks idx + 1"
      using idx_grow_ok[of idx] ok fs grow by blast
    have "in_use idx1 = in_use idx" using g(3) by auto
    moreover have "free_list idx1 \<noteq> 0" using g(4) by linarith
    ultimately obtain idx' fs' where i: "idx_insert calloc_ok item idx = Inr (free_list idx1, idx')" "idx_ok idx' fs'"
      "0 < free_list idx1" "in_use idx (free_list idx1) = None" "in_use idx' = (in_use idx)(free_list idx1 \<mapsto> item)"
      using take_free[OF g(2), of item] True grow g(1,4) by (auto simp: idx_insert_def)
    moreover have "free_list idx1 \<le> 65535" using g(4) grow by auto
    ultimately show ?thesis by (intro exI[of _ "free_list idx1"] exI[of _ idx'] exI[of _ fs']) simp
  next
    case False
    then have full: "\<not> calloc_ok \<or> chunks idx = 64" using ok by (auto simp: idx_ok_def)
    have all: "\<forall>i. 0 < i \<and> i < chunks idx * 1024 \<longrightarrow> in_use idx i \<noteq> None" using ok fs by (auto simp: idx_ok_def)
    show ?thesis
      by (rule exI[of _ "-1"], rule exI[of _ idx], rule exI[of _ fs])
        (use True idx_grow_fails[OF ok full] ok full all in \<open>simp add: idx_insert_def\<close>)
  qed
qed


lemma idx_remove_ok:
  assumes ok: "idx_ok idx fs" and use: "in_use idx i = Some p"
  obtains idx' where "idx_remove i idx = Inr (p, idx')" "idx_ok idx' (i # fs)"
    "in_use idx' = (in_use idx)(i := None)" "free_list idx' = i"
proof -
  note o = ok[unfolded idx_ok_def]
  have i: "0 < i" "i < chunks idx * 1024" "entry_at (array idx) i = Item p"
    using use by (auto simp: in_use_def split: if_splits idx_entry.splits)
  have nf: "i \<notin> set fs" using o use by auto
  obtain t where t: "set_entry (array idx) i (Link (free_list idx)) = Inr t" "table_ok t"
    "\<And>j. allocated t j \<longleftrightarrow> 0 \<le> j \<and> j < chunks idx * 1024"
    "\<And>j. 0 \<le> j \<Longrightarrow> j < chunks idx * 1024 \<Longrightarrow> entry_at t j = (if j = i then Link (free_list idx) else entry_at (array idx) j)"
    "get_entry (array idx) i = Inr (entry_at (array idx) i)"
    using store_write[OF ok i(1,2)] by blast
  let ?idx = "idx\<lparr>array := t, free_list := i\<rparr>"
  have use': "in_use ?idx j = ((in_use idx)(i := None)) j" for j
    using i(1,2) by (auto simp: in_use_def t(4))
  have "idx_ok ?idx (i # fs)"
    unfolding idx_ok_def
  proof (intro conjI allI)
    have "free_chain t (free_list idx) fs = free_chain (array idx) (free_list idx) fs"
      using o nf by (intro free_chain_cong) (auto simp: t(4))
    then show "free_chain (array ?idx) (free_list ?idx) (i # fs)" using o i by (simp add: t(4))
    show "j \<in> set (i # fs) \<longleftrightarrow> 0 < j \<and> j < chunks ?idx * 1024 \<and> in_use ?idx j = None" for j
      using o i unfolding use' by auto
  qed (use o nf t in auto)
  moreover have "idx_remove i idx = Inr (p, ?idx)" using t i by (simp add: idx_remove_def)
  ultimately show thesis using that use' by (simp add: fun_eq_iff)
qed

lemma idx_replace_ok:
  assumes ok: "idx_ok idx fs" and use: "in_use idx i = Some p"
  obtains idx' where "idx_replace i q idx = Inr idx'" "idx_ok idx' fs" "in_use idx' = (in_use idx)(i \<mapsto> q)"
proof -
  note o = ok[unfolded idx_ok_def]
  have i: "0 < i" "i < chunks idx * 1024" using use by (auto simp: in_use_def split: if_splits)
  have nf: "i \<notin> set fs" using o use by auto
  obtain t where t: "set_entry (array idx) i (Item q) = Inr t" "table_ok t"
    "\<And>j. allocated t j \<longleftrightarrow> 0 \<le> j \<and> j < chunks idx * 1024"
    "\<And>j. 0 \<le> j \<Longrightarrow> j < chunks idx * 1024 \<Longrightarrow> entry_at t j = (if j = i then Item q else entry_at (array idx) j)"
    using store_write[OF ok i(1,2)] by blast
  let ?idx = "idx\<lparr>array := t\<rparr>"
  have use': "in_use ?idx j = ((in_use idx)(i \<mapsto> q)) j" for j
    using i(1,2) by (auto simp: in_use_def t(4))
  have "idx_ok ?idx fs"
    unfolding idx_ok_def
  proof (intro conjI allI)
    have "free_chain t (free_list idx) fs = free_chain (array idx) (free_list idx) fs"
      using o nf by (intro free_chain_cong) (auto simp: t(4))
    then show "free_chain (array ?idx) (free_list ?idx) fs" using o by simp
    show "j \<in> set fs \<longleftrightarrow> 0 < j \<and> j < chunks ?idx * 1024 \<and> in_use ?idx j = None" for j
      using o nf unfolding use' by auto
  qed (use o t in auto)
  then show thesis using that t(1) use' by (simp add: fun_eq_iff idx_replace_def)
qed

lemma idx_at_ok: "idx_ok idx fs \<Longrightarrow> in_use idx i = Some p \<Longrightarrow> idx_at i idx = Inr p"
  by (auto simp: in_use_def idx_ok_def idx_at_def get_entry_allocated split: if_splits idx_entry.splits)

section \<open>Operations of the map\<close>

definition idm_value :: "index_map \<Rightarrow> int \<Rightarrow> nat" where
  "idm_value t i = (if allocated t i then entry_at t i else 0)"

lemma idm_lookup_ok: "table_ok t \<Longrightarrow> 0 \<le> i \<Longrightarrow> idm_lookup i t = Inr (idm_value t i)"
  using get_entry_allocated[of t i]
  by (auto simp: idm_lookup_def idm_at_def idm_value_def allocated_def table_ok_def chunk_of_range)

lemma idm_grow_ok:
  assumes "table_ok t" "0 \<le> i" "i \<le> 65535" "\<not> allocated t i"
  obtains t' where "idm_grow True i t = (i, t')" "table_ok t'" "allocated t' i" "\<And>j. idm_value t' j = idm_value t j"
proof -
  let ?k = "nat (i div 1024)" let ?t = "t[?k := Some (replicate 1024 0)]"
  have t: "length t = 64" "?k < 64" "t ! ?k = None" using assms by (auto simp: table_ok_def allocated_def)
  have "idm_value ?t j = idm_value t j" for j
    using t by (cases "nat (j div 1024) = ?k") (auto simp: idm_value_def allocated_def entry_at_def nat_less_iff)
  moreover have "table_ok ?t" using assms(1) by (intro table_ok_update) auto
  ultimately show thesis
    using that[of ?t] t assms by (simp add: idm_grow_def idx_array_index_div allocated_def)
qed

lemma idm_set_entry:
  assumes "table_ok t" "allocated t i"
  obtains t' where "set_entry t i v = Inr t'" "table_ok t'" "idm_value t' = (idm_value t)(i := v)"
    "\<And>j. allocated t' j = allocated t j"
  using set_entry_allocated[OF assms, of v] assms(2) by (fastforce simp: idm_value_def fun_eq_iff)

lemma idm_set_ok:
  assumes t: "table_ok t" and i: "0 \<le> i" "i \<le> 65535"
  obtains r t' where "idm_set calloc_ok i p t = Inr (r, t')" "table_ok t'"
    "r = i \<and> allocated t' i \<and> idm_value t' = (idm_value t)(i := p) \<or>
     r = -1 \<and> \<not> calloc_ok \<and> \<not> allocated t i \<and> t' = t"
proof (cases "allocated t i")
  case True
  obtain t' where "set_entry t i p = Inr t'" "table_ok t'" "idm_value t' = (idm_value t)(i := p)" "allocated t' i"
    using idm_set_entry[OF t True] True by metis
  then show thesis
    using that[of i t'] True i t by (auto simp: idm_set_def chunk_of_range table_ok_def allocated_def)
next
  case False
  have n: "length t = 64" "t ! nat (i div 1024) = None" using False i t by (auto simp: allocated_def table_ok_def)
  show thesis
  proof (cases calloc_ok)
    case True
    obtain t1 where g: "idm_grow True i t = (i, t1)" "table_ok t1" "allocated t1 i" "\<And>j. idm_value t1 j = idm_value t j"
      using idm_grow_ok[OF t i False] by blast
    obtain t' where "set_entry t1 i p = Inr t'" "table_ok t'" "idm_value t' = (idm_value t1)(i := p)" "allocated t' i"
      using idm_set_entry[OF g(2,3)] g(3) by metis
    then show thesis
      using that[of i t'] True i n g by (auto simp: idm_set_def chunk_of_range fun_eq_iff)
  next
    case no: False
    have "t[nat (i div 1024) := None] = t" using n(2) by (metis list_update_id)
    then show thesis
      using that[of "-1" t] no i n t False by (auto simp: idm_set_def chunk_of_range idm_grow_def idx_array_index_div)
  qed
qed

lemma idm_clear_ok:
  assumes "table_ok t" "allocated t i"
  obtains t' where "idm_clear i t = Inr (idm_value t i, t')" "table_ok t'" "idm_value t' = (idm_value t)(i := 0)"
proof -
  obtain t' where "set_entry t i 0 = Inr t'" "table_ok t'" "idm_value t' = (idm_value t)(i := 0)"
    using idm_set_entry[OF assms] by blast
  then show thesis
    using that[of t'] get_entry_allocated[OF assms] assms(2) by (simp add: idm_clear_def idm_value_def)
qed

section \<open>Properties\<close>

text \<open>
  Property C31: the index store. Under its invariant an insertion never faults. It returns
  an index between 1 and 65535 that no stored item has, stores the item there and changes
  no other item; or it returns -1 and changes nothing, which happens only if every index
  of the store is in use and either the allocation failed or all 64 chunks exist. The
  empty store satisfies the invariant and each insertion keeps it.
\<close>

theorem idx_insert_correct:
  assumes "idx_ok idx fs"
  shows "\<exists>r idx' fs'. idx_insert calloc_ok item idx = Inr (r, idx') \<and> idx_ok idx' fs' \<and>
    (0 < r \<and> r \<le> idx_max_index \<and> in_use idx r = None \<and> in_use idx' = (in_use idx)(r \<mapsto> item) \<and> idx_at r idx' = Inr item \<or>
     r = -1 \<and> in_use idx' = in_use idx \<and> (\<not> calloc_ok \<or> chunks idx = 64) \<and>
       (\<forall>i. 0 < i \<and> i < chunks idx * int idx_entry_size \<longrightarrow> in_use idx i \<noteq> None))"
proof -
  obtain r idx' fs' where r: "idx_insert calloc_ok item idx = Inr (r, idx')" "idx_ok idx' fs'"
    "0 < r \<and> r \<le> 65535 \<and> in_use idx r = None \<and> in_use idx' = (in_use idx)(r \<mapsto> item) \<or>
     r = -1 \<and> in_use idx' = in_use idx \<and> (\<not> calloc_ok \<or> chunks idx = 64) \<and>
      (\<forall>i. 0 < i \<and> i < chunks idx * 1024 \<longrightarrow> in_use idx i \<noteq> None)"
    using idx_insert_ok[OF assms] by blast
  have "idx_at r idx' = Inr item" if "in_use idx' = (in_use idx)(r \<mapsto> item)" using idx_at_ok[OF r(2)] that by simp
  then show ?thesis using r by (intro exI[of _ r] exI[of _ idx'] exI[of _ fs']) auto
qed

theorem idx_insert_correct_witness:
  "\<exists>r idx'. idx_insert True 77 idx_empty = Inr (r, idx') \<and> 0 < r \<and> idx_at r idx' = Inr 77"
  using idx_insert_correct[OF idx_empty_ok, of True 77] by (auto simp: idx_empty_def)

text \<open>
  Removing an index in use returns its item and makes the index free, the next
  insertion reuses exactly this index, replacing changes the item in place, and all three
  keep the invariant and every other item.
\<close>

theorem idx_remove_replace_correct:
  assumes "idx_ok idx fs" "in_use idx i = Some p"
  shows "(\<exists>idx'. idx_remove i idx = Inr (p, idx') \<and> idx_ok idx' (i # fs) \<and> in_use idx' = (in_use idx)(i := None) \<and>
      (\<forall>calloc_ok q. \<exists>idx''. idx_insert calloc_ok q idx' = Inr (i, idx'') \<and> idx_ok idx'' fs \<and>
        in_use idx'' = (in_use idx)(i \<mapsto> q))) \<and>
    (\<forall>q. \<exists>idx'. idx_replace i q idx = Inr idx' \<and> idx_ok idx' fs \<and> in_use idx' = (in_use idx)(i \<mapsto> q))"
proof (intro conjI allI)
  obtain idx' where r: "idx_remove i idx = Inr (p, idx')" "idx_ok idx' (i # fs)"
    "in_use idx' = (in_use idx)(i := None)" "free_list idx' = i"
    by (rule idx_remove_ok[OF assms])
  have "i \<noteq> 0" using assms(2) by (auto simp: in_use_def)
  then have "\<exists>idx''. idx_insert calloc_ok q idx' = Inr (i, idx'') \<and> idx_ok idx'' fs \<and> in_use idx'' = (in_use idx)(i \<mapsto> q)"
    for calloc_ok q
    using take_free[OF r(2), of q] r(3,4) by (auto simp: idx_insert_def)
  then show "\<exists>idx'. idx_remove i idx = Inr (p, idx') \<and> idx_ok idx' (i # fs) \<and> in_use idx' = (in_use idx)(i := None) \<and>
      (\<forall>calloc_ok q. \<exists>idx''. idx_insert calloc_ok q idx' = Inr (i, idx'') \<and> idx_ok idx'' fs \<and>
        in_use idx'' = (in_use idx)(i \<mapsto> q))"
    using r by blast
  fix q
  obtain idx' where "idx_replace i q idx = Inr idx'" "idx_ok idx' fs" "in_use idx' = (in_use idx)(i \<mapsto> q)"
    by (rule idx_replace_ok[OF assms])
  then show "\<exists>idx'. idx_replace i q idx = Inr idx' \<and> idx_ok idx' fs \<and> in_use idx' = (in_use idx)(i \<mapsto> q)" by blast
qed

theorem idx_remove_replace_correct_witness:
  "\<exists>idx i idx' idx''. idx_insert True 77 idx_empty = Inr (i, idx) \<and> 0 < i \<and>
     idx_remove i idx = Inr (77, idx') \<and> idx_insert False 78 idx' = Inr (i, idx'') \<and> in_use idx'' i = Some 78"
proof -
  have "chunks idx_empty = 0" by (simp add: idx_empty_def)
  then obtain i idx fs where i: "idx_insert True 77 idx_empty = Inr (i, idx)" "idx_ok idx fs" "0 < i"
    "in_use idx = (in_use idx_empty)(i \<mapsto> 77)"
    using idx_insert_ok[OF idx_empty_ok, of True 77] by auto
  then have "in_use idx i = Some 77" by simp
  from idx_remove_replace_correct[OF i(2) this] obtain idx' idx'' where
    "idx_remove i idx = Inr (77, idx')" "idx_insert False 78 idx' = Inr (i, idx'')" "in_use idx'' = (in_use idx)(i \<mapsto> 78)"
    by blast
  then show ?thesis using i(1,3) by (intro exI[of _ idx] exI[of _ i] exI[of _ idx'] exI[of _ idx'']) simp
qed

text \<open>
  The index map. With a well-formed table and an index from 0 to 65535, setting
  an index either stores the item, so that a lookup of the index finds it and a lookup of
  any other index finds what it found before, or fails because the chunk was missing and
  could not be allocated, leaving the table as it was; larger indices are refused and looked up as
  null. Clearing a set index returns the item and leaves null.
\<close>

theorem idm_correct:
  assumes "table_ok t" "0 \<le> i" "i \<le> idx_max_index"
  shows "(\<exists>r t'. idm_set calloc_ok i p t = Inr (r, t') \<and> table_ok t' \<and>
     (r = i \<and> (\<forall>j\<ge>0. idm_lookup j t' = (if j = i then Inr p else idm_lookup j t)) \<and>
        (\<exists>t''. idm_clear i t' = Inr (p, t'') \<and> table_ok t'' \<and>
               (\<forall>j\<ge>0. idm_lookup j t'' = (if j = i then Inr 0 else idm_lookup j t))) \<or>
      r = -1 \<and> \<not> calloc_ok \<and> t' = t)) \<and>
    (\<forall>k. idx_max_index < k \<longrightarrow> idm_set calloc_ok k p t = Inr (-1, t) \<and> idm_lookup k t = Inr 0)"
proof (rule conjI)
  have i: "i \<le> 65535" using assms(3) by simp
  obtain r t' where r: "idm_set calloc_ok i p t = Inr (r, t')" "table_ok t'"
    "r = i \<and> allocated t' i \<and> idm_value t' = (idm_value t)(i := p) \<or> r = -1 \<and> \<not> calloc_ok \<and> \<not> allocated t i \<and> t' = t"
    by (rule idm_set_ok[OF assms(1,2) i])
  show "\<exists>r t'. idm_set calloc_ok i p t = Inr (r, t') \<and> table_ok t' \<and>
     (r = i \<and> (\<forall>j\<ge>0. idm_lookup j t' = (if j = i then Inr p else idm_lookup j t)) \<and>
        (\<exists>t''. idm_clear i t' = Inr (p, t'') \<and> table_ok t'' \<and>
               (\<forall>j\<ge>0. idm_lookup j t'' = (if j = i then Inr 0 else idm_lookup j t))) \<or>
      r = -1 \<and> \<not> calloc_ok \<and> t' = t)"
  proof (cases "r = i")
    case True
    then have v: "idm_value t' = (idm_value t)(i := p)" and al: "allocated t' i" using r(3) assms(2) by auto
    have l: "idm_lookup j t' = (if j = i then Inr p else idm_lookup j t)" if "0 \<le> j" for j
      using that assms(1) r(2) by (simp add: idm_lookup_ok v)
    obtain t'' where c: "idm_clear i t' = Inr (idm_value t' i, t'')" "table_ok t''" "idm_value t'' = (idm_value t')(i := 0)"
      using idm_clear_ok[OF r(2) al] by blast
    have "idm_lookup j t'' = (if j = i then Inr 0 else idm_lookup j t)" if "0 \<le> j" for j
      using that assms(1) c(2) by (simp add: idm_lookup_ok c(3) v)
    then show ?thesis using True r(1,2) l c(1,2) by (intro exI[of _ r] exI[of _ t']) (auto simp: v)
  next
    case False
    then show ?thesis using r by blast
  qed
  show "\<forall>k. idx_max_index < k \<longrightarrow> idm_set calloc_ok k p t = Inr (-1, t) \<and> idm_lookup k t = Inr 0"
    by (simp add: idm_set_def idm_lookup_def)
qed

theorem idm_correct_witness:
  "\<exists>t'. idm_set True 5 9 (replicate 64 None) = Inr (5, t') \<and> idm_lookup 5 t' = Inr 9 \<and> idm_lookup 6 t' = Inr 0"
proof -
  have "table_ok (replicate 64 None :: index_map)" by (simp add: table_ok_def)
  from idm_correct[OF this, of 5 True 9] idm_lookup_ok[OF this, of 6]
  show ?thesis by (auto simp: idm_value_def allocated_def)
qed

text \<open>
  The index map does not check for negative indices. A lookup of a negative
  index reads in front of the table, as setting one does.
\<close>

theorem idm_negative_out_of_bounds:
  assumes "i < 0"
  shows "idm_lookup i t = Inl OutOfBounds" "idm_set calloc_ok i p t = Inl OutOfBounds"
proof -
  have "i div 1024 < 0" using assms by simp
  then show "idm_lookup i t = Inl OutOfBounds" "idm_set calloc_ok i p t = Inl OutOfBounds"
    using assms by (simp_all add: idm_lookup_def idm_set_def chunk_of_def Let_def idx_array_index_div)
qed

theorem idm_negative_out_of_bounds_witness:
  "idm_lookup (-1) (replicate 64 None) = Inl OutOfBounds"
  by (rule idm_negative_out_of_bounds(1)) simp

end
