(* ===== verification/Crc32.thy ===== *)
theory Crc32
  imports Prelude
begin

text \<open>
  The checksum of the steering entries, \<open>providers/mlx5/dr_crc32.c\<close>: the eight lookup
  tables, filled by \<open>dr_crc32_init_table\<close>, and the calculation that takes eight bytes at a
  time. The calculation is proved equal to the checksum computed bit by bit. Words are
  read from the buffer in little-endian order.
\<close>

section \<open>The code\<close>

definition DR_STE_CRC_POLY :: u32 where
  "DR_STE_CRC_POLY = 0xEDB88320"

type_synonym crc_table = "u32 list list"

text \<open>The static tables, before the initialisation.\<close>

definition dr_ste_crc_tab32 :: crc_table where
  "dr_ste_crc_tab32 = replicate 8 (replicate 256 0)"

definition crc_bit :: "u32 \<Rightarrow> u32" where
  "crc_bit crc = (if crc AND 1 \<noteq> 0 then drop_bit 1 crc XOR DR_STE_CRC_POLY else drop_bit 1 crc)"

definition dr_crc32_calc_lookup_entry :: "nat \<Rightarrow> nat \<Rightarrow> crc_table \<Rightarrow> crc_table" where
  "dr_crc32_calc_lookup_entry i j tbl =
    (let prev = tbl ! (i - 1) ! j in
     tbl[i := (tbl ! i)[j := drop_bit 8 prev XOR tbl ! 0 ! unat (prev AND 0xff)]])"

definition dr_crc32_init_table :: "crc_table \<Rightarrow> crc_table" where
  "dr_crc32_init_table tbl =
    (let tbl = fold (\<lambda>i tbl.
           let crc = of_nat i; crc = (crc_bit ^^ 8) crc in tbl[0 := (tbl ! 0)[i := crc]]) [0..<256] tbl
     in fold (\<lambda>i tbl. fold (\<lambda>k. dr_crc32_calc_lookup_entry k i) [1..<8] tbl) [0..<256] tbl)"

definition byte_of :: "u32 \<Rightarrow> nat \<Rightarrow> nat" where
  "byte_of w n = unat (drop_bit n w AND 0xff)"

fun le32 :: "u8 list \<Rightarrow> u32" where
  "le32 [] = 0"
| "le32 (b # bs) = ucast b OR push_bit 8 (le32 bs)"

function crc_eight_loop :: "crc_table \<Rightarrow> u8 list \<Rightarrow> u32 \<Rightarrow> u32 \<times> u8 list" where
  "crc_eight_loop t data crc =
    (if length data \<ge> 8 then
       (let one = le32 (take 4 data) XOR crc; two = le32 (take 4 (drop 4 data));
            crc = t ! 0 ! byte_of two 24 XOR t ! 1 ! byte_of two 16 XOR
                  t ! 2 ! byte_of two 8 XOR t ! 3 ! byte_of two 0 XOR
                  t ! 4 ! byte_of one 24 XOR t ! 5 ! byte_of one 16 XOR
                  t ! 6 ! byte_of one 8 XOR t ! 7 ! byte_of one 0
        in crc_eight_loop t (drop 8 data) crc)
     else (crc, data))"
  by pat_completeness auto
termination by (relation "measure (\<lambda>(t, data, crc). length data)") auto

fun crc_byte_loop :: "crc_table \<Rightarrow> u8 list \<Rightarrow> u32 \<Rightarrow> u32" where
  "crc_byte_loop t [] crc = crc"
| "crc_byte_loop t (b # bs) crc =
    crc_byte_loop t bs (drop_bit 8 crc XOR t ! 0 ! unat ((crc AND 0xff) XOR ucast b))"

definition dr_crc32_slice8_calc :: "crc_table \<Rightarrow> u8 list option \<Rightarrow> u32" where
  "dr_crc32_slice8_calc t input_data =
    (case input_data of None \<Rightarrow> 0 | Some data \<Rightarrow>
      (let (crc, rest) = crc_eight_loop t data 0; crc = crc_byte_loop t rest crc in
       (drop_bit 24 crc AND 0xff) OR (push_bit 8 crc AND 0xff0000) OR
       (drop_bit 8 crc AND 0xff00) OR (push_bit 24 crc AND 0xff000000)))"

section \<open>The checksum bit by bit\<close>

text \<open>
  The reference: each byte is added into the low bits and shifted out bit by bit,
  reducing by the polynomial, as in polynomial division.
\<close>

definition crc_byte :: "u8 \<Rightarrow> u32 \<Rightarrow> u32" where
  "crc_byte b crc = (crc_bit ^^ 8) (crc XOR ucast b)"

definition crc_reference :: "u8 list \<Rightarrow> u32" where
  "crc_reference data = fold crc_byte data 0"

abbreviation crc8 :: "u32 \<Rightarrow> u32" where
  "crc8 \<equiv> crc_bit ^^ 8"

lemma crc_bit_xor: "crc_bit (x XOR y) = crc_bit x XOR crc_bit y"
proof -
  have odd: "w AND 1 \<noteq> 0 \<longleftrightarrow> odd w" for w :: u32 by (simp add: and_one_eq odd_iff_mod_2_eq_one)
  have "odd (x XOR y) \<longleftrightarrow> odd x \<noteq> odd y" by (simp add: even_xor_iff)
  then show ?thesis
    unfolding crc_bit_def odd by (auto simp: drop_bit_xor ac_simps)
qed

lemma crc_pow_xor: "(crc_bit ^^ n) (x XOR y) = (crc_bit ^^ n) x XOR (crc_bit ^^ n) y"
  by (induction n arbitrary: x y) (simp_all add: crc_bit_xor)

lemma crc_bit_shift:
  assumes "\<not> bit y 31"
  shows "crc_bit (push_bit 1 y) = y"
proof -
  have "push_bit 1 y AND (1 :: u32) = 0"
    by (simp add: and_one_eq even_iff_mod_2_eq_zero[symmetric])
  moreover have "drop_bit 1 (push_bit 1 y) = y"
  proof (rule bit_word_eqI)
    fix n assume "n < LENGTH(32)"
    then have "n = 31 \<or> Suc n < 32" by auto
    moreover have "bit (drop_bit 1 (push_bit 1 y)) n \<longleftrightarrow> Suc n < 32 \<and> bit y n"
      unfolding bit_drop_bit_eq comp_apply bit_push_bit_iff by simp
    ultimately show "bit (drop_bit 1 (push_bit 1 y)) n \<longleftrightarrow> bit y n" using assms by auto
  qed
  ultimately show ?thesis by (simp add: crc_bit_def)
qed

lemma crc_pow_shift:
  assumes "\<And>m. m < n \<Longrightarrow> \<not> bit y (31 - m)" "n \<le> 31"
  shows "(crc_bit ^^ n) (push_bit n y) = y"
  using assms
proof (induction n)
  case (Suc n)
  have "push_bit (Suc n) y = push_bit 1 (push_bit n y)" by (simp add: push_bit_push_bit)
  moreover have "\<not> bit (push_bit n y) 31"
    using Suc.prems(1)[of n] by (simp add: bit_simps)
  ultimately have "crc_bit (push_bit (Suc n) y) = push_bit n y" by (metis crc_bit_shift)
  then show ?case using Suc by (simp add: funpow_Suc_right del: funpow.simps)
qed simp


lemma crc8_shift: "(\<And>n. 24 \<le> n \<Longrightarrow> \<not> bit w n) \<Longrightarrow> crc8 (push_bit 8 w) = w"
  by (rule crc_pow_shift) simp_all

lemma crc8_byte: "crc8 w = drop_bit 8 w XOR crc8 (w AND 0xff)"
proof -
  have "w = push_bit 8 (drop_bit 8 w) XOR (w AND mask 8)"
    by (rule bit_word_eqI) (auto simp: bit_simps)
  then have "crc8 w = crc8 (push_bit 8 (drop_bit 8 w)) XOR crc8 (w AND mask 8)"
    by (metis crc_pow_xor)
  moreover have "\<not> bit (drop_bit 8 w) n" if "24 \<le> n" for n
    using that by (auto simp: bit_simps dest: bit_imp_le_length)
  ultimately show ?thesis by (simp add: crc8_shift mask_eq_exp_minus_1)
qed

text \<open>The four bytes of a word pass through the checksum separately.\<close>

lemma crc_pow8_xor: "(crc8 ^^ n) (x XOR y) = (crc8 ^^ n) x XOR (crc8 ^^ n) y"
  by (induction n arbitrary: x y) (simp_all add: crc_pow_xor)

lemma crc_pow8_byte: "(crc8 ^^ Suc n) w = (crc8 ^^ Suc n) (w AND 0xff) XOR (crc8 ^^ n) (drop_bit 8 w)"
proof -
  have "(crc8 ^^ Suc n) w = (crc8 ^^ n) (crc8 (w AND 0xff) XOR drop_bit 8 w)"
    by (subst crc8_byte) (simp add: funpow_swap1 xor.commute crc8_byte[symmetric])
  then show ?thesis by (simp add: crc_pow8_xor funpow_swap1)
qed

lemma crc_word:
  "(crc8 ^^ (m + 4)) w =
     (crc8 ^^ (m + 1)) (drop_bit 24 w AND 0xff) XOR (crc8 ^^ (m + 2)) (drop_bit 16 w AND 0xff) XOR
     (crc8 ^^ (m + 3)) (drop_bit 8 w AND 0xff) XOR (crc8 ^^ (m + 4)) (w AND 0xff)"
proof -
  have z: "drop_bit 32 w = 0" by (rule bit_word_eqI) (auto simp: bit_simps dest: bit_imp_le_length)
  have "(crc8 ^^ n) 0 = 0" for n using crc_pow8_xor[of n 0 0] by simp
  then show ?thesis
    using crc_pow8_byte[of "m + 3" w] crc_pow8_byte[of "m + 2" "drop_bit 8 w"]
      crc_pow8_byte[of "m + 1" "drop_bit 16 w"] crc_pow8_byte[of m "drop_bit 24 w"]
    by (simp add: drop_bit_drop_bit z ac_simps numeral_eq_Suc del: funpow.simps)
qed


text \<open>Four bytes at once: reading them as a word.\<close>

lemma le32_high: "8 * length bs \<le> n \<Longrightarrow> \<not> bit (le32 bs) n"
  by (induction bs arbitrary: n) (auto simp: bit_simps dest: bit_imp_le_length)

lemma le32_Cons: "le32 (b # bs) = ucast b XOR push_bit 8 (le32 bs)"
  by (rule bit_word_eqI) (auto simp: bit_simps dest: bit_imp_le_length)

lemma crc_bytes_word: "length bs \<le> 4 \<Longrightarrow> fold crc_byte bs c = (crc8 ^^ length bs) (c XOR le32 bs)"
proof (induction bs arbitrary: c)
  case (Cons b bs)
  have "crc8 (c XOR le32 (b # bs)) = crc8 (c XOR ucast b) XOR crc8 (push_bit 8 (le32 bs))"
    by (simp only: le32_Cons xor.assoc[symmetric] crc_pow_xor)
  also have "crc8 (push_bit 8 (le32 bs)) = le32 bs"
    using Cons.prems by (intro crc8_shift le32_high) simp
  finally have "crc_byte b c XOR le32 bs = crc8 (c XOR le32 (b # bs))" unfolding crc_byte_def by simp
  moreover have "fold crc_byte bs (crc_byte b c) = (crc8 ^^ length bs) (crc_byte b c XOR le32 bs)"
    using Cons.prems by (intro Cons.IH) simp
  ultimately have "fold crc_byte (b # bs) c = (crc8 ^^ length bs) (crc8 (c XOR le32 (b # bs)))" by simp
  then show ?case by (simp add: funpow_swap1)
qed simp

lemma crc_eight_bytes:
  assumes "8 \<le> length data"
  shows "fold crc_byte (take 8 data) c =
    (crc8 ^^ 8) (le32 (take 4 data) XOR c) XOR (crc8 ^^ 4) (le32 (take 4 (drop 4 data)))"
proof -
  let ?a = "take 4 data" and ?b = "take 4 (drop 4 data)"
  have "take 8 data = ?a @ ?b" using take_add[of 4 4 data] by simp
  then have "fold crc_byte (take 8 data) c = fold crc_byte ?b (fold crc_byte ?a c)" by simp
  also have "\<dots> = (crc8 ^^ 4) ((crc8 ^^ 4) (c XOR le32 ?a) XOR le32 ?b)"
    using assms crc_bytes_word[of ?a c] crc_bytes_word[of ?b] by simp
  also have "\<dots> = (crc8 ^^ 4) ((crc8 ^^ 4) (c XOR le32 ?a)) XOR (crc8 ^^ 4) (le32 ?b)"
    by (rule crc_pow8_xor)
  also have "(crc8 ^^ 4) ((crc8 ^^ 4) (c XOR le32 ?a)) = (crc8 ^^ (4 + 4)) (c XOR le32 ?a)"
    unfolding funpow_add comp_apply ..
  finally show ?thesis by (simp add: xor.commute)
qed

section \<open>The tables\<close>

definition shaped :: "crc_table \<Rightarrow> bool" where
  "shaped t \<longleftrightarrow> length t = 8 \<and> (\<forall>k<8. length (t ! k) = 256)"

definition column_ok :: "crc_table \<Rightarrow> nat \<Rightarrow> nat \<Rightarrow> bool" where
  "column_ok t k j \<longleftrightarrow> t ! k ! j = (crc8 ^^ Suc k) (of_nat j)"

lemma shaped_update: "shaped t \<Longrightarrow> shaped (t[k := (t ! k)[j := v]])"
  by (cases "k < 8") (auto simp: shaped_def nth_list_update)

lemma update_at: "shaped t \<Longrightarrow> k < 8 \<Longrightarrow> j < 256 \<Longrightarrow>
    t[k := (t ! k)[j := v]] ! k' ! j' = (if k' = k \<and> j' = j then v else t ! k' ! j')"
  by (auto simp: shaped_def nth_list_update)

lemma first_row:
  assumes "shaped t" "n \<le> 256"
  defines "t' \<equiv> fold (\<lambda>i tbl. let crc = of_nat i; crc = (crc_bit ^^ 8) crc in tbl[0 := (tbl ! 0)[i := crc]]) [0..<n] t"
  shows "shaped t' \<and> (\<forall>j<n. column_ok t' 0 j)"
  using assms(2) unfolding t'_def
proof (induction n)
  case (Suc n)
  then show ?case by (simp add: Let_def shaped_update column_ok_def update_at)
qed (simp add: assms(1))

lemma lookup_entry:
  assumes t: "shaped t" "\<forall>j<256. column_ok t 0 j" "1 \<le> k" "k < 8" "j < 256" "column_ok t (k - 1) j"
  defines "t' \<equiv> dr_crc32_calc_lookup_entry k j t"
  shows "shaped t' \<and> column_ok t' k j \<and> (\<forall>k' j'. (k', j') \<noteq> (k, j) \<longrightarrow> t' ! k' ! j' = t ! k' ! j')"
proof -
  let ?w = "t ! (k - 1) ! j"
  have b: "unat (?w AND 0xff) < 256"
    using and_mask_less'[of 8 ?w] by (simp add: word_less_nat_alt mask_eq_exp_minus_1)
  have "drop_bit 8 ?w XOR t ! 0 ! unat (?w AND 0xff) = crc8 ?w"
    using t(2) b using crc8_byte[of ?w] by (simp add: column_ok_def of_nat_unat)
  also have "\<dots> = (crc8 ^^ Suc k) (of_nat j)" using t(3,6) by (cases k) (simp_all add: column_ok_def)
  finally show ?thesis
    using t by (simp add: t'_def dr_crc32_calc_lookup_entry_def Let_def shaped_update column_ok_def update_at)
qed


lemma lookup_column:
  assumes "shaped t" "\<forall>j<256. column_ok t 0 j" "m \<le> 7" "j < 256"
  defines "t' \<equiv> fold (\<lambda>k. dr_crc32_calc_lookup_entry k j) [1..<Suc m] t"
  shows "shaped t' \<and> (\<forall>k\<le>m. column_ok t' k j) \<and> (\<forall>k' j'. (k' = 0 \<or> j' \<noteq> j) \<longrightarrow> t' ! k' ! j' = t ! k' ! j')"
  using assms(3) unfolding t'_def
proof (induction m)
  case 0
  then show ?case using assms(1,2,4) by simp
next
  case (Suc m)
  let ?t = "fold (\<lambda>k. dr_crc32_calc_lookup_entry k j) [1..<Suc m] t"
  have ih: "shaped ?t" "\<forall>k\<le>m. column_ok ?t k j" "\<And>k' j'. k' = 0 \<or> j' \<noteq> j \<Longrightarrow> ?t ! k' ! j' = t ! k' ! j'"
    using Suc by auto
  have "\<forall>j<256. column_ok ?t 0 j" using assms(2) ih(3) by (simp add: column_ok_def)
  then have e: "shaped (dr_crc32_calc_lookup_entry (Suc m) j ?t)" "column_ok (dr_crc32_calc_lookup_entry (Suc m) j ?t) (Suc m) j"
    "\<And>k' j'. (k', j') \<noteq> (Suc m, j) \<Longrightarrow> dr_crc32_calc_lookup_entry (Suc m) j ?t ! k' ! j' = ?t ! k' ! j'"
    using lookup_entry[where t = ?t and k = "Suc m" and j = j] ih Suc.prems assms(4) by auto
  have f: "fold (\<lambda>k. dr_crc32_calc_lookup_entry k j) [1..<Suc (Suc m)] t = dr_crc32_calc_lookup_entry (Suc m) j ?t" by simp
  show ?case unfolding f
  proof (intro conjI allI impI)
    fix k assume "k \<le> Suc m"
    then show "column_ok (dr_crc32_calc_lookup_entry (Suc m) j ?t) k j"
      using e(2) e(3)[of k j] ih(2) by (cases "k = Suc m") (auto simp: column_ok_def)
  qed (use e ih in auto)
qed

lemma lookup_rows:
  assumes "shaped t" "\<forall>j<256. column_ok t 0 j" "n \<le> 256"
  defines "t' \<equiv> fold (\<lambda>i tbl. fold (\<lambda>k. dr_crc32_calc_lookup_entry k i) [1..<8] tbl) [0..<n] t"
  shows "shaped t' \<and> (\<forall>j<256. column_ok t' 0 j) \<and> (\<forall>k<8. \<forall>j<n. column_ok t' k j)"
  using assms(3) unfolding t'_def
proof (induction n)
  case 0
  then show ?case using assms(1,2) by simp
next
  case (Suc n)
  let ?t = "fold (\<lambda>i tbl. fold (\<lambda>k. dr_crc32_calc_lookup_entry k i) [1..<8] tbl) [0..<n] t"
  let ?u = "fold (\<lambda>k. dr_crc32_calc_lookup_entry k n) [1..<Suc 7] ?t"
  have ih: "shaped ?t" "\<forall>j<256. column_ok ?t 0 j" "\<forall>k<8. \<forall>j<n. column_ok ?t k j" using Suc by auto
  have u: "shaped ?u" "\<And>k. k \<le> 7 \<Longrightarrow> column_ok ?u k n" "\<And>k' j'. k' = 0 \<or> j' \<noteq> n \<Longrightarrow> ?u ! k' ! j' = ?t ! k' ! j'"
    using lookup_column[OF ih(1,2), of 7 n] Suc.prems by auto
  have "column_ok ?u 0 j" if "j < 256" for j using ih(2) u(3)[of 0 j] that by (simp add: column_ok_def)
  moreover have "column_ok ?u k j" if "k < 8" "j < Suc n" for k j
    using u(2)[of k] u(3)[of k j] ih(3) that by (cases "j = n") (auto simp: column_ok_def)
  moreover have "[0..<Suc n] = [0..<n] @ [n]" "[1..<8] = [1..<Suc 7]" by simp_all
  ultimately show ?case using u(1) by (simp del: upt_Suc)
qed

lemma init_table_ok:
  assumes "shaped t"
  shows "shaped (dr_crc32_init_table t)" "k < 8 \<Longrightarrow> j < 256 \<Longrightarrow> dr_crc32_init_table t ! k ! j = (crc8 ^^ Suc k) (of_nat j)"
  using lookup_rows[of _ 256] first_row[OF assms, of 256]
  unfolding dr_crc32_init_table_def Let_def by (auto simp: column_ok_def)

section \<open>The calculation\<close>

lemma table_byte:
  assumes "shaped t" "k < 8"
  shows "dr_crc32_init_table t ! k ! byte_of w n = (crc8 ^^ Suc k) (drop_bit n w AND 0xff)"
proof -
  have "byte_of w n < 256"
    using and_mask_less'[of 8 "drop_bit n w"] by (simp add: byte_of_def word_less_nat_alt mask_eq_exp_minus_1)
  then show ?thesis using init_table_ok(2)[OF assms] by (simp add: byte_of_def of_nat_unat)
qed

lemma eight_step:
  assumes "shaped t"
  shows "(let one = le32 a XOR crc; two = le32 b; t = dr_crc32_init_table t in
      t ! 0 ! byte_of two 24 XOR t ! 1 ! byte_of two 16 XOR t ! 2 ! byte_of two 8 XOR t ! 3 ! byte_of two 0 XOR
      t ! 4 ! byte_of one 24 XOR t ! 5 ! byte_of one 16 XOR t ! 6 ! byte_of one 8 XOR t ! 7 ! byte_of one 0)
    = (crc8 ^^ 8) (le32 a XOR crc) XOR (crc8 ^^ 4) (le32 b)"
  using crc_word[of 4 "le32 a XOR crc"] crc_word[of 0 "le32 b"] table_byte[OF assms]
  by (simp add: Let_def numeral_eq_Suc ac_simps del: funpow.simps)


declare crc_eight_loop.simps [simp del]

lemma eight_loop:
  assumes "shaped t"
  shows "(case crc_eight_loop (dr_crc32_init_table t) data c of (crc, rest) \<Rightarrow> fold crc_byte rest crc) = fold crc_byte data c"
proof (induction "dr_crc32_init_table t" data c rule: crc_eight_loop.induct)
  case (1 data c)
  show ?case
  proof (cases "8 \<le> length data")
    case True
    let ?c = "fold crc_byte (take 8 data) c"
    have step: "crc_eight_loop (dr_crc32_init_table t) data c = crc_eight_loop (dr_crc32_init_table t) (drop 8 data) ?c"
      using True eight_step[OF assms, of "take 4 data" c "take 4 (drop 4 data)"] crc_eight_bytes[OF True, of c]
      by (subst crc_eight_loop.simps) (simp add: Let_def)
    have "(case crc_eight_loop (dr_crc32_init_table t) (drop 8 data) ?c of (crc, rest) \<Rightarrow> fold crc_byte rest crc)
        = fold crc_byte (drop 8 data) ?c"
      using 1[OF True refl refl refl] eight_step[OF assms, of "take 4 data" c "take 4 (drop 4 data)"] crc_eight_bytes[OF True, of c]
      by (simp add: Let_def)
    also have "\<dots> = fold crc_byte data c" by (metis append_take_drop_id comp_apply fold_append)
    finally show ?thesis unfolding step .
  next
    case False
    then show ?thesis by (subst crc_eight_loop.simps) simp
  qed
qed

lemma byte_loop:
  assumes "shaped t"
  shows "crc_byte_loop (dr_crc32_init_table t) bs c = fold crc_byte bs c"
proof (induction bs arbitrary: c)
  case (Cons b bs)
  let ?x = "c XOR ucast b"
  have "(c AND 0xff) XOR ucast b = ?x AND mask 8" "drop_bit 8 ?x = drop_bit 8 c"
    using mask_eq_exp_minus_1[of 8, where ?'a = u32]
    by (simp_all add: bit_eq_iff) (auto simp: bit_simps dest: bit_imp_le_length)
  moreover have "dr_crc32_init_table t ! 0 ! byte_of ?x 0 = crc8 (?x AND 0xff)"
    using table_byte[OF assms, of 0 ?x 0] by simp
  ultimately have "drop_bit 8 c XOR dr_crc32_init_table t ! 0 ! unat ((c AND 0xff) XOR ucast b) = crc_byte b c"
    using crc8_byte[of ?x] by (simp add: crc_byte_def byte_of_def mask_eq_exp_minus_1)
  then show ?case using Cons by simp
qed simp

definition swap32 :: "u32 \<Rightarrow> u32" where
  "swap32 crc = (drop_bit 24 crc AND 0xff) OR (push_bit 8 crc AND 0xff0000) OR
       (drop_bit 8 crc AND 0xff00) OR (push_bit 24 crc AND 0xff000000)"

lemma byte_masks:
  "0xff = (mask 8 :: u32)" "0xff00 = (push_bit 8 (mask 8) :: u32)" "0xff0000 = (push_bit 16 (mask 8) :: u32)"
  "0xff000000 = (push_bit 24 (mask 8) :: u32)"
  by (simp_all add: mask_eq_exp_minus_1)

lemma bit_swap32:
  assumes "n < 32"
  shows "bit (swap32 w) n \<longleftrightarrow>
    (if n < 8 then bit w (n + 24) else if n < 16 then bit w (n + 8) else if n < 24 then bit w (n - 8) else bit w (n - 24))"
proof -
  have "bit (swap32 w) n \<longleftrightarrow> bit w (24 + n) \<and> n < 8 \<or> 8 \<le> n \<and> bit w (n - 8) \<and> 16 \<le> n \<and> n - 16 < 8 \<or>
      bit w (8 + n) \<and> 8 \<le> n \<and> n - 8 < 8 \<or> 24 \<le> n \<and> bit w (n - 24) \<and> n - 24 < 8"
    using assms unfolding swap32_def byte_masks bit_or_iff bit_and_iff bit_drop_bit_eq bit_push_bit_iff bit_mask_iff comp_apply
    by auto
  also have "\<dots> \<longleftrightarrow>
    (if n < 8 then bit w (n + 24) else if n < 16 then bit w (n + 8) else if n < 24 then bit w (n - 8) else bit w (n - 24))"
    using assms by (auto simp: add.commute)
  finally show ?thesis .
qed

lemma swap32_bytes:
  assumes "i < 4"
  shows "byte_of (swap32 w) (8 * i) = byte_of w (24 - 8 * i)"
proof -
  have "bit (drop_bit (8 * i) (swap32 w) AND mask 8) n \<longleftrightarrow> bit (drop_bit (24 - 8 * i) w AND mask 8) n" for n
  proof (cases "n < 8")
    case True
    have "bit (swap32 w) (8 * i + n) \<longleftrightarrow> bit w (24 - 8 * i + n)"
    proof -
      consider "i = 0" | "i = 1" | "i = 2" | "i = 3" using assms by linarith
      then show ?thesis using True by cases (simp_all add: bit_swap32 add.commute)
    qed
    then show ?thesis using True by (simp add: bit_and_iff bit_drop_bit_eq)
  qed (simp add: bit_and_iff bit_mask_iff)
  then have "drop_bit (8 * i) (swap32 w) AND mask 8 = drop_bit (24 - 8 * i) w AND mask 8"
    by (simp add: bit_eq_iff)
  then show ?thesis by (simp add: byte_of_def byte_masks(1))
qed

lemma calc_reference: "shaped t \<Longrightarrow> dr_crc32_slice8_calc (dr_crc32_init_table t) (Some data) = swap32 (crc_reference data)"
  using eight_loop[of t data 0] byte_loop[of t]
  by (simp add: dr_crc32_slice8_calc_def swap32_def crc_reference_def Let_def split: prod.splits)

section \<open>Properties\<close>

text \<open>
  Property C30: the sliced checksum equals the checksum bit by bit. With the tables that
  the initialisation computes, the checksum of any buffer has, in reverse byte order, the
  four bytes of the remainder that the bitwise division of the buffer by the CRC-32
  polynomial leaves; without a buffer it is 0.
\<close>

theorem crc32_slicing_equals_bitwise:
  assumes "shaped t"
  shows "(\<forall>i<4. byte_of (dr_crc32_slice8_calc (dr_crc32_init_table t) (Some data)) (8 * i) =
      byte_of (fold (\<lambda>b crc. (crc_bit ^^ 8) (crc XOR ucast b)) data 0) (24 - 8 * i)) \<and>
    dr_crc32_slice8_calc (dr_crc32_init_table t) None = 0"
proof -
  have "fold (\<lambda>b crc. (crc_bit ^^ 8) (crc XOR ucast b)) data 0 = crc_reference data"
    by (simp add: crc_reference_def crc_byte_def[abs_def])
  then show ?thesis
    using calc_reference[OF assms] swap32_bytes by (simp add: dr_crc32_slice8_calc_def)
qed

theorem crc32_slicing_equals_bitwise_witness:
  "byte_of (dr_crc32_slice8_calc (dr_crc32_init_table dr_ste_crc_tab32) (Some [0x80])) 0 = 0xED"
proof -
  have "shaped dr_ste_crc_tab32" by (simp add: shaped_def dr_ste_crc_tab32_def)
  moreover have "crc8 0x80 = 0xEDB88320"
  proof -
    have "(crc_bit ^^ Suc 7) (push_bit 7 1) = crc_bit ((crc_bit ^^ 7) (push_bit 7 1))" by (simp only: funpow.simps comp_apply)
    also have "(crc_bit ^^ 7) (push_bit 7 1) = (1 :: u32)" by (rule crc_pow_shift) (simp_all add: bit_1_iff)
    also have "crc_bit 1 = 0xEDB88320" by (simp add: crc_bit_def DR_STE_CRC_POLY_def)
    finally show ?thesis by simp
  qed
  ultimately show ?thesis
    using crc32_slicing_equals_bitwise[of dr_ste_crc_tab32 "[0x80]", THEN conjunct1, rule_format, of 0] by (simp add: byte_of_def)
qed

end
