(* ===== verification/Bitmap.thy ===== *)
theory Bitmap
  imports Prelude
begin

text \<open>
  The bitmaps of \<open>ccan/bitmap.h\<close> and \<open>ccan/bitmap.c\<close>: lists of 64-bit words whose bits are
  numbered from the most significant one. Bit numbers are natural numbers; they stay far
  below the range of \<open>unsigned long\<close>, since a bitmap has to fit into memory. An access
  outside the words of a bitmap is a fault.
\<close>

section \<open>Words and bits\<close>

type_synonym bitmap = "u64 list"

definition BITMAP_WORD_BITS :: nat where
  "BITMAP_WORD_BITS = 64"

definition BITMAP_NWORDS :: "nat \<Rightarrow> nat" where
  "BITMAP_NWORDS n = (n + BITMAP_WORD_BITS - 1) div BITMAP_WORD_BITS"

definition BITMAP_WORD :: "bitmap \<Rightarrow> nat \<Rightarrow> fault + u64" where
  "BITMAP_WORD bmap n =
    (if n div BITMAP_WORD_BITS < length bmap then Inr (bmap ! (n div BITMAP_WORD_BITS)) else Inl OutOfBounds)"

definition set_BITMAP_WORD :: "bitmap \<Rightarrow> nat \<Rightarrow> (u64 \<Rightarrow> u64) \<Rightarrow> fault + bitmap" where
  "set_BITMAP_WORD bmap n f =
    bindE (BITMAP_WORD bmap n) (\<lambda>w. Inr (bmap[n div BITMAP_WORD_BITS := f w]))"

definition BITMAP_WORDBIT :: "nat \<Rightarrow> u64" where
  "BITMAP_WORDBIT n = push_bit (BITMAP_WORD_BITS - (n mod BITMAP_WORD_BITS) - 1) 1"

definition bitmap_set_bit :: "bitmap \<Rightarrow> nat \<Rightarrow> fault + bitmap" where
  "bitmap_set_bit bmap n = set_BITMAP_WORD bmap n (\<lambda>w. w OR BITMAP_WORDBIT n)"

definition bitmap_clear_bit :: "bitmap \<Rightarrow> nat \<Rightarrow> fault + bitmap" where
  "bitmap_clear_bit bmap n = set_BITMAP_WORD bmap n (\<lambda>w. w AND NOT (BITMAP_WORDBIT n))"

definition bitmap_change_bit :: "bitmap \<Rightarrow> nat \<Rightarrow> fault + bitmap" where
  "bitmap_change_bit bmap n = set_BITMAP_WORD bmap n (\<lambda>w. w XOR BITMAP_WORDBIT n)"

definition bitmap_test_bit :: "bitmap \<Rightarrow> nat \<Rightarrow> fault + bool" where
  "bitmap_test_bit bmap n = bindE (BITMAP_WORD bmap n) (\<lambda>w. Inr (w AND BITMAP_WORDBIT n \<noteq> 0))"

text \<open>A fresh bitmap of zeros, where the allocation succeeds.\<close>

definition bitmap_alloc0 :: "nat \<Rightarrow> bitmap" where
  "bitmap_alloc0 nbits = replicate (BITMAP_NWORDS nbits) 0"

section \<open>Searching\<close>

text \<open>Clearing the low bits of a bit number rounds it down to a multiple of the word size.\<close>

definition BIT_ALIGN_DOWN :: "nat \<Rightarrow> nat" where
  "BIT_ALIGN_DOWN n = n div BITMAP_WORD_BITS * BITMAP_WORD_BITS"

definition BIT_ALIGN_UP :: "nat \<Rightarrow> nat" where
  "BIT_ALIGN_UP n = BIT_ALIGN_DOWN (n + BITMAP_WORD_BITS - 1)"

definition headmask :: "nat \<Rightarrow> u64" where
  "headmask n = drop_bit (n mod BITMAP_WORD_BITS) (-1)"

definition tailmask :: "nat \<Rightarrow> u64" where
  "tailmask m = NOT (drop_bit (m mod BITMAP_WORD_BITS) (-1))"

text \<open>The word counted by the loop has a bit; without one the loop would not end.\<close>

function bitmap_clz_loop :: "u64 \<Rightarrow> nat \<Rightarrow> u64 \<Rightarrow> fault + nat" where
  "bitmap_clz_loop w lz m =
    (if w AND m \<noteq> 0 then Inr lz
     else if m = 0 then Inl Diverges
     else bitmap_clz_loop w (lz + 1) (drop_bit 1 m))"
  by pat_completeness auto
termination
  by (relation "measure (\<lambda>(w, lz, m). unat m)") (auto simp: unat_drop_bit_eq drop_bit_nat_def unat_gt_0)

definition bitmap_clz :: "u64 \<Rightarrow> fault + nat" where
  "bitmap_clz w = bitmap_clz_loop w 0 (push_bit (BITMAP_WORD_BITS - 1) 1)"

text \<open>One word of a search: the position of its first bit after the given base, if it has one.\<close>

definition ffs_word :: "nat \<Rightarrow> u64 \<Rightarrow> fault + nat option" where
  "ffs_word base w = (if w \<noteq> 0 then map_sum id (\<lambda>k. Some (base + k)) (bitmap_clz w) else Inr None)"

function ffs_words :: "bitmap \<Rightarrow> nat \<Rightarrow> nat \<Rightarrow> fault + nat option" where
  "ffs_words bmap an am =
    (if an < am then
       bindE (BITMAP_WORD bmap an) (\<lambda>w. bindE (ffs_word an w) (\<lambda>r.
         case r of Some i \<Rightarrow> Inr (Some i) | None \<Rightarrow> ffs_words bmap (an + BITMAP_WORD_BITS) am))
     else Inr None)"
  by pat_completeness auto
termination by (relation "measure (\<lambda>(b, an, am). am - an)") (auto simp: BITMAP_WORD_BITS_def)

definition bitmap_ffs :: "bitmap \<Rightarrow> nat \<Rightarrow> nat \<Rightarrow> fault + nat" where
  "bitmap_ffs bmap n m =
    (let an = BIT_ALIGN_UP n; am = BIT_ALIGN_DOWN m in
     if \<not> m \<ge> n then Inl AssertFailed
     else if am < an then
       bindE (BITMAP_WORD bmap n) (\<lambda>w.
       bindE (ffs_word am (w AND (headmask n AND tailmask m))) (\<lambda>r.
       Inr (case r of Some i \<Rightarrow> i | None \<Rightarrow> m)))
     else
       bindE (if an > n then bindE (BITMAP_WORD bmap n) (\<lambda>w. ffs_word (BIT_ALIGN_DOWN n) (w AND headmask n))
              else Inr None) (\<lambda>r.
       case r of Some i \<Rightarrow> Inr i | None \<Rightarrow>
       bindE (ffs_words bmap an am) (\<lambda>r.
       case r of Some i \<Rightarrow> Inr i | None \<Rightarrow>
       bindE (if m > am then bindE (BITMAP_WORD bmap m) (\<lambda>w. ffs_word am (w AND tailmask m)) else Inr None) (\<lambda>r.
       Inr (case r of Some i \<Rightarrow> i | None \<Rightarrow> m)))))"

section \<open>Ranges\<close>

text \<open>\<open>memset\<close> over whole words.\<close>

definition memset_words :: "bitmap \<Rightarrow> nat \<Rightarrow> nat \<Rightarrow> u64 \<Rightarrow> fault + bitmap" where
  "memset_words bmap start count v =
    (if start + count \<le> length bmap then Inr (take start bmap @ replicate count v @ drop (start + count) bmap)
     else Inl OutOfBounds)"

definition bitmap_zero_range :: "bitmap \<Rightarrow> nat \<Rightarrow> nat \<Rightarrow> fault + bitmap" where
  "bitmap_zero_range bmap n m =
    (let an = BIT_ALIGN_UP n; am = BIT_ALIGN_DOWN m in
     if \<not> m \<ge> n then Inl AssertFailed
     else if am < an then set_BITMAP_WORD bmap n (\<lambda>w. w AND NOT (headmask n AND tailmask m))
     else
       bindE (if an > n then set_BITMAP_WORD bmap n (\<lambda>w. w AND NOT (headmask n)) else Inr bmap) (\<lambda>bmap.
       bindE (if am > an then memset_words bmap (an div BITMAP_WORD_BITS) ((am - an) div BITMAP_WORD_BITS) 0 else Inr bmap) (\<lambda>bmap.
       if m > am then set_BITMAP_WORD bmap m (\<lambda>w. w AND NOT (tailmask m)) else Inr bmap)))"

definition bitmap_fill_range :: "bitmap \<Rightarrow> nat \<Rightarrow> nat \<Rightarrow> fault + bitmap" where
  "bitmap_fill_range bmap n m =
    (let an = BIT_ALIGN_UP n; am = BIT_ALIGN_DOWN m in
     if \<not> m \<ge> n then Inl AssertFailed
     else if am < an then set_BITMAP_WORD bmap n (\<lambda>w. w OR (headmask n AND tailmask m))
     else
       bindE (if an > n then set_BITMAP_WORD bmap n (\<lambda>w. w OR headmask n) else Inr bmap) (\<lambda>bmap.
       bindE (if am > an then memset_words bmap (an div BITMAP_WORD_BITS) ((am - an) div BITMAP_WORD_BITS) (-1) else Inr bmap) (\<lambda>bmap.
       if m > am then set_BITMAP_WORD bmap m (\<lambda>w. w OR tailmask m) else Inr bmap)))"

section \<open>Bitmaps as sets\<close>

lemma word_bits [simp]: "BITMAP_WORD_BITS = 64"
  by (simp add: BITMAP_WORD_BITS_def)

text \<open>Bit \<open>k\<close> of a word, counted from the most significant one.\<close>

definition wbit :: "u64 \<Rightarrow> nat \<Rightarrow> bool" where
  "wbit w k \<longleftrightarrow> bit w (63 - k)"

definition bits_of :: "bitmap \<Rightarrow> nat set" where
  "bits_of b = {i. i div 64 < length b \<and> wbit (b ! (i div 64)) (i mod 64)}"

lemma wbit_wordbit: "k < 64 \<Longrightarrow> wbit (BITMAP_WORDBIT n) k \<longleftrightarrow> k = n mod 64"
  using mod_less_divisor[of 64 n] by (auto simp: wbit_def BITMAP_WORDBIT_def bit_exp_iff)

lemma wbit_simps [simp]:
  "wbit (v OR w) k \<longleftrightarrow> wbit v k \<or> wbit w k" "wbit (v AND w) k \<longleftrightarrow> wbit v k \<and> wbit w k"
  "wbit (v XOR w) k \<longleftrightarrow> wbit v k \<noteq> wbit w k" "wbit (NOT w) k \<longleftrightarrow> \<not> wbit w k"
  "\<not> wbit 0 k" "wbit (-1) k"
  by (auto simp: wbit_def bit_or_iff bit_and_iff bit_xor_iff bit_not_iff)

lemma word_ne_0: "w \<noteq> 0 \<longleftrightarrow> (\<exists>k<64. wbit w k)"
proof
  assume "w \<noteq> 0"
  then obtain n where n: "n < 64" "bit w n" using bit_word_eqI[of w 0] by auto
  then have "wbit w (63 - n)" by (simp add: wbit_def)
  then show "\<exists>k<64. wbit w k" using n by (intro exI[of _ "63 - n"]) simp
qed auto

lemma headmask_bit: "k < 64 \<Longrightarrow> wbit (headmask n) k \<longleftrightarrow> n mod 64 \<le> k"
  using mod_less_divisor[of 64 n] by (auto simp: wbit_def headmask_def bit_mask_iff)

lemma tailmask_bit: "k < 64 \<Longrightarrow> wbit (tailmask m) k \<longleftrightarrow> k < m mod 64"
  using mod_less_divisor[of 64 m] by (auto simp: wbit_def tailmask_def bit_not_iff bit_mask_iff)


lemma index_eq: "i div 64 = n div 64 \<Longrightarrow> i mod 64 = n mod 64 \<Longrightarrow> i = (n :: nat)"
  by (metis div_mult_mod_eq)

lemma set_word_bits:
  assumes "n div 64 < length b" "\<And>k. k < 64 \<Longrightarrow> wbit (f (b ! (n div 64))) k \<longleftrightarrow> n div 64 * 64 + k \<in> S"
    and "\<And>i. i div 64 \<noteq> n div 64 \<Longrightarrow> i \<in> S \<longleftrightarrow> i \<in> bits_of b"
  shows "\<exists>b'. set_BITMAP_WORD b n f = Inr b' \<and> length b' = length b \<and> bits_of b' = S"
proof -
  let ?b = "b[n div 64 := f (b ! (n div 64))]"
  have "i \<in> bits_of ?b \<longleftrightarrow> i \<in> S" for i
  proof (cases "i div 64 = n div 64")
    case True
    then have "n div 64 * 64 + i mod 64 = i" by (metis div_mult_mod_eq)
    then show ?thesis using True assms(1) assms(2)[of "i mod 64"] by (simp add: bits_of_def)
  next
    case False
    then show ?thesis using assms(3) by (simp add: bits_of_def)
  qed
  then show ?thesis using assms(1) by (auto simp: set_BITMAP_WORD_def BITMAP_WORD_def)
qed

lemma in_word: "n div 64 < length b \<Longrightarrow> k < 64 \<Longrightarrow> n div 64 * 64 + k \<in> bits_of b \<longleftrightarrow> wbit (b ! (n div 64)) k"
  by (simp add: bits_of_def)

lemma split_eq: "k < 64 \<Longrightarrow> n div 64 * 64 + k = n \<longleftrightarrow> k = n mod (64 :: nat)"
  by (metis add_left_cancel div_mult_mod_eq)

lemma bitmap_bit_ok:
  assumes "n div 64 < length b"
  shows "\<exists>b'. bitmap_set_bit b n = Inr b' \<and> length b' = length b \<and> bits_of b' = insert n (bits_of b)"
    and "\<exists>b'. bitmap_clear_bit b n = Inr b' \<and> length b' = length b \<and> bits_of b' = bits_of b - {n}"
    and "\<exists>b'. bitmap_change_bit b n = Inr b' \<and> length b' = length b \<and>
      bits_of b' = (if n \<in> bits_of b then bits_of b - {n} else insert n (bits_of b))"
    and "bitmap_test_bit b n = Inr (n \<in> bits_of b)"
proof -
  have k: "n div 64 * 64 + k \<in> bits_of b \<longleftrightarrow> wbit (b ! (n div 64)) k" "n div 64 * 64 + k = n \<longleftrightarrow> k = n mod 64"
    if "k < 64" for k using that assms by (simp_all add: in_word split_eq)
  have n: "n \<in> bits_of b \<longleftrightarrow> wbit (b ! (n div 64)) (n mod 64)" using assms by (simp add: bits_of_def)
  show "\<exists>b'. bitmap_set_bit b n = Inr b' \<and> length b' = length b \<and> bits_of b' = insert n (bits_of b)"
    unfolding bitmap_set_bit_def by (rule set_word_bits[OF assms]) (auto simp: wbit_wordbit k)
  show "\<exists>b'. bitmap_clear_bit b n = Inr b' \<and> length b' = length b \<and> bits_of b' = bits_of b - {n}"
    unfolding bitmap_clear_bit_def by (rule set_word_bits[OF assms]) (auto simp: wbit_wordbit k)
  show "\<exists>b'. bitmap_change_bit b n = Inr b' \<and> length b' = length b \<and>
      bits_of b' = (if n \<in> bits_of b then bits_of b - {n} else insert n (bits_of b))"
    unfolding bitmap_change_bit_def by (rule set_word_bits[OF assms]) (auto simp: wbit_wordbit k n)
  have "w AND BITMAP_WORDBIT n \<noteq> 0 \<longleftrightarrow> wbit w (n mod 64)" for w
    unfolding word_ne_0 using mod_less_divisor[of 64 n] by (auto simp: wbit_wordbit intro: exI[of _ "n mod 64"])
  then show "bitmap_test_bit b n = Inr (n \<in> bits_of b)"
    using assms by (simp add: bitmap_test_bit_def BITMAP_WORD_def n)
qed

lemma bitmap_alloc0_bits: "bits_of (bitmap_alloc0 n) = {}"
  by (auto simp: bits_of_def bitmap_alloc0_def)

lemma bitmap_alloc0_length: "i < n \<Longrightarrow> i div 64 < length (bitmap_alloc0 n)"
  unfolding bitmap_alloc0_def BITMAP_NWORDS_def word_bits length_replicate by linarith


section \<open>The first bit of a range\<close>

declare bitmap_clz_loop.simps [simp del] ffs_words.simps [simp del]

lemma wordbit_and: "n < 64 \<Longrightarrow> w AND BITMAP_WORDBIT n \<noteq> 0 \<longleftrightarrow> wbit w n"
  unfolding word_ne_0 by (auto simp: wbit_wordbit)

lemma wordbit_next: "n < 63 \<Longrightarrow> drop_bit (Suc 0) (BITMAP_WORDBIT n) = BITMAP_WORDBIT (Suc n)"
  by (rule bit_word_eqI) (auto simp: BITMAP_WORDBIT_def bit_exp_iff bit_drop_bit_eq)

lemma clz_loop:
  assumes "k < 64" "wbit w k" "\<And>j. j < k \<Longrightarrow> \<not> wbit w j" "lz \<le> k"
  shows "bitmap_clz_loop w lz (BITMAP_WORDBIT lz) = Inr k"
  using assms(4)
proof (induction "k - lz" arbitrary: lz)
  case 0
  then show ?case using assms wordbit_and[of k w] by (subst bitmap_clz_loop.simps) simp
next
  case (Suc d)
  then have lz: "lz < k" "lz < 63" using assms(1) by auto
  then have "w AND BITMAP_WORDBIT lz = 0" using wordbit_and[of lz w] assms(1,3) by auto
  moreover have "BITMAP_WORDBIT lz \<noteq> 0" using wbit_wordbit[of lz lz] lz by auto
  ultimately show ?case
    using Suc.hyps(1)[of "Suc lz"] Suc.hyps(2) lz by (subst bitmap_clz_loop.simps) (simp add: wordbit_next)
qed

lemma ffs_word_ok:
  "(\<forall>k<64. \<not> wbit w k) \<and> ffs_word base w = Inr None \<or>
   (\<exists>k<64. wbit w k \<and> (\<forall>j<k. \<not> wbit w j) \<and> ffs_word base w = Inr (Some (base + k)))"
proof (cases "w = 0")
  case False
  define k where "k = (LEAST k. wbit w k)"
  obtain k0 where "k0 < 64" "wbit w k0" using False word_ne_0 by blast
  then have k: "k < 64" "wbit w k" "\<And>j. j < k \<Longrightarrow> \<not> wbit w j"
    unfolding k_def by (metis LeastI Least_le order_le_less_trans not_less_Least)+
  have "BITMAP_WORDBIT 0 = push_bit (BITMAP_WORD_BITS - 1) 1" by (simp add: BITMAP_WORDBIT_def)
  then have "bitmap_clz w = Inr k" using clz_loop[OF k(1,2,3), of 0] by (simp add: bitmap_clz_def)
  then show ?thesis using False k by (auto simp: ffs_word_def)
qed (simp add: ffs_word_def)

definition first_in :: "nat set \<Rightarrow> nat \<Rightarrow> nat \<Rightarrow> nat \<Rightarrow> bool" where
  "first_in S n m r \<longleftrightarrow> n \<le> r \<and> r < m \<and> r \<in> S \<and> (\<forall>i. n \<le> i \<and> i < r \<longrightarrow> i \<notin> S)"

text \<open>The search of one word, masked to the range it stands for.\<close>

lemma ffs_range:
  assumes "p div 64 < length b" "lo \<le> 64" "hi \<le> 64"
    and "\<And>k. k < 64 \<Longrightarrow> wbit m k \<longleftrightarrow> lo \<le> k \<and> k < hi"
  shows "(\<forall>i. p div 64 * 64 + lo \<le> i \<and> i < p div 64 * 64 + hi \<longrightarrow> i \<notin> bits_of b) \<and>
      ffs_word (p div 64 * 64) (b ! (p div 64) AND m) = Inr None \<or>
    (\<exists>r. first_in (bits_of b) (p div 64 * 64 + lo) (p div 64 * 64 + hi) r \<and>
      ffs_word (p div 64 * 64) (b ! (p div 64) AND m) = Inr (Some r))"
proof -
  let ?B = "p div 64 * 64" and ?w = "b ! (p div 64) AND m"
  have w: "wbit ?w k \<longleftrightarrow> ?B + k \<in> bits_of b \<and> lo \<le> k \<and> k < hi" if "k < 64" for k
    using that assms(1,4) by (simp add: in_word)
  have inr: "\<exists>k<64. i = ?B + k \<and> lo \<le> k \<and> k < hi" if "?B + lo \<le> i" "i < ?B + hi" for i
    using that assms(2,3) by (intro exI[of _ "i - ?B"]) auto
  from ffs_word_ok[of ?w ?B] show ?thesis
  proof (elim disjE conjE exE)
    assume "\<forall>k<64. \<not> wbit ?w k" "ffs_word ?B ?w = Inr None"
    then show ?thesis using w inr by blast
  next
    fix k assume k: "k < 64" "wbit ?w k" "\<forall>j<k. \<not> wbit ?w j" "ffs_word ?B ?w = Inr (Some (?B + k))"
    have "i \<notin> bits_of b" if i: "?B + lo \<le> i" "i < ?B + k" for i
    proof -
      obtain j where "i = ?B + j" "lo \<le> j" "j < k" using i by (metis add_diff_inverse_nat add_less_cancel_left le_add1 nat_add_left_cancel_le not_less order_trans)
      then show ?thesis using k w[of j] w[of k] by auto
    qed
    then have "first_in (bits_of b) (?B + lo) (?B + hi) (?B + k)"
      using w[OF k(1)] k(2) by (simp add: first_in_def)
    then show ?thesis using k(4) by blast
  qed
qed


lemma ffs_words_ok:
  assumes "am \<le> 64 * length b" "64 dvd an" "64 dvd am" "an \<le> am"
  shows "(\<forall>i. an \<le> i \<and> i < am \<longrightarrow> i \<notin> bits_of b) \<and> ffs_words b an am = Inr None \<or>
    (\<exists>r. first_in (bits_of b) an am r \<and> ffs_words b an am = Inr (Some r))"
  using assms(2,4)
proof (induction "am - an" arbitrary: an rule: less_induct)
  case less
  show ?case
  proof (cases "an = am")
    case True
    then show ?thesis by (subst (1 2) ffs_words.simps) auto
  next
    case False
    have base: "an div 64 * 64 = an" using less.prems(1) by simp
    have le: "an + 64 \<le> am"
    proof -
      obtain x y where "an = 64 * x" "am = 64 * y" using less.prems(1) assms(3) by (auto elim!: dvdE)
      then show ?thesis using False less.prems(2) by auto
    qed
    have len: "an div 64 < length b" using assms(1) le base by linarith
    have step: "ffs_words b an am = bindE (ffs_word an (b ! (an div 64))) (\<lambda>r.
         case r of Some i \<Rightarrow> Inr (Some i) | None \<Rightarrow> ffs_words b (an + 64) am)"
      using len le by (subst ffs_words.simps) (simp add: BITMAP_WORD_def)
    have ih: "(\<forall>i. an + 64 \<le> i \<and> i < am \<longrightarrow> i \<notin> bits_of b) \<and> ffs_words b (an + 64) am = Inr None \<or>
        (\<exists>r. first_in (bits_of b) (an + 64) am r \<and> ffs_words b (an + 64) am = Inr (Some r))"
      using le less.prems(1) by (intro less.hyps) auto
    have "(\<forall>i. an \<le> i \<and> i < an + 64 \<longrightarrow> i \<notin> bits_of b) \<and> ffs_word an (b ! (an div 64)) = Inr None \<or>
        (\<exists>r. first_in (bits_of b) an (an + 64) r \<and> ffs_word an (b ! (an div 64)) = Inr (Some r))"
      using ffs_range[OF len, of 0 64 "-1"] by (simp add: base)
    then show ?thesis
    proof (elim disjE conjE exE)
      assume n: "\<forall>i. an \<le> i \<and> i < an + 64 \<longrightarrow> i \<notin> bits_of b" and w: "ffs_word an (b ! (an div 64)) = Inr None"
      have e: "ffs_words b an am = ffs_words b (an + 64) am" using step w by simp
      from ih show ?thesis
      proof (elim disjE conjE exE)
        assume m: "\<forall>i. an + 64 \<le> i \<and> i < am \<longrightarrow> i \<notin> bits_of b" and r: "ffs_words b (an + 64) am = Inr None"
        have "\<forall>i. an \<le> i \<and> i < am \<longrightarrow> i \<notin> bits_of b" using n m by (meson not_less)
        then show ?thesis using e r by simp
      next
        fix r assume f: "first_in (bits_of b) (an + 64) am r" and r: "ffs_words b (an + 64) am = Inr (Some r)"
        have "first_in (bits_of b) an am r" using f n unfolding first_in_def by (meson add_leD1 not_less)
        then show ?thesis using e r by auto
      qed
    next
      fix r assume "first_in (bits_of b) an (an + 64) r" "ffs_word an (b ! (an div 64)) = Inr (Some r)"
      then show ?thesis using step le by (auto simp: first_in_def)
    qed
  qed
qed

lemma align_down: "BIT_ALIGN_DOWN m + m mod 64 = m" "BIT_ALIGN_DOWN m = m div 64 * 64"
  by (simp_all add: BIT_ALIGN_DOWN_def)

lemma align_up: "BIT_ALIGN_UP n = (if n mod 64 = 0 then n else n div 64 * 64 + 64)"
proof -
  define q r where "q = n div 64" and "r = n mod 64"
  have n: "n = r + q * 64" "r < 64" by (simp_all add: q_def r_def)
  have "(n + 63) div 64 = (r + 63) div 64 + q" unfolding n(1) by (simp add: add.assoc[symmetric] add.commute[of "q * 64"])
  moreover have "(r + 63) div 64 = (if r = 0 then 0 else 1)"
  proof (cases "r = 0")
    case False
    then have "(r + 63) div 64 = 1" using n(2) by (intro div_nat_eqI) simp_all
    then show ?thesis using False by simp
  qed simp
  moreover have "BIT_ALIGN_UP n = (n + 63) div 64 * 64" by (simp add: BIT_ALIGN_UP_def BIT_ALIGN_DOWN_def)
  ultimately have "BIT_ALIGN_UP n = ((if r = 0 then 0 else 1) + q) * 64" by simp
  then show ?thesis using n(1) unfolding q_def[symmetric] r_def[symmetric] by (cases "r = 0") simp_all
qed


text \<open>The result of searching a range, and of searching two adjacent ranges in turn.\<close>

definition finds :: "nat set \<Rightarrow> nat \<Rightarrow> nat \<Rightarrow> nat option \<Rightarrow> bool" where
  "finds S n m res \<longleftrightarrow> (case res of None \<Rightarrow> \<forall>i. n \<le> i \<and> i < m \<longrightarrow> i \<notin> S | Some r \<Rightarrow> first_in S n m r)"

lemma finds_join:
  assumes "finds S n k x" "finds S k m y" "n \<le> k" "k \<le> m"
  shows "finds S n m (case x of Some i \<Rightarrow> Some i | None \<Rightarrow> y)"
proof (cases x)
  case (Some r)
  then show ?thesis using assms by (auto simp: finds_def first_in_def)
next
  case None
  then have "\<forall>i. n \<le> i \<and> i < k \<longrightarrow> i \<notin> S" using assms(1) by (simp add: finds_def)
  then show ?thesis
    using assms(2-4) None by (auto simp: finds_def first_in_def split: option.splits) (meson not_less)+
qed

lemma bitmap_ffs_ok:
  assumes "n \<le> m" "m \<le> 64 * length b"
  obtains r where "bitmap_ffs b n m = Inr r"
    "first_in (bits_of b) n m r \<or> r = m \<and> (\<forall>i. n \<le> i \<and> i < m \<longrightarrow> i \<notin> bits_of b)"
proof -
  let ?S = "bits_of b"
  have masks: "wbit (headmask n) k \<longleftrightarrow> n mod 64 \<le> k" "wbit (tailmask m) k \<longleftrightarrow> k < m mod 64" if "k < 64" for k
    using that by (simp_all add: headmask_bit tailmask_bit)
  have nm: "n = n div 64 * 64 + n mod 64" "m = m div 64 * 64 + m mod 64" "n mod 64 < 64" "m mod 64 < 64" by simp_all
  show thesis
  proof (cases "BIT_ALIGN_DOWN m < BIT_ALIGN_UP n")
    case True
    have eq: "m div 64 = n div 64" and nz: "n mod 64 \<noteq> 0"
      using True assms(1) div_le_mono[OF assms(1), of 64] by (auto simp: align_up align_down(2) split: if_splits)
    have len: "n div 64 < length b" using assms nm eq nz by linarith
    have "n mod 64 \<le> m mod 64" using assms(1) nm eq by linarith
    from ffs_range[OF len, of "n mod 64" "m mod 64" "headmask n AND tailmask m"] masks
    have "(\<forall>i. n \<le> i \<and> i < m \<longrightarrow> i \<notin> ?S) \<and> ffs_word (BIT_ALIGN_DOWN m) (b ! (n div 64) AND (headmask n AND tailmask m)) = Inr None \<or>
        (\<exists>r. first_in ?S n m r \<and> ffs_word (BIT_ALIGN_DOWN m) (b ! (n div 64) AND (headmask n AND tailmask m)) = Inr (Some r))"
      using nm(1,2) nm(3,4)[THEN less_imp_le] by (simp add: eq align_down(2))
    then show thesis
      using that True assms(1) len by (auto simp: bitmap_ffs_def Let_def BITMAP_WORD_def)
  next
    case False
    let ?an = "BIT_ALIGN_UP n" and ?am = "BIT_ALIGN_DOWN m"
    have ord: "n \<le> ?an" "?an \<le> ?am" "?am \<le> m" "64 dvd ?an" "64 dvd ?am"
      using False nm by (auto simp: align_up align_down(2))
    have "\<exists>x. (if ?an > n then bindE (BITMAP_WORD b n) (\<lambda>w. ffs_word (BIT_ALIGN_DOWN n) (w AND headmask n)) else Inr None) = Inr x
        \<and> finds ?S n ?an x"
    proof (cases "n mod 64 = 0")
      case False
      then have an: "?an = n div 64 * 64 + 64" "n < ?an" using nm by (auto simp: align_up)
      then have len: "n div 64 < length b" using ord assms by linarith
      from ffs_range[OF len, of "n mod 64" 64 "headmask n"] masks(1) show ?thesis
        using an nm(1) nm(3)[THEN less_imp_le] len by (auto simp: finds_def align_down(2) BITMAP_WORD_def)
    qed (auto simp: align_up finds_def)
    then obtain x where x: "(if ?an > n then bindE (BITMAP_WORD b n) (\<lambda>w. ffs_word (BIT_ALIGN_DOWN n) (w AND headmask n)) else Inr None) = Inr x"
      "finds ?S n ?an x" by blast
    obtain y where y: "ffs_words b ?an ?am = Inr y" "finds ?S ?an ?am y"
      using ffs_words_ok[of ?am b ?an] ord assms by (auto simp: finds_def)
    have "\<exists>z. (if m > ?am then bindE (BITMAP_WORD b m) (\<lambda>w. ffs_word ?am (w AND tailmask m)) else Inr None) = Inr z \<and> finds ?S ?am m z"
    proof (cases "m mod 64 = 0")
      case True
      then have "?am = m" using align_down(1)[of m] by simp
      then show ?thesis by (auto simp: finds_def)
    next
      case False
      then have am: "?am < m" "m div 64 < length b" using align_down(1)[of m] assms(2) nm by linarith+
      from ffs_range[OF am(2), of 0 "m mod 64" "tailmask m"] masks(2) show ?thesis
        using am nm(2) nm(4)[THEN less_imp_le] by (auto simp: finds_def align_down(2) BITMAP_WORD_def)
    qed
    then obtain z where z: "(if m > ?am then bindE (BITMAP_WORD b m) (\<lambda>w. ffs_word ?am (w AND tailmask m)) else Inr None) = Inr z"
      "finds ?S ?am m z" by blast
    define u where "u = (case x of Some i \<Rightarrow> Some i | None \<Rightarrow> (case y of Some i \<Rightarrow> Some i | None \<Rightarrow> z))"
    have f: "finds ?S n m u"
      unfolding u_def using ord by (intro finds_join[OF x(2)] finds_join[OF y(2) z(2)]) auto
    have "bitmap_ffs b n m = Inr (case u of Some i \<Rightarrow> i | None \<Rightarrow> m)"
      using False assms(1) unfolding bitmap_ffs_def Let_def x(1) y(1) z(1) u_def by (auto split: option.splits)
    then show thesis using f by (intro that) (auto simp: finds_def split: option.splits)
  qed
qed


section \<open>Ranges of bits\<close>

lemma memset_words_ok:
  assumes "start + count \<le> length b"
  obtains b' where "memset_words b start count v = Inr b'" "length b' = length b"
    "\<And>i. i \<in> bits_of b' \<longleftrightarrow> (if start * 64 \<le> i \<and> i < (start + count) * 64 then wbit v (i mod 64) else i \<in> bits_of b)"
proof -
  let ?b = "take start b @ replicate count v @ drop (start + count) b"
  have "i \<in> bits_of ?b \<longleftrightarrow> (if start * 64 \<le> i \<and> i < (start + count) * 64 then wbit v (i mod 64) else i \<in> bits_of b)" for i
  proof -
    have "start * 64 \<le> i \<longleftrightarrow> start \<le> i div 64" "i < (start + count) * 64 \<longleftrightarrow> i div 64 < start + count"
      by (simp_all add: less_eq_div_iff_mult_less_eq div_less_iff_less_mult)
    then show ?thesis using assms by (auto simp: bits_of_def nth_append not_less)
  qed
  then show thesis using that[of ?b] assms by (simp add: memset_words_def)
qed


text \<open>Both range operations, with the value they write as an argument.\<close>

definition put :: "bool \<Rightarrow> u64 \<Rightarrow> u64 \<Rightarrow> u64" where
  "put v msk w = (if v then w OR msk else w AND NOT msk)"

definition range_op :: "bool \<Rightarrow> bitmap \<Rightarrow> nat \<Rightarrow> nat \<Rightarrow> fault + bitmap" where
  "range_op v bmap n m =
    (let an = BIT_ALIGN_UP n; am = BIT_ALIGN_DOWN m in
     if \<not> m \<ge> n then Inl AssertFailed
     else if am < an then set_BITMAP_WORD bmap n (put v (headmask n AND tailmask m))
     else
       bindE (if an > n then set_BITMAP_WORD bmap n (put v (headmask n)) else Inr bmap) (\<lambda>bmap.
       bindE (if am > an then memset_words bmap (an div BITMAP_WORD_BITS) ((am - an) div BITMAP_WORD_BITS) (if v then -1 else 0) else Inr bmap) (\<lambda>bmap.
       if m > am then set_BITMAP_WORD bmap m (put v (tailmask m)) else Inr bmap)))"

lemma put_cases: "put False msk = (\<lambda>w. w AND NOT msk)" "put True msk = (\<lambda>w. w OR msk)"
  by (auto simp: put_def)

lemma range_ops: "bitmap_zero_range = range_op False" "bitmap_fill_range = range_op True"
  by (intro ext; simp only: bitmap_zero_range_def bitmap_fill_range_def range_op_def put_cases if_True if_False)+

definition painted :: "bool \<Rightarrow> nat \<Rightarrow> nat \<Rightarrow> nat set \<Rightarrow> nat set" where
  "painted v n m S = {i. if n \<le> i \<and> i < m then v else i \<in> S}"

lemma painted_join: "n \<le> k \<Longrightarrow> k \<le> m \<Longrightarrow> painted v k m (painted v n k S) = painted v n m S"
  by (auto simp: painted_def)

lemma painted_empty [simp]: "painted v n n S = S"
  by (auto simp: painted_def)

lemma put_word_ok:
  assumes "p div 64 < length b" "lo \<le> 64" "hi \<le> 64" "\<And>k. k < 64 \<Longrightarrow> wbit m k \<longleftrightarrow> lo \<le> k \<and> k < hi"
  shows "\<exists>b'. set_BITMAP_WORD b p (put v m) = Inr b' \<and> length b' = length b \<and>
    bits_of b' = painted v (p div 64 * 64 + lo) (p div 64 * 64 + hi) (bits_of b)"
proof (rule set_word_bits[OF assms(1)])
  fix k :: nat assume "k < 64"
  then show "wbit (put v m (b ! (p div 64))) k \<longleftrightarrow> p div 64 * 64 + k \<in> painted v (p div 64 * 64 + lo) (p div 64 * 64 + hi) (bits_of b)"
    using assms(1,4) by (auto simp: put_def painted_def in_word)
next
  fix i assume i: "i div 64 \<noteq> p div 64"
  have "\<not> (p div 64 * 64 + lo \<le> i \<and> i < p div 64 * 64 + hi)"
  proof
    assume a: "p div 64 * 64 + lo \<le> i \<and> i < p div 64 * 64 + hi"
    then have "i div 64 = p div 64" using assms(3) by (intro div_nat_eqI) auto
    then show False using i by simp
  qed
  then show "i \<in> painted v (p div 64 * 64 + lo) (p div 64 * 64 + hi) (bits_of b) \<longleftrightarrow> i \<in> bits_of b"
    by (auto simp: painted_def)
qed

lemma align_order: "n \<le> BIT_ALIGN_UP n" "BIT_ALIGN_DOWN m \<le> m" "64 dvd BIT_ALIGN_UP n" "64 dvd BIT_ALIGN_DOWN m"
proof -
  have "n = n div 64 * 64 + n mod 64" "n mod 64 < 64" by simp_all
  then have "n \<le> n div 64 * 64 + 64" by linarith
  then show "n \<le> BIT_ALIGN_UP n" unfolding align_up by simp
qed (auto simp: align_up align_down(2))

lemma mask_bits:
  "k < 64 \<Longrightarrow> wbit (headmask n) k \<longleftrightarrow> n mod 64 \<le> k \<and> k < 64"
  "k < 64 \<Longrightarrow> wbit (tailmask m) k \<longleftrightarrow> 0 \<le> k \<and> k < m mod 64"
  "k < 64 \<Longrightarrow> wbit (headmask n AND tailmask m) k \<longleftrightarrow> n mod 64 \<le> k \<and> k < m mod 64"
  by (simp_all add: headmask_bit tailmask_bit)

lemma range_head:
  assumes "BIT_ALIGN_UP n \<le> 64 * length b"
  shows "\<exists>b1. (if BIT_ALIGN_UP n > n then set_BITMAP_WORD b n (put v (headmask n)) else Inr b) = Inr b1 \<and>
    length b1 = length b \<and> bits_of b1 = painted v n (BIT_ALIGN_UP n) (bits_of b)"
proof (cases "n mod 64 = 0")
  case True
  then show ?thesis by (simp add: align_up)
next
  case False
  have n: "n div 64 * 64 + n mod 64 = n" "n mod 64 < 64" by simp_all
  have an: "BIT_ALIGN_UP n = n div 64 * 64 + 64" using False by (simp add: align_up)
  have len: "n div 64 < length b" and gt: "n < BIT_ALIGN_UP n" using assms n unfolding an by linarith+
  have "n mod 64 \<le> 64" using n(2) by simp
  from put_word_ok[OF len this order_refl mask_bits(1)] show ?thesis using gt unfolding n(1) an by simp
qed

lemma range_words:
  assumes "am \<le> 64 * length b" "64 dvd an" "64 dvd am" "an \<le> am"
  shows "\<exists>b2. (if am > an then memset_words b (an div BITMAP_WORD_BITS) ((am - an) div BITMAP_WORD_BITS) (if v then -1 else 0)
      else Inr b) = Inr b2 \<and> length b2 = length b \<and> bits_of b2 = painted v an am (bits_of b)"
proof (cases "an = am")
  case False
  obtain p q where pq: "an = p * 64" "am = q * 64" using assms(2,3) by (metis dvd_def mult.commute)
  have le: "p + (q - p) \<le> length b" "p < q" using pq assms False by auto
  obtain b2 where b2: "memset_words b p (q - p) (if v then -1 else 0) = Inr b2" "length b2 = length b"
    "\<And>i. i \<in> bits_of b2 \<longleftrightarrow> (if p * 64 \<le> i \<and> i < (p + (q - p)) * 64 then wbit (if v then -1 else 0) (i mod 64) else i \<in> bits_of b)"
    using memset_words_ok[OF le(1)] by blast
  have "(q * 64 - p * 64) div 64 = q - p" by (simp add: diff_mult_distrib[symmetric])
  moreover have "bits_of b2 = painted v an am (bits_of b)"
  proof (rule set_eqI)
    show "i \<in> bits_of b2 \<longleftrightarrow> i \<in> painted v an am (bits_of b)" for i
      unfolding b2(3) painted_def pq mem_Collect_eq using le(2) by (cases v) simp_all
  qed
  ultimately show ?thesis using b2(1,2) le(2) by (simp add: pq)
qed simp

lemma range_tail:
  assumes "m \<le> 64 * length b"
  shows "\<exists>b3. (if m > BIT_ALIGN_DOWN m then set_BITMAP_WORD b m (put v (tailmask m)) else Inr b) = Inr b3 \<and>
    length b3 = length b \<and> bits_of b3 = painted v (BIT_ALIGN_DOWN m) m (bits_of b)"
proof (cases "m mod 64 = 0")
  case True
  then show ?thesis using align_down(1)[of m] by simp
next
  case False
  have m: "m div 64 * 64 + m mod 64 = m" "m mod 64 < 64" by simp_all
  have len: "m div 64 < length b" and gt: "BIT_ALIGN_DOWN m < m" using assms m False unfolding align_down(2) by linarith+
  have "m mod 64 \<le> 64" using m(2) by simp
  from put_word_ok[OF len _ this mask_bits(2)] show ?thesis using gt unfolding m(1) align_down(2) by simp
qed

lemma range_op_ok:
  assumes "n \<le> m" "m \<le> 64 * length b"
  shows "\<exists>b'. range_op v b n m = Inr b' \<and> length b' = length b \<and> bits_of b' = painted v n m (bits_of b)"
proof (cases "BIT_ALIGN_DOWN m < BIT_ALIGN_UP n")
  case True
  have nm: "n div 64 * 64 + n mod 64 = n" "m div 64 * 64 + m mod 64 = m" "n mod 64 < 64" "m mod 64 < 64" by simp_all
  have eq: "m div 64 = n div 64" and nz: "n mod 64 \<noteq> 0"
    using True assms(1) div_le_mono[OF assms(1), of 64] by (auto simp: align_up align_down(2) split: if_splits)
  have len: "n div 64 < length b" using assms nm eq nz by linarith
  have "n mod 64 \<le> 64" "m mod 64 \<le> 64" using nm(3,4) by simp_all
  from put_word_ok[OF len this mask_bits(3), of v]
  have "\<exists>b'. set_BITMAP_WORD b n (put v (headmask n AND tailmask m)) = Inr b' \<and> length b' = length b \<and>
      bits_of b' = painted v n m (bits_of b)"
    unfolding nm(1) nm(2)[unfolded eq] .
  then show ?thesis using True assms(1) by (simp add: range_op_def Let_def)
next
  case False
  let ?an = "BIT_ALIGN_UP n" and ?am = "BIT_ALIGN_DOWN m"
  have ord: "n \<le> ?an" "?an \<le> ?am" "?am \<le> m" "64 dvd ?an" "64 dvd ?am"
    using False align_order by simp_all
  have "?an \<le> 64 * length b" "?am \<le> 64 * length b" using ord assms(2) by linarith+
  obtain b1 where b1: "(if ?an > n then set_BITMAP_WORD b n (put v (headmask n)) else Inr b) = Inr b1"
    "length b1 = length b" "bits_of b1 = painted v n ?an (bits_of b)"
    using range_head[OF \<open>?an \<le> 64 * length b\<close>, of v] by blast
  obtain b2 where b2: "(if ?am > ?an then memset_words b1 (?an div BITMAP_WORD_BITS) ((?am - ?an) div BITMAP_WORD_BITS) (if v then -1 else 0)
      else Inr b1) = Inr b2" "length b2 = length b" "bits_of b2 = painted v ?an ?am (bits_of b1)"
    using range_words[of ?am b1 ?an v] ord(2,4,5) \<open>?am \<le> 64 * length b\<close> unfolding b1(2) by blast
  obtain b3 where b3: "(if m > ?am then set_BITMAP_WORD b2 m (put v (tailmask m)) else Inr b2) = Inr b3"
    "length b3 = length b" "bits_of b3 = painted v ?am m (bits_of b2)"
    using range_tail[of m b2 v] assms(2) unfolding b2(2) by blast
  have "range_op v b n m = Inr b3"
    using False assms(1) unfolding range_op_def Let_def b1(1) bindE.simps b2(1) b3(1) by simp
  moreover have "painted v ?am m (painted v ?an ?am (painted v n ?an (bits_of b))) = painted v n m (bits_of b)"
    using ord by (simp add: painted_join)
  ultimately show ?thesis using b3(2,3) unfolding b2(3) b1(3) by blast
qed


section \<open>Properties\<close>

text \<open>
  Property C34: a bitmap is a set of bit numbers. Setting, clearing, changing and testing a bit
  inside the bitmap act as on the set; clearing and filling a range remove and add exactly
  the bits of the range, across word boundaries; none of them changes the size or
  accesses a word outside.
\<close>

theorem bitmap_is_bit_set:
  assumes "n < 64 * length b"
  shows "(\<exists>b'. bitmap_set_bit b n = Inr b' \<and> length b' = length b \<and> bits_of b' = insert n (bits_of b)) \<and>
    (\<exists>b'. bitmap_clear_bit b n = Inr b' \<and> length b' = length b \<and> bits_of b' = bits_of b - {n}) \<and>
    (\<exists>b'. bitmap_change_bit b n = Inr b' \<and> length b' = length b \<and>
      bits_of b' = (if n \<in> bits_of b then bits_of b - {n} else insert n (bits_of b))) \<and>
    bitmap_test_bit b n = Inr (n \<in> bits_of b) \<and>
    (\<forall>m. n \<le> m \<and> m \<le> 64 * length b \<longrightarrow>
      (\<exists>b'. bitmap_zero_range b n m = Inr b' \<and> length b' = length b \<and> bits_of b' = bits_of b - {n..<m}) \<and>
      (\<exists>b'. bitmap_fill_range b n m = Inr b' \<and> length b' = length b \<and> bits_of b' = bits_of b \<union> {n..<m}))"
proof -
  have "n div 64 < length b" using assms by (simp add: div_less_iff_less_mult mult.commute)
  note ok = bitmap_bit_ok[OF this]
  have p: "painted False n m S = S - {n..<m}" "painted True n m S = S \<union> {n..<m}" for S m by (auto simp: painted_def)
  have "(\<exists>b'. bitmap_zero_range b n m = Inr b' \<and> length b' = length b \<and> bits_of b' = bits_of b - {n..<m}) \<and>
      (\<exists>b'. bitmap_fill_range b n m = Inr b' \<and> length b' = length b \<and> bits_of b' = bits_of b \<union> {n..<m})"
    if "n \<le> m \<and> m \<le> 64 * length b" for m
    using range_op_ok[of n m b False] range_op_ok[of n m b True] that unfolding range_ops p by blast
  then show ?thesis using ok by blast
qed

theorem bitmap_is_bit_set_witness:
  "\<exists>b. bitmap_fill_range [0, 0, 0] 60 150 = Inr b \<and> bits_of b = {60..<150}"
proof -
  have "bits_of (replicate 3 0) = {}" by (auto simp: bits_of_def)
  then have "bits_of [0, 0, 0] = {}" by (simp add: eval_nat_numeral)
  moreover have "\<exists>b. bitmap_fill_range [0, 0, 0] 60 150 = Inr b \<and> length b = length [0 :: u64, 0, 0] \<and>
      bits_of b = bits_of [0, 0, 0] \<union> {60..<150}"
    by (rule bitmap_is_bit_set[of 60 "[0, 0, 0]", THEN conjunct2, THEN conjunct2, THEN conjunct2, THEN conjunct2, rule_format, THEN conjunct2])
      simp_all
  ultimately show ?thesis by auto
qed

text \<open>
  Property C29: searching a bitmap for the first bit of a range returns the least bit of the
  range that is set, and the end of the range if none is; the search over partial first
  and last words and whole words between them is exact.
\<close>

theorem bitmap_ffs_is_least:
  assumes "n \<le> m" "m \<le> 64 * length b"
  shows "bitmap_ffs b n m = Inr (if \<exists>i. n \<le> i \<and> i < m \<and> i \<in> bits_of b
      then (LEAST i. n \<le> i \<and> i \<in> bits_of b) else m)"
proof -
  obtain r where r: "bitmap_ffs b n m = Inr r"
    "first_in (bits_of b) n m r \<or> r = m \<and> (\<forall>i. n \<le> i \<and> i < m \<longrightarrow> i \<notin> bits_of b)"
    using bitmap_ffs_ok[OF assms] by blast
  show ?thesis
  proof (cases "first_in (bits_of b) n m r")
    case True
    then have "(LEAST i. n \<le> i \<and> i \<in> bits_of b) = r"
      unfolding first_in_def by (intro Least_equality) (auto simp: not_less[symmetric])
    then show ?thesis using True r(1) by (auto simp: first_in_def)
  next
    case False
    then show ?thesis using r by auto
  qed
qed

theorem bitmap_ffs_is_least_witness:
  "bitmap_ffs [0, 1] 5 128 = Inr 127"
proof -
  have "i \<in> bits_of [0, 1] \<longleftrightarrow> i = 127" for i
  proof -
    have "i \<in> bits_of [0, 1] \<longleftrightarrow> i div 64 = 1 \<and> i mod 64 = 63"
      using mod_less_divisor[of 64 i] by (auto simp: bits_of_def less_Suc_eq wbit_def bit_1_iff)
    also have "\<dots> \<longleftrightarrow> i = 127" using index_eq[of i 127] by auto
    finally show ?thesis .
  qed
  moreover have "(LEAST i. 5 \<le> i \<and> i = (127 :: nat)) = 127" by (rule Least_equality) auto
  ultimately show ?thesis using bitmap_ffs_is_least[of 5 128 "[0, 1]"] by (simp cong: conj_cong)
qed

end
