(* ===== verification/Buddy_Blocks.thy ===== *)
theory Buddy_Blocks
  imports Prelude
begin

text \<open>
  The specification of the buddy allocator of \<open>providers/mlx5/dr_buddy.c\<close>: for every order
  the set of its free blocks. Block \<open>i\<close> of order \<open>o\<close> is the interval of \<open>2 ^ o\<close> segments from
  \<open>i * 2 ^ o\<close>, so a segment \<open>x\<close> lies in block \<open>x div 2 ^ o\<close> of that order. The theory states when
  such a family is well formed (the blocks are disjoint and no two halves of one
  block are free side by side) and what taking, splitting, merging and releasing a
  block does to the segments that are free.
\<close>

section \<open>Families of free blocks\<close>

type_synonym blocks = "nat \<Rightarrow> nat set"

definition free_area :: "nat \<Rightarrow> blocks \<Rightarrow> nat set" where
  "free_area M F = {x. \<exists>o'\<le>M. x div 2 ^ o' \<in> F o'}"

definition block :: "nat \<Rightarrow> nat \<Rightarrow> nat set" where
  "block order i = {i * 2 ^ order..<(i + 1) * 2 ^ order}"

definition tidy :: "nat \<Rightarrow> blocks \<Rightarrow> bool" where
  "tidy M F \<longleftrightarrow>
     (\<forall>o'\<le>M. F o' \<subseteq> {..<2 ^ (M - o')}) \<and>
     (\<forall>x. \<forall>o1\<le>M. \<forall>o2\<le>M. x div 2 ^ o1 \<in> F o1 \<and> x div 2 ^ o2 \<in> F o2 \<longrightarrow> o1 = o2) \<and>
     (\<forall>o'<M. \<forall>i. \<not> (2 * i \<in> F o' \<and> 2 * i + 1 \<in> F o'))"

text \<open>A block in use: it lies inside the memory and none of its segments is free.\<close>

definition apart :: "nat \<Rightarrow> blocks \<Rightarrow> nat \<Rightarrow> nat \<Rightarrow> bool" where
  "apart M F order i \<longleftrightarrow> order \<le> M \<and> i < 2 ^ (M - order) \<and> block order i \<inter> free_area M F = {}"

lemma block_iff: "x \<in> block order i \<longleftrightarrow> x div 2 ^ order = i"
proof -
  have "x div 2 ^ order = i \<longleftrightarrow> i * 2 ^ order \<le> x \<and> x < (i + 1) * 2 ^ order"
    using less_eq_div_iff_mult_less_eq[of "2 ^ order" i x] div_less_iff_less_mult[of "2 ^ order" x "i + 1"] by auto
  then show ?thesis by (simp add: block_def)
qed

lemma area_iff: "x \<in> free_area M F \<longleftrightarrow> (\<exists>o'\<le>M. x div 2 ^ o' \<in> F o')"
  by (simp add: free_area_def)

lemma div_next: "x div 2 ^ Suc k = x div 2 ^ k div (2 :: nat)"
  by (metis div_exp_eq power_one_right Suc_eq_plus1)

lemma div_up: "k \<le> a \<Longrightarrow> x div 2 ^ a = x div 2 ^ k div (2 :: nat) ^ (a - k)"
  by (subst div_exp_eq) simp

lemma area_upd: "x \<in> free_area M (F(k := S)) \<longleftrightarrow> k \<le> M \<and> x div 2 ^ k \<in> S \<or> (\<exists>o'\<le>M. o' \<noteq> k \<and> x div 2 ^ o' \<in> F o')"
  by (auto simp: area_iff split: if_splits)

lemma apart_iff:
  "apart M F k i \<longleftrightarrow> k \<le> M \<and> i < 2 ^ (M - k) \<and> (\<forall>x o'. x div 2 ^ k = i \<longrightarrow> o' \<le> M \<longrightarrow> x div 2 ^ o' \<notin> F o')"
  unfolding apart_def disjoint_iff block_iff area_iff by blast

lemma block_nonempty: "i * 2 ^ order \<in> block order i"
  by (simp add: block_iff)

lemma block_sub_area: "order \<le> M \<Longrightarrow> i \<in> F order \<Longrightarrow> block order i \<subseteq> free_area M F"
  by (auto simp: block_iff area_iff)

text \<open>The two halves of a block.\<close>

lemma block_halves: "block (Suc k) i = block k (2 * i) \<union> block k (2 * i + 1)"
proof -
  have "x div 2 = i \<longleftrightarrow> x = 2 * i \<or> x = 2 * i + 1" for x :: nat by auto
  then show ?thesis by (auto simp: block_iff div_next simp del: power_Suc)
qed

lemma halves_disjoint: "block k (2 * i) \<inter> block k (2 * i + 1) = {}"
  by (auto simp: block_iff)

lemma tidyD:
  assumes "tidy M F"
  shows "\<And>k i. k \<le> M \<Longrightarrow> i \<in> F k \<Longrightarrow> i < 2 ^ (M - k)"
    and "\<And>x o1 o2. o1 \<le> M \<Longrightarrow> o2 \<le> M \<Longrightarrow> x div 2 ^ o1 \<in> F o1 \<Longrightarrow> x div 2 ^ o2 \<in> F o2 \<Longrightarrow> o1 = o2"
    and "\<And>k i. k < M \<Longrightarrow> 2 * i \<in> F k \<Longrightarrow> 2 * i + 1 \<notin> F k"
proof -
  show "i < 2 ^ (M - k)" if "k \<le> M" "i \<in> F k" for k i using assms that unfolding tidy_def by blast
  show "o1 = o2" if "o1 \<le> M" "o2 \<le> M" "x div 2 ^ o1 \<in> F o1" "x div 2 ^ o2 \<in> F o2" for x o1 o2
    using assms that unfolding tidy_def by blast
  show "2 * i + 1 \<notin> F k" if "k < M" "2 * i \<in> F k" for k i using assms that unfolding tidy_def by blast
qed

lemma tidyI:
  assumes "\<And>k i. k \<le> M \<Longrightarrow> i \<in> F k \<Longrightarrow> i < 2 ^ (M - k)"
    and "\<And>x o1 o2. o1 \<le> M \<Longrightarrow> o2 \<le> M \<Longrightarrow> x div 2 ^ o1 \<in> F o1 \<Longrightarrow> x div 2 ^ o2 \<in> F o2 \<Longrightarrow> o1 = o2"
    and "\<And>k i. k < M \<Longrightarrow> 2 * i \<in> F k \<Longrightarrow> 2 * i + 1 \<notin> F k"
  shows "tidy M F"
  unfolding tidy_def using assms by blast

section \<open>Taking and giving back\<close>

lemma area_remove:
  assumes "tidy M F" "k \<le> M" "i \<in> F k"
  shows "free_area M (F(k := F k - {i})) = free_area M F - block k i"
proof (rule set_eqI)
  fix x
  show "x \<in> free_area M (F(k := F k - {i})) \<longleftrightarrow> x \<in> free_area M F - block k i"
  proof (cases "x div 2 ^ k = i")
    case True
    then have "\<not> (\<exists>o'\<le>M. o' \<noteq> k \<and> x div 2 ^ o' \<in> F o')" using tidyD(2)[OF assms(1) _ assms(2), of _ x] assms(3) by metis
    then show ?thesis using True by (simp add: area_upd block_iff)
  next
    case False
    then show ?thesis using assms(2) by (auto simp: area_upd area_iff block_iff)
  qed
qed

lemma area_insert:
  assumes "k \<le> M"
  shows "free_area M (F(k := insert i (F k))) = free_area M F \<union> block k i"
proof (rule set_eqI)
  show "x \<in> free_area M (F(k := insert i (F k))) \<longleftrightarrow> x \<in> free_area M F \<union> block k i" for x
    using assms by (auto simp: area_upd area_iff block_iff)
qed

lemma take_tidy:
  assumes "tidy M F" "k \<le> M" "i \<in> F k"
  shows "tidy M (F(k := F k - {i}))" "apart M (F(k := F k - {i})) k i"
proof -
  show "tidy M (F(k := F k - {i}))"
    using tidyD[OF assms(1)] by (intro tidyI) (auto split: if_splits)
  show "apart M (F(k := F k - {i})) k i"
    unfolding apart_def area_remove[OF assms] using assms(2) tidyD(1)[OF assms] by auto
qed

text \<open>A block may be added where it is apart and its sibling is not free.\<close>

lemma insert_tidy:
  assumes "tidy M F" "apart M F k i" "k < M \<Longrightarrow> (if even i then i + 1 else i - 1) \<notin> F k"
  shows "tidy M (F(k := insert i (F k)))"
proof (rule tidyI)
  have k: "k \<le> M" "i < 2 ^ (M - k)" and d: "x div 2 ^ k = i \<Longrightarrow> o' \<le> M \<Longrightarrow> x div 2 ^ o' \<notin> F o'" for x o'
    using assms(2) unfolding apart_iff by blast+
  fix k' j assume "k' \<le> M" "j \<in> (F(k := insert i (F k))) k'"
  then show "j < 2 ^ (M - k')" using tidyD(1)[OF assms(1)] k by (auto split: if_splits)
next
  have d: "x div 2 ^ k = i \<Longrightarrow> o' \<le> M \<Longrightarrow> x div 2 ^ o' \<notin> F o'" for x o'
    using assms(2) unfolding apart_iff by blast+
  fix x o1 o2 assume "o1 \<le> M" "o2 \<le> M" "x div 2 ^ o1 \<in> (F(k := insert i (F k))) o1" "x div 2 ^ o2 \<in> (F(k := insert i (F k))) o2"
  then show "o1 = o2" using tidyD(2)[OF assms(1), of o1 o2 x] d[of x o1] d[of x o2] by (auto split: if_splits)
next
  fix k' j assume "k' < M" "2 * j \<in> (F(k := insert i (F k))) k'"
  then show "2 * j + 1 \<notin> (F(k := insert i (F k))) k'"
    using tidyD(3)[OF assms(1), of k' j] assms(3) by (auto split: if_splits)
qed

text \<open>Splitting a block in use: its upper half becomes free, its lower half stays in use.\<close>

lemma split_tidy:
  assumes "tidy M F" "apart M F (Suc k) i"
  shows "tidy M (F(k := insert (2 * i + 1) (F k)))" "apart M (F(k := insert (2 * i + 1) (F k))) k (2 * i)"
    and "2 * i + 1 \<notin> F k" "2 * i + 1 < 2 ^ (M - k)"
proof -
  have k: "Suc k \<le> M" "i < 2 ^ (M - Suc k)" "block (Suc k) i \<inter> free_area M F = {}" using assms(2) by (simp_all add: apart_def)
  have "2 ^ (M - k) = 2 * (2 :: nat) ^ (M - Suc k)" using k(1) by (simp add: Suc_diff_Suc[symmetric] less_eq_Suc_le)
  then have b: "2 * i + 1 < 2 ^ (M - k)" using k(2) by simp
  have ap: "apart M F k (2 * i + 1)" "block k (2 * i) \<inter> free_area M F = {}"
    using k b unfolding apart_def block_halves by auto
  have half: "2 * i \<notin> F k" using ap(2) block_sub_area[of k M "2 * i" F] block_nonempty[of "2 * i" k] k(1) by auto
  show "2 * i + 1 \<notin> F k" using ap(1) block_sub_area[of k M "2 * i + 1" F] block_nonempty[of "2 * i + 1" k] k(1)
    by (auto simp: apart_def)
  show "tidy M (F(k := insert (2 * i + 1) (F k)))" by (rule insert_tidy[OF assms(1) ap(1)]) (simp add: half)
  show "apart M (F(k := insert (2 * i + 1) (F k))) k (2 * i)"
    using k(1) b ap(2) halves_disjoint[of k i] area_insert[of k M F "2 * i + 1"] by (auto simp: apart_def)
  show "2 * i + 1 < 2 ^ (M - k)" by (rule b)
qed

text \<open>Merging: a block in use and its free sibling become one block in use.\<close>

lemma merge_tidy:
  assumes "tidy M F" "apart M F k i" "s = (if even i then i + 1 else i - 1)" "s \<in> F k"
  shows "Suc k \<le> M" "tidy M (F(k := F k - {s}))" "apart M (F(k := F k - {s})) (Suc k) (i div 2)"
    and "free_area M (F(k := F k - {s})) \<union> block (Suc k) (i div 2) = free_area M F \<union> block k i"
proof -
  have k: "k \<le> M" "i < 2 ^ (M - k)" "block k i \<inter> free_area M F = {}" using assms(2) by (simp_all add: apart_def)
  have s: "s < 2 ^ (M - k)" using tidyD(1)[OF assms(1) k(1) assms(4)] .
  have "M \<noteq> k" using s k(2) assms(3) by (auto split: if_splits)
  then show sk: "Suc k \<le> M" using k(1) by simp
  note rm = area_remove[OF assms(1) k(1) assms(4)]
  have u: "block (Suc k) (i div 2) = block k i \<union> block k s"
    unfolding block_halves using assms(3) by (cases "even i") (auto elim!: oddE)
  show "tidy M (F(k := F k - {s}))" by (rule take_tidy[OF assms(1) k(1) assms(4)])
  have "2 ^ (M - k) = 2 * (2 :: nat) ^ (M - Suc k)" using sk by (simp add: Suc_diff_Suc[symmetric] less_eq_Suc_le)
  then have "i div 2 < 2 ^ (M - Suc k)" using k(2) by simp
  then show "apart M (F(k := F k - {s})) (Suc k) (i div 2)"
    unfolding apart_def u rm using sk k(3) by auto
  show "free_area M (F(k := F k - {s})) \<union> block (Suc k) (i div 2) = free_area M F \<union> block k i"
    unfolding u rm using block_sub_area[of k M s F] k(1) assms(4) by auto
qed

section \<open>Completeness and uniqueness\<close>

text \<open>
  Since siblings are never free side by side, an aligned block whose segments are all
  free lies inside one free block.
\<close>

lemma covered_block:
  assumes "tidy M F" "k \<le> M" "block k i \<subseteq> free_area M F"
  shows "\<exists>o'. k \<le> o' \<and> o' \<le> M \<and> i div 2 ^ (o' - k) \<in> F o'"
  using assms(2,3)
proof (induction k arbitrary: i)
  case 0
  then show ?case by (auto simp: block_iff area_iff)
next
  case (Suc k)
  have "\<exists>o'. k \<le> o' \<and> o' \<le> M \<and> (2 * i) div 2 ^ (o' - k) \<in> F o'" "\<exists>o'. k \<le> o' \<and> o' \<le> M \<and> (2 * i + 1) div 2 ^ (o' - k) \<in> F o'"
    using Suc.IH[of "2 * i"] Suc.IH[of "2 * i + 1"] Suc.prems block_halves[of k i] by auto
  then obtain a b where a: "k \<le> a" "a \<le> M" "(2 * i) div 2 ^ (a - k) \<in> F a"
    and b: "k \<le> b" "b \<le> M" "(2 * i + 1) div 2 ^ (b - k) \<in> F b" by blast
  have up: "(2 * i) div 2 ^ (c - k) = i div 2 ^ (c - Suc k)" "(2 * i + 1) div 2 ^ (c - k) = i div 2 ^ (c - Suc k)" if "k < c" for c
  proof -
    have "c - k = Suc (c - Suc k)" using that by simp
    then show "(2 * i) div 2 ^ (c - k) = i div 2 ^ (c - Suc k)" "(2 * i + 1) div 2 ^ (c - k) = i div 2 ^ (c - Suc k)"
      by (simp_all add: div_mult2_eq)
  qed
  show ?case
  proof (cases "k < a \<or> k < b")
    case True
    then show ?thesis using a b up by (metis Suc_leI)
  next
    case False
    then have "a = k" "b = k" using a(1) b(1) by simp_all
    then have "2 * i \<in> F k" "2 * i + 1 \<in> F k" using a(3) b(3) by simp_all
    then show ?thesis using tidyD(3)[OF assms(1), of k i] Suc.prems(1) by simp
  qed
qed

text \<open>The free segments determine the free blocks.\<close>

lemma free_area_unique_sub:
  assumes "tidy M F" "tidy M G" "free_area M F = free_area M G" "k \<le> M" "i \<in> F k"
  shows "i \<in> G k"
proof -
  let ?x = "i * 2 ^ k"
  have sub: "block k i \<subseteq> free_area M G" using block_sub_area[of k M i F] assms by simp
  then obtain a where a: "k \<le> a" "a \<le> M" "i div 2 ^ (a - k) \<in> G a" using covered_block[OF assms(2,4)] by blast
  define j where "j = i div 2 ^ (a - k)"
  have "block a j \<subseteq> free_area M F" using block_sub_area[of a M j G] a assms(3) j_def by simp
  then obtain b where b: "a \<le> b" "b \<le> M" "j div 2 ^ (b - a) \<in> F b" using covered_block[OF assms(1) a(2)] by blast
  have xk: "?x div 2 ^ k = i" by simp
  have xa: "?x div 2 ^ a = j"
  proof -
    have "?x div 2 ^ a = ?x div 2 ^ k div 2 ^ (a - k)" by (rule div_up[OF a(1)])
    then show ?thesis by (simp add: j_def)
  qed
  have "?x div 2 ^ b = ?x div 2 ^ a div 2 ^ (b - a)" by (rule div_up[OF b(1)])
  then have "?x div 2 ^ b \<in> F b" using xa b(3) by simp
  then have "b = k" using tidyD(2)[OF assms(1) b(2) assms(4), of ?x] assms(5) xk by simp
  then show ?thesis using a b by simp
qed

lemma free_area_unique:
  assumes "tidy M F" "tidy M G" "free_area M F = free_area M G" "k \<le> M"
  shows "F k = G k"
  using free_area_unique_sub[OF assms(1,2,3,4)] free_area_unique_sub[OF assms(2,1) assms(3)[symmetric] assms(4)] by blast

end
