(* ===== verification/Run_Allocator.thy ===== *)
theory Run_Allocator
  imports Prelude
begin

text \<open>
  The contract between an allocator of aligned runs of segments and its client. A client
  keeps a family of runs it has been given, indexed by the objects that live in them. The
  locale states what the allocator promises; its lemmas show that the runs of a client
  stay inside the memory, disjoint from each other and from the free segments, and
  that together they are no larger than the memory.
\<close>

definition run :: "nat \<Rightarrow> nat \<Rightarrow> nat set" where
  "run s order = {s..<s + 2 ^ order}"

text \<open>Object \<open>c\<close> of the client holds the run of order \<open>snd (pl c)\<close> from \<open>fst (pl c)\<close>.\<close>

definition place_run :: "('c \<Rightarrow> nat \<times> nat) \<Rightarrow> 'c \<Rightarrow> nat set" where
  "place_run pl c = run (fst (pl c)) (snd (pl c))"

definition holding :: "nat \<Rightarrow> nat set \<Rightarrow> 'c set \<Rightarrow> ('c \<Rightarrow> nat \<times> nat) \<Rightarrow> bool" where
  "holding M free I pl \<longleftrightarrow>
     (\<forall>c\<in>I. snd (pl c) \<le> M \<and> 2 ^ snd (pl c) dvd fst (pl c) \<and> place_run pl c \<subseteq> {..<2 ^ M} - free) \<and>
     (\<forall>c\<in>I. \<forall>d\<in>I. c \<noteq> d \<longrightarrow> place_run pl c \<inter> place_run pl d = {})"

lemma holding_empty [simp]: "holding M free {} pl"
  by (simp add: holding_def)

lemma holding_cong:
  assumes "\<And>c. c \<in> I \<Longrightarrow> pl c = pl' c"
  shows "holding M free I pl \<longleftrightarrow> holding M free I pl'"
  using assms by (auto simp: holding_def place_run_def)

lemma card_run [simp]: "card (run s k) = 2 ^ k"
  by (simp add: run_def)

lemma holding_total:
  assumes "holding M free I pl" "finite I"
  shows "(\<Sum>c\<in>I. 2 ^ snd (pl c)) \<le> (2 :: nat) ^ M"
proof -
  have "(\<Sum>c\<in>I. 2 ^ snd (pl c)) = (\<Sum>c\<in>I. card (place_run pl c))" by (simp add: place_run_def)
  also have "\<dots> = card (\<Union>c\<in>I. place_run pl c)"
    using assms by (intro card_UN_disjoint[symmetric]) (auto simp: holding_def place_run_def run_def)
  also have "\<dots> \<le> card {..<(2 :: nat) ^ M}"
    using assms(1) by (intro card_mono) (auto simp: holding_def)
  finally show ?thesis by simp
qed

locale run_allocator =
  fixes alloc :: "nat \<Rightarrow> 'b \<Rightarrow> fault + int \<times> 'b"
    and release :: "nat \<Rightarrow> nat \<Rightarrow> 'b \<Rightarrow> fault + 'b"
    and free_set :: "'b \<Rightarrow> nat set"
    and well :: "'b \<Rightarrow> bool"
    and highest_order :: "'b \<Rightarrow> nat"
  assumes free_bounded: "well b \<Longrightarrow> free_set b \<subseteq> {..<2 ^ highest_order b}"
    and alloc_total: "well b \<Longrightarrow> k \<le> highest_order b \<Longrightarrow>
      alloc k b = Inr (-1, b) \<and> \<not> (\<exists>i. run (i * 2 ^ k) k \<subseteq> free_set b) \<or>
      (\<exists>s b'. alloc k b = Inr (int s, b'))"
    and alloc_law: "well b \<Longrightarrow> k \<le> highest_order b \<Longrightarrow> alloc k b = Inr (int s, b') \<Longrightarrow>
      well b' \<and> highest_order b' = highest_order b \<and> 2 ^ k dvd s \<and> run s k \<subseteq> free_set b \<and> free_set b' = free_set b - run s k"
    and release_law: "well b \<Longrightarrow> k \<le> highest_order b \<Longrightarrow> 2 ^ k dvd s \<Longrightarrow> run s k \<subseteq> {..<2 ^ highest_order b} - free_set b \<Longrightarrow>
      \<exists>b'. release s k b = Inr b' \<and> well b' \<and> highest_order b' = highest_order b \<and> free_set b' = free_set b \<union> run s k"
begin

text \<open>A run that is allocated can be added to those the client holds.\<close>

lemma alloc_holding:
  assumes "well b" "k \<le> highest_order b" "alloc k b = Inr (int s, b')" "holding (highest_order b) (free_set b) I pl" "c \<notin> I"
  shows "holding (highest_order b') (free_set b') (insert c I) (pl(c := (s, k)))"
proof -
  note l = alloc_law[OF assms(1-3)]
  have new: "place_run (pl(c := (s, k))) c = run s k" by (simp add: place_run_def)
  have old: "place_run (pl(c := (s, k))) d = place_run pl d" if "d \<in> I" for d using that assms(5) by (auto simp: place_run_def)
  have sub: "place_run pl d \<subseteq> {..<2 ^ highest_order b} - free_set b" if "d \<in> I" for d using assms(4) that by (simp add: holding_def)
  have d: "place_run pl d \<inter> run s k = {}" if "d \<in> I" for d using sub[OF that] l by blast
  show ?thesis
    unfolding holding_def
  proof (intro conjI ballI impI)
    fix d assume "d \<in> insert c I"
    then consider "d = c" | "d \<in> I" by blast
    then show "place_run (pl(c := (s, k))) d \<subseteq> {..<2 ^ highest_order b'} - free_set b'"
    proof cases
      case 1
      then show ?thesis using l free_bounded[OF assms(1)] new by auto
    next
      case 2
      then show ?thesis using l sub[OF 2] old[OF 2] by auto
    qed
  next
    have pair: "place_run pl d \<inter> place_run pl e = {}" if "d \<in> I" "e \<in> I" "d \<noteq> e" for d e
      using assms(4) that by (simp add: holding_def)
    fix x y assume xy: "x \<in> insert c I" "y \<in> insert c I" "x \<noteq> y"
    then consider "x = c" "y \<in> I" | "x \<in> I" "y = c" | "x \<in> I" "y \<in> I" by blast
    then show "place_run (pl(c := (s, k))) x \<inter> place_run (pl(c := (s, k))) y = {}"
      using old new d pair xy(3) by cases (simp_all add: Int_commute)
  qed (use l assms(2,4,5) in \<open>auto simp: holding_def\<close>)
qed

text \<open>A run the client holds can be released, which leaves it the others.\<close>

lemma release_holding:
  assumes "well b" "holding (highest_order b) (free_set b) I pl" "c \<in> I"
  shows "\<exists>b'. release (fst (pl c)) (snd (pl c)) b = Inr b' \<and> well b' \<and> highest_order b' = highest_order b \<and>
    free_set b' = free_set b \<union> place_run pl c \<and> holding (highest_order b') (free_set b') (I - {c}) pl"
proof -
  have c: "snd (pl c) \<le> highest_order b" "2 ^ snd (pl c) dvd fst (pl c)" "run (fst (pl c)) (snd (pl c)) \<subseteq> {..<2 ^ highest_order b} - free_set b"
    using assms(2,3) by (auto simp: holding_def place_run_def)
  then obtain b' where b': "release (fst (pl c)) (snd (pl c)) b = Inr b'" "well b'" "highest_order b' = highest_order b"
    "free_set b' = free_set b \<union> place_run pl c" using release_law[OF assms(1)] unfolding place_run_def by blast
  have "holding (highest_order b') (free_set b') (I - {c}) pl"
    using assms(2,3) unfolding holding_def b'(3,4) by blast
  then show ?thesis using b' by blast
qed

text \<open>Taking a run and releasing it at once leaves the free segments as they were.\<close>

lemma alloc_release:
  assumes "well b" "k \<le> highest_order b" "alloc k b = Inr (int s, b')"
  shows "\<exists>b''. release s k b' = Inr b'' \<and> well b'' \<and> highest_order b'' = highest_order b \<and> free_set b'' = free_set b"
proof -
  note l = alloc_law[OF assms]
  have "run s k \<subseteq> {..<2 ^ highest_order b'} - free_set b'" using l free_bounded[OF assms(1)] by auto
  then obtain b'' where b'': "release s k b' = Inr b''" "well b''" "highest_order b'' = highest_order b'" "free_set b'' = free_set b' \<union> run s k"
    using release_law[of b' k s] l assms(2) by auto
  then show ?thesis using l by auto
qed

end

end
