(* ===== verification/Buddy.thy ===== *)
theory Buddy
  imports Bitmap Buddy_Blocks Run_Allocator
begin

text \<open>
  The buddy allocator of \<open>providers/mlx5/dr_buddy.c\<close>, which hands out aligned runs of
  segments of device memory. Every order has a bitmap of its free blocks, a count of
  them, and a second bitmap with a bit for every word of the first one that is not
  zero. Orders and segments are natural numbers; shifts of \<open>int\<close> values fault where C leaves
  them undefined. The lists of chunks and the memory in use belong to the pool that
  owns the allocator. Memory that has been given back is modelled by empty arrays,
  so that every later access is a fault.
\<close>

section \<open>State\<close>

record dr_icm_mr =
  mr_base :: u64
  mr_rkey :: u32
  icm_start_addr :: u64

record dr_icm_buddy_mem =
  bits :: "bitmap list"
  num_free :: "u32 list"
  set_bit' :: "bitmap list"
  max_order :: nat
  icm_mr :: dr_icm_mr
  used_list :: "nat list"
  used_memory :: u64
  hot_list :: "nat list"

definition BITS_PER_LONG :: nat where
  "BITS_PER_LONG = 64"

definition BITS_TO_LONGS :: "nat \<Rightarrow> nat" where
  "BITS_TO_LONGS nr = (nr + BITS_PER_LONG - 1) div BITS_PER_LONG"

definition index_at :: "'a list \<Rightarrow> nat \<Rightarrow> fault + 'a" where
  "index_at xs i = (if i < length xs then Inr (xs ! i) else Inl OutOfBounds)"

definition update_at :: "('a \<Rightarrow> fault + 'a) \<Rightarrow> 'a list \<Rightarrow> nat \<Rightarrow> fault + 'a list" where
  "update_at f xs i = bindE (index_at xs i) (\<lambda>x. bindE (f x) (\<lambda>x. Inr (xs[i := x])))"

text \<open>A left shift of a value of type \<open>int\<close> that is not negative.\<close>

definition shl :: "nat \<Rightarrow> nat \<Rightarrow> fault + nat" where
  "shl x k = (if k \<ge> 32 then Inl BadShift else if x * 2 ^ k < 2 ^ 31 then Inr (x * 2 ^ k) else Inl SignedOverflow)"

section \<open>Operations\<close>

definition dr_find_first_bit :: "bitmap \<Rightarrow> bitmap \<Rightarrow> nat \<Rightarrow> fault + nat" where
  "dr_find_first_bit set_addr addr sz =
    (let set_size = (sz - 1) div BITS_PER_LONG + 1 in
     bindE (bitmap_ffs set_addr 0 set_size) (\<lambda>set_idx.
     bitmap_ffs addr (set_idx * BITS_PER_LONG) sz))"

text \<open>
  Allocation: \<open>ok n\<close> tells whether the \<open>n\<close>-th allocation of the run succeeds. One bitmap per
  order, of the size that \<open>sz\<close> computes from the number of blocks; None where one of the
  allocations fails.
\<close>

fun alloc_bitmaps :: "(nat \<Rightarrow> bool) \<Rightarrow> (nat \<Rightarrow> nat) \<Rightarrow> nat \<Rightarrow> nat list \<Rightarrow> nat \<Rightarrow> fault + nat \<times> bitmap list option" where
  "alloc_bitmaps ok sz M [] t = Inr (t, Some [])"
| "alloc_bitmaps ok sz M (i # is) t =
    bindE (shl 1 (M - i)) (\<lambda>s.
      if ok t then
        bindE (alloc_bitmaps ok sz M is (t + 1)) (\<lambda>(t, r). Inr (t, map_option ((#) (bitmap_alloc0 (sz s))) r))
      else Inr (t + 1, None))"

definition ENOMEM :: nat where
  "ENOMEM = 12"

definition freed :: "dr_icm_buddy_mem \<Rightarrow> dr_icm_buddy_mem" where
  "freed buddy = buddy\<lparr>bits := [], num_free := [], set_bit' := []\<rparr>"

definition dr_buddy_init :: "(nat \<Rightarrow> bool) \<Rightarrow> nat \<Rightarrow> dr_icm_buddy_mem \<Rightarrow> nat \<Rightarrow> fault + nat \<times> nat \<times> dr_icm_buddy_mem" where
  "dr_buddy_init ok t buddy max_order_arg =
    (let buddy = buddy\<lparr>max_order := max_order_arg, used_list := [], hot_list := []\<rparr>;
         orders = [0..<max_order buddy + 1]
     in if \<not> ok t then Inr (ENOMEM, t + 1, freed buddy)
     else if \<not> ok (t + 1) then Inr (ENOMEM, t + 2, freed buddy)
     else if \<not> ok (t + 2) then Inr (ENOMEM, t + 3, freed buddy)
     else
       bindE (alloc_bitmaps ok id (max_order buddy) orders (t + 3)) (\<lambda>(t, bm).
       case bm of None \<Rightarrow> Inr (ENOMEM, t, freed buddy)
       | Some bm \<Rightarrow>
       bindE (alloc_bitmaps ok BITS_TO_LONGS (max_order buddy) orders t) (\<lambda>(t, sb).
       case sb of None \<Rightarrow> Inr (ENOMEM, t, freed buddy)
       | Some sb \<Rightarrow>
       bindE (update_at (\<lambda>b. bitmap_set_bit b 0) bm (max_order buddy)) (\<lambda>bm.
       bindE (update_at (\<lambda>b. bitmap_set_bit b 0) sb (max_order buddy)) (\<lambda>sb.
       bindE (update_at (\<lambda>n. Inr 1) (replicate (max_order buddy + 1) 0) (max_order buddy)) (\<lambda>nf.
       Inr (0, t, buddy\<lparr>bits := bm, num_free := nf, set_bit' := sb\<rparr>)))))))"

text \<open>The clean-up takes the allocator, known by its address, off the list that holds it.\<close>

definition dr_buddy_cleanup :: "nat \<Rightarrow> nat list \<Rightarrow> dr_icm_buddy_mem \<Rightarrow> nat list \<times> dr_icm_buddy_mem" where
  "dr_buddy_cleanup a l buddy = (remove1 a l, freed buddy)"

definition dr_buddy_get_seg_borders :: "nat \<Rightarrow> nat \<times> nat" where
  "dr_buddy_get_seg_borders seg =
    (seg div BITS_PER_LONG * BITS_PER_LONG, (seg div BITS_PER_LONG + 1) * BITS_PER_LONG)"

definition dr_buddy_update_upper_bitmap :: "nat \<Rightarrow> nat \<Rightarrow> dr_icm_buddy_mem \<Rightarrow> fault + dr_icm_buddy_mem" where
  "dr_buddy_update_upper_bitmap seg order buddy =
    (let (l, h) = dr_buddy_get_seg_borders seg in
     bindE (index_at (bits buddy) order) (\<lambda>b.
     bindE (bitmap_ffs b l h) (\<lambda>m.
     if m = h then
       bindE (update_at (\<lambda>s. bitmap_clear_bit s (seg div BITS_PER_LONG)) (set_bit' buddy) order) (\<lambda>sb.
       Inr (buddy\<lparr>set_bit' := sb\<rparr>))
     else Inr buddy)))"

text \<open>The statements that take a free block off its order, and those that add one to it.\<close>

definition take_block :: "nat \<Rightarrow> nat \<Rightarrow> dr_icm_buddy_mem \<Rightarrow> fault + dr_icm_buddy_mem" where
  "take_block order seg buddy =
    bindE (update_at (\<lambda>b. bitmap_clear_bit b seg) (bits buddy) order) (\<lambda>bm.
    bindE (dr_buddy_update_upper_bitmap seg order (buddy\<lparr>bits := bm\<rparr>)) (\<lambda>buddy.
    bindE (update_at (\<lambda>n. Inr (n - 1)) (num_free buddy) order) (\<lambda>nf.
    Inr (buddy\<lparr>num_free := nf\<rparr>))))"

definition put_block :: "nat \<Rightarrow> nat \<Rightarrow> dr_icm_buddy_mem \<Rightarrow> fault + dr_icm_buddy_mem" where
  "put_block order seg buddy =
    bindE (update_at (\<lambda>b. bitmap_set_bit b seg) (bits buddy) order) (\<lambda>bm.
    bindE (update_at (\<lambda>s. bitmap_set_bit s (seg div BITS_PER_LONG)) (set_bit' buddy) order) (\<lambda>sb.
    bindE (update_at (\<lambda>n. Inr (n + 1)) (num_free buddy) order) (\<lambda>nf.
    Inr (buddy\<lparr>bits := bm, set_bit' := sb, num_free := nf\<rparr>))))"

text \<open>The search of an allocation: the first order with a free block, and the block.\<close>

function find_block :: "dr_icm_buddy_mem \<Rightarrow> nat \<Rightarrow> fault + (nat \<times> nat) option" where
  "find_block buddy k =
    (if k \<le> max_order buddy then
       bindE (index_at (num_free buddy) k) (\<lambda>n.
       if n \<noteq> 0 then
         bindE (shl 1 (max_order buddy - k)) (\<lambda>m.
         bindE (index_at (set_bit' buddy) k) (\<lambda>s.
         bindE (index_at (bits buddy) k) (\<lambda>b.
         bindE (dr_find_first_bit s b m) (\<lambda>seg.
         if m \<le> seg then Inl AssertFailed else Inr (Some (k, seg))))))
       else find_block buddy (k + 1))
     else Inr None)"
  by pat_completeness auto
termination by (relation "measure (\<lambda>(b, k). Suc (max_order b) - k)") auto

text \<open>Halving a block down to the requested order.\<close>

function split_block :: "nat \<Rightarrow> nat \<Rightarrow> nat \<Rightarrow> dr_icm_buddy_mem \<Rightarrow> fault + nat \<times> dr_icm_buddy_mem" where
  "split_block order k seg buddy =
    (if k > order then
       bindE (shl seg 1) (\<lambda>seg.
       bindE (put_block (k - 1) (seg XOR 1) buddy) (\<lambda>buddy.
       split_block order (k - 1) seg buddy))
     else Inr (seg, buddy))"
  by pat_completeness auto
termination by (relation "measure (\<lambda>(order, k, seg, b). k - order)") auto

definition dr_buddy_alloc_mem :: "nat \<Rightarrow> dr_icm_buddy_mem \<Rightarrow> fault + int \<times> dr_icm_buddy_mem" where
  "dr_buddy_alloc_mem order buddy =
    bindE (find_block buddy order) (\<lambda>r.
    case r of None \<Rightarrow> Inr (-1, buddy)
    | Some (k, seg) \<Rightarrow>
      bindE (take_block k seg buddy) (\<lambda>buddy.
      bindE (split_block order k seg buddy) (\<lambda>(seg, buddy).
      bindE (shl seg order) (\<lambda>seg.
      Inr (int seg, buddy)))))"

text \<open>Merging a block with its sibling as long as that is free.\<close>

lemma bindE_cong [fundef_cong]:
  "m = m' \<Longrightarrow> (\<And>x. m' = Inr x \<Longrightarrow> f x = g x) \<Longrightarrow> bindE m f = bindE m' g"
  by (cases m') auto

lemma index_at_Inr: "index_at xs i = Inr x \<longleftrightarrow> i < length xs \<and> x = xs ! i"
  by (auto simp: index_at_def)

lemma update_at_Inr: "update_at f xs i = Inr ys \<longleftrightarrow> i < length xs \<and> (\<exists>y. f (xs ! i) = Inr y \<and> ys = xs[i := y])"
  by (auto simp: update_at_def bindE_Inr index_at_Inr)

lemma update_upper_bits: "dr_buddy_update_upper_bitmap seg order b = Inr b' \<Longrightarrow> bits b' = bits b"
  by (auto simp: dr_buddy_update_upper_bitmap_def dr_buddy_get_seg_borders_def bindE_Inr split: if_splits)

lemma take_block_length: "take_block order seg b = Inr b' \<Longrightarrow> length (bits b') = length (bits b)"
  by (auto simp: take_block_def bindE_Inr update_at_Inr dest!: update_upper_bits)

function merge_block :: "nat \<Rightarrow> nat \<Rightarrow> dr_icm_buddy_mem \<Rightarrow> fault + nat \<times> nat \<times> dr_icm_buddy_mem" where
  "merge_block order seg buddy =
    bindE (index_at (bits buddy) order) (\<lambda>b.
    bindE (bitmap_test_bit b (seg XOR 1)) (\<lambda>sibling_free.
    if sibling_free then
      bindE (take_block order (seg XOR 1) buddy) (\<lambda>buddy. merge_block (order + 1) (drop_bit 1 seg) buddy)
    else Inr (order, seg, buddy)))"
  by pat_completeness auto
termination
  by (relation "measure (\<lambda>(order, seg, b). length (bits b) - order)")
    (auto simp: take_block_length index_at_Inr)

definition dr_buddy_free_mem :: "nat \<Rightarrow> nat \<Rightarrow> dr_icm_buddy_mem \<Rightarrow> fault + dr_icm_buddy_mem" where
  "dr_buddy_free_mem seg order buddy =
    (if order \<ge> 32 then Inl BadShift
     else bindE (merge_block order (drop_bit order seg) buddy) (\<lambda>(order, seg, buddy). put_block order seg buddy))"

declare find_block.simps [simp del] split_block.simps [simp del] merge_block.simps [simp del]

section \<open>Well-formed allocators\<close>

definition fblocks :: "dr_icm_buddy_mem \<Rightarrow> blocks" where
  "fblocks b = (\<lambda>k. bits_of (bits b ! k))"

definition buddy_wf :: "dr_icm_buddy_mem \<Rightarrow> bool" where
  "buddy_wf b \<longleftrightarrow>
    (let M = max_order b in M \<le> 30 \<and> length (bits b) = Suc M \<and> length (num_free b) = Suc M \<and> length (set_bit' b) = Suc M \<and>
     (\<forall>k\<le>M. length (bits b ! k) = BITS_TO_LONGS (2 ^ (M - k)) \<and>
       length (set_bit' b ! k) = BITS_TO_LONGS (BITS_TO_LONGS (2 ^ (M - k))) \<and>
       fblocks b k \<subseteq> {..<2 ^ (M - k)} \<and> unat (num_free b ! k) = card (fblocks b k) \<and>
       bits_of (set_bit' b ! k) = (\<lambda>i. i div 64) ` fblocks b k))"

lemma to_longs: "n \<le> 64 * BITS_TO_LONGS n" "i < n \<Longrightarrow> i div 64 < BITS_TO_LONGS n"
    "0 < n \<Longrightarrow> (n - 1) div 64 + 1 = BITS_TO_LONGS n" "BITMAP_NWORDS = BITS_TO_LONGS"
proof -
  show "n \<le> 64 * BITS_TO_LONGS n" "i < n \<Longrightarrow> i div 64 < BITS_TO_LONGS n"
    unfolding BITS_TO_LONGS_def BITS_PER_LONG_def by linarith+
  show "(n - 1) div 64 + 1 = BITS_TO_LONGS n" if "0 < n"
  proof -
    have "n + 64 - 1 = n - 1 + 64" using that by simp
    then show ?thesis unfolding BITS_TO_LONGS_def BITS_PER_LONG_def by (simp only: div_add_self2)
  qed
qed (simp add: fun_eq_iff BITMAP_NWORDS_def BITS_TO_LONGS_def BITS_PER_LONG_def)

lemma wfD:
  assumes "buddy_wf b" "k \<le> max_order b"
  shows "max_order b \<le> 30" "k < length (bits b)" "k < length (num_free b)" "k < length (set_bit' b)"
    and "length (bits b ! k) = BITS_TO_LONGS (2 ^ (max_order b - k))"
    and "length (set_bit' b ! k) = BITS_TO_LONGS (BITS_TO_LONGS (2 ^ (max_order b - k)))"
    and "bits_of (bits b ! k) \<subseteq> {..<2 ^ (max_order b - k)}" "unat (num_free b ! k) = card (bits_of (bits b ! k))"
    and "bits_of (set_bit' b ! k) = (\<lambda>i. i div 64) ` bits_of (bits b ! k)"
  using assms unfolding buddy_wf_def Let_def fblocks_def by simp_all

text \<open>A change of one order keeps the allocator well formed if that order is.\<close>

lemma wf_upd:
  assumes "buddy_wf b" "k \<le> max_order b" "length bm = length (bits b ! k)" "length sb = length (set_bit' b ! k)"
    and "bits_of bm \<subseteq> {..<2 ^ (max_order b - k)}" "unat n = card (bits_of bm)" "bits_of sb = (\<lambda>i. i div 64) ` bits_of bm"
    and "b' = b\<lparr>bits := (bits b)[k := bm], set_bit' := (set_bit' b)[k := sb], num_free := (num_free b)[k := n]\<rparr>"
  shows "buddy_wf b' \<and> fblocks b' = (fblocks b)(k := bits_of bm)"
proof -
  have "k < length (bits b)" "k < length (num_free b)" "k < length (set_bit' b)" using wfD[OF assms(1,2)] by simp_all
  moreover have "fblocks b' = (fblocks b)(k := bits_of bm)" using calculation assms(8) by (auto simp: fblocks_def fun_eq_iff nth_list_update)
  ultimately show ?thesis
    using assms unfolding buddy_wf_def Let_def by (auto simp: nth_list_update)
qed

lemma card_bound:
  fixes S :: "nat set"
  assumes "S \<subseteq> {..<2 ^ (M - k)}" "M \<le> 30"
  shows "finite S" "card S \<le> 2 ^ 30"
proof -
  show "finite S" by (rule finite_subset[OF assms(1)]) simp
  have "card S \<le> card {..<(2 :: nat) ^ (M - k)}" using assms(1) by (intro card_mono) auto
  also have "\<dots> \<le> 2 ^ 30" unfolding card_lessThan using assms(2) by (intro power_increasing) auto
  finally show "card S \<le> 2 ^ 30" .
qed

lemma word_range: "q * 64 \<le> i \<and> i < (q + 1) * 64 \<longleftrightarrow> i div 64 = (q :: nat)"
  using less_eq_div_iff_mult_less_eq[of 64 q i] div_less_iff_less_mult[of 64 i "q + 1"] by linarith

lemma update_upper_eq:
  assumes "k < length (bits b)" "k < length (set_bit' b)" "bitmap_ffs (bits b ! k) (seg div 64 * 64) ((seg div 64 + 1) * 64) = Inr r"
    and "bitmap_clear_bit (set_bit' b ! k) (seg div 64) = Inr sb"
  shows "dr_buddy_update_upper_bitmap seg k b =
    Inr (b\<lparr>set_bit' := (set_bit' b)[k := if r = (seg div 64 + 1) * 64 then sb else set_bit' b ! k]\<rparr>)"
  unfolding dr_buddy_update_upper_bitmap_def dr_buddy_get_seg_borders_def BITS_PER_LONG_def index_at_def update_at_def
    Let_def prod.case if_P[OF assms(1)] if_P[OF assms(2)] bindE.simps assms(3,4)
  by (cases "r = (seg div 64 + 1) * 64") simp_all

lemma update_upper_ok:
  assumes "k < length (bits b)" "k < length (set_bit' b)" "seg div 64 < length (bits b ! k)" "seg div 64 div 64 < length (set_bit' b ! k)"
    and "insert (seg div 64) ((\<lambda>i. i div 64) ` bits_of (bits b ! k)) = bits_of (set_bit' b ! k)"
  shows "\<exists>sb. dr_buddy_update_upper_bitmap seg k b = Inr (b\<lparr>set_bit' := (set_bit' b)[k := sb]\<rparr>) \<and>
    length sb = length (set_bit' b ! k) \<and> bits_of sb = (\<lambda>i. i div 64) ` bits_of (bits b ! k)"
proof -
  define q where "q = seg div 64"
  let ?S = "bits_of (bits b ! k)" and ?l = "q * 64" and ?h = "(q + 1) * 64"
  have le: "?l \<le> ?h" "?h \<le> 64 * length (bits b ! k)" using assms(3)[folded q_def] by simp_all
  obtain r where r: "bitmap_ffs (bits b ! k) ?l ?h = Inr r"
    "first_in ?S ?l ?h r \<or> r = ?h \<and> (\<forall>i. ?l \<le> i \<and> i < ?h \<longrightarrow> i \<notin> ?S)" using bitmap_ffs_ok[OF le] by blast
  obtain sb where sb: "bitmap_clear_bit (set_bit' b ! k) (seg div 64) = Inr sb" "length sb = length (set_bit' b ! k)"
    "bits_of sb = bits_of (set_bit' b ! k) - {q}" using bitmap_bit_ok(2)[OF assms(4)] unfolding q_def by blast
  note eq = update_upper_eq[OF assms(1,2) r(1)[unfolded q_def] sb(1), folded q_def]
  note set_bits = assms(5)[folded q_def]
  show ?thesis
  proof (cases "r = ?h")
    case True
    then have "\<not> first_in ?S ?l ?h r" by (simp add: first_in_def)
    then have "q \<notin> (\<lambda>i. i div 64) ` ?S" using r(2) word_range[of q] by blast
    then have "bits_of sb = (\<lambda>i. i div 64) ` ?S" using sb(3) set_bits by blast
    then show ?thesis using eq sb(2) True by (intro exI[of _ sb]) simp
  next
    case False
    then have "first_in ?S ?l ?h r" using r(2) by blast
    then have "r \<in> ?S" "r div 64 = q" using word_range[of q r] by (simp_all add: first_in_def)
    then have "q \<in> (\<lambda>i. i div 64) ` ?S" by (metis image_eqI)
    then have "bits_of (set_bit' b ! k) = (\<lambda>i. i div 64) ` ?S" using set_bits by blast
    then show ?thesis using eq False by (intro exI[of _ "set_bit' b ! k"]) simp
  qed
qed

text \<open>The fields that the pool owns.\<close>

definition same_rest :: "dr_icm_buddy_mem \<Rightarrow> dr_icm_buddy_mem \<Rightarrow> bool" where
  "same_rest b b' \<longleftrightarrow> max_order b' = max_order b \<and> icm_mr b' = icm_mr b \<and> used_list b' = used_list b \<and>
     used_memory b' = used_memory b \<and> hot_list b' = hot_list b"

lemma same_rest_refl [simp]: "same_rest b b"
  by (simp add: same_rest_def)

lemma same_rest_trans [trans]: "same_rest a b \<Longrightarrow> same_rest b c \<Longrightarrow> same_rest a c"
  by (simp add: same_rest_def)

lemma take_block_ok:
  assumes "buddy_wf b" "k \<le> max_order b" "i \<in> fblocks b k"
  shows "\<exists>b'. take_block k i b = Inr b' \<and> buddy_wf b' \<and> fblocks b' = (fblocks b)(k := fblocks b k - {i}) \<and> same_rest b b'"
proof -
  note w = wfD[OF assms(1,2)]
  have i: "i < 2 ^ (max_order b - k)" "i \<in> bits_of (bits b ! k)" using assms(3) w(7) by (auto simp: fblocks_def)
  have len: "i div 64 < length (bits b ! k)" "i div 64 div 64 < length (set_bit' b ! k)"
    unfolding w(5,6) by (rule to_longs(2)[OF i(1)] to_longs(2)[OF to_longs(2)[OF i(1)]])+
  obtain bm where bm: "bitmap_clear_bit (bits b ! k) i = Inr bm" "length bm = length (bits b ! k)" "bits_of bm = bits_of (bits b ! k) - {i}"
    using bitmap_bit_ok(2)[OF len(1)] by blast
  let ?b = "b\<lparr>bits := (bits b)[k := bm]\<rparr>"
  have "insert (i div 64) ((\<lambda>j. j div 64) ` bits_of bm) = bits_of (set_bit' b ! k)" using i(2) bm(3) w(9) by auto
  then obtain sb where sb: "dr_buddy_update_upper_bitmap i k ?b = Inr (?b\<lparr>set_bit' := (set_bit' b)[k := sb]\<rparr>)"
    "length sb = length (set_bit' b ! k)" "bits_of sb = (\<lambda>i. i div 64) ` bits_of bm"
    using update_upper_ok[of k ?b i] w len bm(2) by auto
  define b' where "b' = b\<lparr>bits := (bits b)[k := bm], set_bit' := (set_bit' b)[k := sb], num_free := (num_free b)[k := num_free b ! k - 1]\<rparr>"
  have "take_block k i b = Inr b'"
    using w(2,3) bm(1) sb(1) by (simp add: take_block_def update_at_def index_at_def b'_def)
  moreover have "unat (num_free b ! k - 1) = card (bits_of bm)"
  proof -
    have fin: "finite (bits_of (bits b ! k))" using card_bound[OF w(7,1)] by blast
    then have "0 < card (bits_of (bits b ! k))" using i(2) by (auto simp: card_gt_0_iff)
    then have "1 \<le> num_free b ! k" using w(8) by (simp add: word_le_nat_alt)
    then have "unat (num_free b ! k - 1) = unat (num_free b ! k) - 1" by (simp add: unat_sub)
    then show ?thesis unfolding bm(3) using w(8) i(2) fin by simp
  qed
  then have "buddy_wf b' \<and> fblocks b' = (fblocks b)(k := bits_of bm)"
    by (intro wf_upd[OF assms(1,2) bm(2) sb(2) _ _ sb(3) b'_def]) (use bm(3) w(7) in auto)
  moreover have "same_rest b b'" by (simp add: same_rest_def b'_def)
  ultimately show ?thesis using bm(3) by (auto simp: fblocks_def)
qed

lemma put_block_ok:
  assumes "buddy_wf b" "k \<le> max_order b" "i \<notin> fblocks b k" "i < 2 ^ (max_order b - k)"
  shows "\<exists>b'. put_block k i b = Inr b' \<and> buddy_wf b' \<and> fblocks b' = (fblocks b)(k := insert i (fblocks b k)) \<and> same_rest b b'"
proof -
  note w = wfD[OF assms(1,2)]
  have len: "i div 64 < length (bits b ! k)" "i div 64 div 64 < length (set_bit' b ! k)"
    unfolding w(5,6) by (rule to_longs(2)[OF assms(4)] to_longs(2)[OF to_longs(2)[OF assms(4)]])+
  obtain bm where bm: "bitmap_set_bit (bits b ! k) i = Inr bm" "length bm = length (bits b ! k)" "bits_of bm = insert i (bits_of (bits b ! k))"
    using bitmap_bit_ok(1)[OF len(1)] by blast
  obtain sb where sb: "bitmap_set_bit (set_bit' b ! k) (i div 64) = Inr sb" "length sb = length (set_bit' b ! k)"
    "bits_of sb = insert (i div 64) (bits_of (set_bit' b ! k))" using bitmap_bit_ok(1)[OF len(2)] by blast
  define b' where "b' = b\<lparr>bits := (bits b)[k := bm], set_bit' := (set_bit' b)[k := sb], num_free := (num_free b)[k := num_free b ! k + 1]\<rparr>"
  have "put_block k i b = Inr b'"
    using w(2-4) bm(1) sb(1) by (simp add: put_block_def update_at_def index_at_def b'_def BITS_PER_LONG_def)
  moreover have "unat (num_free b ! k + 1) = card (bits_of bm)"
  proof -
    have fin: "finite (bits_of (bits b ! k))" "card (bits_of (bits b ! k)) \<le> 2 ^ 30" using card_bound[OF w(7,1)] by simp_all
    then have "unat (num_free b ! k + 1) = unat (num_free b ! k) + 1" using unat_add_less[of "num_free b ! k" 1] w(8) by simp
    then show ?thesis unfolding bm(3) using w(8) fin(1) assms(3) by (simp add: fblocks_def)
  qed
  then have "buddy_wf b' \<and> fblocks b' = (fblocks b)(k := bits_of bm)"
    by (intro wf_upd[OF assms(1,2) bm(2) sb(2) _ _ _ b'_def]) (use bm(3) sb(3) w(7,9) assms(4) in auto)
  moreover have "same_rest b b'" by (simp add: same_rest_def b'_def)
  ultimately show ?thesis using bm(3) by (auto simp: fblocks_def)
qed

section \<open>The loops\<close>

lemma sibling: "i XOR 1 = (if even i then i + 1 else i - 1)" for i :: nat
proof (cases "even i")
  case True
  then show ?thesis by (auto simp: xor_nat_unfold[of i] elim!: evenE)
next
  case False
  then show ?thesis by (auto simp: xor_nat_unfold elim!: oddE)
qed

lemma sibling_word: "(i XOR 1) div 64 = i div (64 :: nat)"
proof -
  have "(i XOR 1) div 2 = i div 2" unfolding sibling by (cases "even i") (auto elim: oddE)
  then have "(i XOR 1) div 2 div 32 = i div 2 div 32" by simp
  then show ?thesis by (simp only: div_mult2_eq[symmetric]) simp
qed

lemma shl_1: "M \<le> 30 \<Longrightarrow> shl (Suc 0) (M - k) = Inr (2 ^ (M - k))"
proof -
  assume "M \<le> 30"
  then have "(2 :: nat) ^ (M - k) < 2 ^ 31" by (intro power_strict_increasing) auto
  then show ?thesis using \<open>M \<le> 30\<close> by (simp add: shl_def)
qed

lemma find_first_ok:
  assumes "buddy_wf b" "k \<le> max_order b" "fblocks b k \<noteq> {}"
  shows "\<exists>i. dr_find_first_bit (set_bit' b ! k) (bits b ! k) (2 ^ (max_order b - k)) = Inr i \<and> i < 2 ^ (max_order b - k) \<and>
    i \<in> fblocks b k \<and> (\<forall>j\<in>fblocks b k. i \<le> j)"
proof -
  note w = wfD[OF assms(1,2)]
  define n :: nat where "n = 2 ^ (max_order b - k)"
  define S where "S = bits_of (bits b ! k)"
  have S: "S \<subseteq> {..<n}" "S \<noteq> {}" using w(7) assms(3) by (simp_all add: S_def n_def fblocks_def)
  have set_size: "(n - 1) div 64 + 1 = BITS_TO_LONGS n" by (rule to_longs(3)) (simp add: n_def)
  obtain r where r: "bitmap_ffs (set_bit' b ! k) 0 (BITS_TO_LONGS n) = Inr r"
    "first_in ((\<lambda>i. i div 64) ` S) 0 (BITS_TO_LONGS n) r \<or> r = BITS_TO_LONGS n \<and> (\<forall>i. 0 \<le> i \<and> i < BITS_TO_LONGS n \<longrightarrow> i \<notin> (\<lambda>i. i div 64) ` S)"
    using bitmap_ffs_ok[of 0 "BITS_TO_LONGS n" "set_bit' b ! k"] to_longs(1)[of "BITS_TO_LONGS n"] w(6,9) by (auto simp: S_def n_def)
  have "\<exists>i<BITS_TO_LONGS n. i \<in> (\<lambda>i. i div 64) ` S" using S to_longs(2)[of _ n] by blast
  then have f: "first_in ((\<lambda>i. i div 64) ` S) 0 (BITS_TO_LONGS n) r" using r(2) by blast
  then obtain i where i: "i \<in> S" "i div 64 = r" by (auto simp: first_in_def)
  have least: "r * 64 \<le> j" if "j \<in> S" for j
  proof -
    have "r \<le> j div 64" using f that by (fastforce simp: first_in_def not_less[symmetric])
    then show ?thesis using less_eq_div_iff_mult_less_eq[of 64 r j] by simp
  qed
  have "r * 64 \<le> n" using least[OF i(1)] S(1) i(1) by fastforce
  then obtain s where s: "bitmap_ffs (bits b ! k) (r * 64) n = Inr s"
    "first_in S (r * 64) n s \<or> s = n \<and> (\<forall>i. r * 64 \<le> i \<and> i < n \<longrightarrow> i \<notin> S)"
    using bitmap_ffs_ok[of "r * 64" n "bits b ! k"] to_longs(1)[of n] w(5) by (auto simp: S_def n_def)
  then have "first_in S (r * 64) n s" using i(1) S(1) least by blast
  then have "s < n" "s \<in> S" "\<forall>j\<in>S. s \<le> j" using least by (auto simp: first_in_def not_less[symmetric])
  moreover have "dr_find_first_bit (set_bit' b ! k) (bits b ! k) n = Inr s"
    unfolding dr_find_first_bit_def BITS_PER_LONG_def Let_def set_size r(1) bindE.simps by (rule s(1))
  ultimately show ?thesis by (auto simp: S_def n_def fblocks_def)
qed

lemma find_block_ok:
  assumes "buddy_wf b"
  shows "(\<forall>j. k \<le> j \<and> j \<le> max_order b \<longrightarrow> fblocks b j = {}) \<and> find_block b k = Inr None \<or>
    (\<exists>j i. k \<le> j \<and> j \<le> max_order b \<and> find_block b k = Inr (Some (j, i)) \<and> i \<in> fblocks b j \<and>
      (\<forall>i'\<in>fblocks b j. i \<le> i') \<and> (\<forall>j'. k \<le> j' \<and> j' < j \<longrightarrow> fblocks b j' = {}))"
proof (induction "Suc (max_order b) - k" arbitrary: k rule: less_induct)
  case less
  show ?case
  proof (cases "k \<le> max_order b")
    case False
    then show ?thesis by (subst (1 2) find_block.simps) auto
  next
    case True
    note w = wfD[OF assms True]
    show ?thesis
    proof (cases "fblocks b k = {}")
      case True': True
      then have "num_free b ! k = 0" using w(8) by (simp add: fblocks_def unat_eq_0)
      then have step: "find_block b k = find_block b (Suc k)" using True w(3) by (subst find_block.simps) (simp add: index_at_def)
      have le: "k \<le> j \<longleftrightarrow> j = k \<or> Suc k \<le> j" for j by auto
      have "Suc (max_order b) - Suc k < Suc (max_order b) - k" using True by simp
      from less.hyps[OF this] show ?thesis
      proof (elim disjE conjE exE)
        assume "\<forall>j. Suc k \<le> j \<and> j \<le> max_order b \<longrightarrow> fblocks b j = {}" "find_block b (Suc k) = Inr None"
        then show ?thesis using True' le step by metis
      next
        fix j i assume "Suc k \<le> j" "j \<le> max_order b" "find_block b (Suc k) = Inr (Some (j, i))" "i \<in> fblocks b j"
          "\<forall>i'\<in>fblocks b j. i \<le> i'" "\<forall>j'. Suc k \<le> j' \<and> j' < j \<longrightarrow> fblocks b j' = {}"
        then show ?thesis using True' le step by (intro disjI2 exI[of _ j] exI[of _ i]) auto
      qed
    next
      case False
      then obtain i where i: "dr_find_first_bit (set_bit' b ! k) (bits b ! k) (2 ^ (max_order b - k)) = Inr i" "i < 2 ^ (max_order b - k)"
        "i \<in> fblocks b k" "\<forall>j\<in>fblocks b k. i \<le> j" using find_first_ok[OF assms True] by blast
      have "finite (fblocks b k)" using card_bound(1)[OF w(7,1)] by (simp add: fblocks_def)
      then have "unat (num_free b ! k) \<noteq> 0" using w(8) False by (simp add: fblocks_def)
      then have "num_free b ! k \<noteq> 0" by auto
      then have "find_block b k = Inr (Some (k, i))"
        using True w(1-4) i(1,2) by (subst find_block.simps) (simp add: index_at_def shl_1)
      then show ?thesis using True i(3,4) by auto
    qed
  qed
qed

abbreviation area :: "dr_icm_buddy_mem \<Rightarrow> nat set" where
  "area b \<equiv> free_area (max_order b) (fblocks b)"

definition buddy_ok :: "dr_icm_buddy_mem \<Rightarrow> bool" where
  "buddy_ok b \<longleftrightarrow> buddy_wf b \<and> tidy (max_order b) (fblocks b)"

definition in_use :: "dr_icm_buddy_mem \<Rightarrow> nat \<Rightarrow> nat \<Rightarrow> bool" where
  "in_use b k i \<longleftrightarrow> apart (max_order b) (fblocks b) k i"

lemma index_bound: "M \<le> 30 \<Longrightarrow> i < 2 ^ (M - k) \<Longrightarrow> k \<le> M \<Longrightarrow> i * 2 ^ k < 2 ^ M \<and> i * 2 ^ k < (2 :: nat) ^ 30"
proof -
  assume a: "M \<le> 30" "i < 2 ^ (M - k)" "k \<le> M"
  have "i * 2 ^ k < 2 ^ (M - k) * 2 ^ k" using a(2) by simp
  also have "\<dots> = 2 ^ M" using a(3) by (simp flip: power_add)
  finally have "i * 2 ^ k < 2 ^ M" .
  moreover have "(2 :: nat) ^ M \<le> 2 ^ 30" using a(1) by (intro power_increasing) auto
  ultimately show ?thesis by linarith
qed

lemma split_step:
  assumes "buddy_ok b" "in_use b (Suc k) i"
  shows "\<exists>b'. shl i 1 = Inr (2 * i) \<and> put_block k ((2 * i) XOR 1) b = Inr b' \<and> buddy_ok b' \<and> same_rest b b' \<and> in_use b' k (2 * i) \<and>
    area b = area b' - block k (2 * i + 1) \<and> block k (2 * i + 1) \<subseteq> area b'"
proof -
  have t: "buddy_wf b" "tidy (max_order b) (fblocks b)" and a: "apart (max_order b) (fblocks b) (Suc k) i"
    using assms by (simp_all add: buddy_ok_def in_use_def)
  have k: "k \<le> max_order b" "Suc k \<le> max_order b" "i < 2 ^ (max_order b - Suc k)" using a by (simp_all add: apart_def)
  note sp = split_tidy[OF t(2) a]
  obtain b' where b': "put_block k (2 * i + 1) b = Inr b'" "buddy_wf b'" "fblocks b' = (fblocks b)(k := insert (2 * i + 1) (fblocks b k))" "same_rest b b'"
    using put_block_ok[OF t(1) k(1) sp(3,4)] by blast
  have M: "max_order b' = max_order b" using b'(4) by (simp add: same_rest_def)
  have xor: "(2 * i) XOR 1 = 2 * i + 1" unfolding sibling by simp
  have "i * 2 ^ Suc k < 2 ^ 30" using index_bound[OF wfD(1)[OF t(1) k(1)] k(3) k(2)] by simp
  moreover have "i * 2 \<le> i * 2 ^ Suc k" by simp
  ultimately have "i * 2 < 2 ^ 30" by (rule le_less_trans[rotated])
  then have "i * 2 < 2 ^ 31" by simp
  then have sh: "shl i 1 = Inr (2 * i)" by (simp add: shl_def mult.commute)
  have disj: "block k (2 * i + 1) \<inter> area b = {}" using a block_halves[of k i] by (auto simp: apart_def)
  have "area b' = area b \<union> block k (2 * i + 1)" unfolding M b'(3) by (rule area_insert[OF k(1)])
  then have "area b = area b' - block k (2 * i + 1)" "block k (2 * i + 1) \<subseteq> area b'" using disj by auto
  then show ?thesis
    using b' sp(1,2) M sh unfolding xor buddy_ok_def in_use_def by (intro exI[of _ b']) simp
qed

lemma split_block_ok:
  assumes "buddy_ok b" "in_use b k i" "order \<le> k"
  shows "\<exists>b'. split_block order k i b = Inr (i * 2 ^ (k - order), b') \<and> buddy_ok b' \<and> same_rest b b' \<and>
    in_use b' order (i * 2 ^ (k - order)) \<and> area b \<union> block k i = area b' \<union> block order (i * 2 ^ (k - order))"
  using assms
proof (induction "k - order" arbitrary: k i b)
  case 0
  then show ?case by (subst split_block.simps) auto
next
  case (Suc d)
  then obtain k' where k: "k = Suc k'" "order \<le> k'" by (cases k) auto
  have d: "d = k' - order" using Suc.hyps(2) k by simp
  obtain b1 where b1: "shl i 1 = Inr (2 * i)" "put_block k' ((2 * i) XOR 1) b = Inr b1" "buddy_ok b1" "same_rest b b1" "in_use b1 k' (2 * i)"
    "area b = area b1 - block k' (2 * i + 1)" "block k' (2 * i + 1) \<subseteq> area b1" using split_step Suc.prems(1,2) k(1) by blast
  obtain b' where b': "split_block order k' (2 * i) b1 = Inr (2 * i * 2 ^ (k' - order), b')" "buddy_ok b'" "same_rest b1 b'"
    "in_use b' order (2 * i * 2 ^ (k' - order))" "area b1 \<union> block k' (2 * i) = area b' \<union> block order (2 * i * 2 ^ (k' - order))"
    using Suc.hyps(1)[OF d b1(3,5) k(2)] by blast
  have e: "2 * i * 2 ^ (k' - order) = i * 2 ^ (k - order)" using k by (simp add: Suc_diff_le)
  have "split_block order k i b = Inr (i * 2 ^ (k - order), b')"
    using b1(1,2) b'(1) k unfolding e by (subst split_block.simps) simp
  moreover have "area b \<union> block k i = area b1 \<union> block k' (2 * i)" unfolding b1(6) k(1) block_halves using b1(7) by auto
  ultimately show ?case using b'(2,4,5) same_rest_trans[OF b1(4) b'(3)] unfolding e by (intro exI[of _ b']) simp
qed

lemma merge_step:
  assumes "buddy_ok b" "in_use b k i"
  shows "k < length (bits b)" "bitmap_test_bit (bits b ! k) (i XOR 1) = Inr (i XOR 1 \<in> fblocks b k)"
proof -
  have t: "buddy_wf b" and k: "k \<le> max_order b" "i < 2 ^ (max_order b - k)"
    using assms by (simp_all add: buddy_ok_def in_use_def apart_def)
  note w = wfD[OF t k(1)]
  show "k < length (bits b)" by (rule w(2))
  have "(i XOR 1) div 64 < length (bits b ! k)" unfolding sibling_word w(5) by (rule to_longs(2)[OF k(2)])
  then show "bitmap_test_bit (bits b ! k) (i XOR 1) = Inr (i XOR 1 \<in> fblocks b k)" unfolding fblocks_def by (rule bitmap_bit_ok(4))
qed

lemma merge_block_ok:
  assumes "buddy_ok b" "in_use b k i"
  shows "\<exists>k' i' b'. merge_block k i b = Inr (k', i', b') \<and> buddy_ok b' \<and> same_rest b b' \<and> in_use b' k' i' \<and>
    i' XOR 1 \<notin> fblocks b' k' \<and> area b' \<union> block k' i' = area b \<union> block k i"
  using assms
proof (induction "max_order b - k" arbitrary: k i b rule: less_induct)
  case less
  note step = merge_step[OF less.prems]
  have t: "buddy_wf b" "tidy (max_order b) (fblocks b)" and a: "apart (max_order b) (fblocks b) k i"
    using less.prems by (simp_all add: buddy_ok_def in_use_def)
  have k: "k \<le> max_order b" using a by (simp add: apart_def)
  show ?case
  proof (cases "i XOR 1 \<in> fblocks b k")
    case False
    then have "merge_block k i b = Inr (k, i, b)" using step by (subst merge_block.simps) (simp add: index_at_def)
    then show ?thesis using False less.prems by auto
  next
    case True
    note mt = merge_tidy[OF t(2) a sibling True]
    obtain b1 where b1: "take_block k (i XOR 1) b = Inr b1" "buddy_wf b1" "fblocks b1 = (fblocks b)(k := fblocks b k - {i XOR 1})" "same_rest b b1"
      using take_block_ok[OF t(1) k True] by blast
    have M: "max_order b1 = max_order b" using b1(4) by (simp add: same_rest_def)
    have ok: "buddy_ok b1" "in_use b1 (Suc k) (i div 2)" using b1(2,3) mt(2,3) M by (simp_all add: buddy_ok_def in_use_def)
    have "max_order b1 - Suc k < max_order b - k" using M mt(1) by simp
    from less.hyps[OF this ok] obtain k' i' b' where b': "merge_block (Suc k) (i div 2) b1 = Inr (k', i', b')" "buddy_ok b'" "same_rest b1 b'"
      "in_use b' k' i'" "i' XOR 1 \<notin> fblocks b' k'" "area b' \<union> block k' i' = area b1 \<union> block (Suc k) (i div 2)" by blast
    have "merge_block k i b = Inr (k', i', b')"
      using step True b1(1) b'(1) by (subst merge_block.simps) (simp add: index_at_def drop_bit_Suc)
    moreover have "area b1 \<union> block (Suc k) (i div 2) = area b \<union> block k i" unfolding M b1(3) by (rule mt(4))
    ultimately show ?thesis using b'(2,4,5,6) same_rest_trans[OF b1(4) b'(3)] by auto
  qed
qed

section \<open>Allocation and release\<close>

lemma run_block: "run (i * 2 ^ order) order = block order i"
  by (simp add: run_def block_def add.commute)

lemma sub_block: "order \<le> k \<Longrightarrow> block order (i * 2 ^ (k - order)) \<subseteq> block k i"
  by (auto simp: block_iff div_up[of order k])

lemma free_run_iff:
  assumes "buddy_ok b" "order \<le> max_order b"
  shows "(\<exists>i. block order i \<subseteq> area b) \<longleftrightarrow> (\<exists>k. order \<le> k \<and> k \<le> max_order b \<and> fblocks b k \<noteq> {})"
proof
  assume "\<exists>i. block order i \<subseteq> area b"
  then show "\<exists>k. order \<le> k \<and> k \<le> max_order b \<and> fblocks b k \<noteq> {}"
    using covered_block[of "max_order b" "fblocks b" order] assms unfolding buddy_ok_def by blast
next
  assume "\<exists>k. order \<le> k \<and> k \<le> max_order b \<and> fblocks b k \<noteq> {}"
  then obtain k i where k: "order \<le> k" "k \<le> max_order b" "i \<in> fblocks b k" by blast
  have "block order (i * 2 ^ (k - order)) \<subseteq> area b"
    using sub_block[OF k(1), of i] block_sub_area[of k "max_order b" i "fblocks b", OF k(2,3)] by blast
  then show "\<exists>i. block order i \<subseteq> area b" by blast
qed

lemma alloc_full:
  assumes "buddy_ok b" "\<forall>k. order \<le> k \<and> k \<le> max_order b \<longrightarrow> fblocks b k = {}"
  shows "dr_buddy_alloc_mem order b = Inr (-1, b)"
proof -
  have "buddy_wf b" using assms(1) by (simp add: buddy_ok_def)
  then have "find_block b order = Inr None" using find_block_ok[of b order] assms(2) by blast
  then show ?thesis by (simp add: dr_buddy_alloc_mem_def)
qed

lemma alloc_found:
  assumes "buddy_ok b" "order \<le> j" "j \<le> max_order b" "fblocks b j \<noteq> {}"
  shows "\<exists>i b'. dr_buddy_alloc_mem order b = Inr (int (i * 2 ^ order), b') \<and> buddy_ok b' \<and> same_rest b b' \<and>
    in_use b' order i \<and> block order i \<subseteq> area b \<and> area b' = area b - block order i"
proof -
  have t: "buddy_wf b" "tidy (max_order b) (fblocks b)" using assms(1) by (simp_all add: buddy_ok_def)
  obtain k s where k: "order \<le> k" "k \<le> max_order b" "find_block b order = Inr (Some (k, s))" "s \<in> fblocks b k"
    using find_block_ok[OF t(1), of order] assms(2-4) by blast
  obtain b1 where b1: "take_block k s b = Inr b1" "buddy_wf b1" "fblocks b1 = (fblocks b)(k := fblocks b k - {s})" "same_rest b b1"
    using take_block_ok[OF t(1) k(2,4)] by blast
  have M: "max_order b1 = max_order b" using b1(4) by (simp add: same_rest_def)
  have ok: "buddy_ok b1" "in_use b1 k s" and ar: "area b1 = area b - block k s"
    using take_tidy[OF t(2) k(2,4)] area_remove[OF t(2) k(2,4)] b1(2,3) M by (simp_all add: buddy_ok_def in_use_def)
  define i where "i = s * 2 ^ (k - order)"
  obtain b' where b': "split_block order k s b1 = Inr (i, b')" "buddy_ok b'" "same_rest b1 b'" "in_use b' order i"
    "area b1 \<union> block k s = area b' \<union> block order i" using split_block_ok[OF ok k(1)] unfolding i_def by blast
  have bb': "same_rest b b'" by (rule same_rest_trans[OF b1(4) b'(3)])
  have ap: "order \<le> max_order b'" "i < 2 ^ (max_order b' - order)" "block order i \<inter> area b' = {}"
    using b'(4) by (simp_all add: in_use_def apart_def)
  have "max_order b' \<le> 30" using b'(2) ap(1) by (auto simp: buddy_ok_def dest: wfD)
  then have "i * 2 ^ order < 2 ^ 30" "order < 32" using index_bound[OF _ ap(2,1)] ap(1) by simp_all
  then have "shl i order = Inr (i * 2 ^ order)" by (simp add: shl_def)
  then have "dr_buddy_alloc_mem order b = Inr (int (i * 2 ^ order), b')"
    using k(3) b1(1) b'(1) by (simp add: dr_buddy_alloc_mem_def)
  moreover have "area b = area b' \<union> block order i"
    using ar b'(5) block_sub_area[of k "max_order b" s "fblocks b", OF k(2,4)] by auto
  then have "block order i \<subseteq> area b" "area b' = area b - block order i" using ap(3) by auto
  ultimately show ?thesis using b'(2,4) bb' by blast
qed

lemma alloc_given:
  assumes "buddy_ok b" "dr_buddy_alloc_mem order b = Inr (int seg, b')"
  shows "\<exists>i. seg = i * 2 ^ order \<and> buddy_ok b' \<and> same_rest b b' \<and> in_use b' order i \<and> block order i \<subseteq> area b \<and>
    area b' = area b - block order i"
proof -
  have "\<exists>k. order \<le> k \<and> k \<le> max_order b \<and> fblocks b k \<noteq> {}"
  proof (rule ccontr)
    assume "\<not> (\<exists>k. order \<le> k \<and> k \<le> max_order b \<and> fblocks b k \<noteq> {})"
    then have "dr_buddy_alloc_mem order b = Inr (-1, b)" by (intro alloc_full[OF assms(1)]) blast
    then show False using assms(2) by simp
  qed
  then obtain k where "order \<le> k" "k \<le> max_order b" "fblocks b k \<noteq> {}" by blast
  from alloc_found[OF assms(1) this] obtain i c where i: "dr_buddy_alloc_mem order b = Inr (int (i * 2 ^ order), c)" "buddy_ok c" "same_rest b c"
    "in_use c order i" "block order i \<subseteq> area b" "area c = area b - block order i" by blast
  from i(1) assms(2) have "int seg = int (i * 2 ^ order)" "c = b'" by simp_all
  then show ?thesis using i(2-6) unfolding of_nat_eq_iff by blast
qed

lemma free_ok:
  assumes "buddy_ok b" "in_use b order i"
  shows "\<exists>b'. dr_buddy_free_mem (i * 2 ^ order) order b = Inr b' \<and> buddy_ok b' \<and> same_rest b b' \<and> area b' = area b \<union> block order i"
proof -
  obtain k j b1 where b1: "merge_block order i b = Inr (k, j, b1)" "buddy_ok b1" "same_rest b b1" "in_use b1 k j" "j XOR 1 \<notin> fblocks b1 k"
    "area b1 \<union> block k j = area b \<union> block order i" using merge_block_ok[OF assms] by blast
  have t: "buddy_wf b1" "tidy (max_order b1) (fblocks b1)" and a: "apart (max_order b1) (fblocks b1) k j"
    using b1(2,4) by (simp_all add: buddy_ok_def in_use_def)
  have k: "k \<le> max_order b1" "j < 2 ^ (max_order b1 - k)" using a by (simp_all add: apart_def)
  have no: "j \<notin> fblocks b1 k" using a block_sub_area[of k "max_order b1" j "fblocks b1"] block_nonempty[of j k] k(1) by (auto simp: apart_def)
  obtain b' where b': "put_block k j b1 = Inr b'" "buddy_wf b'" "fblocks b' = (fblocks b1)(k := insert j (fblocks b1 k))" "same_rest b1 b'"
    using put_block_ok[OF t(1) k(1) no k(2)] by blast
  have M: "max_order b' = max_order b1" using b'(4) by (simp add: same_rest_def)
  have "order \<le> 30" using assms by (auto simp: buddy_ok_def in_use_def apart_def dest: wfD)
  moreover have "drop_bit order (i * 2 ^ order) = i" by (simp add: drop_bit_eq_div)
  ultimately have "dr_buddy_free_mem (i * 2 ^ order) order b = Inr b'" using b1(1) b'(1) by (simp add: dr_buddy_free_mem_def)
  moreover have "buddy_ok b'"
    unfolding buddy_ok_def M b'(3) using b'(2) insert_tidy[OF t(2) a] b1(5) unfolding sibling by blast
  moreover have "area b' = area b \<union> block order i" unfolding M b'(3) area_insert[OF k(1)] by (rule b1(6))
  ultimately show ?thesis using same_rest_trans[OF b1(3) b'(4)] by blast
qed

section \<open>Initialisation\<close>

lemma alloc_bitmaps_ok:
  assumes "M \<le> 30"
  shows "\<exists>t' r. alloc_bitmaps ok sz M is t = Inr (t', r) \<and> t \<le> t' \<and>
    (if \<forall>j<length is. ok (t + j) then t' = t + length is \<and> r = Some (map (\<lambda>i. bitmap_alloc0 (sz (2 ^ (M - i)))) is)
     else r = None)"
proof (induction "is" arbitrary: t)
  case (Cons i "is")
  show ?case
  proof (cases "ok t")
    case False
    then have "\<not> (\<forall>j<length (i # is). ok (t + j))" by force
    then show ?thesis using False shl_1[OF assms, of i] by simp
  next
    case True
    obtain t' r where r: "alloc_bitmaps ok sz M is (t + 1) = Inr (t', r)" "t + 1 \<le> t'"
      "if \<forall>j<length is. ok (t + 1 + j) then t' = t + 1 + length is \<and> r = Some (map (\<lambda>i. bitmap_alloc0 (sz (2 ^ (M - i)))) is) else r = None"
      using Cons.IH by blast
    have "(\<forall>j<length (i # is). ok (t + j)) \<longleftrightarrow> (\<forall>j<length is. ok (t + 1 + j))"
      using True by (auto simp: less_Suc_eq_0_disj)
    then show ?thesis using True r shl_1[OF assms, of i] by (auto split: if_splits)
  qed
qed simp

text \<open>The allocator with the one block of the highest order free.\<close>

definition fresh_bitmap :: "bool \<Rightarrow> nat \<Rightarrow> bitmap" where
  "fresh_bitmap one n = (if one then (bitmap_alloc0 n)[0 := BITMAP_WORDBIT 0] else bitmap_alloc0 n)"

definition fresh_buddy :: "dr_icm_buddy_mem \<Rightarrow> nat \<Rightarrow> dr_icm_buddy_mem" where
  "fresh_buddy b M = b\<lparr>max_order := M, used_list := [], hot_list := [],
     bits := map (\<lambda>k. fresh_bitmap (k = M) (2 ^ (M - k))) [0..<M + 1],
     num_free := map (\<lambda>k. if k = M then 1 else 0) [0..<M + 1],
     set_bit' := map (\<lambda>k. fresh_bitmap (k = M) (BITS_TO_LONGS (2 ^ (M - k)))) [0..<M + 1]\<rparr>"

lemma set_first: "0 < n \<Longrightarrow> bitmap_set_bit (bitmap_alloc0 n) 0 = Inr (fresh_bitmap True n)"
  using bitmap_alloc0_length[of 0 n]
  by (simp add: bitmap_set_bit_def set_BITMAP_WORD_def BITMAP_WORD_def fresh_bitmap_def bitmap_alloc0_def)

lemma fresh_bitmap_bits: "0 < n \<Longrightarrow> bits_of (fresh_bitmap one n) = (if one then {0} else {})"
  using bitmap_bit_ok(1)[of 0 "bitmap_alloc0 n"] bitmap_alloc0_length[of 0 n] set_first[of n]
  by (auto simp: bitmap_alloc0_bits fresh_bitmap_def)

lemma fresh_bitmap_length: "length (fresh_bitmap one n) = BITS_TO_LONGS n"
  by (simp add: fresh_bitmap_def bitmap_alloc0_def to_longs(4))

lemma update_last:
  "f (g M) = Inr y \<Longrightarrow> update_at f (map g [0..<M + 1]) M = Inr (map (\<lambda>k. if k = M then y else g k) [0..<M + 1])"
  by (auto simp: update_at_Inr nth_append list_update_append)

lemma longs_pos: "0 < n \<Longrightarrow> 0 < BITS_TO_LONGS n"
  using to_longs(2)[of 0 n] by simp

lemma init_bitmaps:
  assumes "0 < f 1"
  shows "update_at (\<lambda>b. bitmap_set_bit b 0) (map (\<lambda>i. bitmap_alloc0 (f (2 ^ (M - i)))) [0..<M + 1]) M =
    Inr (map (\<lambda>k. fresh_bitmap (k = M) (f (2 ^ (M - k)))) [0..<M + 1])"
proof -
  have "update_at (\<lambda>b. bitmap_set_bit b 0) (map (\<lambda>i. bitmap_alloc0 (f (2 ^ (M - i)))) [0..<M + 1]) M =
      Inr (map (\<lambda>k. if k = M then fresh_bitmap True (f 1) else bitmap_alloc0 (f (2 ^ (M - k)))) [0..<M + 1])"
    by (rule update_last) (use assms in \<open>simp add: set_first\<close>)
  moreover have "(if k = M then fresh_bitmap True (f 1) else bitmap_alloc0 (f (2 ^ (M - k)))) = fresh_bitmap (k = M) (f (2 ^ (M - k)))" for k
    by (simp add: fresh_bitmap_def)
  ultimately show ?thesis by simp
qed

text \<open>The allocations of the initialisation: three arrays and two bitmaps per order.\<close>

lemma all_ok_split:
  fixes M t :: nat
  shows "(\<forall>j<2 * M + 5. ok (t + j)) \<longleftrightarrow> ok t \<and> ok (t + 1) \<and> ok (t + 2) \<and>
    (\<forall>j<M + 1. ok (t + 3 + j)) \<and> (\<forall>j<M + 1. ok (t + 3 + (M + 1) + j))" (is "?L = ?R")
proof
  assume ?L
  then have l: "\<And>j. j < 2 * M + 5 \<Longrightarrow> ok (t + j)" by blast
  have "ok (t + 3 + j)" "ok (t + 3 + (M + 1) + j)" if "j < M + 1" for j
    using l[of "3 + j"] l[of "3 + (M + 1) + j"] that by (simp_all add: ac_simps)
  then show ?R using l[of 0] l[of 1] l[of 2] by simp
next
  assume ?R
  then have r: "ok t" "ok (t + 1)" "ok (t + 2)" "\<And>j. j < M + 1 \<Longrightarrow> ok (t + 3 + j)" "\<And>j. j < M + 1 \<Longrightarrow> ok (t + 3 + (M + 1) + j)" by blast+
  show ?L
  proof (intro allI impI)
    fix j assume j: "j < 2 * M + 5"
    consider "j < 3" | "3 \<le> j" "j < M + 4" | "M + 4 \<le> j" by linarith
    then show "ok (t + j)"
    proof cases
      case 1
      then have "j = 0 \<or> j = 1 \<or> j = 2" by linarith
      then show ?thesis using r(1-3) by auto
    next
      case 2
      then show ?thesis using r(4)[of "j - 3"] by simp
    next
      case 3
      then show ?thesis using r(5)[of "j - (M + 4)"] j by simp
    qed
  qed
qed

lemma init_result:
  assumes "M \<le> 30"
  shows "\<exists>t'>t. dr_buddy_init ok t b M =
    (if \<forall>j<2 * M + 5. ok (t + j) then Inr (0, t + 2 * M + 5, fresh_buddy b M)
     else Inr (ENOMEM, t', freed (b\<lparr>max_order := M, used_list := [], hot_list := []\<rparr>)))"
proof -
  let ?os = "[0..<M + 1]"
  obtain t1 bm where bm: "alloc_bitmaps ok id M ?os (t + 3) = Inr (t1, bm)" "t + 3 \<le> t1"
    "if \<forall>j<length ?os. ok (t + 3 + j) then t1 = t + 3 + length ?os \<and> bm = Some (map (\<lambda>i. bitmap_alloc0 (id (2 ^ (M - i)))) ?os) else bm = None"
    using alloc_bitmaps_ok[OF assms] by blast
  obtain t2 sb where sb: "alloc_bitmaps ok BITS_TO_LONGS M ?os t1 = Inr (t2, sb)" "t1 \<le> t2"
    "if \<forall>j<length ?os. ok (t1 + j) then t2 = t1 + length ?os \<and> sb = Some (map (\<lambda>i. bitmap_alloc0 (BITS_TO_LONGS (2 ^ (M - i)))) ?os) else sb = None"
    using alloc_bitmaps_ok[OF assms] by blast
  have nf: "update_at (\<lambda>n. Inr 1) (replicate (M + 1) 0) M = Inr (map (\<lambda>k. if k = M then 1 else (0 :: u32)) ?os)"
    using update_last[of "\<lambda>n. Inr 1" "\<lambda>_. 0" M 1] by (simp add: map_replicate_const)
  have len: "length ?os = M + 1" by simp
  note maps = init_bitmaps[of id M, simplified id_apply, OF zero_less_one] init_bitmaps[of BITS_TO_LONGS M, OF longs_pos[OF zero_less_one]]
  show ?thesis
  proof (cases "ok t \<and> ok (t + 1) \<and> ok (t + 2)")
    case False
    then have "\<exists>t'>t. dr_buddy_init ok t b M = Inr (ENOMEM, t', freed (b\<lparr>max_order := M, used_list := [], hot_list := []\<rparr>))"
      by (auto simp: dr_buddy_init_def Let_def)
    moreover have "\<not> (\<forall>j<2 * M + 5. ok (t + j))" using False unfolding all_ok_split by blast
    ultimately show ?thesis by auto
  next
    case 3: True
    show ?thesis
    proof (cases "\<forall>j<M + 1. ok (t + 3 + j)")
      case False
      then have "bm = None" using bm(3) unfolding len by simp
      then have "dr_buddy_init ok t b M = Inr (ENOMEM, t1, freed (b\<lparr>max_order := M, used_list := [], hot_list := []\<rparr>))"
        using 3 bm(1) by (simp add: dr_buddy_init_def Let_def del: upt_Suc)
      moreover have "\<not> (\<forall>j<2 * M + 5. ok (t + j))" using False unfolding all_ok_split by blast
      ultimately show ?thesis using bm(2) by (intro exI[of _ t1]) auto
    next
      case T1: True
      then have t1: "t1 = t + 3 + (M + 1)" "bm = Some (map (\<lambda>i. bitmap_alloc0 (2 ^ (M - i))) ?os)" using bm(3) unfolding len by simp_all
      show ?thesis
      proof (cases "\<forall>j<M + 1. ok (t + 3 + (M + 1) + j)")
        case False
        then have "sb = None" using sb(3) unfolding len t1(1) by (simp only: if_False)
        then have "dr_buddy_init ok t b M = Inr (ENOMEM, t2, freed (b\<lparr>max_order := M, used_list := [], hot_list := []\<rparr>))"
          using 3 bm(1) sb(1) t1(2) by (simp add: dr_buddy_init_def Let_def del: upt_Suc)
        moreover have "\<not> (\<forall>j<2 * M + 5. ok (t + j))" using False unfolding all_ok_split by blast
        ultimately show ?thesis using bm(2) sb(2) by (intro exI[of _ t2]) auto
      next
        case True
        then have "t2 = t1 + (M + 1)" "sb = Some (map (\<lambda>i. bitmap_alloc0 (BITS_TO_LONGS (2 ^ (M - i)))) ?os)"
          using sb(3) unfolding len t1(1) by simp_all
        then have "dr_buddy_init ok t b M = Inr (0, t + 2 * M + 5, fresh_buddy b M)"
          using 3 bm(1) sb(1) t1 maps nf
          by (simp add: dr_buddy_init_def Let_def fresh_buddy_def del: upt_Suc replicate_Suc)
        then show ?thesis using True T1 3 unfolding all_ok_split by (intro exI[of _ "t + 1"]) simp
      qed
    qed
  qed
qed

lemma fresh_nth:
  assumes "k \<le> M"
  shows "bits (fresh_buddy b M) ! k = fresh_bitmap (k = M) (2 ^ (M - k))"
    and "num_free (fresh_buddy b M) ! k = (if k = M then 1 else 0)"
    and "set_bit' (fresh_buddy b M) ! k = fresh_bitmap (k = M) (BITS_TO_LONGS (2 ^ (M - k)))"
  using assms by (simp_all add: fresh_buddy_def nth_append)

lemma fresh_abs: "k \<le> M \<Longrightarrow> fblocks (fresh_buddy b M) k = (if k = M then {0} else {})"
  by (simp add: fblocks_def fresh_nth fresh_bitmap_bits)

lemma fresh_wf: "M \<le> 30 \<Longrightarrow> buddy_wf (fresh_buddy b M)"
proof -
  assume M: "M \<le> 30"
  have f: "max_order (fresh_buddy b M) = M" "length (bits (fresh_buddy b M)) = Suc M" "length (num_free (fresh_buddy b M)) = Suc M"
    "length (set_bit' (fresh_buddy b M)) = Suc M" by (simp_all add: fresh_buddy_def)
  show ?thesis unfolding buddy_wf_def Let_def f using M
    by (auto simp: fresh_nth fresh_abs fresh_bitmap_length fresh_bitmap_bits longs_pos)
qed

lemma fresh_ok: "M \<le> 30 \<Longrightarrow> buddy_ok (fresh_buddy b M) \<and> area (fresh_buddy b M) = {..<2 ^ M}"
proof -
  assume "M \<le> 30"
  have M: "max_order (fresh_buddy b M) = M" by (simp add: fresh_buddy_def)
  have "tidy M (fblocks (fresh_buddy b M))" by (rule tidyI) (auto simp: fresh_abs split: if_splits)
  moreover have "x \<in> free_area M (fblocks (fresh_buddy b M)) \<longleftrightarrow> x < 2 ^ M" for x
    by (auto simp: area_iff fresh_abs div_eq_0_iff split: if_splits)
  ultimately show ?thesis using fresh_wf[OF \<open>M \<le> 30\<close>, of b] by (auto simp: buddy_ok_def M)
qed

section \<open>The contract\<close>

lemma area_bounded: "buddy_ok b \<Longrightarrow> area b \<subseteq> {..<2 ^ max_order b}"
proof
  fix x assume "buddy_ok b" "x \<in> area b"
  then obtain k where k: "k \<le> max_order b" "x div 2 ^ k < 2 ^ (max_order b - k)"
    by (auto simp: buddy_ok_def area_iff dest: tidyD(1))
  then have "x < 2 ^ (max_order b - k) * 2 ^ k" by (simp add: div_less_iff_less_mult)
  then show "x \<in> {..<2 ^ max_order b}" using k(1) by (simp flip: power_add)
qed

lemma in_use_run:
  assumes "k \<le> max_order b" "run (i * 2 ^ k) k \<subseteq> {..<2 ^ max_order b} - area b"
  shows "in_use b k i"
proof -
  have "i * 2 ^ k \<in> run (i * 2 ^ k) k" by (simp add: run_def)
  then have "i * 2 ^ k < 2 ^ (max_order b - k) * 2 ^ k" using assms by (auto simp flip: power_add)
  then have "i < 2 ^ (max_order b - k)" by simp
  then show ?thesis using assms by (auto simp: in_use_def apart_def run_block)
qed

lemma free_run_ok:
  assumes "buddy_ok b" "k \<le> max_order b" "2 ^ k dvd s" "run s k \<subseteq> {..<2 ^ max_order b} - area b"
  shows "\<exists>b'. dr_buddy_free_mem s k b = Inr b' \<and> buddy_ok b' \<and> same_rest b b' \<and> area b' = area b \<union> run s k"
proof -
  obtain i where i: "s = i * 2 ^ k" using assms(3) by (metis dvd_def mult.commute)
  have "in_use b k i" using in_use_run[OF assms(2), of i] assms(4) unfolding i by blast
  from free_ok[OF assms(1) this] show ?thesis unfolding i run_block .
qed

interpretation buddy_runs: run_allocator dr_buddy_alloc_mem dr_buddy_free_mem area buddy_ok max_order
proof
  fix b :: dr_icm_buddy_mem and k s :: nat and b'
  show "buddy_ok b \<Longrightarrow> area b \<subseteq> {..<2 ^ max_order b}" by (rule area_bounded)
  show "dr_buddy_alloc_mem k b = Inr (-1, b) \<and> \<not> (\<exists>i. run (i * 2 ^ k) k \<subseteq> area b) \<or> (\<exists>s b'. dr_buddy_alloc_mem k b = Inr (int s, b'))"
    if "buddy_ok b" "k \<le> max_order b"
    using free_run_iff[OF that] alloc_full[OF that(1), of k] alloc_found[OF that(1), of k] unfolding run_block by blast
  show "buddy_ok b' \<and> max_order b' = max_order b \<and> 2 ^ k dvd s \<and> run s k \<subseteq> area b \<and> area b' = area b - run s k"
    if "buddy_ok b" "k \<le> max_order b" "dr_buddy_alloc_mem k b = Inr (int s, b')"
    using alloc_given[OF that(1,3)] by (auto simp: run_block same_rest_def)
  show "\<exists>b'. dr_buddy_free_mem s k b = Inr b' \<and> buddy_ok b' \<and> max_order b' = max_order b \<and> area b' = area b \<union> run s k"
    if "buddy_ok b" "k \<le> max_order b" "2 ^ k dvd s" "run s k \<subseteq> {..<2 ^ max_order b} - area b"
    using free_run_ok[OF that] by (auto simp: same_rest_def)
qed

section \<open>Properties\<close>

text \<open>
  Property C19: an allocation of a given order succeeds exactly if some aligned run of that many
  segments is free. It then returns the start of such a run, takes exactly that run off the
  free segments and keeps the allocator consistent; otherwise it returns -1 and changes
  nothing. Neither the search in two levels of bitmaps nor the halving of larger blocks faults.
\<close>

theorem buddy_alloc_correct:
  assumes "buddy_ok b" "order \<le> max_order b"
  shows "(\<exists>i. run (i * 2 ^ order) order \<subseteq> area b) \<and>
      (\<exists>seg b'. dr_buddy_alloc_mem order b = Inr (int seg, b') \<and> 2 ^ order dvd seg \<and> run seg order \<subseteq> area b \<and>
        area b' = area b - run seg order \<and> buddy_ok b' \<and> same_rest b b') \<or>
    \<not> (\<exists>i. run (i * 2 ^ order) order \<subseteq> area b) \<and> dr_buddy_alloc_mem order b = Inr (-1, b)"
proof (cases "\<exists>i. run (i * 2 ^ order) order \<subseteq> area b")
  case True
  then obtain k where "order \<le> k" "k \<le> max_order b" "fblocks b k \<noteq> {}" using free_run_iff[OF assms] by (auto simp: run_block)
  from alloc_found[OF assms(1) this] obtain i b' where "dr_buddy_alloc_mem order b = Inr (int (i * 2 ^ order), b')" "buddy_ok b'" "same_rest b b'"
    "block order i \<subseteq> area b" "area b' = area b - block order i" by blast
  then have "dr_buddy_alloc_mem order b = Inr (int (i * 2 ^ order), b') \<and> 2 ^ order dvd i * 2 ^ order \<and> run (i * 2 ^ order) order \<subseteq> area b \<and>
      area b' = area b - run (i * 2 ^ order) order \<and> buddy_ok b' \<and> same_rest b b'" unfolding run_block by simp
  then show ?thesis using True by blast
next
  case False
  then show ?thesis using alloc_full[OF assms(1)] free_run_iff[OF assms] by (auto simp: run_block)
qed

definition demo_buddy :: dr_icm_buddy_mem where
  "demo_buddy = fresh_buddy \<lparr>bits = [], num_free = [], set_bit' = [], max_order = 0, icm_mr = \<lparr>mr_base = 0, mr_rkey = 0, icm_start_addr = 0\<rparr>, used_list = [], used_memory = 0, hot_list = []\<rparr> 10"

lemma demo_buddy_ok:
  "buddy_ok demo_buddy" "area demo_buddy = {..<1024}" "max_order demo_buddy = 10" "fblocks demo_buddy 10 = {0}"
proof -
  show "max_order demo_buddy = 10" by (simp add: demo_buddy_def fresh_buddy_def)
  show "buddy_ok demo_buddy" "area demo_buddy = {..<1024}" unfolding demo_buddy_def using fresh_ok[of 10] by simp_all
  show "fblocks demo_buddy 10 = {0}" unfolding demo_buddy_def by (simp add: fresh_abs)
qed

theorem buddy_alloc_correct_witness:
  "\<exists>seg b'. dr_buddy_alloc_mem 3 demo_buddy = Inr (int seg, b') \<and> 8 dvd seg \<and> area b' = {..<1024} - run seg 3 \<and> buddy_ok b'"
proof -
  have "3 \<le> max_order demo_buddy" by (simp add: demo_buddy_ok)
  note c = buddy_alloc_correct[OF demo_buddy_ok(1) this]
  have "run (0 * 2 ^ 3) 3 \<subseteq> area demo_buddy" unfolding demo_buddy_ok(2) by (auto simp: run_def)
  then have "\<exists>i. run (i * 2 ^ 3) 3 \<subseteq> area demo_buddy" by blast
  with c show ?thesis unfolding demo_buddy_ok(2) by auto
qed

text \<open>
  Property C20: releasing the run of an allocation restores the allocator. Between the two,
  any segment the caller was not given keeps its state, and after the release the free
  blocks of every order, their counts and the search bitmaps are those of before the
  allocation: splitting and merging are inverse to each other.
\<close>

theorem buddy_free_restores:
  assumes "buddy_ok b" "order \<le> max_order b" "dr_buddy_alloc_mem order b = Inr (int seg, b1)"
  shows "\<exists>b2. dr_buddy_free_mem seg order b1 = Inr b2 \<and> buddy_ok b2 \<and> same_rest b b2 \<and>
    (\<forall>k\<le>max_order b. bits_of (bits b2 ! k) = bits_of (bits b ! k) \<and> num_free b2 ! k = num_free b ! k \<and>
       bits_of (set_bit' b2 ! k) = bits_of (set_bit' b ! k))"
proof -
  obtain i where i: "seg = i * 2 ^ order" "buddy_ok b1" "same_rest b b1" "in_use b1 order i"
    "block order i \<subseteq> area b" "area b1 = area b - block order i" using alloc_given[OF assms(1,3)] by blast
  obtain b2 where b2: "dr_buddy_free_mem seg order b1 = Inr b2" "buddy_ok b2" "same_rest b1 b2" "area b2 = area b1 \<union> block order i"
    using free_ok[OF i(2,4)] i(1) by blast
  have rest: "same_rest b b2" by (rule same_rest_trans[OF i(3) b2(3)])
  then have M: "max_order b2 = max_order b" by (simp add: same_rest_def)
  have "area b2 = area b" using b2(4) i(5,6) by auto
  then have eq: "fblocks b2 k = fblocks b k" if "k \<le> max_order b" for k
    using free_area_unique[of "max_order b" "fblocks b2" "fblocks b" k] assms(1) b2(2) that M by (simp add: buddy_ok_def)
  have w: "buddy_wf b2" "buddy_wf b" using b2(2) assms(1) by (simp_all add: buddy_ok_def)
  have "bits_of (bits b2 ! k) = bits_of (bits b ! k) \<and> num_free b2 ! k = num_free b ! k \<and>
       bits_of (set_bit' b2 ! k) = bits_of (set_bit' b ! k)" if k: "k \<le> max_order b" for k
    using eq[OF k] wfD(8,9)[OF w(1), of k] wfD(8,9)[OF w(2), of k] k M by (auto simp: fblocks_def intro: unat_eqD)
  then show ?thesis using b2(1,2) rest by blast
qed

theorem buddy_free_restores_witness:
  "\<exists>seg b1 b2. dr_buddy_alloc_mem 3 demo_buddy = Inr (int seg, b1) \<and> dr_buddy_free_mem seg 3 b1 = Inr b2 \<and>
    bits_of (bits b2 ! 10) = {0}"
proof -
  have "3 \<le> (10 :: nat)" "10 \<le> max_order demo_buddy" "fblocks demo_buddy 10 \<noteq> {}" by (simp_all add: demo_buddy_ok)
  from alloc_found[OF demo_buddy_ok(1) this] obtain seg b1 where a: "dr_buddy_alloc_mem 3 demo_buddy = Inr (int seg, b1)"
    by blast
  have "3 \<le> max_order demo_buddy" by (simp add: demo_buddy_ok)
  from buddy_free_restores[OF demo_buddy_ok(1) this a] show ?thesis using a demo_buddy_ok(3,4) by (auto simp: fblocks_def)
qed

end
