(* ===== verification/Ilog.thy ===== *)
theory Ilog
  imports Prelude
begin

text \<open>
  Integer logarithms of \<open>ccan/ilog.c\<close>: the versions that look up a de Bruijn sequence
  and the versions that halve the range. All return the number of bits up to the
  highest one that is set.
\<close>

section \<open>The code\<close>

definition DEBRUIJN_IDX32 :: "nat list" where
  "DEBRUIJN_IDX32 = [
     0, 1,28, 2,29,14,24, 3,30,22,20,15,25,17, 4, 8,
    31,27,13,23,21,19,16, 7,26,12,18, 6,11, 5,10, 9]"

definition DEBRUIJN_IDX64 :: "nat list" where
  "DEBRUIJN_IDX64 = [
     0, 1, 2, 7, 3,13, 8,19, 4,25,14,28, 9,34,20,40,
     5,17,26,38,15,46,29,48,10,31,35,54,21,50,41,57,
    63, 6,12,18,24,27,33,39,16,37,45,47,30,53,49,56,
    62,11,23,32,36,44,52,55,61,22,43,51,60,42,59,58]"

definition ilog32 :: "u32 \<Rightarrow> nat" where
  "ilog32 v =
    (let ret = of_bool (v > 0);
         v = v OR drop_bit 1 v;
         v = v OR drop_bit 2 v;
         v = v OR drop_bit 4 v;
         v = v OR drop_bit 8 v;
         v = v OR drop_bit 16 v;
         v = drop_bit 1 v + 1
     in ret + DEBRUIJN_IDX32 ! unat (drop_bit 27 (v * 0x77CB531) AND 0x1F))"

definition ilog32_nodebruijn :: "u32 \<Rightarrow> nat" where
  "ilog32_nodebruijn v =
    (let ret = of_bool (v > 0);
         m = push_bit 4 (of_bool (v > 0xFFFF)); v = drop_bit m v; ret = ret OR m;
         m = push_bit 3 (of_bool (v > 0xFF)); v = drop_bit m v; ret = ret OR m;
         m = push_bit 2 (of_bool (v > 0xF)); v = drop_bit m v; ret = ret OR m;
         m = push_bit 1 (of_bool (v > 3)); v = drop_bit m v; ret = ret OR m
     in ret + of_bool (v > 1))"

definition ilog32_nz :: "u32 \<Rightarrow> nat" where
  "ilog32_nz v = ilog32 v"

definition ilog64 :: "u64 \<Rightarrow> nat" where
  "ilog64 v =
    (let ret = of_bool (v > 0);
         v = v OR drop_bit 1 v;
         v = v OR drop_bit 2 v;
         v = v OR drop_bit 4 v;
         v = v OR drop_bit 8 v;
         v = v OR drop_bit 16 v;
         v = v OR drop_bit 32 v;
         v = drop_bit 1 v + 1
     in ret + DEBRUIJN_IDX64 ! unat (drop_bit 58 (v * 0x218A392CD3D5DBF) AND 0x3F))"

text \<open>The versions of \<open>ilog64\<close> that reduce the argument to its upper or lower half first.\<close>

definition ilog64_halved :: "u64 \<Rightarrow> nat" where
  "ilog64_halved w =
    (let ret = of_bool (w > 0);
         m = push_bit 5 (of_bool (w > 0xFFFFFFFF)); v = ucast (drop_bit m w) :: u32; ret = ret OR m;
         v = v OR drop_bit 1 v;
         v = v OR drop_bit 2 v;
         v = v OR drop_bit 4 v;
         v = v OR drop_bit 8 v;
         v = v OR drop_bit 16 v;
         v = drop_bit 1 v + 1
     in ret + DEBRUIJN_IDX32 ! unat (drop_bit 27 (v * 0x77CB531) AND 0x1F))"

definition ilog64_nodebruijn :: "u64 \<Rightarrow> nat" where
  "ilog64_nodebruijn w =
    (let ret = of_bool (w > 0);
         m = push_bit 5 (of_bool (w > 0xFFFFFFFF)); v = ucast (drop_bit m w) :: u32; ret = ret OR m;
         m = push_bit 4 (of_bool (v > 0xFFFF)); v = drop_bit m v; ret = ret OR m;
         m = push_bit 3 (of_bool (v > 0xFF)); v = drop_bit m v; ret = ret OR m;
         m = push_bit 2 (of_bool (v > 0xF)); v = drop_bit m v; ret = ret OR m;
         m = push_bit 1 (of_bool (v > 3)); v = drop_bit m v; ret = ret OR m
     in ret + of_bool (v > 1))"

definition ilog64_nz :: "u64 \<Rightarrow> nat" where
  "ilog64_nz v = ilog64 v"

section \<open>Smearing\<close>

text \<open>\<open>w\<close> has a bit where \<open>v\<close> has one among the \<open>d\<close> places from there upwards.\<close>

definition smeared :: "nat \<Rightarrow> 'a::len word \<Rightarrow> 'a word \<Rightarrow> bool" where
  "smeared d v w \<longleftrightarrow> (\<forall>n. bit w n \<longleftrightarrow> (\<exists>e<d. bit v (n + e)))"

lemma smeared_start: "smeared 1 v v"
  by (simp add: smeared_def)

lemma smeared_step: "smeared d v w \<Longrightarrow> smeared (d + d) v (w OR drop_bit d w)"
proof -
  assume w: "smeared d v w"
  have "bit (w OR drop_bit d w) n \<longleftrightarrow> (\<exists>e<d + d. bit v (n + e))" for n
  proof -
    have "bit (w OR drop_bit d w) n \<longleftrightarrow> (\<exists>e<d. bit v (n + e)) \<or> (\<exists>e<d. bit v (n + (d + e)))"
      using w by (simp add: smeared_def bit_or_iff bit_drop_bit_eq add.commute add.left_commute)
    also have "\<dots> \<longleftrightarrow> (\<exists>e<d + d. bit v (n + e))"
    proof
      assume "\<exists>e<d + d. bit v (n + e)"
      then obtain e where e: "e < d + d" "bit v (n + e)" by blast
      show "(\<exists>e<d. bit v (n + e)) \<or> (\<exists>e<d. bit v (n + (d + e)))"
      proof (cases "e < d")
        case False
        then have "e - d < d" "bit v (n + (d + (e - d)))" using e by auto
        then show ?thesis by blast
      qed (use e in blast)
    next
      assume "(\<exists>e<d. bit v (n + e)) \<or> (\<exists>e<d. bit v (n + (d + e)))"
      then show "\<exists>e<d + d. bit v (n + e)" by (meson add_strict_left_mono trans_less_add1)
    qed
    finally show ?thesis .
  qed
  then show ?thesis by (simp add: smeared_def)
qed

text \<open>Smeared over its whole width, a word becomes a mask up to its highest bit.\<close>

lemma smeared_mask:
  fixes v :: "'a::len word"
  assumes "smeared d v w" "LENGTH('a) \<le> d" "2 ^ k \<le> unat v" "unat v < 2 ^ Suc k"
  shows "w = mask (Suc k)"
proof (rule bit_word_eqI)
  have b: "bit v n \<longleftrightarrow> odd (unat v div 2 ^ n)" for n
  proof -
    have "bit v n \<longleftrightarrow> bit (unat v) n" by (simp add: bit_unsigned_iff)
    then show ?thesis by (simp add: bit_iff_odd)
  qed
  have "unat v div 2 ^ k = 1" using assms(3,4) by (intro div_nat_eqI) simp_all
  then have top: "bit v k" by (simp add: b)
  have above: "\<not> bit v n" if "k < n" for n
  proof -
    have "unat v < 2 ^ n" using assms(4) that by (metis Suc_leI order_less_le_trans one_le_numeral power_increasing)
    then show ?thesis by (simp add: b)
  qed
  fix n assume "n < LENGTH('a)"
  have "k < LENGTH('a)" using top by (rule bit_imp_le_length)
  have "bit w n \<longleftrightarrow> (\<exists>e<d. bit v (n + e))" using assms(1) by (simp add: smeared_def)
  also have "\<dots> \<longleftrightarrow> n \<le> k"
  proof
    assume "n \<le> k"
    then have "k - n < d" "bit v (n + (k - n))" using \<open>k < LENGTH('a)\<close> assms(2) top by auto
    then show "\<exists>e<d. bit v (n + e)" by blast
  next
    assume "\<exists>e<d. bit v (n + e)"
    then show "n \<le> k" using above by (meson leI le_add1 order_less_le_trans)
  qed
  finally show "bit w n \<longleftrightarrow> bit (mask (Suc k) :: 'a word) n"
    using \<open>n < LENGTH('a)\<close> by (simp add: bit_mask_iff less_Suc_eq_le)
qed


lemma debruijn32: "k < 32 \<Longrightarrow> DEBRUIJN_IDX32 ! unat (drop_bit 27 ((2 ^ k :: u32) * 0x77CB531) AND 0x1F) = k"
proof -
  have "list_all (\<lambda>k. DEBRUIJN_IDX32 ! unat (drop_bit 27 ((2 ^ k :: u32) * 0x77CB531) AND 0x1F) = k) [0..<32]"
    by code_simp
  then show "k < 32 \<Longrightarrow> ?thesis" by (simp add: list_all_iff)
qed

lemma debruijn64: "k < 64 \<Longrightarrow> DEBRUIJN_IDX64 ! unat (drop_bit 58 ((2 ^ k :: u64) * 0x218A392CD3D5DBF) AND 0x3F) = k"
proof -
  have "list_all (\<lambda>k. DEBRUIJN_IDX64 ! unat (drop_bit 58 ((2 ^ k :: u64) * 0x218A392CD3D5DBF) AND 0x3F) = k) [0..<64]"
    by code_simp
  then show "k < 64 \<Longrightarrow> ?thesis" by (simp add: list_all_iff)
qed


section \<open>Halving\<close>

text \<open>\<open>highest v k\<close>: the topmost bit of \<open>v\<close> is bit \<open>k\<close>.\<close>

definition highest :: "'a::len word \<Rightarrow> nat \<Rightarrow> bool" where
  "highest v k \<longleftrightarrow> 2 ^ k \<le> unat v \<and> unat v < 2 ^ Suc k"

lemma highest_exists: "v \<noteq> 0 \<Longrightarrow> \<exists>k < LENGTH('a). highest v k \<and> floorlog 2 (unat v) = Suc k" for v :: "'a::len word"
proof -
  assume "v \<noteq> 0"
  then have pos: "0 < unat v" by (simp add: unat_gt_0)
  define k where "k = floorlog 2 (unat v) - 1"
  have f: "floorlog 2 (unat v) = Suc k" using pos floorlog_eq_zero_iff[of 2 "unat v"] by (simp add: k_def)
  have "highest v k" using floorlog_bounds[of "unat v" 2] pos by (simp add: highest_def f)
  moreover have "k < LENGTH('a)"
  proof -
    have "2 ^ k < (2 :: nat) ^ LENGTH('a)" 
      using \<open>highest v k\<close> unsigned_less[of v, where ?'a = nat] unfolding highest_def by (meson order_le_less_trans)
    then show ?thesis by simp
  qed
  ultimately show ?thesis using f by blast
qed

lemma highest_drop: "highest v k \<Longrightarrow> m \<le> k \<Longrightarrow> highest (drop_bit m v) (k - m)"
proof -
  assume t: "highest v k" and m: "m \<le> k"
  have k: "k = m + (k - m)" using m by simp
  have "2 ^ (k - m) \<le> unat v div 2 ^ m"
    using t m by (metis div_le_mono highest_def power_diff_power_eq nonzero_mult_div_cancel_left power_add zero_neq_numeral power_not_zero k add.commute)
  moreover have "unat v < 2 ^ Suc (k - m) * 2 ^ m"
    using t k by (metis add_Suc_right mult.commute power_add highest_def)
  ultimately show ?thesis by (simp add: highest_def unat_drop_bit_eq drop_bit_nat_def less_mult_imp_div_less)
qed

lemma highest_greater: "highest v k \<Longrightarrow> unat c = 2 ^ j - 1 \<Longrightarrow> c < v \<longleftrightarrow> j \<le> k"
proof -
  assume t: "highest v k" and c: "unat c = 2 ^ j - 1"
  have "c < v \<longleftrightarrow> 2 ^ j \<le> unat v"
    by (simp add: word_less_nat_alt c) (metis One_nat_def Suc_pred le_simps(3) zero_less_numeral zero_less_power)
  also have "\<dots> \<longleftrightarrow> j \<le> k"
  proof
    assume "2 ^ j \<le> unat v"
    then have "(2 :: nat) ^ j < 2 ^ Suc k" using t by (auto simp: highest_def)
    then show "j \<le> k" by (simp add: less_Suc_eq_le del: power_Suc)
  next
    assume "j \<le> k"
    then show "2 ^ j \<le> unat v" using t by (auto simp: highest_def intro: order_trans[OF power_increasing])
  qed
  finally show ?thesis .
qed

lemma halve_step:
  fixes v :: "'a::len word"
  assumes "highest v k" "unat c = 2 ^ j - 1" "k < 2 * j"
  shows "c < v \<longleftrightarrow> j \<le> k"
    and "highest (drop_bit (of_bool (c < v) * j) v) (k - of_bool (j \<le> k) * j)" "k - of_bool (j \<le> k) * j < j"
  using assms highest_greater[OF assms(1,2)] highest_drop[OF assms(1), of j] by (auto simp: of_bool_def)


lemma mask_half:
  assumes "k < LENGTH('a)"
  shows "drop_bit 1 (mask (Suc k)) + 1 = (2 ^ k :: 'a::len word)"
proof -
  have "drop_bit 1 (mask (Suc k)) = (mask k :: 'a word)"
    by (rule bit_word_eqI) (use assms in \<open>auto simp: bit_drop_bit_eq bit_mask_iff\<close>)
  then show ?thesis by (simp add: mask_eq_exp_minus_1)
qed

lemma smear_steps32:
  assumes "highest v k" "k < 32"
  shows "(let v = v OR drop_bit 1 v; v = v OR drop_bit 2 v; v = v OR drop_bit 4 v; v = v OR drop_bit 8 v; v = v OR drop_bit 16 v
          in drop_bit 1 v + 1) = (2 ^ k :: u32)"
proof -
  define v1 where "v1 = v OR drop_bit 1 v"
  define v2 where "v2 = v1 OR drop_bit 2 v1"
  define v4 where "v4 = v2 OR drop_bit 4 v2"
  define v8 where "v8 = v4 OR drop_bit 8 v4"
  define v16 where "v16 = v8 OR drop_bit 16 v8"
  have "smeared (1 + 1) v v1" unfolding v1_def by (rule smeared_step[OF smeared_start])
  then have "smeared (2 + 2) v v2" unfolding v2_def by (intro smeared_step) (simp only: arith_simps numeral_One one_add_one)
  then have "smeared (4 + 4) v v4" unfolding v4_def by (intro smeared_step) (simp only: arith_simps numeral_One one_add_one)
  then have "smeared (8 + 8) v v8" unfolding v8_def by (intro smeared_step) (simp only: arith_simps numeral_One one_add_one)
  then have "smeared (16 + 16) v v16" unfolding v16_def by (intro smeared_step) (simp only: arith_simps numeral_One one_add_one)
  then have "v16 = mask (Suc k)" using smeared_mask[of "16 + 16" v v16 k] assms by (simp add: highest_def)
  then have "drop_bit 1 v16 + 1 = 2 ^ k" using mask_half[of k, where ?'a = 32] assms(2) by simp
  then show ?thesis by (simp only: Let_def v1_def v2_def v4_def v8_def v16_def)
qed

lemma ilog32_highest:
  assumes "highest v k" "k < 32"
  shows "ilog32 v = Suc k"
proof -
  have "v > 0" using assms(1) by (cases "v = 0") (auto simp: highest_def word_gt_0)
  moreover have "ilog32 v = of_bool (v > 0) + DEBRUIJN_IDX32 ! unat (drop_bit 27 ((let v = v OR drop_bit 1 v; v = v OR drop_bit 2 v; v = v OR drop_bit 4 v; v = v OR drop_bit 8 v; v = v OR drop_bit 16 v
          in drop_bit 1 v + 1) * 0x77CB531) AND 0x1F)"
    by (simp only: ilog32_def Let_def)
  ultimately show ?thesis unfolding smear_steps32[OF assms] debruijn32[OF assms(2)] by simp
qed

lemma smear_steps64:
  assumes "highest v k" "k < 64"
  shows "(let v = v OR drop_bit 1 v; v = v OR drop_bit 2 v; v = v OR drop_bit 4 v; v = v OR drop_bit 8 v; v = v OR drop_bit 16 v; v = v OR drop_bit 32 v
          in drop_bit 1 v + 1) = (2 ^ k :: u64)"
proof -
  define v1 where "v1 = v OR drop_bit 1 v"
  define v2 where "v2 = v1 OR drop_bit 2 v1"
  define v4 where "v4 = v2 OR drop_bit 4 v2"
  define v8 where "v8 = v4 OR drop_bit 8 v4"
  define v16 where "v16 = v8 OR drop_bit 16 v8"
  define v32 where "v32 = v16 OR drop_bit 32 v16"
  have "smeared (1 + 1) v v1" unfolding v1_def by (rule smeared_step[OF smeared_start])
  then have "smeared (2 + 2) v v2" unfolding v2_def by (intro smeared_step) (simp only: arith_simps numeral_One one_add_one)
  then have "smeared (4 + 4) v v4" unfolding v4_def by (intro smeared_step) (simp only: arith_simps numeral_One one_add_one)
  then have "smeared (8 + 8) v v8" unfolding v8_def by (intro smeared_step) (simp only: arith_simps numeral_One one_add_one)
  then have "smeared (16 + 16) v v16" unfolding v16_def by (intro smeared_step) (simp only: arith_simps numeral_One one_add_one)
  then have "smeared (32 + 32) v v32" unfolding v32_def by (intro smeared_step) (simp only: arith_simps numeral_One one_add_one)
  then have "v32 = mask (Suc k)" using smeared_mask[of "32 + 32" v v32 k] assms by (simp add: highest_def)
  then have "drop_bit 1 v32 + 1 = 2 ^ k" using mask_half[of k, where ?'a = 64] assms(2) by simp
  then show ?thesis by (simp only: Let_def v1_def v2_def v4_def v8_def v16_def v32_def)
qed

lemma ilog64_highest:
  assumes "highest v k" "k < 64"
  shows "ilog64 v = Suc k"
proof -
  have "v > 0" using assms(1) by (cases "v = 0") (auto simp: highest_def word_gt_0)
  moreover have "ilog64 v = of_bool (v > 0) + DEBRUIJN_IDX64 ! unat (drop_bit 58 ((let v = v OR drop_bit 1 v; v = v OR drop_bit 2 v; v = v OR drop_bit 4 v; v = v OR drop_bit 8 v; v = v OR drop_bit 16 v; v = v OR drop_bit 32 v
          in drop_bit 1 v + 1) * 0x218A392CD3D5DBF) AND 0x3F)"
    by (simp only: ilog64_def Let_def)
  ultimately show ?thesis unfolding smear_steps64[OF assms] debruijn64[OF assms(2)] by simp
qed


text \<open>The four halvings of a 32-bit word, starting from what the result has so far.\<close>

definition halvings :: "nat \<Rightarrow> u32 \<Rightarrow> nat" where
  "halvings ret v =
    (let m = push_bit 4 (of_bool (v > 0xFFFF)); v = drop_bit m v; ret = ret OR m;
         m = push_bit 3 (of_bool (v > 0xFF)); v = drop_bit m v; ret = ret OR m;
         m = push_bit 2 (of_bool (v > 0xF)); v = drop_bit m v; ret = ret OR m;
         m = push_bit 1 (of_bool (v > 3)); v = drop_bit m v; ret = ret OR m
     in ret + of_bool (v > 1))"

lemma halvings_highest:
  assumes "highest v k" "k < 32" "ret = 1 \<or> ret = 33"
  shows "halvings ret v = ret + k"
proof -
  define k1 where "k1 = k - of_bool (16 \<le> k) * 16"
  define k2 where "k2 = k1 - of_bool (8 \<le> k1) * 8"
  define k3 where "k3 = k2 - of_bool (4 \<le> k2) * 4"
  define k4 where "k4 = k3 - of_bool (2 \<le> k3) * 2"
  define v1 where "v1 = drop_bit (of_bool (0xFFFF < v) * 16) v"
  define v2 where "v2 = drop_bit (of_bool (0xFF < v1) * 8) v1"
  define v3 where "v3 = drop_bit (of_bool (0xF < v2) * 4) v2"
  define v4 where "v4 = drop_bit (of_bool (3 < v3) * 2) v3"
  have h1: "0xFFFF < v \<longleftrightarrow> 16 \<le> k" "highest v1 k1" "k1 < 16"
    using halve_step[of v k "0xFFFF" 16] assms(1,2) by (simp_all add: k1_def v1_def)
  have h2: "0xFF < v1 \<longleftrightarrow> 8 \<le> k1" "highest v2 k2" "k2 < 8"
    using halve_step[of v1 k1 "0xFF" 8] h1 by (simp_all add: k2_def v2_def)
  have h3: "0xF < v2 \<longleftrightarrow> 4 \<le> k2" "highest v3 k3" "k3 < 4"
    using halve_step[of v2 k2 "0xF" 4] h2 by (simp_all add: k3_def v3_def)
  have h4: "3 < v3 \<longleftrightarrow> 2 \<le> k3" "highest v4 k4" "k4 < 2"
    using halve_step[of v3 k3 3 2] h3 by (simp_all add: k4_def v4_def)
  have h5: "1 < v4 \<longleftrightarrow> 1 \<le> k4" using highest_greater[OF h4(2), of 1 1] by simp
  have p: "push_bit 4 (of_bool b) = of_bool b * (16 :: nat)" "push_bit 3 (of_bool b) = of_bool b * (8 :: nat)"
    "push_bit 2 (of_bool b) = of_bool b * (4 :: nat)" "push_bit 1 (of_bool b) = of_bool b * (2 :: nat)" for b
    by (simp_all add: push_bit_eq_mult)
  have "halvings ret v = ((((ret OR of_bool (16 \<le> k) * 16) OR of_bool (8 \<le> k1) * 8) OR of_bool (4 \<le> k2) * 4)
      OR of_bool (2 \<le> k3) * 2) + of_bool (1 \<le> k4)"
    unfolding h1(1)[symmetric] h2(1)[symmetric] h3(1)[symmetric] h4(1)[symmetric] h5[symmetric]
    by (simp only: halvings_def Let_def p v4_def v3_def v2_def v1_def)
  also have "\<dots> = ret + (of_bool (16 \<le> k) * 16 + of_bool (8 \<le> k1) * 8 + of_bool (4 \<le> k2) * 4 + of_bool (2 \<le> k3) * 2 + of_bool (1 \<le> k4))"
    using assms(3)
    by (elim disjE; cases "16 \<le> k"; cases "8 \<le> k1"; cases "4 \<le> k2"; cases "2 \<le> k3"; cases "1 \<le> k4"; simp)
  also have "of_bool (16 \<le> k) * 16 + of_bool (8 \<le> k1) * 8 + of_bool (4 \<le> k2) * 4 + of_bool (2 \<le> k3) * 2 + of_bool (1 \<le> k4) = k"
  proof -
    have split: "of_bool (j \<le> x) * j + (x - of_bool (j \<le> x) * j) = x" for j x :: nat by auto
    have "of_bool (16 \<le> k) * 16 + k1 = k" "of_bool (8 \<le> k1) * 8 + k2 = k1" "of_bool (4 \<le> k2) * 4 + k3 = k2"
      "of_bool (2 \<le> k3) * 2 + k4 = k3" unfolding k1_def k2_def k3_def k4_def by (rule split)+
    moreover have "of_bool (1 \<le> k4) = k4" using h4(3) by (cases k4) auto
    ultimately show ?thesis by linarith
  qed
  finally show ?thesis .
qed


lemma highest_pos: "highest v k \<Longrightarrow> 0 < v"
  by (cases "v = 0") (auto simp: highest_def word_gt_0)

lemma ilog32_nodebruijn_highest: "highest v k \<Longrightarrow> k < 32 \<Longrightarrow> ilog32_nodebruijn v = Suc k"
  using halvings_highest[of v k 1] highest_pos[of v k]
  by (simp only: ilog32_nodebruijn_def halvings_def Let_def of_bool_eq simp_thms)

text \<open>The upper or the lower half of a 64-bit word.\<close>

lemma half_highest:
  fixes w :: u64
  assumes "highest w k" "k < 64"
  shows "0xFFFFFFFF < w \<longleftrightarrow> 32 \<le> k"
    and "highest (ucast (drop_bit (push_bit 5 (of_bool (0xFFFFFFFF < w))) w) :: u32) (k - of_bool (32 \<le> k) * 32)"
    and "k - of_bool (32 \<le> k) * 32 < 32"
proof -
  note h = halve_step[of w k "0xFFFFFFFF" 32]
  show g: "0xFFFFFFFF < w \<longleftrightarrow> 32 \<le> k" and l: "k - of_bool (32 \<le> k) * 32 < 32"
    using h assms by simp_all
  let ?v = "drop_bit (of_bool (0xFFFFFFFF < w) * 32) w"
  have v: "highest ?v (k - of_bool (32 \<le> k) * 32)" using h(2) assms by simp
  then have "unat ?v < 2 ^ Suc (k - of_bool (32 \<le> k) * 32)" by (simp add: highest_def)
  also have "\<dots> \<le> 2 ^ 32" using l by (intro power_increasing) simp_all
  finally have "unat (ucast ?v :: u32) = unat ?v" by (simp add: unsigned_ucast_eq take_bit_eq_mod)
  then show "highest (ucast (drop_bit (push_bit 5 (of_bool (0xFFFFFFFF < w))) w) :: u32) (k - of_bool (32 \<le> k) * 32)"
    using v by (simp add: highest_def push_bit_eq_mult)
qed

lemma ilog64_halves_highest:
  assumes "highest w k" "k < 64"
  shows "ilog64_halved w = Suc k" "ilog64_nodebruijn w = Suc k"
proof -
  let ?m = "push_bit 5 (of_bool (0xFFFFFFFF < w)) :: nat" and ?k = "k - of_bool (32 \<le> k) * 32"
  let ?v = "ucast (drop_bit ?m w) :: u32"
  note h = half_highest[OF assms]
  have r: "of_bool (0 < w) OR ?m = (if 32 \<le> k then 33 else 1)"
    using highest_pos[OF assms(1)] h(1) by (simp add: push_bit_eq_mult)
  have "ilog64_halved w = (of_bool (0 < w) OR ?m) + DEBRUIJN_IDX32 ! unat (drop_bit 27 ((let v = ?v OR drop_bit 1 ?v;
      v = v OR drop_bit 2 v; v = v OR drop_bit 4 v; v = v OR drop_bit 8 v; v = v OR drop_bit 16 v
          in drop_bit 1 v + 1) * 0x77CB531) AND 0x1F)"
    by (simp only: ilog64_halved_def Let_def)
  then show "ilog64_halved w = Suc k"
    unfolding smear_steps32[OF h(2,3)] debruijn32[OF h(3)] r by auto
  have "ilog64_nodebruijn w = halvings (of_bool (0 < w) OR ?m) ?v"
    by (simp only: ilog64_nodebruijn_def halvings_def Let_def)
  then show "ilog64_nodebruijn w = Suc k"
    unfolding r using halvings_highest[OF h(2,3), of "if 32 \<le> k then 33 else 1"] by auto
qed

section \<open>Properties\<close>

text \<open>
  Property C33: all versions of the integer logarithm agree and compute the number of binary
  digits, which is 0 for 0: the versions with a de Bruijn sequence, the versions by
  halving and the version that splits a 64-bit number first.
\<close>

theorem ilog_versions_agree:
  "ilog32 v = floorlog 2 (unat v) \<and> ilog32_nz v = floorlog 2 (unat v) \<and> ilog32_nodebruijn v = floorlog 2 (unat v) \<and>
   ilog64 w = floorlog 2 (unat w) \<and> ilog64_nz w = floorlog 2 (unat w) \<and>
   ilog64_halved w = floorlog 2 (unat w) \<and> ilog64_nodebruijn w = floorlog 2 (unat w)"
proof -
  have v: "ilog32 v = floorlog 2 (unat v) \<and> ilog32_nodebruijn v = floorlog 2 (unat v)"
  proof (cases "v = 0")
    case True
    have "ilog32 0 = 0 \<and> ilog32_nodebruijn 0 = 0" by code_simp
    then show ?thesis using True by (simp add: floorlog_def)
  next
    case False
    then show ?thesis
      using highest_exists[of v] ilog32_highest[of v] ilog32_nodebruijn_highest[of v] by auto
  qed
  have w: "ilog64 w = floorlog 2 (unat w) \<and> ilog64_halved w = floorlog 2 (unat w) \<and> ilog64_nodebruijn w = floorlog 2 (unat w)"
  proof (cases "w = 0")
    case True
    have "ilog64 0 = 0 \<and> ilog64_halved 0 = 0 \<and> ilog64_nodebruijn 0 = 0" by code_simp
    then show ?thesis using True by (simp add: floorlog_def)
  next
    case False
    then show ?thesis
      using highest_exists[of w] ilog64_highest[of w] ilog64_halves_highest[of w] by auto
  qed
  show ?thesis using v w by (simp add: ilog32_nz_def ilog64_nz_def)
qed

end
