(* ===== verification/Icm_Pool.thy ===== *)
theory Icm_Pool
  imports Buddy Ilog
begin

text \<open>
  The pools of device memory of \<open>providers/mlx5/dr_icm_pool.c\<close>. A pool owns a list of buddy
  allocators, each over one registered piece of device memory, and hands out chunks. A
  chunk that is given back first waits on the hot list of its allocator, since the
  device may still read it; when more than 64 MiB are hot, the steering pipeline is
  synchronised and all hot chunks return to their allocators.

  Allocators and chunks live in heaps indexed by their address; an access through the
  address of an object that has been freed is a fault. Every call to the memory
  allocator or the device takes the next number, which is also the address of the
  object it allocates, so that addresses are never reused. The outcomes of these calls
  are arguments. The linked lists are sequences of addresses. Every operation holds
  the mutex of the pool from its start to its end, so operations are atomic steps.
\<close>

section \<open>State\<close>

datatype dr_icm_type = DR_ICM_TYPE_STE | DR_ICM_TYPE_MODIFY_ACTION | DR_ICM_TYPE_MODIFY_HDR_PTRN

record dr_icm_chunk =
  buddy_mem :: nat
  rkey :: u32
  num_of_entries :: u32
  byte_size :: u32
  icm_addr :: u64
  mr_addr :: u64
  chunk_seg :: u32
  ste_arr :: bool
  hw_ste_arr :: bool
  miss_list :: bool

record dr_icm_pool =
  icm_type :: dr_icm_type
  memory_reclaim :: bool
  max_log_chunk_sz :: nat
  mutex :: bool
  buddy_mem_list :: "nat list"
  hot_memory_size :: u64
  buddies :: "nat \<Rightarrow> dr_icm_buddy_mem option"
  chunk_heap :: "nat \<Rightarrow> dr_icm_chunk option"
  calls :: nat

text \<open>
  The outcomes of the calls, by their number: whether an allocation succeeds, the address
  of an allocated piece of device memory, the address and key of its registration, and the
  result of synchronising the pipeline.
\<close>

record icm_env =
  env_alloc :: "nat \<Rightarrow> bool"
  env_dm :: "nat \<Rightarrow> u64 option"
  env_reg :: "nat \<Rightarrow> (u64 \<times> u32) option"
  env_sync :: "nat \<Rightarrow> nat"

section \<open>Sizes\<close>

definition dr_icm_pool_dm_type_to_entry_size :: "dr_icm_type \<Rightarrow> nat" where
  "dr_icm_pool_dm_type_to_entry_size t = (if t = DR_ICM_TYPE_STE then 64 else 8)"

definition dr_icm_pool_chunk_size_to_entries :: "nat \<Rightarrow> fault + nat" where
  "dr_icm_pool_chunk_size_to_entries chunk_size = shl 1 chunk_size"

definition dr_icm_pool_chunk_size_to_byte :: "nat \<Rightarrow> dr_icm_type \<Rightarrow> fault + nat" where
  "dr_icm_pool_chunk_size_to_byte chunk_size t =
    bindE (dr_icm_pool_chunk_size_to_entries chunk_size) (\<lambda>n.
    let s = dr_icm_pool_dm_type_to_entry_size t * n in if s < 2 ^ 31 then Inr s else Inl SignedOverflow)"

definition DR_ICM_MODIFY_HDR_ALIGN_BASE :: nat where
  "DR_ICM_MODIFY_HDR_ALIGN_BASE = 64"

definition DR_ICM_SYNC_THRESHOLD_POOL :: u64 where
  "DR_ICM_SYNC_THRESHOLD_POOL = 64 * 1024 * 1024"

section \<open>Device memory\<close>

text \<open>
  The device memory of an allocator: the address its chunks start from and the length
  that was asked for, and the number of the next call. A start that is not aligned is
  asked for again at double size and then rounded up.
\<close>

definition dr_icm_allocate_aligned_dm :: "icm_env \<Rightarrow> dr_icm_pool \<Rightarrow> nat \<Rightarrow> fault + nat \<times> (u64 \<times> nat) option" where
  "dr_icm_allocate_aligned_dm env pool t =
    bindE (dr_icm_pool_chunk_size_to_byte (max_log_chunk_sz pool) (icm_type pool)) (\<lambda>sz.
    let log_align_base =
          (case icm_type pool of
             DR_ICM_TYPE_STE \<Rightarrow> ilog32 (of_nat (sz - 1))
           | DR_ICM_TYPE_MODIFY_ACTION \<Rightarrow> ilog32 (of_nat (DR_ICM_MODIFY_HDR_ALIGN_BASE - 1))
           | DR_ICM_TYPE_MODIFY_HDR_PTRN \<Rightarrow> ilog32 (of_nat (DR_ICM_MODIFY_HDR_ALIGN_BASE - 1)));
        align_base = push_bit log_align_base (1 :: u64)
    in case env_dm env t of
         None \<Rightarrow> Inr (t + 1, None)
       | Some start \<Rightarrow>
           if start AND (align_base - 1) \<noteq> 0 then
             (case env_dm env (t + 1) of
                None \<Rightarrow> Inr (t + 2, None)
              | Some start \<Rightarrow>
                  if start AND (align_base - 1) \<noteq> 0
                  then Inr (t + 2, Some (start + (align_base - start mod align_base), sz * 2))
                  else Inr (t + 2, Some (start, sz * 2)))
           else Inr (t + 1, Some (start, sz)))"

definition dr_icm_pool_mr_create :: "icm_env \<Rightarrow> dr_icm_pool \<Rightarrow> nat \<Rightarrow> fault + nat \<times> dr_icm_mr option" where
  "dr_icm_pool_mr_create env pool t =
    (if \<not> env_alloc env t then Inr (t + 1, None)
     else
       bindE (dr_icm_allocate_aligned_dm env pool (t + 1)) (\<lambda>(t, dm).
       case dm of None \<Rightarrow> Inr (t, None)
       | Some (start, len) \<Rightarrow>
         (case env_reg env t of None \<Rightarrow> Inr (t + 1, None)
          | Some (addr, key) \<Rightarrow> Inr (t + 1, Some \<lparr>mr_base = addr, mr_rkey = key, icm_start_addr = start\<rparr>))))"

section \<open>Chunks and allocators\<close>

definition the_buddy :: "dr_icm_pool \<Rightarrow> nat \<Rightarrow> fault + dr_icm_buddy_mem" where
  "the_buddy pool a = orFault BadPointer (buddies pool a)"

definition the_chunk :: "dr_icm_pool \<Rightarrow> nat \<Rightarrow> fault + dr_icm_chunk" where
  "the_chunk pool c = orFault BadPointer (chunk_heap pool c)"

definition set_buddy :: "nat \<Rightarrow> dr_icm_buddy_mem \<Rightarrow> dr_icm_pool \<Rightarrow> dr_icm_pool" where
  "set_buddy a b pool = pool\<lparr>buddies := (buddies pool)(a \<mapsto> b)\<rparr>"

text \<open>The entry arrays of a chunk of steering entries: three allocations, undone if one fails.\<close>

definition dr_icm_chunk_ste_init :: "icm_env \<Rightarrow> nat \<Rightarrow> dr_icm_chunk \<Rightarrow> bool \<times> nat \<times> dr_icm_chunk" where
  "dr_icm_chunk_ste_init env t chunk =
    (if \<not> env_alloc env t then (False, t + 1, chunk\<lparr>ste_arr := False\<rparr>)
     else if \<not> env_alloc env (t + 1) then (False, t + 2, chunk\<lparr>ste_arr := False, hw_ste_arr := False\<rparr>)
     else if \<not> env_alloc env (t + 2) then (False, t + 3, chunk\<lparr>ste_arr := False, hw_ste_arr := False, miss_list := False\<rparr>)
     else (True, t + 3, chunk\<lparr>ste_arr := True, hw_ste_arr := True, miss_list := True\<rparr>))"

text \<open>A node is taken off whichever list of its allocator it is on.\<close>

definition del_chunk_node :: "nat \<Rightarrow> dr_icm_buddy_mem \<Rightarrow> dr_icm_buddy_mem" where
  "del_chunk_node c b = b\<lparr>used_list := remove1 c (used_list b), hot_list := remove1 c (hot_list b)\<rparr>"

definition dr_icm_chunk_destroy :: "nat \<Rightarrow> dr_icm_pool \<Rightarrow> fault + dr_icm_pool" where
  "dr_icm_chunk_destroy c pool =
    bindE (the_chunk pool c) (\<lambda>chunk.
    bindE (the_buddy pool (buddy_mem chunk)) (\<lambda>b.
    let pool = set_buddy (buddy_mem chunk) (del_chunk_node c b) pool in
    Inr (pool\<lparr>chunk_heap := (chunk_heap pool)(c := None)\<rparr>)))"

definition empty_buddy :: dr_icm_buddy_mem where
  "empty_buddy = \<lparr>bits = [], num_free = [], set_bit' = [], max_order = 0, icm_mr = \<lparr>mr_base = 0, mr_rkey = 0, icm_start_addr = 0\<rparr>,
     used_list = [], used_memory = 0, hot_list = []\<rparr>"

definition dr_icm_buddy_create :: "icm_env \<Rightarrow> dr_icm_pool \<Rightarrow> fault + nat \<times> dr_icm_pool" where
  "dr_icm_buddy_create env pool =
    bindE (dr_icm_pool_mr_create env pool (calls pool)) (\<lambda>(t, mr).
    case mr of None \<Rightarrow> Inr (ENOMEM, pool\<lparr>calls := t\<rparr>)
    | Some mr \<Rightarrow>
      if \<not> env_alloc env t then Inr (ENOMEM, pool\<lparr>calls := t + 1\<rparr>)
      else
        bindE (dr_buddy_init (env_alloc env) (t + 1) empty_buddy (max_log_chunk_sz pool)) (\<lambda>(err, t', b).
        if err \<noteq> 0 then Inr (ENOMEM, pool\<lparr>calls := t'\<rparr>)
        else Inr (0, (set_buddy t (b\<lparr>icm_mr := mr\<rparr>) pool)\<lparr>buddy_mem_list := t # buddy_mem_list pool, calls := t'\<rparr>)))"

definition dr_icm_buddy_destroy :: "nat \<Rightarrow> dr_icm_pool \<Rightarrow> fault + dr_icm_pool" where
  "dr_icm_buddy_destroy a pool =
    bindE (the_buddy pool a) (\<lambda>b.
    bindE (foldE dr_icm_chunk_destroy (hot_list b) pool) (\<lambda>pool.
    bindE (the_buddy pool a) (\<lambda>b.
    bindE (foldE dr_icm_chunk_destroy (used_list b) pool) (\<lambda>pool.
    bindE (the_buddy pool a) (\<lambda>b.
    let (l, b) = dr_buddy_cleanup a (buddy_mem_list pool) b in
    Inr (pool\<lparr>buddy_mem_list := l, buddies := (buddies pool)(a := None)\<rparr>))))))"

definition dr_icm_chunk_create :: "icm_env \<Rightarrow> nat \<Rightarrow> nat \<Rightarrow> nat \<Rightarrow> dr_icm_pool \<Rightarrow> fault + nat option \<times> dr_icm_pool" where
  "dr_icm_chunk_create env chunk_size a sg pool =
    (let c = calls pool in
     if \<not> env_alloc env c then Inr (None, pool\<lparr>calls := c + 1\<rparr>)
     else
       bindE (the_buddy pool a) (\<lambda>b.
       let off = dr_icm_pool_dm_type_to_entry_size (icm_type pool) * sg; offset = of_nat off in
       if off \<ge> 2 ^ 31 then Inl SignedOverflow else
       bindE (dr_icm_pool_chunk_size_to_entries chunk_size) (\<lambda>n.
       bindE (dr_icm_pool_chunk_size_to_byte chunk_size (icm_type pool)) (\<lambda>bytes.
       let chunk = \<lparr>buddy_mem = 0, rkey = mr_rkey (icm_mr b), num_of_entries = of_nat n, byte_size = of_nat bytes,
             icm_addr = icm_start_addr (icm_mr b) + offset, mr_addr = mr_base (icm_mr b) + offset, chunk_seg = of_nat sg,
             ste_arr = False, hw_ste_arr = False, miss_list = False\<rparr>;
           (ok, t, chunk) = (if icm_type pool = DR_ICM_TYPE_STE then dr_icm_chunk_ste_init env (c + 1) chunk else (True, c + 1, chunk))
       in if \<not> ok then Inr (None, pool\<lparr>calls := t\<rparr>)
          else
            (let b = b\<lparr>used_memory := used_memory b + ucast (byte_size chunk), used_list := used_list b @ [c]\<rparr>;
                 pool = set_buddy a b pool
             in Inr (Some c, pool\<lparr>chunk_heap := (chunk_heap pool)(c \<mapsto> chunk\<lparr>buddy_mem := a\<rparr>), calls := t\<rparr>))))))"

section \<open>Synchronisation\<close>

definition dr_icm_pool_is_sync_required :: "dr_icm_pool \<Rightarrow> bool" where
  "dr_icm_pool_is_sync_required pool = (hot_memory_size pool > DR_ICM_SYNC_THRESHOLD_POOL)"

definition release_hot :: "nat \<Rightarrow> nat \<Rightarrow> dr_icm_pool \<Rightarrow> fault + dr_icm_pool" where
  "release_hot a c pool =
    bindE (the_chunk pool c) (\<lambda>chunk.
    bindE (the_buddy pool a) (\<lambda>b.
    bindE (dr_buddy_free_mem (unat (chunk_seg chunk)) (ilog32 (num_of_entries chunk - 1)) b) (\<lambda>b.
    let pool = set_buddy a (b\<lparr>used_memory := used_memory b - ucast (byte_size chunk)\<rparr>) pool;
        pool = pool\<lparr>hot_memory_size := hot_memory_size pool - ucast (byte_size chunk)\<rparr>
    in dr_icm_chunk_destroy c pool)))"

definition sync_buddy :: "nat \<Rightarrow> dr_icm_pool \<Rightarrow> fault + dr_icm_pool" where
  "sync_buddy a pool =
    bindE (the_buddy pool a) (\<lambda>b.
    bindE (foldE (release_hot a) (hot_list b) pool) (\<lambda>pool.
    bindE (the_buddy pool a) (\<lambda>b.
    if memory_reclaim pool \<and> icm_type pool = DR_ICM_TYPE_STE \<and> used_memory b = 0
    then dr_icm_buddy_destroy a pool else Inr pool)))"

definition dr_icm_pool_sync_all_buddy_pools :: "icm_env \<Rightarrow> dr_icm_pool \<Rightarrow> fault + nat \<times> dr_icm_pool" where
  "dr_icm_pool_sync_all_buddy_pools env pool =
    (let err = env_sync env (calls pool); pool = pool\<lparr>calls := calls pool + 1\<rparr> in
     if err \<noteq> 0 then Inr (err, pool)
     else bindE (foldE sync_buddy (buddy_mem_list pool) pool) (\<lambda>pool. Inr (0, pool)))"

section \<open>The interface of the pool\<close>

text \<open>
  One pass over the allocators. With new memory the first allocator of the list serves
  the request or the program stops at an assertion, so that at most two passes are made.
\<close>

fun scan_buddies :: "bool \<Rightarrow> nat \<Rightarrow> nat list \<Rightarrow> dr_icm_pool \<Rightarrow> fault + (nat \<times> nat) option \<times> dr_icm_pool" where
  "scan_buddies new_mem chunk_size [] pool = Inr (None, pool)"
| "scan_buddies new_mem chunk_size (a # as) pool =
    bindE (the_buddy pool a) (\<lambda>b.
    bindE (dr_buddy_alloc_mem chunk_size b) (\<lambda>(sg, b).
    let pool = set_buddy a b pool in
    if sg \<noteq> -1 then Inr (Some (a, nat sg), pool)
    else if new_mem then Inl AssertFailed
    else scan_buddies new_mem chunk_size as pool))"

definition dr_icm_handle_buddies_get_mem :: "icm_env \<Rightarrow> nat \<Rightarrow> dr_icm_pool \<Rightarrow> fault + nat \<times> (nat \<times> nat) option \<times> dr_icm_pool" where
  "dr_icm_handle_buddies_get_mem env chunk_size pool =
    bindE (scan_buddies False chunk_size (buddy_mem_list pool) pool) (\<lambda>(r, pool).
    case r of Some x \<Rightarrow> Inr (0, Some x, pool)
    | None \<Rightarrow>
      bindE (dr_icm_buddy_create env pool) (\<lambda>(err, pool).
      if err \<noteq> 0 then Inr (err, None, pool)
      else bindE (scan_buddies True chunk_size (buddy_mem_list pool) pool) (\<lambda>(r, pool). Inr (0, r, pool))))"

definition lock :: "dr_icm_pool \<Rightarrow> fault + dr_icm_pool" where
  "lock pool = (if mutex pool then Inl Blocked else Inr (pool\<lparr>mutex := True\<rparr>))"

definition dr_icm_alloc_chunk :: "icm_env \<Rightarrow> nat \<Rightarrow> dr_icm_pool \<Rightarrow> fault + nat option \<times> dr_icm_pool" where
  "dr_icm_alloc_chunk env chunk_size pool =
    (if chunk_size > max_log_chunk_sz pool then Inr (None, pool)
     else
       bindE (lock pool) (\<lambda>pool.
       bindE (dr_icm_handle_buddies_get_mem env chunk_size pool) (\<lambda>(ret, r, pool).
       if ret \<noteq> 0 then Inr (None, pool\<lparr>mutex := False\<rparr>) else
       case r of None \<Rightarrow> Inl BadPointer
       | Some (a, sg) \<Rightarrow>
         bindE (dr_icm_chunk_create env chunk_size a sg pool) (\<lambda>(chunk, pool).
         case chunk of
           Some c \<Rightarrow> Inr (Some c, pool\<lparr>mutex := False\<rparr>)
         | None \<Rightarrow>
             bindE (the_buddy pool a) (\<lambda>b.
             bindE (dr_buddy_free_mem sg chunk_size b) (\<lambda>b.
             Inr (None, (set_buddy a b pool)\<lparr>mutex := False\<rparr>)))))))"

text \<open>
  The pool is reached through the allocator of the chunk, when the mutex is taken and again
  when it is released.
\<close>

definition dr_icm_free_chunk :: "icm_env \<Rightarrow> nat \<Rightarrow> dr_icm_pool \<Rightarrow> fault + dr_icm_pool" where
  "dr_icm_free_chunk env c pool =
    bindE (the_chunk pool c) (\<lambda>chunk.
    let a = buddy_mem chunk in
    bindE (the_buddy pool a) (\<lambda>b.
    bindE (lock pool) (\<lambda>pool.
    let b = del_chunk_node c b;
        pool = set_buddy a (b\<lparr>hot_list := hot_list b @ [c]\<rparr>) pool;
        pool = pool\<lparr>hot_memory_size := hot_memory_size pool + ucast (byte_size chunk)\<rparr>
    in
    bindE (if dr_icm_pool_is_sync_required pool
           then bindE (dr_icm_pool_sync_all_buddy_pools env pool) (\<lambda>(err, pool). Inr pool)
           else Inr pool) (\<lambda>pool.
    bindE (the_buddy pool a) (\<lambda>b.
    Inr (pool\<lparr>mutex := False\<rparr>))))))"

text \<open>The domain of a pool: its flag and the sizes it allows.\<close>

record dr_domain =
  flag_memory_reclaim :: bool
  max_log_sw_icm_sz :: nat
  max_log_action_icm_sz :: nat
  max_log_modify_hdr_pattern_icm_sz :: nat

definition domain_sizes :: "bool \<Rightarrow> nat \<Rightarrow> nat \<Rightarrow> dr_domain" where
  "domain_sizes reclaim log_icm_size log_modify_pattern_icm_size =
    \<lparr>flag_memory_reclaim = reclaim, max_log_sw_icm_sz = min 20 log_icm_size, max_log_action_icm_sz = 12,
     max_log_modify_hdr_pattern_icm_sz = min 12 log_modify_pattern_icm_size\<rparr>"

definition set_reclaim :: "bool \<Rightarrow> dr_icm_pool \<Rightarrow> dr_icm_pool" where
  "set_reclaim enable pool = pool\<lparr>memory_reclaim := enable\<rparr>"

definition dr_icm_pool_create :: "icm_env \<Rightarrow> dr_domain \<Rightarrow> dr_icm_type \<Rightarrow> dr_icm_pool option" where
  "dr_icm_pool_create env dmn ty =
    (if \<not> env_alloc env 0 then None
     else Some \<lparr>icm_type = ty, memory_reclaim = flag_memory_reclaim dmn,
       max_log_chunk_sz =
         (case ty of
            DR_ICM_TYPE_STE \<Rightarrow> max_log_sw_icm_sz dmn
          | DR_ICM_TYPE_MODIFY_ACTION \<Rightarrow> max_log_action_icm_sz dmn
          | DR_ICM_TYPE_MODIFY_HDR_PTRN \<Rightarrow> max_log_modify_hdr_pattern_icm_sz dmn),
       mutex = False, buddy_mem_list = [],
       hot_memory_size = 0, buddies = Map.empty, chunk_heap = Map.empty, calls = 1\<rparr>)"

definition dr_icm_pool_destroy :: "dr_icm_pool \<Rightarrow> fault + dr_icm_pool" where
  "dr_icm_pool_destroy pool = foldE dr_icm_buddy_destroy (buddy_mem_list pool) pool"

section \<open>Orders and sizes of chunks\<close>

lemma u32_nat: "n < 2 ^ 32 \<Longrightarrow> unat (of_nat n :: u32) = n"
  by (simp add: unsigned_of_nat take_bit_nat_eq_self)

lemma ilog32_order: "k < 32 \<Longrightarrow> ilog32 (2 ^ k - 1) = k"
proof (cases k)
  case 0
  have "ilog32 0 = 0" by code_simp
  then show ?thesis using 0 by simp
next
  case (Suc j)
  assume "k < 32"
  have "(2 :: nat) ^ k < 2 ^ 32" using \<open>k < 32\<close> by (intro power_strict_increasing) auto
  then have "unat (of_nat (2 ^ k - 1) :: u32) = 2 ^ k - 1" by (intro u32_nat) simp
  moreover have "of_nat (2 ^ k - 1) = (2 ^ k - 1 :: u32)" by (simp add: of_nat_diff)
  ultimately have "unat (2 ^ k - 1 :: u32) = 2 ^ k - 1" by simp
  then have "highest (2 ^ k - 1 :: u32) j" using Suc by (simp add: highest_def)
  then show ?thesis using ilog32_highest[of "2 ^ k - 1" j] Suc \<open>k < 32\<close> by simp
qed

definition chunk_order :: "dr_icm_chunk \<Rightarrow> nat" where
  "chunk_order ch = ilog32 (num_of_entries ch - 1)"

definition entry_size :: "dr_icm_pool \<Rightarrow> nat" where
  "entry_size pool = dr_icm_pool_dm_type_to_entry_size (icm_type pool)"

lemma entry_size_bound: "0 < entry_size pool" "entry_size pool \<le> 64"
  by (simp_all add: entry_size_def dr_icm_pool_dm_type_to_entry_size_def)

lemma size_to_byte:
  assumes "k \<le> 20"
  shows "dr_icm_pool_chunk_size_to_entries k = Inr (2 ^ k)"
    and "dr_icm_pool_chunk_size_to_byte k (icm_type pool) = Inr (entry_size pool * 2 ^ k)"
    and "entry_size pool * 2 ^ k \<le> 2 ^ 26"
proof -
  have p: "(2 :: nat) ^ k \<le> 2 ^ 20" using assms by (intro power_increasing) auto
  then have "entry_size pool * 2 ^ k \<le> 64 * 2 ^ 20" using entry_size_bound(2)[of pool] by (intro mult_le_mono)
  then show s: "entry_size pool * 2 ^ k \<le> 2 ^ 26" by simp
  show e: "dr_icm_pool_chunk_size_to_entries k = Inr (2 ^ k)"
    using p assms by (simp add: dr_icm_pool_chunk_size_to_entries_def shl_def)
  show "dr_icm_pool_chunk_size_to_byte k (icm_type pool) = Inr (entry_size pool * 2 ^ k)"
    using s unfolding dr_icm_pool_chunk_size_to_byte_def e by (simp add: entry_size_def[symmetric])
qed

section \<open>The invariant\<close>

definition owned :: "dr_icm_pool \<Rightarrow> nat \<Rightarrow> nat set" where
  "owned pool a = {c. \<exists>ch. chunk_heap pool c = Some ch \<and> buddy_mem ch = a}"

definition place :: "dr_icm_pool \<Rightarrow> nat \<Rightarrow> nat \<times> nat" where
  "place pool c = (case chunk_heap pool c of Some ch \<Rightarrow> (unat (chunk_seg ch), chunk_order ch) | None \<Rightarrow> (0, 0))"

definition bytes :: "dr_icm_pool \<Rightarrow> nat \<Rightarrow> nat" where
  "bytes pool c = (case chunk_heap pool c of Some ch \<Rightarrow> unat (byte_size ch) | None \<Rightarrow> 0)"

text \<open>The lists hold exactly the live allocators and the live chunks.\<close>

definition linked :: "dr_icm_pool \<Rightarrow> bool" where
  "linked pool \<longleftrightarrow> distinct (buddy_mem_list pool) \<and> set (buddy_mem_list pool) = dom (buddies pool) \<and>
     (\<forall>a b. buddies pool a = Some b \<longrightarrow> distinct (used_list b @ hot_list b) \<and> set (used_list b @ hot_list b) = owned pool a) \<and>
     (\<forall>c ch. chunk_heap pool c = Some ch \<longrightarrow> buddy_mem ch \<in> dom (buddies pool))"

text \<open>
  The memory of one allocator: its chunks hold disjoint aligned runs that are not free,
  their sizes are those of their runs, and the count of the memory in use is exact.
\<close>

definition sound :: "dr_icm_pool \<Rightarrow> nat \<Rightarrow> dr_icm_buddy_mem \<Rightarrow> bool" where
  "sound pool a b \<longleftrightarrow> buddy_ok b \<and> max_order b = max_log_chunk_sz pool \<and>
     holding (max_order b) (area b) (owned pool a) (place pool) \<and>
     (\<forall>c\<in>owned pool a. bytes pool c = entry_size pool * 2 ^ snd (place pool c)) \<and>
     unat (used_memory b) = (\<Sum>c\<in>owned pool a. bytes pool c)"

definition hot_chunks :: "dr_icm_pool \<Rightarrow> nat set" where
  "hot_chunks pool = {c. \<exists>a b. buddies pool a = Some b \<and> c \<in> set (hot_list b)}"

definition pool_core :: "dr_icm_pool \<Rightarrow> bool" where
  "pool_core pool \<longleftrightarrow> max_log_chunk_sz pool \<le> 20 \<and> linked pool \<and>
     (\<forall>a b. buddies pool a = Some b \<longrightarrow> sound pool a b) \<and>
     (\<forall>a\<in>dom (buddies pool) \<union> dom (chunk_heap pool). a < calls pool) \<and>
     hot_memory_size pool = of_nat (\<Sum>c\<in>hot_chunks pool. bytes pool c)"

section \<open>Preservation\<close>

lemma heap_cong:
  assumes "chunk_heap p = chunk_heap q"
  shows "owned p = owned q" "place p = place q" "bytes p = bytes q"
  using assms by (simp_all add: owned_def place_def bytes_def fun_eq_iff)

lemma sound_cong:
  assumes "chunk_heap p = chunk_heap q" "icm_type p = icm_type q" "max_log_chunk_sz p = max_log_chunk_sz q"
  shows "sound p = sound q"
  unfolding fun_eq_iff sound_def entry_size_def heap_cong[OF assms(1)] assms(2,3) by simp

lemma sound_rest:
  assumes "sound p a b" "buddy_ok b'" "max_order b' = max_order b" "area b' = area b" "used_memory b' = used_memory b"
  shows "sound p a b'"
  using assms(1,2) unfolding sound_def assms(4) unfolding assms(3,5) by blast

lemma coreD:
  assumes "pool_core p"
  shows "max_log_chunk_sz p \<le> 20" "distinct (buddy_mem_list p)" "set (buddy_mem_list p) = dom (buddies p)"
    and "\<And>a b. buddies p a = Some b \<Longrightarrow> distinct (used_list b @ hot_list b) \<and> set (used_list b @ hot_list b) = owned p a"
    and "\<And>c ch. chunk_heap p c = Some ch \<Longrightarrow> buddy_mem ch \<in> dom (buddies p)"
    and "\<And>a b. buddies p a = Some b \<Longrightarrow> sound p a b"
    and "\<And>a b. buddies p a = Some b \<Longrightarrow> a < calls p" "\<And>c ch. chunk_heap p c = Some ch \<Longrightarrow> c < calls p"
    and "hot_memory_size p = of_nat (\<Sum>c\<in>hot_chunks p. bytes p c)"
  using assms unfolding pool_core_def linked_def by blast+

lemma coreI:
  assumes "max_log_chunk_sz p \<le> 20" "distinct (buddy_mem_list p)" "set (buddy_mem_list p) = dom (buddies p)"
    and "\<And>a b. buddies p a = Some b \<Longrightarrow> distinct (used_list b @ hot_list b) \<and> set (used_list b @ hot_list b) = owned p a"
    and "\<And>c ch. chunk_heap p c = Some ch \<Longrightarrow> buddy_mem ch \<in> dom (buddies p)"
    and "\<And>a b. buddies p a = Some b \<Longrightarrow> sound p a b"
    and "\<And>a b. buddies p a = Some b \<Longrightarrow> a < calls p" "\<And>c ch. chunk_heap p c = Some ch \<Longrightarrow> c < calls p"
    and "hot_memory_size p = of_nat (\<Sum>c\<in>hot_chunks p. bytes p c)"
  shows "pool_core p"
  unfolding pool_core_def linked_def using assms by blast

lemma owned_dom: "owned p a \<subseteq> dom (chunk_heap p)"
  by (auto simp: owned_def)

lemma owned_finite: "pool_core p \<Longrightarrow> buddies p a = Some b \<Longrightarrow> finite (owned p a)"
  using coreD(4)[of p a b] by (metis finite_set)

lemma hot_sub: "pool_core p \<Longrightarrow> hot_chunks p \<subseteq> dom (chunk_heap p)"
  using coreD(4) owned_dom by (fastforce simp: hot_chunks_def)

text \<open>The mutex does not matter, and the number of calls may grow.\<close>

lemma core_same:
  assumes "pool_core p" "buddies q = buddies p" "chunk_heap q = chunk_heap p" "buddy_mem_list q = buddy_mem_list p"
    and "icm_type q = icm_type p" "max_log_chunk_sz q = max_log_chunk_sz p" "hot_memory_size q = hot_memory_size p" "calls p \<le> calls q"
  shows "pool_core q"
proof -
  note c = coreD[OF assms(1)]
  have hot: "hot_chunks q = hot_chunks p" by (simp add: hot_chunks_def assms(2))
  have s: "sound q = sound p" using assms(3,5,6) by (intro sound_cong)
  show ?thesis
  proof (rule coreI)
    show "\<And>a b. buddies q a = Some b \<Longrightarrow> a < calls q" "\<And>c ch. chunk_heap q c = Some ch \<Longrightarrow> c < calls q"
      using c(7,8) assms(8) unfolding assms(2,3) by (meson less_le_trans)+
  qed (use c in \<open>simp_all only: assms(2-7) heap_cong[OF assms(3)] s hot\<close>)
qed

lemma core_mutex: "pool_core (p\<lparr>mutex := m\<rparr>) \<longleftrightarrow> pool_core p"
  using core_same[of p "p\<lparr>mutex := m\<rparr>"] core_same[of "p\<lparr>mutex := m\<rparr>" p] by auto

lemma core_calls: "pool_core p \<Longrightarrow> calls p \<le> t \<Longrightarrow> pool_core (p\<lparr>calls := t\<rparr>)"
  by (erule core_same) simp_all

text \<open>An allocator may be replaced by one with the same lists.\<close>

lemma set_buddy_sel [simp]:
  "chunk_heap (set_buddy a b p) = chunk_heap p" "icm_type (set_buddy a b p) = icm_type p"
  "max_log_chunk_sz (set_buddy a b p) = max_log_chunk_sz p" "buddy_mem_list (set_buddy a b p) = buddy_mem_list p"
  "calls (set_buddy a b p) = calls p" "hot_memory_size (set_buddy a b p) = hot_memory_size p"
  "buddies (set_buddy a b p) = (buddies p)(a \<mapsto> b)" "mutex (set_buddy a b p) = mutex p"
  "memory_reclaim (set_buddy a b p) = memory_reclaim p"
  by (simp_all add: set_buddy_def)

definition other_hot :: "nat \<Rightarrow> dr_icm_pool \<Rightarrow> nat set" where
  "other_hot a p = {c. \<exists>a' b. a' \<noteq> a \<and> buddies p a' = Some b \<and> c \<in> set (hot_list b)}"

lemma hot_split: "buddies p a = Some b \<Longrightarrow> hot_chunks p = set (hot_list b) \<union> other_hot a p"
  by (auto simp: hot_chunks_def other_hot_def) (metis option.inject)

lemma other_hot_set [simp]: "other_hot a (set_buddy a b p) = other_hot a p"
  by (auto simp: other_hot_def)

lemma hot_upd:
  assumes "buddies p a = Some b" "hot_list b' = hot_list b"
  shows "hot_chunks (set_buddy a b' p) = hot_chunks p"
  using hot_split[OF assms(1)] hot_split[of "set_buddy a b' p" a b'] assms(2) by simp

lemma core_set_buddy:
  assumes "pool_core p" "buddies p a = Some b" "sound p a b'" "used_list b' = used_list b" "hot_list b' = hot_list b"
  shows "pool_core (set_buddy a b' p)"
proof -
  let ?q = "set_buddy a b' p"
  have h: "chunk_heap ?q = chunk_heap p" by simp
  have s: "sound ?q = sound p" by (rule sound_cong) simp_all
  have d: "dom (buddies ?q) = dom (buddies p)" using assms(2) by auto
  note c = coreD[OF assms(1)]
  show ?thesis
  proof (rule coreI)
    fix a' b'' assume b'': "buddies ?q a' = Some b''"
    show "distinct (used_list b'' @ hot_list b'') \<and> set (used_list b'' @ hot_list b'') = owned ?q a'"
      using b'' c(4)[of a'] c(4)[OF assms(2)] assms(4,5) unfolding heap_cong(1)[OF h] by (cases "a' = a") simp_all
    show "sound ?q a' b''" using b'' c(6)[of a' b''] assms(3) unfolding s by (cases "a' = a") simp_all
    show "a' < calls ?q" using b'' c(7)[of a'] c(7)[OF assms(2)] by (cases "a' = a") simp_all
  next
    show "hot_memory_size ?q = of_nat (\<Sum>c\<in>hot_chunks ?q. bytes ?q c)"
      using c(9) unfolding hot_upd[OF assms(2,5)] heap_cong[OF h] by simp
    show "\<And>c ch. chunk_heap ?q c = Some ch \<Longrightarrow> buddy_mem ch \<in> dom (buddies ?q)" unfolding d using c(5) by simp
    show "set (buddy_mem_list ?q) = dom (buddies ?q)" unfolding d using c(3) by simp
  qed (use c(1,2,8) in simp_all)
qed

subsection \<open>A new chunk\<close>

lemma soundD:
  assumes "sound p a b"
  shows "buddy_ok b" "max_order b = max_log_chunk_sz p" "holding (max_order b) (area b) (owned p a) (place p)"
    "\<And>c. c \<in> owned p a \<Longrightarrow> bytes p c = entry_size p * 2 ^ snd (place p c)" "unat (used_memory b) = (\<Sum>c\<in>owned p a. bytes p c)"
  using assms unfolding sound_def by blast+

lemma soundI:
  assumes "buddy_ok b" "max_order b = max_log_chunk_sz p" "holding (max_order b) (area b) (owned p a) (place p)"
    "\<And>c. c \<in> owned p a \<Longrightarrow> bytes p c = entry_size p * 2 ^ snd (place p c)" "unat (used_memory b) = (\<Sum>c\<in>owned p a. bytes p c)"
  shows "sound p a b"
  using assms unfolding sound_def by blast

lemma sound_other:
  assumes "owned q a = owned p a" "\<And>c. c \<in> owned p a \<Longrightarrow> chunk_heap q c = chunk_heap p c" "icm_type q = icm_type p"
    "max_log_chunk_sz q = max_log_chunk_sz p" "sound p a b"
  shows "sound q a b"
proof -
  have e: "entry_size q = entry_size p" by (simp add: entry_size_def assms(3))
  have p: "place q c = place p c" "bytes q c = bytes p c" if "c \<in> owned p a" for c
    using assms(2)[OF that] by (simp_all add: place_def bytes_def)
  then have h: "holding M F (owned p a) (place q) = holding M F (owned p a) (place p)" for M F by (intro holding_cong)
  have "(\<Sum>c\<in>owned p a. bytes q c) = (\<Sum>c\<in>owned p a. bytes p c)" using p(2) by (intro sum.cong) auto
  then show ?thesis using soundD[OF assms(5)] p by (intro soundI) (simp_all only: assms(1,4) e h)
qed

lemma alloc_seg:
  assumes "sound p a b" "max_log_chunk_sz p \<le> 20" "k \<le> max_log_chunk_sz p" "dr_buddy_alloc_mem k b = Inr (int sg, b1)"
  shows "buddy_ok b1" "same_rest b b1" "area b1 = area b - run sg k" "sg < 2 ^ 20"
proof -
  have ok: "buddy_ok b" and M: "max_order b = max_log_chunk_sz p" using assms(1) by (simp_all add: sound_def)
  obtain i where i: "sg = i * 2 ^ k" "buddy_ok b1" "same_rest b b1" "block k i \<subseteq> area b" "area b1 = area b - block k i"
    using alloc_given[OF ok assms(4)] by blast
  show "buddy_ok b1" "same_rest b b1" "area b1 = area b - run sg k" using i by (simp_all add: run_block)
  have "sg \<in> run sg k" by (simp add: run_def)
  then have "sg < 2 ^ max_order b" using i(1,4) area_bounded[OF ok] by (auto simp: run_block)
  moreover have "(2 :: nat) ^ max_order b \<le> 2 ^ 20" using assms(2) M by (intro power_increasing) auto
  ultimately show "sg < 2 ^ 20" by linarith
qed

lemma sound_bound:
  assumes "holding M free I pl" "finite I" "M \<le> 20" "\<And>c. c \<in> I \<Longrightarrow> bytes q c = entry_size q * 2 ^ snd (pl c)"
  shows "(\<Sum>c\<in>I. bytes q c) \<le> 2 ^ 26"
proof -
  have "(\<Sum>c\<in>I. bytes q c) = entry_size q * (\<Sum>c\<in>I. 2 ^ snd (pl c))" using assms(4) by (simp add: sum_distrib_left)
  also have "\<dots> \<le> entry_size q * 2 ^ M" using holding_total[OF assms(1,2)] by simp
  also have "\<dots> \<le> 2 ^ 26" by (rule size_to_byte(3)[OF assms(3)])
  finally show ?thesis .
qed

lemma new_chunk:
  assumes "chunk_heap p c = None" "k \<le> 20" "sg < 2 ^ 20"
    and "buddy_mem ch = a" "chunk_seg ch = of_nat sg" "num_of_entries ch = of_nat (2 ^ k)" "byte_size ch = of_nat (entry_size p * 2 ^ k)"
    and "chunk_heap q = (chunk_heap p)(c \<mapsto> ch)"
  shows "place q = (place p)(c := (sg, k))" "bytes q = (bytes p)(c := entry_size p * 2 ^ k)"
    and "owned q a = insert c (owned p a)" "\<And>a'. a' \<noteq> a \<Longrightarrow> owned q a' = owned p a'"
proof -
  have o: "chunk_order ch = k" using ilog32_order[of k] assms(2,6) by (simp add: chunk_order_def)
  have s: "unat (chunk_seg ch) = sg" unfolding assms(5) using assms(3) by (intro u32_nat) simp
  have b: "unat (byte_size ch) = entry_size p * 2 ^ k" unfolding assms(7) using size_to_byte(3)[OF assms(2), of p] by (intro u32_nat) simp
  show "place q = (place p)(c := (sg, k))" using o s assms(8) by (simp add: place_def fun_eq_iff)
  show "bytes q = (bytes p)(c := entry_size p * 2 ^ k)" using b assms(8) by (simp add: bytes_def fun_eq_iff)
  show "owned q a = insert c (owned p a)" using assms(1,4,8) by (auto simp: owned_def)
  show "owned q a' = owned p a'" if "a' \<noteq> a" for a' using that assms(1,4,8) by (auto simp: owned_def)
qed

lemma sound_new:
  assumes core: "pool_core p" and b: "buddies p a = Some b" and k: "k \<le> max_log_chunk_sz p" "dr_buddy_alloc_mem k b = Inr (int sg, b1)"
    and fresh: "chunk_heap p c = None"
    and ch: "buddy_mem ch = a" "chunk_seg ch = of_nat sg" "num_of_entries ch = of_nat (2 ^ k)" "byte_size ch = of_nat (entry_size p * 2 ^ k)"
    and q: "chunk_heap q = (chunk_heap p)(c \<mapsto> ch)" "icm_type q = icm_type p" "max_log_chunk_sz q = max_log_chunk_sz p"
    and b2: "b2 = b1\<lparr>used_memory := used_memory b1 + ucast (byte_size ch), used_list := used_list b1 @ [c]\<rparr>"
  shows "sound q a b2"
proof -
  note s = soundD[OF coreD(6)[OF core b]] and al = alloc_seg[OF coreD(6)[OF core b] coreD(1)[OF core] k]
  have k20: "k \<le> 20" using k(1) coreD(1)[OF core] by simp
  note n = new_chunk[OF fresh k20 al(4) ch q(1)]
  have c: "c \<notin> owned p a" using fresh by (auto simp: owned_def)
  have M: "max_order b2 = max_order b" "max_order b1 = max_order b" "used_memory b1 = used_memory b" using al(2) b2 by (simp_all add: same_rest_def)
  have f: "fblocks b2 = fblocks b1" using b2 by (simp add: fblocks_def)
  have e: "entry_size q = entry_size p" by (simp add: entry_size_def q(2))
  have h: "holding (max_order b1) (area b1) (insert c (owned p a)) ((place p)(c := (sg, k)))"
    by (rule buddy_runs.alloc_holding[OF s(1) _ k(2) s(3) c]) (use k(1) s(2) in simp)
  have sz: "bytes q d = entry_size q * 2 ^ snd (((place p)(c := (sg, k))) d)" if "d \<in> insert c (owned p a)" for d
    using that s(4) c by (auto simp: n(2) e)
  have fin: "finite (owned p a)" by (rule owned_finite[OF core b])
  have "max_order b1 \<le> 20" using M s(2) coreD(1)[OF core] by simp
  then have "(\<Sum>d\<in>insert c (owned p a). bytes q d) \<le> 2 ^ 26" using fin by (intro sound_bound[OF h]) (simp_all add: sz)
  moreover have sum: "(\<Sum>d\<in>insert c (owned p a). bytes q d) = unat (used_memory b1) + entry_size p * 2 ^ k"
  proof -
    have "(\<Sum>d\<in>owned p a. bytes q d) = (\<Sum>d\<in>owned p a. bytes p d)" using c by (intro sum.cong) (auto simp: n(2))
    then show ?thesis using fin c s(5) M(3) by (simp add: n(2))
  qed
  moreover have bs: "unat (ucast (byte_size ch) :: u64) = entry_size p * 2 ^ k"
    using u32_nat[of "entry_size p * 2 ^ k"] size_to_byte(3)[OF k20, of p] by (simp add: ch(4) unsigned_ucast_eq take_bit_nat_eq_self)
  ultimately have "unat (used_memory b1 + ucast (byte_size ch)) = (\<Sum>d\<in>insert c (owned p a). bytes q d)"
    by (subst unat_add_less) simp_all
  then have um: "unat (used_memory b2) = (\<Sum>d\<in>owned q a. bytes q d)" using b2 n(3) by simp
  have ok: "buddy_ok b2" using al(1) f M by (simp add: buddy_ok_def b2 buddy_wf_def fblocks_def)
  show ?thesis
  proof (rule soundI[OF ok _ _ _ um])
    show "max_order b2 = max_log_chunk_sz q" using M(1) s(2) q(3) by simp
    show "holding (max_order b2) (area b2) (owned q a) (place q)" using h unfolding n(1,3) f M .
    show "\<And>c. c \<in> owned q a \<Longrightarrow> bytes q c = entry_size q * 2 ^ snd (place q c)" using sz unfolding n(1,3) .
  qed
qed

lemma core_add_chunk:
  assumes core: "pool_core p" and b: "buddies p a = Some b" and k: "k \<le> max_log_chunk_sz p" "dr_buddy_alloc_mem k b = Inr (int sg, b1)"
    and fresh: "calls p \<le> c" "c < t"
    and ch: "buddy_mem ch = a" "chunk_seg ch = of_nat sg" "num_of_entries ch = of_nat (2 ^ k)" "byte_size ch = of_nat (entry_size p * 2 ^ k)"
    and q: "q = (set_buddy a (b1\<lparr>used_memory := used_memory b1 + ucast (byte_size ch), used_list := used_list b1 @ [c]\<rparr>) p)
      \<lparr>chunk_heap := (chunk_heap p)(c \<mapsto> ch), calls := t\<rparr>"
  shows "pool_core q"
proof -
  note co = coreD[OF core]
  define b2 where "b2 = b1\<lparr>used_memory := used_memory b1 + ucast (byte_size ch), used_list := used_list b1 @ [c]\<rparr>"
  have q': "chunk_heap q = (chunk_heap p)(c \<mapsto> ch)" "icm_type q = icm_type p" "max_log_chunk_sz q = max_log_chunk_sz p"
    "buddies q = (buddies p)(a \<mapsto> b2)" "buddy_mem_list q = buddy_mem_list p" "hot_memory_size q = hot_memory_size p" "calls q = t"
    by (simp_all add: q b2_def)
  have none: "chunk_heap p c = None" using co(8)[of c] fresh(1) by (cases "chunk_heap p c") auto
  note al = alloc_seg[OF co(6)[OF b] co(1) k]
  have lists: "used_list b2 = used_list b @ [c]" "hot_list b2 = hot_list b" using al(2) by (simp_all add: b2_def same_rest_def)
  have k20: "k \<le> 20" using k(1) co(1) by simp
  note n = new_chunk[OF none k20 al(4) ch q'(1)]
  have c: "c \<notin> owned p a'" for a' using none by (auto simp: owned_def)
  have hot: "hot_chunks q = hot_chunks p"
    using hot_upd[OF b lists(2)] by (simp add: hot_chunks_def q'(4))
  have d: "dom (buddies q) = dom (buddies p)" using b q'(4) by auto
  show ?thesis
  proof (rule coreI)
    fix a' b' assume b': "buddies q a' = Some b'"
    show "distinct (used_list b' @ hot_list b') \<and> set (used_list b' @ hot_list b') = owned q a'"
    proof (cases "a' = a")
      case True
      have "c \<notin> set (used_list b @ hot_list b)" using co(4)[OF b] c by simp
      then show ?thesis using True b' co(4)[OF b] n(3) lists by (auto simp: q'(4))
    next
      case False
      then show ?thesis using b' co(4)[of a' b'] n(4) by (simp add: q'(4))
    qed
    show "sound q a' b'"
    proof (cases "a' = a")
      case True
      have "sound q a b2" by (rule sound_new[OF core b k none ch q'(1-3) b2_def])
      then show ?thesis using True b' by (simp add: q'(4))
    next
      case False
      then have "sound p a' b'" using b' co(6)[of a' b'] by (simp add: q'(4))
      then show ?thesis using n(4)[OF False] c[of a'] by (intro sound_other[of q a' p]) (auto simp: q')
    qed
    show "a' < calls q" using b' co(7)[of a'] co(7)[OF b] fresh by (cases "a' = a") (auto simp: q'(4,7))
  next
    fix c' ch' assume h: "chunk_heap q c' = Some ch'"
    show "buddy_mem ch' \<in> dom (buddies q)" unfolding d using h co(5)[of c' ch'] ch(1) b by (cases "c' = c") (auto simp: q'(1))
    show "c' < calls q" using h co(8)[of c' ch'] fresh by (cases "c' = c") (auto simp: q'(1,7))
  next
    have "c \<notin> hot_chunks p" using hot_sub[OF core] none by auto
    then have "(\<Sum>x\<in>hot_chunks p. bytes q x) = (\<Sum>x\<in>hot_chunks p. bytes p x)" by (intro sum.cong) (auto simp: n(2))
    then show "hot_memory_size q = of_nat (\<Sum>x\<in>hot_chunks q. bytes q x)" using co(9) hot q'(6) by simp
    show "set (buddy_mem_list q) = dom (buddies q)" unfolding d q'(5) by (rule co(3))
  qed (use co(1,2) q'(3,5) in simp_all)
qed

subsection \<open>Allocation\<close>

text \<open>An allocation that is undone leaves an allocator as sound as it was.\<close>

lemma undo_alloc:
  assumes "pool_core p" "buddies p a = Some b" "k \<le> max_log_chunk_sz p" "dr_buddy_alloc_mem k b = Inr (int sg, b1)"
  shows "\<exists>b2. dr_buddy_free_mem sg k b1 = Inr b2 \<and> pool_core (set_buddy a b2 p)"
proof -
  note so = coreD(6)[OF assms(1,2)]
  note s = soundD[OF so] and al = alloc_seg[OF so coreD(1)[OF assms(1)] assms(3,4)]
  have kM: "k \<le> max_order b" using assms(3) s(2) by simp
  have l: "2 ^ k dvd sg" "run sg k \<subseteq> area b" using buddy_runs.alloc_law[OF s(1) kM assms(4)] by simp_all
  have M: "max_order b1 = max_order b" using al(2) by (simp add: same_rest_def)
  have "run sg k \<subseteq> {..<2 ^ max_order b1} - area b1" using l(2) al(3) area_bounded[OF s(1)] M by auto
  then obtain b2 where b2: "dr_buddy_free_mem sg k b1 = Inr b2" "buddy_ok b2" "same_rest b1 b2" "area b2 = area b1 \<union> run sg k"
    using free_run_ok[OF al(1) _ l(1)] kM M by auto
  have rest: "same_rest b b2" by (rule same_rest_trans[OF al(2) b2(3)])
  have "area b2 = area b" using b2(4) al(3) l(2) by auto
  then have "sound p a b2" using sound_rest[OF so b2(2)] rest by (simp add: same_rest_def)
  then show ?thesis using core_set_buddy[OF assms(1,2), of b2] b2(1) rest by (auto simp: same_rest_def)
qed

lemma set_buddy_id [simp]: "buddies p a = Some b \<Longrightarrow> set_buddy a b p = p"
  by (simp add: set_buddy_def map_upd_triv)

lemma scan_ok:
  assumes "pool_core p" "set as \<subseteq> dom (buddies p)" "k \<le> max_log_chunk_sz p"
  shows "(\<forall>a\<in>set as. \<not> (\<exists>i. run (i * 2 ^ k) k \<subseteq> area (the (buddies p a)))) \<and> scan_buddies False k as p = Inr (None, p) \<or>
    (\<exists>a b sg b'. a \<in> set as \<and> buddies p a = Some b \<and> dr_buddy_alloc_mem k b = Inr (int sg, b') \<and>
      scan_buddies False k as p = Inr (Some (a, sg), set_buddy a b' p))"
  using assms(2)
proof (induction as)
  case (Cons a as)
  then obtain b where b: "buddies p a = Some b" by auto
  note s = soundD[OF coreD(6)[OF assms(1) b]]
  have kM: "k \<le> max_order b" using assms(3) s(2) by simp
  from buddy_runs.alloc_total[OF s(1) kM] show ?case
  proof (elim disjE conjE exE)
    assume full: "dr_buddy_alloc_mem k b = Inr (-1, b)" "\<not> (\<exists>i. run (i * 2 ^ k) k \<subseteq> area b)"
    then have "scan_buddies False k (a # as) p = scan_buddies False k as p" using b by (simp add: the_buddy_def)
    then show ?thesis using Cons full(2) b by auto
  next
    fix sg b' assume "dr_buddy_alloc_mem k b = Inr (int sg, b')"
    then show ?thesis using b by (auto simp: the_buddy_def)
  qed
qed simp

lemma mr_create_total:
  assumes "max_log_chunk_sz p \<le> 20"
  shows "\<exists>t' mr. dr_icm_pool_mr_create env p t = Inr (t', mr) \<and> t < t'"
  using size_to_byte(2)[OF assms, of p]
  by (auto simp: dr_icm_pool_mr_create_def dr_icm_allocate_aligned_dm_def Let_def split: option.splits prod.splits)

lemma core_add_buddy:
  assumes "pool_core p" "calls p \<le> a" "a < t" "buddy_ok b" "max_order b = max_log_chunk_sz p"
    and "used_list b = []" "hot_list b = []" "used_memory b = 0"
  shows "pool_core ((set_buddy a b p)\<lparr>buddy_mem_list := a # buddy_mem_list p, calls := t\<rparr>)" (is "pool_core ?q")
proof -
  note c = coreD[OF assms(1)]
  have none: "buddies p a = None" using c(7)[of a] assms(2) by (cases "buddies p a") auto
  then have empty: "owned p a = {}" using c(5) by (auto simp: owned_def)
  have h: "chunk_heap ?q = chunk_heap p" by simp
  have s: "sound ?q = sound p" by (rule sound_cong) simp_all
  have new: "sound p a b" by (rule soundI) (use assms empty in simp_all)
  have "hot_chunks p = other_hot a p" using none by (auto simp: hot_chunks_def other_hot_def) (metis option.distinct(1))
  moreover have "hot_chunks ?q = hot_chunks (set_buddy a b p)" by (simp add: hot_chunks_def)
  ultimately have hot: "hot_chunks ?q = hot_chunks p" using hot_split[of "set_buddy a b p" a b] assms(7) by simp
  show ?thesis
  proof (rule coreI)
    fix a' b' assume b': "buddies ?q a' = Some b'"
    show "distinct (used_list b' @ hot_list b') \<and> set (used_list b' @ hot_list b') = owned ?q a'"
      using b' c(4)[of a'] empty assms(6,7) unfolding heap_cong(1)[OF h] by (cases "a' = a") simp_all
    show "sound ?q a' b'" unfolding s using b' c(6)[of a'] new by (cases "a' = a") simp_all
    show "a' < calls ?q" using b' c(7)[of a'] assms(2,3) by (cases "a' = a") auto
  next
    show "distinct (buddy_mem_list ?q)" using c(2,3) none by auto
    show "set (buddy_mem_list ?q) = dom (buddies ?q)" using c(3) by simp
    show "hot_memory_size ?q = of_nat (\<Sum>x\<in>hot_chunks ?q. bytes ?q x)" unfolding hot heap_cong[OF h] using c(9) by simp
    show "\<And>c' ch. chunk_heap ?q c' = Some ch \<Longrightarrow> buddy_mem ch \<in> dom (buddies ?q)" using c(5) by simp
    show "\<And>c' ch. chunk_heap ?q c' = Some ch \<Longrightarrow> c' < calls ?q" using c(8) assms(2,3) by fastforce
  qed (use c(1) in simp)
qed

lemma buddy_create_ok:
  assumes "pool_core p"
  shows "(\<exists>t. dr_icm_buddy_create env p = Inr (ENOMEM, p\<lparr>calls := t\<rparr>) \<and> pool_core (p\<lparr>calls := t\<rparr>)) \<or>
    (\<exists>a b t. dr_icm_buddy_create env p = Inr (0, (set_buddy a b p)\<lparr>buddy_mem_list := a # buddy_mem_list p, calls := t\<rparr>) \<and>
      pool_core ((set_buddy a b p)\<lparr>buddy_mem_list := a # buddy_mem_list p, calls := t\<rparr>) \<and> area b = {..<2 ^ max_order b})"
proof -
  note c = coreD[OF assms]
  let ?M = "max_log_chunk_sz p"
  obtain t mr where mr: "dr_icm_pool_mr_create env p (calls p) = Inr (t, mr)" "calls p < t" using mr_create_total[OF c(1)] by blast
  have fail: "pool_core (p\<lparr>calls := u\<rparr>)" if "calls p \<le> u" for u by (rule core_calls[OF assms that])
  obtain t' where init: "t + 1 < t'" "dr_buddy_init (env_alloc env) (t + 1) empty_buddy ?M =
      (if \<forall>j<2 * ?M + 5. env_alloc env (t + 1 + j) then Inr (0, t + 1 + 2 * ?M + 5, fresh_buddy empty_buddy ?M)
       else Inr (ENOMEM, t', freed (empty_buddy\<lparr>max_order := ?M, used_list := [], hot_list := []\<rparr>)))"
    using init_result[of ?M "t + 1" "env_alloc env" empty_buddy] c(1) by auto
  have nz: "ENOMEM \<noteq> 0" by (simp add: ENOMEM_def)
  consider "mr = None \<or> \<not> env_alloc env t" | m where "mr = Some m" "env_alloc env t" "\<not> (\<forall>j<2 * ?M + 5. env_alloc env (t + 1 + j))"
    | m where "mr = Some m" "env_alloc env t" "\<forall>j<2 * ?M + 5. env_alloc env (t + 1 + j)" by (cases mr) auto
  then show ?thesis
  proof cases
    case 1
    then show ?thesis using mr fail[of t] fail[of "t + 1"] by (cases mr) (auto simp: dr_icm_buddy_create_def)
  next
    case 2
    then have "dr_icm_buddy_create env p = Inr (ENOMEM, p\<lparr>calls := t'\<rparr>)" using mr init nz by (simp add: dr_icm_buddy_create_def)
    then show ?thesis using fail[of t'] mr(2) init(1) by auto
  next
    case 3
    define b where "b = (fresh_buddy empty_buddy ?M)\<lparr>icm_mr := m\<rparr>"
    have "dr_buddy_init (env_alloc env) (t + 1) empty_buddy ?M = Inr (0, t + 1 + 2 * ?M + 5, fresh_buddy empty_buddy ?M)"
      unfolding init(2) using 3(3) by (rule if_P)
    then have r: "dr_icm_buddy_create env p = Inr (0, (set_buddy t b p)\<lparr>buddy_mem_list := t # buddy_mem_list p, calls := t + 1 + 2 * ?M + 5\<rparr>)"
      using mr 3(1,2) by (simp add: dr_icm_buddy_create_def b_def)
    have f: "fblocks b = fblocks (fresh_buddy empty_buddy ?M)" "max_order b = ?M" by (simp_all add: b_def fblocks_def fresh_buddy_def)
    have fr: "buddy_ok (fresh_buddy empty_buddy ?M)" "area (fresh_buddy empty_buddy ?M) = {..<2 ^ ?M}" "max_order (fresh_buddy empty_buddy ?M) = ?M"
      using fresh_ok[of ?M empty_buddy] c(1) by (simp_all add: fresh_buddy_def)
    have "buddy_ok b" using fr(1) by (simp add: buddy_ok_def b_def buddy_wf_def fblocks_def)
    then have "pool_core ((set_buddy t b p)\<lparr>buddy_mem_list := t # buddy_mem_list p, calls := t + 1 + 2 * ?M + 5\<rparr>)"
      using mr(2) f(2) by (intro core_add_buddy[OF assms]) (simp_all add: b_def fresh_buddy_def empty_buddy_def)
    moreover have "area b = {..<2 ^ max_order b}" using fr(2,3) f by simp
    ultimately show ?thesis using r by blast
  qed
qed

definition same_pool :: "dr_icm_pool \<Rightarrow> dr_icm_pool \<Rightarrow> bool" where
  "same_pool p q \<longleftrightarrow> icm_type q = icm_type p \<and> max_log_chunk_sz q = max_log_chunk_sz p \<and> mutex q = mutex p \<and>
     memory_reclaim q = memory_reclaim p \<and> hot_memory_size q = hot_memory_size p \<and> chunk_heap q = chunk_heap p"

lemma run_in_all: "k \<le> M \<Longrightarrow> run (0 * 2 ^ k) k \<subseteq> {..<2 ^ M}"
proof
  fix x assume "k \<le> M" "x \<in> run (0 * 2 ^ k) k"
  then have "x < 2 ^ k" "(2 :: nat) ^ k \<le> 2 ^ M" by (auto simp: run_def intro: power_increasing)
  then show "x \<in> {..<2 ^ M}" unfolding lessThan_iff by (rule less_le_trans)
qed

lemma get_mem_ok:
  assumes "pool_core p" "k \<le> max_log_chunk_sz p"
  shows "(\<exists>t. dr_icm_handle_buddies_get_mem env k p = Inr (ENOMEM, None, p\<lparr>calls := t\<rparr>) \<and> pool_core (p\<lparr>calls := t\<rparr>)) \<or>
    (\<exists>a b sg b' p'. dr_icm_handle_buddies_get_mem env k p = Inr (0, Some (a, sg), set_buddy a b' p') \<and> pool_core p' \<and> same_pool p p' \<and>
      buddies p' a = Some b \<and> dr_buddy_alloc_mem k b = Inr (int sg, b'))"
proof -
  have "set (buddy_mem_list p) \<subseteq> dom (buddies p)" using coreD(3)[OF assms(1)] by simp
  from scan_ok[OF assms(1) this assms(2)] show ?thesis
  proof (elim disjE conjE exE)
    fix a b sg b' assume "buddies p a = Some b" "dr_buddy_alloc_mem k b = Inr (int sg, b')"
      "scan_buddies False k (buddy_mem_list p) p = Inr (Some (a, sg), set_buddy a b' p)"
    then show ?thesis using assms(1) by (auto simp: dr_icm_handle_buddies_get_mem_def same_pool_def)
  next
    assume none: "scan_buddies False k (buddy_mem_list p) p = Inr (None, p)"
    from buddy_create_ok[OF assms(1), of env] show ?thesis
    proof (elim disjE conjE exE)
      fix t assume "dr_icm_buddy_create env p = Inr (ENOMEM, p\<lparr>calls := t\<rparr>)" "pool_core (p\<lparr>calls := t\<rparr>)"
      then show ?thesis using none by (auto simp: dr_icm_handle_buddies_get_mem_def ENOMEM_def)
    next
      fix a b t
      let ?q = "(set_buddy a b p)\<lparr>buddy_mem_list := a # buddy_mem_list p, calls := t\<rparr>"
      assume q: "dr_icm_buddy_create env p = Inr (0, ?q)" "pool_core ?q" "area b = {..<2 ^ max_order b}"
      have b: "buddies ?q a = Some b" by simp
      note s = soundD[OF coreD(6)[OF q(2) b]]
      have kM: "k \<le> max_order b" using s(2) assms(2) by simp
      have "\<exists>i. run (i * 2 ^ k) k \<subseteq> area b" unfolding q(3) using run_in_all[OF kM] by blast
      then obtain sg b' where al: "dr_buddy_alloc_mem k b = Inr (int sg, b')" using buddy_runs.alloc_total[OF s(1) kM] by blast
      then have "scan_buddies True k (buddy_mem_list ?q) ?q = Inr (Some (a, sg), set_buddy a b' ?q)"
        by (simp add: the_buddy_def)
      then have "dr_icm_handle_buddies_get_mem env k p = Inr (0, Some (a, sg), set_buddy a b' ?q)"
        using none q(1) by (simp add: dr_icm_handle_buddies_get_mem_def)
      moreover have "same_pool p ?q" by (simp add: same_pool_def)
      ultimately show ?thesis using q(2) b al by blast
    qed
  qed
qed

lemma set_buddy_twice [simp]: "set_buddy a b2 (set_buddy a b1 p) = set_buddy a b2 p"
  by (simp add: set_buddy_def)

text \<open>What a chunk of order \<open>k\<close> at segment \<open>sg\<close> of allocator \<open>a\<close> records.\<close>

definition chunk_at :: "dr_icm_pool \<Rightarrow> nat \<Rightarrow> nat \<Rightarrow> nat \<Rightarrow> dr_icm_chunk \<Rightarrow> bool" where
  "chunk_at p a sg k ch \<longleftrightarrow> buddy_mem ch = a \<and> chunk_seg ch = of_nat sg \<and> num_of_entries ch = of_nat (2 ^ k) \<and>
     byte_size ch = of_nat (entry_size p * 2 ^ k)"

lemma chunk_create_ok:
  assumes "buddies p a = Some b1" "k \<le> 20" "sg < 2 ^ 20"
  shows "(\<exists>t. dr_icm_chunk_create env k a sg p = Inr (None, p\<lparr>calls := t\<rparr>) \<and> calls p \<le> t) \<or>
    (\<exists>ch t. dr_icm_chunk_create env k a sg p = Inr (Some (calls p),
        (set_buddy a (b1\<lparr>used_memory := used_memory b1 + ucast (byte_size ch), used_list := used_list b1 @ [calls p]\<rparr>) p)
          \<lparr>chunk_heap := (chunk_heap p)(calls p \<mapsto> ch), calls := t\<rparr>) \<and>
      calls p < t \<and> chunk_at p a sg k ch)"
proof -
  have off: "\<not> dr_icm_pool_dm_type_to_entry_size (icm_type p) * sg \<ge> 2 ^ 31"
    using assms(3) by (simp add: dr_icm_pool_dm_type_to_entry_size_def)
  define ch0 where "ch0 = \<lparr>buddy_mem = 0, rkey = mr_rkey (icm_mr b1), num_of_entries = of_nat (2 ^ k), byte_size = of_nat (entry_size p * 2 ^ k),
      icm_addr = icm_start_addr (icm_mr b1) + of_nat (dr_icm_pool_dm_type_to_entry_size (icm_type p) * sg),
      mr_addr = mr_base (icm_mr b1) + of_nat (dr_icm_pool_dm_type_to_entry_size (icm_type p) * sg), chunk_seg = of_nat sg,
      ste_arr = False, hw_ste_arr = False, miss_list = False\<rparr>"
  obtain ok t ch1 where i: "(if icm_type p = DR_ICM_TYPE_STE then dr_icm_chunk_ste_init env (calls p + 1) ch0 else (True, calls p + 1, ch0)) = (ok, t, ch1)"
    by (metis prod_cases3)
  have ch1: "calls p < t" "chunk_at p a sg k (ch1\<lparr>buddy_mem := a\<rparr>)"
    using i by (auto simp: dr_icm_chunk_ste_init_def chunk_at_def ch0_def split: if_splits)
  show ?thesis
  proof (cases "env_alloc env (calls p)")
    case False
    then show ?thesis by (auto simp: dr_icm_chunk_create_def)
  next
    case True
    then have r: "dr_icm_chunk_create env k a sg p = (if \<not> ok then Inr (None, p\<lparr>calls := t\<rparr>)
      else Inr (Some (calls p),
        (set_buddy a (b1\<lparr>used_memory := used_memory b1 + ucast (byte_size ch1), used_list := used_list b1 @ [calls p]\<rparr>) p)
          \<lparr>chunk_heap := (chunk_heap p)(calls p \<mapsto> ch1\<lparr>buddy_mem := a\<rparr>), calls := t\<rparr>))"
      by (simp only: dr_icm_chunk_create_def Let_def the_buddy_def assms(1) orFault.simps bindE.simps size_to_byte(1)[OF assms(2)]
          size_to_byte(2)[OF assms(2), of p] off True not_True_eq_False if_False ch0_def[symmetric] i prod.case set_buddy_sel)
    show ?thesis
    proof (cases ok)
      case False
      then show ?thesis using r ch1(1) by auto
    next
      case True
      then show ?thesis using r ch1 by (intro disjI2 exI[of _ "ch1\<lparr>buddy_mem := a\<rparr>"] exI[of _ t]) simp
    qed
  qed
qed

definition pool_inv :: "dr_icm_pool \<Rightarrow> bool" where
  "pool_inv p \<longleftrightarrow> pool_core p \<and> \<not> mutex p"

lemma hot_cong: "buddies q = buddies p \<Longrightarrow> hot_chunks q = hot_chunks p"
  by (simp add: hot_chunks_def)

lemma alloc_chunk_ok:
  assumes "pool_inv p"
  shows "\<exists>r q. dr_icm_alloc_chunk env k p = Inr (r, q) \<and> pool_inv q \<and> icm_type q = icm_type p \<and> memory_reclaim q = memory_reclaim p \<and>
    max_log_chunk_sz q = max_log_chunk_sz p \<and> hot_memory_size q = hot_memory_size p \<and>
    (r = None \<and> chunk_heap q = chunk_heap p \<or>
     (\<exists>c a sg ch. r = Some c \<and> chunk_heap p c = None \<and> chunk_heap q = (chunk_heap p)(c \<mapsto> ch) \<and> k \<le> max_log_chunk_sz p \<and> chunk_at p a sg k ch \<and>
        (\<exists>b. buddies q a = Some b \<and> c \<in> set (used_list b))))"
proof (cases "k \<le> max_log_chunk_sz p")
  case False
  then show ?thesis using assms by (simp add: dr_icm_alloc_chunk_def)
next
  case True
  let ?l = "p\<lparr>mutex := True\<rparr>"
  have core: "pool_core ?l" and un: "\<not> mutex p" using assms by (simp_all add: pool_inv_def core_mutex)
  have kl: "k \<le> max_log_chunk_sz ?l" using True by simp
  have k20: "k \<le> 20" using True coreD(1)[OF core] by simp
  have lock: "lock p = Inr ?l" using un by (simp add: lock_def)
  from get_mem_ok[OF core kl, of env] show ?thesis
  proof (elim disjE conjE exE)
    fix t assume t: "dr_icm_handle_buddies_get_mem env k ?l = Inr (ENOMEM, None, ?l\<lparr>calls := t\<rparr>)" "pool_core (?l\<lparr>calls := t\<rparr>)"
    have "pool_core (?l\<lparr>calls := t, mutex := False\<rparr>)" by (subst core_mutex) (rule t(2))
    then show ?thesis using t(1) lock True by (simp add: dr_icm_alloc_chunk_def ENOMEM_def pool_inv_def)
  next
    fix a b sg b' p'
    assume m: "dr_icm_handle_buddies_get_mem env k ?l = Inr (0, Some (a, sg), set_buddy a b' p')" "pool_core p'" "same_pool ?l p'"
      "buddies p' a = Some b" "dr_buddy_alloc_mem k b = Inr (int sg, b')"
    have sp: "max_log_chunk_sz p' = max_log_chunk_sz p" "icm_type p' = icm_type p" "memory_reclaim p' = memory_reclaim p" "chunk_heap p' = chunk_heap p" "hot_memory_size p' = hot_memory_size p"
      using m(3) by (simp_all add: same_pool_def)
    have kp: "k \<le> max_log_chunk_sz p'" using True sp by simp
    note al = alloc_seg[OF coreD(6)[OF m(2,4)] coreD(1)[OF m(2)] kp m(5)]
    have es: "entry_size p' = entry_size p" by (simp add: entry_size_def sp)
    have bb: "buddies (set_buddy a b' p') a = Some b'" by simp
    have none: "chunk_heap p (calls p') = None" using coreD(8)[OF m(2), of "calls p'"] sp(4) by (cases "chunk_heap p (calls p')") auto
    from chunk_create_ok[OF bb k20 al(4), of env] show ?thesis
    proof (elim disjE conjE exE)
      fix t assume t: "dr_icm_chunk_create env k a sg (set_buddy a b' p') = Inr (None, (set_buddy a b' p')\<lparr>calls := t\<rparr>)" "calls (set_buddy a b' p') \<le> t"
      have core': "pool_core (p'\<lparr>calls := t\<rparr>)" using core_calls[OF m(2)] t(2) by simp
      have kp': "k \<le> max_log_chunk_sz (p'\<lparr>calls := t\<rparr>)" "buddies (p'\<lparr>calls := t\<rparr>) a = Some b" using kp m(4) by simp_all
      obtain b2 where b2: "dr_buddy_free_mem sg k b' = Inr b2" "pool_core (set_buddy a b2 (p'\<lparr>calls := t\<rparr>))"
        using undo_alloc[OF core' kp'(2,1) m(5)] by blast
      have "pool_core ((set_buddy a b2 (p'\<lparr>calls := t\<rparr>))\<lparr>mutex := False\<rparr>)" unfolding core_mutex by (rule b2(2))
      then show ?thesis using lock True m(1) t(1) b2(1) sp
        by (simp add: dr_icm_alloc_chunk_def the_buddy_def pool_inv_def set_buddy_def)
    next
      fix ch :: dr_icm_chunk and t
      let ?b = "b'\<lparr>used_memory := used_memory b' + ucast (byte_size ch), used_list := used_list b' @ [calls p']\<rparr>"
      let ?q = "(set_buddy a ?b p')\<lparr>chunk_heap := (chunk_heap p')(calls p' \<mapsto> ch), calls := t\<rparr>"
      assume t: "dr_icm_chunk_create env k a sg (set_buddy a b' p') = Inr (Some (calls (set_buddy a b' p')),
          (set_buddy a (b'\<lparr>used_memory := used_memory b' + ucast (byte_size ch), used_list := used_list b' @ [calls (set_buddy a b' p')]\<rparr>) (set_buddy a b' p'))
            \<lparr>chunk_heap := (chunk_heap (set_buddy a b' p'))(calls (set_buddy a b' p') \<mapsto> ch), calls := t\<rparr>)"
        "calls (set_buddy a b' p') < t" "chunk_at (set_buddy a b' p') a sg k ch"
      have at: "chunk_at p' a sg k ch" "chunk_at p a sg k ch" using t(3) es by (simp_all add: chunk_at_def entry_size_def sp)
      have "pool_core ?q"
        using at(1) t(2) by (intro core_add_chunk[OF m(2,4) kp m(5), of "calls p'" t ch]) (simp_all add: chunk_at_def)
      then have "pool_core (?q\<lparr>mutex := False\<rparr>)" unfolding core_mutex .
      moreover have "dr_icm_alloc_chunk env k p = Inr (Some (calls p'), ?q\<lparr>mutex := False\<rparr>)"
        using lock True m(1) t(1) by (simp add: dr_icm_alloc_chunk_def)
      ultimately show ?thesis using at(2) none True sp by (auto simp: pool_inv_def)
    qed
  qed
qed

end
