(* ===== verification/Icm_Sync.thy ===== *)
theory Icm_Sync
  imports Icm_Pool
begin

text \<open>
  Giving chunks back to a pool of device memory and synchronising it: the invariant of the
  pool is kept, a synchronisation empties the hot lists, destroying a pool leaves nothing
  behind, and with memory reclaim the release of a chunk can free the allocator
  through which the mutex is then released.
\<close>

section \<open>Becoming hot\<close>

lemma ok_rest:
  assumes "buddy_ok b" "bits b' = bits b" "num_free b' = num_free b" "set_bit' b' = set_bit' b" "max_order b' = max_order b"
  shows "buddy_ok b'" "area b' = area b"
proof -
  have "fblocks b' = fblocks b" using assms(2) by (simp add: fblocks_def)
  then show "area b' = area b" "buddy_ok b'" using assms unfolding buddy_ok_def buddy_wf_def Let_def by simp_all
qed

lemma owner:
  assumes "pool_core p" "chunk_heap p c = Some ch"
  shows "\<exists>b. buddies p (buddy_mem ch) = Some b \<and> c \<in> set (used_list b @ hot_list b)"
proof -
  obtain b where b: "buddies p (buddy_mem ch) = Some b" using coreD(5)[OF assms] by blast
  have "c \<in> owned p (buddy_mem ch)" using assms(2) by (simp add: owned_def)
  then show ?thesis using b coreD(4)[OF assms(1) b] by auto
qed

lemma other_hot_owned: "pool_core p \<Longrightarrow> chunk_heap p c = Some ch \<Longrightarrow> c \<notin> other_hot (buddy_mem ch) p"
  using coreD(4) by (fastforce simp: other_hot_def owned_def)

lemma byte_word: "(of_nat (unat (w :: u32)) :: u64) = ucast w"
  by (rule unat_eqD) (simp add: unsigned_of_nat unsigned_ucast_eq)

lemma unat_ucast64: "unat (ucast (w :: u32) :: u64) = unat w"
proof -
  have "unat w < 2 ^ 32" using unsigned_less[of w] by simp
  then have "take_bit 64 (unat w) = unat w" by (intro take_bit_nat_eq_self) simp
  then show ?thesis by (simp add: unsigned_ucast_eq)
qed

lemma hot_finite:
  assumes "pool_core p"
  shows "finite (hot_chunks p)"
proof -
  have "hot_chunks p \<subseteq> (\<Union>a\<in>set (buddy_mem_list p). set (hot_list (the (buddies p a))))"
    unfolding coreD(3)[OF assms] by (force simp: hot_chunks_def)
  then show ?thesis by (rule finite_subset) simp
qed

definition make_hot :: "nat \<Rightarrow> dr_icm_buddy_mem \<Rightarrow> dr_icm_buddy_mem" where
  "make_hot c b = (del_chunk_node c b)\<lparr>hot_list := hot_list (del_chunk_node c b) @ [c]\<rparr>"

lemma core_make_hot:
  assumes core: "pool_core p" and ch: "chunk_heap p c = Some ch" "a = buddy_mem ch" and b: "buddies p a = Some b" "c \<in> set (used_list b)"
    and q: "q = (set_buddy a (make_hot c b) p)\<lparr>hot_memory_size := hot_memory_size p + ucast (byte_size ch)\<rparr>"
  shows "pool_core q" "hot_chunks q = insert c (hot_chunks p)"
proof -
  note co = coreD[OF core]
  have q': "chunk_heap q = chunk_heap p" "icm_type q = icm_type p" "max_log_chunk_sz q = max_log_chunk_sz p"
    "buddies q = (buddies p)(a \<mapsto> make_hot c b)" "buddy_mem_list q = buddy_mem_list p" "calls q = calls p"
    "hot_memory_size q = hot_memory_size p + ucast (byte_size ch)" by (simp_all add: q)
  have dis: "distinct (used_list b @ hot_list b)" "set (used_list b @ hot_list b) = owned p a" using co(4)[OF b(1)] by simp_all
  then have nc: "c \<notin> set (hot_list b)" using b(2) by auto
  have l: "used_list (make_hot c b) = remove1 c (used_list b)" "hot_list (make_hot c b) = hot_list b @ [c]"
    using nc by (simp_all add: make_hot_def del_chunk_node_def remove1_idem)
  have s: "sound q = sound p" using q' by (intro sound_cong)
  have d: "dom (buddies q) = dom (buddies p)" using b(1) q'(4) by auto
  have "other_hot a q = other_hot a p" by (auto simp: other_hot_def q'(4))
  then have hot: "hot_chunks q = insert c (hot_chunks p)"
    using hot_split[OF b(1)] hot_split[of q a "make_hot c b"] l(2) q'(4) by auto
  show "hot_chunks q = insert c (hot_chunks p)" by (rule hot)
  have fresh: "c \<notin> hot_chunks p" using hot_split[OF b(1)] nc other_hot_owned[OF core ch(1)] ch(2) by simp
  have fin: "finite (hot_chunks p)" by (rule hot_finite[OF core])
  have sz: "bytes p c = unat (byte_size ch)" using ch(1) by (simp add: bytes_def)
  show "pool_core q"
  proof (rule coreI)
    fix a' b' assume b': "buddies q a' = Some b'"
    show "distinct (used_list b' @ hot_list b') \<and> set (used_list b' @ hot_list b') = owned q a'"
      unfolding heap_cong(1)[OF q'(1)] using b' co(4)[of a' b'] dis l b(2) by (cases "a' = a") (auto simp: q'(4))
    show "sound q a' b'"
    proof (cases "a' = a")
      case True
      have ok: "buddy_ok b" using co(6)[OF b(1)] by (rule soundD)
      have ok': "buddy_ok (make_hot c b)" "area (make_hot c b) = area b"
        by (rule ok_rest[OF ok]; simp add: make_hot_def del_chunk_node_def)+
      have "sound p a (make_hot c b)" by (rule sound_rest[OF co(6)[OF b(1)] ok'(1) _ ok'(2)]) (simp_all add: make_hot_def del_chunk_node_def)
      then show ?thesis unfolding s using True b' by (simp add: q'(4))
    next
      case False
      then show ?thesis unfolding s using b' co(6)[of a' b'] by (simp add: q'(4))
    qed
    show "a' < calls q" using b' co(7)[of a'] co(7)[OF b(1)] by (cases "a' = a") (auto simp: q'(4,6))
  next
    show "hot_memory_size q = of_nat (\<Sum>x\<in>hot_chunks q. bytes q x)"
      unfolding hot heap_cong(3)[OF q'(1)] using fresh fin co(9) by (simp add: q'(7) sz byte_word)
    show "set (buddy_mem_list q) = dom (buddies q)" unfolding d q'(5) by (rule co(3))
    show "\<And>x ch'. chunk_heap q x = Some ch' \<Longrightarrow> buddy_mem ch' \<in> dom (buddies q)" unfolding d q'(1) by (rule co(5))
  qed (use co(1,2,8) q' in simp_all)
qed

section \<open>Releasing hot chunks\<close>

lemma place_order: "chunk_heap p c = Some ch \<Longrightarrow> place p c = (unat (chunk_seg ch), ilog32 (num_of_entries ch - 1))"
  by (simp add: place_def chunk_order_def)

lemma release_sound:
  assumes core: "pool_core p" and ch: "chunk_heap p c = Some ch" "a = buddy_mem ch" and b: "buddies p a = Some b"
    and q: "chunk_heap q = (chunk_heap p)(c := None)" "icm_type q = icm_type p" "max_log_chunk_sz q = max_log_chunk_sz p"
  shows "\<exists>b2. dr_buddy_free_mem (unat (chunk_seg ch)) (ilog32 (num_of_entries ch - 1)) b = Inr b2 \<and> same_rest b b2 \<and>
    sound q a (del_chunk_node c (b2\<lparr>used_memory := used_memory b2 - ucast (byte_size ch)\<rparr>))"
proof -
  note so = coreD(6)[OF core b]
  note s = soundD[OF so]
  have c: "c \<in> owned p a" using ch by (simp add: owned_def)
  note pl = place_order[OF ch(1)]
  have h: "snd (place p c) \<le> max_order b" "2 ^ snd (place p c) dvd fst (place p c)" "run (fst (place p c)) (snd (place p c)) \<subseteq> {..<2 ^ max_order b} - area b"
    using s(3) c unfolding holding_def place_run_def by blast+
  obtain b2 where b2: "dr_buddy_free_mem (fst (place p c)) (snd (place p c)) b = Inr b2" "buddy_ok b2" "same_rest b b2"
    "area b2 = area b \<union> run (fst (place p c)) (snd (place p c))" using free_run_ok[OF s(1) h] by blast
  obtain b2' where b2': "dr_buddy_free_mem (fst (place p c)) (snd (place p c)) b = Inr b2'" "max_order b2' = max_order b"
    "holding (max_order b2') (area b2') (owned p a - {c}) (place p)" using buddy_runs.release_holding[OF s(1,3) c] by blast
  have eq: "b2' = b2" using b2(1) b2'(1) by simp
  define b3 where "b3 = del_chunk_node c (b2\<lparr>used_memory := used_memory b2 - ucast (byte_size ch)\<rparr>)"
  have b3: "buddy_ok b3" "area b3 = area b2" by (rule ok_rest[OF b2(2)]; simp add: b3_def del_chunk_node_def)+
  have M: "max_order b3 = max_order b2" by (simp add: b3_def del_chunk_node_def)
  have ow: "owned q a = owned p a - {c}" using q(1) by (auto simp: owned_def)
  have same: "place q d = place p d" "bytes q d = bytes p d" if "d \<in> owned p a - {c}" for d
    using that by (simp_all add: place_def bytes_def q(1))
  have e: "entry_size q = entry_size p" by (simp add: entry_size_def q(2))
  have fin: "finite (owned p a)" by (rule owned_finite[OF core b])
  have um: "unat (used_memory b3) = (\<Sum>d\<in>owned q a. bytes q d)"
  proof -
    have "(\<Sum>d\<in>owned q a. bytes q d) = (\<Sum>d\<in>owned p a - {c}. bytes p d)" unfolding ow using same(2) by (intro sum.cong) auto
    moreover have "(\<Sum>d\<in>owned p a. bytes p d) = bytes p c + (\<Sum>d\<in>owned p a - {c}. bytes p d)" by (rule sum.remove[OF fin c])
    moreover have bc: "bytes p c = unat (ucast (byte_size ch) :: u64)" using ch(1) by (simp add: bytes_def unat_ucast64)
    moreover have u: "unat (used_memory b2) = (\<Sum>d\<in>owned p a. bytes p d)" using s(5) b2(3) by (simp add: same_rest_def)
    moreover have "(ucast (byte_size ch) :: u64) \<le> used_memory b2" unfolding word_le_nat_alt u using calculation(2) bc by simp
    then have "unat (used_memory b2 - ucast (byte_size ch)) = unat (used_memory b2) - unat (ucast (byte_size ch) :: u64)" by (rule unat_sub_ge)
    ultimately show ?thesis by (simp add: b3_def del_chunk_node_def)
  qed
  have "sound q a b3"
  proof (rule soundI[OF b3(1) _ _ _ um])
    show "max_order b3 = max_log_chunk_sz q" using M b2(3) s(2) q(3) by (simp add: same_rest_def)
    have "holding (max_order b3) (area b3) (owned p a - {c}) (place p)" using b2'(3) unfolding eq b3(2) unfolding M .
    then show "holding (max_order b3) (area b3) (owned q a) (place q)"
      unfolding ow using holding_cong[of "owned p a - {c}" "place q" "place p"] same(1) by blast
    show "bytes q d = entry_size q * 2 ^ snd (place q d)" if "d \<in> owned q a" for d
      using that same s(4) unfolding ow e by simp
  qed
  then show ?thesis using b2(1,3) unfolding pl b3_def by auto
qed

lemma core_release:
  assumes core: "pool_core p" and b: "buddies p a = Some b" and c: "c \<in> set (hot_list b)"
  shows "\<exists>b' q. release_hot a c p = Inr q \<and> pool_core q \<and> buddies q = (buddies p)(a \<mapsto> b') \<and> hot_list b' = remove1 c (hot_list b) \<and>
    used_list b' = used_list b \<and> chunk_heap q = (chunk_heap p)(c := None) \<and> buddy_mem_list q = buddy_mem_list p \<and>
    icm_type q = icm_type p \<and> memory_reclaim q = memory_reclaim p \<and> mutex q = mutex p"
proof -
  note co = coreD[OF core]
  have dis: "distinct (used_list b @ hot_list b)" "set (used_list b @ hot_list b) = owned p a" using co(4)[OF b] by simp_all
  then have "c \<in> owned p a" and nc: "c \<notin> set (used_list b)" using c by auto
  then obtain ch where ch: "chunk_heap p c = Some ch" "a = buddy_mem ch" by (auto simp: owned_def)
  let ?q0 = "p\<lparr>chunk_heap := (chunk_heap p)(c := None)\<rparr>"
  obtain b2 where b2: "dr_buddy_free_mem (unat (chunk_seg ch)) (ilog32 (num_of_entries ch - 1)) b = Inr b2" "same_rest b b2"
    "sound ?q0 a (del_chunk_node c (b2\<lparr>used_memory := used_memory b2 - ucast (byte_size ch)\<rparr>))"
    using release_sound[OF core ch b, of ?q0] by auto
  define b' where "b' = del_chunk_node c (b2\<lparr>used_memory := used_memory b2 - ucast (byte_size ch)\<rparr>)"
  define q where "q = (set_buddy a b' p)\<lparr>hot_memory_size := hot_memory_size p - ucast (byte_size ch), chunk_heap := (chunk_heap p)(c := None)\<rparr>"
  have q': "chunk_heap q = (chunk_heap p)(c := None)" "icm_type q = icm_type p" "max_log_chunk_sz q = max_log_chunk_sz p"
    "buddies q = (buddies p)(a \<mapsto> b')" "buddy_mem_list q = buddy_mem_list p" "calls q = calls p" "memory_reclaim q = memory_reclaim p" "mutex q = mutex p"
    "hot_memory_size q = hot_memory_size p - ucast (byte_size ch)" by (simp_all add: q_def)
  have l: "used_list b' = used_list b" "hot_list b' = remove1 c (hot_list b)"
    using b2(2) nc by (simp_all add: b'_def del_chunk_node_def same_rest_def remove1_idem)
  have r: "release_hot a c p = Inr q"
    using ch b b2(1) by (simp add: release_hot_def the_chunk_def the_buddy_def dr_icm_chunk_destroy_def q_def b'_def set_buddy_def)
  have ow: "owned q a = owned p a - {c}" "\<And>a'. a' \<noteq> a \<Longrightarrow> owned q a' = owned p a'" using ch by (auto simp: owned_def q'(1))
  have "other_hot a q = other_hot a p" by (auto simp: other_hot_def q'(4))
  moreover have "c \<notin> other_hot a p" using other_hot_owned[OF core ch(1)] ch(2) by simp
  ultimately have hot: "hot_chunks q = hot_chunks p - {c}" "c \<in> hot_chunks p"
    using hot_split[OF b] hot_split[of q a b'] l(2) q'(4) dis(1) c by auto
  have d: "dom (buddies q) = dom (buddies p)" using b q'(4) by auto
  have "pool_core q"
  proof (rule coreI)
    fix a' b'' assume b'': "buddies q a' = Some b''"
    show "distinct (used_list b'' @ hot_list b'') \<and> set (used_list b'' @ hot_list b'') = owned q a'"
    proof (cases "a' = a")
      case True
      then show ?thesis using b'' l dis nc c unfolding True ow(1) by (auto simp: q'(4))
    next
      case False
      then show ?thesis using b'' co(4)[of a' b''] ow(2) by (simp add: q'(4))
    qed
    show "sound q a' b''"
    proof (cases "a' = a")
      case True
      have "sound q = sound ?q0" by (rule sound_cong) (simp_all add: q')
      then show ?thesis using True b'' b2(3) by (simp add: q'(4) b'_def)
    next
      case False
      then have "sound p a' b''" using b'' co(6)[of a' b''] by (simp add: q'(4))
      moreover have "c \<notin> owned p a'" using ch False by (auto simp: owned_def)
      ultimately show ?thesis using ow(2)[OF False] by (intro sound_other[of q a' p]) (auto simp: q')
    qed
    show "a' < calls q" using b'' co(7)[of a'] co(7)[OF b] by (cases "a' = a") (auto simp: q'(4,6))
  next
    have "(\<Sum>x\<in>hot_chunks p. bytes p x) = bytes p c + (\<Sum>x\<in>hot_chunks p - {c}. bytes p x)" by (rule sum.remove[OF hot_finite[OF core] hot(2)])
    moreover have "(\<Sum>x\<in>hot_chunks p - {c}. bytes q x) = (\<Sum>x\<in>hot_chunks p - {c}. bytes p x)" by (intro sum.cong) (auto simp: bytes_def q'(1))
    moreover have "bytes p c = unat (byte_size ch)" using ch(1) by (simp add: bytes_def)
    ultimately show "hot_memory_size q = of_nat (\<Sum>x\<in>hot_chunks q. bytes q x)" unfolding hot(1) q'(9) co(9) by (simp add: byte_word del: of_nat_sum)
    show "set (buddy_mem_list q) = dom (buddies q)" unfolding d q'(5) by (rule co(3))
    show "buddy_mem ch' \<in> dom (buddies q)" if "chunk_heap q x = Some ch'" for x ch' unfolding d using that co(5)[of x ch'] by (simp add: q'(1) split: if_splits)
    show "x < calls q" if "chunk_heap q x = Some ch'" for x ch' using that co(8)[of x ch'] by (simp add: q'(1,6) split: if_splits)
  qed (use co(1,2) q' in simp_all)
  then show ?thesis using r l q' by (intro exI[of _ b'] exI[of _ q]) simp
qed

definition frame :: "dr_icm_pool \<Rightarrow> dr_icm_pool \<Rightarrow> bool" where
  "frame p q \<longleftrightarrow> icm_type q = icm_type p \<and> memory_reclaim q = memory_reclaim p \<and> mutex q = mutex p"

lemma frame_refl [simp]: "frame p p"
  by (simp add: frame_def)

lemma frame_trans: "frame p q \<Longrightarrow> frame q r \<Longrightarrow> frame p r"
  by (simp add: frame_def)

definition without :: "nat set \<Rightarrow> (nat \<Rightarrow> 'a option) \<Rightarrow> nat \<Rightarrow> 'a option" where
  "without X h = (\<lambda>c. if c \<in> X then None else h c)"

lemma without_simps [simp]: "without {} h = h" "without X (h(c := None)) = without (insert c X) h" "without X (without Y h) = without (X \<union> Y) h"
  by (auto simp: without_def fun_eq_iff)

lemma release_all:
  assumes "pool_core p" "buddies p a = Some b" "hot_list b = xs"
  shows "\<exists>b' q. foldE (release_hot a) xs p = Inr q \<and> pool_core q \<and> buddies q = (buddies p)(a \<mapsto> b') \<and> hot_list b' = [] \<and>
    used_list b' = used_list b \<and> chunk_heap q = without (set xs) (chunk_heap p) \<and> buddy_mem_list q = buddy_mem_list p \<and> frame p q"
  using assms
proof (induction xs arbitrary: p b)
  case Nil
  then show ?case by (intro exI[of _ b] exI[of _ p]) (auto simp: map_upd_triv)
next
  case (Cons c xs)
  then have c: "c \<in> set (hot_list b)" by simp
  obtain b1 q1 where q1: "release_hot a c p = Inr q1" "pool_core q1" "buddies q1 = (buddies p)(a \<mapsto> b1)" "hot_list b1 = xs" "used_list b1 = used_list b"
    "chunk_heap q1 = (chunk_heap p)(c := None)" "buddy_mem_list q1 = buddy_mem_list p" "frame p q1"
    using core_release[OF Cons.prems(1,2) c] Cons.prems(3) by (auto simp: frame_def)
  have "buddies q1 a = Some b1" using q1(3) by simp
  from Cons.IH[OF q1(2) this q1(4)] obtain b' q where q: "foldE (release_hot a) xs q1 = Inr q" "pool_core q" "buddies q = (buddies q1)(a \<mapsto> b')"
    "hot_list b' = []" "used_list b' = used_list b1" "chunk_heap q = without (set xs) (chunk_heap q1)" "buddy_mem_list q = buddy_mem_list q1" "frame q1 q" by blast
  show ?case
    using q q1 frame_trans[OF q1(8) q(8)] by (intro exI[of _ b'] exI[of _ q]) simp
qed

section \<open>Reclaiming allocators\<close>

lemma zero_used:
  assumes "pool_core p" "buddies p a = Some b" "used_memory b = 0"
  shows "owned p a = {}"
proof -
  note s = soundD[OF coreD(6)[OF assms(1,2)]]
  have "(\<Sum>c\<in>owned p a. bytes p c) = 0" using s(5) assms(3) by simp
  then have "\<forall>c\<in>owned p a. bytes p c = 0" using owned_finite[OF assms(1,2)] by (simp add: sum_eq_0_iff)
  then show ?thesis using s(4) entry_size_bound(1)[of p] by fastforce
qed

lemma drop_buddy_hot:
  assumes "buddies p a = Some b" "hot_list b = []"
  shows "hot_chunks (p\<lparr>buddy_mem_list := l, buddies := (buddies p)(a := None)\<rparr>) = hot_chunks p"
  using hot_split[OF assms(1)] assms(2) by (auto simp: hot_chunks_def other_hot_def)

lemma core_drop_buddy:
  assumes core: "pool_core p" and b: "buddies p a = Some b" and e: "owned p a = {}"
    and q: "q = p\<lparr>buddy_mem_list := remove1 a (buddy_mem_list p), buddies := (buddies p)(a := None)\<rparr>"
  shows "pool_core q"
proof -
  note co = coreD[OF core]
  have q': "chunk_heap q = chunk_heap p" "icm_type q = icm_type p" "max_log_chunk_sz q = max_log_chunk_sz p"
    "buddies q = (buddies p)(a := None)" "buddy_mem_list q = remove1 a (buddy_mem_list p)" "calls q = calls p" "hot_memory_size q = hot_memory_size p"
    by (simp_all add: q)
  have "set (used_list b @ hot_list b) = {}" using co(4)[OF b] e by simp
  then have "hot_list b = []" by simp
  then have hot: "hot_chunks q = hot_chunks p" unfolding q by (rule drop_buddy_hot[OF b])
  have s: "sound q = sound p" using q' by (intro sound_cong)
  show ?thesis
  proof (rule coreI)
    fix a' b' assume b': "buddies q a' = Some b'"
    then have p: "buddies p a' = Some b'" by (simp add: q'(4) split: if_splits)
    show "distinct (used_list b' @ hot_list b') \<and> set (used_list b' @ hot_list b') = owned q a'"
      unfolding heap_cong(1)[OF q'(1)] by (rule co(4)[OF p])
    show "sound q a' b'" unfolding s by (rule co(6)[OF p])
    show "a' < calls q" unfolding q'(6) by (rule co(7)[OF p])
  next
    show "buddy_mem ch \<in> dom (buddies q)" if "chunk_heap q c = Some ch" for c ch
    proof -
      have "c \<in> owned p (buddy_mem ch)" using that by (simp add: owned_def q'(1))
      then have "buddy_mem ch \<noteq> a" using e by auto
      then show ?thesis using co(5)[of c ch] that by (simp add: q'(1,4))
    qed
    show "set (buddy_mem_list q) = dom (buddies q)" using co(2,3) by (simp add: q'(4,5))
    show "hot_memory_size q = of_nat (\<Sum>x\<in>hot_chunks q. bytes q x)" unfolding hot heap_cong(3)[OF q'(1)] q'(7) by (rule co(9))
  qed (use co(1,2,8) q' in simp_all)
qed

text \<open>Synchronising one allocator: its hot chunks are gone; it stays unless it is empty and memory is reclaimed.\<close>

lemma sync_buddy_ok:
  assumes "pool_core p" "buddies p a = Some b"
  shows "\<exists>q. sync_buddy a p = Inr q \<and> pool_core q \<and> chunk_heap q = without (set (hot_list b)) (chunk_heap p) \<and> frame p q \<and>
    (\<forall>a'. a' \<noteq> a \<longrightarrow> buddies q a' = buddies p a') \<and>
    (if memory_reclaim p \<and> icm_type p = DR_ICM_TYPE_STE \<and> used_list b = [] then buddies q a = None
     else \<exists>b'. buddies q a = Some b' \<and> hot_list b' = [] \<and> used_list b' = used_list b)"
proof -
  obtain b1 q1 where q1: "foldE (release_hot a) (hot_list b) p = Inr q1" "pool_core q1" "buddies q1 = (buddies p)(a \<mapsto> b1)" "hot_list b1 = []"
    "used_list b1 = used_list b" "chunk_heap q1 = without (set (hot_list b)) (chunk_heap p)" "frame p q1"
    using release_all[OF assms refl] by blast
  have b1: "buddies q1 a = Some b1" using q1(3) by simp
  have ow: "owned q1 a = set (used_list b)" using coreD(4)[OF q1(2) b1] q1(4,5) by simp
  have z: "used_memory b1 = 0 \<longleftrightarrow> used_list b = []"
  proof
    assume "used_memory b1 = 0"
    then show "used_list b = []" using zero_used[OF q1(2) b1] ow by simp
  next
    assume "used_list b = []"
    then have "unat (used_memory b1) = 0" using soundD(5)[OF coreD(6)[OF q1(2) b1]] ow by simp
    then show "used_memory b1 = 0" by (simp add: unat_eq_0)
  qed
  let ?r = "memory_reclaim p \<and> icm_type p = DR_ICM_TYPE_STE \<and> used_list b = []"
  have s: "sync_buddy a p = (if ?r then dr_icm_buddy_destroy a q1 else Inr q1)"
    using assms(2) q1(1,7) b1 z by (auto simp: sync_buddy_def the_buddy_def frame_def)
  show ?thesis
  proof (cases ?r)
    case False
    then show ?thesis unfolding s using q1 b1 by auto
  next
    case True
    let ?q = "q1\<lparr>buddy_mem_list := remove1 a (buddy_mem_list q1), buddies := (buddies q1)(a := None)\<rparr>"
    have "dr_icm_buddy_destroy a q1 = Inr ?q"
      using b1 q1(4,5) True by (simp add: dr_icm_buddy_destroy_def the_buddy_def dr_buddy_cleanup_def)
    moreover have "pool_core ?q" using core_drop_buddy[OF q1(2) b1] ow True by simp
    ultimately show ?thesis unfolding s using True q1(3,6,7) by (intro exI[of _ ?q]) (simp add: frame_def)
  qed
qed

section \<open>Synchronising the pool\<close>

definition reclaims :: "dr_icm_pool \<Rightarrow> bool" where
  "reclaims p \<longleftrightarrow> memory_reclaim p \<and> icm_type p = DR_ICM_TYPE_STE"

definition synced :: "bool \<Rightarrow> dr_icm_buddy_mem \<Rightarrow> dr_icm_buddy_mem option \<Rightarrow> bool" where
  "synced r b o' \<longleftrightarrow> (if r \<and> used_list b = [] then o' = None else \<exists>b'. o' = Some b' \<and> hot_list b' = [] \<and> used_list b' = used_list b)"

definition hot_of :: "dr_icm_pool \<Rightarrow> nat set \<Rightarrow> nat set" where
  "hot_of p A = {c. \<exists>a\<in>A. \<exists>b. buddies p a = Some b \<and> c \<in> set (hot_list b)}"

lemma sync_list:
  assumes "pool_core p" "distinct as" "set as \<subseteq> dom (buddies p)"
  shows "\<exists>q. foldE sync_buddy as p = Inr q \<and> pool_core q \<and> frame p q \<and> chunk_heap q = without (hot_of p (set as)) (chunk_heap p) \<and>
    (\<forall>a. a \<notin> set as \<longrightarrow> buddies q a = buddies p a) \<and>
    (\<forall>a b. a \<in> set as \<longrightarrow> buddies p a = Some b \<longrightarrow> synced (reclaims p) b (buddies q a))"
  using assms
proof (induction as arbitrary: p)
  case Nil
  then show ?case by (auto simp: hot_of_def without_def)
next
  case (Cons a as)
  then obtain b where b: "buddies p a = Some b" by auto
  obtain q1 where q1: "sync_buddy a p = Inr q1" "pool_core q1" "chunk_heap q1 = without (set (hot_list b)) (chunk_heap p)" "frame p q1"
    "\<forall>a'. a' \<noteq> a \<longrightarrow> buddies q1 a' = buddies p a'" "synced (reclaims p) b (buddies q1 a)"
    using sync_buddy_ok[OF Cons.prems(1) b] unfolding synced_def reclaims_def by (metis (no_types, lifting))
  have na: "a \<notin> set as" using Cons.prems(2) by simp
  have same: "buddies q1 a' = buddies p a'" if "a' \<in> set as" for a' using q1(5) na that by auto
  have "set as \<subseteq> dom (buddies q1)" using Cons.prems(3) same by (simp add: subset_iff domIff)
  moreover have "distinct as" using Cons.prems(2) by simp
  ultimately obtain q where q: "foldE sync_buddy as q1 = Inr q" "pool_core q" "frame q1 q"
    "chunk_heap q = without (hot_of q1 (set as)) (chunk_heap q1)" "\<forall>a. a \<notin> set as \<longrightarrow> buddies q a = buddies q1 a"
    "\<forall>a b. a \<in> set as \<longrightarrow> buddies q1 a = Some b \<longrightarrow> synced (reclaims q1) b (buddies q a)" using Cons.IH[OF q1(2)] by blast
  have rc: "reclaims q1 = reclaims p" using q1(4) by (simp add: reclaims_def frame_def)
  have "hot_of q1 (set as) = hot_of p (set as)" using same by (auto simp: hot_of_def)
  then have "hot_of q1 (set as) \<union> set (hot_list b) = hot_of p (set (a # as))" using b by (auto simp: hot_of_def)
  then have heap: "chunk_heap q = without (hot_of p (set (a # as))) (chunk_heap p)" unfolding q(4) q1(3) without_simps by simp
  have "synced (reclaims p) b' (buddies q a')" if "a' \<in> set (a # as)" "buddies p a' = Some b'" for a' b'
  proof (cases "a' = a")
    case True
    then show ?thesis using that(2) b q1(6) q(5) na by auto
  next
    case False
    then show ?thesis using that q(6) same[of a'] rc by auto
  qed
  then show ?case using q1(1) q(1,2) frame_trans[OF q1(4) q(3)] heap q(5) q1(5) by (intro exI[of _ q]) auto
qed

lemma sync_all_ok:
  assumes "pool_core p" "env_sync env (calls p) = 0"
  shows "\<exists>q. dr_icm_pool_sync_all_buddy_pools env p = Inr (0, q) \<and> pool_core q \<and> frame p q \<and> hot_chunks q = {} \<and> hot_memory_size q = 0 \<and>
    chunk_heap q = without (hot_chunks p) (chunk_heap p) \<and> (\<forall>a b. buddies p a = Some b \<longrightarrow> synced (reclaims p) b (buddies q a)) \<and>
    dom (buddies q) \<subseteq> dom (buddies p)"
proof -
  let ?p = "p\<lparr>calls := calls p + 1\<rparr>"
  have core: "pool_core ?p" by (rule core_calls[OF assms(1)]) simp
  note co = coreD[OF core]
  have as: "distinct (buddy_mem_list p)" "set (buddy_mem_list p) \<subseteq> dom (buddies ?p)" "set (buddy_mem_list p) = dom (buddies p)" using co(2,3) by simp_all
  obtain q where q: "foldE sync_buddy (buddy_mem_list p) ?p = Inr q" "pool_core q" "frame ?p q"
    "chunk_heap q = without (hot_of ?p (set (buddy_mem_list p))) (chunk_heap ?p)" "\<forall>a. a \<notin> set (buddy_mem_list p) \<longrightarrow> buddies q a = buddies ?p a"
    "\<forall>a b. a \<in> set (buddy_mem_list p) \<longrightarrow> buddies ?p a = Some b \<longrightarrow> synced (reclaims ?p) b (buddies q a)"
    using sync_list[OF core as(1,2)] by blast
  have syn: "synced (reclaims p) b (buddies q a)" if "buddies p a = Some b" for a b
    using q(6) that as(3) by (auto simp: reclaims_def)
  have none: "buddies q a = None" if "buddies p a = None" for a using q(5)[rule_format, of a] that as(3) by (simp add: domIff)
  have hl: "hot_list b' = []" if "buddies q a = Some b'" for a b'
    using syn[of a] none[of a] that by (cases "buddies p a") (auto simp: synced_def split: if_splits)
  then have hot: "hot_chunks q = {}" by (auto simp: hot_chunks_def)
  have "hot_of ?p (set (buddy_mem_list p)) = hot_chunks p" unfolding as(3) by (auto simp: hot_of_def hot_chunks_def)
  then have "chunk_heap q = without (hot_chunks p) (chunk_heap p)" using q(4) by simp
  moreover have "hot_memory_size q = 0" using coreD(9)[OF q(2)] hot by simp
  moreover have "dr_icm_pool_sync_all_buddy_pools env p = Inr (0, q)" using assms(2) q(1) by (simp add: dr_icm_pool_sync_all_buddy_pools_def Let_def)
  moreover have "dom (buddies q) \<subseteq> dom (buddies p)" using none by (auto simp: dom_def) (metis option.exhaust)
  ultimately show ?thesis using q(2,3) hot syn by (intro exI[of _ q]) (simp add: frame_def)
qed

section \<open>Giving a chunk back\<close>

text \<open>Whether giving back a chunk synchronises the pool, and with success.\<close>

definition syncs :: "icm_env \<Rightarrow> dr_icm_pool \<Rightarrow> dr_icm_chunk \<Rightarrow> bool" where
  "syncs env p ch \<longleftrightarrow> hot_memory_size p + ucast (byte_size ch) > DR_ICM_SYNC_THRESHOLD_POOL \<and> env_sync env (calls p) = 0"

lemma remove1_single: "c \<in> set xs \<Longrightarrow> remove1 c xs = [] \<longleftrightarrow> xs = [c]"
  by (cases xs) auto

lemma free_chunk_cases:
  assumes inv: "pool_inv p" and ch: "chunk_heap p c = Some ch" and b: "buddies p (buddy_mem ch) = Some b" "c \<in> set (used_list b)"
  shows "if syncs env p ch \<and> reclaims p \<and> used_list b = [c] then dr_icm_free_chunk env c p = Inl BadPointer
    else \<exists>q. dr_icm_free_chunk env c p = Inr q \<and> pool_inv q \<and> reclaims q = reclaims p \<and>
      (if syncs env p ch then hot_chunks q = {} \<and> hot_memory_size q = 0 \<and> chunk_heap q = without (insert c (hot_chunks p)) (chunk_heap p)
       else hot_chunks q = insert c (hot_chunks p) \<and> chunk_heap q = chunk_heap p)"
proof -
  let ?a = "buddy_mem ch" and ?l = "p\<lparr>mutex := True\<rparr>"
  define p1 where "p1 = (set_buddy ?a (make_hot c b) ?l)\<lparr>hot_memory_size := hot_memory_size ?l + ucast (byte_size ch)\<rparr>"
  have core: "pool_core ?l" and un: "\<not> mutex p" using inv by (simp_all add: pool_inv_def core_mutex)
  have p1: "pool_core p1" "hot_chunks p1 = insert c (hot_chunks ?l)"
    using core_make_hot[OF core _ refl _ b(2) p1_def] ch b(1) by simp_all
  have hot: "hot_chunks ?l = hot_chunks p" by (rule hot_cong) simp
  have sel: "calls p1 = calls p" "reclaims p1 = reclaims p" "chunk_heap p1 = chunk_heap p" "buddies p1 ?a = Some (make_hot c b)"
    by (simp_all add: p1_def reclaims_def)
  have ul: "used_list (make_hot c b) = remove1 c (used_list b)" by (simp add: make_hot_def del_chunk_node_def)
  have start: "dr_icm_free_chunk env c p = bindE (if dr_icm_pool_is_sync_required p1
      then bindE (dr_icm_pool_sync_all_buddy_pools env p1) (\<lambda>(err, pool). Inr pool) else Inr p1)
      (\<lambda>pool. bindE (the_buddy pool ?a) (\<lambda>b. Inr (pool\<lparr>mutex := False\<rparr>)))"
    using ch b(1) un by (simp add: dr_icm_free_chunk_def the_chunk_def the_buddy_def lock_def Let_def p1_def make_hot_def)
  have req: "dr_icm_pool_is_sync_required p1 \<longleftrightarrow> hot_memory_size p + ucast (byte_size ch) > DR_ICM_SYNC_THRESHOLD_POOL"
    by (simp add: dr_icm_pool_is_sync_required_def p1_def)
  show ?thesis
  proof (cases "syncs env p ch")
    case False
    obtain t where t: "(if dr_icm_pool_is_sync_required p1 then bindE (dr_icm_pool_sync_all_buddy_pools env p1) (\<lambda>(err, pool). Inr pool) else Inr p1) = Inr (p1\<lparr>calls := t\<rparr>)"
      "calls p1 \<le> t"
    proof (cases "dr_icm_pool_is_sync_required p1")
      case True
      then have "env_sync env (calls p1) \<noteq> 0" using False req sel(1) by (simp add: syncs_def)
      then show ?thesis using True that[of "calls p1 + 1"] by (simp add: dr_icm_pool_sync_all_buddy_pools_def Let_def)
    next
      case False
      then show ?thesis using that[of "calls p1"] by simp
    qed
    have "pool_inv (p1\<lparr>calls := t, mutex := False\<rparr>)" using core_calls[OF p1(1) t(2)] by (simp add: pool_inv_def core_mutex)
    moreover have "hot_chunks (p1\<lparr>calls := t, mutex := False\<rparr>) = insert c (hot_chunks p)" using p1(2) hot hot_cong[of "p1\<lparr>calls := t, mutex := False\<rparr>" p1] by simp
    moreover have "dr_icm_free_chunk env c p = Inr (p1\<lparr>calls := t, mutex := False\<rparr>)" unfolding start t(1) using sel(4) by (simp add: the_buddy_def)
    moreover have "reclaims (p1\<lparr>calls := t, mutex := False\<rparr>) = reclaims p" using sel(2) by (simp add: reclaims_def)
    ultimately show ?thesis using False sel(3) by auto
  next
    case True
    then have r: "dr_icm_pool_is_sync_required p1" "env_sync env (calls p1) = 0" using req sel(1) by (simp_all add: syncs_def)
    obtain q where q: "dr_icm_pool_sync_all_buddy_pools env p1 = Inr (0, q)" "pool_core q" "hot_chunks q = {}" "hot_memory_size q = 0"
      "chunk_heap q = without (hot_chunks p1) (chunk_heap p1)" "synced (reclaims p1) (make_hot c b) (buddies q ?a)" "frame p1 q"
      using sync_all_ok[OF p1(1) r(2)] sel(4) by blast
    have f: "dr_icm_free_chunk env c p = bindE (the_buddy q ?a) (\<lambda>b. Inr (q\<lparr>mutex := False\<rparr>))" unfolding start using r(1) q(1) by simp
    have one: "used_list (make_hot c b) = [] \<longleftrightarrow> used_list b = [c]" unfolding ul by (rule remove1_single[OF b(2)])
    show ?thesis
    proof (cases "reclaims p \<and> used_list b = [c]")
      case True': True
      then have "buddies q ?a = None" using q(6) sel(2) one by (simp add: synced_def)
      then show ?thesis unfolding f using True True' by (simp add: the_buddy_def)
    next
      case False
      then obtain b' where "buddies q ?a = Some b'" using q(6) sel(2) one by (auto simp: synced_def split: if_splits)
      then have "dr_icm_free_chunk env c p = Inr (q\<lparr>mutex := False\<rparr>)" unfolding f by (simp add: the_buddy_def)
      moreover have "pool_inv (q\<lparr>mutex := False\<rparr>)" using q(2) by (simp add: pool_inv_def core_mutex)
      moreover have "hot_chunks (q\<lparr>mutex := False\<rparr>) = {}" using q(3) hot_cong[of "q\<lparr>mutex := False\<rparr>" q] by simp
      moreover have "reclaims (q\<lparr>mutex := False\<rparr>) = reclaims p" using sel(2) q(7) by (simp add: reclaims_def frame_def)
      ultimately show ?thesis using True False q(4,5) p1(2) hot sel(3) by auto
    qed
  qed
qed

section \<open>Destroying the pool\<close>

lemma linkedD:
  assumes "linked p"
  shows "distinct (buddy_mem_list p)" "set (buddy_mem_list p) = dom (buddies p)"
    and "\<And>a b. buddies p a = Some b \<Longrightarrow> distinct (used_list b @ hot_list b) \<and> set (used_list b @ hot_list b) = owned p a"
    and "\<And>c ch. chunk_heap p c = Some ch \<Longrightarrow> buddy_mem ch \<in> dom (buddies p)"
  using assms unfolding linked_def by blast+

lemma chunk_destroy_linked:
  assumes "linked p" "chunk_heap p c = Some ch" "a = buddy_mem ch" "buddies p a = Some b"
  shows "\<exists>q. dr_icm_chunk_destroy c p = Inr q \<and> linked q \<and> buddies q = (buddies p)(a \<mapsto> del_chunk_node c b) \<and>
    chunk_heap q = (chunk_heap p)(c := None) \<and> buddy_mem_list q = buddy_mem_list p"
proof -
  note l = linkedD[OF assms(1)]
  define q where "q = (set_buddy a (del_chunk_node c b) p)\<lparr>chunk_heap := (chunk_heap p)(c := None)\<rparr>"
  have q': "chunk_heap q = (chunk_heap p)(c := None)" "buddies q = (buddies p)(a \<mapsto> del_chunk_node c b)" "buddy_mem_list q = buddy_mem_list p"
    by (simp_all add: q_def)
  have ow: "owned q a = owned p a - {c}" "\<And>a'. a' \<noteq> a \<Longrightarrow> owned q a' = owned p a'" using assms(2,3) by (auto simp: owned_def q'(1))
  have d: "dom (buddies q) = dom (buddies p)" using assms(4) q'(2) by auto
  have "distinct (used_list b' @ hot_list b') \<and> set (used_list b' @ hot_list b') = owned q a'" if b': "buddies q a' = Some b'" for a' b'
  proof (cases "a' = a")
    case True
    have dis: "distinct (used_list b @ hot_list b)" "set (used_list b @ hot_list b) = owned p a" using l(3)[OF assms(4)] by simp_all
    have "b' = del_chunk_node c b" using True b' by (simp add: q'(2))
    then show ?thesis using dis unfolding True ow(1) by (auto simp: del_chunk_node_def)
  next
    case False
    then show ?thesis using b' l(3)[of a' b'] ow(2) by (simp add: q'(2))
  qed
  moreover have "buddy_mem ch' \<in> dom (buddies q)" if "chunk_heap q x = Some ch'" for x ch'
    unfolding d using that l(4)[of x ch'] by (simp add: q'(1) split: if_splits)
  ultimately have "linked q" unfolding linked_def d q'(3) using l(1,2) by blast
  moreover have "dr_icm_chunk_destroy c p = Inr q"
    using assms(2-4) by (simp add: dr_icm_chunk_destroy_def the_chunk_def the_buddy_def q_def)
  ultimately show ?thesis using q' by blast
qed

lemma destroy_chunks:
  assumes "linked p" "buddies p a = Some b" "distinct xs" "set xs \<subseteq> owned p a"
  shows "\<exists>b' q. foldE dr_icm_chunk_destroy xs p = Inr q \<and> linked q \<and> buddies q = (buddies p)(a \<mapsto> b') \<and>
    set (used_list b') \<subseteq> set (used_list b) \<and> set (hot_list b') \<subseteq> set (hot_list b) \<and>
    chunk_heap q = without (set xs) (chunk_heap p) \<and> buddy_mem_list q = buddy_mem_list p"
  using assms
proof (induction xs arbitrary: p b)
  case Nil
  then show ?case by (intro exI[of _ b] exI[of _ p]) (auto simp: map_upd_triv)
next
  case (Cons c xs)
  then obtain ch where ch: "chunk_heap p c = Some ch" "a = buddy_mem ch" by (auto simp: owned_def)
  obtain q1 where q1: "dr_icm_chunk_destroy c p = Inr q1" "linked q1" "buddies q1 = (buddies p)(a \<mapsto> del_chunk_node c b)"
    "chunk_heap q1 = (chunk_heap p)(c := None)" "buddy_mem_list q1 = buddy_mem_list p" using chunk_destroy_linked[OF Cons.prems(1) ch Cons.prems(2)] by blast
  have b1: "buddies q1 a = Some (del_chunk_node c b)" using q1(3) by simp
  have "owned q1 a = owned p a - {c}" using q1(4) by (auto simp: owned_def)
  then have xs: "distinct xs" "set xs \<subseteq> owned q1 a" using Cons.prems(3,4) by auto
  obtain b' q where q: "foldE dr_icm_chunk_destroy xs q1 = Inr q" "linked q" "buddies q = (buddies q1)(a \<mapsto> b')"
    "set (used_list b') \<subseteq> set (used_list (del_chunk_node c b))" "set (hot_list b') \<subseteq> set (hot_list (del_chunk_node c b))"
    "chunk_heap q = without (set xs) (chunk_heap q1)" "buddy_mem_list q = buddy_mem_list q1" using Cons.IH[OF q1(2) b1 xs] by blast
  have "set (used_list (del_chunk_node c b)) \<subseteq> set (used_list b)" "set (hot_list (del_chunk_node c b)) \<subseteq> set (hot_list b)"
    by (simp_all add: del_chunk_node_def set_remove1_subset)
  then show ?case using q q1 by (intro exI[of _ b'] exI[of _ q]) auto
qed

lemma without_owned: "chunk_heap q = without X (chunk_heap p) \<Longrightarrow> owned q a = owned p a - X"
  by (auto simp: owned_def without_def)

lemma buddy_destroy_linked:
  assumes "linked p" "buddies p a = Some b"
  shows "\<exists>q. dr_icm_buddy_destroy a p = Inr q \<and> linked q \<and> buddies q = (buddies p)(a := None) \<and> buddy_mem_list q = remove1 a (buddy_mem_list p)"
proof -
  have l: "distinct (used_list b @ hot_list b)" "set (used_list b @ hot_list b) = owned p a" using linkedD(3)[OF assms] by simp_all
  have hot: "distinct (hot_list b)" "set (hot_list b) \<subseteq> owned p a" using l by auto
  obtain b1 q1 where q1: "foldE dr_icm_chunk_destroy (hot_list b) p = Inr q1" "linked q1" "buddies q1 = (buddies p)(a \<mapsto> b1)"
    "set (hot_list b1) \<subseteq> set (hot_list b)" "chunk_heap q1 = without (set (hot_list b)) (chunk_heap p)" "buddy_mem_list q1 = buddy_mem_list p"
    using destroy_chunks[OF assms hot] by blast
  have b1: "buddies q1 a = Some b1" using q1(3) by simp
  have l1: "distinct (used_list b1 @ hot_list b1)" "set (used_list b1 @ hot_list b1) = owned q1 a" using linkedD(3)[OF q1(2) b1] by simp_all
  have "set (hot_list b1) \<subseteq> owned q1 a" using l1(2) by auto
  then have "set (hot_list b1) = {}" using q1(4) without_owned[OF q1(5), of a] by (metis Diff_disjoint inf.orderE inf_assoc inf_bot_right subset_empty)
  then have u1: "distinct (used_list b1)" "set (used_list b1) = owned q1 a" using l1 by auto
  obtain b2 q2 where q2: "foldE dr_icm_chunk_destroy (used_list b1) q1 = Inr q2" "linked q2" "buddies q2 = (buddies q1)(a \<mapsto> b2)"
    "chunk_heap q2 = without (set (used_list b1)) (chunk_heap q1)" "buddy_mem_list q2 = buddy_mem_list q1"
    using destroy_chunks[OF q1(2) b1 u1(1)] u1(2) by blast
  have e: "owned q2 a = {}" using without_owned[OF q2(4), of a] u1(2) by simp
  define q where "q = q2\<lparr>buddy_mem_list := remove1 a (buddy_mem_list q2), buddies := (buddies q2)(a := None)\<rparr>"
  have q: "buddies q = (buddies q2)(a := None)" "buddy_mem_list q = remove1 a (buddy_mem_list q2)" "chunk_heap q = chunk_heap q2" by (simp_all add: q_def)
  note l2 = linkedD[OF q2(2)]
  have "linked q"
    unfolding linked_def
  proof (intro conjI allI impI)
    show "distinct (buddy_mem_list q)" "set (buddy_mem_list q) = dom (buddies q)" using l2(1,2) by (simp_all add: q(1,2))
    fix a' b' assume "buddies q a' = Some b'"
    then have "buddies q2 a' = Some b'" by (simp add: q(1) split: if_splits)
    then show "distinct (used_list b' @ hot_list b')" "set (used_list b' @ hot_list b') = owned q a'"
      using l2(3)[of a' b'] heap_cong(1)[OF q(3)] by simp_all
  next
    fix c ch assume h: "chunk_heap q c = Some ch"
    then have "c \<in> owned q2 (buddy_mem ch)" by (simp add: owned_def q(3))
    then have "buddy_mem ch \<noteq> a" using e by auto
    then show "buddy_mem ch \<in> dom (buddies q)" using l2(4)[of c ch] h by (simp add: q(1,3))
  qed
  moreover have "dr_icm_buddy_destroy a p = Inr q"
    using assms(2) q1(1) b1 q2(1,3) by (simp add: dr_icm_buddy_destroy_def the_buddy_def dr_buddy_cleanup_def q_def)
  ultimately show ?thesis using q(1,2) q2(3,5) q1(3,6) by (intro exI[of _ q]) simp
qed

lemma pool_destroy_ok:
  assumes "linked p"
  shows "\<exists>q. dr_icm_pool_destroy p = Inr q \<and> buddies q = Map.empty \<and> chunk_heap q = Map.empty \<and> buddy_mem_list q = []"
proof -
  have "\<exists>q. foldE dr_icm_buddy_destroy as p = Inr q \<and> linked q \<and> buddy_mem_list q = []" if "linked p" "buddy_mem_list p = as" for as p
    using that
  proof (induction as arbitrary: p)
    case (Cons a as)
    then have "a \<in> dom (buddies p)" using linkedD(2)[OF Cons.prems(1)] by auto
    then obtain b where b: "buddies p a = Some b" by blast
    obtain q1 where q1: "dr_icm_buddy_destroy a p = Inr q1" "linked q1" "buddy_mem_list q1 = as"
      using buddy_destroy_linked[OF Cons.prems(1) b] Cons.prems(2) by auto
    then show ?case using Cons.IH[OF q1(2,3)] by simp
  qed simp
  then obtain q where q: "dr_icm_pool_destroy p = Inr q" "linked q" "buddy_mem_list q = []" using assms unfolding dr_icm_pool_destroy_def by blast
  have "dom (buddies q) = {}" using linkedD(2)[OF q(2)] q(3) by simp
  moreover have "chunk_heap q c = None" for c using linkedD(4)[OF q(2), of c] calculation by (cases "chunk_heap q c") auto
  ultimately show ?thesis using q(1,3) by (auto simp: fun_eq_iff)
qed

section \<open>Runs of a pool\<close>

definition pool_start :: "icm_env \<Rightarrow> dr_icm_pool \<Rightarrow> bool" where
  "pool_start env p \<longleftrightarrow> (\<exists>reclaim log_icm log_pattern ty. dr_icm_pool_create env (domain_sizes reclaim log_icm log_pattern) ty = Some p)"

text \<open>A client asks for a chunk, gives back one it holds, or changes the reclaim flag of the domain.\<close>

inductive pool_step :: "icm_env \<Rightarrow> dr_icm_pool \<Rightarrow> dr_icm_pool \<Rightarrow> bool" for env where
  ask: "dr_icm_alloc_chunk env k p = Inr (r, q) \<Longrightarrow> pool_step env p q"
| give: "chunk_heap p c = Some ch \<Longrightarrow> c \<notin> hot_chunks p \<Longrightarrow> dr_icm_free_chunk env c p = Inr q \<Longrightarrow> pool_step env p q"
| flag: "pool_step env p (set_reclaim r p)"

lemma held_used:
  assumes "pool_core p" "chunk_heap p c = Some ch" "c \<notin> hot_chunks p"
  shows "\<exists>b. buddies p (buddy_mem ch) = Some b \<and> c \<in> set (used_list b)"
  using owner[OF assms(1,2)] assms(3) by (auto simp: hot_chunks_def)

lemma start_inv: "pool_start env p \<Longrightarrow> pool_inv p"
proof -
  assume "pool_start env p"
  then have p: "buddies p = Map.empty" "chunk_heap p = Map.empty" "buddy_mem_list p = []" "hot_memory_size p = 0" "\<not> mutex p" "max_log_chunk_sz p \<le> 20"
    by (auto simp: pool_start_def dr_icm_pool_create_def domain_sizes_def split: if_splits dr_icm_type.splits)
  have "pool_core p" by (rule coreI) (simp_all add: p hot_chunks_def)
  then show ?thesis using p(5) by (simp add: pool_inv_def)
qed

interpretation icm_runs: transition_inv "pool_start env" "pool_step env" pool_inv for env
proof
  fix p q assume inv: "pool_inv p" and "pool_step env p q"
  from this(2) show "pool_inv q"
  proof cases
    case (ask k r)
    then show ?thesis using alloc_chunk_ok[OF inv, of env k] by auto
  next
    case (give c ch)
    then obtain b where b: "buddies p (buddy_mem ch) = Some b" "c \<in> set (used_list b)" 
      using held_used[OF _ give(1,2)] inv unfolding pool_inv_def by blast
    show ?thesis using free_chunk_cases[OF inv give(1) b, of env] give(3) by (auto split: if_splits)
  next
    case (flag r)
    have "pool_core q" by (rule core_same[of p]) (use inv flag in \<open>simp_all add: set_reclaim_def pool_inv_def\<close>)
    then show ?thesis using inv flag by (simp add: pool_inv_def set_reclaim_def)
  qed
qed (rule start_inv)

section \<open>Memory is found\<close>

definition generous :: "icm_env \<Rightarrow> bool" where
  "generous env \<longleftrightarrow> (\<forall>t. env_alloc env t \<and> env_dm env t \<noteq> None \<and> env_reg env t \<noteq> None)"

lemma mr_create_some:
  assumes "generous env" "max_log_chunk_sz p \<le> 20"
  shows "\<exists>t' mr. dr_icm_pool_mr_create env p t = Inr (t', Some mr)"
proof -
  have g: "env_alloc env u" "\<exists>s. env_dm env u = Some s" "\<exists>r. env_reg env u = Some r" for u using assms(1) by (auto simp: generous_def)
  obtain t1 start len where a: "dr_icm_allocate_aligned_dm env p (t + 1) = Inr (t1, Some (start, len))"
    using size_to_byte(2)[OF assms(2), of p] g(2)[of "t + 1"] g(2)[of "t + 1 + 1"]
    by (fastforce simp: dr_icm_allocate_aligned_dm_def Let_def)
  obtain addr key where "env_reg env t1 = Some (addr, key)" using g(3)[of t1] by auto
  then show ?thesis using a g(1) by (simp add: dr_icm_pool_mr_create_def)
qed

lemma buddy_create_zero:
  assumes "generous env" "max_log_chunk_sz p \<le> 20"
  shows "\<exists>q. dr_icm_buddy_create env p = Inr (0, q)"
proof -
  obtain t mr where mr: "dr_icm_pool_mr_create env p (calls p) = Inr (t, Some mr)" using mr_create_some[OF assms] by blast
  have g: "env_alloc env u" for u using assms(1) by (simp add: generous_def)
  have "\<exists>t' b. dr_buddy_init (env_alloc env) (t + 1) empty_buddy (max_log_chunk_sz p) = Inr (0, t', b)"
    using init_result[of "max_log_chunk_sz p" "t + 1" "env_alloc env" empty_buddy] assms(2) g by auto
  then show ?thesis using mr g by (auto simp: dr_icm_buddy_create_def)
qed

lemma chunk_create_some:
  assumes "generous env" "buddies p a = Some b" "k \<le> 20" "sg < 2 ^ 20"
  shows "\<exists>c q. dr_icm_chunk_create env k a sg p = Inr (Some c, q)"
proof -
  have g: "env_alloc env u" for u using assms(1) by (simp add: generous_def)
  have off: "\<not> dr_icm_pool_dm_type_to_entry_size (icm_type p) * sg \<ge> 2 ^ 31"
    using assms(4) by (simp add: dr_icm_pool_dm_type_to_entry_size_def)
  show ?thesis using assms(2) g off
    by (simp add: dr_icm_chunk_create_def Let_def the_buddy_def dr_icm_chunk_ste_init_def size_to_byte(1)[OF assms(3)] size_to_byte(2)[OF assms(3), of p])
qed

lemma alloc_generous:
  assumes "generous env" "pool_inv p" "k \<le> max_log_chunk_sz p"
  shows "\<exists>c q. dr_icm_alloc_chunk env k p = Inr (Some c, q)"
proof -
  let ?l = "p\<lparr>mutex := True\<rparr>"
  have core: "pool_core ?l" and un: "\<not> mutex p" using assms(2) by (simp_all add: pool_inv_def core_mutex)
  have M: "max_log_chunk_sz ?l \<le> 20" "k \<le> max_log_chunk_sz ?l" "k \<le> 20" using coreD(1)[OF core] assms(3) by simp_all
  have ne: "dr_icm_handle_buddies_get_mem env k ?l \<noteq> Inr (ENOMEM, None, q)" for q
  proof
    assume m: "dr_icm_handle_buddies_get_mem env k ?l = Inr (ENOMEM, None, q)"
    have "set (buddy_mem_list ?l) \<subseteq> dom (buddies ?l)" using coreD(3)[OF core] by simp
    from scan_ok[OF core this M(2)] m have "scan_buddies False k (buddy_mem_list ?l) ?l = Inr (None, ?l)"
      by (auto simp: dr_icm_handle_buddies_get_mem_def)
    moreover obtain q' where "dr_icm_buddy_create env ?l = Inr (0, q')" using buddy_create_zero[OF assms(1) M(1)] by blast
    ultimately show False using m by (auto simp: dr_icm_handle_buddies_get_mem_def bindE_Inr ENOMEM_def)
  qed
  then obtain a b sg b' p' where m: "dr_icm_handle_buddies_get_mem env k ?l = Inr (0, Some (a, sg), set_buddy a b' p')" "pool_core p'" "same_pool ?l p'"
    "buddies p' a = Some b" "dr_buddy_alloc_mem k b = Inr (int sg, b')" using get_mem_ok[OF core M(2), of env] by blast
  have kp: "k \<le> max_log_chunk_sz p'" using M(2) m(3) by (simp add: same_pool_def)
  have "sg < 2 ^ 20" by (rule alloc_seg(4)[OF coreD(6)[OF m(2,4)] coreD(1)[OF m(2)] kp m(5)])
  then obtain c q where "dr_icm_chunk_create env k a sg (set_buddy a b' p') = Inr (Some c, q)"
    using chunk_create_some[OF assms(1), of "set_buddy a b' p'" a b' k sg] M(3) by auto
  then show ?thesis using m(1) un assms(3) by (simp add: dr_icm_alloc_chunk_def lock_def)
qed

lemma alloc_generous_ok:
  assumes "generous env" "pool_inv p" "k \<le> max_log_chunk_sz p"
  shows "\<exists>c q ch a sg. dr_icm_alloc_chunk env k p = Inr (Some c, q) \<and> pool_inv q \<and> reclaims q = reclaims p \<and> icm_type q = icm_type p \<and>
    max_log_chunk_sz q = max_log_chunk_sz p \<and> hot_memory_size q = hot_memory_size p \<and> chunk_heap p c = None \<and>
    chunk_heap q = (chunk_heap p)(c \<mapsto> ch) \<and> chunk_at p a sg k ch"
proof -
  obtain c q where cq: "dr_icm_alloc_chunk env k p = Inr (Some c, q)" using alloc_generous[OF assms] by blast
  then show ?thesis using alloc_chunk_ok[OF assms(2), of env k] by (auto simp: reclaims_def)
qed

section \<open>Properties\<close>

definition chunk_run :: "dr_icm_chunk \<Rightarrow> nat set" where
  "chunk_run ch = run (unat (chunk_seg ch)) (chunk_order ch)"

lemma inv_chunks:
  assumes "pool_inv p" "chunk_heap p c = Some x"
  shows "\<exists>b. buddies p (buddy_mem x) = Some b \<and> chunk_run x \<subseteq> {..<2 ^ max_log_chunk_sz p} - area b \<and> 2 ^ chunk_order x dvd unat (chunk_seg x)"
    and "\<And>d y. chunk_heap p d = Some y \<Longrightarrow> c \<noteq> d \<Longrightarrow> buddy_mem x = buddy_mem y \<Longrightarrow> chunk_run x \<inter> chunk_run y = {}"
proof -
  have core: "pool_core p" using assms(1) by (simp add: pool_inv_def)
  obtain b where b: "buddies p (buddy_mem x) = Some b" using coreD(5)[OF core assms(2)] by blast
  note s = soundD[OF coreD(6)[OF core b]]
  have pl: "place_run (place p) e = chunk_run z" if "chunk_heap p e = Some z" for e z using that by (simp add: place_run_def place_def chunk_run_def)
  have ow: "c \<in> owned p (buddy_mem x)" using assms(2) by (simp add: owned_def)
  have "2 ^ snd (place p c) dvd fst (place p c)" "place_run (place p) c \<subseteq> {..<2 ^ max_order b} - area b" using s(3) ow unfolding holding_def by blast+
  then show "\<exists>b. buddies p (buddy_mem x) = Some b \<and> chunk_run x \<subseteq> {..<2 ^ max_log_chunk_sz p} - area b \<and> 2 ^ chunk_order x dvd unat (chunk_seg x)"
    unfolding pl[OF assms(2)] s(2)[symmetric] using b assms(2) by (auto simp: place_def)
  fix d y assume d: "chunk_heap p d = Some y" "c \<noteq> d" "buddy_mem x = buddy_mem y"
  then have "d \<in> owned p (buddy_mem x)" by (simp add: owned_def)
  then show "chunk_run x \<inter> chunk_run y = {}" using s(3) ow d(2) unfolding holding_def pl[OF assms(2), symmetric] pl[OF d(1), symmetric] by blast
qed

text \<open>
  Property C21: in every run of a pool no segment of device memory is handed out twice. Whatever
  sequence of requests, returns and changes of the reclaim flag, and whichever
  allocations and device calls fail on the way, two chunks of one allocator that are in use
  or hot never overlap, a chunk is aligned, lies inside the memory and is not free, the
  next request returns without a fault, and destroying the pool leaves no allocator and no
  chunk behind.
\<close>

theorem icm_chunks_disjoint:
  assumes "pool_start env p" "(pool_step env)\<^sup>*\<^sup>* p q"
  shows "(\<forall>c d x y. chunk_heap q c = Some x \<and> chunk_heap q d = Some y \<and> c \<noteq> d \<and> buddy_mem x = buddy_mem y \<longrightarrow> chunk_run x \<inter> chunk_run y = {}) \<and>
    (\<forall>c x. chunk_heap q c = Some x \<longrightarrow>
      (\<exists>b. buddies q (buddy_mem x) = Some b \<and> chunk_run x \<subseteq> {..<2 ^ max_log_chunk_sz q} - area b \<and> 2 ^ chunk_order x dvd unat (chunk_seg x))) \<and>
    (\<forall>k. \<exists>r q'. dr_icm_alloc_chunk env k q = Inr (r, q')) \<and>
    (\<exists>q'. dr_icm_pool_destroy q = Inr q' \<and> buddies q' = Map.empty \<and> chunk_heap q' = Map.empty)"
proof -
  have inv: "pool_inv q" using icm_runs.reach_inv[OF assms] .
  then have "linked q" by (simp add: pool_inv_def pool_core_def)
  then show ?thesis using inv_chunks[OF inv] alloc_chunk_ok[OF inv, of env] pool_destroy_ok[of q] by (intro conjI allI impI) blast+
qed

definition good_env :: icm_env where
  "good_env = \<lparr>env_alloc = (\<lambda>_. True), env_dm = (\<lambda>_. Some 0), env_reg = (\<lambda>_. Some (0, 0)), env_sync = (\<lambda>_. 0)\<rparr>"

definition demo_pool :: dr_icm_pool where
  "demo_pool = the (dr_icm_pool_create good_env (domain_sizes True 20 0) DR_ICM_TYPE_STE)"

lemma demo_pool_ok:
  "pool_start good_env demo_pool" "generous good_env" "max_log_chunk_sz demo_pool = 20" "entry_size demo_pool = 64" "reclaims demo_pool"
  "chunk_heap demo_pool = Map.empty" "hot_memory_size demo_pool = 0"
proof -
  have "dr_icm_pool_create good_env (domain_sizes True 20 0) DR_ICM_TYPE_STE = Some demo_pool"
    by (simp add: demo_pool_def dr_icm_pool_create_def good_env_def)
  then show "pool_start good_env demo_pool" by (auto simp: pool_start_def)
qed (simp_all add: generous_def good_env_def demo_pool_def dr_icm_pool_create_def domain_sizes_def entry_size_def dr_icm_pool_dm_type_to_entry_size_def reclaims_def)

theorem icm_chunks_disjoint_witness:
  "\<exists>q c x. (pool_step good_env)\<^sup>*\<^sup>* demo_pool q \<and> chunk_heap q c = Some x \<and> chunk_run x \<subseteq> {..<2 ^ 20}"
proof -
  obtain c q ch where q: "dr_icm_alloc_chunk good_env 3 demo_pool = Inr (Some c, q)" "max_log_chunk_sz q = 20" "chunk_heap q c = Some ch"
    using alloc_generous_ok[OF demo_pool_ok(2) start_inv[OF demo_pool_ok(1)], of 3] by (auto simp: demo_pool_ok(3))
  have st: "(pool_step good_env)\<^sup>*\<^sup>* demo_pool q" using pool_step.ask[OF q(1)] by (rule r_into_rtranclp)
  from icm_chunks_disjoint[OF demo_pool_ok(1) st] show ?thesis using st q(2,3) by (metis (no_types, lifting) Diff_subset order_trans)
qed

text \<open>
  Property C23: a request for a chunk is served. If the allocations of host memory and the device
  calls succeed, then in every reachable state a request up to the largest chunk size
  returns a chunk with the right number of entries and bytes that no object lived at
  before, creating an allocator with new device memory if all others are full; the other
  chunks are unchanged.
\<close>

theorem icm_alloc_served:
  assumes "generous env" "pool_start env p" "(pool_step env)\<^sup>*\<^sup>* p q" "k \<le> max_log_chunk_sz q"
  shows "\<exists>c q' ch. dr_icm_alloc_chunk env k q = Inr (Some c, q') \<and> chunk_heap q c = None \<and> chunk_heap q' = (chunk_heap q)(c \<mapsto> ch) \<and>
    unat (num_of_entries ch) = 2 ^ k \<and> unat (byte_size ch) = entry_size q * 2 ^ k"
proof -
  have inv: "pool_inv q" using icm_runs.reach_inv[OF assms(2,3)] .
  have k: "k \<le> 20" using assms(4) inv coreD(1)[of q] by (simp add: pool_inv_def)
  have "(2 :: nat) ^ k \<le> 2 ^ 20" using k by (intro power_increasing) auto
  then have n: "unat (of_nat (2 ^ k) :: u32) = 2 ^ k" by (intro u32_nat) simp
  have b: "unat (of_nat (entry_size q * 2 ^ k) :: u32) = entry_size q * 2 ^ k" using size_to_byte(3)[OF k, of q] by (intro u32_nat) simp
  obtain c q' ch a sg where "dr_icm_alloc_chunk env k q = Inr (Some c, q')" "chunk_heap q c = None" "chunk_heap q' = (chunk_heap q)(c \<mapsto> ch)" "chunk_at q a sg k ch"
    using alloc_generous_ok[OF assms(1) inv assms(4)] by blast
  then show ?thesis using n b by (intro exI[of _ c] exI[of _ q'] exI[of _ ch]) (simp add: chunk_at_def)
qed

theorem icm_alloc_served_witness:
  "\<exists>c q ch. dr_icm_alloc_chunk good_env 20 demo_pool = Inr (Some c, q) \<and> chunk_heap q c = Some ch \<and> unat (byte_size ch) = 64 * 2 ^ 20"
proof -
  have "20 \<le> max_log_chunk_sz demo_pool" by (simp add: demo_pool_ok(3))
  from icm_alloc_served[OF demo_pool_ok(2,1) rtranclp.rtrancl_refl this] show ?thesis unfolding demo_pool_ok(4) by fastforce
qed

text \<open>
  Property C39: the effect of giving a chunk back. It becomes hot; if more than 64 MiB are hot then
  and the pipeline is synchronised, all hot chunks are released and their count is 0.
  The exception is a pool that reclaims memory: when the chunk is the last one its allocator
  holds, the synchronisation frees the allocator and the mutex is then released through
  the freed object, which is a fault.
\<close>

theorem icm_free_chunk_effect:
  assumes "pool_inv p" "chunk_heap p c = Some ch" "buddies p (buddy_mem ch) = Some b" "c \<in> set (used_list b)"
  shows "if syncs env p ch \<and> reclaims p \<and> used_list b = [c] then dr_icm_free_chunk env c p = Inl BadPointer
    else \<exists>q. dr_icm_free_chunk env c p = Inr q \<and> pool_inv q \<and>
      (if syncs env p ch then hot_chunks q = {} \<and> hot_memory_size q = 0 \<and> chunk_heap q = without (insert c (hot_chunks p)) (chunk_heap p)
       else hot_chunks q = insert c (hot_chunks p) \<and> chunk_heap q = chunk_heap p)"
  using free_chunk_cases[OF assms, of env] by (auto split: if_splits)

text \<open>
  A run that reaches the fault: two chunks of 64 MiB each are requested and given back
  while memory is reclaimed.
\<close>

lemma demo_size: "chunk_at p a sg 20 ch \<Longrightarrow> entry_size p = 64 \<Longrightarrow> byte_size ch = 2 ^ 26"
  by (simp add: chunk_at_def)

lemma no_hot:
  assumes "pool_core p" "hot_memory_size p = 0" "dom (chunk_heap p) \<subseteq> {c, d}" "\<And>x. bytes p x \<le> 2 ^ 26" "\<And>x. x \<in> dom (chunk_heap p) \<Longrightarrow> bytes p x \<noteq> 0"
  shows "hot_chunks p = {}"
proof -
  have sub: "hot_chunks p \<subseteq> {c, d}" using hot_sub[OF assms(1)] assms(3) by blast
  have "(\<Sum>x\<in>hot_chunks p. bytes p x) \<le> (\<Sum>x\<in>{c, d}. bytes p x)" using sub by (intro sum_mono2) auto
  also have "\<dots> \<le> bytes p c + bytes p d" by (cases "c = d") simp_all
  also have "\<dots> \<le> 2 ^ 26 + 2 ^ 26" using assms(4) by (intro add_mono)
  finally have le: "(\<Sum>x\<in>hot_chunks p. bytes p x) < 2 ^ 64" by simp
  have "unat (of_nat (\<Sum>x\<in>hot_chunks p. bytes p x) :: u64) = 0" using coreD(9)[OF assms(1)] assms(2) by simp
  moreover have "unat (of_nat (\<Sum>x\<in>hot_chunks p. bytes p x) :: u64) = (\<Sum>x\<in>hot_chunks p. bytes p x)"
    using le by (simp add: unsigned_of_nat take_bit_nat_eq_self del: of_nat_sum)
  ultimately have "\<forall>x\<in>hot_chunks p. bytes p x = 0" using hot_finite[OF assms(1)] by (simp add: sum_eq_0_iff del: of_nat_sum)
  then show ?thesis using assms(5) hot_sub[OF assms(1)] by blast
qed

lemma only_used:
  assumes "pool_core p" "dom (chunk_heap p) = {c, d}" "hot_chunks p = {c}" "c \<noteq> d" "chunk_heap p d = Some ch"
  shows "\<exists>b. buddies p (buddy_mem ch) = Some b \<and> used_list b = [d]"
proof -
  have "d \<notin> hot_chunks p" using assms(3,4) by simp
  then obtain b where b: "buddies p (buddy_mem ch) = Some b" "d \<in> set (used_list b)" using held_used[OF assms(1,5)] by blast
  have l: "distinct (used_list b @ hot_list b)" "set (used_list b @ hot_list b) = owned p (buddy_mem ch)" using coreD(4)[OF assms(1) b(1)] by simp_all
  have "c \<notin> set (used_list b)"
  proof
    assume c: "c \<in> set (used_list b)"
    then obtain x where x: "chunk_heap p c = Some x" "buddy_mem x = buddy_mem ch" using l(2) by (auto simp: owned_def)
    have "c \<in> set (hot_list b)" using assms(3) hot_split[OF b(1)] other_hot_owned[OF assms(1) x(1)] x(2) by auto
    then show False using c l(1) by auto
  qed
  moreover have "set (used_list b) \<subseteq> {c, d}" using l(2) owned_dom[of p "buddy_mem ch"] assms(2) by auto
  ultimately have "set (used_list b) = {d}" using b(2) by auto
  moreover have "distinct (used_list b)" using l(1) by simp
  ultimately have "used_list b = [d]" by (metis distinct_card card.empty card_insert_disjoint empty_iff finite.emptyI length_0_conv length_Suc_conv list.set_intros(1) singletonD One_nat_def)
  then show ?thesis using b(1) by blast
qed

theorem icm_free_chunk_effect_witness:
  "\<exists>c1 p1 c2 p2 p3. dr_icm_alloc_chunk good_env 20 demo_pool = Inr (Some c1, p1) \<and> dr_icm_alloc_chunk good_env 20 p1 = Inr (Some c2, p2) \<and>
    dr_icm_free_chunk good_env c1 p2 = Inr p3 \<and> dr_icm_free_chunk good_env c2 p3 = Inl BadPointer"
proof -
  have inv0: "pool_inv demo_pool" by (rule start_inv[OF demo_pool_ok(1)])
  obtain c1 p1 ch1 a1 s1 where p1: "dr_icm_alloc_chunk good_env 20 demo_pool = Inr (Some c1, p1)" "pool_inv p1" "reclaims p1" "icm_type p1 = icm_type demo_pool"
    "max_log_chunk_sz p1 = 20" "hot_memory_size p1 = 0" "chunk_heap p1 = [c1 \<mapsto> ch1]" "chunk_at demo_pool a1 s1 20 ch1"
    using alloc_generous_ok[OF demo_pool_ok(2) inv0, of 20] unfolding demo_pool_ok(3,6,7) using demo_pool_ok(5) by auto
  have es: "entry_size p1 = 64" using p1(4) demo_pool_ok(4) by (simp add: entry_size_def)
  obtain c2 p2 ch2 a2 s2 where p2: "dr_icm_alloc_chunk good_env 20 p1 = Inr (Some c2, p2)" "pool_inv p2" "reclaims p2" "hot_memory_size p2 = 0"
    "chunk_heap p1 c2 = None" "chunk_heap p2 = [c1 \<mapsto> ch1, c2 \<mapsto> ch2]" "chunk_at p1 a2 s2 20 ch2"
    using alloc_generous_ok[OF demo_pool_ok(2) p1(2), of 20] p1(3,5,6,7) by auto
  have sz: "byte_size ch1 = 2 ^ 26" "byte_size ch2 = 2 ^ 26" using demo_size[OF p1(8) demo_pool_ok(4)] demo_size[OF p2(7) es] by simp_all
  have ne: "c1 \<noteq> c2" using p2(5) p1(7) by auto
  have sizes: "bytes q x = (if x \<in> {c1, c2} then 2 ^ 26 else 0)" if "chunk_heap q = chunk_heap p2" for q x using that p2(6) sz by (auto simp: bytes_def)
  have core2: "pool_core p2" using p2(2) by (simp add: pool_inv_def)
  have "hot_chunks p2 = {}"
    by (rule no_hot[OF core2 p2(4), of c1 c2]) (use sizes[OF refl] p2(6) in \<open>auto split: if_splits\<close>)
  then have "c1 \<notin> hot_chunks p2" by simp
  moreover have h1: "chunk_heap p2 c1 = Some ch1" using p2(6) ne by simp
  ultimately obtain b1 where b1: "buddies p2 (buddy_mem ch1) = Some b1" "c1 \<in> set (used_list b1)" using held_used[OF core2] by blast
  have "\<not> syncs good_env p2 ch1" by (simp add: syncs_def p2(4) sz DR_ICM_SYNC_THRESHOLD_POOL_def)
  then obtain p3 where p3: "dr_icm_free_chunk good_env c1 p2 = Inr p3" "pool_inv p3" "reclaims p3" "hot_chunks p3 = {c1}" "chunk_heap p3 = chunk_heap p2"
    using free_chunk_cases[OF p2(2) h1 b1, of good_env] \<open>hot_chunks p2 = {}\<close> p2(3) by auto
  have core3: "pool_core p3" using p3(2) by (simp add: pool_inv_def)
  have h2: "chunk_heap p3 c2 = Some ch2" "dom (chunk_heap p3) = {c1, c2}" using p3(5) p2(6) by auto
  obtain b2 where b2: "buddies p3 (buddy_mem ch2) = Some b2" "used_list b2 = [c2]" using only_used[OF core3 h2(2) p3(4) ne h2(1)] by blast
  have "hot_memory_size p3 = 2 ^ 26" using coreD(9)[OF core3] sizes[OF p3(5)] by (simp add: p3(4))
  then have "syncs good_env p3 ch2" by (simp add: syncs_def sz DR_ICM_SYNC_THRESHOLD_POOL_def good_env_def)
  then have "dr_icm_free_chunk good_env c2 p3 = Inl BadPointer"
    using icm_free_chunk_effect[OF p3(2) h2(1) b2(1), of good_env] b2(2) p3(3) by simp
  then show ?thesis using p1(1) p2(1) p3(1) by blast
qed

end
