(* ===== verification/Arg_Pool.thy ===== *)
theory Arg_Pool
  imports Buddy
begin

text \<open>
  The pools of modify-header arguments in the second half of
  \<open>providers/mlx5/dr_icm_pool.c\<close>. A device object stands for a range of arguments; a pool of
  one chunk size cuts such objects into pieces and keeps the free pieces on a list. The
  manager has a pool for each of the three sizes. A device object is known by the number
  of the call that created it, and the outcomes of the calls are arguments. Every operation holds
  the mutex of its pool throughout.
\<close>

section \<open>State\<close>

record devx_obj =
  handle :: nat
  object_id :: u32

record dr_arg_object =
  arg_obj :: devx_obj
  obj_offset :: nat
  arg_log_size :: nat

record dr_arg_pool =
  log_chunk_size :: nat
  arg_free_list :: "dr_arg_object list"

text \<open>The outcomes of allocations and of creating device objects, by the number of the call.\<close>

record arg_env =
  arg_alloc :: "nat \<Rightarrow> bool"
  arg_devx :: "nat \<Rightarrow> u32 option"
  arg_granularity :: nat

definition DR_ARG_CHUNK_SIZE_MAX :: nat where
  "DR_ARG_CHUNK_SIZE_MAX = 3"

section \<open>Pools\<close>

text \<open>The pieces with the given numbers of one device object; None where an allocation fails.\<close>

fun make_pieces :: "arg_env \<Rightarrow> devx_obj \<Rightarrow> nat \<Rightarrow> nat list \<Rightarrow> nat \<Rightarrow> nat \<times> dr_arg_object list option" where
  "make_pieces env d lg [] t = (t, Some [])"
| "make_pieces env d lg (i # is) t =
    (if \<not> arg_alloc env t then (t + 1, None)
     else
       (let (t, r) = make_pieces env d lg is (t + 1)
        in (t, map_option ((#) \<lparr>arg_obj = d, obj_offset = i * 2 ^ lg, arg_log_size = lg\<rparr>) r)))"

text \<open>
  The result is 0 or an error, with the device objects that live, the number of the next call and
  the pool. The difference of the sizes is unsigned.
\<close>

definition dr_arg_add_new_objects_to_pool ::
  "arg_env \<Rightarrow> nat set \<Rightarrow> nat \<Rightarrow> dr_arg_pool \<Rightarrow> fault + bool \<times> nat set \<times> nat \<times> dr_arg_pool" where
  "dr_arg_add_new_objects_to_pool env live t pool =
    (let object_range = arg_granularity env in
     if object_range < log_chunk_size pool then Inl BadShift
     else
       bindE (shl 1 (object_range - log_chunk_size pool)) (\<lambda>num_of_objects.
       case arg_devx env t of None \<Rightarrow> Inr (False, live, t + 1, pool)
       | Some oid \<Rightarrow>
         (let (t', r) = make_pieces env \<lparr>handle = t, object_id = oid\<rparr> (log_chunk_size pool) [0..<num_of_objects] (t + 1) in
          case r of None \<Rightarrow> Inr (False, live, t', pool)
          | Some cur_list \<Rightarrow> Inr (True, insert t live, t', pool\<lparr>arg_free_list := arg_free_list pool @ cur_list\<rparr>))))"

definition dr_arg_pool_create :: "arg_env \<Rightarrow> nat \<Rightarrow> nat set \<Rightarrow> nat \<Rightarrow> fault + dr_arg_pool option \<times> nat set \<times> nat" where
  "dr_arg_pool_create env chunk_size live t =
    (if \<not> arg_alloc env t then Inr (None, live, t + 1)
     else
       bindE (dr_arg_add_new_objects_to_pool env live (t + 1) \<lparr>log_chunk_size = chunk_size, arg_free_list = []\<rparr>)
         (\<lambda>(ok, live, t, pool). Inr (if ok then Some pool else None, live, t)))"

text \<open>The device object of a range is destroyed with the piece at its start.\<close>

definition dr_arg_pool_destroy :: "dr_arg_pool option \<Rightarrow> nat set \<Rightarrow> fault + nat set" where
  "dr_arg_pool_destroy pool live =
    bindE (orFault NullDeref pool) (\<lambda>pool.
    Inr (live - (\<lambda>x. handle (arg_obj x)) ` set (filter (\<lambda>x. obj_offset x = 0) (arg_free_list pool))))"

definition dr_arg_get_obj_from_pool ::
  "arg_env \<Rightarrow> nat set \<Rightarrow> nat \<Rightarrow> dr_arg_pool \<Rightarrow> fault + dr_arg_object option \<times> nat set \<times> nat \<times> dr_arg_pool" where
  "dr_arg_get_obj_from_pool env live t pool =
    bindE (if arg_free_list pool = [] then dr_arg_add_new_objects_to_pool env live t pool else Inr (True, live, t, pool))
      (\<lambda>(ok, live, t, pool).
        if \<not> ok then Inr (None, live, t, pool)
        else
          (case arg_free_list pool of
             [] \<Rightarrow> Inl AssertFailed
           | x # xs \<Rightarrow> Inr (Some x, live, t, pool\<lparr>arg_free_list := xs\<rparr>)))"

definition dr_arg_put_obj_in_pool :: "dr_arg_object \<Rightarrow> dr_arg_pool \<Rightarrow> dr_arg_pool" where
  "dr_arg_put_obj_in_pool x pool = pool\<lparr>arg_free_list := x # arg_free_list pool\<rparr>"

definition dr_arg_get_object_id :: "dr_arg_object \<Rightarrow> u32" where
  "dr_arg_get_object_id x = object_id (arg_obj x) + of_nat (obj_offset x)"

section \<open>The manager\<close>

record dr_arg_pool_mngr =
  pools :: "dr_arg_pool option list"
  devx_live :: "nat set"
  devx_calls :: nat

definition dr_arg_put_obj :: "dr_arg_object \<Rightarrow> dr_arg_pool_mngr \<Rightarrow> fault + dr_arg_pool_mngr" where
  "dr_arg_put_obj x m =
    bindE (index_at (pools m) (arg_log_size x)) (\<lambda>p.
    bindE (orFault NullDeref p) (\<lambda>p.
    Inr (m\<lparr>pools := (pools m)[arg_log_size x := Some (dr_arg_put_obj_in_pool x p)]\<rparr>)))"

definition dr_arg_get_obj :: "arg_env \<Rightarrow> nat \<Rightarrow> dr_arg_pool_mngr \<Rightarrow> fault + dr_arg_object option \<times> dr_arg_pool_mngr" where
  "dr_arg_get_obj env sz m =
    (if sz \<ge> DR_ARG_CHUNK_SIZE_MAX then Inr (None, m)
     else
       bindE (index_at (pools m) sz) (\<lambda>p.
       bindE (orFault NullDeref p) (\<lambda>p.
       bindE (dr_arg_get_obj_from_pool env (devx_live m) (devx_calls m) p) (\<lambda>(x, live, t, p).
       Inr (x, m\<lparr>pools := (pools m)[sz := Some p], devx_live := live, devx_calls := t\<rparr>)))))"

text \<open>The clean-up after a failure at pool \<open>i\<close> destroys the pools \<open>i\<close> down to 1.\<close>

fun clean_pools :: "nat \<Rightarrow> dr_arg_pool_mngr \<Rightarrow> fault + dr_arg_pool_mngr" where
  "clean_pools 0 m = Inr m"
| "clean_pools (Suc i) m =
    bindE (index_at (pools m) (Suc i)) (\<lambda>p.
    bindE (dr_arg_pool_destroy p (devx_live m)) (\<lambda>live.
    clean_pools i (m\<lparr>devx_live := live\<rparr>)))"

fun create_pools :: "arg_env \<Rightarrow> nat list \<Rightarrow> dr_arg_pool_mngr \<Rightarrow> fault + bool \<times> dr_arg_pool_mngr" where
  "create_pools env [] m = Inr (True, m)"
| "create_pools env (i # is) m =
    bindE (dr_arg_pool_create env i (devx_live m) (devx_calls m)) (\<lambda>(p, live, t).
    let m = m\<lparr>pools := (pools m)[i := p], devx_live := live, devx_calls := t\<rparr> in
    if p = None then bindE (clean_pools i m) (\<lambda>m. Inr (False, m))
    else create_pools env is m)"

definition dr_arg_pool_mngr_create :: "arg_env \<Rightarrow> nat \<Rightarrow> fault + dr_arg_pool_mngr option" where
  "dr_arg_pool_mngr_create env t =
    (if \<not> arg_alloc env t then Inr None
     else
       bindE (create_pools env [0..<DR_ARG_CHUNK_SIZE_MAX] \<lparr>pools = replicate DR_ARG_CHUNK_SIZE_MAX None, devx_live = {}, devx_calls = t + 1\<rparr>)
         (\<lambda>(ok, m). Inr (if ok then Some m else None)))"

definition dr_arg_pool_mngr_destroy :: "dr_arg_pool_mngr \<Rightarrow> fault + nat set" where
  "dr_arg_pool_mngr_destroy m =
    foldE (\<lambda>i live. bindE (index_at (pools m) i) (\<lambda>p. dr_arg_pool_destroy p live)) [0..<DR_ARG_CHUNK_SIZE_MAX] (devx_live m)"

section \<open>The invariant\<close>

definition span :: "dr_arg_object \<Rightarrow> nat set" where
  "span x = run (obj_offset x) (arg_log_size x)"

definition piece_key :: "dr_arg_object \<Rightarrow> nat \<times> nat" where
  "piece_key x = (handle (arg_obj x), obj_offset x)"

definition piece_ok :: "arg_env \<Rightarrow> nat \<Rightarrow> dr_arg_object \<Rightarrow> bool" where
  "piece_ok env t x \<longleftrightarrow> arg_log_size x < DR_ARG_CHUNK_SIZE_MAX \<and> 2 ^ arg_log_size x dvd obj_offset x \<and>
     span x \<subseteq> {..<2 ^ arg_granularity env} \<and> handle (arg_obj x) < t"

definition pool_at :: "dr_arg_pool_mngr \<Rightarrow> nat \<Rightarrow> dr_arg_pool" where
  "pool_at m i = the (pools m ! i)"

definition free_at :: "dr_arg_pool_mngr \<Rightarrow> nat \<Rightarrow> dr_arg_object list" where
  "free_at m i = arg_free_list (pool_at m i)"

definition pieces :: "dr_arg_pool_mngr \<Rightarrow> dr_arg_object list \<Rightarrow> dr_arg_object set" where
  "pieces m held = set held \<union> (\<Union>i<3. set (free_at m i))"

text \<open>
  The manager and the pieces its clients hold: every pool has the pieces of its size, no
  piece is twice on a list or both held and free, and the pieces of one device object have one size.
\<close>

definition arg_inv :: "arg_env \<Rightarrow> dr_arg_pool_mngr \<times> dr_arg_object list \<Rightarrow> bool" where
  "arg_inv env = (\<lambda>(m, held).
     length (pools m) = 3 \<and>
     (\<forall>i<3. pools m ! i = Some (pool_at m i) \<and> log_chunk_size (pool_at m i) = i \<and>
        distinct (map piece_key (free_at m i)) \<and> (\<forall>x\<in>set (free_at m i). arg_log_size x = i \<and> piece_key x \<notin> piece_key ` set held)) \<and>
     distinct (map piece_key held) \<and>
     (\<forall>x\<in>pieces m held. piece_ok env (devx_calls m) x) \<and>
     (\<forall>x\<in>pieces m held. \<forall>y\<in>pieces m held. handle (arg_obj x) = handle (arg_obj y) \<longrightarrow> arg_log_size x = arg_log_size y))"

lemma arg_invD:
  assumes "arg_inv env (m, held)"
  shows "length (pools m) = 3" "\<And>i. i < 3 \<Longrightarrow> pools m ! i = Some (pool_at m i)" "\<And>i. i < 3 \<Longrightarrow> log_chunk_size (pool_at m i) = i"
    "\<And>i. i < 3 \<Longrightarrow> distinct (map piece_key (free_at m i))" "\<And>i x. i < 3 \<Longrightarrow> x \<in> set (free_at m i) \<Longrightarrow> arg_log_size x = i \<and> piece_key x \<notin> piece_key ` set held"
    "distinct (map piece_key held)" "\<And>x. x \<in> pieces m held \<Longrightarrow> piece_ok env (devx_calls m) x"
    "\<And>x y. x \<in> pieces m held \<Longrightarrow> y \<in> pieces m held \<Longrightarrow> handle (arg_obj x) = handle (arg_obj y) \<Longrightarrow> arg_log_size x = arg_log_size y"
  using assms unfolding arg_inv_def prod.case by blast+

lemma arg_invI:
  assumes "length (pools m) = 3" "\<And>i. i < 3 \<Longrightarrow> pools m ! i = Some (pool_at m i)" "\<And>i. i < 3 \<Longrightarrow> log_chunk_size (pool_at m i) = i"
    "\<And>i. i < 3 \<Longrightarrow> distinct (map piece_key (free_at m i))" "\<And>i x. i < 3 \<Longrightarrow> x \<in> set (free_at m i) \<Longrightarrow> arg_log_size x = i \<and> piece_key x \<notin> piece_key ` set held"
    "distinct (map piece_key held)" "\<And>x. x \<in> pieces m held \<Longrightarrow> piece_ok env (devx_calls m) x"
    "\<And>x y. x \<in> pieces m held \<Longrightarrow> y \<in> pieces m held \<Longrightarrow> handle (arg_obj x) = handle (arg_obj y) \<Longrightarrow> arg_log_size x = arg_log_size y"
  shows "arg_inv env (m, held)"
  using assms unfolding arg_inv_def prod.case by blast

text \<open>Different pieces never share an argument.\<close>

lemma aligned_disjoint:
  assumes "2 ^ k dvd s" "2 ^ k dvd t" "s \<noteq> t"
  shows "run s k \<inter> run t k = {}"
proof -
  obtain i j where ij: "s = i * 2 ^ k" "t = j * 2 ^ k" using assms(1,2) by (metis dvd_def mult.commute)
  then have "i \<noteq> j" using assms(3) by auto
  then show ?thesis unfolding ij run_block by (auto simp: block_iff)
qed

lemma inv_key_inj:
  assumes "arg_inv env (m, held)" "x \<in> pieces m held" "y \<in> pieces m held" "piece_key x = piece_key y"
  shows "x = y"
proof -
  note d = arg_invD[OF assms(1)]
  have lg: "arg_log_size x = arg_log_size y" using d(8)[OF assms(2,3)] assms(4) by (simp add: piece_key_def)
  have inj: "inj_on piece_key (set held)" "\<And>i. i < 3 \<Longrightarrow> inj_on piece_key (set (free_at m i))" using d(4,6) by (auto simp: distinct_map)
  have fr: "z \<in> set (free_at m (arg_log_size z)) \<and> arg_log_size z < 3" if "z \<in> pieces m held" "z \<notin> set held" for z
    using that d(5) by (fastforce simp: pieces_def)
  show ?thesis
  proof (cases "x \<in> set held")
    case True
    then have "y \<in> set held" using fr[OF assms(3)] d(5) assms(4) by (metis image_eqI)
    then show ?thesis using inj(1) True assms(4) by (auto dest: inj_onD)
  next
    case False
    then have "y \<notin> set held" using fr[OF assms(2)] d(5) assms(4) by (metis image_eqI)
    then show ?thesis using fr[OF assms(2) False] fr[OF assms(3)] lg inj(2) assms(4) by (auto dest: inj_onD)
  qed
qed

lemma pieces_disjoint:
  assumes "arg_inv env (m, held)" "x \<in> pieces m held" "y \<in> pieces m held" "x \<noteq> y" "handle (arg_obj x) = handle (arg_obj y)"
  shows "span x \<inter> span y = {}"
proof -
  note d = arg_invD[OF assms(1)]
  have lg: "arg_log_size x = arg_log_size y" by (rule d(8)[OF assms(2,3,5)])
  have "obj_offset x \<noteq> obj_offset y" using inv_key_inj[OF assms(1-3)] assms(4,5) by (auto simp: piece_key_def)
  then show ?thesis using d(7)[OF assms(2)] d(7)[OF assms(3)] lg unfolding span_def piece_ok_def by (simp add: aligned_disjoint)
qed

section \<open>Preservation\<close>

lemma make_pieces_ok:
  "\<exists>t' r. make_pieces env d lg is t = (t', r) \<and> t \<le> t' \<and>
    (r = None \<or> r = Some (map (\<lambda>i. \<lparr>arg_obj = d, obj_offset = i * 2 ^ lg, arg_log_size = lg\<rparr>) is))"
proof (induction "is" arbitrary: t)
  case (Cons i "is")
  show ?case
  proof (cases "arg_alloc env t")
    case True
    obtain t' r where "make_pieces env d lg is (t + 1) = (t', r)" "t + 1 \<le> t'"
      "r = None \<or> r = Some (map (\<lambda>i. \<lparr>arg_obj = d, obj_offset = i * 2 ^ lg, arg_log_size = lg\<rparr>) is)" using Cons.IH by blast
    then show ?thesis using True by auto
  qed simp
qed simp

text \<open>
  The ranges the properties are about: a device object has room for a piece of each size, and its
  arguments are numbered within an int.
\<close>

definition roomy :: "arg_env \<Rightarrow> bool" where
  "roomy env \<longleftrightarrow> 2 \<le> arg_granularity env \<and> arg_granularity env \<le> 30"

definition new_pieces :: "arg_env \<Rightarrow> devx_obj \<Rightarrow> nat \<Rightarrow> dr_arg_object list" where
  "new_pieces env d lg = map (\<lambda>i. \<lparr>arg_obj = d, obj_offset = i * 2 ^ lg, arg_log_size = lg\<rparr>) [0..<2 ^ (arg_granularity env - lg)]"

lemma new_pieces_ok:
  assumes "roomy env" "lg < 3" "handle d < t"
  shows "distinct (map piece_key (new_pieces env d lg))" "\<And>x. x \<in> set (new_pieces env d lg) \<Longrightarrow> piece_ok env t x \<and> arg_log_size x = lg \<and> arg_obj x = d"
    and "new_pieces env d lg \<noteq> []"
proof -
  show "distinct (map piece_key (new_pieces env d lg))"
    by (auto simp: new_pieces_def distinct_map o_def piece_key_def inj_on_def)
  show "new_pieces env d lg \<noteq> []" by (simp add: new_pieces_def)
  fix x assume "x \<in> set (new_pieces env d lg)"
  then obtain i where i: "i < 2 ^ (arg_granularity env - lg)" "x = \<lparr>arg_obj = d, obj_offset = i * 2 ^ lg, arg_log_size = lg\<rparr>" by (auto simp: new_pieces_def)
  have "(i + 1) * 2 ^ lg \<le> 2 ^ (arg_granularity env - lg) * 2 ^ lg" using i(1) by (intro mult_le_mono1) simp
  also have "\<dots> = 2 ^ arg_granularity env" using assms(1,2) by (simp add: roomy_def flip: power_add)
  finally have "block lg i \<subseteq> {..<2 ^ arg_granularity env}" by (auto simp: block_def)
  then show "piece_ok env t x \<and> arg_log_size x = lg \<and> arg_obj x = d"
    using i(2) assms(2,3) by (simp add: piece_ok_def span_def run_block DR_ARG_CHUNK_SIZE_MAX_def)
qed

lemma add_objects_ok:
  assumes "roomy env" "log_chunk_size p < 3"
  shows "\<exists>live' t'. t < t' \<and> (dr_arg_add_new_objects_to_pool env live t p = Inr (False, live', t', p) \<or>
    (\<exists>oid. dr_arg_add_new_objects_to_pool env live t p = Inr (True, live', t',
        p\<lparr>arg_free_list := arg_free_list p @ new_pieces env \<lparr>handle = t, object_id = oid\<rparr> (log_chunk_size p)\<rparr>)))"
proof -
  let ?g = "arg_granularity env"
  have g: "\<not> ?g < log_chunk_size p" "?g \<le> 30" using assms by (simp_all add: roomy_def)
  have sh: "shl 1 (?g - log_chunk_size p) = Inr (2 ^ (?g - log_chunk_size p))" using shl_1[OF g(2)] by simp
  show ?thesis
  proof (cases "arg_devx env t")
    case None
    then show ?thesis using g(1) sh by (auto simp: dr_arg_add_new_objects_to_pool_def Let_def)
  next
    case (Some oid)
    let ?d = "\<lparr>handle = t, object_id = oid\<rparr>"
    obtain t' r where r: "make_pieces env ?d (log_chunk_size p) [0..<2 ^ (?g - log_chunk_size p)] (t + 1) = (t', r)" "t + 1 \<le> t'"
      "r = None \<or> r = Some (new_pieces env ?d (log_chunk_size p))" unfolding new_pieces_def using make_pieces_ok by blast
    show ?thesis
    proof (cases r)
      case None
      then show ?thesis using Some g(1) sh r(1,2) by (auto simp: dr_arg_add_new_objects_to_pool_def Let_def)
    next
      case (Some xs)
      then have "dr_arg_add_new_objects_to_pool env live t p = Inr (True, insert t live, t', p\<lparr>arg_free_list := arg_free_list p @ new_pieces env ?d (log_chunk_size p)\<rparr>)"
        using \<open>arg_devx env t = Some oid\<close> g(1) sh r by (simp add: dr_arg_add_new_objects_to_pool_def Let_def)
      then show ?thesis using r(2) by (intro exI[of _ "insert t live"] exI[of _ t']) auto
    qed
  qed
qed

text \<open>Replacing the free list of one pool.\<close>

definition with_free :: "nat \<Rightarrow> dr_arg_object list \<Rightarrow> dr_arg_pool_mngr \<Rightarrow> dr_arg_pool_mngr" where
  "with_free i xs m = m\<lparr>pools := (pools m)[i := Some ((pool_at m i)\<lparr>arg_free_list := xs\<rparr>)]\<rparr>"

lemma with_free_sel:
  assumes "arg_inv env (m, held)" "i < 3"
  shows "length (pools (with_free i xs m)) = 3" "\<And>j. j < 3 \<Longrightarrow> pools (with_free i xs m) ! j = Some (pool_at (with_free i xs m) j)"
    "\<And>j. j < 3 \<Longrightarrow> log_chunk_size (pool_at (with_free i xs m) j) = j" "\<And>j. j < 3 \<Longrightarrow> free_at (with_free i xs m) j = (if j = i then xs else free_at m j)"
  using arg_invD(1-3)[OF assms(1)] assms(2) by (auto simp: with_free_def pool_at_def free_at_def nth_list_update)

lemma piece_ok_mono: "piece_ok env t x \<Longrightarrow> t \<le> t' \<Longrightarrow> piece_ok env t' x"
  by (auto simp: piece_ok_def)

lemma pieces_with_free:
  assumes "arg_inv env (m, held)" "i < 3"
  shows "pieces (with_free i xs m) held' = set held' \<union> set xs \<union> (\<Union>j\<in>{..<3} - {i}. set (free_at m j))"
  using with_free_sel(4)[OF assms] assms(2) by (auto simp: pieces_def split: if_splits)

lemma pieces_split: "i < 3 \<Longrightarrow> pieces m held = set held \<union> set (free_at m i) \<union> (\<Union>j\<in>{..<3} - {i}. set (free_at m j))"
  by (auto simp: pieces_def)

lemma inv_calls:
  assumes "arg_inv env (m, held)" "devx_calls m \<le> t"
  shows "arg_inv env (m\<lparr>devx_live := live, devx_calls := t\<rparr>, held)"
proof -
  let ?q = "m\<lparr>devx_live := live, devx_calls := t\<rparr>"
  have sel: "pool_at ?q j = pool_at m j" "free_at ?q j = free_at m j" "pieces ?q held = pieces m held" "pools ?q = pools m" "devx_calls ?q = t" for j
    by (simp_all add: pool_at_def free_at_def pieces_def)
  show ?thesis
  proof (rule arg_invI, unfold sel)
  qed (use arg_invD[OF assms(1)] piece_ok_mono[OF _ assms(2)] in blast)+
qed

lemma inv_grow:
  assumes inv: "arg_inv env (m, held)" and i: "i < 3" and r: "roomy env" and t: "devx_calls m < t"
    and d: "d = \<lparr>handle = devx_calls m, object_id = oid\<rparr>"
  shows "arg_inv env ((with_free i (free_at m i @ new_pieces env d i) m)\<lparr>devx_live := live, devx_calls := t\<rparr>, held)"
proof -
  note v = arg_invD[OF inv]
  have "handle d < t" using d t by simp
  note n = new_pieces_ok[OF r i this]
  let ?m = "with_free i (free_at m i @ new_pieces env d i) m"
  note w = with_free_sel[OF inv i, where xs = "free_at m i @ new_pieces env d i"]
  have old: "handle (arg_obj x) < devx_calls m" if "x \<in> pieces m held" for x using v(7)[OF that] by (simp add: piece_ok_def)
  have new: "handle (arg_obj x) = devx_calls m" if "x \<in> set (new_pieces env d i)" for x using n(2)[OF that] d by simp
  have P: "pieces ?m held = pieces m held \<union> set (new_pieces env d i)" unfolding pieces_with_free[OF inv i] pieces_split[OF i, of m held] by auto
  have sub: "set (free_at m i) \<subseteq> pieces m held" "set held \<subseteq> pieces m held" using i by (auto simp: pieces_def)
  have fresh: "piece_key x \<noteq> piece_key y" if "x \<in> set (new_pieces env d i)" "y \<in> pieces m held" for x y
    using new[OF that(1)] old[OF that(2)] by (auto simp: piece_key_def)
  have fo: "piece_key ` set (free_at m i) \<inter> piece_key ` set (new_pieces env d i) = {}"
  proof -
    have "piece_key y \<noteq> piece_key x" if "y \<in> set (free_at m i)" "x \<in> set (new_pieces env d i)" for x y using fresh[OF that(2), of y] that(1) sub(1) by auto
    then show ?thesis by blast
  qed
  let ?q = "?m\<lparr>devx_live := live, devx_calls := t\<rparr>"
  have sel: "pool_at ?q j = pool_at ?m j" "free_at ?q j = free_at ?m j" "pieces ?q held = pieces ?m held" "pools ?q = pools ?m" for j
    by (simp_all add: pool_at_def free_at_def pieces_def)
  show ?thesis
  proof (rule arg_invI, unfold sel)
    fix j assume j: "j < (3 :: nat)"
    show "distinct (map piece_key (free_at ?m j))"
      using v(4)[OF j] n(1) fo unfolding w(4)[OF j] by (cases "j = i") (simp_all add: distinct_append)
    show "arg_log_size x = j \<and> piece_key x \<notin> piece_key ` set held" if x: "x \<in> set (free_at ?m j)" for x
    proof (cases "x \<in> set (free_at m j)")
      case True
      then show ?thesis by (rule v(5)[OF j])
    next
      case False
      then have xn: "x \<in> set (new_pieces env d i)" "j = i" using x unfolding w(4)[OF j] by (auto split: if_splits)
      have "piece_key x \<notin> piece_key ` set held" using fresh[OF xn(1)] sub(2) by blast
      then show ?thesis using n(2)[OF xn(1)] xn(2) by blast
    qed
  next
    fix x assume "x \<in> pieces ?m held"
    then consider "x \<in> pieces m held" | "x \<in> set (new_pieces env d i)" unfolding P by blast
    then show "piece_ok env (devx_calls ?q) x"
    proof cases
      case 1
      then show ?thesis using piece_ok_mono[OF v(7)[OF 1], of t] t by simp
    next
      case 2
      then show ?thesis using n(2)[OF 2] by simp
    qed
  next
    fix x y assume xy: "x \<in> pieces ?m held" "y \<in> pieces ?m held" "handle (arg_obj x) = handle (arg_obj y)"
    consider "x \<in> pieces m held" "y \<in> pieces m held" | "x \<in> set (new_pieces env d i)" "y \<in> set (new_pieces env d i)"
      using xy old[of x] old[of y] new[of x] new[of y] unfolding P by fastforce
    then show "arg_log_size x = arg_log_size y" using v(8)[of x y] n(2)[of x] n(2)[of y] xy(3) by cases simp_all
  qed (use w v(6) in simp_all)
qed

lemma inv_pop:
  assumes inv: "arg_inv env (m, held)" and i: "i < 3" and x: "free_at m i = x # xs"
  shows "arg_inv env (with_free i xs m, x # held)"
proof -
  note v = arg_invD[OF inv] and w = with_free_sel[OF inv i, where xs = xs]
  have P: "pieces (with_free i xs m) (x # held) = pieces m held" unfolding pieces_with_free[OF inv i] pieces_split[OF i, of m held] using x by auto
  have xi: "x \<in> set (free_at m i)" "x \<in> pieces m held" using x pieces_split[OF i, of m held] by auto
  show ?thesis
  proof (rule arg_invI, unfold P)
    fix j assume j: "j < (3 :: nat)"
    show "distinct (map piece_key (free_at (with_free i xs m) j))" using v(4)[OF j] v(4)[OF i] x by (auto simp: w(4)[OF j])
    show "arg_log_size y = j \<and> piece_key y \<notin> piece_key ` set (x # held)" if y: "y \<in> set (free_at (with_free i xs m) j)" for y
    proof -
      have y': "y \<in> set (free_at m j)" using y x unfolding w(4)[OF j] by (auto split: if_splits)
      then have yp: "y \<in> pieces m held" unfolding pieces_def using j by blast
      have "piece_key y \<noteq> piece_key x"
      proof
        assume k: "piece_key y = piece_key x"
        then have "y = x" by (rule inv_key_inj[OF inv yp xi(2)])
        then have "j = i" using v(5)[OF j y'] v(5)[OF i xi(1)] by simp
        then show False using y \<open>y = x\<close> v(4)[OF i] x unfolding w(4)[OF j] by auto
      qed
      then show ?thesis using v(5)[OF j y'] by auto
    qed
  next
    show "distinct (map piece_key (x # held))" using v(6) v(5)[OF i xi(1)] by simp
  next
    show "piece_ok env (devx_calls (with_free i xs m)) y" if "y \<in> pieces m held" for y using v(7)[OF that] by (simp add: with_free_def)
  next
    show "arg_log_size y = arg_log_size z" if "y \<in> pieces m held" "z \<in> pieces m held" "handle (arg_obj y) = handle (arg_obj z)" for y z by (rule v(8)[OF that])
  qed (use w in simp_all)
qed

lemma inv_put:
  assumes inv: "arg_inv env (m, held)" and x: "x \<in> set held"
  shows "arg_log_size x < 3" "arg_inv env (with_free (arg_log_size x) (x # free_at m (arg_log_size x)) m, remove1 x held)"
proof -
  note v = arg_invD[OF inv]
  let ?i = "arg_log_size x" and ?xs = "x # free_at m (arg_log_size x)"
  have xp: "x \<in> pieces m held" using x by (simp add: pieces_def)
  show i: "?i < 3" using v(7)[OF xp] by (simp add: piece_ok_def DR_ARG_CHUNK_SIZE_MAX_def)
  note w = with_free_sel[OF inv i, where xs = ?xs]
  have dh: "distinct held" using v(6) by (simp add: distinct_map)
  have hs: "set (remove1 x held) = set held - {x}" using dh by simp
  have P: "pieces (with_free ?i ?xs m) (remove1 x held) = pieces m held" unfolding pieces_with_free[OF inv i] pieces_split[OF i, of m held] hs using x by auto
  have nx: "piece_key x \<notin> piece_key ` set (remove1 x held)" using v(6) x unfolding hs distinct_map inj_on_def by auto
  show "arg_inv env (with_free ?i ?xs m, remove1 x held)"
  proof (rule arg_invI, unfold P)
    fix j assume j: "j < (3 :: nat)"
    have "piece_key x \<notin> piece_key ` set (free_at m j)"
    proof
      assume "piece_key x \<in> piece_key ` set (free_at m j)"
      then obtain y where "y \<in> set (free_at m j)" "piece_key y = piece_key x" by force
      then show False using v(5)[OF j, of y] x by auto
    qed
    then show "distinct (map piece_key (free_at (with_free ?i ?xs m) j))" using v(4)[OF j] unfolding w(4)[OF j] by (cases "j = ?i") simp_all
    show "arg_log_size y = j \<and> piece_key y \<notin> piece_key ` set (remove1 x held)" if y: "y \<in> set (free_at (with_free ?i ?xs m) j)" for y
    proof (cases "y \<in> set (free_at m j)")
      case True
      then show ?thesis using v(5)[OF j True] unfolding hs by blast
    next
      case False
      then have "y = x" "j = ?i" using y unfolding w(4)[OF j] by (auto split: if_splits)
      then show ?thesis using nx by simp
    qed
  next
    show "distinct (map piece_key (remove1 x held))" using v(6) unfolding distinct_map hs by (simp add: inj_on_diff)
  next
    show "piece_ok env (devx_calls (with_free ?i ?xs m)) y" if "y \<in> pieces m held" for y using v(7)[OF that] by (simp add: with_free_def)
  next
    show "arg_log_size y = arg_log_size z" if "y \<in> pieces m held" "z \<in> pieces m held" "handle (arg_obj y) = handle (arg_obj z)" for y z by (rule v(8)[OF that])
  qed (use w in simp_all)
qed

section \<open>The operations of the manager\<close>

lemma get_from_pool_ok:
  assumes "arg_inv env (m, held)" "roomy env" "i < 3"
  shows "\<exists>r live t p. dr_arg_get_obj_from_pool env (devx_live m) (devx_calls m) (pool_at m i) = Inr (r, live, t, p) \<and>
    (let q = m\<lparr>pools := (pools m)[i := Some p], devx_live := live, devx_calls := t\<rparr> in
     case r of None \<Rightarrow> arg_inv env (q, held) | Some x \<Rightarrow> arg_inv env (q, x # held) \<and> arg_log_size x = i)"
proof (cases "free_at m i")
  case (Cons x xs)
  note v = arg_invD[OF assms(1)]
  have "arg_inv env ((with_free i xs m)\<lparr>devx_live := devx_live m, devx_calls := devx_calls m\<rparr>, x # held)"
    by (rule inv_calls[OF inv_pop[OF assms(1,3) Cons]]) (simp add: with_free_def)
  moreover have "arg_log_size x = i" using v(5)[OF assms(3), of x] Cons by simp
  ultimately show ?thesis using Cons by (simp add: dr_arg_get_obj_from_pool_def with_free_def free_at_def Let_def)
next
  case Nil
  note v = arg_invD[OF assms(1)]
  have lg: "log_chunk_size (pool_at m i) = i" by (rule v(3)[OF assms(3)])
  have nil: "arg_free_list (pool_at m i) = []" using Nil by (simp add: free_at_def)
  have pm: "(pools m)[i := Some (pool_at m i)] = pools m" using v(2)[OF assms(3)] by (metis list_update_id)
  have lg3: "log_chunk_size (pool_at m i) < 3" using lg assms(3) by simp
  obtain live t where t: "devx_calls m < t" and or:
    "dr_arg_add_new_objects_to_pool env (devx_live m) (devx_calls m) (pool_at m i) = Inr (False, live, t, pool_at m i) \<or>
     (\<exists>oid. dr_arg_add_new_objects_to_pool env (devx_live m) (devx_calls m) (pool_at m i) = Inr (True, live, t,
        (pool_at m i)\<lparr>arg_free_list := new_pieces env \<lparr>handle = devx_calls m, object_id = oid\<rparr> i\<rparr>))"
    using add_objects_ok[OF assms(2) lg3, where t = "devx_calls m" and live = "devx_live m"] unfolding lg nil append_Nil by blast
  from or show ?thesis
  proof
    assume "dr_arg_add_new_objects_to_pool env (devx_live m) (devx_calls m) (pool_at m i) = Inr (False, live, t, pool_at m i)"
    then show ?thesis using inv_calls[OF assms(1), of t live] t nil pm by (simp add: dr_arg_get_obj_from_pool_def Let_def)
  next
    assume "\<exists>oid. dr_arg_add_new_objects_to_pool env (devx_live m) (devx_calls m) (pool_at m i) = Inr (True, live, t,
        (pool_at m i)\<lparr>arg_free_list := new_pieces env \<lparr>handle = devx_calls m, object_id = oid\<rparr> i\<rparr>)"
    then obtain oid where add: "dr_arg_add_new_objects_to_pool env (devx_live m) (devx_calls m) (pool_at m i) = Inr (True, live, t,
        (pool_at m i)\<lparr>arg_free_list := new_pieces env \<lparr>handle = devx_calls m, object_id = oid\<rparr> i\<rparr>)" by blast
    let ?d = "\<lparr>handle = devx_calls m, object_id = oid\<rparr>"
    let ?q = "(with_free i (new_pieces env ?d i) m)\<lparr>devx_live := live, devx_calls := t\<rparr>"
    have inv: "arg_inv env (?q, held)" using inv_grow[OF assms(1,3,2) t, of ?d oid live] Nil by simp
    have f: "free_at ?q i = new_pieces env ?d i" using v(1) assms(3) by (simp add: free_at_def pool_at_def with_free_def)
    obtain x xs where x: "new_pieces env ?d i = x # xs" using new_pieces_ok(3)[OF assms(2,3), of ?d t] t by (auto simp: neq_Nil_conv)
    have "arg_inv env (with_free i xs ?q, x # held)" using inv_pop[OF inv assms(3)] f x by simp
    moreover have "with_free i xs ?q = m\<lparr>pools := (pools m)[i := Some ((pool_at m i)\<lparr>arg_free_list := xs\<rparr>)], devx_live := live, devx_calls := t\<rparr>"
      using v(1) assms(3) by (simp add: with_free_def pool_at_def)
    moreover have "arg_log_size x = i" using new_pieces_ok(2)[OF assms(2,3), of ?d t x] t x by simp
    ultimately show ?thesis using add nil x by (simp add: dr_arg_get_obj_from_pool_def Let_def)
  qed
qed

lemma get_obj_ok:
  assumes "arg_inv env (m, held)" "roomy env"
  shows "\<exists>r q. dr_arg_get_obj env sz m = Inr (r, q) \<and>
    (case r of None \<Rightarrow> arg_inv env (q, held) | Some x \<Rightarrow> arg_inv env (q, x # held) \<and> arg_log_size x = sz)"
proof (cases "sz < 3")
  case True
  note v = arg_invD[OF assms(1)]
  have "index_at (pools m) sz = Inr (Some (pool_at m sz))" using v(1) v(2)[OF True] True by (simp add: index_at_def)
  then show ?thesis using get_from_pool_ok[OF assms True] True
    by (fastforce simp: dr_arg_get_obj_def DR_ARG_CHUNK_SIZE_MAX_def Let_def)
qed (use assms in \<open>simp add: dr_arg_get_obj_def DR_ARG_CHUNK_SIZE_MAX_def\<close>)

lemma put_obj_ok:
  assumes "arg_inv env (m, held)" "x \<in> set held"
  shows "\<exists>q. dr_arg_put_obj x m = Inr q \<and> arg_inv env (q, remove1 x held)"
proof -
  note v = arg_invD[OF assms(1)] and i = inv_put(1)[OF assms]
  have "index_at (pools m) (arg_log_size x) = Inr (Some (pool_at m (arg_log_size x)))" using v(1) v(2)[OF i] i by (simp add: index_at_def)
  then have "dr_arg_put_obj x m = Inr (with_free (arg_log_size x) (x # free_at m (arg_log_size x)) m)"
    by (simp add: dr_arg_put_obj_def dr_arg_put_obj_in_pool_def with_free_def free_at_def)
  then show ?thesis using inv_put(2)[OF assms] by blast
qed

section \<open>Creation\<close>

lemma pool_create_ok:
  assumes "roomy env" "i < 3"
  shows "\<exists>p live' t'. dr_arg_pool_create env i live t = Inr (p, live', t') \<and> t < t' \<and>
    (p = None \<or> t + 1 < t' \<and> (\<exists>oid. p = Some \<lparr>log_chunk_size = i, arg_free_list = new_pieces env \<lparr>handle = t + 1, object_id = oid\<rparr> i\<rparr>))"
proof (cases "arg_alloc env t")
  case True
  let ?p = "\<lparr>log_chunk_size = i, arg_free_list = []\<rparr> :: dr_arg_pool"
  have "log_chunk_size ?p < 3" using assms(2) by simp
  from add_objects_ok[OF assms(1) this, of "t + 1" live] obtain live' t' where t: "t + 1 < t'" and
    or: "dr_arg_add_new_objects_to_pool env live (t + 1) ?p = Inr (False, live', t', ?p) \<or>
      (\<exists>oid. dr_arg_add_new_objects_to_pool env live (t + 1) ?p = Inr (True, live', t',
        \<lparr>log_chunk_size = i, arg_free_list = new_pieces env \<lparr>handle = t + 1, object_id = oid\<rparr> i\<rparr>))" by auto
  from or show ?thesis using True t by (auto simp: dr_arg_pool_create_def)
qed (simp add: dr_arg_pool_create_def)

text \<open>A manager under construction, with an empty pool in each place that has none yet.\<close>

definition filled :: "dr_arg_pool_mngr \<Rightarrow> dr_arg_pool_mngr" where
  "filled m = m\<lparr>pools := map (\<lambda>i. case pools m ! i of None \<Rightarrow> Some \<lparr>log_chunk_size = i, arg_free_list = []\<rparr> | Some p \<Rightarrow> Some p) [0..<3]\<rparr>"

lemma filled_full: "length (pools m) = 3 \<Longrightarrow> (\<And>j. j < 3 \<Longrightarrow> pools m ! j \<noteq> None) \<Longrightarrow> filled m = m"
proof -
  assume a: "length (pools m) = 3" "\<And>j. j < 3 \<Longrightarrow> pools m ! j \<noteq> None"
  have "map (\<lambda>i. case pools m ! i of None \<Rightarrow> Some \<lparr>log_chunk_size = i, arg_free_list = []\<rparr> | Some p \<Rightarrow> Some p) [0..<3] = pools m"
    using a by (intro nth_equalityI) (auto split: option.splits)
  then show ?thesis by (simp add: filled_def)
qed

lemma filled_add:
  assumes "length (pools m) = 3" "i < 3" "pools m ! i = None"
  shows "filled (m\<lparr>pools := (pools m)[i := Some \<lparr>log_chunk_size = i, arg_free_list = xs\<rparr>], devx_live := live, devx_calls := t\<rparr>) =
    (with_free i (free_at (filled m) i @ xs) (filled m))\<lparr>devx_live := live, devx_calls := t\<rparr>"
proof -
  have "free_at (filled m) i = []" "log_chunk_size (pool_at (filled m) i) = i"
    using assms by (simp_all add: filled_def free_at_def pool_at_def)
  moreover have "pool_at (filled m) i = \<lparr>log_chunk_size = i, arg_free_list = []\<rparr>" using assms by (simp add: filled_def pool_at_def)
  ultimately have w: "with_free i (free_at (filled m) i @ xs) (filled m) =
      (filled m)\<lparr>pools := (pools (filled m))[i := Some \<lparr>log_chunk_size = i, arg_free_list = xs\<rparr>]\<rparr>"
    by (simp add: with_free_def)
  have "pools (filled (m\<lparr>pools := (pools m)[i := Some \<lparr>log_chunk_size = i, arg_free_list = xs\<rparr>], devx_live := live, devx_calls := t\<rparr>)) =
      (pools (filled m))[i := Some \<lparr>log_chunk_size = i, arg_free_list = xs\<rparr>]"
    using assms(1,2) by (intro nth_equalityI) (simp_all add: filled_def nth_list_update)
  then show ?thesis unfolding w by (intro dr_arg_pool_mngr.equality) (simp_all add: filled_def)
qed

lemma filled_grow:
  assumes "roomy env" "length (pools m) = 3" "i < 3" "pools m ! i = None" "arg_inv env (filled m, [])" "devx_calls m + 1 < t"
  shows "arg_inv env (filled (m\<lparr>pools := (pools m)[i := Some \<lparr>log_chunk_size = i,
    arg_free_list = new_pieces env \<lparr>handle = devx_calls m + 1, object_id = oid\<rparr> i\<rparr>], devx_live := live, devx_calls := t\<rparr>), [])"
proof -
  let ?f = "(filled m)\<lparr>devx_live := {}, devx_calls := devx_calls m + 1\<rparr>"
  have "arg_inv env (?f, [])" by (rule inv_calls[OF assms(5)]) (simp add: filled_def)
  from inv_grow[OF this assms(3,1), of t "\<lparr>handle = devx_calls m + 1, object_id = oid\<rparr>" oid live]
  have "arg_inv env ((with_free i (free_at ?f i @ new_pieces env \<lparr>handle = devx_calls m + 1, object_id = oid\<rparr> i) ?f)\<lparr>devx_live := live, devx_calls := t\<rparr>, [])"
    using assms(6) by simp
  moreover have "(with_free i xs ?f)\<lparr>devx_live := live, devx_calls := t\<rparr> = (with_free i xs (filled m))\<lparr>devx_live := live, devx_calls := t\<rparr>"
    "free_at ?f i = free_at (filled m) i" for xs by (simp_all add: with_free_def pool_at_def free_at_def)
  ultimately show ?thesis by (simp add: filled_add[OF assms(2-4)])
qed

lemma clean_null: "Suc i < length (pools m) \<Longrightarrow> pools m ! Suc i = None \<Longrightarrow> clean_pools (Suc i) m = Inl NullDeref"
  by (simp add: index_at_def dr_arg_pool_destroy_def)

lemma create_pools_ok:
  assumes "roomy env" "length (pools m) = 3" "k \<le> 3" "\<And>j. j < k \<Longrightarrow> pools m ! j \<noteq> None" "\<And>j. k \<le> j \<Longrightarrow> j < 3 \<Longrightarrow> pools m ! j = None"
    and "arg_inv env (filled m, [])" "0 < k"
  shows "create_pools env [k..<3] m = Inl NullDeref \<or> (\<exists>q. create_pools env [k..<3] m = Inr (True, q) \<and> arg_inv env (q, []))"
  using assms
proof (induction "3 - k" arbitrary: k m)
  case 0
  then have "filled m = m" by (intro filled_full) auto
  then show ?case using 0 by auto
next
  case (Suc n)
  then have k: "k < 3" "[k..<3] = k # [Suc k..<3]" by (auto simp: upt_conv_Cons)
  obtain p live t where p: "dr_arg_pool_create env k (devx_live m) (devx_calls m) = Inr (p, live, t)"
    "p = None \<or> devx_calls m + 1 < t \<and> (\<exists>oid. p = Some \<lparr>log_chunk_size = k, arg_free_list = new_pieces env \<lparr>handle = devx_calls m + 1, object_id = oid\<rparr> k\<rparr>)"
    using pool_create_ok[OF Suc.prems(1) k(1)] by blast
  let ?m = "m\<lparr>pools := (pools m)[k := p], devx_live := live, devx_calls := t\<rparr>"
  show ?case
  proof (cases p)
    case None
    obtain i where "k = Suc i" using Suc.prems(7) by (cases k) auto
    then show ?thesis using None p(1) k clean_null[of i ?m] Suc.prems(2) by simp
  next
    case (Some p')
    then have "arg_inv env (filled ?m, [])" using p(2) filled_grow[OF Suc.prems(1,2) k(1) Suc.prems(5)[OF order.refl k(1)] Suc.prems(6)] by auto
    then have "create_pools env [Suc k..<3] ?m = Inl NullDeref \<or> (\<exists>q. create_pools env [Suc k..<3] ?m = Inr (True, q) \<and> arg_inv env (q, []))"
      using Suc.prems Suc.hyps(2) Some k(1) by (intro Suc.hyps(1)) (auto simp: nth_list_update less_Suc_eq)
    then show ?thesis using p(1) Some k(2) by simp
  qed
qed

text \<open>The manager exists with its invariant, or creating it stopped before the second pool, or it dereferenced a null pool.\<close>

lemma mngr_create_cases:
  assumes "roomy env" "arg_alloc env t"
  shows "(\<exists>live u. dr_arg_pool_create env 0 {} (t + 1) = Inr (None, live, u)) \<and> dr_arg_pool_mngr_create env t = Inr None \<or>
    (\<exists>p live u. dr_arg_pool_create env 0 {} (t + 1) = Inr (Some p, live, u)) \<and>
    (dr_arg_pool_mngr_create env t = Inl NullDeref \<or> (\<exists>m. dr_arg_pool_mngr_create env t = Inr (Some m) \<and> arg_inv env (m, [])))"
proof -
  let ?e = "\<lparr>pools = replicate 3 None, devx_live = {}, devx_calls = t + 1\<rparr> :: dr_arg_pool_mngr"
  obtain p live u where p: "dr_arg_pool_create env 0 {} (t + 1) = Inr (p, live, u)" 
    "p = None \<or> devx_calls ?e + 1 < u \<and> (\<exists>oid. p = Some \<lparr>log_chunk_size = 0, arg_free_list = new_pieces env \<lparr>handle = devx_calls ?e + 1, object_id = oid\<rparr> 0\<rparr>)"
    using pool_create_ok[OF assms(1), of 0 "{}" "t + 1"] by auto
  let ?m = "?e\<lparr>pools := (pools ?e)[0 := p], devx_live := live, devx_calls := u\<rparr>"
  have up: "[0..<3] = (0 :: nat) # [1..<3]" by (simp add: upt_conv_Cons)
  have f: "pools (filled ?e) ! i = Some \<lparr>log_chunk_size = i, arg_free_list = []\<rparr>" if "i < 3" for i using that by (simp add: filled_def)
  have "arg_inv env (filled ?e, [])" by (rule arg_invI) (use f in \<open>auto simp: pool_at_def free_at_def pieces_def filled_def\<close>)
  then have fm: "arg_inv env (filled ?m, [])" if "p \<noteq> None" using that p(2) filled_grow[OF assms(1), of ?e 0] by auto
  show ?thesis
  proof (cases p)
    case None
    then show ?thesis using p(1) assms(2) by (simp add: dr_arg_pool_mngr_create_def DR_ARG_CHUNK_SIZE_MAX_def up)
  next
    case (Some p')
    have "create_pools env [1..<3] ?m = Inl NullDeref \<or> (\<exists>q. create_pools env [1..<3] ?m = Inr (True, q) \<and> arg_inv env (q, []))"
      using Some fm by (intro create_pools_ok[OF assms(1)]) (auto simp: nth_Cons')
    then show ?thesis using p(1) Some assms(2) by (auto simp: dr_arg_pool_mngr_create_def DR_ARG_CHUNK_SIZE_MAX_def up)
  qed
qed

section \<open>Runs\<close>

text \<open>
  The manager and the pieces its clients hold, the newest first. A client takes pieces and
  gives back those it holds.
\<close>

definition arg_start :: "arg_env \<Rightarrow> dr_arg_pool_mngr \<times> dr_arg_object list \<Rightarrow> bool" where
  "arg_start env = (\<lambda>(m, held). roomy env \<and> held = [] \<and> (\<exists>t. dr_arg_pool_mngr_create env t = Inr (Some m)))"

inductive arg_step :: "arg_env \<Rightarrow> dr_arg_pool_mngr \<times> dr_arg_object list \<Rightarrow> dr_arg_pool_mngr \<times> dr_arg_object list \<Rightarrow> bool" for env where
  take: "dr_arg_get_obj env sz m = Inr (Some x, q) \<Longrightarrow> arg_step env (m, held) (q, x # held)"
| refused: "dr_arg_get_obj env sz m = Inr (None, q) \<Longrightarrow> arg_step env (m, held) (q, held)"
| give: "x \<in> set held \<Longrightarrow> dr_arg_put_obj x m = Inr q \<Longrightarrow> arg_step env (m, held) (q, remove1 x held)"

interpretation arg_runs: transition_inv "arg_start env" "arg_step env" "\<lambda>s. roomy env \<and> arg_inv env s" for env
proof
  fix s assume "arg_start env s"
  then obtain m t where s: "s = (m, [])" "roomy env" "dr_arg_pool_mngr_create env t = Inr (Some m)" by (auto simp: arg_start_def)
  then have "arg_alloc env t" by (auto simp: dr_arg_pool_mngr_create_def split: if_splits)
  then show "roomy env \<and> arg_inv env s" using mngr_create_cases[OF s(2), of t] s by auto
next
  fix s s' assume inv: "roomy env \<and> arg_inv env s" and "arg_step env s s'"
  from this(2) show "roomy env \<and> arg_inv env s'"
  proof cases
    case (take sz m x q held)
    then show ?thesis using get_obj_ok[of env m held sz] inv by auto
  next
    case (refused sz m q held)
    then show ?thesis using get_obj_ok[of env m held sz] inv by auto
  next
    case (give x held m q)
    then show ?thesis using put_obj_ok[of env m held x] inv by auto
  qed
qed

section \<open>Properties\<close>

definition demo_arg_env :: arg_env where
  "demo_arg_env = \<lparr>arg_alloc = (\<lambda>t. True), arg_devx = (\<lambda>t. Some 0x100), arg_granularity = 2\<rparr>"

definition demo_mngr :: dr_arg_pool_mngr where
  "demo_mngr = (case dr_arg_pool_mngr_create demo_arg_env 0 of Inr (Some m) \<Rightarrow> m | _ \<Rightarrow> \<lparr>pools = [], devx_live = {}, devx_calls = 0\<rparr>)"

lemmas arg_eval = dr_arg_pool_mngr_create_def DR_ARG_CHUNK_SIZE_MAX_def dr_arg_pool_create_def dr_arg_add_new_objects_to_pool_def
  dr_arg_pool_destroy_def dr_arg_get_obj_def dr_arg_get_obj_from_pool_def Let_def shl_def index_at_def upt_rec demo_arg_env_def demo_mngr_def

lemma demo_start: "arg_start demo_arg_env (demo_mngr, [])"
proof -
  have "dr_arg_pool_mngr_create demo_arg_env 0 = Inr (Some demo_mngr)" by (simp add: arg_eval)
  moreover have "roomy demo_arg_env" by (simp add: roomy_def demo_arg_env_def)
  ultimately show ?thesis by (auto simp: arg_start_def)
qed

text \<open>
  Property C22: In every run of a manager that was created, two pieces of one device object that
  clients hold at the same time never share an argument.
\<close>

theorem arg_pieces_disjoint:
  assumes "arg_start env s" "(arg_step env)\<^sup>*\<^sup>* s (m, held)"
    and "i < j" "j < length held" "handle (arg_obj (held ! i)) = handle (arg_obj (held ! j))"
  shows "span (held ! i) \<inter> span (held ! j) = {}"
proof -
  have inv: "arg_inv env (m, held)" using arg_runs.reach_inv[OF assms(1,2)] by simp
  have "distinct held" using arg_invD(6)[OF inv] by (simp add: distinct_map)
  then have "held ! i \<noteq> held ! j" using assms(3,4) by (simp add: nth_eq_iff_index_eq)
  moreover have "held ! i \<in> pieces m held" "held ! j \<in> pieces m held" using assms(3,4) by (simp_all add: pieces_def)
  ultimately show ?thesis using pieces_disjoint[OF inv] assms(5) by blast
qed

definition demo_piece :: "nat \<Rightarrow> dr_arg_object" where
  "demo_piece i = \<lparr>arg_obj = \<lparr>handle = 8, object_id = 0x100\<rparr>, obj_offset = i, arg_log_size = 1\<rparr>"

lemma demo_takes:
  "\<exists>q r. dr_arg_get_obj demo_arg_env 1 demo_mngr = Inr (Some (demo_piece 0), q) \<and>
    dr_arg_get_obj demo_arg_env 1 q = Inr (Some (demo_piece 2), r)"
  by (simp add: demo_piece_def arg_eval)

theorem arg_pieces_disjoint_witness:
  "\<exists>q. (arg_step demo_arg_env)\<^sup>*\<^sup>* (demo_mngr, []) (q, [demo_piece 2, demo_piece 0]) \<and>
    span (demo_piece 2) \<inter> span (demo_piece 0) = {}"
proof -
  obtain q r where q: "dr_arg_get_obj demo_arg_env 1 demo_mngr = Inr (Some (demo_piece 0), q)"
    "dr_arg_get_obj demo_arg_env 1 q = Inr (Some (demo_piece 2), r)" using demo_takes by blast
  have "(arg_step demo_arg_env)\<^sup>*\<^sup>* (demo_mngr, []) (r, [demo_piece 2, demo_piece 0])"
    using arg_step.take[OF q(1), of "[]"] arg_step.take[OF q(2), of "[demo_piece 0]"] by simp
  then show ?thesis using arg_pieces_disjoint[OF demo_start, of r "[demo_piece 2, demo_piece 0]" 0 1] by (auto simp: demo_piece_def)
qed

lemma make_pieces_all: "(\<And>t. arg_alloc env t) \<Longrightarrow> \<exists>t' xs. make_pieces env d lg is t = (t', Some xs)"
proof (induction "is" arbitrary: t)
  case (Cons i "is")
  obtain t' xs where "make_pieces env d lg is (t + 1) = (t', Some xs)" using Cons by blast
  then show ?case using Cons.prems by simp
qed simp

lemma add_objects_all:
  assumes "\<And>t. arg_alloc env t" "\<And>t. arg_devx env t \<noteq> None" "dr_arg_add_new_objects_to_pool env live t p = Inr (ok, x)"
  shows ok
proof -
  obtain oid where oid: "arg_devx env t = Some oid" using assms(2) by blast
  have g: "\<not> arg_granularity env < log_chunk_size p" using assms(3) by (auto simp: dr_arg_add_new_objects_to_pool_def Let_def)
  obtain n where n: "shl 1 (arg_granularity env - log_chunk_size p) = Inr n"
    using assms(3) g unfolding dr_arg_add_new_objects_to_pool_def Let_def by (auto simp: bindE_Inr)
  obtain t' xs where "make_pieces env \<lparr>handle = t, object_id = oid\<rparr> (log_chunk_size p) [0..<n] (t + 1) = (t', Some xs)"
    using make_pieces_all[OF assms(1)] by blast
  then show ?thesis using assms(3) g n oid by (simp add: dr_arg_add_new_objects_to_pool_def Let_def)
qed

lemma get_from_pool_all:
  assumes "\<And>t. arg_alloc env t" "\<And>t. arg_devx env t \<noteq> None" "dr_arg_get_obj_from_pool env live t p = Inr (r, x)"
  shows "r \<noteq> None"
proof -
  obtain ok l u p' where a: "(if arg_free_list p = [] then dr_arg_add_new_objects_to_pool env live t p else Inr (True, live, t, p)) = Inr (ok, l, u, p')"
    "(if \<not> ok then Inr (None, l, u, p') else case arg_free_list p' of [] \<Rightarrow> Inl AssertFailed
      | x # xs \<Rightarrow> Inr (Some x, l, u, p'\<lparr>arg_free_list := xs\<rparr>)) = Inr (r, x)"
    using assms(3) unfolding dr_arg_get_obj_from_pool_def bindE_Inr by auto
  have ok using a(1) add_objects_all[OF assms(1,2)] by (auto split: if_splits)
  then show ?thesis using a(2) by (cases "arg_free_list p'") auto
qed

text \<open>
  While allocations and the creation of device objects succeed, a client gets a
  piece of the size it asks for in every state that a run reaches, also when the pool of that size has run
  empty.
\<close>

theorem arg_get_served:
  assumes "\<And>t. arg_alloc env t" "\<And>t. arg_devx env t \<noteq> None" "arg_start env s" "(arg_step env)\<^sup>*\<^sup>* s (m, held)" "sz < DR_ARG_CHUNK_SIZE_MAX"
  shows "\<exists>x q. dr_arg_get_obj env sz m = Inr (Some x, q) \<and> arg_log_size x = sz \<and> x \<notin> set held"
proof -
  have inv: "arg_inv env (m, held)" "roomy env" using arg_runs.reach_inv[OF assms(3,4)] by simp_all
  obtain r q where g: "dr_arg_get_obj env sz m = Inr (r, q)"
    "case r of None \<Rightarrow> arg_inv env (q, held) | Some x \<Rightarrow> arg_inv env (q, x # held) \<and> arg_log_size x = sz" using get_obj_ok[OF inv] by blast
  obtain p live t p' where "dr_arg_get_obj_from_pool env (devx_live m) (devx_calls m) p = Inr (r, live, t, p')"
    using g(1) assms(5) by (auto simp: dr_arg_get_obj_def bindE_Inr)
  then have "r \<noteq> None" by (rule get_from_pool_all[OF assms(1,2)])
  then obtain x where x: "r = Some x" by blast
  then have "x \<notin> set held" using g(2) arg_invD(6)[of env q "x # held"] by auto
  then show ?thesis using g x by simp
qed

theorem arg_get_served_witness: "\<exists>x q. dr_arg_get_obj demo_arg_env 2 demo_mngr = Inr (Some x, q) \<and> arg_log_size x = 2 \<and> x \<notin> set []"
  using arg_get_served[OF _ _ demo_start, of demo_mngr "[]" 2] by (simp add: demo_arg_env_def DR_ARG_CHUNK_SIZE_MAX_def)



end
