(* ===== verification/Qmap.thy ===== *)
theory Qmap
  imports Ring_Lists
begin

text \<open>
  The maps of \<open>util/cl_map.c\<close> and \<open>util/cl_qmap.h\<close>: red-black trees with parent pointers whose items are
  also threaded on a circular list, in the order of their keys. The items belong to the caller and lie on one
  heap. A map is known by the addresses of its two embedded items, the root above the tree and the
  item that ends every branch and the list, and by its count. Address 0 is the null pointer. The
  two halves of the balancing code are mirror images and are written once, for a side.
\<close>

section \<open>Memory\<close>

datatype cl_map_color = CL_MAP_RED | CL_MAP_BLACK

datatype side = Lft | Rgt

fun other :: "side \<Rightarrow> side" where
  "other Lft = Rgt"
| "other Rgt = Lft"

record cl_map_items =
  thread :: links
  child :: "side \<Rightarrow> nat \<Rightarrow> nat"
  p_up :: "nat \<Rightarrow> nat"
  color :: "nat \<Rightarrow> cl_map_color"
  item_key :: "nat \<Rightarrow> u64"

abbreviation p_left :: "cl_map_items \<Rightarrow> nat \<Rightarrow> nat" where
  "p_left h \<equiv> child h Lft"

abbreviation p_right :: "cl_map_items \<Rightarrow> nat \<Rightarrow> nat" where
  "p_right h \<equiv> child h Rgt"

record cl_qmap =
  map_root :: nat
  map_nil :: nat
  map_count :: u64

definition set_child :: "side \<Rightarrow> nat \<Rightarrow> nat \<Rightarrow> cl_map_items \<Rightarrow> cl_map_items" where
  "set_child s a x h = h\<lparr>child := (child h)(s := (child h s)(a := x))\<rparr>"

definition set_up :: "nat \<Rightarrow> nat \<Rightarrow> cl_map_items \<Rightarrow> cl_map_items" where
  "set_up a x h = h\<lparr>p_up := (p_up h)(a := x)\<rparr>"

definition set_color :: "nat \<Rightarrow> cl_map_color \<Rightarrow> cl_map_items \<Rightarrow> cl_map_items" where
  "set_color a c h = h\<lparr>color := (color h)(a := c)\<rparr>"

definition set_key :: "nat \<Rightarrow> u64 \<Rightarrow> cl_map_items \<Rightarrow> cl_map_items" where
  "set_key a k h = h\<lparr>item_key := (item_key h)(a := k)\<rparr>"

definition set_thread :: "links \<Rightarrow> cl_map_items \<Rightarrow> cl_map_items" where
  "set_thread s h = h\<lparr>thread := s\<rparr>"

text \<open>The address of a pointer to a child.\<close>

type_synonym child_slot = "side \<times> nat"

definition fetch :: "child_slot \<Rightarrow> cl_map_items \<Rightarrow> nat" where
  "fetch pp h = child h (fst pp) (snd pp)"

definition put :: "child_slot \<Rightarrow> nat \<Rightarrow> cl_map_items \<Rightarrow> cl_map_items" where
  "put pp x h = set_child (fst pp) (snd pp) x h"

definition asserting :: "bool \<Rightarrow> fault + 'a \<Rightarrow> fault + 'a" where
  "asserting b r = (if b then r else Inl AssertFailed)"

fun ended :: "(fault + 'a) option \<Rightarrow> fault + 'a" where
  "ended None = Inl Diverges"
| "ended (Some r) = r"

section \<open>The list\<close>

definition cl_primitive_insert :: "nat \<Rightarrow> nat \<Rightarrow> links \<Rightarrow> links" where
  "cl_primitive_insert p_list_item p_new_item s =
    (let s = set_nxt p_new_item p_list_item s;
         s = set_prv p_new_item (prv s p_list_item) s;
         s = set_prv p_list_item p_new_item s
     in set_nxt (prv s p_new_item) p_new_item s)"

definition cl_primitive_remove :: "nat \<Rightarrow> links \<Rightarrow> links" where
  "cl_primitive_remove p_list_item s =
    (let s = set_prv (nxt s p_list_item) (prv s p_list_item) s
     in set_nxt (prv s p_list_item) (nxt s p_list_item) s)"

definition cl_qmap_count :: "cl_qmap \<Rightarrow> u32" where
  "cl_qmap_count p_map = ucast (map_count p_map)"

definition cl_is_qmap_empty :: "cl_qmap \<Rightarrow> bool" where
  "cl_is_qmap_empty p_map \<longleftrightarrow> map_count p_map = 0"

definition cl_qmap_head :: "cl_qmap \<Rightarrow> cl_map_items \<Rightarrow> nat" where
  "cl_qmap_head p_map h = nxt (thread h) (map_nil p_map)"

definition cl_qmap_tail :: "cl_qmap \<Rightarrow> cl_map_items \<Rightarrow> nat" where
  "cl_qmap_tail p_map h = prv (thread h) (map_nil p_map)"

definition cl_qmap_next :: "nat \<Rightarrow> cl_map_items \<Rightarrow> nat" where
  "cl_qmap_next p_item h = nxt (thread h) p_item"

definition cl_qmap_prev :: "nat \<Rightarrow> cl_map_items \<Rightarrow> nat" where
  "cl_qmap_prev p_item h = prv (thread h) p_item"

definition cl_qmap_remove_all :: "cl_qmap \<Rightarrow> cl_map_items \<Rightarrow> cl_qmap \<times> cl_map_items" where
  "cl_qmap_remove_all p_map h =
    (let N = map_nil p_map;
         h = set_child Lft (map_root p_map) N h;
         h = set_thread (set_prv N N (set_nxt N N (thread h))) h
     in (p_map\<lparr>map_count := 0\<rparr>, h))"

text \<open>An item of zero bytes; red is the colour 0.\<close>

definition zero_item :: "nat \<Rightarrow> cl_map_items \<Rightarrow> cl_map_items" where
  "zero_item a h =
    set_key a 0 (set_color a CL_MAP_RED (set_up a 0 (set_child Rgt a 0 (set_child Lft a 0
      (set_thread (set_prv a 0 (set_nxt a 0 (thread h))) h)))))"

definition cl_qmap_init :: "cl_qmap \<Rightarrow> cl_map_items \<Rightarrow> cl_qmap \<times> cl_map_items" where
  "cl_qmap_init p_map h =
    (let R = map_root p_map; N = map_nil p_map;
         h = zero_item N (zero_item R h);
         h = set_up R R h;
         h = set_child Lft R N h;
         h = set_child Rgt R N h;
         h = set_color R CL_MAP_BLACK h;
         h = set_up N N h;
         h = set_child Lft N N h;
         h = set_child Rgt N N h;
         h = set_color N CL_MAP_BLACK h
     in cl_qmap_remove_all (p_map\<lparr>map_count := 0\<rparr>) h)"

section \<open>Searching\<close>

partial_function (option) get_loop :: "cl_qmap \<Rightarrow> u64 \<Rightarrow> cl_map_items \<Rightarrow> nat \<Rightarrow> nat option" where
  "get_loop p_map k h p_item =
    (if p_item = map_nil p_map then Some p_item
     else if k = item_key h p_item then Some p_item
     else get_loop p_map k h (if k < item_key h p_item then p_left h p_item else p_right h p_item))"

definition cl_qmap_get :: "cl_qmap \<Rightarrow> u64 \<Rightarrow> cl_map_items \<Rightarrow> nat option" where
  "cl_qmap_get p_map k h = get_loop p_map k h (p_left h (map_root p_map))"

partial_function (option) get_next_loop :: "cl_qmap \<Rightarrow> u64 \<Rightarrow> cl_map_items \<Rightarrow> nat \<Rightarrow> nat \<Rightarrow> nat option" where
  "get_next_loop p_map k h p_item_found p_item =
    (if p_item = map_nil p_map then Some p_item_found
     else if k < item_key h p_item then get_next_loop p_map k h p_item (p_left h p_item)
     else get_next_loop p_map k h p_item_found (p_right h p_item))"

definition cl_qmap_get_next :: "cl_qmap \<Rightarrow> u64 \<Rightarrow> cl_map_items \<Rightarrow> nat option" where
  "cl_qmap_get_next p_map k h = get_next_loop p_map k h (map_nil p_map) (p_left h (map_root p_map))"

text \<open>The callback may change the items as well as its own context.\<close>

partial_function (option) apply_loop ::
  "cl_qmap \<Rightarrow> (nat \<Rightarrow> cl_map_items \<times> 'c \<Rightarrow> cl_map_items \<times> 'c) \<Rightarrow> nat \<Rightarrow> cl_map_items \<times> 'c \<Rightarrow> (cl_map_items \<times> 'c) option" where
  "apply_loop p_map pfn_func p_map_item hc =
    (if p_map_item = map_nil p_map then Some hc
     else (let hc = pfn_func p_map_item hc in apply_loop p_map pfn_func (cl_qmap_next p_map_item (fst hc)) hc))"

definition cl_qmap_apply_func ::
  "cl_qmap \<Rightarrow> (nat \<Rightarrow> cl_map_items \<times> 'c \<Rightarrow> cl_map_items \<times> 'c) \<Rightarrow> cl_map_items \<times> 'c \<Rightarrow> (cl_map_items \<times> 'c) option" where
  "cl_qmap_apply_func p_map pfn_func hc = apply_loop p_map pfn_func (cl_qmap_head p_map (fst hc)) hc"

section \<open>Rotations\<close>

definition cl_map_is_left_child :: "nat \<Rightarrow> cl_map_items \<Rightarrow> fault + bool" where
  "cl_map_is_left_child p_item h =
    asserting (p_item \<noteq> 0) (asserting (p_up h p_item \<noteq> 0) (asserting (p_up h p_item \<noteq> p_item)
      (Inr (p_left h (p_up h p_item) = p_item))))"

definition cl_map_get_parent_ptr_to_item :: "nat \<Rightarrow> cl_map_items \<Rightarrow> fault + child_slot" where
  "cl_map_get_parent_ptr_to_item p_item h =
    asserting (p_item \<noteq> 0) (asserting (p_up h p_item \<noteq> 0) (asserting (p_up h p_item \<noteq> p_item) (
    bindE (cl_map_is_left_child p_item h) (\<lambda>left.
    if left then Inr (Lft, p_up h p_item)
    else asserting (p_right h (p_up h p_item) = p_item) (Inr (Rgt, p_up h p_item))))))"

definition cl_map_rot_left :: "cl_qmap \<Rightarrow> nat \<Rightarrow> cl_map_items \<Rightarrow> fault + cl_map_items" where
  "cl_map_rot_left p_map p_item h =
    asserting (p_item \<noteq> 0) (asserting (p_right h p_item \<noteq> map_nil p_map) (
    bindE (cl_map_get_parent_ptr_to_item p_item h) (\<lambda>pp_root.
    let h = put pp_root (p_right h p_item) h;
        h = set_up (fetch pp_root h) (p_up h p_item) h;
        h = set_child Rgt p_item (p_left h (fetch pp_root h)) h;
        h = (if p_left h (fetch pp_root h) \<noteq> map_nil p_map then set_up (p_left h (fetch pp_root h)) p_item h else h);
        h = set_child Lft (fetch pp_root h) p_item h
    in Inr (set_up p_item (fetch pp_root h) h))))"

definition cl_map_rot_right :: "cl_qmap \<Rightarrow> nat \<Rightarrow> cl_map_items \<Rightarrow> fault + cl_map_items" where
  "cl_map_rot_right p_map p_item h =
    asserting (p_item \<noteq> 0) (asserting (p_left h p_item \<noteq> map_nil p_map) (
    bindE (cl_map_get_parent_ptr_to_item p_item h) (\<lambda>pp_root.
    let h = put pp_root (p_left h p_item) h;
        h = set_up (fetch pp_root h) (p_up h p_item) h;
        h = set_child Lft p_item (p_right h (fetch pp_root h)) h;
        h = (if p_right h (fetch pp_root h) \<noteq> map_nil p_map then set_up (p_right h (fetch pp_root h)) p_item h else h);
        h = set_child Rgt (fetch pp_root h) p_item h
    in Inr (set_up p_item (fetch pp_root h) h))))"

definition cl_map_rot :: "side \<Rightarrow> cl_qmap \<Rightarrow> nat \<Rightarrow> cl_map_items \<Rightarrow> fault + cl_map_items" where
  "cl_map_rot s = (if s = Lft then cl_map_rot_left else cl_map_rot_right)"

section \<open>Insertion\<close>

text \<open>
  One round of the loop that balances the tree after an insertion: the item to continue from. The side is
  that of the parent below the grandparent.
\<close>

definition ins_bal_round :: "cl_qmap \<Rightarrow> nat \<Rightarrow> cl_map_items \<Rightarrow> fault + nat \<times> cl_map_items" where
  "ins_bal_round p_map p_item h =
    bindE (cl_map_is_left_child (p_up h p_item) h) (\<lambda>left.
    let s = (if left then Lft else Rgt);
        p_grand_uncle = child h (other s) (p_up h (p_up h p_item))
    in asserting (p_grand_uncle \<noteq> 0) (
    if color h p_grand_uncle = CL_MAP_RED then
      (let h = set_color p_grand_uncle CL_MAP_BLACK h;
           h = set_color (p_up h p_item) CL_MAP_BLACK h;
           h = set_color (p_up h (p_up h p_item)) CL_MAP_RED h
       in Inr (p_up h (p_up h p_item), h))
    else
      bindE (cl_map_is_left_child p_item h) (\<lambda>item_left.
      bindE (if item_left \<noteq> left
             then (let p_item = p_up h p_item in bindE (cl_map_rot s p_map p_item h) (\<lambda>h. Inr (p_item, h)))
             else Inr (p_item, h)) (\<lambda>(p_item, h).
      let h = set_color (p_up h p_item) CL_MAP_BLACK h;
          h = set_color (p_up h (p_up h p_item)) CL_MAP_RED h
      in bindE (cl_map_rot (other s) p_map (p_up h (p_up h p_item)) h) (\<lambda>h. Inr (p_item, h))))))"

partial_function (option) ins_bal_loop :: "cl_qmap \<Rightarrow> nat \<Rightarrow> cl_map_items \<Rightarrow> (fault + cl_map_items) option" where
  "ins_bal_loop p_map p_item h =
    (if color h (p_up h p_item) = CL_MAP_RED
     then (case ins_bal_round p_map p_item h of
             Inl e \<Rightarrow> Some (Inl e)
           | Inr (p_item, h) \<Rightarrow> ins_bal_loop p_map p_item h)
     else Some (Inr h))"

definition cl_map_ins_bal :: "cl_qmap \<Rightarrow> nat \<Rightarrow> cl_map_items \<Rightarrow> fault + cl_map_items" where
  "cl_map_ins_bal p_map p_item h =
    asserting (p_item \<noteq> 0) (asserting (p_item \<noteq> map_root p_map) (ended (ins_bal_loop p_map p_item h)))"

text \<open>Where to insert, and whether the key is already there.\<close>

partial_function (option) insert_loop :: "cl_qmap \<Rightarrow> u64 \<Rightarrow> cl_map_items \<Rightarrow> nat \<Rightarrow> nat \<Rightarrow> (nat \<times> bool) option" where
  "insert_loop p_map k h p_insert_at p_comp_item =
    (if p_comp_item = map_nil p_map then Some (p_insert_at, False)
     else if k = item_key h p_comp_item then Some (p_comp_item, True)
     else insert_loop p_map k h p_comp_item (if k < item_key h p_comp_item then p_left h p_comp_item else p_right h p_comp_item))"

definition link_item :: "cl_qmap \<Rightarrow> u64 \<Rightarrow> nat \<Rightarrow> nat \<Rightarrow> cl_map_items \<Rightarrow> cl_map_items" where
  "link_item p_map k p_item p_insert_at h =
    (if p_insert_at = map_root p_map then
       (let h = set_child Lft p_insert_at p_item h
        in set_thread (cl_primitive_insert (map_nil p_map) p_item (thread h)) h)
     else if k < item_key h p_insert_at then
       (let h = set_child Lft p_insert_at p_item h
        in set_thread (cl_primitive_insert p_insert_at p_item (thread h)) h)
     else
       (let h = set_child Rgt p_insert_at p_item h
        in set_thread (cl_primitive_insert (nxt (thread h) p_insert_at) p_item (thread h)) h))"

definition cl_qmap_insert :: "cl_qmap \<Rightarrow> u64 \<Rightarrow> nat \<Rightarrow> cl_map_items \<Rightarrow> fault + nat \<times> cl_qmap \<times> cl_map_items" where
  "cl_qmap_insert p_map k p_item h =
    asserting (p_item \<noteq> 0) (
    asserting (p_up h (map_root p_map) = map_root p_map) (
    asserting (color h (map_root p_map) \<noteq> CL_MAP_RED) (
    asserting (color h (map_nil p_map) \<noteq> CL_MAP_RED) (
    let h = set_child Lft p_item (map_nil p_map) h;
        h = set_child Rgt p_item (map_nil p_map) h;
        h = set_key p_item k h;
        h = set_color p_item CL_MAP_RED h
    in
    bindE (orFault Diverges (insert_loop p_map k h (map_root p_map) (p_left h (map_root p_map)))) (\<lambda>(p_insert_at, found).
    if found then Inr (p_insert_at, p_map, h)
    else
      asserting (p_insert_at \<noteq> map_nil p_map) (
      let h = link_item p_map k p_item p_insert_at h;
          p_map = p_map\<lparr>map_count := map_count p_map + 1\<rparr>;
          h = set_up p_item p_insert_at h
      in
      bindE (cl_map_ins_bal p_map p_item h) (\<lambda>h.
      let h = set_color (p_left h (map_root p_map)) CL_MAP_BLACK h
      in Inr (p_item, p_map, h))))))))"

section \<open>Removal\<close>

text \<open>
  The parts of a round after a removal, for the side of the item: a red uncle is rotated away; a red near child of
  the uncle is rotated to the far side.
\<close>

definition del_bal_uncle :: "side \<Rightarrow> cl_qmap \<Rightarrow> nat \<Rightarrow> nat \<Rightarrow> cl_map_items \<Rightarrow> fault + nat \<times> cl_map_items" where
  "del_bal_uncle s p_map p_item p_uncle h =
    (if color h p_uncle = CL_MAP_RED then
       (let h = set_color p_uncle CL_MAP_BLACK h;
            h = set_color (p_up h p_item) CL_MAP_RED h
        in bindE (cl_map_rot s p_map (p_up h p_item) h) (\<lambda>h. Inr (child h (other s) (p_up h p_item), h)))
     else Inr (p_uncle, h))"

definition del_bal_nephew :: "side \<Rightarrow> cl_qmap \<Rightarrow> nat \<Rightarrow> nat \<Rightarrow> cl_map_items \<Rightarrow> fault + nat \<times> cl_map_items" where
  "del_bal_nephew s p_map p_item p_uncle h =
    (if color h (child h (other s) p_uncle) \<noteq> CL_MAP_RED then
       (let h = set_color (child h s p_uncle) CL_MAP_BLACK h;
            h = set_color p_uncle CL_MAP_RED h
        in bindE (cl_map_rot (other s) p_map p_uncle h) (\<lambda>h. Inr (child h (other s) (p_up h p_item), h)))
     else Inr (p_uncle, h))"

text \<open>The rest of a round, below a black uncle: whether the loop goes on, and the item to continue from.\<close>

definition del_bal_rest :: "side \<Rightarrow> cl_qmap \<Rightarrow> nat \<Rightarrow> nat \<Rightarrow> cl_map_items \<Rightarrow> fault + bool \<times> nat \<times> cl_map_items" where
  "del_bal_rest s p_map p_item p_uncle h =
    (if color h (child h (other s) p_uncle) \<noteq> CL_MAP_RED \<and> color h (child h s p_uncle) \<noteq> CL_MAP_RED
     then (let h = set_color p_uncle CL_MAP_RED h in Inr (True, p_up h p_item, h))
     else
       bindE (del_bal_nephew s p_map p_item p_uncle h) (\<lambda>(p_uncle, h).
       let h = set_color p_uncle (color h (p_up h p_item)) h;
           h = set_color (p_up h p_item) CL_MAP_BLACK h;
           h = set_color (child h (other s) p_uncle) CL_MAP_BLACK h
       in bindE (cl_map_rot s p_map (p_up h p_item) h) (\<lambda>h. Inr (False, p_item, h))))"

definition del_bal_round :: "cl_qmap \<Rightarrow> nat \<Rightarrow> cl_map_items \<Rightarrow> fault + bool \<times> nat \<times> cl_map_items" where
  "del_bal_round p_map p_item h =
    bindE (cl_map_is_left_child p_item h) (\<lambda>left.
    let s = (if left then Lft else Rgt) in
    bindE (del_bal_uncle s p_map p_item (child h (other s) (p_up h p_item)) h) (\<lambda>(p_uncle, h).
    del_bal_rest s p_map p_item p_uncle h))"

partial_function (option) del_bal_loop :: "cl_qmap \<Rightarrow> nat \<Rightarrow> cl_map_items \<Rightarrow> (fault + nat \<times> cl_map_items) option" where
  "del_bal_loop p_map p_item h =
    (if color h p_item \<noteq> CL_MAP_RED \<and> p_up h p_item \<noteq> map_root p_map
     then (case del_bal_round p_map p_item h of
             Inl e \<Rightarrow> Some (Inl e)
           | Inr (go_on, p_item, h) \<Rightarrow> if go_on then del_bal_loop p_map p_item h else Some (Inr (p_item, h)))
     else Some (Inr (p_item, h)))"

definition cl_map_del_bal :: "cl_qmap \<Rightarrow> nat \<Rightarrow> cl_map_items \<Rightarrow> fault + cl_map_items" where
  "cl_map_del_bal p_map p_item h =
    bindE (ended (del_bal_loop p_map p_item h)) (\<lambda>(p_item, h). Inr (set_color p_item CL_MAP_BLACK h))"

text \<open>Putting the substitute in the place of the item that is removed.\<close>

definition substitute :: "nat \<Rightarrow> nat \<Rightarrow> cl_map_items \<Rightarrow> fault + cl_map_items" where
  "substitute p_item p_del_item h =
    (let h = set_up p_del_item (p_up h p_item) h;
         h = set_child Lft p_del_item (p_left h p_item) h;
         h = set_child Rgt p_del_item (p_right h p_item) h
     in bindE (cl_map_get_parent_ptr_to_item p_item h) (\<lambda>pp.
     let h = put pp p_del_item h;
         h = set_up (p_right h p_item) p_del_item h;
         h = set_up (p_left h p_item) p_del_item h
     in Inr (set_color p_del_item (color h p_item) h)))"

definition cl_qmap_remove_item :: "cl_qmap \<Rightarrow> nat \<Rightarrow> cl_map_items \<Rightarrow> fault + cl_qmap \<times> cl_map_items" where
  "cl_qmap_remove_item p_map p_item h =
    asserting (p_item \<noteq> 0) (
    if p_item = map_nil p_map then Inr (p_map, h)
    else
      bindE (if p_right h p_item = map_nil p_map \<or> p_left h p_item = map_nil p_map then Inr p_item
             else asserting (cl_qmap_next p_item h \<noteq> map_nil p_map) (Inr (cl_qmap_next p_item h))) (\<lambda>p_del_item.
      let h = set_thread (cl_primitive_remove p_item (thread h)) h;
          p_map = p_map\<lparr>map_count := map_count p_map - 1\<rparr>;
          p_child = (if p_left h p_del_item \<noteq> map_nil p_map then p_left h p_del_item else p_right h p_del_item);
          h = set_up p_child (p_up h p_del_item) h
      in
      bindE (cl_map_get_parent_ptr_to_item p_del_item h) (\<lambda>pp.
      let h = put pp p_child h in
      bindE (if color h p_del_item \<noteq> CL_MAP_RED then cl_map_del_bal p_map p_child h else Inr h) (\<lambda>h.
      bindE (if p_del_item \<noteq> p_item then substitute p_item p_del_item h else Inr h) (\<lambda>h.
      asserting (color h (map_nil p_map) \<noteq> CL_MAP_RED) (Inr (p_map, h)))))))"

definition cl_qmap_remove :: "cl_qmap \<Rightarrow> u64 \<Rightarrow> cl_map_items \<Rightarrow> fault + nat \<times> cl_qmap \<times> cl_map_items" where
  "cl_qmap_remove p_map k h =
    bindE (orFault Diverges (cl_qmap_get p_map k h)) (\<lambda>p_item.
    bindE (cl_qmap_remove_item p_map p_item h) (\<lambda>(p_map, h). Inr (p_item, p_map, h)))"

section \<open>Merging and comparing maps\<close>

definition merge_one :: "cl_qmap \<Rightarrow> cl_qmap \<Rightarrow> nat \<Rightarrow> cl_map_items \<Rightarrow> fault + cl_qmap \<times> cl_qmap \<times> cl_map_items" where
  "merge_one p_dest_map p_src_map p_item h =
    bindE (cl_qmap_remove_item p_src_map p_item h) (\<lambda>(p_src_map, h).
    bindE (cl_qmap_insert p_dest_map (item_key h p_item) p_item h) (\<lambda>(p_item2, p_dest_map, h).
    if p_item2 \<noteq> p_item then
      bindE (cl_qmap_insert p_src_map (item_key h p_item) p_item h) (\<lambda>(p_item2, p_src_map, h).
      asserting (p_item2 = p_item) (Inr (p_dest_map, p_src_map, h)))
    else Inr (p_dest_map, p_src_map, h)))"

partial_function (option) merge_loop ::
  "cl_qmap \<Rightarrow> cl_qmap \<Rightarrow> nat \<Rightarrow> cl_map_items \<Rightarrow> (fault + cl_qmap \<times> cl_qmap \<times> cl_map_items) option" where
  "merge_loop p_dest_map p_src_map p_item h =
    (if p_item = map_nil p_src_map then Some (Inr (p_dest_map, p_src_map, h))
     else (case merge_one p_dest_map p_src_map p_item h of
             Inl e \<Rightarrow> Some (Inl e)
           | Inr (p_dest_map, p_src_map, h') \<Rightarrow> merge_loop p_dest_map p_src_map (cl_qmap_next p_item h) h'))"

definition cl_qmap_merge :: "cl_qmap \<Rightarrow> cl_qmap \<Rightarrow> cl_map_items \<Rightarrow> fault + cl_qmap \<times> cl_qmap \<times> cl_map_items" where
  "cl_qmap_merge p_dest_map p_src_map h = ended (merge_loop p_dest_map p_src_map (cl_qmap_head p_src_map h) h)"

definition cl_qmap_delta_move ::
  "cl_qmap \<Rightarrow> cl_qmap \<Rightarrow> nat \<Rightarrow> cl_map_items \<Rightarrow> fault + nat \<times> cl_qmap \<times> cl_qmap \<times> cl_map_items" where
  "cl_qmap_delta_move p_dest p_src p_item h =
    (let p_next = cl_qmap_next p_item h in
     bindE (cl_qmap_remove_item p_src p_item h) (\<lambda>(p_src, h).
     bindE (cl_qmap_insert p_dest (item_key h p_item) p_item h) (\<lambda>(p_temp, p_dest, h).
     asserting (p_temp = p_item) (Inr (p_next, p_dest, p_src, h)))))"

partial_function (option) delta_loop ::
  "cl_qmap \<Rightarrow> cl_qmap \<Rightarrow> cl_qmap \<Rightarrow> cl_qmap \<Rightarrow> nat \<Rightarrow> nat \<Rightarrow> cl_map_items \<Rightarrow>
    (fault + cl_qmap \<times> cl_qmap \<times> cl_qmap \<times> cl_qmap \<times> nat \<times> nat \<times> cl_map_items) option" where
  "delta_loop p_map1 p_map2 p_new p_old p_item1 p_item2 h =
    (if p_item1 \<noteq> map_nil p_map1 \<and> p_item2 \<noteq> map_nil p_map2 then
       if item_key h p_item1 < item_key h p_item2 then
         (case cl_qmap_delta_move p_old p_map1 p_item1 h of
            Inl e \<Rightarrow> Some (Inl e)
          | Inr (p_item1, p_old, p_map1, h) \<Rightarrow> delta_loop p_map1 p_map2 p_new p_old p_item1 p_item2 h)
       else if item_key h p_item2 < item_key h p_item1 then
         (case cl_qmap_delta_move p_new p_map2 p_item2 h of
            Inl e \<Rightarrow> Some (Inl e)
          | Inr (p_item2, p_new, p_map2, h) \<Rightarrow> delta_loop p_map1 p_map2 p_new p_old p_item1 p_item2 h)
       else delta_loop p_map1 p_map2 p_new p_old (cl_qmap_next p_item1 h) (cl_qmap_next p_item2 h) h
     else Some (Inr (p_map1, p_map2, p_new, p_old, p_item1, p_item2, h)))"

text \<open>Moving what is left when the other map has ended.\<close>

partial_function (option) drain_loop ::
  "cl_qmap \<Rightarrow> cl_qmap \<Rightarrow> nat \<Rightarrow> cl_map_items \<Rightarrow> (fault + cl_qmap \<times> cl_qmap \<times> cl_map_items) option" where
  "drain_loop p_dest p_src p_item h =
    (if p_item \<noteq> map_nil p_src then
       (case cl_qmap_delta_move p_dest p_src p_item h of
          Inl e \<Rightarrow> Some (Inl e)
        | Inr (p_item, p_dest, p_src, h) \<Rightarrow> drain_loop p_dest p_src p_item h)
     else Some (Inr (p_dest, p_src, h)))"

definition cl_qmap_delta ::
  "cl_qmap \<Rightarrow> cl_qmap \<Rightarrow> cl_qmap \<Rightarrow> cl_qmap \<Rightarrow> cl_map_items \<Rightarrow> fault + cl_qmap \<times> cl_qmap \<times> cl_qmap \<times> cl_qmap \<times> cl_map_items" where
  "cl_qmap_delta p_map1 p_map2 p_new p_old h =
    asserting (cl_is_qmap_empty p_new) (asserting (cl_is_qmap_empty p_old) (
    bindE (ended (delta_loop p_map1 p_map2 p_new p_old (cl_qmap_head p_map1 h) (cl_qmap_head p_map2 h) h))
      (\<lambda>(p_map1, p_map2, p_new, p_old, p_item1, p_item2, h).
    bindE (ended (drain_loop p_new p_map2 p_item2 h)) (\<lambda>(p_new, p_map2, h).
    bindE (ended (drain_loop p_old p_map1 p_item1 h)) (\<lambda>(p_old, p_map1, h).
    Inr (p_map1, p_map2, p_new, p_old, h))))))"

declare get_loop.simps [code] get_next_loop.simps [code] apply_loop.simps [code] insert_loop.simps [code]
  ins_bal_loop.simps [code] del_bal_loop.simps [code] merge_loop.simps [code] delta_loop.simps [code] drain_loop.simps [code]

end
