(* ===== verification/Qmap_Trees.thy ===== *)
theory Qmap_Trees
  imports Qmap
begin

text \<open>
  Trees of items and where they lie on the heap. A tree with a hole is a list of frames from the
  hole to the root. The shape of a map on the heap is stated for whole trees, and moving the hole does
  not change the tree, so that the lemmas on rotations and colours apply at any place.
\<close>

section \<open>Trees and contexts\<close>

datatype ptree = Tip | Br cl_map_color ptree nat ptree

datatype frm = Fr side cl_map_color nat ptree

fun inord :: "ptree \<Rightarrow> nat list" where
  "inord Tip = []"
| "inord (Br c l a r) = inord l @ a # inord r"

text \<open>A branch with its child on the given side first.\<close>

fun bra :: "side \<Rightarrow> cl_map_color \<Rightarrow> ptree \<Rightarrow> nat \<Rightarrow> ptree \<Rightarrow> ptree" where
  "bra Lft c x a y = Br c x a y"
| "bra Rgt c x a y = Br c y a x"

fun plug :: "ptree \<Rightarrow> frm list \<Rightarrow> ptree" where
  "plug t [] = t"
| "plug t (Fr s c a y # C) = plug (bra s c t a y) C"

fun ctx_l :: "frm list \<Rightarrow> nat list" where
  "ctx_l [] = []"
| "ctx_l (Fr Lft c a y # C) = ctx_l C"
| "ctx_l (Fr Rgt c a y # C) = ctx_l C @ inord y @ [a]"

fun ctx_r :: "frm list \<Rightarrow> nat list" where
  "ctx_r [] = []"
| "ctx_r (Fr Lft c a y # C) = a # inord y @ ctx_r C"
| "ctx_r (Fr Rgt c a y # C) = ctx_r C"

fun ptr :: "nat \<Rightarrow> ptree \<Rightarrow> nat" where
  "ptr N Tip = N"
| "ptr N (Br c l a r) = a"

fun par :: "nat \<Rightarrow> frm list \<Rightarrow> nat" where
  "par R [] = R"
| "par R (Fr s c a y # C) = a"

fun cside :: "frm list \<Rightarrow> side" where
  "cside [] = Lft"
| "cside (Fr s c a y # C) = s"

lemma other_simps [simp]: "other (other s) = s" "other s \<noteq> s" "s \<noteq> other s" "other s = Lft \<longleftrightarrow> s = Rgt" "other s = Rgt \<longleftrightarrow> s = Lft"
  "(s = Rgt) \<noteq> (s = Lft)" "(s = Lft) \<noteq> (s = Rgt)"
  by (cases s; simp)+

lemma side_split: "s = Lft \<or> s = Rgt" "s' = s \<or> s' = other s"
  by (cases s; cases s'; simp)+

lemma bra_other [simp]: "bra (other s) c y a x = bra s c x a y"
  by (cases s) simp_all

lemma ptr_bra [simp]: "ptr N (bra s c x a y) = a"
  by (cases s) simp_all

lemma bra_Tip [simp]: "bra s c x a y \<noteq> Tip" "Tip \<noteq> bra s c x a y"
  by (cases s; simp)+

lemma tree_cases_side: "t = Tip \<or> (\<exists>c x a y. t = bra s c x a y)"
  by (cases t; cases s) auto

lemma set_inord_bra [simp]: "set (inord (bra s c x a y)) = insert a (set (inord x) \<union> set (inord y))"
  by (cases s) auto

lemma inord_plug: "inord (plug t C) = ctx_l C @ inord t @ ctx_r C"
proof (induction t C rule: plug.induct)
  case (2 t s c a y C)
  then show ?case by (cases s) simp_all
qed simp

lemma inord_rot: "inord (bra s c2 (bra s c1 w a b) d z) = inord (bra s c1' w a (bra s c2' b d z))"
  by (cases s) simp_all

lemma inord_color: "inord (bra s c x a y) = inord (bra s c' x a y)"
  by (cases s) simp_all

lemma inord_bra_cong: "inord x = inord x' \<Longrightarrow> inord y = inord y' \<Longrightarrow> inord (bra s c x a y) = inord (bra s c' x' a y')"
  by (cases s) simp_all

lemma inord_plug_cong: "inord t = inord t' \<Longrightarrow> inord (plug t C) = inord (plug t' C)"
  by (simp add: inord_plug)

lemma plug_append: "plug t (C @ D) = plug (plug t C) D"
  by (induction t C rule: plug.induct) simp_all

lemma plug_split:
  assumes "a \<in> set (inord t)"
  shows "\<exists>c l r C. t = plug (Br c l a r) C"
  using assms
proof (induction t)
  case (Br c l b r)
  consider "a = b" | "a \<in> set (inord l)" | "a \<in> set (inord r)" using Br.prems by auto
  then show ?case
  proof cases
    case 1
    then show ?thesis by (intro exI[of _ c] exI[of _ l] exI[of _ r] exI[of _ "[]"]) simp
  next
    case 2
    then obtain c' l' r' C where l: "l = plug (Br c' l' a r') C" using Br.IH(1) by blast
    have "plug (Br c' l' a r') (C @ [Fr Lft c b r]) = Br c l b r" unfolding l by (simp add: plug_append)
    then show ?thesis by metis
  next
    case 3
    then obtain c' l' r' C where r: "r = plug (Br c' l' a r') C" using Br.IH(2) by blast
    have "plug (Br c' l' a r') (C @ [Fr Rgt c b l]) = Br c l b r" unfolding r by (simp add: plug_append)
    then show ?thesis by metis
  qed
qed simp

section \<open>Trees on the heap\<close>

fun tree_at :: "cl_map_items \<Rightarrow> nat \<Rightarrow> nat \<Rightarrow> ptree \<Rightarrow> bool" where
  "tree_at h N q Tip \<longleftrightarrow> True"
| "tree_at h N q (Br c l a r) \<longleftrightarrow>
    color h a = c \<and> p_up h a = q \<and> p_left h a = ptr N l \<and> p_right h a = ptr N r \<and> tree_at h N a l \<and> tree_at h N a r"

fun ctx_at :: "cl_map_items \<Rightarrow> nat \<Rightarrow> nat \<Rightarrow> nat \<Rightarrow> frm list \<Rightarrow> bool" where
  "ctx_at h R N p [] \<longleftrightarrow> p_left h R = p"
| "ctx_at h R N p (Fr s c a y # C) \<longleftrightarrow>
    color h a = c \<and> p_up h a = par R C \<and> child h s a = p \<and> child h (other s) a = ptr N y \<and> tree_at h N a y \<and> ctx_at h R N a C"

definition tree_in :: "cl_qmap \<Rightarrow> cl_map_items \<Rightarrow> ptree \<Rightarrow> bool" where
  "tree_in m h t \<longleftrightarrow> p_left h (map_root m) = ptr (map_nil m) t \<and> tree_at h (map_nil m) (map_root m) t \<and>
     distinct (map_root m # map_nil m # 0 # inord t)"

lemma tree_at_bra:
  "tree_at h N q (bra s c x a y) \<longleftrightarrow>
    color h a = c \<and> p_up h a = q \<and> child h s a = ptr N x \<and> child h (other s) a = ptr N y \<and> tree_at h N a x \<and> tree_at h N a y"
  by (cases s) auto

lemma plug_at:
  "p_left h R = ptr N (plug t C) \<and> tree_at h N R (plug t C) \<longleftrightarrow> ctx_at h R N (ptr N t) C \<and> tree_at h N (par R C) t"
proof (induction t C rule: plug.induct)
  case (2 t s c a y C)
  then show ?case by (auto simp: tree_at_bra)
qed simp

lemma tree_in_plug:
  "tree_in m h (plug t C) \<longleftrightarrow> ctx_at h (map_root m) (map_nil m) (ptr (map_nil m) t) C \<and> tree_at h (map_nil m) (par (map_root m) C) t \<and>
     distinct (map_root m # map_nil m # 0 # ctx_l C @ inord t @ ctx_r C)"
  unfolding tree_in_def inord_plug using plug_at by metis

section \<open>Updates\<close>

lemma sel_set [simp]:
  "child (set_child s a x h) = (child h)(s := (child h s)(a := x))" "p_up (set_child s a x h) = p_up h"
  "color (set_child s a x h) = color h" "item_key (set_child s a x h) = item_key h" "thread (set_child s a x h) = thread h"
  "child (set_up a x h) = child h" "p_up (set_up a x h) = (p_up h)(a := x)"
  "color (set_up a x h) = color h" "item_key (set_up a x h) = item_key h" "thread (set_up a x h) = thread h"
  "child (set_color a c h) = child h" "p_up (set_color a c h) = p_up h"
  "color (set_color a c h) = (color h)(a := c)" "item_key (set_color a c h) = item_key h" "thread (set_color a c h) = thread h"
  "child (set_key a k h) = child h" "p_up (set_key a k h) = p_up h"
  "color (set_key a k h) = color h" "item_key (set_key a k h) = (item_key h)(a := k)" "thread (set_key a k h) = thread h"
  "child (set_thread l h) = child h" "p_up (set_thread l h) = p_up h"
  "color (set_thread l h) = color h" "item_key (set_thread l h) = item_key h" "thread (set_thread l h) = l"
  by (simp_all add: set_child_def set_up_def set_color_def set_key_def set_thread_def)

definition same_item :: "cl_map_items \<Rightarrow> cl_map_items \<Rightarrow> nat \<Rightarrow> bool" where
  "same_item h h' x \<longleftrightarrow> color h' x = color h x \<and> p_up h' x = p_up h x \<and> (\<forall>s. child h' s x = child h s x)"

lemma same_itemI: "color h' x = color h x \<Longrightarrow> p_up h' x = p_up h x \<Longrightarrow> (\<And>s. child h' s x = child h s x) \<Longrightarrow> same_item h h' x"
  by (simp add: same_item_def)

lemma tree_at_cong: "(\<And>x. x \<in> set (inord t) \<Longrightarrow> same_item h h' x) \<Longrightarrow> tree_at h' N q t \<longleftrightarrow> tree_at h N q t"
  by (induction t arbitrary: q) (auto simp: same_item_def)

lemma ctx_at_cong:
  "(\<And>x. x \<in> set (ctx_l C @ ctx_r C) \<Longrightarrow> same_item h h' x) \<Longrightarrow> p_left h' R = p_left h R \<Longrightarrow> ctx_at h' R N p C \<longleftrightarrow> ctx_at h R N p C"
proof (induction h R N p C rule: ctx_at.induct)
  case (2 h R N p s c a y C)
  have "same_item h h' a" using 2(2)[of a] by (cases s) auto
  moreover have "tree_at h' N a y \<longleftrightarrow> tree_at h N a y" by (rule tree_at_cong, rule 2(2)) (cases s; simp)
  moreover have "ctx_at h' R N a C \<longleftrightarrow> ctx_at h R N a C" by (rule 2(1)[OF 2(2) 2(3)]) (cases s; auto)+
  ultimately show ?case by (simp add: same_item_def)
qed simp

lemma ctx_put:
  assumes "ctx_at h R N p C" "R \<notin> set (ctx_l C @ ctx_r C)" "distinct (ctx_l C @ ctx_r C)"
    and "\<And>x. x \<in> set (ctx_l C @ ctx_r C) \<Longrightarrow> x \<noteq> par R C \<Longrightarrow> same_item h h' x"
    and "color h' (par R C) = color h (par R C)" "p_up h' (par R C) = p_up h (par R C)"
    and "child h' (cside C) (par R C) = p'" "\<And>s. s \<noteq> cside C \<Longrightarrow> child h' s (par R C) = child h s (par R C)"
    and "C \<noteq> [] \<Longrightarrow> p_left h' R = p_left h R"
  shows "ctx_at h' R N p' C"
proof (cases C)
  case (Cons f D)
  obtain s c a y where f: "f = Fr s c a y" by (cases f)
  have n: "a \<notin> set (inord y)" "a \<notin> set (ctx_l D @ ctx_r D)" using assms(3) Cons f by (cases s; auto)+
  have sub: "set (inord y) \<subseteq> set (ctx_l C @ ctx_r C)" "set (ctx_l D @ ctx_r D) \<subseteq> set (ctx_l C @ ctx_r C)" using Cons f by (cases s; auto)+
  have "tree_at h' N a y \<longleftrightarrow> tree_at h N a y" by (rule tree_at_cong, rule assms(4)) (use n sub Cons f in auto)
  moreover have "ctx_at h' R N a D \<longleftrightarrow> ctx_at h R N a D"
    by (rule ctx_at_cong, rule assms(4)) (use n sub Cons f assms(9) in auto)
  ultimately show ?thesis using assms Cons f by (auto simp: same_item_def)
qed (use assms in simp)

section \<open>What is read\<close>

lemma par_in_ctx:
  assumes "C \<noteq> []"
  shows "par R C \<in> set (ctx_l C @ ctx_r C)"
proof -
  obtain s c a y D where "C = Fr s c a y # D" using assms by (metis frm.exhaust neq_Nil_conv)
  then show ?thesis by (cases s) simp_all
qed

lemma par_in: "par R C \<in> insert R (set (ctx_l C @ ctx_r C))"
  using par_in_ctx[of C R] by (cases "C = []") auto

lemma tree_in_addr:
  assumes "tree_in m h (plug t C)"
  shows "map_root m \<noteq> map_nil m" "map_root m \<noteq> 0" "map_nil m \<noteq> 0" "distinct (inord t)" "distinct (ctx_l C @ ctx_r C)"
    and "set (ctx_l C @ ctx_r C) \<inter> set (inord t) = {}" "{map_root m, map_nil m, 0} \<inter> set (inord t) = {}"
    and "{map_root m, map_nil m, 0} \<inter> set (ctx_l C @ ctx_r C) = {}" "par (map_root m) C \<notin> set (inord t)" "par (map_root m) C \<noteq> map_nil m" "par (map_root m) C \<noteq> 0"
  using assms par_in[of "map_root m" C] unfolding tree_in_plug by auto

lemma ctx_hole: "ctx_at h R N p C \<Longrightarrow> child h (cside C) (par R C) = p"
  by (cases "(h, R, N, p, C)" rule: ctx_at.cases) simp_all

lemma tree_in_node:
  assumes "tree_in m h (plug (bra s c x a y) C)"
  shows "color h a = c" "p_up h a = par (map_root m) C" "child h s a = ptr (map_nil m) x" "child h (other s) a = ptr (map_nil m) y"
    "a \<noteq> map_root m" "a \<noteq> map_nil m" "a \<noteq> 0" "par (map_root m) C \<noteq> a" "child h (cside C) (par (map_root m) C) = a"
proof -
  note d = tree_in_addr[OF assms]
  have u: "ctx_at h (map_root m) (map_nil m) a C" "tree_at h (map_nil m) (par (map_root m) C) (bra s c x a y)"
    using assms unfolding tree_in_plug by simp_all
  show "color h a = c" "p_up h a = par (map_root m) C" "child h s a = ptr (map_nil m) x" "child h (other s) a = ptr (map_nil m) y"
    using u(2) by (simp_all add: tree_at_bra)
  show "a \<noteq> map_root m" "a \<noteq> map_nil m" "a \<noteq> 0" "par (map_root m) C \<noteq> a" using d(7,9) by auto
  show "child h (cside C) (par (map_root m) C) = a" using u(1) by (rule ctx_hole)
qed

lemma ptr_in: "ptr N t \<in> insert N (set (inord t))"
  by (cases t) auto

lemma is_left_child:
  assumes "tree_in m h (plug (bra s c x a y) C)" "p_up h (ptr (map_nil m) x) = a" "x \<noteq> Tip \<or> y \<noteq> Tip"
  shows "cl_map_is_left_child (ptr (map_nil m) x) h = Inr (s = Lft)"
proof -
  note d = tree_in_addr[OF assms(1)] and n = tree_in_node[OF assms(1)]
  have ne: "ptr (map_nil m) x \<noteq> ptr (map_nil m) y"
    using assms(3) d(4,7) ptr_in[of "map_nil m" x] ptr_in[of "map_nil m" y] by (cases s; cases x; cases y) auto
  have p: "ptr (map_nil m) x \<noteq> 0" "ptr (map_nil m) x \<noteq> a"
    using d(3,4,7) ptr_in[of "map_nil m" x] n(6) by (cases s; auto)+
  show ?thesis using assms(2) n(3,4,7) ne p by (cases s) (auto simp: cl_map_is_left_child_def asserting_def)
qed

lemma parent_slot:
  assumes "tree_in m h (plug (bra s c x a y) C)"
  shows "cl_map_get_parent_ptr_to_item a h = Inr (cside C, par (map_root m) C)"
proof (cases C)
  case Nil
  then show ?thesis using tree_in_node[OF assms] tree_in_addr[OF assms]
    by (simp add: cl_map_get_parent_ptr_to_item_def cl_map_is_left_child_def asserting_def)
next
  case (Cons f D)
  obtain s' c' b y' where f: "f = Fr s' c' b y'" by (cases f)
  note n = tree_in_node[OF assms] and d = tree_in_addr[OF assms]
  have "cl_map_is_left_child a h = Inr (s' = Lft)"
    using is_left_child[of m h s' c' "bra s c x a y" b y' D] assms n(2) unfolding Cons f by simp
  then show ?thesis using n d(11) unfolding Cons f
    by (cases s') (auto simp: cl_map_get_parent_ptr_to_item_def asserting_def)
qed

section \<open>Colours and rotations\<close>

lemma recolor:
  assumes "tree_in m h (plug (bra s c x a y) C)"
  shows "tree_in m (set_color a c' h) (plug (bra s c' x a y) C)"
proof -
  note d = tree_in_addr[OF assms]
  have e: "inord (bra s c' x a y) = inord (bra s c x a y)" by (rule inord_color)
  have "a \<notin> set (inord x)" "a \<notin> set (inord y)" "a \<notin> set (ctx_l C @ ctx_r C)" using d(4,6) by (cases s; auto)+
  then have "tree_at (set_color a c' h) N q x = tree_at h N q x" "tree_at (set_color a c' h) N q y = tree_at h N q y"
    "ctx_at (set_color a c' h) R N p C = ctx_at h R N p C" for N R p q
    by (auto intro!: tree_at_cong ctx_at_cong same_itemI)
  then show ?thesis using assms unfolding tree_in_plug e by (simp add: tree_at_bra)
qed

lemma tree_at_adopt:
  assumes "tree_at h N q t" "distinct (inord t)" "N \<notin> set (inord t)"
    and "\<And>x. x \<in> set (inord t) \<Longrightarrow> x \<noteq> ptr N t \<Longrightarrow> same_item h h' x"
    and "t \<noteq> Tip \<Longrightarrow> color h' (ptr N t) = color h (ptr N t) \<and> p_up h' (ptr N t) = q' \<and> (\<forall>s. child h' s (ptr N t) = child h s (ptr N t))"
  shows "tree_at h' N q' t"
proof (cases t)
  case (Br c l a r)
  have "tree_at h' N a l \<longleftrightarrow> tree_at h N a l" "tree_at h' N a r \<longleftrightarrow> tree_at h N a r"
    by (rule tree_at_cong, rule assms(4); use assms(2) Br in auto)+
  then show ?thesis using assms Br by simp
qed simp

lemma rotated:
  assumes "tree_in m h (plug (bra s ca w a (bra s cc b c z)) C)"
    and N: "N = map_nil m" and q: "q = par (map_root m) C"
    and col: "color h' = color h"
    and ups: "p_up h' = (if b = Tip then p_up h else (p_up h)(ptr N b := a))(c := q, a := c)"
    and ch: "\<And>s' x. child h' s' x = (if x = q \<and> s' = cside C then c else if x = a \<and> s' = other s then ptr N b
      else if x = c \<and> s' = s then a else child h s' x)"
  shows "tree_in m h' (plug (bra s cc (bra s ca w a b) c z) C)"
proof -
  note d = tree_in_addr[OF assms(1)]
  let ?n = "insert a (insert c (set (inord w) \<union> set (inord b) \<union> set (inord z)))"
  have dis: "a \<noteq> c" "a \<notin> set (inord w)" "a \<notin> set (inord b)" "a \<notin> set (inord z)" "c \<notin> set (inord w)" "c \<notin> set (inord b)" "c \<notin> set (inord z)"
    "set (inord w) \<inter> set (inord b) = {}" "set (inord z) \<inter> set (inord b) = {}" "distinct (inord b)" using d(4) by (cases s; auto)+
  have qn: "q \<notin> ?n" using d(9) unfolding q by simp
  have b: "b \<noteq> Tip \<Longrightarrow> ptr N b \<in> set (inord b)" using ptr_in[of N b] by (cases b) auto
  have old: "tree_at h N q (bra s ca w a (bra s cc b c z))" "ctx_at h (map_root m) N a C" using assms(1) unfolding tree_in_plug N q by simp_all
  have nN: "N \<notin> ?n" using d(7) unfolding N by simp
  have "tree_at h' N a w \<longleftrightarrow> tree_at h N a w" "tree_at h' N c z \<longleftrightarrow> tree_at h N c z"
    by (rule tree_at_cong, rule same_itemI; use dis qn b in \<open>auto simp: col ups ch\<close>)+
  moreover have "tree_at h' N a b"
  proof (rule tree_at_adopt)
    show "tree_at h N c b" using old(1) by (simp add: tree_at_bra)
  qed (use dis qn nN b in \<open>auto simp: col ups ch intro!: same_itemI\<close>)
  ultimately have "tree_at h' N q (bra s cc (bra s ca w a b) c z)"
    using old(1) dis qn b nN by (auto simp: tree_at_bra col ups ch)
  moreover have "ctx_at h' (map_root m) N c C"
  proof (rule ctx_put[OF old(2)])
    have out: "x \<notin> ?n" if "x \<in> set (ctx_l C @ ctx_r C)" for x using that d(6) by auto
    show "same_item h h' x" if "x \<in> set (ctx_l C @ ctx_r C)" "x \<noteq> par (map_root m) C" for x
      by (rule same_itemI) (use out[OF that(1)] that(2) b q in \<open>auto simp: col ups ch\<close>)
    show "p_left h' (map_root m) = p_left h (map_root m)" if "C \<noteq> []"
    proof -
      have "par (map_root m) C \<noteq> map_root m" using par_in_ctx[OF that, of "map_root m"] d(8) by auto
      then show ?thesis using d(7) unfolding q ch by auto
    qed
  qed (use d(5,8) qn b q in \<open>auto simp: col ups ch\<close>)
  moreover have "inord (bra s cc (bra s ca w a b) c z) = inord (bra s ca w a (bra s cc b c z))" by (rule inord_rot)
  ultimately show ?thesis using assms(1) unfolding tree_in_plug N q by simp
qed

text \<open>
  What a rotation and the balancing leave alone: keys, the list, all items outside of the tree, and of the
  root item all but its pointer to the tree.
\<close>

definition outside :: "nat \<Rightarrow> nat set \<Rightarrow> cl_map_items \<Rightarrow> cl_map_items \<Rightarrow> bool" where
  "outside R A h h' \<longleftrightarrow> item_key h' = item_key h \<and> thread h' = thread h \<and>
     (\<forall>x. x \<notin> A \<longrightarrow> color h' x = color h x \<and> p_up h' x = p_up h x \<and> (\<forall>s. s \<noteq> Lft \<or> x \<noteq> R \<longrightarrow> child h' s x = child h s x))"

lemma outside_refl [simp]: "outside R A h h"
  by (simp add: outside_def)

lemma outside_trans: "outside R A h h' \<Longrightarrow> outside R A h' h'' \<Longrightarrow> outside R A h h''"
  by (auto simp: outside_def)

lemma outside_mono: "outside R A h h' \<Longrightarrow> A \<subseteq> B \<Longrightarrow> outside R B h h'"
  unfolding outside_def by blast

lemma outside_color [simp]: "a \<in> A \<Longrightarrow> outside R A h (set_color a c h') \<longleftrightarrow> outside R A h h'"
  by (auto simp: outside_def)

lemma outside_set:
  "a \<in> A \<Longrightarrow> outside R A h (set_up a x h') \<longleftrightarrow> outside R A h h'"
  "a \<in> A \<or> s = Lft \<and> a = R \<Longrightarrow> outside R A h (set_child s a x h') \<longleftrightarrow> outside R A h h'"
proof -
  show "a \<in> A \<Longrightarrow> outside R A h (set_up a x h') \<longleftrightarrow> outside R A h h'" by (auto simp: outside_def)
  assume a: "a \<in> A \<or> s = Lft \<and> a = R"
  have "s' \<noteq> Lft \<or> y \<noteq> R \<Longrightarrow> child (set_child s a x h') s' y = child h' s' y" if "y \<notin> A" for s' y using a that by auto
  then show "outside R A h (set_child s a x h') \<longleftrightarrow> outside R A h h'" unfolding outside_def by simp
qed

abbreviation around :: "cl_qmap \<Rightarrow> ptree \<Rightarrow> cl_map_items \<Rightarrow> cl_map_items \<Rightarrow> bool" where
  "around m t \<equiv> outside (map_root m) (set (inord t))"

lemma rot_steps:
  assumes "child h (other s) a \<noteq> map_nil m" "a \<noteq> 0" "cl_map_get_parent_ptr_to_item a h = Inr (t, q)"
    and "q \<noteq> a" "child h (other s) a = c" "q \<noteq> c" "c \<noteq> a"
  shows "cl_map_rot s m a h = Inr (set_up a c (set_child s c a
    (let g = set_child (other s) a (child h s c) (set_up c (p_up h a) (set_child t q c h))
     in if child h s c \<noteq> map_nil m then set_up (child h s c) a g else g)))"
  using assms by (cases s) (auto simp: cl_map_rot_def cl_map_rot_left_def cl_map_rot_right_def asserting_def put_def fetch_def Let_def)

lemma rot:
  assumes "tree_in m h (plug (bra s ca w a (bra s cc b c z)) C)"
  obtains h' where "cl_map_rot s m a h = Inr h'" "tree_in m h' (plug (bra s cc (bra s ca w a b) c z) C)"
    "color h' = color h" "around m (plug (bra s ca w a (bra s cc b c z)) C) h h'"
proof -
  let ?N = "map_nil m" and ?q = "par (map_root m) C"
  have c': "tree_in m h (plug (bra s cc b c z) (Fr (other s) ca a w # C))" using assms by simp
  note n = tree_in_node[OF assms] and k = tree_in_node[OF c'] and d = tree_in_addr[OF assms]
  have ne: "?q \<noteq> a" "?q \<noteq> c" "c \<noteq> a" "c \<noteq> ?N" using d(4,7,9) by (cases s; auto)+
  let ?g = "set_child (other s) a (ptr ?N b) (set_up c ?q (set_child (cside C) ?q c h))"
  let ?g' = "if b = Tip then ?g else set_up (ptr ?N b) a ?g"
  let ?h = "set_up a c (set_child s c a ?g')"
  have bt: "ptr ?N b = ?N \<longleftrightarrow> b = Tip" using d(7) ptr_in[of ?N b] by (cases b) auto
  have "cl_map_rot s m a h = Inr ?h"
    using rot_steps[of h s a m "cside C" ?q c] n k ne parent_slot[OF assms] bt by (simp add: Let_def)
  moreover have "tree_in m ?h (plug (bra s cc (bra s ca w a b) c z) C)"
  proof (rule rotated[OF assms refl refl])
    have "b \<noteq> Tip \<Longrightarrow> ptr ?N b \<noteq> c \<and> ptr ?N b \<noteq> a" using d(4) by (cases s; cases b) auto
    then show "p_up ?h = (if b = Tip then p_up h else (p_up h)(ptr ?N b := a))(c := ?q, a := c)"
      using ne by (auto simp: fun_eq_iff)
  qed (use ne in \<open>auto simp: fun_upd_def\<close>)
  moreover have "around m (plug (bra s ca w a (bra s cc b c z)) C) h ?h"
  proof -
    have q: "?q = map_root m \<and> cside C = Lft \<or> ?q \<in> set (ctx_l C @ ctx_r C)" using par_in_ctx[of C] by (cases "C = []") auto
    have "b \<noteq> Tip \<Longrightarrow> ptr ?N b \<in> set (inord b)" by (cases b) auto
    then show ?thesis using q unfolding inord_plug by (auto simp: outside_def fun_upd_def)
  qed
  ultimately show thesis by (intro that[of ?h]) simp_all
qed

section \<open>Red-black trees\<close>

fun rcol :: "ptree \<Rightarrow> cl_map_color" where
  "rcol Tip = CL_MAP_BLACK"
| "rcol (Br c l a r) = c"

text \<open>A red-black tree with the given number of black items on every branch.\<close>

fun rb :: "nat \<Rightarrow> ptree \<Rightarrow> bool" where
  "rb n Tip \<longleftrightarrow> n = 0"
| "rb n (Br c l a r) \<longleftrightarrow>
    (if c = CL_MAP_RED then rcol l = CL_MAP_BLACK \<and> rcol r = CL_MAP_BLACK \<and> rb n l \<and> rb n r
     else 0 < n \<and> rb (n - 1) l \<and> rb (n - 1) r)"

fun ccol :: "frm list \<Rightarrow> cl_map_color" where
  "ccol [] = CL_MAP_BLACK"
| "ccol (Fr s c a y # C) = c"

lemma ctx_color: "ctx_at h R N p C \<Longrightarrow> color h R = CL_MAP_BLACK \<Longrightarrow> color h (par R C) = ccol C"
  by (cases "(h, R, N, p, C)" rule: ctx_at.cases) simp_all

text \<open>What is around a hole for a tree of the given height, in a tree whose root is black.\<close>

fun crb :: "nat \<Rightarrow> frm list \<Rightarrow> bool" where
  "crb n [] \<longleftrightarrow> True"
| "crb n (Fr s c a y # C) \<longleftrightarrow>
    rb n y \<and> (if c = CL_MAP_RED then rcol y = CL_MAP_BLACK \<and> C \<noteq> [] \<and> ccol C = CL_MAP_BLACK \<and> crb n C else crb (Suc n) C)"

lemma color_cases: "c \<noteq> CL_MAP_RED \<longleftrightarrow> c = CL_MAP_BLACK" "c \<noteq> CL_MAP_BLACK \<longleftrightarrow> c = CL_MAP_RED"
  by (cases c; simp)+

lemma rcol_bra [simp]: "rcol (bra s c x a y) = c"
  by (cases s) simp_all

lemma rb_bra:
  "rb n (bra s c x a y) \<longleftrightarrow>
    (if c = CL_MAP_RED then rcol x = CL_MAP_BLACK \<and> rcol y = CL_MAP_BLACK \<and> rb n x \<and> rb n y
     else 0 < n \<and> rb (n - 1) x \<and> rb (n - 1) y)"
  by (cases s) auto

lemma rb_plug:
  assumes "rb n t" "crb n C" "rcol t = CL_MAP_BLACK \<or> ccol C = CL_MAP_BLACK"
  shows "(\<exists>k. rb k (plug t C)) \<and> rcol (plug t C) = (if C = [] then rcol t else CL_MAP_BLACK)"
  using assms
proof (induction t C arbitrary: n rule: plug.induct)
  case (2 t s c a y C)
  show ?case
  proof (cases c)
    case CL_MAP_RED
    then have "rb n (bra s c t a y)" "crb n C" "ccol C = CL_MAP_BLACK" "C \<noteq> []" using 2(2-4) by (auto simp: rb_bra)
    then show ?thesis using 2(1)[of n] CL_MAP_RED by simp
  next
    case CL_MAP_BLACK
    then have "rb (Suc n) (bra s c t a y)" "crb (Suc n) C" using 2(2-4) by (auto simp: rb_bra)
    then show ?thesis using 2(1)[of "Suc n"] CL_MAP_BLACK by simp
  qed
qed auto

lemma rb_unplug:
  assumes "rb k (plug t C)" "rcol (plug t C) = CL_MAP_BLACK"
  shows "\<exists>n. rb n t \<and> crb n C \<and> (rcol t = CL_MAP_BLACK \<or> C \<noteq> [] \<and> ccol C = CL_MAP_BLACK)"
  using assms
proof (induction t C arbitrary: k rule: plug.induct)
  case (2 t s c a y C)
  then obtain n where n: "rb n (bra s c t a y)" "crb n C" "c = CL_MAP_BLACK \<or> C \<noteq> [] \<and> ccol C = CL_MAP_BLACK" by fastforce
  show ?case
  proof (cases c)
    case CL_MAP_RED
    then show ?thesis using n by (intro exI[of _ n]) (auto simp: rb_bra)
  next
    case CL_MAP_BLACK
    then show ?thesis using n by (intro exI[of _ "n - 1"]) (auto simp: rb_bra)
  qed
qed auto

fun height :: "ptree \<Rightarrow> nat" where
  "height Tip = 0"
| "height (Br c l a r) = Suc (max (height l) (height r))"

lemma rb_size: "rb n t \<Longrightarrow> 2 ^ n \<le> length (inord t) + 1"
proof (induction n t rule: rb.induct)
  case (2 n c l a r)
  show ?case
  proof (cases "c = CL_MAP_RED")
    case False
    then obtain k where n: "n = Suc k" "2 ^ k \<le> length (inord l) + 1" "2 ^ k \<le> length (inord r) + 1" using 2 by (cases n) auto
    then show ?thesis by simp
  qed (use 2 in auto)
qed simp

lemma rb_height: "rb n t \<Longrightarrow> height t \<le> 2 * n + of_bool (rcol t = CL_MAP_RED)"
proof (induction n t rule: rb.induct)
  case (2 n c l a r)
  show ?case
  proof (cases "c = CL_MAP_RED")
    case False
    then have "height l \<le> 2 * (n - 1) + 1" "height r \<le> 2 * (n - 1) + 1" using 2 by (auto intro: order.trans)
    then show ?thesis using 2(5) False by auto
  qed (use 2 in auto)
qed simp

text \<open>Searches and rounds of balancing follow one branch, whose length is logarithmic in the number of items.\<close>

lemma rb_balanced:
  assumes "rb n t" "rcol t = CL_MAP_BLACK"
  shows "2 ^ height t \<le> (length (inord t) + 1) ^ 2"
proof -
  have "(2 :: nat) ^ height t \<le> 2 ^ (2 * n)" using rb_height[OF assms(1)] assms(2) by simp
  also have "\<dots> = (2 ^ n) ^ 2" by (simp add: power_mult power_mult_distrib mult.commute flip: power_mult)
  also have "\<dots> \<le> (length (inord t) + 1) ^ 2" using rb_size[OF assms(1)] by (intro power_mono) simp_all
  finally show ?thesis .
qed

end
