(* ===== verification/Qmap_Insert.thy ===== *)
theory Qmap_Insert
  imports Qmap_Trees
begin

text \<open>
  Insertion into the maps of \<open>util/cl_map.c\<close>: the rounds of balancing keep the order of the items and end
  in a red-black tree; the item is linked into the tree and the list at the place its key belongs to.
\<close>

section \<open>Balancing\<close>

lemma ins_rotate:
  assumes "tree_in m h (plug (bra s CL_MAP_BLACK (bra s CL_MAP_RED x p1 y1) p2 y2) C)"
  obtains h' where "cl_map_rot (other s) m p2 (set_color p2 CL_MAP_RED (set_color p1 CL_MAP_BLACK h)) = Inr h'"
    "tree_in m h' (plug (bra s CL_MAP_BLACK x p1 (bra s CL_MAP_RED y1 p2 y2)) C)"
    "around m (plug (bra s CL_MAP_BLACK (bra s CL_MAP_RED x p1 y1) p2 y2) C) h h'"
proof -
  let ?T = "plug (bra s CL_MAP_BLACK (bra s CL_MAP_RED x p1 y1) p2 y2) C"
  have "tree_in m (set_color p1 CL_MAP_BLACK h) (plug (bra s CL_MAP_BLACK x p1 y1) (Fr s CL_MAP_BLACK p2 y2 # C))"
    by (rule recolor[where c = CL_MAP_RED]) (use assms in simp)
  then have t: "tree_in m (set_color p2 CL_MAP_RED (set_color p1 CL_MAP_BLACK h)) (plug (bra s CL_MAP_RED (bra s CL_MAP_BLACK x p1 y1) p2 y2) C)"
    by (intro recolor[where c = CL_MAP_BLACK]) simp
  have set: "set (inord (plug (bra (other s) CL_MAP_RED y2 p2 (bra (other s) CL_MAP_BLACK y1 p1 x)) C)) = set (inord ?T)"
    by (simp add: inord_plug)
  obtain h' where h': "cl_map_rot (other s) m p2 (set_color p2 CL_MAP_RED (set_color p1 CL_MAP_BLACK h)) = Inr h'"
    "tree_in m h' (plug (bra (other s) CL_MAP_BLACK (bra (other s) CL_MAP_RED y2 p2 y1) p1 x) C)"
    "around m ?T (set_color p2 CL_MAP_RED (set_color p1 CL_MAP_BLACK h)) h'"
    using rot[of m "set_color p2 CL_MAP_RED (set_color p1 CL_MAP_BLACK h)" "other s" CL_MAP_RED y2 p2 CL_MAP_BLACK y1 p1 x C] t
    unfolding set by auto
  have "p1 \<in> set (inord ?T)" "p2 \<in> set (inord ?T)" by (simp_all add: inord_plug)
  then have "around m ?T h (set_color p2 CL_MAP_RED (set_color p1 CL_MAP_BLACK h))" by simp
  then show thesis using that[OF h'(1)] h'(2) outside_trans[OF _ h'(3)] by simp
qed

text \<open>A round keeps the order of the items, leaves a red item with black children at the place it names, and moves up.\<close>

definition red_at :: "nat \<Rightarrow> nat \<Rightarrow> ptree \<Rightarrow> frm list \<Rightarrow> bool" where
  "red_at n p t C \<longleftrightarrow> (\<exists>l r. t = Br CL_MAP_RED l p r) \<and> rb n t \<and> crb n C"

lemma red_atD: "red_at n p t C \<Longrightarrow> \<exists>l r. t = bra s CL_MAP_RED l p r \<and> rcol l = CL_MAP_BLACK \<and> rcol r = CL_MAP_BLACK \<and> rb n l \<and> rb n r"
  by (cases s) (auto simp: red_at_def)

lemma red_at_bra: "red_at n p (bra s CL_MAP_RED l p r) C \<longleftrightarrow> rcol l = CL_MAP_BLACK \<and> rcol r = CL_MAP_BLACK \<and> rb n l \<and> rb n r \<and> crb n C"
  by (cases s) (auto simp: red_at_def)

lemma ins_round_red:
  assumes t: "tree_in m h (plug (bra s2 CL_MAP_BLACK (bra s1 CL_MAP_RED x p1 y1) p2 (bra s2 CL_MAP_RED ul u ur)) C)"
    and up: "p_up h p = p1"
  shows "\<exists>h'. ins_bal_round m p h = Inr (p2, h') \<and>
    tree_in m h' (plug (bra s2 CL_MAP_RED (bra s1 CL_MAP_BLACK x p1 y1) p2 (bra s2 CL_MAP_BLACK ul u ur)) C) \<and>
    around m (plug (bra s2 CL_MAP_BLACK (bra s1 CL_MAP_RED x p1 y1) p2 (bra s2 CL_MAP_RED ul u ur)) C) h h'"
proof -
  let ?T = "plug (bra s2 CL_MAP_BLACK (bra s1 CL_MAP_RED x p1 y1) p2 (bra s2 CL_MAP_RED ul u ur)) C"
  have t1: "tree_in m h (plug (bra s1 CL_MAP_RED x p1 y1) (Fr s2 CL_MAP_BLACK p2 (bra s2 CL_MAP_RED ul u ur) # C))" using t by simp
  have t2: "tree_in m h (plug (bra s2 CL_MAP_RED ul u ur) (Fr (other s2) CL_MAP_BLACK p2 (bra s1 CL_MAP_RED x p1 y1) # C))" using t by simp
  note n1 = tree_in_node[OF t1] and n2 = tree_in_node[OF t2] and n = tree_in_node[OF t]
  have left: "cl_map_is_left_child p1 h = Inr (s2 = Lft)" using is_left_child[OF t] n1 by simp
  have s: "(if s2 = Lft then Lft else Rgt) = s2" by (cases s2) simp_all
  let ?h = "set_color p2 CL_MAP_RED (set_color p1 CL_MAP_BLACK (set_color u CL_MAP_BLACK h))"
  have "ins_bal_round m p h = Inr (p2, ?h)"
    using left up n1 n2 n by (simp add: ins_bal_round_def s Let_def asserting_def)
  moreover have "tree_in m (set_color u CL_MAP_BLACK h) (plug (bra s1 CL_MAP_RED x p1 y1) (Fr s2 CL_MAP_BLACK p2 (bra s2 CL_MAP_BLACK ul u ur) # C))"
    using recolor[OF t2, of CL_MAP_BLACK] by simp
  then have "tree_in m (set_color p1 CL_MAP_BLACK (set_color u CL_MAP_BLACK h)) (plug (bra s2 CL_MAP_BLACK (bra s1 CL_MAP_BLACK x p1 y1) p2 (bra s2 CL_MAP_BLACK ul u ur)) C)"
    using recolor[of m _ s1 CL_MAP_RED x p1 y1 _ CL_MAP_BLACK] by fastforce
  then have "tree_in m ?h (plug (bra s2 CL_MAP_RED (bra s1 CL_MAP_BLACK x p1 y1) p2 (bra s2 CL_MAP_BLACK ul u ur)) C)" by (rule recolor)
  moreover have "p1 \<in> set (inord ?T)" "p2 \<in> set (inord ?T)" "u \<in> set (inord ?T)" by (simp_all add: inord_plug)
  then have "around m ?T h ?h" by simp
  ultimately show ?thesis by blast
qed

lemma ins_round_black:
  assumes t: "tree_in m h (plug (bra s2 CL_MAP_BLACK (bra s1 CL_MAP_RED (bra s2 CL_MAP_RED xl p xr) p1 y1) p2 y2) C)"
    and b: "rcol y2 = CL_MAP_BLACK" "color h (map_nil m) = CL_MAP_BLACK"
  shows "\<exists>h'. ins_bal_round m p h = Inr (if s1 = s2 then p else p1, h') \<and>
    tree_in m h' (if s1 = s2 then plug (bra s2 CL_MAP_BLACK (bra s2 CL_MAP_RED xl p xr) p1 (bra s2 CL_MAP_RED y1 p2 y2)) C
       else plug (bra s2 CL_MAP_BLACK (bra s2 CL_MAP_RED y1 p1 xl) p (bra s2 CL_MAP_RED xr p2 y2)) C) \<and>
    around m (plug (bra s2 CL_MAP_BLACK (bra s1 CL_MAP_RED (bra s2 CL_MAP_RED xl p xr) p1 y1) p2 y2) C) h h'"
proof -
  let ?x = "bra s2 CL_MAP_RED xl p xr"
  let ?T = "plug (bra s2 CL_MAP_BLACK (bra s1 CL_MAP_RED ?x p1 y1) p2 y2) C"
  have t1: "tree_in m h (plug (bra s1 CL_MAP_RED ?x p1 y1) (Fr s2 CL_MAP_BLACK p2 y2 # C))" using t by simp
  have t0: "tree_in m h (plug ?x (Fr s1 CL_MAP_RED p1 y1 # Fr s2 CL_MAP_BLACK p2 y2 # C))" using t by simp
  note n1 = tree_in_node[OF t1] and n0 = tree_in_node[OF t0] and n = tree_in_node[OF t] and d = tree_in_addr[OF t]
  have left: "cl_map_is_left_child p1 h = Inr (s2 = Lft)" "cl_map_is_left_child p h = Inr (s1 = Lft)"
    using is_left_child[OF t] is_left_child[OF t1] n1 n0 by simp_all
  have s: "(if s2 = Lft then Lft else Rgt) = s2" by (cases s2) simp_all
  have u: "color h (ptr (map_nil m) y2) \<noteq> CL_MAP_RED" "ptr (map_nil m) y2 \<noteq> 0"
  proof -
    have "color h (ptr (map_nil m) y2) = rcol y2"
      using t b(2) unfolding tree_in_plug tree_at_bra by (cases y2) simp_all
    then show "color h (ptr (map_nil m) y2) \<noteq> CL_MAP_RED" using b(1) by simp
    show "ptr (map_nil m) y2 \<noteq> 0" using d(3,7) by (cases y2) auto
  qed
  note start = left n0 n1 n u s
  show ?thesis
  proof (cases "s1 = s2")
    case True
    obtain h' where h': "cl_map_rot (other s2) m p2 (set_color p2 CL_MAP_RED (set_color p1 CL_MAP_BLACK h)) = Inr h'"
      "tree_in m h' (plug (bra s2 CL_MAP_BLACK ?x p1 (bra s2 CL_MAP_RED y1 p2 y2)) C)" "around m ?T h h'"
      using ins_rotate[of m h s2 ?x p1 y1 p2 y2 C] t True by auto
    have "ins_bal_round m p h = Inr (p, h')" using start True h'(1) by (simp add: ins_bal_round_def Let_def asserting_def)
    then show ?thesis using h'(2,3) True by auto
  next
    case False
    then have s1: "s1 = other s2" using side_split(2)[of s1 s2] by simp
    obtain g where g: "cl_map_rot s2 m p1 h = Inr g" "tree_in m g (plug (bra s2 CL_MAP_RED (bra s2 CL_MAP_RED y1 p1 xl) p xr) (Fr s2 CL_MAP_BLACK p2 y2 # C))"
      "around m ?T h g" using rot[of m h s2 CL_MAP_RED y1 p1 CL_MAP_RED xl p xr "Fr s2 CL_MAP_BLACK p2 y2 # C"] t1 unfolding s1 bra_other by auto
    have g2: "tree_in m g (plug (bra s2 CL_MAP_BLACK (bra s2 CL_MAP_RED (bra s2 CL_MAP_RED y1 p1 xl) p xr) p2 y2) C)" using g(2) by simp
    have g1: "tree_in m g (plug (bra s2 CL_MAP_RED y1 p1 xl) (Fr s2 CL_MAP_RED p xr # Fr s2 CL_MAP_BLACK p2 y2 # C))" using g(2) by simp
    note k1 = tree_in_node[OF g1] and k = tree_in_node[OF g(2)]
    obtain h' where h': "cl_map_rot (other s2) m p2 (set_color p2 CL_MAP_RED (set_color p CL_MAP_BLACK g)) = Inr h'"
      "tree_in m h' (plug (bra s2 CL_MAP_BLACK (bra s2 CL_MAP_RED y1 p1 xl) p (bra s2 CL_MAP_RED xr p2 y2)) C)"
      "around m (plug (bra s2 CL_MAP_BLACK (bra s2 CL_MAP_RED (bra s2 CL_MAP_RED y1 p1 xl) p xr) p2 y2) C) g h'"
      using ins_rotate[OF g2] by blast
    have "set (inord (plug (bra s2 CL_MAP_BLACK (bra s2 CL_MAP_RED (bra s2 CL_MAP_RED y1 p1 xl) p xr) p2 y2) C)) = set (inord ?T)"
      unfolding s1 by (auto simp: inord_plug)
    then have out: "around m ?T h h'" using outside_trans[OF g(3)] h'(3) by simp
    have "ins_bal_round m p h = Inr (p1, h')" using start s1 g(1) h'(1) k1 k by (simp add: ins_bal_round_def Let_def asserting_def)
    then show ?thesis using h'(2) out False by auto
  qed
qed

lemma ccol_frame: "ccol C = CL_MAP_RED \<Longrightarrow> \<exists>s a y D. C = Fr s CL_MAP_RED a y # D"
  by (cases C rule: ccol.cases) auto

lemma ccol_frame_black: "C \<noteq> [] \<Longrightarrow> ccol C = CL_MAP_BLACK \<Longrightarrow> \<exists>s a y D. C = Fr s CL_MAP_BLACK a y # D"
  by (cases C rule: ccol.cases) auto

lemma ins_round:
  assumes t: "tree_in m h (plug t C)" and r: "red_at n p t C" "ccol C = CL_MAP_RED" and b: "color h (map_nil m) = CL_MAP_BLACK"
  shows "\<exists>p' h' t' C' n'. ins_bal_round m p h = Inr (p', h') \<and> tree_in m h' (plug t' C') \<and> red_at n' p' t' C' \<and>
    inord (plug t' C') = inord (plug t C) \<and> length C' < length C \<and> around m (plug t C) h h'"
proof -
  obtain s1 p1 y1 C1 where C: "C = Fr s1 CL_MAP_RED p1 y1 # C1" using ccol_frame[OF r(2)] by blast
  then have c1: "rb n y1" "rcol y1 = CL_MAP_BLACK" "C1 \<noteq> []" "ccol C1 = CL_MAP_BLACK" "crb n C1" using r(1) by (auto simp: red_at_def)
  then obtain s2 p2 y2 D where C1: "C1 = Fr s2 CL_MAP_BLACK p2 y2 # D" using ccol_frame_black by blast
  then have c2: "rb n y2" "crb (Suc n) D" using c1(5) by simp_all
  obtain xl xr where x: "t = bra s2 CL_MAP_RED xl p xr" "rcol xl = CL_MAP_BLACK" "rcol xr = CL_MAP_BLACK" "rb n xl" "rb n xr" using red_atD[OF r(1)] by blast
  have rt: "rb n t" using r(1) by (simp add: red_at_def)
  have T: "plug t C = plug (bra s2 CL_MAP_BLACK (bra s1 CL_MAP_RED t p1 y1) p2 y2) D" using C C1 by simp
  have t0: "tree_in m h (plug t (Fr s1 CL_MAP_RED p1 y1 # C1))" using t C by simp
  have up: "p_up h p = p1" using tree_in_node(2)[OF t0[unfolded x(1)]] by simp
  show ?thesis
  proof (cases "rcol y2")
    case CL_MAP_RED
    then obtain ul u ur where y2: "y2 = bra s2 CL_MAP_RED ul u ur" using tree_cases_side[of y2 s2] by auto
    let ?t = "bra s2 CL_MAP_RED (bra s1 CL_MAP_BLACK t p1 y1) p2 (bra s2 CL_MAP_BLACK ul u ur)"
    have "red_at (Suc n) p2 ?t D" using rt c1 c2 y2 by (simp add: red_at_bra rb_bra)
    moreover have "inord (plug ?t D) = inord (plug t C)" unfolding T y2 by (intro inord_plug_cong inord_bra_cong refl)
    ultimately show ?thesis using ins_round_red[OF t[unfolded T y2] up] unfolding T y2
      by (intro exI[of _ p2]) (auto simp: C C1 intro!: exI[of _ ?t] exI[of _ D])
  next
    case CL_MAP_BLACK
    have tb: "tree_in m h (plug (bra s2 CL_MAP_BLACK (bra s1 CL_MAP_RED (bra s2 CL_MAP_RED xl p xr) p1 y1) p2 y2) D)"
      using t unfolding T by (simp only: x(1))
    obtain h' where h': "ins_bal_round m p h = Inr (if s1 = s2 then p else p1, h')"
      "tree_in m h' (if s1 = s2 then plug (bra s2 CL_MAP_BLACK t p1 (bra s2 CL_MAP_RED y1 p2 y2)) D
         else plug (bra s2 CL_MAP_BLACK (bra s2 CL_MAP_RED y1 p1 xl) p (bra s2 CL_MAP_RED xr p2 y2)) D)"
      "around m (plug t C) h h'" using ins_round_black[OF tb CL_MAP_BLACK b] unfolding x(1)[symmetric] T[symmetric] by blast
    show ?thesis
    proof (cases "s1 = s2")
      case True
      let ?C = "Fr s2 CL_MAP_BLACK p1 (bra s2 CL_MAP_RED y1 p2 y2) # D"
      have "inord (plug t ?C) = inord (plug t C)" unfolding T True by (simp del: inord.simps) (rule inord_plug_cong, rule inord_rot[symmetric])
      moreover have "red_at n p t ?C" using x c1 c2 CL_MAP_BLACK by (simp add: red_at_bra rb_bra)
      ultimately show ?thesis using h' True by - (rule exI[of _ p], rule exI[of _ h'], rule exI[of _ t], rule exI[of _ ?C], rule exI[of _ n], simp add: C C1)
    next
      case False
      then have s1: "s1 = other s2" using side_split(2)[of s1 s2] by simp
      let ?t = "bra s2 CL_MAP_RED y1 p1 xl" and ?C = "Fr s2 CL_MAP_BLACK p (bra s2 CL_MAP_RED xr p2 y2) # D"
      have "inord (plug ?t ?C) = inord (plug t C)" unfolding C C1 x(1) s1 by (cases s2) (simp_all add: inord_plug)
      moreover have "red_at n p1 ?t ?C" using x c1 c2 CL_MAP_BLACK by (simp add: red_at_bra rb_bra)
      ultimately show ?thesis using h' False by - (rule exI[of _ p1], rule exI[of _ h'], rule exI[of _ ?t], rule exI[of _ ?C], rule exI[of _ n], simp add: C C1)
    qed
  qed
qed

lemma ins_loop:
  assumes "tree_in m h (plug t C)" "red_at n p t C" "color h (map_nil m) = CL_MAP_BLACK" "color h (map_root m) = CL_MAP_BLACK"
  shows "\<exists>h' t' k. ins_bal_loop m p h = Some (Inr h') \<and> tree_in m h' t' \<and> rb k t' \<and> inord t' = inord (plug t C) \<and> around m (plug t C) h h'"
  using assms
proof (induction "length C" arbitrary: h t C n p rule: less_induct)
  case less
  have addr: "map_nil m \<notin> set (inord (plug t C))" "map_root m \<notin> set (inord (plug t C))" using less.prems(1) by (auto simp: tree_in_def)
  obtain l r where t: "t = bra Lft CL_MAP_RED l p r" using red_atD[OF less.prems(2)] by blast
  have up: "p_up h p = par (map_root m) C" using tree_in_node(2)[OF less.prems(1)[unfolded t]] .
  have col: "color h (par (map_root m) C) = ccol C"
    using ctx_color[OF _ less.prems(4)] less.prems(1) unfolding tree_in_plug by blast
  show ?case
  proof (cases "ccol C = CL_MAP_RED")
    case True
    obtain p' h' t' C' n' where s: "ins_bal_round m p h = Inr (p', h')" "tree_in m h' (plug t' C')" "red_at n' p' t' C'"
      "inord (plug t' C') = inord (plug t C)" "length C' < length C" "around m (plug t C) h h'"
      using ins_round[OF less.prems(1,2) True less.prems(3)] by blast
    have "color h' (map_nil m) = CL_MAP_BLACK" "color h' (map_root m) = CL_MAP_BLACK" using s(6) addr less.prems(3,4) by (auto simp: outside_def)
    from less.hyps[OF s(5,2,3) this] obtain g t'' k where g: "ins_bal_loop m p' h' = Some (Inr g)" "tree_in m g t''" "rb k t''"
      "inord t'' = inord (plug t' C')" "around m (plug t' C') h' g" by blast
    have "ins_bal_loop m p h = Some (Inr g)" using g(1) s(1) up col True by (subst ins_bal_loop.simps) simp
    moreover have "around m (plug t C) h g" using outside_trans[OF s(6)] g(5) s(4) by simp
    ultimately show ?thesis using g s(4) by auto
  next
    case False
    then have "\<exists>k. rb k (plug t C)" using rb_plug[of n t C] less.prems(2) by (auto simp: red_at_def color_cases)
    moreover have "ins_bal_loop m p h = Some (Inr h)" using up col False by (subst ins_bal_loop.simps) simp
    ultimately show ?thesis using less.prems(1) by auto
  qed
qed

section \<open>The invariant of a map\<close>

definition qmap_at :: "cl_qmap \<Rightarrow> cl_map_items \<Rightarrow> ptree \<Rightarrow> bool" where
  "qmap_at m h t \<longleftrightarrow> tree_in m h t \<and> (\<exists>k. rb k t) \<and> rcol t = CL_MAP_BLACK \<and>
     color h (map_nil m) = CL_MAP_BLACK \<and> color h (map_root m) = CL_MAP_BLACK \<and> p_up h (map_root m) = map_root m \<and>
     sorted_wrt (<) (map (item_key h) (inord t)) \<and> holds (thread h) (map_nil m) (inord t) \<and> map_count m = of_nat (length (inord t))"

text \<open>All of an item is unchanged.\<close>

definition elsewhere :: "nat set \<Rightarrow> cl_map_items \<Rightarrow> cl_map_items \<Rightarrow> bool" where
  "elsewhere A h h' \<longleftrightarrow> (\<forall>x. x \<notin> A \<longrightarrow> same_item h h' x \<and> item_key h' x = item_key h x \<and>
     nxt (thread h') x = nxt (thread h) x \<and> prv (thread h') x = prv (thread h) x)"

lemma elsewhere_trans: "elsewhere A h h' \<Longrightarrow> elsewhere A h' h'' \<Longrightarrow> elsewhere A h h''"
  by (auto simp: elsewhere_def same_item_def)

lemma elsewhere_mono: "elsewhere A h h' \<Longrightarrow> A \<subseteq> B \<Longrightarrow> elsewhere B h h'"
  unfolding elsewhere_def by blast

lemma elsewhere_refl [simp]: "elsewhere A h h"
  by (simp add: elsewhere_def same_item_def)

lemma elsewhere_set [simp]:
  "a \<in> A \<Longrightarrow> elsewhere A h (set_child s a x h') \<longleftrightarrow> elsewhere A h h'" "a \<in> A \<Longrightarrow> elsewhere A h (set_up a x h') \<longleftrightarrow> elsewhere A h h'"
  "a \<in> A \<Longrightarrow> elsewhere A h (set_color a c h') \<longleftrightarrow> elsewhere A h h'" "a \<in> A \<Longrightarrow> elsewhere A h (set_key a k h') \<longleftrightarrow> elsewhere A h h'"
  by (auto simp: elsewhere_def same_item_def)

lemma outside_elsewhere: "outside R A h h' \<Longrightarrow> elsewhere (insert R A) h h'"
  by (auto simp: outside_def elsewhere_def same_item_def)

lemma tree_in_cong:
  assumes "\<And>x. x \<in> set (inord t) \<Longrightarrow> same_item h h' x" "p_left h' (map_root m) = p_left h (map_root m)"
  shows "tree_in m h' t \<longleftrightarrow> tree_in m h t"
  using tree_at_cong[of t h h'] assms by (auto simp: tree_in_def)

lemma qmap_frame:
  assumes "elsewhere A h h'" "qmap_at m h t" "insert (map_root m) (insert (map_nil m) (set (inord t))) \<inter> A = {}"
  shows "qmap_at m h' t"
proof -
  have e: "same_item h h' x" "item_key h' x = item_key h x" "nxt (thread h') x = nxt (thread h) x" "prv (thread h') x = prv (thread h) x"
    if "x \<in> insert (map_root m) (insert (map_nil m) (set (inord t)))" for x using that assms(1,3) unfolding elsewhere_def by blast+
  have "tree_in m h' t \<longleftrightarrow> tree_in m h t" by (rule tree_in_cong) (use e(1) in \<open>auto simp: same_item_def\<close>)
  moreover have "holds (thread h') (map_nil m) (inord t)"
  proof (rule holds_frame)
    show "only (- set (map_nil m # inord t)) (thread h) (thread h')" using e by (simp add: only_def)
    show "holds (thread h) (map_nil m) (inord t)" using assms(2) by (simp add: qmap_at_def)
  qed simp
  moreover have "map (item_key h') (inord t) = map (item_key h) (inord t)" using e by simp
  then have "sorted_wrt (<) (map (item_key h') (inord t))" using assms(2) by (simp only: qmap_at_def)
  ultimately show ?thesis using assms(2) e(1)[of "map_nil m"] e(1)[of "map_root m"] by (simp add: qmap_at_def same_item_def)
qed

section \<open>Finding the place\<close>

lemma insert_loop_finds:
  assumes "tree_in m h (plug t C)" "sorted_wrt (<) (map (item_key h) (inord t))"
    and "\<And>x. x \<in> set (ctx_l C) \<Longrightarrow> item_key h x < k" "\<And>x. x \<in> set (ctx_r C) \<Longrightarrow> k < item_key h x"
  shows "(\<exists>x. insert_loop m k h (par (map_root m) C) (ptr (map_nil m) t) = Some (x, True) \<and> x \<in> set (inord t) \<and> item_key h x = k) \<or>
    (\<exists>D. insert_loop m k h (par (map_root m) C) (ptr (map_nil m) t) = Some (par (map_root m) D, False) \<and> plug t C = plug Tip D \<and>
      (\<forall>x\<in>set (ctx_l D). item_key h x < k) \<and> (\<forall>x\<in>set (ctx_r D). k < item_key h x))"
  using assms
proof (induction t arbitrary: C)
  case Tip
  then show ?case by (subst (1 2) insert_loop.simps) (auto intro!: exI[of _ C])
next
  case (Br c l a r)
  have t: "tree_in m h (plug (bra Lft c l a r) C)" using Br.prems(1) by simp
  note n = tree_in_node[OF t]
  have kr: "item_key h a < item_key h x" if "x \<in> set (inord r)" for x using Br.prems(2) that by (auto simp: sorted_wrt_append)
  have kl: "item_key h x < item_key h a" if "x \<in> set (inord l)" for x using Br.prems(2) that by (auto simp: sorted_wrt_append)
  have st: "sorted_wrt (<) (map (item_key h) (inord l))" "sorted_wrt (<) (map (item_key h) (inord r))" using Br.prems(2) by (auto simp: sorted_wrt_append)
  consider "k = item_key h a" | "k < item_key h a" | "item_key h a < k" by fastforce
  then show ?case
  proof cases
    case 1
    then show ?thesis using n by (subst (1 2) insert_loop.simps) auto
  next
    case 2
    have "insert_loop m k h (par (map_root m) C) (ptr (map_nil m) (Br c l a r)) =
        insert_loop m k h (par (map_root m) (Fr Lft c a r # C)) (ptr (map_nil m) l)"
      using 2 n by (subst insert_loop.simps) auto
    moreover have "k < item_key h x" if "x \<in> set (ctx_r (Fr Lft c a r # C))" for x using that 2 kr Br.prems(4) by (fastforce intro: less_trans)
    ultimately show ?thesis using Br.IH(1)[of "Fr Lft c a r # C"] st(1) Br.prems by auto
  next
    case 3
    have "insert_loop m k h (par (map_root m) C) (ptr (map_nil m) (Br c l a r)) =
        insert_loop m k h (par (map_root m) (Fr Rgt c a l # C)) (ptr (map_nil m) r)"
      using 3 n by (subst insert_loop.simps) auto
    moreover have "item_key h x < k" if "x \<in> set (ctx_l (Fr Rgt c a l # C))" for x using that 3 kl Br.prems(3) by (fastforce intro: less_trans)
    ultimately show ?thesis using Br.IH(2)[of "Fr Rgt c a l # C"] st(2) Br.prems by auto
  qed
qed

section \<open>Linking the item in\<close>

lemma prim_insert_holds:
  assumes "holds s h (xs @ ys)" "x \<notin> set (h # xs @ ys)"
  shows "holds (cl_primitive_insert (after h ys) x s) h (xs @ x # ys)" "only (set (x # h # xs @ ys)) s (cl_primitive_insert (after h ys) x s)"
proof -
  have p: "prv s (after h ys) = before h xs" using assms(1) by (simp add: holds_split)
  have b: "before h xs \<in> set (h # xs)" "after h ys \<in> set (h # ys)" by (rule before_in after_in)+
  then have ne: "x \<noteq> after h ys" "x \<noteq> before h xs" using assms(2) by auto
  show "holds (cl_primitive_insert (after h ys) x s) h (xs @ x # ys)"
    by (rule ring_insert[OF assms]) (use p ne in \<open>auto simp: cl_primitive_insert_def Let_def fun_eq_iff\<close>)
  show "only (set (x # h # xs @ ys)) s (cl_primitive_insert (after h ys) x s)"
    using b p ne by (auto simp: only_def cl_primitive_insert_def Let_def)
qed

lemma link_item_slot:
  assumes "holds (thread h) (map_nil m) (ctx_l C @ ctx_r C)" "map_root m \<notin> set (ctx_l C @ ctx_r C)"
    and "\<And>x. x \<in> set (ctx_l C) \<Longrightarrow> item_key h x < k" "\<And>x. x \<in> set (ctx_r C) \<Longrightarrow> k < item_key h x"
  shows "link_item m k p (par (map_root m) C) h =
    set_thread (cl_primitive_insert (after (map_nil m) (ctx_r C)) p (thread h)) (set_child (cside C) (par (map_root m) C) p h)"
proof (cases C rule: ctx_r.cases)
  case (2 c a y D)
  then show ?thesis using assms(2,4) by (auto simp: link_item_def after_def)
next
  case (3 c a y D)
  then have "holds (thread h) (map_nil m) ((ctx_l D @ inord y) @ a # ctx_r D)" using assms(1) by simp
  then have "nxt (thread h) a = after (map_nil m) (ctx_r C)" using holds_at(2) 3 by fastforce
  moreover have "\<not> k < item_key h a" using assms(3)[of a] 3 by auto
  ultimately show ?thesis using 3 assms(2) by (auto simp: link_item_def)
qed (simp add: link_item_def after_def)

lemma link_tree:
  assumes "tree_in m h (plug Tip C)" "p \<notin> {map_root m, map_nil m, 0} \<union> set (ctx_l C @ ctx_r C)"
    and "p_left h p = map_nil m" "p_right h p = map_nil m" "color h p = c"
  shows "tree_in m (set_up p (par (map_root m) C) (set_child (cside C) (par (map_root m) C) p h)) (plug (Br c Tip p Tip) C)"
proof -
  note d = tree_in_addr[OF assms(1)]
  let ?q = "par (map_root m) C" let ?h = "set_up p ?q (set_child (cside C) ?q p h)"
  have q: "?q \<noteq> p" using par_in[of "map_root m" C] assms(2) by auto
  have "ctx_at h (map_root m) (map_nil m) (map_nil m) C" using assms(1) by (simp add: tree_in_plug)
  then have "ctx_at ?h (map_root m) (map_nil m) p C"
  proof (rule ctx_put)
    show "same_item h ?h x" if "x \<in> set (ctx_l C @ ctx_r C)" "x \<noteq> ?q" for x using that assms(2) by (intro same_itemI) auto
    show "p_left ?h (map_root m) = p_left h (map_root m)" if "C \<noteq> []" using par_in_ctx[OF that, of "map_root m"] d(8) by auto
  qed (use d(5,8) assms(2) q in auto)
  moreover have "tree_at ?h (map_nil m) ?q (Br c Tip p Tip)" using assms(3-5) q by simp
  moreover have "distinct (map_root m # map_nil m # 0 # ctx_l C @ inord (Br c Tip p Tip) @ ctx_r C)"
    using assms(1,2) unfolding tree_in_plug by auto
  ultimately show ?thesis unfolding tree_in_plug by simp
qed

lemma tree_in_thread [simp]: "tree_in m (set_thread l h) t \<longleftrightarrow> tree_in m h t"
  by (rule tree_in_cong) (simp_all add: same_item_def)

lemma tree_in_map [simp]: "tree_in (m\<lparr>map_count := n\<rparr>) h t \<longleftrightarrow> tree_in m h t"
  by (simp add: tree_in_def)

lemma blacken_root:
  assumes "tree_in m h t" "rb k t" "t \<noteq> Tip"
  shows "\<exists>t'. tree_in m (set_color (p_left h (map_root m)) CL_MAP_BLACK h) t' \<and> (\<exists>k. rb k t') \<and> rcol t' = CL_MAP_BLACK \<and> inord t' = inord t"
proof -
  obtain c l a r where t: "t = Br c l a r" using assms(3) by (cases t) auto
  then have "p_left h (map_root m) = a" using assms(1) by (simp add: tree_in_def)
  moreover have "tree_in m (set_color a CL_MAP_BLACK h) (Br CL_MAP_BLACK l a r)" using recolor[of m h Lft c l a r "[]"] assms(1) t by simp
  moreover have "rb (if c = CL_MAP_RED then Suc k else k) (Br CL_MAP_BLACK l a r)" using assms(2) t by auto
  ultimately show ?thesis using t by (intro exI[of _ "Br CL_MAP_BLACK l a r"]) auto
qed

section \<open>Insertion\<close>

text \<open>The new item before it is linked in.\<close>

definition prepared :: "cl_qmap \<Rightarrow> u64 \<Rightarrow> nat \<Rightarrow> cl_map_items \<Rightarrow> cl_map_items" where
  "prepared m k p h = set_color p CL_MAP_RED (set_key p k (set_child Rgt p (map_nil m) (set_child Lft p (map_nil m) h)))"

lemma prepared_elsewhere: "elsewhere {p} h (prepared m k p h)"
  by (simp add: prepared_def)

lemma insert_unfold:
  assumes "qmap_at m h t" "p \<notin> {map_root m, map_nil m, 0} \<union> set (inord t)"
  shows "cl_qmap_insert m k p h =
    bindE (orFault Diverges (insert_loop m k (prepared m k p h) (par (map_root m) []) (ptr (map_nil m) t))) (\<lambda>(p_insert_at, found).
      if found then Inr (p_insert_at, m, prepared m k p h)
      else asserting (p_insert_at \<noteq> map_nil m) (
        bindE (cl_map_ins_bal (m\<lparr>map_count := map_count m + 1\<rparr>) p (set_up p p_insert_at (link_item m k p p_insert_at (prepared m k p h))))
          (\<lambda>h. Inr (p, m\<lparr>map_count := map_count m + 1\<rparr>, set_color (p_left h (map_root (m\<lparr>map_count := map_count m + 1\<rparr>))) CL_MAP_BLACK h))))"
proof -
  have "map_root m \<noteq> p" "p \<noteq> 0" using assms(2) by auto
  moreover have "p_left (prepared m k p h) (map_root m) = ptr (map_nil m) t"
    using assms by (auto simp: qmap_at_def tree_in_def prepared_def)
  ultimately show ?thesis using assms(1)
    unfolding cl_qmap_insert_def Let_def prepared_def[symmetric] by (simp add: asserting_def qmap_at_def)
qed

lemma insert_new_balanced:
  assumes q: "qmap_at m h (plug Tip C)" and p: "p \<notin> {map_root m, map_nil m, 0} \<union> set (ctx_l C @ ctx_r C)"
    and l: "p_left h p = map_nil m" "p_right h p = map_nil m" "color h p = CL_MAP_RED"
    and k: "\<And>x. x \<in> set (ctx_l C) \<Longrightarrow> item_key h x < item_key h p" "\<And>x. x \<in> set (ctx_r C) \<Longrightarrow> item_key h p < item_key h x"
  shows "\<exists>h' t'. cl_map_ins_bal (m\<lparr>map_count := map_count m + 1\<rparr>) p (set_up p (par (map_root m) C) (link_item m (item_key h p) p (par (map_root m) C) h)) = Inr h' \<and>
    qmap_at (m\<lparr>map_count := map_count m + 1\<rparr>) (set_color (p_left h' (map_root m)) CL_MAP_BLACK h') t' \<and> inord t' = ctx_l C @ p # ctx_r C \<and>
    item_key h' = item_key h \<and> elsewhere ({p, map_root m, map_nil m} \<union> set (ctx_l C @ ctx_r C)) h (set_color (p_left h' (map_root m)) CL_MAP_BLACK h')"
proof -
  let ?R = "map_root m" and ?N = "map_nil m" and ?m = "m\<lparr>map_count := map_count m + 1\<rparr>" and ?t = "plug (Br CL_MAP_RED Tip p Tip) C"
  let ?s = "cl_primitive_insert (after ?N (ctx_r C)) p (thread h)" and ?A = "{p, map_root m, map_nil m} \<union> set (ctx_l C @ ctx_r C)"
  let ?g = "set_up p (par ?R C) (set_child (cside C) (par ?R C) p h)"
  have ti: "tree_in m h (plug Tip C)" and hold: "holds (thread h) ?N (ctx_l C @ ctx_r C)" and col: "color h ?N = CL_MAP_BLACK" "color h ?R = CL_MAP_BLACK" "p_up h ?R = ?R"
    and so: "sorted_wrt (<) (map (item_key h) (ctx_l C @ ctx_r C))" and cnt: "map_count m = of_nat (length (ctx_l C @ ctx_r C))"
    using q by (auto simp: qmap_at_def inord_plug)
  note d = tree_in_addr[OF ti]
  have lk: "set_up p (par ?R C) (link_item m (item_key h p) p (par ?R C) h) = set_thread ?s ?g"
    using link_item_slot[OF hold, of "item_key h p" p] d(8) k by (simp add: set_up_def set_child_def set_thread_def)
  have g: "tree_in ?m (set_thread ?s ?g) ?t" using link_tree[OF ti p l] by simp
  have "\<exists>n. rb n Tip \<and> crb n C" using q rb_unplug[of _ Tip C] by (auto simp: qmap_at_def)
  then have ra: "red_at 0 p (Br CL_MAP_RED Tip p Tip) C" by (simp add: red_at_def)
  have pn: "?R \<noteq> p" "?N \<noteq> p" "p \<noteq> 0" using p by auto
  obtain h' t' n where h': "ins_bal_loop ?m p (set_thread ?s ?g) = Some (Inr h')" "tree_in ?m h' t'" "rb n t'" "inord t' = ctx_l C @ p # ctx_r C"
    "around ?m ?t (set_thread ?s ?g) h'" using ins_loop[OF g ra] col pn by (auto simp: inord_plug)
  have tne: "t' \<noteq> Tip" using h'(4) by auto
  obtain t'' where t'': "tree_in ?m (set_color (p_left h' ?R) CL_MAP_BLACK h') t''" "\<exists>k. rb k t''" "rcol t'' = CL_MAP_BLACK" "inord t'' = ctx_l C @ p # ctx_r C"
    using blacken_root[OF h'(2,3) tne] h'(4) by auto
  have root: "p_left h' ?R \<in> set (inord t')" using h'(2) tne by (cases t') (auto simp: tree_in_def)
  have o: "item_key h' = item_key h" "thread h' = ?s" "color h' ?N = CL_MAP_BLACK" "color h' ?R = CL_MAP_BLACK" "p_up h' ?R = ?R"
  proof -
    show "item_key h' = item_key h" "thread h' = ?s" using h'(5) by (simp_all add: outside_def)
    have out: "?R \<notin> set (inord ?t)" "?N \<notin> set (inord ?t)" using d(8) pn by (auto simp: inord_plug)
    have "color h' x = color h x" "p_up h' x = p_up ?g x" if "x \<notin> set (inord ?t)" for x using h'(5) that by (simp_all add: outside_def)
    then show "color h' ?N = CL_MAP_BLACK" "color h' ?R = CL_MAP_BLACK" "p_up h' ?R = ?R" using out col pn by simp_all
  qed
  have nr: "p_left h' ?R \<noteq> ?N" "p_left h' ?R \<noteq> ?R" using root h'(2) by (auto simp: tree_in_def)
  have hold': "holds ?s ?N (ctx_l C @ p # ctx_r C)" "only (set (p # ?N # ctx_l C @ ctx_r C)) (thread h) ?s" by (rule prim_insert_holds[OF hold]; use p in auto)+
  have "sorted_wrt (<) (map (item_key h) (ctx_l C @ p # ctx_r C))" using so k by (auto simp: sorted_wrt_append)
  then have "qmap_at ?m (set_color (p_left h' ?R) CL_MAP_BLACK h') t''"
    using t'' o nr hold'(1) cnt by (simp add: qmap_at_def)
  moreover have "elsewhere ?A h (set_color (p_left h' ?R) CL_MAP_BLACK h')"
  proof -
    have "par ?R C \<in> ?A" "p \<in> ?A" using par_in[of ?R C] by auto
    then have "elsewhere ?A h ?g" by (intro elsewhere_set(2)[THEN iffD2] elsewhere_set(1)[THEN iffD2] elsewhere_refl)
    then have "elsewhere ?A h (set_thread ?s ?g)" using hold'(2) by (auto simp: elsewhere_def same_item_def only_def)
    moreover have "elsewhere ?A (set_thread ?s ?g) h'" by (rule elsewhere_mono[OF outside_elsewhere[OF h'(5)]]) (auto simp: inord_plug)
    ultimately have "elsewhere ?A h h'" by (rule elsewhere_trans)
    moreover have "p_left h' ?R \<in> ?A" using root h'(4) by auto
    ultimately show ?thesis by (rule elsewhere_set(3)[THEN iffD2, rotated])
  qed
  moreover have "cl_map_ins_bal ?m p (set_thread ?s ?g) = Inr h'" using h'(1) pn by (simp add: cl_map_ins_bal_def asserting_def)
  ultimately show ?thesis unfolding lk using o(1) t''(4) by (intro exI[of _ h'] exI[of _ t'']) blast
qed

lemma sorted_filter_split:
  assumes "\<forall>x\<in>set xs. f x < k" "\<forall>x\<in>set ys. k < (f x :: 'b :: linorder)"
  shows "filter (\<lambda>x. f x < k) (xs @ ys) = xs" "filter (\<lambda>x. k < f x) (xs @ ys) = ys"
  using assms by (auto simp: filter_empty_conv less_imp_not_less filter_id_conv)

text \<open>The item goes between those with smaller and those with larger keys, unless its key is taken.\<close>

lemma insert_ok:
  assumes q: "qmap_at m h t" and p: "p \<notin> {map_root m, map_nil m, 0} \<union> set (inord t)"
  shows "\<exists>r m' h'. cl_qmap_insert m k p h = Inr (r, m', h') \<and> elsewhere ({p, map_root m, map_nil m} \<union> set (inord t)) h h' \<and> item_key h' = (item_key h)(p := k) \<and>
    (if \<exists>x\<in>set (inord t). item_key h x = k then r \<in> set (inord t) \<and> item_key h r = k \<and> m' = m \<and> qmap_at m h' t
     else r = p \<and> m' = m\<lparr>map_count := map_count m + 1\<rparr> \<and>
       (\<exists>t'. qmap_at m' h' t' \<and> inord t' = filter (\<lambda>x. item_key h x < k) (inord t) @ p # filter (\<lambda>x. k < item_key h x) (inord t)))"
proof -
  let ?h = "prepared m k p h" and ?m = "m\<lparr>map_count := map_count m + 1\<rparr>"
  have q': "qmap_at m ?h t" by (rule qmap_frame[OF prepared_elsewhere q]) (use p in auto)
  have key: "item_key ?h = (item_key h)(p := k)" by (simp add: prepared_def)
  have same: "item_key ?h x = item_key h x" if "x \<in> set (inord t)" for x using that p key by auto
  have ti: "tree_in m ?h (plug t [])" "sorted_wrt (<) (map (item_key ?h) (inord t))" using q' by (simp_all add: qmap_at_def)
  have el: "elsewhere ({p, map_root m, map_nil m} \<union> set (inord t)) h ?h" by (rule elsewhere_mono[OF prepared_elsewhere]) simp
  consider x where "insert_loop m k ?h (par (map_root m) []) (ptr (map_nil m) t) = Some (x, True)" "x \<in> set (inord t)" "item_key ?h x = k"
    | D where "insert_loop m k ?h (par (map_root m) []) (ptr (map_nil m) t) = Some (par (map_root m) D, False)" "t = plug Tip D"
      "\<forall>x\<in>set (ctx_l D). item_key ?h x < k" "\<forall>x\<in>set (ctx_r D). k < item_key ?h x"
    using insert_loop_finds[OF ti, of k] by auto
  then show ?thesis
  proof cases
    case 1
    have "cl_qmap_insert m k p h = Inr (x, m, ?h)" unfolding insert_unfold[OF q p] 1(1) by simp
    then show ?thesis using 1(2,3) same el key q' by auto
  next
    case 2
    have io: "inord t = ctx_l D @ ctx_r D" using 2(2) by (simp add: inord_plug)
    have kk: "\<forall>x\<in>set (ctx_l D). item_key h x < k" "\<forall>x\<in>set (ctx_r D). k < item_key h x" using 2(3,4) same io by auto
    have none: "\<not> (\<exists>x\<in>set (inord t). item_key h x = k)" using kk io by auto
    have pn: "par (map_root m) D \<noteq> map_nil m" using tree_in_addr(10)[of m ?h Tip D] ti(1) 2(2) by simp
    have "\<exists>h' t'. cl_map_ins_bal ?m p (set_up p (par (map_root m) D) (link_item m (item_key ?h p) p (par (map_root m) D) ?h)) = Inr h' \<and>
      qmap_at ?m (set_color (p_left h' (map_root m)) CL_MAP_BLACK h') t' \<and> inord t' = ctx_l D @ p # ctx_r D \<and>
      item_key h' = item_key ?h \<and> elsewhere ({p, map_root m, map_nil m} \<union> set (ctx_l D @ ctx_r D)) ?h (set_color (p_left h' (map_root m)) CL_MAP_BLACK h')"
      by (rule insert_new_balanced) (use q' 2 p io key in \<open>auto simp: prepared_def\<close>)
    then obtain h' t' where h': "cl_map_ins_bal ?m p (set_up p (par (map_root m) D) (link_item m k p (par (map_root m) D) ?h)) = Inr h'"
      "qmap_at ?m (set_color (p_left h' (map_root m)) CL_MAP_BLACK h') t'" "inord t' = ctx_l D @ p # ctx_r D"
      "item_key h' = item_key ?h" "elsewhere ({p, map_root m, map_nil m} \<union> set (inord t)) ?h (set_color (p_left h' (map_root m)) CL_MAP_BLACK h')"
      unfolding key io by auto
    have "cl_qmap_insert m k p h = Inr (p, ?m, set_color (p_left h' (map_root m)) CL_MAP_BLACK h')"
      unfolding insert_unfold[OF q p] 2(1) using h'(1) pn by (simp add: asserting_def)
    moreover have "inord t' = filter (\<lambda>x. item_key h x < k) (inord t) @ p # filter (\<lambda>x. k < item_key h x) (inord t)"
      unfolding io sorted_filter_split[OF kk] h'(3) ..
    ultimately show ?thesis using h'(2,4) none elsewhere_trans[OF el h'(5)] key by auto
  qed
qed

end
