(* ===== verification/Qmap_Remove.thy ===== *)
theory Qmap_Remove
  imports Qmap_Insert
begin

text \<open>
  Removal from the maps of \<open>util/cl_map.c\<close>: one branch is a black item short at the place of removal; the rounds of
  balancing move the place up or mend it, and the substitute takes the place of the removed item.
\<close>

section \<open>Balancing\<close>

lemma ptr_color: "tree_at h N q t \<Longrightarrow> color h N = CL_MAP_BLACK \<Longrightarrow> color h (ptr N t) = rcol t"
  by (cases t) simp_all

lemma child_color:
  assumes "tree_in m h (plug (bra s c x a y) C)" "color h (map_nil m) = CL_MAP_BLACK"
  shows "color h (child h s a) = rcol x" "color h (child h (other s) a) = rcol y"
  using assms ptr_color unfolding tree_in_plug tree_at_bra by auto

lemma around_nil: "tree_in m h t \<Longrightarrow> around m t h h' \<Longrightarrow> color h' (map_nil m) = color h (map_nil m) \<and> p_up h' (map_nil m) = p_up h (map_nil m)"
  by (auto simp: outside_def tree_in_def)

text \<open>The item at a hole, which may be the item that ends the branches, knows its parent.\<close>

definition held_by :: "cl_qmap \<Rightarrow> cl_map_items \<Rightarrow> ptree \<Rightarrow> nat \<Rightarrow> bool" where
  "held_by m h t q \<longleftrightarrow> p_up h (ptr (map_nil m) t) = q"

lemma held_by_step:
  assumes "held_by m h t a" "tree_in m h T" "around m T h h'" "tree_in m h' (plug t (Fr s c a y # C))"
  shows "held_by m h' t a"
proof (cases t)
  case Tip
  then show ?thesis using assms(1) around_nil[OF assms(2,3)] by (simp add: held_by_def)
next
  case (Br c' l b r)
  then show ?thesis using assms(4) tree_in_node(2)[of m h' Lft c' l b r "Fr s c a y # C"] by (simp add: held_by_def)
qed

lemma uncle_red:
  assumes t: "tree_in m h (plug (bra s CL_MAP_BLACK t a (bra s CL_MAP_RED yn u yf)) D)" and up: "held_by m h t a"
  obtains h' where "del_bal_uncle s m (ptr (map_nil m) t) u h = Inr (ptr (map_nil m) yn, h')"
    "tree_in m h' (plug (bra s CL_MAP_BLACK (bra s CL_MAP_RED t a yn) u yf) D)" "held_by m h' t a"
    "around m (plug (bra s CL_MAP_BLACK t a (bra s CL_MAP_RED yn u yf)) D) h h'"
proof -
  let ?T = "plug (bra s CL_MAP_BLACK t a (bra s CL_MAP_RED yn u yf)) D"
  let ?g = "set_color a CL_MAP_RED (set_color u CL_MAP_BLACK h)"
  have tu: "tree_in m h (plug (bra s CL_MAP_RED yn u yf) (Fr (other s) CL_MAP_BLACK a t # D))" using t by simp
  have "tree_in m (set_color u CL_MAP_BLACK h) (plug (bra s CL_MAP_BLACK t a (bra s CL_MAP_BLACK yn u yf)) D)" using recolor[OF tu, of CL_MAP_BLACK] by simp
  then have g: "tree_in m ?g (plug (bra s CL_MAP_RED t a (bra s CL_MAP_BLACK yn u yf)) D)" by (rule recolor)
  have set: "set (inord (plug (bra s CL_MAP_RED t a (bra s CL_MAP_BLACK yn u yf)) D)) = set (inord ?T)" by (simp add: inord_plug)
  have ag: "around m ?T h ?g" by (simp add: inord_plug)
  obtain h' where h': "cl_map_rot s m a ?g = Inr h'" "tree_in m h' (plug (bra s CL_MAP_BLACK (bra s CL_MAP_RED t a yn) u yf) D)" "around m ?T ?g h'"
    using rot[OF g] unfolding set by blast
  have o: "around m ?T h h'" by (rule outside_trans[OF ag h'(3)])
  have hb: "held_by m h' t a" by (rule held_by_step[OF up t o, of s CL_MAP_RED yn "Fr s CL_MAP_BLACK u yf # D"]) (use h'(2) in simp)
  have "child h' (other s) a = ptr (map_nil m) yn"
    using tree_in_node(4)[of m h' s CL_MAP_RED t a yn "Fr s CL_MAP_BLACK u yf # D"] h'(2) by simp
  then have "del_bal_uncle s m (ptr (map_nil m) t) u h = Inr (ptr (map_nil m) yn, h')"
    using h'(1) up hb tree_in_node(1)[OF tu] by (simp add: del_bal_uncle_def held_by_def Let_def)
  then show thesis using that h'(2) hb o by blast
qed

lemma nephew_near:
  assumes t: "tree_in m h (plug (bra s c t a (bra s CL_MAP_BLACK (bra s CL_MAP_RED n1 x n2) u yf)) D)" and up: "held_by m h t a"
    and b: "rcol yf = CL_MAP_BLACK" "color h (map_nil m) = CL_MAP_BLACK"
  obtains h' where "del_bal_nephew s m (ptr (map_nil m) t) u h = Inr (x, h')"
    "tree_in m h' (plug (bra s c t a (bra s CL_MAP_BLACK n1 x (bra s CL_MAP_RED n2 u yf))) D)" "held_by m h' t a"
    "around m (plug (bra s c t a (bra s CL_MAP_BLACK (bra s CL_MAP_RED n1 x n2) u yf)) D) h h'"
proof -
  let ?T = "plug (bra s c t a (bra s CL_MAP_BLACK (bra s CL_MAP_RED n1 x n2) u yf)) D"
  let ?g = "set_color u CL_MAP_RED (set_color x CL_MAP_BLACK h)" and ?C = "Fr (other s) c a t # D"
  have tu: "tree_in m h (plug (bra s CL_MAP_BLACK (bra s CL_MAP_RED n1 x n2) u yf) ?C)" using t by simp
  have tx: "tree_in m h (plug (bra s CL_MAP_RED n1 x n2) (Fr s CL_MAP_BLACK u yf # ?C))" using t by simp
  have "tree_in m (set_color x CL_MAP_BLACK h) (plug (bra s CL_MAP_BLACK (bra s CL_MAP_BLACK n1 x n2) u yf) ?C)" using recolor[OF tx, of CL_MAP_BLACK] by simp
  then have "tree_in m ?g (plug (bra s CL_MAP_RED (bra s CL_MAP_BLACK n1 x n2) u yf) ?C)" by (rule recolor)
  then have g: "tree_in m ?g (plug (bra (other s) CL_MAP_RED yf u (bra (other s) CL_MAP_BLACK n2 x n1)) ?C)" by simp
  have set: "set (inord (plug (bra (other s) CL_MAP_RED yf u (bra (other s) CL_MAP_BLACK n2 x n1)) ?C)) = set (inord ?T)"
    by (cases s) (auto simp: inord_plug)
  have ag: "around m ?T h ?g" by (simp add: inord_plug)
  obtain h' where h': "cl_map_rot (other s) m u ?g = Inr h'"
    "tree_in m h' (plug (bra (other s) CL_MAP_BLACK (bra (other s) CL_MAP_RED yf u n2) x n1) ?C)" "around m ?T ?g h'"
    using rot[OF g] unfolding set by blast
  have o: "around m ?T h h'" by (rule outside_trans[OF ag h'(3)])
  have t': "tree_in m h' (plug (bra s c t a (bra s CL_MAP_BLACK n1 x (bra s CL_MAP_RED n2 u yf))) D)" using h'(2) by simp
  have hb: "held_by m h' t a" by (rule held_by_step[OF up t o, of s c "bra s CL_MAP_BLACK n1 x (bra s CL_MAP_RED n2 u yf)" D]) (use t' in simp)
  have "del_bal_nephew s m (ptr (map_nil m) t) u h = Inr (x, h')"
    using h'(1) hb child_color[OF tu b(2)] b(1) tree_in_node[OF tu] tree_in_node(4)[OF t']
    by (simp add: del_bal_nephew_def held_by_def Let_def)
  then show thesis using that t' hb o by blast
qed

lemma nephew_far:
  assumes t: "tree_in m h (plug (bra s c t a (bra s CL_MAP_BLACK yn u (bra s CL_MAP_RED f1 w f2))) D)"
  obtains h' where "cl_map_rot s m a (set_color w CL_MAP_BLACK (set_color a CL_MAP_BLACK (set_color u c h))) = Inr h'"
    "tree_in m h' (plug (bra s c (bra s CL_MAP_BLACK t a yn) u (bra s CL_MAP_BLACK f1 w f2)) D)"
    "around m (plug (bra s c t a (bra s CL_MAP_BLACK yn u (bra s CL_MAP_RED f1 w f2))) D) h h'"
proof -
  let ?T = "plug (bra s c t a (bra s CL_MAP_BLACK yn u (bra s CL_MAP_RED f1 w f2))) D"
  let ?g = "set_color w CL_MAP_BLACK (set_color a CL_MAP_BLACK (set_color u c h))"
  have "tree_in m h (plug (bra s CL_MAP_BLACK yn u (bra s CL_MAP_RED f1 w f2)) (Fr (other s) c a t # D))" using t by simp
  then have "tree_in m (set_color u c h) (plug (bra s c yn u (bra s CL_MAP_RED f1 w f2)) (Fr (other s) c a t # D))" by (rule recolor)
  then have "tree_in m (set_color u c h) (plug (bra s c t a (bra s c yn u (bra s CL_MAP_RED f1 w f2))) D)" by simp
  then have "tree_in m (set_color a CL_MAP_BLACK (set_color u c h)) (plug (bra s CL_MAP_BLACK t a (bra s c yn u (bra s CL_MAP_RED f1 w f2))) D)" by (rule recolor)
  then have "tree_in m (set_color a CL_MAP_BLACK (set_color u c h))
      (plug (bra s CL_MAP_RED f1 w f2) (Fr (other s) c u yn # Fr (other s) CL_MAP_BLACK a t # D))" by simp
  then have "tree_in m ?g (plug (bra s CL_MAP_BLACK f1 w f2) (Fr (other s) c u yn # Fr (other s) CL_MAP_BLACK a t # D))" by (rule recolor)
  then have g: "tree_in m ?g (plug (bra s CL_MAP_BLACK t a (bra s c yn u (bra s CL_MAP_BLACK f1 w f2))) D)" by simp
  have set: "set (inord (plug (bra s CL_MAP_BLACK t a (bra s c yn u (bra s CL_MAP_BLACK f1 w f2))) D)) = set (inord ?T)" by (simp add: inord_plug)
  have ag: "around m ?T h ?g" by (simp add: inord_plug)
  obtain h' where h': "cl_map_rot s m a ?g = Inr h'"
    "tree_in m h' (plug (bra s c (bra s CL_MAP_BLACK t a yn) u (bra s CL_MAP_BLACK f1 w f2)) D)" "around m ?T ?g h'"
    using rot[OF g] unfolding set by blast
  then show thesis using that outside_trans[OF ag h'(3)] by blast
qed

text \<open>A tree that is a black item short of a hole, unless its root is red and becomes black.\<close>

fun blk :: "ptree \<Rightarrow> ptree" where
  "blk Tip = Tip"
| "blk (Br c l a r) = Br CL_MAP_BLACK l a r"

definition short :: "nat \<Rightarrow> ptree \<Rightarrow> bool" where
  "short n t \<longleftrightarrow> (if rcol t = CL_MAP_RED then rb (Suc n) (blk t) else rb n t)"

lemma blk_bra [simp]: "blk (bra s c x a y) = bra s CL_MAP_BLACK x a y"
  by (cases s) simp_all

lemma blk_rcol [simp]: "rcol (blk t) = CL_MAP_BLACK"
  by (cases t) simp_all

lemma blk_inord [simp]: "inord (blk t) = inord t"
  by (cases t) simp_all

text \<open>The far nephew is red: the round mends the tree.\<close>

lemma rest_far:
  assumes t: "tree_in m h (plug (bra s c t a (bra s CL_MAP_BLACK yn u (bra s CL_MAP_RED f1 w f2))) D)" and up: "held_by m h t a"
    and b: "color h (map_nil m) = CL_MAP_BLACK" and r: "rb n t" "rcol t = CL_MAP_BLACK" "rb n yn" "rb n (bra s CL_MAP_RED f1 w f2)"
    and C: "crb (if c = CL_MAP_RED then Suc n else Suc (Suc n)) D" "c = CL_MAP_RED \<Longrightarrow> D \<noteq> [] \<and> ccol D = CL_MAP_BLACK"
    and g: "del_bal_nephew s m (ptr (map_nil m) t) u0 h0 = Inr (u, h)" "color h0 (child h0 (other s) u0) = CL_MAP_RED \<or> color h0 (child h0 s u0) = CL_MAP_RED"
  shows "\<exists>h' t' C'. del_bal_rest s m (ptr (map_nil m) t) u0 h0 = Inr (False, ptr (map_nil m) t', h') \<and> tree_in m h' (plug t' C') \<and> rcol t' = CL_MAP_BLACK \<and>
    (\<exists>k. rb k (plug t' C')) \<and> rcol (plug t' C') = CL_MAP_BLACK \<and>
    inord (plug t' C') = inord (plug (bra s c t a (bra s CL_MAP_BLACK yn u (bra s CL_MAP_RED f1 w f2))) D) \<and>
    around m (plug (bra s c t a (bra s CL_MAP_BLACK yn u (bra s CL_MAP_RED f1 w f2))) D) h h'"
proof -
  let ?T = "bra s c (bra s CL_MAP_BLACK t a yn) u (bra s CL_MAP_BLACK f1 w f2)" and ?C = "Fr s CL_MAP_BLACK a yn # Fr s c u (bra s CL_MAP_BLACK f1 w f2) # D"
  obtain h' where h': "cl_map_rot s m a (set_color w CL_MAP_BLACK (set_color a CL_MAP_BLACK (set_color u c h))) = Inr h'"
    "tree_in m h' (plug ?T D)" "around m (plug (bra s c t a (bra s CL_MAP_BLACK yn u (bra s CL_MAP_RED f1 w f2))) D) h h'" using nephew_far[OF t] by blast
  have u: "child h (other s) u = w"
    using tree_in_node(4)[of m h s CL_MAP_BLACK yn u "bra s CL_MAP_RED f1 w f2" "Fr (other s) c a t # D"] t by simp
  have "del_bal_rest s m (ptr (map_nil m) t) u0 h0 = Inr (False, ptr (map_nil m) t, h')"
    using g h'(1) up u tree_in_node(1)[OF t] by (auto simp: del_bal_rest_def held_by_def Let_def)
  moreover have "rb (if c = CL_MAP_RED then Suc n else Suc (Suc n)) ?T" using r by (auto simp: rb_bra)
  then have "(\<exists>k. rb k (plug ?T D)) \<and> rcol (plug ?T D) = CL_MAP_BLACK"
    using rb_plug[of _ ?T D] C by (cases c) auto
  moreover have "inord (plug t ?C) = inord (plug (bra s c t a (bra s CL_MAP_BLACK yn u (bra s CL_MAP_RED f1 w f2))) D)"
    by (cases s) (simp_all add: inord_plug)
  ultimately show ?thesis using h'(2,3) r(2) by (intro exI[of _ h'] exI[of _ t] exI[of _ ?C]) simp
qed

lemma rest_round:
  assumes t: "tree_in m h (plug t (Fr s c a y # D))" and up: "held_by m h t a" and b: "color h (map_nil m) = CL_MAP_BLACK"
    and r: "rb n t" "rcol t = CL_MAP_BLACK" "crb (Suc n) (Fr s c a y # D)" "rcol y = CL_MAP_BLACK"
  shows "\<exists>go h' t' C'. del_bal_rest s m (ptr (map_nil m) t) (ptr (map_nil m) y) h = Inr (go, ptr (map_nil m) t', h') \<and> tree_in m h' (plug t' C') \<and>
    (if go then held_by m h' t' (par (map_root m) C') \<and> C' = D \<and> rcol t' = c \<and> (\<exists>n. short n t' \<and> crb (Suc n) C')
     else rcol t' = CL_MAP_BLACK \<and> (\<exists>k. rb k (plug t' C')) \<and> rcol (plug t' C') = CL_MAP_BLACK) \<and>
    inord (plug t' C') = inord (plug t (Fr s c a y # D)) \<and> around m (plug t (Fr s c a y # D)) h h'"
proof -
  have "y \<noteq> Tip" using r(3) by auto
  then obtain yn u yf where y: "y = bra s CL_MAP_BLACK yn u yf" using tree_cases_side[of y s] r(4) by auto
  have t1: "tree_in m h (plug (bra s c t a (bra s CL_MAP_BLACK yn u yf)) D)" using t y by simp
  have tu: "tree_in m h (plug (bra s CL_MAP_BLACK yn u yf) (Fr (other s) c a t # D))" using t1 by simp
  note n = tree_in_node[OF t1] and k = child_color[OF tu b]
  have rr: "rb n yn" "rb n yf" "crb (if c = CL_MAP_RED then Suc n else Suc (Suc n)) D" "c = CL_MAP_RED \<Longrightarrow> D \<noteq> [] \<and> ccol D = CL_MAP_BLACK"
    using r(3) y by (auto simp: rb_bra split: if_splits)
  let ?p = "ptr (map_nil m) t"
  consider "rcol yf = CL_MAP_BLACK" "rcol yn = CL_MAP_BLACK" | "rcol yf = CL_MAP_BLACK" "rcol yn = CL_MAP_RED" | "rcol yf = CL_MAP_RED"
    by (cases "rcol yf"; cases "rcol yn") auto
  then show ?thesis
  proof cases
    case 1
    let ?t = "bra s c t a (bra s CL_MAP_RED yn u yf)" and ?h = "set_color u CL_MAP_RED h"
    have "del_bal_rest s m ?p (ptr (map_nil m) y) h = Inr (True, a, ?h)" using k 1 up y by (simp add: del_bal_rest_def held_by_def)
    moreover have "tree_in m ?h (plug ?t D)" using recolor[OF tu, of CL_MAP_RED] by simp
    moreover have "held_by m ?h ?t (par (map_root m) D)" using n(2) by (simp add: held_by_def)
    moreover have "\<exists>n. short n ?t \<and> crb (Suc n) D" using r(1,2) rr 1
      by (intro exI[of _ "if c = CL_MAP_RED then n else Suc n"]) (auto simp: short_def rb_bra split: if_splits)
    moreover have "inord (plug ?t D) = inord (plug t (Fr s c a y # D))" unfolding y by (simp, intro inord_plug_cong inord_bra_cong inord_color refl)
    moreover have "around m (plug t (Fr s c a y # D)) h ?h" using y by (simp add: inord_plug)
    ultimately show ?thesis by (intro exI[of _ True] exI[of _ ?h] exI[of _ ?t] exI[of _ D]) simp
  next
    case 2
    then obtain n1 x n2 where x: "yn = bra s CL_MAP_RED n1 x n2" using tree_cases_side[of yn s] by auto
    obtain g where g: "del_bal_nephew s m ?p u h = Inr (x, g)" "tree_in m g (plug (bra s c t a (bra s CL_MAP_BLACK n1 x (bra s CL_MAP_RED n2 u yf))) D)"
      "held_by m g t a" "around m (plug (bra s c t a (bra s CL_MAP_BLACK (bra s CL_MAP_RED n1 x n2) u yf)) D) h g"
      using nephew_near[OF t1[unfolded x] up 2(1) b] by blast
    have bg: "color g (map_nil m) = CL_MAP_BLACK" using around_nil[OF t1[unfolded x] g(4)] b by simp
    have io: "inord (plug (bra s c t a (bra s CL_MAP_BLACK n1 x (bra s CL_MAP_RED n2 u yf))) D) = inord (plug t (Fr s c a y # D))"
      unfolding y x by (cases s) (simp_all add: inord_plug)
    have rn: "rb n n1" "rb n (bra s CL_MAP_RED n2 u yf)" using rr(1,2) 2(1) x by (simp_all add: rb_bra)
    have cc: "color h (child h (other s) u) = CL_MAP_RED \<or> color h (child h s u) = CL_MAP_RED" using k 2 by simp
    from rest_far[OF g(2,3) bg r(1,2) rn rr(3,4) g(1) cc] obtain h' t' C' where
      h': "del_bal_rest s m ?p u h = Inr (False, ptr (map_nil m) t', h')" "tree_in m h' (plug t' C')" "rcol t' = CL_MAP_BLACK"
      "\<exists>k. rb k (plug t' C')" "rcol (plug t' C') = CL_MAP_BLACK" "inord (plug t' C') = inord (plug t (Fr s c a y # D))"
      "around m (plug t (Fr s c a y # D)) g h'" unfolding io by auto
    have "around m (plug t (Fr s c a y # D)) h g" using g(4) y x by simp
    then have "around m (plug t (Fr s c a y # D)) h h'" using h'(7) by (rule outside_trans)
    then show ?thesis using h' y by (intro exI[of _ False] exI[of _ h'] exI[of _ t'] exI[of _ C']) simp
  next
    case 3
    then obtain f1 w f2 where w: "yf = bra s CL_MAP_RED f1 w f2" using tree_cases_side[of yf s] by auto
    have nn: "del_bal_nephew s m ?p u h = Inr (u, h)" using k 3 by (simp add: del_bal_nephew_def)
    from rest_far[OF t1[unfolded w] up b r(1,2) rr(1) rr(2)[unfolded w] rr(3,4) nn] obtain h' t' C' where
      h': "del_bal_rest s m ?p u h = Inr (False, ptr (map_nil m) t', h')" "tree_in m h' (plug t' C')" "rcol t' = CL_MAP_BLACK"
      "\<exists>k. rb k (plug t' C')" "rcol (plug t' C') = CL_MAP_BLACK" "inord (plug t' C') = inord (plug t (Fr s c a y # D))"
      "around m (plug t (Fr s c a y # D)) h h'" using k 3 unfolding y w by auto
    then show ?thesis using y by (intro exI[of _ False] exI[of _ h'] exI[of _ t'] exI[of _ C']) simp
  qed
qed

text \<open>A round mends the tree, or moves the hole up, or leaves a red item at the hole.\<close>

lemma del_round:
  assumes t: "tree_in m h (plug t (Fr s c a y # D))" and up: "held_by m h t a" and b: "color h (map_nil m) = CL_MAP_BLACK"
    and r: "rb n t" "rcol t = CL_MAP_BLACK" "crb (Suc n) (Fr s c a y # D)"
  shows "\<exists>go h' t' C'. del_bal_round m (ptr (map_nil m) t) h = Inr (go, ptr (map_nil m) t', h') \<and> tree_in m h' (plug t' C') \<and>
    (if go then held_by m h' t' (par (map_root m) C') \<and> (rcol t' = CL_MAP_RED \<or> C' = D) \<and> (\<exists>n. short n t' \<and> crb (Suc n) C')
     else rcol t' = CL_MAP_BLACK \<and> (\<exists>k. rb k (plug t' C')) \<and> rcol (plug t' C') = CL_MAP_BLACK) \<and>
    inord (plug t' C') = inord (plug t (Fr s c a y # D)) \<and> around m (plug t (Fr s c a y # D)) h h'"
proof -
  let ?N = "map_nil m" and ?p = "ptr (map_nil m) t" and ?T = "plug t (Fr s c a y # D)"
  have yne: "y \<noteq> Tip" using r(3) by auto
  have t1: "tree_in m h (plug (bra s c t a y) D)" using t by simp
  have left: "cl_map_is_left_child ?p h = Inr (s = Lft)" using is_left_child[OF t1] up yne by (simp add: held_by_def)
  have s: "(if s = Lft then Lft else Rgt) = s" by (cases s) simp_all
  have u: "child h (other s) (p_up h ?p) = ptr ?N y" using tree_in_node(4)[OF t1] up by (simp add: held_by_def)
  have yc: "color h (ptr ?N y) = rcol y" using child_color(2)[OF t1 b] tree_in_node(4)[OF t1] by simp
  show ?thesis
  proof (cases "rcol y")
    case CL_MAP_BLACK
    have "del_bal_round m ?p h = del_bal_rest s m ?p (ptr ?N y) h"
      using left s u yc CL_MAP_BLACK by (simp add: del_bal_round_def del_bal_uncle_def)
    then show ?thesis using rest_round[OF t up b r CL_MAP_BLACK] by fastforce
  next
    case CL_MAP_RED
    then obtain yn v yf where y: "y = bra s CL_MAP_RED yn v yf" using tree_cases_side[of y s] by auto
    have c: "c = CL_MAP_BLACK" using r(3) CL_MAP_RED by (cases c) auto
    let ?C = "Fr s CL_MAP_RED a yn # Fr s CL_MAP_BLACK v yf # D"
    obtain g where g: "del_bal_uncle s m ?p v h = Inr (ptr ?N yn, g)" "tree_in m g (plug t ?C)" "held_by m g t a" "around m ?T h g"
      using uncle_red[OF t1[unfolded c y] up] unfolding c y by auto
    have bg: "color g ?N = CL_MAP_BLACK" using around_nil[OF t g(4)] b by simp
    have rc: "crb (Suc n) ?C" "rcol yn = CL_MAP_BLACK" using r(3) unfolding c y by (auto simp: rb_bra)
    have io: "inord (plug t ?C) = inord ?T" unfolding c y by (cases s) (simp_all add: inord_plug)
    obtain go h' t' C' where h': "del_bal_rest s m ?p (ptr ?N yn) g = Inr (go, ptr ?N t', h')" "tree_in m h' (plug t' C')"
      "if go then held_by m h' t' (par (map_root m) C') \<and> C' = Fr s CL_MAP_BLACK v yf # D \<and> rcol t' = CL_MAP_RED \<and> (\<exists>n. short n t' \<and> crb (Suc n) C')
       else rcol t' = CL_MAP_BLACK \<and> (\<exists>k. rb k (plug t' C')) \<and> rcol (plug t' C') = CL_MAP_BLACK"
      "inord (plug t' C') = inord ?T" "around m (plug t ?C) g h'"
      using rest_round[OF g(2,3) bg r(1,2) rc] unfolding io by blast
    have "around m ?T h h'" using outside_trans[OF g(4)] h'(5) unfolding io by blast
    moreover have "del_bal_round m ?p h = Inr (go, ptr ?N t', h')"
      using left s u g(1) h'(1) y by (simp add: del_bal_round_def)
    ultimately show ?thesis using h' by (intro exI[of _ go] exI[of _ h'] exI[of _ t'] exI[of _ C']) (auto split: if_splits)
  qed
qed

lemma nil_outside: "tree_in m h t \<Longrightarrow> color h (map_nil m) = CL_MAP_BLACK \<Longrightarrow> around m t h (set_color (map_nil m) CL_MAP_BLACK h)"
  by (auto simp: outside_def)

text \<open>The last assignment of the balancing.\<close>

lemma blacken_hole:
  assumes t: "tree_in m h (plug t C)" and b: "color h (map_nil m) = CL_MAP_BLACK"
  shows "tree_in m (set_color (ptr (map_nil m) t) CL_MAP_BLACK h) (plug (blk t) C)"
    "around m (plug t C) h (set_color (ptr (map_nil m) t) CL_MAP_BLACK h)"
proof -
  show "around m (plug t C) h (set_color (ptr (map_nil m) t) CL_MAP_BLACK h)"
  proof (cases t)
    case Tip
    then show ?thesis using nil_outside[OF t b] by simp
  qed (simp add: inord_plug)
  show "tree_in m (set_color (ptr (map_nil m) t) CL_MAP_BLACK h) (plug (blk t) C)"
  proof (cases t)
    case Tip
    have "color (set_color (map_nil m) CL_MAP_BLACK h) = color h" using b by auto
    then have "tree_in m (set_color (map_nil m) CL_MAP_BLACK h) (plug t C) \<longleftrightarrow> tree_in m h (plug t C)"
      by (intro tree_in_cong) (auto simp: same_item_def)
    then show ?thesis using t Tip by simp
  next
    case (Br c l a r)
    then show ?thesis using recolor[of m h Lft c l a r C CL_MAP_BLACK] t by simp
  qed
qed

abbreviation mended :: "cl_qmap \<Rightarrow> cl_map_items \<Rightarrow> ptree \<Rightarrow> (fault + nat \<times> cl_map_items) option \<Rightarrow> bool" where
  "mended m h T r \<equiv> \<exists>h' t' C'. r = Some (Inr (ptr (map_nil m) t', h')) \<and> tree_in m h' (plug t' C') \<and>
    (\<exists>k. rb k (plug (blk t') C')) \<and> rcol (plug (blk t') C') = CL_MAP_BLACK \<and> inord (plug t' C') = inord T \<and> around m T h h'"

lemma del_loop_end:
  assumes t: "tree_in m h (plug t C)" and up: "held_by m h t (par (map_root m) C)" and b: "color h (map_nil m) = CL_MAP_BLACK"
    and r: "short n t" "crb (Suc n) C" and e: "rcol t = CL_MAP_RED \<or> C = []"
  shows "mended m h (plug t C) (del_bal_loop m (ptr (map_nil m) t) h)"
proof -
  let ?n = "if rcol t = CL_MAP_RED then Suc n else n"
  have "rb ?n (blk t)" "crb ?n C" using r e by (cases t; auto simp: short_def)+
  then have "\<exists>k. rb k (plug (blk t) C)" "rcol (plug (blk t) C) = CL_MAP_BLACK" using rb_plug[of ?n "blk t" C] by auto
  moreover have "color h (ptr (map_nil m) t) = rcol t" using ptr_color t b unfolding tree_in_plug by blast
  then have "del_bal_loop m (ptr (map_nil m) t) h = Some (Inr (ptr (map_nil m) t, h))"
    using e up by (subst del_bal_loop.simps) (auto simp: held_by_def)
  ultimately show ?thesis using t by (intro exI[of _ h] exI[of _ t] exI[of _ C]) simp
qed

lemma del_loop:
  assumes "tree_in m h (plug t C)" "held_by m h t (par (map_root m) C)" "color h (map_nil m) = CL_MAP_BLACK" "short n t" "crb (Suc n) C"
  shows "mended m h (plug t C) (del_bal_loop m (ptr (map_nil m) t) h)"
  using assms
proof (induction "length C" arbitrary: h t C n rule: less_induct)
  case less
  let ?N = "map_nil m" and ?p = "ptr (map_nil m) t"
  note t = less.prems(1) and up = less.prems(2) and b = less.prems(3)
  show ?case
  proof (cases "rcol t = CL_MAP_RED \<or> C = []")
    case False
    then obtain s c a y D where C: "C = Fr s c a y # D" by (metis frm.exhaust neq_Nil_conv)
    have rt: "rb n t" "rcol t = CL_MAP_BLACK" using less.prems(4) False by (auto simp: short_def color_cases)
    have up': "held_by m h t a" using up C by simp
    from del_round[OF t[unfolded C] up' b rt less.prems(5)[unfolded C]] obtain go h1 t1 C1 where
      r: "del_bal_round m ?p h = Inr (go, ptr ?N t1, h1)" "tree_in m h1 (plug t1 C1)"
      "if go then held_by m h1 t1 (par (map_root m) C1) \<and> (rcol t1 = CL_MAP_RED \<or> C1 = D) \<and> (\<exists>n. short n t1 \<and> crb (Suc n) C1)
       else rcol t1 = CL_MAP_BLACK \<and> (\<exists>k. rb k (plug t1 C1)) \<and> rcol (plug t1 C1) = CL_MAP_BLACK"
      "inord (plug t1 C1) = inord (plug t C)" "around m (plug t C) h h1" unfolding C by blast
    have b1: "color h1 ?N = CL_MAP_BLACK" using around_nil[OF t r(5)] b by simp
    have "color h ?p \<noteq> CL_MAP_RED" using ptr_color[of h ?N _ t] t b rt(2) unfolding tree_in_plug by auto
    moreover have "p_up h ?p \<noteq> map_root m" using up' par_in_ctx[of C "map_root m"] tree_in_addr(8)[OF t] C by (auto simp: held_by_def)
    ultimately have step: "del_bal_loop m ?p h = (if go then del_bal_loop m (ptr ?N t1) h1 else Some (Inr (ptr ?N t1, h1)))"
      using r(1) by (subst del_bal_loop.simps) simp
    have "mended m h1 (plug t1 C1) (del_bal_loop m ?p h)"
    proof (cases go)
      case True
      then obtain n1 where n1: "held_by m h1 t1 (par (map_root m) C1)" "short n1 t1" "crb (Suc n1) C1" "rcol t1 = CL_MAP_RED \<or> C1 = D" using r(3) by auto
      show ?thesis
      proof (cases "rcol t1 = CL_MAP_RED")
        case True
        then show ?thesis using del_loop_end[OF r(2) n1(1) b1 n1(2,3)] step \<open>go\<close> by simp
      next
        case False
        then have "length C1 < length C" using n1(4) C by simp
        from less.hyps[OF this r(2) n1(1) b1 n1(2,3)] show ?thesis using step \<open>go\<close> by simp
      qed
    next
      case False
      then have "blk t1 = t1" using r(3) by (cases t1) auto
      then show ?thesis using False step r(2,3) by (intro exI[of _ h1] exI[of _ t1] exI[of _ C1]) simp
    qed
    then show ?thesis unfolding r(4) using outside_trans[OF r(5)] by blast
  qed (use del_loop_end[OF less.prems] in simp)
qed

lemma del_bal_ok:
  assumes "tree_in m h (plug t C)" "held_by m h t (par (map_root m) C)" "color h (map_nil m) = CL_MAP_BLACK" "short n t" "crb (Suc n) C"
  shows "\<exists>h' T. cl_map_del_bal m (ptr (map_nil m) t) h = Inr h' \<and> tree_in m h' T \<and> (\<exists>k. rb k T) \<and> rcol T = CL_MAP_BLACK \<and>
    inord T = inord (plug t C) \<and> around m (plug t C) h h'"
proof -
  obtain h1 t1 C1 where h1: "del_bal_loop m (ptr (map_nil m) t) h = Some (Inr (ptr (map_nil m) t1, h1))" "tree_in m h1 (plug t1 C1)"
    "\<exists>k. rb k (plug (blk t1) C1)" "rcol (plug (blk t1) C1) = CL_MAP_BLACK" "inord (plug t1 C1) = inord (plug t C)" "around m (plug t C) h h1"
    using del_loop[OF assms] by blast
  have b: "color h1 (map_nil m) = CL_MAP_BLACK" using around_nil[OF assms(1) h1(6)] assms(3) by simp
  let ?h = "set_color (ptr (map_nil m) t1) CL_MAP_BLACK h1"
  have "cl_map_del_bal m (ptr (map_nil m) t) h = Inr ?h" using h1(1) by (simp add: cl_map_del_bal_def)
  moreover have "inord (plug (blk t1) C1) = inord (plug t C)" unfolding h1(5)[symmetric] by (rule inord_plug_cong) simp
  moreover have "around m (plug t C) h ?h" using outside_trans[OF h1(6)] blacken_hole(2)[OF h1(2) b] unfolding h1(5) by blast
  ultimately show ?thesis using blacken_hole(1)[OF h1(2) b] h1(3,4) by blast
qed

section \<open>Taking an item out\<close>

lemma rb_short: "rb n t \<Longrightarrow> short n t"
  by (cases t) (auto simp: short_def)

lemma parent_slot_set_up: "x \<noteq> a \<Longrightarrow> cl_map_get_parent_ptr_to_item a (set_up x q h) = cl_map_get_parent_ptr_to_item a h"
  by (auto simp: cl_map_get_parent_ptr_to_item_def cl_map_is_left_child_def asserting_def)

lemma unlink:
  assumes "tree_in m h (plug (bra s c t d Tip) C)"
    and h': "h' = set_child (cside C) (par (map_root m) C) (ptr (map_nil m) t) (set_up (ptr (map_nil m) t) (par (map_root m) C) h)"
  shows "tree_in m h' (plug t C)" "held_by m h' t (par (map_root m) C)"
proof -
  let ?q = "par (map_root m) C" and ?N = "map_nil m"
  note a = tree_in_addr[OF assms(1)]
  have q: "?q \<notin> set (inord t)" "t \<noteq> Tip \<Longrightarrow> ptr ?N t \<in> set (inord t)" using a(9) by (simp, cases t) auto
  have "ctx_at h (map_root m) ?N d C" using assms(1) by (simp add: tree_in_plug)
  then have "ctx_at h' (map_root m) ?N (ptr ?N t) C"
  proof (rule ctx_put)
    have out: "ptr ?N t \<notin> set (ctx_l C @ ctx_r C)" "ptr ?N t \<noteq> ?q" using a(6,8,10) q(1) ptr_in[of ?N t] by auto
    show "same_item h h' x" if "x \<in> set (ctx_l C @ ctx_r C)" "x \<noteq> ?q" for x using that out unfolding h' by (intro same_itemI) auto
    show "p_left h' (map_root m) = p_left h (map_root m)" if "C \<noteq> []" using par_in_ctx[OF that, of "map_root m"] a(8) unfolding h' by auto
    show "p_up h' ?q = p_up h ?q" using out unfolding h' by simp
  qed (use a(5,8) in \<open>auto simp: h'\<close>)
  moreover have "tree_at h' ?N ?q t"
  proof (rule tree_at_adopt)
    show "tree_at h ?N d t" using assms(1) by (simp add: tree_in_plug tree_at_bra)
    show "distinct (inord t)" using a(4) by (cases s) auto
  qed (use a(7) q in \<open>force simp: h' same_item_def\<close>)+
  moreover have "distinct (map_root m # ?N # 0 # ctx_l C @ inord t @ ctx_r C)"
    using assms(1) unfolding tree_in_plug by (cases s) auto
  ultimately show "tree_in m h' (plug t C)" unfolding tree_in_plug by blast
  show "held_by m h' t ?q" by (simp add: held_by_def h')
qed

text \<open>Unlinking an item with at most one child, and balancing.\<close>

lemma remove_node:
  assumes t: "tree_in m h (plug (bra s c t d Tip) C)" and r: "rb k (plug (bra s c t d Tip) C)" "rcol (plug (bra s c t d Tip) C) = CL_MAP_BLACK"
    and b: "color h (map_nil m) = CL_MAP_BLACK"
  shows "cl_map_get_parent_ptr_to_item d (set_up (ptr (map_nil m) t) (par (map_root m) C) h) = Inr (cside C, par (map_root m) C)" (is ?slot)
    and "\<exists>h' T. (let h = set_child (cside C) (par (map_root m) C) (ptr (map_nil m) t) (set_up (ptr (map_nil m) t) (par (map_root m) C) h)
        in if color h d \<noteq> CL_MAP_RED then cl_map_del_bal m (ptr (map_nil m) t) h else Inr h) = Inr h' \<and>
      tree_in m h' T \<and> (\<exists>k. rb k T) \<and> rcol T = CL_MAP_BLACK \<and> inord T = inord (plug t C) \<and>
      outside (map_root m) (insert (map_nil m) (set (inord (plug t C)))) h h' \<and> color h' (map_nil m) = CL_MAP_BLACK" (is ?rest)
proof -
  let ?N = "map_nil m" and ?q = "par (map_root m) C" and ?g = "set_child (cside C) (par (map_root m) C) (ptr (map_nil m) t) (set_up (ptr (map_nil m) t) (par (map_root m) C) h)"
  let ?A = "insert ?N (set (inord (plug t C)))"
  note a = tree_in_addr[OF t] and u = unlink[OF t refl]
  have "ptr ?N t \<noteq> d" using a(4,7) ptr_in[of ?N t] by (cases s) auto
  then show ?slot using parent_slot[OF t] by (simp add: parent_slot_set_up)
  have pq: "ptr ?N t \<in> ?A" using ptr_in[of ?N t] by (auto simp: inord_plug)
  have og: "outside (map_root m) ?A h ?g"
  proof -
    have "?q = map_root m \<and> cside C = Lft \<or> ?q \<in> ?A" using par_in_ctx[of C "map_root m"] by (cases "C = []") (auto simp: inord_plug)
    then show ?thesis using pq by (auto simp: outside_def fun_upd_def)
  qed
  have bg: "color ?g ?N = CL_MAP_BLACK" using b by simp
  have cd: "color ?g d = c" using tree_in_node(1)[OF t] by simp
  obtain n where n: "rb n (bra s c t d Tip)" "crb n C" "c = CL_MAP_BLACK \<or> C \<noteq> [] \<and> ccol C = CL_MAP_BLACK" using rb_unplug[OF r] by fastforce
  show ?rest
  proof (cases c)
    case CL_MAP_RED
    then have "rb n t" "rcol t = CL_MAP_BLACK" using n(1) by (auto simp: rb_bra)
    then have "\<exists>k. rb k (plug t C)" "rcol (plug t C) = CL_MAP_BLACK" using rb_plug[of n t C] n(2) by auto
    then show ?thesis using u(1) og bg cd CL_MAP_RED by (intro exI[of _ ?g] exI[of _ "plug t C"]) (simp add: Let_def)
  next
    case CL_MAP_BLACK
    then obtain n' where "n = Suc n'" "rb n' t" using n(1) by (cases n) (auto simp: rb_bra)
    then obtain h' T where h': "cl_map_del_bal m (ptr ?N t) ?g = Inr h'" "tree_in m h' T" "\<exists>k. rb k T" "rcol T = CL_MAP_BLACK"
      "inord T = inord (plug t C)" "around m (plug t C) ?g h'" using del_bal_ok[OF u bg rb_short] n(2) by blast
    have "outside (map_root m) ?A ?g h'" by (rule outside_mono[OF h'(6)]) blast
    then have o: "outside (map_root m) ?A h h'" by (rule outside_trans[OF og])
    have "color h' ?N = CL_MAP_BLACK" using around_nil[OF u(1) h'(6)] bg by simp
    then show ?thesis using h' o cd CL_MAP_BLACK by (intro exI[of _ h'] exI[of _ T]) (simp add: Let_def)
  qed
qed

section \<open>The substitute\<close>

lemma substitute_ok:
  assumes t: "tree_in m h (plug (Br c l p r) C)" and d: "d \<notin> {map_root m, map_nil m, 0} \<union> set (inord (plug (Br c l p r) C))"
  shows "\<exists>h'. substitute p d h = Inr h' \<and> tree_in m h' (plug (Br c l d r) C) \<and> color h' (map_nil m) = color h (map_nil m) \<and>
    outside (map_root m) ({d, map_nil m} \<union> set (inord (plug (Br c l p r) C))) h h'"
proof -
  let ?N = "map_nil m" and ?q = "par (map_root m) C"
  let ?g = "set_child Rgt d (ptr ?N r) (set_child Lft d (ptr ?N l) (set_up d ?q h))"
  let ?f = "set_up (ptr ?N l) d (set_up (ptr ?N r) d (set_child (cside C) ?q d ?g))" let ?h = "set_color d c ?f"
  have t': "tree_in m h (plug (bra Lft c l p r) C)" using t by simp
  note a = tree_in_addr[OF t'] and n = tree_in_node[OF t']
  have dn: "d \<noteq> p" "d \<notin> set (inord l)" "d \<notin> set (inord r)" "d \<notin> set (ctx_l C @ ctx_r C)" "d \<noteq> ?q" "d \<noteq> map_root m" "d \<noteq> ?N"
    using d par_in[of "map_root m" C] by (auto simp: inord_plug)
  have ln: "ptr ?N l \<noteq> ?q" "ptr ?N r \<noteq> ?q" "ptr ?N l \<noteq> p" "ptr ?N r \<noteq> p" "ptr ?N l \<noteq> d" "ptr ?N r \<noteq> d"
    "ptr ?N l \<notin> set (ctx_l C @ ctx_r C)" "ptr ?N r \<notin> set (ctx_l C @ ctx_r C)"
    using a(4,6,8-10) n(6) dn ptr_in[of ?N l] ptr_in[of ?N r] by auto
  have disj: "set (inord l) \<inter> set (inord r) = {}" "p \<notin> set (inord l)" "p \<notin> set (inord r)" "distinct (inord l)" "distinct (inord r)"
    "?N \<notin> set (inord l)" "?N \<notin> set (inord r)" "?q \<notin> set (inord l)" "?q \<notin> set (inord r)" using a(4,7,9) by auto
  have li: "l \<noteq> Tip \<Longrightarrow> ptr ?N l \<in> set (inord l)" "r \<noteq> Tip \<Longrightarrow> ptr ?N r \<in> set (inord r)" by (cases l; auto) (cases r; auto)
  have lr: "ptr ?N l \<notin> set (inord r)" "ptr ?N r \<notin> set (inord l)" using disj ptr_in[of ?N l] ptr_in[of ?N r] by auto
  have "tree_in m ?g (plug (bra Lft c l p r) C) \<longleftrightarrow> tree_in m h (plug (bra Lft c l p r) C)"
    by (rule tree_in_cong) (use d in \<open>auto simp: same_item_def\<close>)
  then have slot: "cl_map_get_parent_ptr_to_item p ?g = Inr (cside C, ?q)" using parent_slot t' by blast
  have kids: "p_left h p = ptr ?N l" "p_right h p = ptr ?N r" "p_up h p = ?q" using n by auto
  have "substitute p d h = Inr ?h" using slot kids dn ln n(1,8) by (simp add: substitute_def Let_def put_def)
  moreover have "tree_in m ?h (plug (Br c l d r) C)"
  proof -
    have "ctx_at h (map_root m) ?N p C" using t by (simp add: tree_in_plug)
    then have "ctx_at ?h (map_root m) ?N d C"
    proof (rule ctx_put)
      show "same_item h ?h x" if "x \<in> set (ctx_l C @ ctx_r C)" "x \<noteq> ?q" for x
        using that dn(4) ln(7,8) by (intro same_itemI) auto
      show "p_left ?h (map_root m) = p_left h (map_root m)" if "C \<noteq> []"
        using par_in_ctx[OF that, of "map_root m"] a(8) dn(6) by auto
    qed (use a(5,8) dn ln in auto)
    moreover have "tree_at ?h ?N d l"
    proof (rule tree_at_adopt)
      show "tree_at h ?N p l" using t by (simp add: tree_in_plug)
    qed (use disj dn lr li ln in \<open>auto simp: same_item_def\<close>)
    moreover have "tree_at ?h ?N d r"
    proof (rule tree_at_adopt)
      show "tree_at h ?N p r" using t by (simp add: tree_in_plug)
    qed (use disj dn lr li ln in \<open>auto simp: same_item_def\<close>)
    moreover have "distinct (map_root m # ?N # 0 # ctx_l C @ inord (Br c l d r) @ ctx_r C)" using t d unfolding tree_in_plug by (auto simp: inord_plug)
    ultimately show ?thesis unfolding tree_in_plug using dn ln by simp
  qed
  moreover have "outside (map_root m) ({d, ?N} \<union> set (inord (plug (Br c l p r) C))) h ?h"
  proof -
    have q: "?q = map_root m \<and> cside C = Lft \<or> ?q \<in> set (ctx_l C @ ctx_r C)" using par_in_ctx[of C "map_root m"] by (cases "C = []") auto
    let ?A = "{d, ?N} \<union> set (inord (plug (Br c l p r) C))"
    have "ptr ?N l \<in> ?A" "ptr ?N r \<in> ?A" "d \<in> ?A" using ptr_in[of ?N l] ptr_in[of ?N r] by (auto simp: inord_plug)
    moreover have "?q \<in> ?A \<or> cside C = Lft \<and> ?q = map_root m" using q by (auto simp: inord_plug)
    ultimately show ?thesis by (simp only: outside_set outside_color outside_refl simp_thms)
  qed
  ultimately show ?thesis using dn(7) by (intro exI[of _ ?h]) simp
qed

lemma rb_plug_cong: "(\<And>n. rb n t = rb n t') \<Longrightarrow> rcol t = rcol t' \<Longrightarrow> rb k (plug t C) = rb k (plug t' C) \<and> rcol (plug t C) = rcol (plug t' C)"
proof (induction C arbitrary: t t')
  case (Cons f C)
  obtain s c a y where f: "f = Fr s c a y" by (cases f)
  have "rb k (plug (bra s c t a y) C) = rb k (plug (bra s c t' a y) C) \<and> rcol (plug (bra s c t a y) C) = rcol (plug (bra s c t' a y) C)"
    by (rule Cons.IH) (use Cons.prems in \<open>simp_all add: rb_bra\<close>)
  then show ?case using f by simp
qed simp

lemma rb_rename: "rb k (plug (Br c l a r) C) \<longleftrightarrow> rb k (plug (Br c l b r) C)"
  and rcol_rename: "rcol (plug (Br c l a r) C) = rcol (plug (Br c l b r) C)"
  using rb_plug_cong[of "Br c l a r" "Br c l b r" k C] by simp_all

lemma leftmost: "r \<noteq> Tip \<Longrightarrow> \<exists>c d x C. r = plug (Br c Tip d x) C \<and> ctx_l C = []"
proof (induction r)
  case (Br c l a x)
  show ?case
  proof (cases "l = Tip")
    case True
    then show ?thesis by (intro exI[of _ c] exI[of _ a] exI[of _ x] exI[of _ "[]"]) simp
  next
    case False
    then obtain c' d x' C where l: "l = plug (Br c' Tip d x') C" "ctx_l C = []" using Br.IH(1) by blast
    have "plug (Br c' Tip d x') (C @ [Fr Lft c a x]) = Br c l a x" unfolding l(1) by (simp add: plug_append)
    moreover have "ctx_l (C @ [Fr Lft c a x]) = []" using l(2) by (induction C rule: ctx_l.induct) auto
    ultimately show ?thesis by metis
  qed
qed simp

section \<open>Removal\<close>

lemma prim_remove_holds:
  assumes "holds s h (xs @ x # ys)"
  shows "holds (cl_primitive_remove x s) h (xs @ ys)" "only (set (h # xs @ ys)) s (cl_primitive_remove x s)"
proof -
  note n = holds_at[OF assms]
  have b: "before h xs \<in> set (h # xs)" "after h ys \<in> set (h # ys)" by (rule before_in after_in)+
  have d: "x \<notin> set (h # xs @ ys)" using assms by (auto simp: holds_def)
  then have ne: "before h xs \<noteq> x" "after h ys \<noteq> x" using b by auto
  show "holds (cl_primitive_remove x s) h (xs @ ys)" by (rule ring_remove[OF assms]) (use n ne in \<open>auto simp: cl_primitive_remove_def Let_def\<close>)
  show "only (set (h # xs @ ys)) s (cl_primitive_remove x s)" using b n ne by (auto simp: only_def cl_primitive_remove_def Let_def)
qed

text \<open>What a removal leaves, of the tree and outside of it.\<close>

definition cut :: "cl_qmap \<Rightarrow> cl_map_items \<Rightarrow> ptree \<Rightarrow> nat \<Rightarrow> cl_map_items \<Rightarrow> bool" where
  "cut m h t p h' \<longleftrightarrow> (\<exists>T. tree_in m h' T \<and> (\<exists>k. rb k T) \<and> rcol T = CL_MAP_BLACK \<and> inord T = remove1 p (inord t)) \<and>
     color h' (map_nil m) = CL_MAP_BLACK \<and> outside (map_root m) (insert (map_nil m) (set (inord t))) h h'"

text \<open>The statements of the removal after the item has left the list.\<close>

definition remove_tree :: "cl_qmap \<Rightarrow> nat \<Rightarrow> nat \<Rightarrow> cl_map_items \<Rightarrow> fault + cl_map_items" where
  "remove_tree m p d h =
    (let x = (if p_left h d \<noteq> map_nil m then p_left h d else p_right h d); h = set_up x (p_up h d) h in
     bindE (cl_map_get_parent_ptr_to_item d h) (\<lambda>pp.
     bindE (let h = put pp x h in if color h d \<noteq> CL_MAP_RED then cl_map_del_bal m x h else Inr h) (\<lambda>h.
     if d \<noteq> p then substitute p d h else Inr h)))"

lemma remove_tree_node:
  assumes t: "tree_in m h (plug (bra s c t d Tip) C)" and r: "rb k (plug (bra s c t d Tip) C)" "rcol (plug (bra s c t d Tip) C) = CL_MAP_BLACK"
    and b: "color h (map_nil m) = CL_MAP_BLACK"
  shows "\<exists>h' T. remove_tree m p d h = (if d \<noteq> p then substitute p d h' else Inr h') \<and>
      tree_in m h' T \<and> (\<exists>k. rb k T) \<and> rcol T = CL_MAP_BLACK \<and> inord T = ctx_l C @ inord t @ ctx_r C \<and>
      outside (map_root m) (insert (map_nil m) (set (ctx_l C @ inord t @ ctx_r C))) h h' \<and> color h' (map_nil m) = CL_MAP_BLACK"
proof -
  let ?N = "map_nil m"
  note n = tree_in_node[OF t] and a = tree_in_addr[OF t]
  have "ptr ?N t = ?N \<longleftrightarrow> t = Tip" using a(7) by (cases t) auto
  then have x: "(if p_left h d \<noteq> ?N then p_left h d else p_right h d) = ptr ?N t" using n(3,4) by (cases s) auto
  note e = remove_node[OF t r b]
  obtain h' T where h': "(let h = set_child (cside C) (par (map_root m) C) (ptr ?N t) (set_up (ptr ?N t) (par (map_root m) C) h)
        in if color h d \<noteq> CL_MAP_RED then cl_map_del_bal m (ptr ?N t) h else Inr h) = Inr h'"
    "tree_in m h' T" "\<exists>k. rb k T" "rcol T = CL_MAP_BLACK" "inord T = ctx_l C @ inord t @ ctx_r C"
    "outside (map_root m) (insert ?N (set (ctx_l C @ inord t @ ctx_r C))) h h'" "color h' ?N = CL_MAP_BLACK"
    using e(2) unfolding inord_plug by blast
  have "remove_tree m p d h = (if d \<noteq> p then substitute p d h' else Inr h')"
    unfolding remove_tree_def x n(2) Let_def e(1) bindE.simps put_def fst_conv snd_conv h'(1)[unfolded Let_def] ..
  then show ?thesis using h'(2-) by blast
qed

lemma remove_leaf:
  assumes t: "tree_in m h (plug (bra s c t p Tip) C)" and r: "rb k (plug (bra s c t p Tip) C)" "rcol (plug (bra s c t p Tip) C) = CL_MAP_BLACK"
    and b: "color h (map_nil m) = CL_MAP_BLACK"
  shows "\<exists>h'. remove_tree m p p h = Inr h' \<and> cut m h (plug (bra s c t p Tip) C) p h'"
proof -
  obtain h' T where h': "remove_tree m p p h = Inr h'" "tree_in m h' T" "\<exists>k. rb k T" "rcol T = CL_MAP_BLACK" "inord T = ctx_l C @ inord t @ ctx_r C"
    "outside (map_root m) (insert (map_nil m) (set (ctx_l C @ inord t @ ctx_r C))) h h'" "color h' (map_nil m) = CL_MAP_BLACK"
    using remove_tree_node[OF t r b, of p] by auto
  have "p \<notin> set (ctx_l C @ inord t)" using tree_in_addr[OF t] by (cases s) auto
  then have io: "inord T = remove1 p (inord (plug (bra s c t p Tip) C))"
    unfolding h'(5) by (cases s) (auto simp: inord_plug remove1_append)
  have "outside (map_root m) (insert (map_nil m) (set (inord (plug (bra s c t p Tip) C)))) h h'"
    by (rule outside_mono[OF h'(6)]) (auto simp: inord_plug)
  then show ?thesis using h' io unfolding cut_def by blast
qed

lemma remove_inner:
  assumes t: "tree_in m h T0" "T0 = plug (Br c l p r) C" and lr: "l \<noteq> Tip" "r \<noteq> Tip" and rb: "rb k T0" "rcol T0 = CL_MAP_BLACK"
    and b: "color h (map_nil m) = CL_MAP_BLACK"
  shows "\<exists>h'. remove_tree m p (hd (inord r)) h = Inr h' \<and> cut m h T0 p h'"
proof -
  obtain cd d x D where r: "r = plug (Br cd Tip d x) D" "ctx_l D = []" using leftmost[OF lr(2)] by blast
  let ?C = "D @ Fr Rgt c p l # C" and ?N = "map_nil m"
  have ir: "inord r = d # inord x @ ctx_r D" using r by (simp add: inord_plug)
  have T0: "T0 = plug (bra Rgt cd x d Tip) ?C" using t(2) r(1) by (simp add: plug_append)
  have cl: "ctx_l ?C = ctx_l C @ inord l @ [p]" "ctx_r ?C = ctx_r D @ ctx_r C" using r(2) by (induction D rule: ctx_l.induct) auto
  have dist: "distinct (ctx_l C @ inord l @ p # d # inord x @ ctx_r D @ ctx_r C)" using t ir by (simp add: tree_in_def inord_plug)
  have dp: "d \<noteq> p" using dist by auto
  obtain g T where g0: "remove_tree m p d h = (if d \<noteq> p then substitute p d g else Inr g)" "tree_in m g T" "\<exists>k. rb k T" "rcol T = CL_MAP_BLACK"
    "inord T = ctx_l ?C @ inord x @ ctx_r ?C" "outside (map_root m) (insert ?N (set (ctx_l ?C @ inord x @ ctx_r ?C))) h g" "color g ?N = CL_MAP_BLACK"
    using remove_tree_node[OF t(1)[unfolded T0] rb[unfolded T0] b, of p] by blast
  have "outside (map_root m) (insert ?N (set (inord T0))) h g" by (rule outside_mono[OF g0(6)]) (auto simp: T0 inord_plug)
  moreover have "inord T = (ctx_l C @ inord l) @ p # inord x @ ctx_r D @ ctx_r C" using g0(5) unfolding cl by simp
  moreover have "remove_tree m p d h = substitute p d g" using g0(1) dp by simp
  ultimately have g: "remove_tree m p d h = substitute p d g" "tree_in m g T" "\<exists>k. rb k T" "rcol T = CL_MAP_BLACK"
    "inord T = (ctx_l C @ inord l) @ p # inord x @ ctx_r D @ ctx_r C"
    "outside (map_root m) (insert ?N (set (inord T0))) h g" "color g ?N = CL_MAP_BLACK" using g0 by blast+
  obtain c' l' r' C' where T: "T = plug (Br c' l' p r') C'" using plug_split[of p T] g(5) by auto
  have split: "ctx_l C' @ inord l' = ctx_l C @ inord l" "inord r' @ ctx_r C' = inord x @ ctx_r D @ ctx_r C"
  proof -
    have "(ctx_l C' @ inord l') @ p # inord r' @ ctx_r C' = (ctx_l C @ inord l) @ p # inord x @ ctx_r D @ ctx_r C"
      using g(5) T by (simp add: inord_plug)
    moreover have "distinct ((ctx_l C @ inord l) @ p # inord x @ ctx_r D @ ctx_r C)" using dist by auto
    ultimately show "ctx_l C' @ inord l' = ctx_l C @ inord l" "inord r' @ ctx_r C' = inord x @ ctx_r D @ ctx_r C"
      by (metis append_Cons_eq_iff distinct_append distinct.simps(2) disjoint_iff list.set_intros(1))+
  qed
  have dn: "d \<notin> {map_root m, ?N, 0} \<union> set (inord (plug (Br c' l' p r') C'))"
  proof -
    have "d \<in> set (inord T0)" unfolding T0 by (simp add: inord_plug)
    then have "d \<notin> {map_root m, ?N, 0}" using t(1) by (cases "d = 0") (auto simp: tree_in_def)
    moreover have "d \<notin> set (inord T)" using dist unfolding g(5) by auto
    ultimately show ?thesis unfolding T by blast
  qed
  obtain h' where h': "substitute p d g = Inr h'" "tree_in m h' (plug (Br c' l' d r') C')" "color h' ?N = color g ?N"
    "outside (map_root m) ({d, ?N} \<union> set (inord (plug (Br c' l' p r') C'))) g h'" using substitute_ok[OF g(2)[unfolded T] dn] by blast
  have i1: "inord (plug (Br c' l' d r') C') = remove1 p (inord T0)"
  proof -
    have "inord T0 = (ctx_l C @ inord l) @ p # d # inord x @ ctx_r D @ ctx_r C" using t(2) ir by (simp add: inord_plug)
    moreover have "p \<notin> set (ctx_l C @ inord l)" using dist by auto
    ultimately have "remove1 p (inord T0) = (ctx_l C @ inord l) @ d # inord x @ ctx_r D @ ctx_r C" by (simp add: remove1_append)
    then show ?thesis using split by (simp add: inord_plug)
  qed
  have "rb k' T \<longleftrightarrow> rb k' (plug (Br c' l' d r') C')" "rcol T = rcol (plug (Br c' l' d r') C')" for k'
    unfolding T by (rule rb_rename rcol_rename)+
  then have "\<exists>k. rb k (plug (Br c' l' d r') C')" "rcol (plug (Br c' l' d r') C') = CL_MAP_BLACK" using g(3,4) by auto
  moreover have "outside (map_root m) (insert ?N (set (inord T0))) h h'"
  proof (rule outside_trans[OF g(6)], rule outside_mono[OF h'(4)])
    show "{d, ?N} \<union> set (inord (plug (Br c' l' p r') C')) \<subseteq> insert ?N (set (inord T0))"
      using g(5) T t(2) ir by (auto simp: inord_plug)
  qed
  ultimately show ?thesis using h' g(1,7) i1 ir unfolding cut_def by auto
qed

lemma remove_unfold:
  "cl_qmap_remove_item m p h =
    asserting (p \<noteq> 0) (if p = map_nil m then Inr (m, h)
    else bindE (if p_right h p = map_nil m \<or> p_left h p = map_nil m then Inr p
        else asserting (cl_qmap_next p h \<noteq> map_nil m) (Inr (cl_qmap_next p h))) (\<lambda>d.
      bindE (remove_tree (m\<lparr>map_count := map_count m - 1\<rparr>) p d (set_thread (cl_primitive_remove p (thread h)) h)) (\<lambda>h.
      asserting (color h (map_nil m) \<noteq> CL_MAP_RED) (Inr (m\<lparr>map_count := map_count m - 1\<rparr>, h)))))"
proof -
  have assoc2: "bindE (bindE x f) g = bindE x (\<lambda>y. bindE (f y) g)" for x :: "fault + child_slot" and f :: "child_slot \<Rightarrow> fault + cl_map_items" and g :: "cl_map_items \<Rightarrow> fault + cl_qmap \<times> cl_map_items"
    by (cases x) simp_all
  have assoc3: "bindE (bindE x f) g = bindE x (\<lambda>y. bindE (f y) g)" for x :: "fault + cl_map_items" and f :: "cl_map_items \<Rightarrow> fault + cl_map_items" and g :: "cl_map_items \<Rightarrow> fault + cl_qmap \<times> cl_map_items"
    by (cases x) simp_all
  show ?thesis unfolding cl_qmap_remove_item_def remove_tree_def Let_def assoc2 assoc3 by simp
qed

lemma remove_item_ok:
  assumes q: "qmap_at m h t" and p: "p \<in> set (inord t)"
  shows "\<exists>h' t'. cl_qmap_remove_item m p h = Inr (m\<lparr>map_count := map_count m - 1\<rparr>, h') \<and>
    qmap_at (m\<lparr>map_count := map_count m - 1\<rparr>) h' t' \<and> inord t' = remove1 p (inord t) \<and> item_key h' = item_key h \<and>
    elsewhere ({map_root m, map_nil m} \<union> set (inord t)) h h'"
proof -
  let ?N = "map_nil m" and ?m = "m\<lparr>map_count := map_count m - 1\<rparr>" and ?g = "set_thread (cl_primitive_remove p (thread h)) h"
  obtain c l r C where t: "t = plug (Br c l p r) C" using plug_split[OF p] by blast
  obtain k where q': "tree_in m h t" "rb k t" "rcol t = CL_MAP_BLACK" "color h ?N = CL_MAP_BLACK" "color h (map_root m) = CL_MAP_BLACK" "p_up h (map_root m) = map_root m"
    "sorted_wrt (<) (map (item_key h) (inord t))" "holds (thread h) ?N (inord t)" "map_count m = of_nat (length (inord t))" using q by (auto simp: qmap_at_def)
  have tb: "tree_in m h (plug (bra Lft c l p r) C)" using q'(1) t by simp
  note n = tree_in_node[OF tb] and a = tree_in_addr[OF tb]
  have pt: "ptr ?N x = ?N \<longleftrightarrow> x = Tip" if "?N \<notin> set (inord x)" for x using that by (cases x) auto
  have nn: "?N \<notin> set (inord l)" "?N \<notin> set (inord r)" using a(7) by auto
  have io: "inord t = (ctx_l C @ inord l) @ p # inord r @ ctx_r C" using t by (simp add: inord_plug)
  have ps: "p \<notin> set (ctx_l C @ inord l)" using q'(1) io by (auto simp: tree_in_def)
  have g: "tree_in ?m ?g t" "color ?g (map_nil ?m) = CL_MAP_BLACK" using q' by simp_all
  define d where "d = (if l = Tip \<or> r = Tip then p else hd (inord r))"
  have d1: "(if p_right h p = ?N \<or> p_left h p = ?N then Inr p
        else asserting (cl_qmap_next p h \<noteq> ?N) (Inr (cl_qmap_next p h))) = Inr d"
  proof (cases "l = Tip \<or> r = Tip")
    case True
    then show ?thesis using n(3,4) pt nn by (auto simp: d_def)
  next
    case False
    then have "inord r \<noteq> []" by (cases r) auto
    then obtain x xs where x: "inord r = x # xs" by (cases "inord r") auto
    have "nxt (thread h) p = x" using holds_at(2)[of "thread h" ?N "ctx_l C @ inord l" p "inord r @ ctx_r C"] q'(8) io x by (simp add: after_def)
    moreover have "x \<noteq> ?N" using a(7) x by auto
    ultimately show ?thesis using False n(3,4) pt nn x by (auto simp: d_def cl_qmap_next_def asserting_def)
  qed
  have "\<exists>h'. remove_tree ?m p d ?g = Inr h' \<and> cut ?m ?g t p h'"
  proof (cases "l = Tip \<or> r = Tip")
    case True
    then obtain s x where s: "t = plug (bra s c x p Tip) C" using t by (metis bra.simps)
    show ?thesis using remove_leaf[OF g(1)[unfolded s] q'(2,3)[unfolded s] g(2)] s True by (simp add: d_def)
  next
    case False
    then show ?thesis using remove_inner[OF g(1) t _ _ q'(2,3) g(2)] by (simp add: d_def)
  qed
  then obtain h' T where h': "remove_tree ?m p d ?g = Inr h'" "tree_in ?m h' T" "\<exists>k. rb k T" "rcol T = CL_MAP_BLACK" "inord T = remove1 p (inord t)"
    "color h' ?N = CL_MAP_BLACK" "outside (map_root m) (insert ?N (set (inord t))) ?g h'" unfolding cut_def by auto
  have rm: "remove1 p (inord t) = (ctx_l C @ inord l) @ inord r @ ctx_r C" using ps unfolding io by (simp add: remove1_append)
  have th: "holds (thread ?g) ?N (remove1 p (inord t))" "only (set (?N # remove1 p (inord t))) (thread h) (thread ?g)"
    using prim_remove_holds[of "thread h" ?N "ctx_l C @ inord l" p "inord r @ ctx_r C"] q'(8)[unfolded io] unfolding rm by simp_all
  have o: "item_key h' = item_key h" "thread h' = thread ?g" using h'(7) by (simp_all add: outside_def)
  have "map_root m \<notin> insert ?N (set (inord t))" using q'(1) by (auto simp: tree_in_def)
  then have rt: "color h' (map_root m) = CL_MAP_BLACK" "p_up h' (map_root m) = map_root m" using h'(7) q'(5,6) by (simp_all add: outside_def)
  have "sorted_wrt (<) (map (item_key h) (remove1 p (inord t)))" using q'(7)[unfolded io] unfolding rm by (auto simp: sorted_wrt_append)
  moreover have "map_count m - 1 = of_nat (length (remove1 p (inord t)))" using q'(9)[unfolded io] unfolding rm by simp
  ultimately have "qmap_at ?m h' T" using h' th(1) o rt by (simp add: qmap_at_def)
  moreover have "elsewhere ({map_root m, ?N} \<union> set (inord t)) h h'"
  proof -
    have "set (remove1 p (inord t)) \<subseteq> set (inord t)" by (rule set_remove1_subset)
    then have "elsewhere ({map_root m, ?N} \<union> set (inord t)) h ?g" using th(2) by (auto simp: elsewhere_def same_item_def only_def)
    moreover have "elsewhere ({map_root m, ?N} \<union> set (inord t)) ?g h'" by (rule elsewhere_mono[OF outside_elsewhere[OF h'(7)]]) auto
    ultimately show ?thesis by (rule elsewhere_trans)
  qed
  moreover have "cl_qmap_remove_item m p h = Inr (?m, h')"
    unfolding remove_unfold d1 using h'(1,6) n(6,7) by (simp add: asserting_def)
  ultimately show ?thesis using h'(5) o(1) by blast
qed

end
