(* ===== verification/Qmap_Maps.thy ===== *)
theory Qmap_Maps
  imports Qmap_Remove
begin

text \<open>
  The maps of \<open>util/cl_map.c\<close> as finite maps from keys to items: searching, initialisation, and the refinement of any
  sequence of operations.
\<close>

section \<open>Entries\<close>

definition entries :: "cl_map_items \<Rightarrow> nat list \<Rightarrow> u64 \<Rightarrow> nat option" where
  "entries h xs k = find (\<lambda>x. item_key h x = k) xs"

lemma entries_Some:
  assumes "sorted_wrt (<) (map (item_key h) xs)"
  shows "entries h xs k = Some x \<longleftrightarrow> x \<in> set xs \<and> item_key h x = k"
proof -
  have "distinct (map (item_key h) xs)" using assms strict_sorted_iff by blast
  then have inj: "inj_on (item_key h) (set xs)" by (simp add: distinct_map)
  show ?thesis
  proof
    assume "entries h xs k = Some x"
    then show "x \<in> set xs \<and> item_key h x = k" by (auto simp: entries_def find_Some_iff)
  next
    assume x: "x \<in> set xs \<and> item_key h x = k"
    then obtain y where y: "entries h xs k = Some y" by (cases "entries h xs k") (auto simp: entries_def find_None_iff)
    then have "y \<in> set xs" "item_key h y = k" by (auto simp: entries_def find_Some_iff)
    then show "entries h xs k = Some x" using y x inj by (auto dest: inj_onD)
  qed
qed

lemma entries_None: "entries h xs k = None \<longleftrightarrow> k \<notin> item_key h ` set xs"
  by (auto simp: entries_def find_None_iff)

lemma entries_eqI:
  assumes "sorted_wrt (<) (map (item_key h) xs)" "\<And>k x. M k = Some x \<longleftrightarrow> x \<in> set xs \<and> item_key h x = k"
  shows "entries h xs = M"
proof
  fix k
  have "entries h xs k = Some x \<longleftrightarrow> M k = Some x" for x unfolding entries_Some[OF assms(1)] assms(2) ..
  then show "entries h xs k = M k" by (metis not_None_eq)
qed

lemma entries_ran: "sorted_wrt (<) (map (item_key h) xs) \<Longrightarrow> ran (entries h xs) = set xs"
  by (auto simp: ran_def entries_Some)

lemma find_append: "find P (xs @ ys) = (case find P xs of None \<Rightarrow> find P ys | Some x \<Rightarrow> Some x)"
  by (induction xs) auto

lemma find_least:
  assumes "find (\<lambda>x. k < f x) xs = Some x" "sorted_wrt (<) (map f xs)"
  shows "x \<in> set xs" "k < (f x :: u64)" "\<And>y. y \<in> set xs \<Longrightarrow> k < f y \<Longrightarrow> f x \<le> f y"
  using assms by (induction xs) (auto split: if_splits)

section \<open>Searching\<close>

lemma get_loop_finds:
  assumes "tree_at h (map_nil m) q t" "map_nil m \<notin> set (inord t)" "sorted_wrt (<) (map (item_key h) (inord t))"
  shows "get_loop m k h (ptr (map_nil m) t) = Some (case entries h (inord t) k of None \<Rightarrow> map_nil m | Some x \<Rightarrow> x)"
  using assms
proof (induction t arbitrary: q)
  case Tip
  then show ?case by (subst get_loop.simps) (simp add: entries_def)
next
  case (Br c l a r)
  let ?e = "get_loop m k h (ptr (map_nil m) (Br c l a r))"
  have a: "a \<noteq> map_nil m" "p_left h a = ptr (map_nil m) l" "p_right h a = ptr (map_nil m) r" using Br.prems by auto
  have s: "sorted_wrt (<) (map (item_key h) (inord l))" "sorted_wrt (<) (map (item_key h) (inord r))"
    "\<And>x. x \<in> set (inord l) \<Longrightarrow> item_key h x < item_key h a" "\<And>x. x \<in> set (inord r) \<Longrightarrow> item_key h a < item_key h x"
    using Br.prems(3) by (auto simp: sorted_wrt_append)
  have e: "entries h (inord (Br c l a r)) k = (case entries h (inord l) k of None \<Rightarrow> if item_key h a = k then Some a else entries h (inord r) k | Some x \<Rightarrow> Some x)"
    by (simp add: entries_def find_append split: option.split)
  consider "k = item_key h a" | "k < item_key h a" | "item_key h a < k" by fastforce
  then show ?case
  proof cases
    case 1
    have "entries h (inord l) k = None" using 1 s(3) by (force simp: entries_None)
    moreover have "?e = Some a" using 1 a by (subst get_loop.simps) simp
    ultimately show ?thesis using 1 e by simp
  next
    case 2
    have "entries h (inord r) k = None" using 2 s(4) by (force simp: entries_None)
    moreover have "?e = get_loop m k h (ptr (map_nil m) l)" using 2 a by (subst get_loop.simps) auto
    ultimately show ?thesis using 2 e Br.IH(1)[of a] Br.prems s(1) by (auto split: option.splits)
  next
    case 3
    have "entries h (inord l) k = None" using 3 s(3) by (force simp: entries_None)
    moreover have "?e = get_loop m k h (ptr (map_nil m) r)" using 3 a by (subst get_loop.simps) auto
    ultimately show ?thesis using 3 e Br.IH(2)[of a] Br.prems s(2) by auto
  qed
qed

lemma get_next_loop_finds:
  assumes "tree_at h (map_nil m) q t" "map_nil m \<notin> set (inord t)" "sorted_wrt (<) (map (item_key h) (inord t))"
  shows "get_next_loop m k h f (ptr (map_nil m) t) = Some (case find (\<lambda>x. k < item_key h x) (inord t) of None \<Rightarrow> f | Some x \<Rightarrow> x)"
  using assms
proof (induction t arbitrary: q f)
  case Tip
  then show ?case by (subst get_next_loop.simps) simp
next
  case (Br c l a r)
  have a: "a \<noteq> map_nil m" "p_left h a = ptr (map_nil m) l" "p_right h a = ptr (map_nil m) r" using Br.prems by auto
  have s: "sorted_wrt (<) (map (item_key h) (inord l))" "sorted_wrt (<) (map (item_key h) (inord r))"
    "\<And>x. x \<in> set (inord l) \<Longrightarrow> item_key h x < item_key h a" using Br.prems(3) by (auto simp: sorted_wrt_append)
  show ?case
  proof (cases "k < item_key h a")
    case True
    then show ?thesis using a s(1) Br.IH(1)[of a a] Br.prems by (subst get_next_loop.simps) (simp add: find_append split: option.splits)
  next
    case False
    then have "find (\<lambda>x. k < item_key h x) (inord l) = None" using s(3) by (fastforce simp: find_None_iff)
    then show ?thesis using False a s(2) Br.IH(2)[of a f] Br.prems by (subst get_next_loop.simps) (simp add: find_append)
  qed
qed

lemma qmap_atD:
  assumes "qmap_at m h t"
  shows "tree_at h (map_nil m) (map_root m) t" "p_left h (map_root m) = ptr (map_nil m) t" "distinct (map_root m # map_nil m # 0 # inord t)"
    "sorted_wrt (<) (map (item_key h) (inord t))" "holds (thread h) (map_nil m) (inord t)" "map_nil m \<notin> set (inord t)"
  using assms by (auto simp: qmap_at_def tree_in_def)

lemma get_ok: "qmap_at m h t \<Longrightarrow> cl_qmap_get m k h = Some (case entries h (inord t) k of None \<Rightarrow> map_nil m | Some x \<Rightarrow> x)"
  using get_loop_finds[OF qmap_atD(1) qmap_atD(6) qmap_atD(4)] qmap_atD(2) by (simp add: cl_qmap_get_def)

lemma get_next_ok:
  "qmap_at m h t \<Longrightarrow> cl_qmap_get_next m k h = Some (case find (\<lambda>x. k < item_key h x) (inord t) of None \<Rightarrow> map_nil m | Some x \<Rightarrow> x)"
  using get_next_loop_finds[OF qmap_atD(1) qmap_atD(6) qmap_atD(4)] qmap_atD(2) by (simp add: cl_qmap_get_next_def)

section \<open>A new map\<close>

lemma init_ok:
  assumes "map_root m \<noteq> map_nil m" "map_root m \<noteq> 0" "map_nil m \<noteq> 0"
  shows "\<exists>h'. cl_qmap_init m h = (m\<lparr>map_count := 0\<rparr>, h') \<and> qmap_at (m\<lparr>map_count := 0\<rparr>) h' Tip \<and> elsewhere {map_root m, map_nil m} h h'"
  using assms
  by (auto simp: cl_qmap_init_def cl_qmap_remove_all_def zero_item_def Let_def qmap_at_def tree_in_def holds_Nil elsewhere_def same_item_def)

section \<open>Refinement of a finite map\<close>

datatype map_op = Insert u64 nat | Remove u64 | Get u64 | Get_Next u64 | Count

fun map_op_exec :: "map_op \<Rightarrow> cl_qmap \<times> cl_map_items \<Rightarrow> fault + nat \<times> cl_qmap \<times> cl_map_items" where
  "map_op_exec (Insert k p) (m, h) = cl_qmap_insert m k p h"
| "map_op_exec (Remove k) (m, h) = cl_qmap_remove m k h"
| "map_op_exec (Get k) (m, h) = bindE (orFault Diverges (cl_qmap_get m k h)) (\<lambda>p. Inr (p, m, h))"
| "map_op_exec (Get_Next k) (m, h) = bindE (orFault Diverges (cl_qmap_get_next m k h)) (\<lambda>p. Inr (p, m, h))"
| "map_op_exec Count (m, h) = Inr (unat (cl_qmap_count m), m, h)"

text \<open>The answer of an operation on a finite map; the end of the map stands for a missing item.\<close>

fun map_op_spec :: "nat \<Rightarrow> map_op \<Rightarrow> (u64 \<rightharpoonup> nat) \<Rightarrow> nat \<times> (u64 \<rightharpoonup> nat)" where
  "map_op_spec N (Insert k p) M = (case M k of Some x \<Rightarrow> (x, M) | None \<Rightarrow> (p, M(k \<mapsto> p)))"
| "map_op_spec N (Remove k) M = (case M k of Some x \<Rightarrow> (x, M(k := None)) | None \<Rightarrow> (N, M))"
| "map_op_spec N (Get k) M = (case M k of Some x \<Rightarrow> (x, M) | None \<Rightarrow> (N, M))"
| "map_op_spec N (Get_Next k) M =
    ((if \<exists>l\<in>dom M. k < l then the (M (Min {l \<in> dom M. k < l})) else N), M)"
| "map_op_spec N Count M = (card (dom M) mod 2 ^ 32, M)"

text \<open>A caller inserts only items that are in no map, at addresses of 64 bits.\<close>

fun map_op_allowed :: "cl_qmap \<Rightarrow> map_op \<Rightarrow> (u64 \<rightharpoonup> nat) \<Rightarrow> bool" where
  "map_op_allowed m (Insert k p) M \<longleftrightarrow> p < 2 ^ 64 \<and> p \<notin> {map_root m, map_nil m, 0} \<union> ran M"
| "map_op_allowed m _ M \<longleftrightarrow> True"

fun map_run_exec :: "map_op list \<Rightarrow> cl_qmap \<times> cl_map_items \<Rightarrow> fault + nat list \<times> cl_qmap \<times> cl_map_items" where
  "map_run_exec [] s = Inr ([], s)"
| "map_run_exec (a # as) s =
    bindE (map_op_exec a s) (\<lambda>(r, s). bindE (map_run_exec as s) (\<lambda>(rs, s). Inr (r # rs, s)))"

fun map_run_spec :: "nat \<Rightarrow> map_op list \<Rightarrow> (u64 \<rightharpoonup> nat) \<Rightarrow> nat list" where
  "map_run_spec N [] M = []"
| "map_run_spec N (a # as) M = (let (r, M) = map_op_spec N a M in r # map_run_spec N as M)"

fun map_run_allowed :: "cl_qmap \<Rightarrow> map_op list \<Rightarrow> (u64 \<rightharpoonup> nat) \<Rightarrow> bool" where
  "map_run_allowed m [] M \<longleftrightarrow> True"
| "map_run_allowed m (a # as) M \<longleftrightarrow> map_op_allowed m a M \<and> map_run_allowed m as (snd (map_op_spec (map_nil m) a M))"

text \<open>A map on the heap stands for a finite map.\<close>

definition stands_for :: "cl_qmap \<times> cl_map_items \<Rightarrow> (u64 \<rightharpoonup> nat) \<Rightarrow> bool" where
  "stands_for = (\<lambda>(m, h) M. \<exists>t. qmap_at m h t \<and> M = entries h (inord t))"

lemma stands_forI: "qmap_at m h t \<Longrightarrow> M = entries h (inord t) \<Longrightarrow> stands_for (m, h) M"
  by (auto simp: stands_for_def)

lemma insert_entries:
  assumes "qmap_at m h t" "entries h (inord t) k = None" "qmap_at m' h' t'" "item_key h' = (item_key h)(p := k)" "p \<notin> set (inord t)"
    and "inord t' = filter (\<lambda>x. item_key h x < k) (inord t) @ p # filter (\<lambda>x. k < item_key h x) (inord t)"
  shows "entries h' (inord t') = (entries h (inord t))(k \<mapsto> p)"
proof (rule entries_eqI[OF qmap_atD(4)[OF assms(3)]])
  fix l x
  have key: "item_key h' y = (if y = p then k else item_key h y)" for y using assms(4) by simp
  have "item_key h y \<noteq> k" if "y \<in> set (inord t)" for y using assms(2) that by (auto simp: entries_None)
  then have "set (inord t') = insert p (set (inord t))" unfolding assms(6) by (auto simp: neq_iff)
  then show "((entries h (inord t))(k \<mapsto> p)) l = Some x \<longleftrightarrow> x \<in> set (inord t') \<and> item_key h' x = l"
    using entries_Some[OF qmap_atD(4)[OF assms(1)], of l x] assms(2,5) by (auto simp: key entries_None)
qed

lemma remove_entries:
  assumes "qmap_at m h t" "entries h (inord t) k = Some p" "qmap_at m' h' t'" "item_key h' = item_key h" "inord t' = remove1 p (inord t)"
  shows "entries h' (inord t') = (entries h (inord t))(k := None)"
proof (rule entries_eqI[OF qmap_atD(4)[OF assms(3)]])
  fix l x
  note e = entries_Some[OF qmap_atD(4)[OF assms(1)]]
  have "set (inord t') = set (inord t) - {p}" unfolding assms(5) using qmap_atD(3)[OF assms(1)] by simp
  moreover have "x = p \<longleftrightarrow> item_key h x = k" if "x \<in> set (inord t)" using e[of k x] e[of k p] assms(2) that by auto
  ultimately show "((entries h (inord t))(k := None)) l = Some x \<longleftrightarrow> x \<in> set (inord t') \<and> item_key h' x = l"
    using e[of l x] assms(4) by auto
qed

lemma remove_ok:
  assumes "qmap_at m h t"
  shows "case entries h (inord t) k of
      None \<Rightarrow> cl_qmap_remove m k h = Inr (map_nil m, m, h)
    | Some p \<Rightarrow> \<exists>h' t'. cl_qmap_remove m k h = Inr (p, m\<lparr>map_count := map_count m - 1\<rparr>, h') \<and>
        qmap_at (m\<lparr>map_count := map_count m - 1\<rparr>) h' t' \<and> entries h' (inord t') = (entries h (inord t))(k := None)"
proof (cases "entries h (inord t) k")
  case None
  have "cl_qmap_remove_item m (map_nil m) h = Inr (m, h)" using qmap_atD(3)[OF assms] by (simp add: cl_qmap_remove_item_def asserting_def)
  then show ?thesis using None get_ok[OF assms, of k] by (simp add: cl_qmap_remove_def)
next
  case (Some p)
  then have p: "p \<in> set (inord t)" using entries_Some[OF qmap_atD(4)[OF assms]] by blast
  obtain h' t' where h': "cl_qmap_remove_item m p h = Inr (m\<lparr>map_count := map_count m - 1\<rparr>, h')" "qmap_at (m\<lparr>map_count := map_count m - 1\<rparr>) h' t'"
    "inord t' = remove1 p (inord t)" "item_key h' = item_key h" using remove_item_ok[OF assms p] by blast
  have "cl_qmap_remove m k h = Inr (p, m\<lparr>map_count := map_count m - 1\<rparr>, h')" using Some h'(1) get_ok[OF assms, of k] by (simp add: cl_qmap_remove_def)
  then show ?thesis using Some h'(2) remove_entries[OF assms Some h'(2,4,3)] by auto
qed

lemma entries_next:
  assumes "sorted_wrt (<) (map (item_key h) xs)"
  shows "(case find (\<lambda>x. k < item_key h x) xs of None \<Rightarrow> N | Some x \<Rightarrow> x) =
    (if \<exists>l\<in>dom (entries h xs). k < l then the (entries h xs (Min {l \<in> dom (entries h xs). k < l})) else N)"
proof -
  note e = entries_Some[OF assms]
  have dom: "dom (entries h xs) = item_key h ` set xs" using e by (auto simp: dom_def)
  show ?thesis
  proof (cases "find (\<lambda>x. k < item_key h x) xs")
    case None
    then have "\<not> (\<exists>l\<in>dom (entries h xs). k < l)" unfolding dom by (auto simp: find_None_iff)
    then show ?thesis using None by simp
  next
    case (Some x)
    note x = find_least[OF Some assms]
    have "Min {l \<in> dom (entries h xs). k < l} = item_key h x" by (rule Min_eqI) (use x in \<open>auto simp: dom\<close>)
    moreover have "entries h xs (item_key h x) = Some x" using e x(1) by simp
    ultimately show ?thesis using Some x(1,2) unfolding dom by auto
  qed
qed

text \<open>The counter does not wrap, as the items have different addresses.\<close>

lemma count_ok:
  assumes "qmap_at m h t" "set (inord t) \<subseteq> {..<2 ^ 64}"
  shows "unat (map_count m) = length (inord t)" "length (inord t) = card (dom (entries h (inord t)))"
proof -
  have d: "distinct (0 # inord t)" using qmap_atD(3)[OF assms(1)] by simp
  have "card (set (0 # inord t)) \<le> card {..<2 ^ 64 :: nat}" by (rule card_mono) (use assms(2) in auto)
  then have "length (inord t) < 2 ^ 64" using distinct_card[OF d] by simp
  moreover have "map_count m = of_nat (length (inord t))" using assms(1) by (simp add: qmap_at_def)
  ultimately show "unat (map_count m) = length (inord t)" by (simp add: unsigned_of_nat take_bit_nat_eq_self)
  have "dom (entries h (inord t)) = set (map (item_key h) (inord t))" using entries_Some[OF qmap_atD(4)[OF assms(1)]] by (auto simp: dom_def)
  moreover have "distinct (map (item_key h) (inord t))" using qmap_atD(4)[OF assms(1)] by (simp only: strict_sorted_iff)
  ultimately show "length (inord t) = card (dom (entries h (inord t)))" by (simp only: distinct_card length_map)
qed

lemma map_op_refines:
  assumes "stands_for (m, h) M" "map_op_allowed m a M" "map_op_spec (map_nil m) a M = (r, M')" "ran M \<subseteq> {..<2 ^ 64}"
  shows "\<exists>m' h'. map_op_exec a (m, h) = Inr (r, m', h') \<and> stands_for (m', h') M' \<and> map_root m' = map_root m \<and> map_nil m' = map_nil m"
proof -
  obtain t where t: "qmap_at m h t" "M = entries h (inord t)" using assms(1) by (auto simp: stands_for_def)
  note e = entries_Some[OF qmap_atD(4)[OF t(1)]] and ran = entries_ran[OF qmap_atD(4)[OF t(1)]]
  show ?thesis
  proof (cases a)
    case (Insert k p)
    then have p: "p \<notin> {map_root m, map_nil m, 0} \<union> set (inord t)" using assms(2) ran t(2) by simp
    obtain r' m' h' where i: "cl_qmap_insert m k p h = Inr (r', m', h')" "item_key h' = (item_key h)(p := k)"
      "if \<exists>x\<in>set (inord t). item_key h x = k then r' \<in> set (inord t) \<and> item_key h r' = k \<and> m' = m \<and> qmap_at m h' t
       else r' = p \<and> m' = m\<lparr>map_count := map_count m + 1\<rparr> \<and>
         (\<exists>t'. qmap_at m' h' t' \<and> inord t' = filter (\<lambda>x. item_key h x < k) (inord t) @ p # filter (\<lambda>x. k < item_key h x) (inord t))"
      using insert_ok[OF t(1) p, of k] by blast
    show ?thesis
    proof (cases "M k")
      case None
      then have "\<not> (\<exists>x\<in>set (inord t). item_key h x = k)" using t(2) by (auto simp: entries_None)
      then obtain t' where t': "r' = p" "m' = m\<lparr>map_count := map_count m + 1\<rparr>" "qmap_at m' h' t'"
        "inord t' = filter (\<lambda>x. item_key h x < k) (inord t) @ p # filter (\<lambda>x. k < item_key h x) (inord t)" using i(3) by (auto split: if_splits)
      have "stands_for (m', h') (M(k \<mapsto> p))"
        using stands_forI[OF t'(3) insert_entries[OF t(1) _ t'(3) i(2) _ t'(4), symmetric]] None p t(2) by simp
      then show ?thesis using i(1) t' Insert None assms(3) by auto
    next
      case (Some x)
      then have "x \<in> set (inord t)" "item_key h x = k" using e t(2) by auto
      then have r': "r' \<in> set (inord t)" "item_key h r' = k" "m' = m" "qmap_at m h' t" using i(3) by (auto split: if_splits)
      have "entries h' (inord t) = entries h (inord t)"
        by (rule entries_eqI[OF qmap_atD(4)[OF r'(4)]]) (use e p i(2) in auto)
      then show ?thesis using i(1) r' Some Insert assms(3) e[of k r'] t(2) stands_forI[OF r'(4)] by auto
    qed
  next
    case (Remove k)
    show ?thesis
    proof (cases "M k")
      case None
      then show ?thesis using Remove remove_ok[OF t(1), of k] assms(1,3) t(2) by simp
    next
      case (Some p)
      then obtain h' t' where "cl_qmap_remove m k h = Inr (p, m\<lparr>map_count := map_count m - 1\<rparr>, h')"
        "qmap_at (m\<lparr>map_count := map_count m - 1\<rparr>) h' t'" "entries h' (inord t') = M(k := None)" using remove_ok[OF t(1), of k] t(2) by auto
      then show ?thesis using Remove Some assms(3) by (auto intro!: stands_forI)
    qed
  next
    case (Get k)
    then show ?thesis using get_ok[OF t(1), of k] assms(1,3) t by (cases "M k") auto
  next
    case (Get_Next k)
    have "cl_qmap_get_next m k h = Some r \<and> M' = M" using assms(3)
      unfolding Get_Next get_next_ok[OF t(1)] entries_next[OF qmap_atD(4)[OF t(1)]] t(2)[symmetric] map_op_spec.simps prod.inject option.inject by blast
    then show ?thesis using assms(1) Get_Next by simp
  next
    case Count
    have "unat (cl_qmap_count m) = card (dom M) mod 2 ^ 32"
      using count_ok[OF t(1)] assms(4) ran t(2) by (simp add: cl_qmap_count_def unsigned_ucast_eq take_bit_eq_mod)
    then show ?thesis using Count assms(1,3) by auto
  qed
qed

lemma map_op_spec_ran:
  assumes "map_op_allowed m a M" "map_op_spec N a M = (r, M')" "ran M \<subseteq> {..<2 ^ 64}"
  shows "ran M' \<subseteq> {..<2 ^ 64}"
  using assms by (cases a) (force simp: ran_def split: option.splits if_splits)+

lemma map_run_refines:
  assumes "stands_for (m, h) M" "map_run_allowed m as M" "ran M \<subseteq> {..<2 ^ 64}"
  shows "\<exists>m' h' M'. map_run_exec as (m, h) = Inr (map_run_spec (map_nil m) as M, m', h') \<and> stands_for (m', h') M' \<and> ran M' \<subseteq> {..<2 ^ 64}"
  using assms
proof (induction as arbitrary: m h M)
  case (Cons a as)
  obtain r M' where s: "map_op_spec (map_nil m) a M = (r, M')" by fastforce
  have ok: "map_op_allowed m a M" "map_run_allowed m as M'" using Cons.prems(2) s by simp_all
  obtain m' h' where e: "map_op_exec a (m, h) = Inr (r, m', h')" "stands_for (m', h') M'" "map_root m' = map_root m" "map_nil m' = map_nil m"
    using map_op_refines[OF Cons.prems(1) ok(1) s Cons.prems(3)] by blast
  have "map_run_allowed m' as M'"
  proof -
    have "map_op_allowed m' b M = map_op_allowed m b M" for b M using e(3,4) by (cases b) simp_all
    then have "map_run_allowed m' bs M = map_run_allowed m bs M" for bs M using e(4) by (induction bs arbitrary: M) simp_all
    then show ?thesis using ok(2) by simp
  qed
  from Cons.IH[OF e(2) this map_op_spec_ran[OF ok(1) s Cons.prems(3)]] show ?case using e(1,4) s by auto
qed auto

lemma map_run_allowed_count: "map_run_allowed (m\<lparr>map_count := c\<rparr>) as M = map_run_allowed m as M"
proof (induction as arbitrary: M)
  case (Cons a as)
  then show ?case by (cases a) simp_all
qed simp

lemma map_run_ok:
  assumes "map_root m \<noteq> map_nil m" "map_root m \<noteq> 0" "map_nil m \<noteq> 0" "map_run_allowed m as Map.empty"
  shows "\<exists>m' h' M'. map_run_exec as (cl_qmap_init m h) = Inr (map_run_spec (map_nil m) as Map.empty, m', h') \<and>
    stands_for (m', h') M' \<and> ran M' \<subseteq> {..<2 ^ 64}"
proof -
  obtain h0 where h0: "cl_qmap_init m h = (m\<lparr>map_count := 0\<rparr>, h0)" "qmap_at (m\<lparr>map_count := 0\<rparr>) h0 Tip" using init_ok[OF assms(1-3)] by blast
  have "stands_for (m\<lparr>map_count := 0\<rparr>, h0) Map.empty" by (rule stands_forI[OF h0(2)]) (simp add: entries_def fun_eq_iff)
  from map_run_refines[OF this] show ?thesis using assms(4) unfolding h0(1) map_run_allowed_count by auto
qed

text \<open>
  Property C24: any run of insertions, removals, searches, searches for the next key and counts on a
  newly initialised map, whatever the heap held before, returns without a fault and gives the answers of a finite map from
  keys to items: an insertion gives the item already there when the key is taken, and a missing
  item is the end of the map. The count is cut to 32 bits. The caller inserts only items that are not in the map.
\<close>
theorem qmap_refines_map:
  assumes "map_root m \<noteq> map_nil m" "map_root m \<noteq> 0" "map_nil m \<noteq> 0" "map_run_allowed m as Map.empty"
  shows "\<exists>s. map_run_exec as (cl_qmap_init m h) = Inr (map_run_spec (map_nil m) as Map.empty, s)"
  using map_run_ok[OF assms] by blast

definition sample_map :: cl_qmap where
  "sample_map = \<lparr>map_root = 1, map_nil = 2, map_count = 9\<rparr>"

text \<open>The heap before anything is stored in it.\<close>

definition blank :: cl_map_items where
  "blank = \<lparr>thread = \<lparr>nxt = \<lambda>_. 0, prv = \<lambda>_. 0\<rparr>, child = \<lambda>_ _. 0, p_up = \<lambda>_. 0, color = \<lambda>_. CL_MAP_RED, item_key = \<lambda>_. 0\<rparr>"

theorem qmap_refines_map_witness:
  "\<exists>s. map_run_exec [Insert 7 10, Insert 3 11, Insert 7 12, Get 3, Remove 7, Get 7, Count] (cl_qmap_init sample_map blank) =
    Inr ([10, 11, 10, 11, 10, 2, 1], s)"
  using qmap_refines_map[of sample_map "[Insert 7 10, Insert 3 11, Insert 7 12, Get 3, Remove 7, Get 7, Count]" blank]
  by (simp add: sample_map_def)

section \<open>Balance\<close>

text \<open>The branches of the tree: a walk passes only items of the map.\<close>

fun walk :: "cl_map_items \<Rightarrow> nat \<Rightarrow> side list \<Rightarrow> nat \<Rightarrow> bool" where
  "walk h N [] p \<longleftrightarrow> p \<noteq> N"
| "walk h N (s # ss) p \<longleftrightarrow> p \<noteq> N \<and> walk h N ss (child h s p)"

lemma walk_height: "tree_at h N q t \<Longrightarrow> N \<notin> set (inord t) \<Longrightarrow> walk h N ss (ptr N t) \<Longrightarrow> length ss < height t"
proof (induction t arbitrary: q ss)
  case Tip
  then show ?case by (cases ss) simp_all
next
  case (Br c l a r)
  show ?case
  proof (cases ss)
    case (Cons s ss')
    then show ?thesis using Br.prems Br.IH(1)[of a ss'] Br.IH(2)[of a ss'] by (cases s) auto
  qed simp
qed

text \<open>
  Property C25: after any such run every branch of the tree is at most twice as long as the binary logarithm of
  the number of items plus one, so that the searches, the insertions and the removals, which
  follow one branch, take a logarithmic number of rounds.
\<close>
theorem qmap_balanced:
  assumes "map_root m \<noteq> map_nil m" "map_root m \<noteq> 0" "map_nil m \<noteq> 0" "map_run_allowed m as Map.empty"
    and "map_run_exec as (cl_qmap_init m h) = Inr (rs, m', h')" "walk h' (map_nil m') ss (p_left h' (map_root m'))"
  shows "2 ^ (length ss + 1) \<le> (unat (map_count m') + 1) ^ 2"
proof -
  obtain M' where M: "stands_for (m', h') M'" "ran M' \<subseteq> {..<2 ^ 64}" using map_run_ok[OF assms(1-4), of h] assms(5) by auto
  then obtain t where t: "qmap_at m' h' t" "M' = entries h' (inord t)" by (auto simp: stands_for_def)
  have c: "unat (map_count m') = length (inord t)" using count_ok(1)[OF t(1)] M(2) entries_ran[OF qmap_atD(4)[OF t(1)]] t(2) by simp
  obtain n where "rb n t" "rcol t = CL_MAP_BLACK" using t(1) by (auto simp: qmap_at_def)
  then have "2 ^ height t \<le> (unat (map_count m') + 1) ^ 2" unfolding c by (rule rb_balanced)
  moreover have "length ss + 1 \<le> height t" using walk_height[OF qmap_atD(1)[OF t(1)] qmap_atD(6)[OF t(1)]] assms(6) qmap_atD(2)[OF t(1)] by (simp add: Suc_le_eq)
  then have "(2 :: nat) ^ (length ss + 1) \<le> 2 ^ height t" by (intro power_increasing) simp_all
  ultimately show ?thesis by linarith
qed

text \<open>A map with two items, one below the other.\<close>

definition sample_run :: "nat list \<times> cl_qmap \<times> cl_map_items" where
  "sample_run = projr (map_run_exec [Insert 1 10, Insert 2 11] (cl_qmap_init sample_map blank))"

theorem qmap_balanced_witness: "2 ^ (length [Rgt] + 1) \<le> (unat (map_count (fst (snd sample_run))) + 1) ^ 2"
proof (rule qmap_balanced[of sample_map "[Insert 1 10, Insert 2 11]" blank "fst sample_run" _ "snd (snd sample_run)"])
  show "map_run_exec [Insert 1 10, Insert 2 11] (cl_qmap_init sample_map blank) =
    Inr (fst sample_run, fst (snd sample_run), snd (snd sample_run))"
  proof -
    have "isl (map_run_exec [Insert 1 10, Insert 2 11] (cl_qmap_init sample_map blank)) = False" by code_simp
    then show ?thesis unfolding sample_run_def by (simp add: sum.collapse(2))
  qed
  show "walk (snd (snd sample_run)) (map_nil (fst (snd sample_run))) [Rgt] (p_left (snd (snd sample_run)) (map_root (fst (snd sample_run))))"
    by code_simp
qed (simp_all add: sample_map_def)

end
