(* ===== verification/Qmap_Merge.thy ===== *)
theory Qmap_Merge
  imports Qmap_Maps
begin

text \<open>
  Several quick maps on one heap: walking a map in key order, moving an item from one map to
  another, \<open>cl_qmap_merge\<close> and \<open>cl_qmap_delta\<close>. \<open>held h L\<close> says that every map of
  the list \<open>L\<close> is on the heap with the given items and that no two of them share an item or a
  sentinel; moving an item changes two members of \<open>L\<close> and frames the rest.
\<close>

section \<open>Maps side by side\<close>

definition keeps :: "cl_map_items \<Rightarrow> cl_qmap \<Rightarrow> nat list \<Rightarrow> bool" where
  "keeps h m xs \<longleftrightarrow> (\<exists>t. qmap_at m h t \<and> inord t = xs)"

definition cells :: "cl_qmap \<times> nat list \<Rightarrow> nat list" where
  "cells = (\<lambda>(m, xs). map_root m # map_nil m # xs)"

lemma cells_simp [simp]: "cells (m, xs) = map_root m # map_nil m # xs"
  by (simp add: cells_def)

definition held :: "cl_map_items \<Rightarrow> (cl_qmap \<times> nat list) list \<Rightarrow> bool" where
  "held h L \<longleftrightarrow> (\<forall>(m, xs)\<in>set L. keeps h m xs) \<and> distinct (concat (map cells L))"

text \<open>The same map, up to its count.\<close>

definition same_ends :: "cl_qmap \<Rightarrow> cl_qmap \<Rightarrow> bool" where
  "same_ends m m' \<longleftrightarrow> map_root m' = map_root m \<and> map_nil m' = map_nil m"

lemma keepsD:
  assumes "keeps h m xs"
  shows "distinct (map_root m # map_nil m # 0 # xs)" "sorted_wrt (<) (map (item_key h) xs)" "holds (thread h) (map_nil m) xs"
  using assms qmap_atD unfolding keeps_def by blast+

lemma held_Nil [simp]: "held h []"
  by (simp add: held_def)

lemma held_Cons: "held h ((m, xs) # L) \<longleftrightarrow>
  keeps h m xs \<and> held h L \<and> set (cells (m, xs)) \<inter> set (concat (map cells L)) = {}"
  by (auto simp: held_def dest: keepsD(1))

lemma held_turn: "held h [a, b, c, e] \<longleftrightarrow> held h [c, e, a, b]"
  unfolding held_def by auto

lemma keeps_frame:
  assumes "elsewhere A h h'" "keeps h m xs" "set (cells (m, xs)) \<inter> A = {}"
  shows "keeps h' m xs"
  using assms qmap_frame[OF assms(1)] unfolding keeps_def by fastforce

lemma held_frame:
  assumes "elsewhere A h h'" "held h L" "set (concat (map cells L)) \<inter> A = {}"
  shows "held h' L"
  using assms(2,3)
proof (induction L)
  case (Cons e L)
  obtain m xs where e: "e = (m, xs)" by fastforce
  show ?case using Cons keeps_frame[OF assms(1), of m xs] unfolding e held_Cons by (auto simp: Int_Un_distrib2)
qed simp

section \<open>Walking a map\<close>

lemma keeps_head: "keeps h m xs \<Longrightarrow> cl_qmap_head m h = after (map_nil m) xs"
  using holds_head[OF keepsD(3)] by (simp add: cl_qmap_head_def)

lemma keeps_next: "keeps h m (xs @ p # ys) \<Longrightarrow> cl_qmap_next p h = after (map_nil m) ys"
  using holds_at[OF keepsD(3)] by (simp add: cl_qmap_next_def)

lemma after_end: "keeps h m (xs @ ys) \<Longrightarrow> after (map_nil m) ys = map_nil m \<longleftrightarrow> ys = []"
  using keepsD(1)[of h m "xs @ ys"] by (cases ys) (auto simp: after_def)

text \<open>A callback that leaves the map alone is called on the items in the order of their keys.\<close>

lemma apply_loop_ok:
  "keeps h m (xs @ ys) \<Longrightarrow> apply_loop m (\<lambda>x (h, c). (h, f x h c)) (after (map_nil m) ys) (h, c) = Some (h, fold (\<lambda>x. f x h) ys c)"
proof (induction ys arbitrary: xs c)
  case Nil
  show ?case by (subst apply_loop.simps) (simp add: after_def)
next
  case (Cons y ys)
  have "apply_loop m (\<lambda>x (h, c). (h, f x h c)) (after (map_nil m) ys) (h, f y h c) = Some (h, fold (\<lambda>x. f x h) ys (f y h c))"
    by (rule Cons.IH[of "xs @ [y]"]) (use Cons.prems in simp)
  moreover have "y \<noteq> map_nil m" using keepsD(1)[OF Cons.prems] by auto
  ultimately show ?case using keeps_next[OF Cons.prems] by (subst apply_loop.simps) (simp add: after_def)
qed

lemma apply_ok: "keeps h m xs \<Longrightarrow> cl_qmap_apply_func m (\<lambda>x (h, c). (h, f x h c)) (h, c) = Some (h, fold (\<lambda>x. f x h) xs c)"
  using apply_loop_ok[of h m "[]" xs f c] keeps_head[of h m xs] by (simp add: cl_qmap_apply_func_def)

section \<open>Inserting and removing\<close>

abbreviation placed :: "cl_map_items \<Rightarrow> nat \<Rightarrow> nat list \<Rightarrow> nat list" where
  "placed h p xs \<equiv> filter (\<lambda>x. item_key h x < item_key h p) xs @ p # filter (\<lambda>x. item_key h p < item_key h x) xs"

lemma keeps_remove:
  assumes "keeps h m xs" "p \<in> set xs"
  shows "\<exists>m' h'. cl_qmap_remove_item m p h = Inr (m', h') \<and> same_ends m m' \<and> keeps h' m' (remove1 p xs) \<and>
    item_key h' = item_key h \<and> elsewhere (set (cells (m, xs))) h h'"
proof -
  obtain t where t: "qmap_at m h t" "inord t = xs" using assms(1) by (auto simp: keeps_def)
  obtain h' t' where "cl_qmap_remove_item m p h = Inr (m\<lparr>map_count := map_count m - 1\<rparr>, h')" "qmap_at (m\<lparr>map_count := map_count m - 1\<rparr>) h' t'"
    "inord t' = remove1 p xs" "item_key h' = item_key h" "elsewhere ({map_root m, map_nil m} \<union> set xs) h h'"
    using remove_item_ok[OF t(1)] assms(2) unfolding t(2) by blast
  then show ?thesis by (auto simp: keeps_def same_ends_def)
qed

lemma keeps_insert:
  assumes "keeps h m xs" "p \<notin> {map_root m, map_nil m, 0} \<union> set xs"
  shows "\<exists>r m' h'. cl_qmap_insert m (item_key h p) p h = Inr (r, m', h') \<and> same_ends m m' \<and> item_key h' = item_key h \<and>
    elsewhere (set (p # cells (m, xs))) h h' \<and>
    (if item_key h p \<in> item_key h ` set xs then r \<noteq> p \<and> m' = m \<and> keeps h' m xs else r = p \<and> keeps h' m' (placed h p xs))"
proof -
  obtain t where t: "qmap_at m h t" "inord t = xs" using assms(1) by (auto simp: keeps_def)
  obtain r m' h' where i: "cl_qmap_insert m (item_key h p) p h = Inr (r, m', h')" "elsewhere ({p, map_root m, map_nil m} \<union> set xs) h h'"
    "item_key h' = (item_key h)(p := item_key h p)"
    "if \<exists>x\<in>set xs. item_key h x = item_key h p then r \<in> set xs \<and> item_key h r = item_key h p \<and> m' = m \<and> qmap_at m h' t
       else r = p \<and> m' = m\<lparr>map_count := map_count m + 1\<rparr> \<and> (\<exists>t'. qmap_at m' h' t' \<and> inord t' = placed h p xs)"
    using insert_ok[OF t(1), of p "item_key h p"] assms(2) unfolding t(2) by blast
  have "elsewhere (set (p # cells (m, xs))) h h'" using i(2) by (rule elsewhere_mono) auto
  moreover have "item_key h' = item_key h" using i(3) by simp
  moreover have "same_ends m m' \<and> (if item_key h p \<in> item_key h ` set xs then r \<noteq> p \<and> m' = m \<and> keeps h' m xs
    else r = p \<and> keeps h' m' (placed h p xs))"
  proof (cases "\<exists>x\<in>set xs. item_key h x = item_key h p")
    case True
    then have "r \<in> set xs" "m' = m" "qmap_at m h' t" using i(4) by simp_all
    moreover have "item_key h p \<in> item_key h ` set xs" using True by (metis image_eqI)
    ultimately show ?thesis using assms(2) t(2) by (auto simp: keeps_def same_ends_def)
  next
    case False
    then obtain t' where "r = p" "m' = m\<lparr>map_count := map_count m + 1\<rparr>" "qmap_at m' h' t'" "inord t' = placed h p xs" using i(4) by auto
    moreover have "item_key h p \<notin> item_key h ` set xs" using False by force
    ultimately show ?thesis unfolding keeps_def same_ends_def by auto
  qed
  ultimately show ?thesis using i(1) by blast
qed

lemma placed_back:
  assumes "sorted_wrt (<) (map (item_key h) (xs @ p # ys))"
  shows "placed h p (xs @ ys) = xs @ p # ys"
  using assms sorted_filter_split[of xs "item_key h" "item_key h p" ys] by (auto simp: sorted_wrt_append)

lemma set_placed: "item_key h p \<notin> item_key h ` set xs \<Longrightarrow> set (placed h p xs) = insert p (set xs)"
  by (auto simp: image_iff neq_iff)

lemma same_ends_trans: "same_ends a b \<Longrightarrow> same_ends b c \<Longrightarrow> same_ends a c"
  by (simp add: same_ends_def)

section \<open>Moving an item\<close>

lemma held_remove:
  assumes "held h ((m, xs) # L)" "p \<in> set xs"
  shows "\<exists>m' h'. cl_qmap_remove_item m p h = Inr (m', h') \<and> same_ends m m' \<and> item_key h' = item_key h \<and>
    held h' ((m', remove1 p xs) # L)"
proof -
  have k: "keeps h m xs" and L: "held h L" "set (cells (m, xs)) \<inter> set (concat (map cells L)) = {}" using assms(1) unfolding held_Cons by auto
  obtain m' h' where r: "cl_qmap_remove_item m p h = Inr (m', h')" "same_ends m m'" "keeps h' m' (remove1 p xs)"
    "item_key h' = item_key h" "elsewhere (set (cells (m, xs))) h h'" using keeps_remove[OF k assms(2)] by blast
  have "held h' L" by (rule held_frame[OF r(5) L(1)]) (use L(2) in blast)
  moreover have "set (cells (m', remove1 p xs)) \<subseteq> set (cells (m, xs))" using r(2) set_remove1_subset[of p xs] by (auto simp: same_ends_def)
  ultimately have "held h' ((m', remove1 p xs) # L)" unfolding held_Cons using r(3) L(2) by blast
  then show ?thesis using r(1,2,4) by blast
qed

lemma held_insert:
  assumes "held h ((m, xs) # L)" "p \<noteq> 0" "p \<notin> set (cells (m, xs) @ concat (map cells L))"
  shows "\<exists>r m' h'. cl_qmap_insert m (item_key h p) p h = Inr (r, m', h') \<and> same_ends m m' \<and> item_key h' = item_key h \<and>
    (if item_key h p \<in> item_key h ` set xs then r \<noteq> p \<and> held h' ((m', xs) # L) else r = p \<and> held h' ((m', placed h p xs) # L))"
proof -
  have k: "keeps h m xs" and L: "held h L" "set (cells (m, xs)) \<inter> set (concat (map cells L)) = {}" using assms(1) unfolding held_Cons by auto
  obtain r m' h' where r: "cl_qmap_insert m (item_key h p) p h = Inr (r, m', h')" "same_ends m m'" "item_key h' = item_key h"
    "elsewhere (set (p # cells (m, xs))) h h'"
    "if item_key h p \<in> item_key h ` set xs then r \<noteq> p \<and> m' = m \<and> keeps h' m xs else r = p \<and> keeps h' m' (placed h p xs)"
    using keeps_insert[OF k, of p] assms(2,3) by auto
  have L': "held h' L" by (rule held_frame[OF r(4) L(1)]) (use L(2) assms(3) in auto)
  have "set (cells (m', placed h p xs)) \<subseteq> set (p # cells (m, xs))" using r(2) by (auto simp: same_ends_def)
  then have "set (cells (m', placed h p xs)) \<inter> set (concat (map cells L)) = {}" using L(2) assms(3) by auto
  then have "if item_key h p \<in> item_key h ` set xs then r \<noteq> p \<and> held h' ((m', xs) # L) else r = p \<and> held h' ((m', placed h p xs) # L)"
    using r(5) L' L(2) unfolding held_Cons by (auto split: if_splits)
  then show ?thesis using r(1,2,3) by blast
qed

lemma held_swap: "held h (a # b # L) \<longleftrightarrow> held h (b # a # L)"
  unfolding held_def by auto

lemma held_member:
  assumes "held h ((d, ys) # (s, xs @ p # zs) # L)"
  shows "p \<noteq> 0" "p \<in> set (xs @ p # zs)" "remove1 p (xs @ p # zs) = xs @ zs" "p \<notin> set (cells (d, ys))"
    "p \<notin> set (cells (s, xs @ zs))" "p \<notin> set (concat (map cells L))"
    "placed h p (xs @ zs) = xs @ p # zs" "item_key h p \<notin> item_key h ` set (xs @ zs)"
proof -
  have k: "keeps h s (xs @ p # zs)" and a: "set (cells (d, ys)) \<inter> set (cells (s, xs @ p # zs)) = {}"
    "set (cells (s, xs @ p # zs)) \<inter> set (concat (map cells L)) = {}" using assms unfolding held_Cons by auto
  show "placed h p (xs @ zs) = xs @ p # zs" by (rule placed_back[OF keepsD(2)[OF k]])
  show "item_key h p \<notin> item_key h ` set (xs @ zs)" using keepsD(2)[OF k] by (fastforce simp: sorted_wrt_append)
  show "p \<noteq> 0" "p \<in> set (xs @ p # zs)" "remove1 p (xs @ p # zs) = xs @ zs" "p \<notin> set (cells (d, ys))"
    "p \<notin> set (cells (s, xs @ zs))" "p \<notin> set (concat (map cells L))"
    using keepsD(1)[OF k] a by (auto simp: remove1_append)
qed

text \<open>Taking an item out of one map and offering it to another.\<close>

lemma held_move:
  assumes "held h ((d, ys) # (s, xs @ p # zs) # L)"
  shows "\<exists>r d' s' h1 h'. cl_qmap_remove_item s p h = Inr (s', h1) \<and> item_key h1 = item_key h \<and>
    cl_qmap_insert d (item_key h p) p h1 = Inr (r, d', h') \<and> same_ends d d' \<and> same_ends s s' \<and> item_key h' = item_key h \<and>
    (if item_key h p \<in> item_key h ` set ys then r \<noteq> p \<and> held h' ((d', ys) # (s', xs @ zs) # L)
     else r = p \<and> held h' ((d', placed h p ys) # (s', xs @ zs) # L))"
proof -
  note p = held_member[OF assms]
  obtain s' h1 where s': "cl_qmap_remove_item s p h = Inr (s', h1)" "same_ends s s'" "item_key h1 = item_key h" "held h1 ((s', xs @ zs) # (d, ys) # L)"
    using held_remove[OF assms[unfolded held_swap[of h "(d, ys)"]] p(2)] unfolding p(3) by blast
  have "p \<notin> set (cells (d, ys) @ concat (map cells ((s', xs @ zs) # L)))" using p(4-6) s'(2) by (auto simp: same_ends_def)
  from held_insert[OF s'(4)[unfolded held_swap[of h1 "(s', xs @ zs)"]] p(1) this, unfolded s'(3)] show ?thesis
    using s'(1-3) by blast
qed

section \<open>Merging\<close>

lemma merge_one_ok:
  assumes "held h ((d, ys) # (s, xs @ p # zs) # L)"
  shows "\<exists>d' s' h'. merge_one d s p h = Inr (d', s', h') \<and> same_ends d d' \<and> same_ends s s' \<and> item_key h' = item_key h \<and>
    (if item_key h p \<in> item_key h ` set ys then held h' ((d', ys) # (s', xs @ p # zs) # L)
     else held h' ((d', placed h p ys) # (s', xs @ zs) # L))"
proof -
  note p = held_member[OF assms]
  obtain r d' s' h1 h' where m: "cl_qmap_remove_item s p h = Inr (s', h1)" "item_key h1 = item_key h"
    "cl_qmap_insert d (item_key h p) p h1 = Inr (r, d', h')" "same_ends d d'" "same_ends s s'" "item_key h' = item_key h"
    "if item_key h p \<in> item_key h ` set ys then r \<noteq> p \<and> held h' ((d', ys) # (s', xs @ zs) # L)
     else r = p \<and> held h' ((d', placed h p ys) # (s', xs @ zs) # L)" using held_move[OF assms] by blast
  show ?thesis
  proof (cases "item_key h p \<in> item_key h ` set ys")
    case True
    then have r: "r \<noteq> p" "held h' ((s', xs @ zs) # (d', ys) # L)" using m(7) by (simp_all add: held_swap[of h' "(s', xs @ zs)"])
    have "p \<notin> set (cells (s', xs @ zs) @ concat (map cells ((d', ys) # L)))" using p(4-6) m(4,5) by (auto simp: same_ends_def)
    from held_insert[OF r(2) p(1) this] obtain s'' h'' where i: "cl_qmap_insert s' (item_key h p) p h' = Inr (p, s'', h'')" "same_ends s' s''"
      "item_key h'' = item_key h" "held h'' ((s'', placed h p (xs @ zs)) # (d', ys) # L)" using p(8) unfolding m(6) by auto
    have "merge_one d s p h = Inr (d', s'', h'')" using m(1-3,6) i(1) r(1) by (simp add: merge_one_def asserting_def)
    moreover have "held h'' ((d', ys) # (s'', xs @ p # zs) # L)" using i(4) unfolding p(7) by (simp add: held_swap[of h'' "(d', ys)"])
    ultimately show ?thesis using True m(4,5) i(2,3) by (auto simp: same_ends_def)
  next
    case False
    then have "merge_one d s p h = Inr (d', s', h')" using m(1-3,7) by (simp add: merge_one_def)
    then show ?thesis using False m(4-7) by auto
  qed
qed

lemma merge_loop_ok:
  assumes "held h ((d, ys) # (s, xs @ zs) # L)"
  shows "\<exists>d' s' h' ys' xs'. merge_loop d s (after (map_nil s) zs) h = Some (Inr (d', s', h')) \<and> same_ends d d' \<and> same_ends s s' \<and>
    item_key h' = item_key h \<and> held h' ((d', ys') # (s', xs') # L) \<and>
    set ys' = set ys \<union> {z \<in> set zs. item_key h z \<notin> item_key h ` set ys} \<and>
    set xs' = set xs \<union> {z \<in> set zs. item_key h z \<in> item_key h ` set ys}"
  using assms
proof (induction zs arbitrary: d s h xs ys)
  case Nil
  have "merge_loop d s (after (map_nil s) []) h = Some (Inr (d, s, h))" by (subst merge_loop.simps) (simp add: after_def)
  then show ?case using Nil by (auto simp: same_ends_def)
next
  case (Cons p zs)
  have k: "keeps h s (xs @ p # zs)" using Cons.prems by (simp add: held_Cons)
  have pn: "p \<noteq> map_nil s" and nx: "cl_qmap_next p h = after (map_nil s) zs" using keepsD(1)[OF k] keeps_next[OF k] by auto
  have kz: "item_key h z \<noteq> item_key h p" if "z \<in> set zs" for z using keepsD(2)[OF k] that by (auto simp: sorted_wrt_append)
  obtain d1 s1 h1 where o: "merge_one d s p h = Inr (d1, s1, h1)" "same_ends d d1" "same_ends s s1" "item_key h1 = item_key h"
    "if item_key h p \<in> item_key h ` set ys then held h1 ((d1, ys) # (s1, xs @ p # zs) # L) else held h1 ((d1, placed h p ys) # (s1, xs @ zs) # L)"
    using merge_one_ok[OF Cons.prems] by blast
  have st: "merge_loop d s (after (map_nil s) (p # zs)) h = merge_loop d1 s1 (after (map_nil s1) zs) h1"
    using o(1,3) pn nx by (subst merge_loop.simps) (simp add: after_def same_ends_def)
  note tr = same_ends_trans
  show ?case
  proof (cases "item_key h p \<in> item_key h ` set ys")
    case True
    then have "held h1 ((d1, ys) # (s1, (xs @ [p]) @ zs) # L)" using o(5) by simp
    from Cons.IH[OF this, unfolded o(4)] obtain d' s' h' ys' xs' where i: "merge_loop d1 s1 (after (map_nil s1) zs) h1 = Some (Inr (d', s', h'))"
      "same_ends d1 d'" "same_ends s1 s'" "item_key h' = item_key h" "held h' ((d', ys') # (s', xs') # L)"
      "set ys' = set ys \<union> {z \<in> set zs. item_key h z \<notin> item_key h ` set ys}"
      "set xs' = set (xs @ [p]) \<union> {z \<in> set zs. item_key h z \<in> item_key h ` set ys}" by blast
    have "set ys' = set ys \<union> {z \<in> set (p # zs). item_key h z \<notin> item_key h ` set ys}"
      "set xs' = set xs \<union> {z \<in> set (p # zs). item_key h z \<in> item_key h ` set ys}" using i(6,7) True by auto
    then show ?thesis unfolding st using i(1,4,5) tr[OF o(2) i(2)] tr[OF o(3) i(3)] by blast
  next
    case False
    then have "held h1 ((d1, placed h p ys) # (s1, xs @ zs) # L)" using o(5) by simp
    from Cons.IH[OF this, unfolded o(4)] obtain d' s' h' ys' xs' where i: "merge_loop d1 s1 (after (map_nil s1) zs) h1 = Some (Inr (d', s', h'))"
      "same_ends d1 d'" "same_ends s1 s'" "item_key h' = item_key h" "held h' ((d', ys') # (s', xs') # L)"
      "set ys' = set (placed h p ys) \<union> {z \<in> set zs. item_key h z \<notin> item_key h ` set (placed h p ys)}"
      "set xs' = set xs \<union> {z \<in> set zs. item_key h z \<in> item_key h ` set (placed h p ys)}" by blast
    have "set (placed h p ys) = insert p (set ys)" by (rule set_placed[OF False])
    then have "set ys' = set ys \<union> {z \<in> set (p # zs). item_key h z \<notin> item_key h ` set ys}"
      "set xs' = set xs \<union> {z \<in> set (p # zs). item_key h z \<in> item_key h ` set ys}" using i(6,7) False kz by auto
    then show ?thesis unfolding st using i(1,4,5) tr[OF o(2) i(2)] tr[OF o(3) i(3)] by blast
  qed
qed

section \<open>Differences\<close>

lemma delta_move_ok:
  assumes "held h ((d, ys) # (s, xs @ p # zs) # L)" "item_key h p \<notin> item_key h ` set ys"
  shows "\<exists>d' s' h'. cl_qmap_delta_move d s p h = Inr (after (map_nil s') zs, d', s', h') \<and> same_ends d d' \<and> same_ends s s' \<and>
    item_key h' = item_key h \<and> held h' ((d', placed h p ys) # (s', xs @ zs) # L)"
proof -
  have k: "keeps h s (xs @ p # zs)" using assms(1) by (simp add: held_Cons)
  obtain d' s' h1 h' where m: "cl_qmap_remove_item s p h = Inr (s', h1)" "item_key h1 = item_key h"
    "cl_qmap_insert d (item_key h p) p h1 = Inr (p, d', h')" "same_ends d d'" "same_ends s s'" "item_key h' = item_key h"
    "held h' ((d', placed h p ys) # (s', xs @ zs) # L)" using held_move[OF assms(1)] assms(2) by auto
  then have "cl_qmap_delta_move d s p h = Inr (after (map_nil s') zs, d', s', h')"
    using keeps_next[OF k] by (simp add: cl_qmap_delta_move_def Let_def asserting_def same_ends_def)
  then show ?thesis using m(4-7) by blast
qed

lemma drain_loop_ok:
  assumes "held h ((d, ys) # (s, xs @ zs) # L)" "item_key h ` set ys \<inter> item_key h ` set zs = {}"
  shows "\<exists>d' s' h' ys'. drain_loop d s (after (map_nil s) zs) h = Some (Inr (d', s', h')) \<and> same_ends d d' \<and> same_ends s s' \<and>
    item_key h' = item_key h \<and> held h' ((d', ys') # (s', xs) # L) \<and> set ys' = set ys \<union> set zs"
  using assms
proof (induction zs arbitrary: d s h ys)
  case Nil
  have "drain_loop d s (after (map_nil s) []) h = Some (Inr (d, s, h))" by (subst drain_loop.simps) (simp add: after_def)
  then show ?case using Nil by (auto simp: same_ends_def)
next
  case (Cons p zs)
  have k: "keeps h s (xs @ p # zs)" using Cons.prems by (simp add: held_Cons)
  have new: "item_key h p \<notin> item_key h ` set ys" using Cons.prems(2) by auto
  obtain d1 s1 h1 where o: "cl_qmap_delta_move d s p h = Inr (after (map_nil s1) zs, d1, s1, h1)" "same_ends d d1" "same_ends s s1"
    "item_key h1 = item_key h" "held h1 ((d1, placed h p ys) # (s1, xs @ zs) # L)" using delta_move_ok[OF Cons.prems(1) new] by blast
  have "item_key h p \<notin> item_key h ` set zs" using keepsD(2)[OF k] by (auto simp: sorted_wrt_append)
  then have "item_key h1 ` set (placed h p ys) \<inter> item_key h1 ` set zs = {}"
    using Cons.prems(2) unfolding set_placed[OF new] o(4) by auto
  from Cons.IH[OF o(5) this, unfolded o(4) set_placed[OF new]] obtain d' s' h' ys' where
    i: "drain_loop d1 s1 (after (map_nil s1) zs) h1 = Some (Inr (d', s', h'))" "same_ends d1 d'" "same_ends s1 s'" "item_key h' = item_key h"
    "held h' ((d', ys') # (s', xs) # L)" "set ys' = insert p (set ys) \<union> set zs" by blast
  have "drain_loop d s (after (map_nil s) (p # zs)) h = Some (Inr (d', s', h'))"
    using o(1) i(1) keepsD(1)[OF k] by (subst drain_loop.simps) (simp add: after_def)
  moreover have "set ys' = set ys \<union> set (p # zs)" using i(6) by auto
  ultimately show ?case using i(4,5) same_ends_trans[OF o(2) i(2)] same_ends_trans[OF o(3) i(3)] by blast
qed

text \<open>
  How far one of the two maps has been sorted out: \<open>k\<close> is kept, \<open>z\<close> is still to be walked and \<open>c\<close>
  is collected, against the items \<open>w\<close> to be walked of the other map.
\<close>

definition sorted_out ::
  "(nat \<Rightarrow> u64) \<Rightarrow> nat list \<Rightarrow> nat list \<Rightarrow> nat list \<Rightarrow> nat list \<Rightarrow> nat list \<Rightarrow> nat list \<Rightarrow> nat list \<Rightarrow> bool" where
  "sorted_out key w k z c k' z' c' \<longleftrightarrow> set k' = set k \<union> {x \<in> set z. key x \<in> key ` set w} \<and>
     set c' \<union> set z' = set c \<union> {x \<in> set z. key x \<notin> key ` set w} \<and> key ` set c' \<inter> key ` set z' = {}"

text \<open>Items that meet no partner, or all of whose partners have met them, leave the outcome alone.\<close>

lemma sorted_out_moved:
  assumes "sorted_out key w k z (f @ p # g) k' z' c'" "set (f @ p # g) = insert p (set c)" "key p \<notin> key ` set w"
  shows "sorted_out key w k (p # z) c k' z' c'"
  using assms unfolding sorted_out_def by auto

lemma sorted_out_skip:
  assumes "sorted_out key w k z c k' z' c'" "key p \<notin> key ` set z"
  shows "sorted_out key (p # w) k z c k' z' c'"
proof -
  have "key x \<noteq> key p" if "x \<in> set z" for x using that assms(2) by (metis image_eqI)
  then show ?thesis using assms(1) unfolding sorted_out_def by auto
qed

lemma sorted_out_kept:
  assumes "sorted_out key w (k @ [p]) z c k' z' c'" "key p = key q" "key q \<notin> key ` set z"
  shows "sorted_out key (q # w) k (p # z) c k' z' c'"
proof -
  have "key x \<noteq> key q" if "x \<in> set z" for x using that assms(3) by (metis image_eqI)
  then show ?thesis using assms(1,2) unfolding sorted_out_def by auto
qed

text \<open>The outcome of the walk over two maps that starts with the items \<open>z1\<close> and \<open>z2\<close> ahead.\<close>

fun delta_result ::
  "(nat \<Rightarrow> u64) \<Rightarrow> cl_qmap \<times> nat list \<Rightarrow> cl_qmap \<times> nat list \<times> nat list \<Rightarrow> cl_qmap \<times> nat list \<Rightarrow> cl_qmap \<times> nat list \<times> nat list \<Rightarrow>
    (fault + cl_qmap \<times> cl_qmap \<times> cl_qmap \<times> cl_qmap \<times> nat \<times> nat \<times> cl_map_items) option \<Rightarrow> bool" where
  "delta_result key (n, nl) (m2, k2, z2) (d, ol) (m1, k1, z1) R \<longleftrightarrow>
    (\<exists>m1' m2' n' d' h' k1' z1' k2' z2' nl' ol'.
      R = Some (Inr (m1', m2', n', d', after (map_nil m1') z1', after (map_nil m2') z2', h')) \<and>
      held h' [(n', nl'), (m2', k2' @ z2'), (d', ol'), (m1', k1' @ z1')] \<and> item_key h' = key \<and>
      (same_ends n n' \<and> same_ends m2 m2' \<and> same_ends d d' \<and> same_ends m1 m1') \<and>
      sorted_out key z2 k1 z1 ol k1' z1' ol' \<and> sorted_out key z1 k2 z2 nl k2' z2' nl')"

declare delta_result.simps [simp del]

lemma delta_result_step:
  assumes "delta_result key (n, nl) (m2, k2, z2) (d, ol) (m1, k1, z1) R"
    and "same_ends n0 n" "same_ends m20 m2" "same_ends d0 d" "same_ends m10 m1"
    and "\<And>k' z' c'. sorted_out key z2 k1 z1 ol k' z' c' \<Longrightarrow> sorted_out key y2 j1 y1 pl k' z' c'"
    and "\<And>k' z' c'. sorted_out key z1 k2 z2 nl k' z' c' \<Longrightarrow> sorted_out key y1 j2 y2 ml k' z' c'"
  shows "delta_result key (n0, ml) (m20, j2, y2) (d0, pl) (m10, j1, y1) R"
proof -
  obtain m1' m2' n' d' h' k1' z1' k2' z2' nl' ol' where r:
    "R = Some (Inr (m1', m2', n', d', after (map_nil m1') z1', after (map_nil m2') z2', h'))"
    "held h' [(n', nl'), (m2', k2' @ z2'), (d', ol'), (m1', k1' @ z1')]" "item_key h' = key"
    "same_ends n n' \<and> same_ends m2 m2' \<and> same_ends d d' \<and> same_ends m1 m1'"
    "sorted_out key z2 k1 z1 ol k1' z1' ol'" "sorted_out key z1 k2 z2 nl k2' z2' nl'" using assms(1) unfolding delta_result.simps by blast
  have "same_ends n0 n' \<and> same_ends m20 m2' \<and> same_ends d0 d' \<and> same_ends m10 m1'" using r(4) assms(2-5) same_ends_trans by blast
  then show ?thesis unfolding delta_result.simps using r(1-3) assms(6)[OF r(5)] assms(7)[OF r(6)] by blast
qed

lemma delta_loop_old:
  assumes "held h [(n, nl), (m2, k2 @ q # y2), (d, ol), (m1, k1 @ p # y1)]" "item_key h p < item_key h q" "item_key h p \<notin> item_key h ` set ol"
  shows "\<exists>d' m1' h'. delta_loop m1 m2 n d p q h = delta_loop m1' m2 n d' (after (map_nil m1') y1) q h' \<and> same_ends d d' \<and> same_ends m1 m1' \<and>
    item_key h' = item_key h \<and> held h' [(n, nl), (m2, k2 @ q # y2), (d', placed h p ol), (m1', k1 @ y1)]"
proof -
  have "held h ((d, ol) # (m1, k1 @ p # y1) # [(n, nl), (m2, k2 @ q # y2)])" using assms(1) by (simp only: held_turn)
  from delta_move_ok[OF this assms(3)] obtain d' m1' h' where m: "cl_qmap_delta_move d m1 p h = Inr (after (map_nil m1') y1, d', m1', h')"
    "same_ends d d'" "same_ends m1 m1'" "item_key h' = item_key h" "held h' [(d', placed h p ol), (m1', k1 @ y1), (n, nl), (m2, k2 @ q # y2)]" by blast
  have "p \<noteq> map_nil m1" "q \<noteq> map_nil m2" using assms(1) keepsD(1)[of h m1 "k1 @ p # y1"] keepsD(1)[of h m2 "k2 @ q # y2"] by (auto simp: held_Cons)
  then have "delta_loop m1 m2 n d p q h = delta_loop m1' m2 n d' (after (map_nil m1') y1) q h'" using m(1) assms(2) by (subst delta_loop.simps) simp
  then show ?thesis using m(2-4) m(5)[unfolded held_turn[of h' "(d', placed h p ol)"]] by blast
qed

lemma delta_loop_new:
  assumes "held h [(n, nl), (m2, k2 @ q # y2), (d, ol), (m1, k1 @ p # y1)]" "item_key h q < item_key h p" "item_key h q \<notin> item_key h ` set nl"
  shows "\<exists>n' m2' h'. delta_loop m1 m2 n d p q h = delta_loop m1 m2' n' d p (after (map_nil m2') y2) h' \<and> same_ends n n' \<and> same_ends m2 m2' \<and>
    item_key h' = item_key h \<and> held h' [(n', placed h q nl), (m2', k2 @ y2), (d, ol), (m1, k1 @ p # y1)]"
proof -
  obtain n' m2' h' where m: "cl_qmap_delta_move n m2 q h = Inr (after (map_nil m2') y2, n', m2', h')"
    "same_ends n n'" "same_ends m2 m2'" "item_key h' = item_key h" "held h' [(n', placed h q nl), (m2', k2 @ y2), (d, ol), (m1, k1 @ p # y1)]"
    using delta_move_ok[OF assms(1,3)] by blast
  have "p \<noteq> map_nil m1" "q \<noteq> map_nil m2" using assms(1) keepsD(1)[of h m1 "k1 @ p # y1"] keepsD(1)[of h m2 "k2 @ q # y2"] by (auto simp: held_Cons)
  then have "delta_loop m1 m2 n d p q h = delta_loop m1 m2' n' d p (after (map_nil m2') y2) h'" using m(1) assms(2) by (subst delta_loop.simps) auto
  then show ?thesis using m(2-5) by blast
qed

lemma delta_loop_ok:
  assumes "held h [(n, nl), (m2, k2 @ z2), (d, ol), (m1, k1 @ z1)]"
    and "item_key h ` set nl \<inter> item_key h ` set z2 = {}" "item_key h ` set ol \<inter> item_key h ` set z1 = {}"
  shows "delta_result (item_key h) (n, nl) (m2, k2, z2) (d, ol) (m1, k1, z1)
    (delta_loop m1 m2 n d (after (map_nil m1) z1) (after (map_nil m2) z2) h)"
  using assms
proof (induction "length z1 + length z2" arbitrary: m1 m2 n d h k1 z1 k2 z2 nl ol rule: less_induct)
  case less
  let ?key = "item_key h"
  have k: "keeps h m1 (k1 @ z1)" "keeps h m2 (k2 @ z2)" using less.prems(1) by (simp_all add: held_Cons)
  note ends = after_end[OF k(1)] after_end[OF k(2)]
  have refl: "same_ends m m" for m by (simp add: same_ends_def)
  consider "z1 = [] \<or> z2 = []" | p y1 q y2 where "z1 = p # y1" "z2 = q # y2" by (metis list.exhaust)
  then show ?case
  proof cases
    case 1
    then have "delta_loop m1 m2 n d (after (map_nil m1) z1) (after (map_nil m2) z2) h =
      Some (Inr (m1, m2, n, d, after (map_nil m1) z1, after (map_nil m2) z2, h))" using ends by (subst delta_loop.simps) auto
    moreover have "sorted_out ?key z2 k1 z1 ol k1 z1 ol" "sorted_out ?key z1 k2 z2 nl k2 z2 nl"
      using 1 less.prems(2,3) by (auto simp: sorted_out_def)
    ultimately show ?thesis unfolding delta_result.simps using less.prems(1) refl by blast
  next
    case 2
    have at: "after (map_nil m1) z1 = p" "after (map_nil m2) z2 = q" and ne: "p \<noteq> map_nil m1" "q \<noteq> map_nil m2"
      using 2 ends by (simp_all add: after_def)
    have s1: "?key p < ?key x" if "x \<in> set y1" for x using keepsD(2)[OF k(1)] that 2 by (simp add: sorted_wrt_append)
    have s2: "?key q < ?key x" if "x \<in> set y2" for x using keepsD(2)[OF k(2)] that 2 by (simp add: sorted_wrt_append)
    have p: "?key p \<notin> ?key ` set y1" using s1 by fastforce
    have q: "?key q \<notin> ?key ` set y2" using s2 by fastforce
    have old: "?key p \<notin> ?key ` set ol" and new: "?key q \<notin> ?key ` set nl" using less.prems(2,3) 2 by auto
    consider "?key p < ?key q" | "?key q < ?key p" | "?key p = ?key q" by fastforce
    then show ?thesis
    proof cases
      case a: 1
      then have pz: "?key p \<notin> ?key ` set z2" using s2 2 by force
      obtain d' m1' h' where m: "delta_loop m1 m2 n d p q h = delta_loop m1' m2 n d' (after (map_nil m1') y1) q h'" "same_ends d d'" "same_ends m1 m1'"
        "item_key h' = ?key" "held h' [(n, nl), (m2, k2 @ z2), (d', placed h p ol), (m1', k1 @ y1)]"
        using delta_loop_old[OF _ a old] less.prems(1) unfolding 2 by blast
      have "delta_result (item_key h') (n, nl) (m2, k2, z2) (d', placed h p ol) (m1', k1, y1)
        (delta_loop m1' m2 n d' (after (map_nil m1') y1) (after (map_nil m2) z2) h')"
        by (rule less.hyps[OF _ m(5)]) (use 2 less.prems(2,3) p in \<open>auto simp: m(4) set_placed[OF old]\<close>)
      then show ?thesis unfolding m(4) at m(1)
        by (rule delta_result_step[OF _ refl refl m(2,3)])
          (use 2 pz sorted_out_moved[OF _ set_placed[OF old] pz] sorted_out_skip in \<open>auto\<close>)
    next
      case a: 2
      then have qz: "?key q \<notin> ?key ` set z1" using s1 2 by force
      obtain n' m2' h' where m: "delta_loop m1 m2 n d p q h = delta_loop m1 m2' n' d p (after (map_nil m2') y2) h'" "same_ends n n'" "same_ends m2 m2'"
        "item_key h' = ?key" "held h' [(n', placed h q nl), (m2', k2 @ y2), (d, ol), (m1, k1 @ z1)]"
        using delta_loop_new[OF _ a new] less.prems(1) unfolding 2 by blast
      have "delta_result (item_key h') (n', placed h q nl) (m2', k2, y2) (d, ol) (m1, k1, z1)
        (delta_loop m1 m2' n' d (after (map_nil m1) z1) (after (map_nil m2') y2) h')"
        by (rule less.hyps[OF _ m(5)]) (use 2 less.prems(2,3) q in \<open>auto simp: m(4) set_placed[OF new]\<close>)
      then show ?thesis unfolding m(4) at m(1)
        by (rule delta_result_step[OF _ m(2,3) refl refl])
          (use 2 qz sorted_out_moved[OF _ set_placed[OF new] qz] sorted_out_skip in \<open>auto\<close>)
    next
      case a: 3
      have nx: "cl_qmap_next p h = after (map_nil m1) y1" "cl_qmap_next q h = after (map_nil m2) y2"
        using keeps_next[of h m1 k1 p y1] keeps_next[of h m2 k2 q y2] k 2 by simp_all
      have st: "delta_loop m1 m2 n d p q h = delta_loop m1 m2 n d (after (map_nil m1) y1) (after (map_nil m2) y2) h"
        using a ne nx by (subst delta_loop.simps) simp
      have "delta_result ?key (n, nl) (m2, k2 @ [q], y2) (d, ol) (m1, k1 @ [p], y1)
        (delta_loop m1 m2 n d (after (map_nil m1) y1) (after (map_nil m2) y2) h)"
        by (rule less.hyps) (use 2 less.prems in auto)
      moreover have "sorted_out ?key y2 (k1 @ [p]) y1 ol k' z' c' \<Longrightarrow> sorted_out ?key z2 k1 z1 ol k' z' c'" for k' z' c'
        unfolding 2 by (erule sorted_out_kept) (use a p in auto)
      moreover have "sorted_out ?key y1 (k2 @ [q]) y2 nl k' z' c' \<Longrightarrow> sorted_out ?key z1 k2 z2 nl k' z' c'" for k' z' c'
        unfolding 2 by (erule sorted_out_kept) (use a q in auto)
      ultimately show ?thesis unfolding at st by (rule delta_result_step[OF _ refl refl refl refl])
    qed
  qed
qed

section \<open>What merging and comparing do to the maps\<close>

text \<open>Maps that share neither an item nor a sentinel.\<close>

definition footprint :: "cl_qmap \<times> (u64 \<rightharpoonup> nat) \<Rightarrow> nat set" where
  "footprint = (\<lambda>(m, M). {map_root m, map_nil m} \<union> ran M)"

fun apart :: "(cl_qmap \<times> (u64 \<rightharpoonup> nat)) list \<Rightarrow> bool" where
  "apart [] \<longleftrightarrow> True"
| "apart (e # L) \<longleftrightarrow> (\<forall>f \<in> set L. footprint e \<inter> footprint f = {}) \<and> apart L"

lemma stands_for_keeps: "stands_for (m, h) M \<Longrightarrow> \<exists>xs. keeps h m xs \<and> M = entries h xs \<and> ran M = set xs"
  unfolding stands_for_def keeps_def using entries_ran[OF qmap_atD(4)] by fastforce

lemma keeps_stands_for:
  assumes "keeps h m xs" "\<And>k x. M k = Some x \<longleftrightarrow> x \<in> set xs \<and> item_key h x = k"
  shows "stands_for (m, h) M"
proof -
  obtain t where t: "qmap_at m h t" "inord t = xs" using assms(1) by (auto simp: keeps_def)
  have "entries h xs = M" using entries_eqI[OF keepsD(2)[OF assms(1)] assms(2)] .
  then show ?thesis using stands_forI[OF t(1)] t(2) by simp
qed

lemma merge_ok:
  assumes "held h [(d, ys), (s, xs)]"
  shows "\<exists>d' s' h'. cl_qmap_merge d s h = Inr (d', s', h') \<and> stands_for (d', h') (entries h xs ++ entries h ys) \<and>
    stands_for (s', h') (entries h xs |` dom (entries h ys))"
proof -
  have k: "keeps h d ys" "keeps h s xs" using assms by (simp_all add: held_Cons)
  note e = entries_Some[OF keepsD(2)[OF k(1)]] entries_Some[OF keepsD(2)[OF k(2)]]
  obtain d' s' h' ys' xs' where m: "merge_loop d s (after (map_nil s) xs) h = Some (Inr (d', s', h'))"
    "item_key h' = item_key h" "held h' [(d', ys'), (s', xs')]"
    "set ys' = set ys \<union> {z \<in> set xs. item_key h z \<notin> item_key h ` set ys}"
    "set xs' = {z \<in> set xs. item_key h z \<in> item_key h ` set ys}" using merge_loop_ok[of h d ys s "[]" xs "[]"] assms by auto
  have dom: "l \<in> dom (entries h ys) \<longleftrightarrow> l \<in> item_key h ` set ys" for l using e(1) by (auto simp: dom_def)
  have k': "keeps h' d' ys'" "keeps h' s' xs'" using m(3) by (simp_all add: held_Cons)
  have "stands_for (d', h') (entries h xs ++ entries h ys)"
  proof (rule keeps_stands_for[OF k'(1)])
    fix l x
    show "(entries h xs ++ entries h ys) l = Some x \<longleftrightarrow> x \<in> set ys' \<and> item_key h' x = l"
      using dom[of l] unfolding m(2,4) map_add_Some_iff e by (auto simp: domIff)
  qed
  moreover have "stands_for (s', h') (entries h xs |` dom (entries h ys))"
  proof (rule keeps_stands_for[OF k'(2)])
    fix l x
    show "(entries h xs |` dom (entries h ys)) l = Some x \<longleftrightarrow> x \<in> set xs' \<and> item_key h' x = l"
      using e(2) dom[of l] unfolding m(2,5) by (auto simp: restrict_map_def)
  qed
  moreover have "cl_qmap_merge d s h = Inr (d', s', h')" using m(1) keeps_head[OF k(2)] by (simp add: cl_qmap_merge_def)
  ultimately show ?thesis by blast
qed

lemma keeps_restrict:
  assumes "keeps h m xs" "keeps h' m' xs'" "item_key h' = item_key h" "set xs' = {x \<in> set xs. item_key h x \<in> A}"
  shows "stands_for (m', h') (entries h xs |` A)"
proof (rule keeps_stands_for[OF assms(2)])
  fix l x
  show "(entries h xs |` A) l = Some x \<longleftrightarrow> x \<in> set xs' \<and> item_key h' x = l"
    using entries_Some[OF keepsD(2)[OF assms(1)], of l x] unfolding assms(3,4) by (auto simp: restrict_map_def)
qed

lemma keeps_dom: "keeps h m xs \<Longrightarrow> item_key h ` set xs = dom (entries h xs)"
  using entries_Some[OF keepsD(2)] by (fastforce simp: dom_def)

lemma delta_ok:
  assumes "held h [(n, []), (m2, l2), (d, []), (m1, l1)]"
  shows "\<exists>m1' m2' n' d' h'. cl_qmap_delta m1 m2 n d h = Inr (m1', m2', n', d', h') \<and>
    stands_for (m1', h') (entries h l1 |` dom (entries h l2)) \<and> stands_for (m2', h') (entries h l2 |` dom (entries h l1)) \<and>
    stands_for (n', h') (entries h l2 |` (- dom (entries h l1))) \<and> stands_for (d', h') (entries h l1 |` (- dom (entries h l2)))"
proof -
  have k: "keeps h n []" "keeps h m2 l2" "keeps h d []" "keeps h m1 l1" using assms by (simp_all add: held_Cons)
  obtain m1' m2' n' d' h' k1 z1 k2 z2 nl ol where l:
    "delta_loop m1 m2 n d (after (map_nil m1) l1) (after (map_nil m2) l2) h =
      Some (Inr (m1', m2', n', d', after (map_nil m1') z1, after (map_nil m2') z2, h'))"
    "held h' [(n', nl), (m2', k2 @ z2), (d', ol), (m1', k1 @ z1)]" "item_key h' = item_key h"
    "sorted_out (item_key h) l2 [] l1 [] k1 z1 ol" "sorted_out (item_key h) l1 [] l2 [] k2 z2 nl"
    using delta_loop_ok[of h n "[]" m2 "[]" l2 d "[]" m1 "[]" l1] assms unfolding delta_result.simps by auto
  obtain n2 m22 h2 nl2 where a: "drain_loop n' m2' (after (map_nil m2') z2) h' = Some (Inr (n2, m22, h2))" "item_key h2 = item_key h"
    "held h2 [(n2, nl2), (m22, k2), (d', ol), (m1', k1 @ z1)]" "set nl2 = set nl \<union> set z2"
    using drain_loop_ok[OF l(2)] l(5) unfolding sorted_out_def l(3) by auto
  obtain d3 m13 h3 ol3 where b: "drain_loop d' m1' (after (map_nil m1') z1) h2 = Some (Inr (d3, m13, h3))" "item_key h3 = item_key h"
    "held h3 [(d3, ol3), (m13, k1), (n2, nl2), (m22, k2)]" "set ol3 = set ol \<union> set z1"
    using drain_loop_ok[OF a(3)[unfolded held_turn[of h2 "(n2, nl2)"]]] l(4) unfolding sorted_out_def a(2) by auto
  have k3: "keeps h3 d3 ol3" "keeps h3 m13 k1" "keeps h3 n2 nl2" "keeps h3 m22 k2" using b(3) by (simp_all add: held_Cons)
  have "map_count n = 0" "map_count d = 0" using k(1,3) by (auto simp: keeps_def qmap_at_def)
  then have "cl_qmap_delta m1 m2 n d h = Inr (m13, m22, n2, d3, h3)"
    using l(1) a(1) b(1) keeps_head[OF k(4)] keeps_head[OF k(2)] by (simp add: cl_qmap_delta_def asserting_def cl_is_qmap_empty_def)
  moreover have "stands_for (m13, h3) (entries h l1 |` dom (entries h l2))"
    by (rule keeps_restrict[OF k(4) k3(2) b(2)]) (use l(4) in \<open>simp add: sorted_out_def keeps_dom[OF k(2)]\<close>)
  moreover have "stands_for (m22, h3) (entries h l2 |` dom (entries h l1))"
    by (rule keeps_restrict[OF k(2) k3(4) b(2)]) (use l(5) in \<open>simp add: sorted_out_def keeps_dom[OF k(4)]\<close>)
  moreover have "stands_for (n2, h3) (entries h l2 |` (- dom (entries h l1)))"
    by (rule keeps_restrict[OF k(2) k3(3) b(2)]) (use l(5) a(4) in \<open>simp add: sorted_out_def keeps_dom[OF k(4)]\<close>)
  moreover have "stands_for (d3, h3) (entries h l1 |` (- dom (entries h l2)))"
    by (rule keeps_restrict[OF k(4) k3(1) b(2)]) (use l(4) b(4) in \<open>simp add: sorted_out_def keeps_dom[OF k(2)]\<close>)
  ultimately show ?thesis by blast
qed

lemma apart_held:
  assumes "\<forall>(m, xs)\<in>set L. keeps h m xs" "apart (map (\<lambda>(m, xs). (m, entries h xs)) L)"
  shows "held h L"
  using assms
proof (induction L)
  case (Cons e L)
  obtain m xs where e: "e = (m, xs)" by fastforce
  have fp: "footprint (m, entries h xs) = set (cells (m, xs))" if "keeps h m xs" for m xs
    using entries_ran[OF keepsD(2)[OF that]] by (auto simp: footprint_def)
  have "set (cells (m, xs)) \<inter> set (cells f) = {}" if f: "f \<in> set L" for f
  proof -
    obtain m' xs' where f': "f = (m', xs')" by fastforce
    have "keeps h m xs" "keeps h m' xs'" using Cons.prems(1) f unfolding e f' by auto
    moreover have "footprint (m, entries h xs) \<inter> footprint (m', entries h xs') = {}" using Cons.prems(2) f unfolding e f' by force
    ultimately show ?thesis unfolding f' by (simp only: fp)
  qed
  then show ?case using Cons unfolding e held_Cons by auto
qed simp

text \<open>
  Property C26: merging a source map into a destination map, with no item or sentinel in common,
  returns without a fault. The destination then has its own entries and those of the source whose
  keys it did not have, and the source keeps the entries whose keys the destination had.
\<close>
theorem qmap_merge_correct:
  assumes "stands_for (d, h) D" "stands_for (s, h) S" "apart [(d, D), (s, S)]"
  shows "\<exists>d' s' h'. cl_qmap_merge d s h = Inr (d', s', h') \<and> stands_for (d', h') (S ++ D) \<and> stands_for (s', h') (S |` dom D)"
proof -
  obtain ys xs where k: "keeps h d ys" "D = entries h ys" "keeps h s xs" "S = entries h xs"
    using stands_for_keeps[OF assms(1)] stands_for_keeps[OF assms(2)] by blast
  have "held h [(d, ys), (s, xs)]" by (rule apart_held) (use k assms(3) in simp_all)
  from merge_ok[OF this] show ?thesis unfolding k .
qed

text \<open>
  Property C27: comparing two maps, with two empty maps to take the differences and no item or
  sentinel in common, returns without a fault. The first map keeps the entries whose keys are in the second and
  the second those whose keys are in the first; the entries of the second map that are not in the first
  are moved to the map of the new ones, and the entries of the first that are not in the second to the map of the old ones.
\<close>
theorem qmap_delta_correct:
  assumes "stands_for (m1, h) M1" "stands_for (m2, h) M2" "stands_for (n, h) Map.empty" "stands_for (d, h) Map.empty"
    and "apart [(n, Map.empty), (m2, M2), (d, Map.empty), (m1, M1)]"
  shows "\<exists>m1' m2' n' d' h'. cl_qmap_delta m1 m2 n d h = Inr (m1', m2', n', d', h') \<and>
    stands_for (m1', h') (M1 |` dom M2) \<and> stands_for (m2', h') (M2 |` dom M1) \<and>
    stands_for (n', h') (M2 |` (- dom M1)) \<and> stands_for (d', h') (M1 |` (- dom M2))"
proof -
  obtain l1 l2 where k: "keeps h m1 l1" "M1 = entries h l1" "keeps h m2 l2" "M2 = entries h l2"
    using stands_for_keeps[OF assms(1)] stands_for_keeps[OF assms(2)] by blast
  have e: "keeps h n []" "keeps h d []" using stands_for_keeps[OF assms(3)] stands_for_keeps[OF assms(4)] by (metis ran_empty set_empty)+
  have "entries h [] = Map.empty" by (simp add: entries_def fun_eq_iff)
  then have "held h [(n, []), (m2, l2), (d, []), (m1, l1)]" by (intro apart_held) (use k e assms(5) in simp_all)
  from delta_ok[OF this] show ?thesis unfolding k .
qed

section \<open>Four maps\<close>

text \<open>
  A heap with four maps: the first has item 9 with key 1, the second items 10 and 11 with keys 1 and 2, and
  the third and the fourth are empty. Their roots have odd and their ends even addresses.
\<close>

definition four_maps :: cl_map_items where
  "four_maps = \<lparr>thread = \<lparr>nxt = (!) [0, 0, 9, 0, 10, 0, 6, 0, 8, 2, 11, 4], prv = (!) [0, 0, 9, 0, 11, 0, 6, 0, 8, 2, 4, 10]\<rparr>,
    child = (\<lambda>s. (!) (if s = Lft then [0, 9, 0, 10, 0, 6, 0, 8, 0, 2, 4, 4] else [0, 0, 0, 0, 0, 0, 0, 0, 0, 2, 11, 4])),
    p_up = (!) [0, 1, 0, 3, 0, 5, 0, 7, 0, 1, 3, 10],
    color = (\<lambda>x. if x = 11 then CL_MAP_RED else CL_MAP_BLACK),
    item_key = (!) [0, 0, 0, 0, 0, 0, 0, 0, 0, 1, 1, 2]\<rparr>"

definition numbered :: "nat \<Rightarrow> u64 \<Rightarrow> cl_qmap" where
  "numbered i c = \<lparr>map_root = 2 * i + 1, map_nil = 2 * i + 2, map_count = c\<rparr>"

lemma four_maps_one: "stands_for (numbered 0 1, four_maps) [1 \<mapsto> 9]"
proof (rule stands_forI)
  show "qmap_at (numbered 0 1) four_maps (Br CL_MAP_BLACK Tip 9 Tip)"
    by (simp add: qmap_at_def tree_in_def holds_def four_maps_def numbered_def ptr.simps exI[of _ 1])
qed (simp add: entries_def four_maps_def fun_eq_iff)

lemma four_maps_two: "stands_for (numbered 1 2, four_maps) [1 \<mapsto> 10, 2 \<mapsto> 11]"
proof (rule stands_forI)
  show "qmap_at (numbered 1 2) four_maps (Br CL_MAP_BLACK Tip 10 (Br CL_MAP_RED Tip 11 Tip))"
    by (simp add: qmap_at_def tree_in_def holds_def four_maps_def numbered_def exI[of _ 1])
qed (simp add: entries_def four_maps_def fun_eq_iff)

lemma four_maps_none:
  "stands_for (numbered 2 0, four_maps) Map.empty" "stands_for (numbered 3 0, four_maps) Map.empty"
  by (auto intro!: stands_forI[of _ _ Tip] simp: qmap_at_def tree_in_def holds_def four_maps_def numbered_def entries_def fun_eq_iff)

lemma four_maps_apart: "apart [(numbered 2 0, Map.empty), (numbered 1 2, [1 \<mapsto> 10, 2 \<mapsto> 11]), (numbered 3 0, Map.empty), (numbered 0 1, [1 \<mapsto> 9])]"
  "apart [(numbered 0 1, [1 \<mapsto> 9]), (numbered 1 2, [1 \<mapsto> 10, 2 \<mapsto> 11])]"
  by (simp_all add: footprint_def numbered_def)

lemma four_maps_parts:
  "[1 \<mapsto> 10, 2 \<mapsto> 11] ++ [1 \<mapsto> 9] = ([1 \<mapsto> 9, 2 \<mapsto> 11] :: u64 \<rightharpoonup> nat)"
  "[1 \<mapsto> 9] |` dom ([1 \<mapsto> 10, 2 \<mapsto> 11] :: u64 \<rightharpoonup> nat) = ([1 \<mapsto> 9] :: u64 \<rightharpoonup> nat)"
  "[1 \<mapsto> 10, 2 \<mapsto> 11] |` dom ([1 \<mapsto> 9] :: u64 \<rightharpoonup> nat) = ([1 \<mapsto> 10] :: u64 \<rightharpoonup> nat)"
  "[1 \<mapsto> 10, 2 \<mapsto> 11] |` (- dom ([1 \<mapsto> 9] :: u64 \<rightharpoonup> nat)) = ([2 \<mapsto> 11] :: u64 \<rightharpoonup> nat)"
  "[1 \<mapsto> 9] |` (- dom ([1 \<mapsto> 10, 2 \<mapsto> 11] :: u64 \<rightharpoonup> nat)) = (Map.empty :: u64 \<rightharpoonup> nat)"
  by (simp_all add: fun_eq_iff restrict_map_def map_add_def)

theorem qmap_merge_correct_witness:
  "\<exists>d' s' h'. cl_qmap_merge (numbered 0 1) (numbered 1 2) four_maps = Inr (d', s', h') \<and>
    stands_for (d', h') [1 \<mapsto> 9, 2 \<mapsto> 11] \<and> stands_for (s', h') [1 \<mapsto> 10]"
  using qmap_merge_correct[OF four_maps_one four_maps_two four_maps_apart(2)] unfolding four_maps_parts .

theorem qmap_delta_correct_witness:
  "\<exists>m1' m2' n' d' h'. cl_qmap_delta (numbered 0 1) (numbered 1 2) (numbered 2 0) (numbered 3 0) four_maps = Inr (m1', m2', n', d', h') \<and>
    stands_for (m1', h') [1 \<mapsto> 9] \<and> stands_for (m2', h') [1 \<mapsto> 10] \<and> stands_for (n', h') [2 \<mapsto> 11] \<and> stands_for (d', h') Map.empty"
  using qmap_delta_correct[OF four_maps_one four_maps_two four_maps_none four_maps_apart(1)] unfolding four_maps_parts .

end
