(* ===== verification/Spec2Isabelle.thy ===== *)
theory Spec2Isabelle
  imports Token_CAS Isolation Mlx5_Ifc Ccan_List Indexer Crc32 Icm_Sync Arg_Pool Qmap_Merge
begin

text \<open>
  Verification of rdmaperf-iso, performance isolation for tenants of one RDMA network card.
  All paths below are relative to \<open>src/\<close>; \<open>rdma-core-51mlnx1/\<close> is left out of the paths of the libraries.

  \<^bold>\<open>The program.\<close> A monitor process (\<open>src/monitor.c\<close>) reads a configuration file that names the tenants and
  creates a table in shared memory. Every tenant is a process that links a changed libibverbs. At start-up it
  attaches to its row of the table (\<open>libibverbs/init.c\<close>), each queue pair takes cells of
  the token buckets (\<open>libibverbs/verbs.c\<close>), and before a post reaches the device a
  best-effort tenant waits for one request token and for a token per byte
  (\<open>libibverbs/verbs.h\<close>, \<open>libibverbs/tokenbucket.c\<close>). The monitor reads the latencies and the bandwidth that the
  tenants report in the table (\<open>libibverbs/resource_table.c\<close>) and sets the rate of the best-effort bucket.
  Below that, the repository carries the rdma-core libraries. Of these the development covers
  the data structures that the other parts rest on, and the memory management of the steering
  engine of the mlx5 driver.

  \<^bold>\<open>Conventions.\<close> A C integer is a word of its width where it can wrap around, and a natural number or an
  integer where a guard of the model keeps it in range. An execution that C leaves undefined, or that ends with a signal, is
  a value \<open>Inl f\<close> of the type \<open>fault + 'a\<close> of \<^theory_text>\<open>Prelude\<close>: indices out of bounds, null and dangling pointers, shifts
  that are too far, overflow of signed integers, conversions of doubles out of range, failed assertions. A
  loop that may not end is a \<open>partial_function\<close> to an option, so that not ending is \<open>None\<close>; the properties show that
  it returns. Clocks, allocations, device calls and the environment of the process are arguments.

  \<^bold>\<open>Theories and sources.\<close>

  \<^item> \<open>Prelude\<close>: types, faults, loops, and the locale \<open>transition_inv\<close> that lifts an invariant to runs. It is
    interpreted for the machine of the token bucket, for the whole system, and for the two kinds of pools.
  \<^item> \<open>CDouble\<close>: doubles as far as the rates need them, with rounding to 53 bits.
  \<^item> \<open>Token_Bucket\<close>, \<open>Token_Wait\<close>, \<open>Token_CAS\<close>: \<open>libibverbs/tokenbucket.c\<close> and \<open>.h\<close>. \<open>Token_Bucket\<close> has the
    operations, the limit on what is granted in a window of time, and the failure at rate 0. \<open>Token_Wait\<close> shows
    that waiting ends. \<open>Token_CAS\<close> lets any number of callers interleave at each load and compare-and-swap of
    \<open>consume\<close>.
  \<^item> \<open>Qp_Cache\<close>: \<open>libibverbs/qp_cache.c\<close> and \<open>.h\<close>, refined to a set of handles.
  \<^item> \<open>Resource_Table\<close>: \<open>libibverbs/resource_table.c\<close> and \<open>.h\<close>, the table and the history ring.
  \<^item> \<open>C_Lib\<close>: the functions of the C library that the monitor reads its options and its file with.
  \<^item> \<open>Monitor\<close>, \<open>Monitor_Rates\<close>, \<open>Monitor_Choice\<close>, \<open>Monitor_Config\<close>: \<open>src/monitor.c\<close> and \<open>.h\<close>. The first has the
    definitions. The others have the slack and the rates, the four searches by the locale \<open>scan\<close>, and the
    configuration file with start-up.
  \<^item> \<open>Verbs_Iso\<close>: the isolation in \<open>libibverbs/init.c\<close>, \<open>verbs.c\<close> and \<open>verbs.h\<close>.
  \<^item> \<open>Isolation\<close>: monitor and tenants together, as a transition system on the shared table.
  \<^item> \<open>Devx\<close>, \<open>Ifc_Caps\<close>, \<open>Ifc_Steering\<close>, \<open>Ifc_Commands\<close>, \<open>Mlx5_Ifc\<close>: the field accessors of \<open>providers/mlx5/mlx5dv.h\<close> and
    the structures of \<open>providers/mlx5/mlx5_ifc.h\<close>, each as the list of its members and their widths.
  \<^item> \<open>Ring_Lists\<close>, \<open>KList\<close>, \<open>Ccan_List\<close>: the linked lists of \<open>src/list.h\<close> and \<open>ccan/list.h\<close>, \<open>ccan/list.c\<close> on a heap of
    links. The locale \<open>ring_ops\<close> is the contract of insertion and deletion, and the implementations interpret it,
    among them the small lists of \<open>librdmacm/indexer.h\<close>.
  \<^item> \<open>Indexer\<close>: the index store and the index map of \<open>librdmacm/indexer.c\<close> and \<open>.h\<close>.
  \<^item> \<open>Qmap\<close>, \<open>Qmap_Trees\<close>, \<open>Qmap_Insert\<close>, \<open>Qmap_Remove\<close>, \<open>Qmap_Maps\<close>, \<open>Qmap_Merge\<close>: the maps of \<open>util/cl_map.c\<close> and
    \<open>util/cl_qmap.h\<close>, red-black trees with parent pointers and a list through the items. \<open>Qmap\<close> has the operations on
    a heap of items. \<open>Qmap_Trees\<close> relates the heap to trees with a hole and has the red-black shapes. The next two follow the
    loops that balance after an insertion and a removal. \<open>Qmap_Maps\<close> has searching, the refinement of a finite map and the
    balance; \<open>Qmap_Merge\<close> has several maps on one heap, merging and comparing.
  \<^item> \<open>Ilog\<close>, \<open>Bitmap\<close>, \<open>Crc32\<close>: \<open>ccan/ilog.c\<close>, \<open>ccan/bitmap.c\<close> and \<open>.h\<close>, \<open>providers/mlx5/dr_crc32.c\<close>.
  \<^item> \<open>Buddy_Blocks\<close>, \<open>Run_Allocator\<close>, \<open>Buddy\<close>: \<open>providers/mlx5/dr_buddy.c\<close>. \<open>Buddy_Blocks\<close> specifies the sets of free
    blocks. \<open>Run_Allocator\<close> is the locale of what an allocator of aligned runs promises its clients, and
    \<open>Buddy\<close> interprets it on the model of the code.
  \<^item> \<open>Icm_Pool\<close>, \<open>Icm_Sync\<close>: the pools of device memory in \<open>providers/mlx5/dr_icm_pool.c\<close>. A pool is a heap of buddy
    allocators and a heap of chunks; its invariant uses the facts of the interpretation in \<open>Buddy\<close>.
  \<^item> \<open>Arg_Pool\<close>: the pools of modify-header arguments in the same file.

  \<^bold>\<open>What is shown.\<close> For the isolation: the tokens granted in a window of time are bounded by rate and burst, also with
  concurrent callers; waiting ends with exactly the tokens asked for; a post of a best-effort tenant pays for
  what it sends; the buckets stay consistent with their rates in every state that monitor and tenants
  reach; the monitor reads back a well-formed configuration and computes the slack, the choices and the rate it
  means to. The errors in the code are theorems too: the wrap-around of the best-effort
  rate under overload, the conversion of infinity at rate 0, the usage counter that is never incremented,
  tenants that the configuration does not list.
  For the data structures: each refines its abstract counterpart (sets of handles, sets of bits, families of lists, maps
  from indices) on every operation, and the optimised routines equal the plain ones (checksum, logarithms, search in
  bitmaps). A run of operations on a quick map never faults, answers as a finite map and keeps the tree balanced;
  merging and comparing move exactly the items they should. For the device structures: fields read back what was written and do not overlap.
  For the memory of the steering engine: an allocation succeeds exactly if a run of the size is free, a release restores
  the state before it, chunks and arguments that are in use never overlap in any run, requests are served while the
  device has memory, and the two error paths that go wrong do so as stated.

  \<^bold>\<open>Bounds.\<close> There is no fuel. Clock readings are an infinite sequence; the liveness of waiting assumes a clock that
  advances and a rate for which the time of a token is finite, and says after how many readings the call
  returns. The order of a buddy allocator is at most 30, since the code shifts the \<open>int\<close> 1 by it; the pools
  use at most 20. The granularity of arguments lies between 2 and 30 for the same reason. The history counts below \<open>2 ^ 32\<close>
  insertions, as its counter wraps around there, which is not a multiple of its length 100. The items of a quick map lie at
  addresses below \<open>2 ^ 64\<close>, so that its counter does not wrap.

  \<^bold>\<open>Not modelled.\<close> Endless loops of the monitor are modelled by their bodies; creating threads, sleeping, CPU affinity and
  printing have no effect on the modelled state. Weak memory is not modelled: each load and
  compare-and-swap is atomic and in program order. Of libibverbs the marshalling of verbs into kernel calls, device
  discovery and neighbour resolution are left out, since the kernel decides what they do. The rest of librdmacm is driven by
  kernel descriptors and device completions. Of the mlx5 driver the rings that are shared with the device and the
  encoding of rules are left out; the device is a parameter behind \<open>post_send\<close> and the outcomes of
  device calls. The other providers, the management libraries, the daemons, the diagnostics, the Python bindings and
  the build system are not used by the isolation.
\<close>

end
